(* ===== verification/Prelude.thy ===== *)
theory Prelude
  imports Main "HOL-Library.Word" "HOL-Library.List_Lexorder"
begin

text \<open>
  Shared vocabulary of the CURS3D development.

  \<^item> Machine integers. \<open>u8\<close>, \<open>u32\<close>, \<open>u64\<close>, \<open>u128\<close> are words of that width. The
    release profile of the crate (\<^verbatim>\<open>src/Cargo.toml\<close> has no \<^verbatim>\<open>[profile]\<close> section) compiles
    plain \<open>+\<close>, \<open>-\<close>, \<open>*\<close> and \<open>iter().sum()\<close> to wrapping arithmetic, which is what
    \<open>+\<close>, \<open>-\<close>, \<open>*\<close> and \<open>sum_list\<close> on words are. \<open>saturating_add\<close> and its kin are the functions
    \<open>sat_add\<close>, \<open>sat_sub\<close>, \<open>sat_mul\<close>. \<open>i64\<close> timestamps are \<open>int\<close>; \<open>usize\<close> lengths and
    indices are \<open>nat\<close>.
  \<^item> \<^verbatim>\<open>HashMap\<close>s are maps \<open>'k \<rightharpoonup> 'v\<close>. \<open>entries\<close> is the iteration over one, in key order.
  \<^item> \<open>total\<close> is the sum of a measure over a map, the tool of every conservation proof.
  \<^item> \<open>transition_system\<close> is the interface of a component whose operations keep an
    invariant; the components interpret it on their own step relations.
\<close>

section \<open>Types and machine integers\<close>

type_synonym u8 = "8 word"
type_synonym u32 = "32 word"
type_synonym u64 = "64 word"
type_synonym u128 = "128 word"
type_synonym u256 = "256 word"
type_synonym i64 = int
type_synonym bytes = "u8 list"

named_theorems u_simps \<open>reading machine arithmetic as arithmetic on natural numbers\<close>
named_theorems kv_simps \<open>sums over finite maps\<close>

definition sat_add :: "'a::len word \<Rightarrow> 'a word \<Rightarrow> 'a word" where
  "sat_add a b = (if unat a + unat b < 2 ^ LENGTH('a) then a + b else - 1)"

definition sat_sub :: "'a::len word \<Rightarrow> 'a word \<Rightarrow> 'a word" where
  "sat_sub a b = (if b \<le> a then a - b else 0)"

definition sat_mul :: "'a::len word \<Rightarrow> 'a word \<Rightarrow> 'a word" where
  "sat_mul a b = (if unat a * unat b < 2 ^ LENGTH('a) then a * b else - 1)"

definition checked_add :: "'a::len word \<Rightarrow> 'a word \<Rightarrow> 'a word option" where
  "checked_add a b = (if unat a + unat b < 2 ^ LENGTH('a) then Some (a + b) else None)"

definition checked_mul :: "'a::len word \<Rightarrow> 'a word \<Rightarrow> 'a word option" where
  "checked_mul a b = (if unat a * unat b < 2 ^ LENGTH('a) then Some (a * b) else None)"

definition checked_div :: "'a::len word \<Rightarrow> 'a word \<Rightarrow> 'a word option" where
  "checked_div a b = (if b = 0 then None else Some (a div b))"

definition abs_diff :: "'a::len word \<Rightarrow> 'a word \<Rightarrow> 'a word" where
  "abs_diff a b = (if a \<le> b then b - a else a - b)"

text \<open>\<open>slice.len() as u64\<close>.\<close>
definition len64 :: "'a list \<Rightarrow> u64" where
  "len64 xs = of_nat (length xs)"

text \<open>\<open>to_le_bytes\<close> of an \<open>n\<close>-byte integer and \<open>from_le_bytes\<close>.\<close>
definition le_bytes :: "nat \<Rightarrow> 'a::len word \<Rightarrow> bytes" where
  "le_bytes n w = map (\<lambda>i. ucast (drop_bit (8 * i) w)) [0..<n]"

abbreviation u64_le :: "u64 \<Rightarrow> bytes" where
  "u64_le \<equiv> le_bytes 8"

abbreviation u32_le :: "u32 \<Rightarrow> bytes" where
  "u32_le \<equiv> le_bytes 4"

fun from_le :: "bytes \<Rightarrow> 'a::len word" where
  "from_le [] = 0"
| "from_le (b # bs) = ucast b + 256 * from_le bs"

text \<open>A byte-string literal \<open>b"..."\<close>.\<close>
definition ascii :: "string \<Rightarrow> bytes" where
  "ascii s = map of_char s"

lemma unat_max_word [u_simps]: "unat (- 1 :: 'a::len word) = 2 ^ LENGTH('a) - 1"
  by (simp add: unsigned_minus_1_eq_mask mask_eq_exp_minus_1)

lemma unat_sat_add [u_simps]:
  "unat (sat_add a b) = min (unat a + unat b) (2 ^ LENGTH('a) - 1)"
  for a b :: "'a::len word"
  by (auto simp: sat_add_def unat_max_word unat_add_lem [THEN iffD1])

lemma unat_sat_sub [u_simps]: "unat (sat_sub a b) = unat a - unat b"
  by (auto simp: sat_sub_def unat_sub word_le_nat_alt)

lemma unat_sat_mul [u_simps]:
  "unat (sat_mul a b) = min (unat a * unat b) (2 ^ LENGTH('a) - 1)"
  for a b :: "'a::len word"
  by (auto simp: sat_mul_def unat_max_word unat_mult_lem [THEN iffD1])

lemma unat_abs_diff [u_simps]:
  "unat (abs_diff a b) = (if unat a \<le> unat b then unat b - unat a else unat a - unat b)"
  by (auto simp: abs_diff_def unat_sub word_le_nat_alt)

lemma unat_max_u [u_simps]: "unat (max a b) = max (unat a) (unat b)"
  for a b :: "'a::len word"
  by (simp add: max_def word_le_nat_alt)

lemma unat_min_u [u_simps]: "unat (min a b) = min (unat a) (unat b)"
  for a b :: "'a::len word"
  by (simp add: min_def word_le_nat_alt)

lemma unat_lt_u64: "unat (a :: u64) < 2 ^ 64"
  using unsigned_less [of a] by simp

lemmas u_order [u_simps] = word_le_nat_alt word_less_nat_alt

lemma unat_add_exact: "unat a + unat b < 2 ^ LENGTH('a) \<Longrightarrow> unat (a + b) = unat a + unat b"
  for a b :: "'a::len word"
  by (rule unat_add_lem [THEN iffD1])

lemma unat_sub_exact: "unat b \<le> unat a \<Longrightarrow> unat (a - b) = unat a - unat b"
  for a b :: "'a::len word"
  by (simp add: unat_sub word_le_nat_alt)

lemma min_add_cap: "min (min (x + y) m + z) m = min (x + min (y + z) m) m" for x y z m :: nat
  by (auto simp: min_def)

lemma sat_add_commute: "sat_add a b = sat_add b a"
  by (simp add: sat_add_def add.commute)

lemma sat_add_assoc: "sat_add (sat_add a b) c = sat_add a (sat_add b c)"
  by (rule word_unat_eq_iff [THEN iffD2]) (simp only: unat_sat_add min_add_cap)

lemma sat_add_left_commute: "sat_add a (sat_add b c) = sat_add b (sat_add a c)"
  by (metis sat_add_assoc sat_add_commute)

lemmas sat_add_ac = sat_add_assoc sat_add_commute sat_add_left_commute

lemma sat_add_0 [simp]: "sat_add a 0 = a" "sat_add 0 a = a"
  by (simp_all add: sat_add_def)

lemma sum_list_unat:
  "sum_list (map unat ws) < 2 ^ LENGTH('a) \<Longrightarrow> unat (sum_list ws) = sum_list (map unat ws)"
  for ws :: "'a::len word list"
  by (induction ws) (auto simp: unat_add_exact)

lemma unat_of_int_u64: "0 \<le> i \<Longrightarrow> i < 2 ^ 64 \<Longrightarrow> unat (of_int i :: u64) = nat i"
  by (simp add: unat_eq_nat_uint uint_word_of_int_eq take_bit_int_eq_self)

lemma unat_ucast_small: "unat w < 2 ^ LENGTH('b) \<Longrightarrow> unat (ucast w :: 'b::len word) = unat w"
  for w :: "'a::len word"
  by (simp add: unsigned_ucast_eq take_bit_nat_eq_self)

lemma unat_of_nat_small: "n < 2 ^ LENGTH('a) \<Longrightarrow> unat (of_nat n :: 'a::len word) = n"
  by (simp add: unsigned_of_nat take_bit_nat_eq_self)

lemma length_le_bytes [simp]: "length (le_bytes n w) = n"
  by (simp add: le_bytes_def)

lemma le_bytes_Suc: "le_bytes (Suc n) w = ucast w # le_bytes n (drop_bit 8 w)"
proof -
  have "[0..<Suc n] = 0 # map Suc [0..<n]" by (simp add: upt_conv_Cons map_Suc_upt del: upt_Suc)
  then show ?thesis by (simp add: le_bytes_def comp_def add.commute)
qed

lemma from_le_le_bytes: "from_le (le_bytes n w) = take_bit (8 * n) w" for w :: "'a::len word"
proof (induction n arbitrary: w)
  case 0
  then show ?case by (simp add: le_bytes_def)
next
  case (Suc n)
  have low: "(ucast (ucast w :: u8) :: 'a word) = take_bit 8 w"
    by (rule bit_word_eqI) (auto simp: bit_simps)
  have "256 * take_bit (8 * n) (drop_bit 8 w) = push_bit 8 (drop_bit 8 (take_bit (8 + 8 * n) w))"
    by (simp add: push_bit_eq_mult drop_bit_take_bit mult.commute)
  moreover have "take_bit 8 w = take_bit 8 (take_bit (8 + 8 * n) w)" by simp
  ultimately show ?case
    using bits_ident [of 8 "take_bit (8 + 8 * n) w"] by (simp add: le_bytes_Suc Suc low add.commute)
qed

lemma length_ascii [simp]: "length (ascii s) = length s"
  by (simp add: ascii_def)

section \<open>Finite maps\<close>

text \<open>\<open>map.get(k).copied().unwrap_or(0)\<close> and \<open>unwrap_or_default()\<close>.\<close>
definition get_or :: "'v \<Rightarrow> ('k \<rightharpoonup> 'v) \<Rightarrow> 'k \<Rightarrow> 'v" where
  "get_or d m k = (case m k of None \<Rightarrow> d | Some v \<Rightarrow> v)"

text \<open>The entries of a map, in the order of their keys.\<close>
definition entries :: "('k::linorder \<rightharpoonup> 'v) \<Rightarrow> ('k \<times> 'v) list" where
  "entries m = map (\<lambda>k. (k, the (m k))) (sorted_list_of_set (dom m))"

definition keys :: "('k::linorder \<rightharpoonup> 'v) \<Rightarrow> 'k list" where
  "keys m = sorted_list_of_set (dom m)"

definition total :: "('v \<Rightarrow> nat) \<Rightarrow> ('k \<rightharpoonup> 'v) \<Rightarrow> nat" where
  "total f m = (\<Sum>k\<in>dom m. f (the (m k)))"

lemma get_or_simps [simp]:
  "get_or d Map.empty k = d"
  "get_or d (m(k \<mapsto> v)) k = v"
  "k \<noteq> k' \<Longrightarrow> get_or d (m(k \<mapsto> v)) k' = get_or d m k'"
  by (simp_all add: get_or_def)

lemma get_or_upd: "get_or d (m(k \<mapsto> v)) k' = (if k' = k then v else get_or d m k')"
  by simp

lemma get_or_Some [simp]: "m k = Some v \<Longrightarrow> get_or d m k = v"
  by (simp add: get_or_def)

lemma get_or_None [simp]: "m k = None \<Longrightarrow> get_or d m k = d"
  by (simp add: get_or_def)

lemma set_entries: "finite (dom m) \<Longrightarrow> set (entries m) = {(k, v). m k = Some v}"
  by (auto simp: entries_def image_iff)

lemma in_entries_iff: "finite (dom m) \<Longrightarrow> (k, v) \<in> set (entries m) \<longleftrightarrow> m k = Some v"
  by (simp add: set_entries)

lemma map_fst_entries: "map fst (entries m) = keys m"
  by (simp add: entries_def keys_def comp_def)

lemma distinct_keys [simp]: "distinct (keys m)"
  by (simp add: keys_def)

lemma sorted_keys [simp]: "sorted (keys m)"
  by (simp add: keys_def)

lemma set_keys [simp]: "finite (dom m) \<Longrightarrow> set (keys m) = dom m"
  by (simp add: keys_def)

lemma entries_empty [simp]: "entries Map.empty = []"
  by (simp add: entries_def)

lemma total_empty [simp, kv_simps]: "total f Map.empty = 0"
  by (simp add: total_def)

lemma total_upd_new [kv_simps]:
  "finite (dom m) \<Longrightarrow> m k = None \<Longrightarrow> total f (m(k \<mapsto> v)) = total f m + f v"
  by (auto simp: total_def domIff intro!: sum.cong)

lemma total_upd:
  assumes "finite (dom m)"
  shows "total f (m(k \<mapsto> v)) + (case m k of None \<Rightarrow> 0 | Some u \<Rightarrow> f u) = total f m + f v"
proof (cases "m k")
  case None
  then show ?thesis using assms by (simp add: total_upd_new)
next
  case (Some u)
  then have k: "k \<in> dom m" by auto
  have "(\<Sum>x\<in>dom m - {k}. f (the ((m(k \<mapsto> v)) x))) = (\<Sum>x\<in>dom m - {k}. f (the (m x)))"
    by (rule sum.cong) auto
  then have "total f (m(k \<mapsto> v)) = f v + (\<Sum>x\<in>dom m - {k}. f (the (m x)))"
    using k assms by (simp add: total_def insert_absorb sum.remove [of _ k])
  moreover have "total f m = f u + (\<Sum>x\<in>dom m - {k}. f (the (m x)))"
    using k assms Some by (simp add: total_def sum.remove [of _ k])
  ultimately show ?thesis using Some by simp
qed

lemma total_upd_default:
  "finite (dom m) \<Longrightarrow> f d = 0 \<Longrightarrow> total f (m(k \<mapsto> v)) + f (get_or d m k) = total f m + f v"
  using total_upd [of m f k v] by (auto simp: get_or_def split: option.splits)

lemma total_ge: "finite (dom m) \<Longrightarrow> m k = Some v \<Longrightarrow> f v \<le> total f m"
  unfolding total_def by (metis domI member_le_sum option.sel zero_le)

lemma total_ge_default: "finite (dom m) \<Longrightarrow> f d = 0 \<Longrightarrow> f (get_or d m k) \<le> total f m"
  by (auto simp: get_or_def total_ge split: option.splits)

lemma total_ge_pair:
  assumes "finite (dom m)" "f d = 0" "a \<noteq> b"
  shows "f (get_or d m a) + f (get_or d m b) \<le> total f m"
proof -
  have "total f (m(a \<mapsto> d)) + f (get_or d m a) = total f m"
    using total_upd_default [of m f d a d] assms by simp
  moreover have "f (get_or d m b) \<le> total f (m(a \<mapsto> d))"
    using total_ge_default [of "m(a \<mapsto> d)" f d b] assms by simp
  ultimately show ?thesis by simp
qed

section \<open>Lists keyed by a field\<close>

lemma in_map_filter: "x \<in> set (List.map_filter f xs) \<longleftrightarrow> (\<exists>y \<in> set xs. f y = Some x)"
  by (force simp: List.map_filter_def)

lemma map_filter_Cons: "List.map_filter f (x # xs) =
    (case f x of None \<Rightarrow> List.map_filter f xs | Some y \<Rightarrow> y # List.map_filter f xs)"
  by (simp add: List.map_filter_simps)

lemma key_map_filter_subset:
  assumes "\<And>x y. f x = Some y \<Longrightarrow> k y = g x"
  shows "k ` set (List.map_filter f xs) \<subseteq> g ` set xs"
  using assms by (auto simp: in_map_filter)

lemma distinct_map_filter:
  assumes "distinct (map g xs)" "\<And>x y. f x = Some y \<Longrightarrow> k y = g x"
  shows "distinct (map k (List.map_filter f xs))"
  using assms(1)
proof (induction xs)
  case (Cons x xs)
  have "k y \<notin> k ` set (List.map_filter f xs)" if "f x = Some y" for y
    using key_map_filter_subset [where f = f and k = k and g = g and xs = xs, OF assms(2)]
      assms(2) [OF that] Cons.prems by auto
  then show ?case using Cons by (auto simp: map_filter_Cons split: option.splits)
qed (simp add: List.map_filter_simps)

lemma find_map_filter:
  assumes "distinct (map g xs)" "x \<in> set xs" "\<And>x y. f x = Some y \<Longrightarrow> k y = g x"
  shows "find (\<lambda>r. k r = g x) (List.map_filter f xs) = f x"
  using assms(1,2)
proof (induction xs)
  case (Cons z zs)
  show ?case
  proof (cases "x = z")
    case True
    have "find (\<lambda>r. k r = g z) (List.map_filter f zs) = None"
      using key_map_filter_subset [where f = f and k = k and g = g and xs = zs, OF assms(3)] Cons.prems(1)
      by (simp add: find_None_iff subset_iff image_iff) metis
    then show ?thesis using True assms(3) [of z] by (auto simp: map_filter_Cons split: option.split)
  next
    case False
    then have "g z \<noteq> g x" "x \<in> set zs" using Cons.prems by (auto simp: image_iff)
    then show ?thesis using Cons assms(3) [of z] by (auto simp: map_filter_Cons split: option.split)
  qed
qed simp

text \<open>A fold of updates of map entries under distinct keys acts on each key once.\<close>
lemma fold_point_upd:
  assumes "distinct (map k rs)"
  shows "fold (\<lambda>r m. m(k r \<mapsto> u r (get_or d m (k r)))) rs m a =
    (case find (\<lambda>r. k r = a) rs of None \<Rightarrow> m a | Some r \<Rightarrow> Some (u r (get_or d m a)))"
  using assms
proof (induction rs arbitrary: m)
  case (Cons r rs)
  have "find (\<lambda>r'. k r' = k r) rs = None"
    using Cons.prems by (simp add: find_None_iff image_iff) metis
  then show ?case using Cons by (auto simp: get_or_def split: option.split)
qed simp

section \<open>Components that keep an invariant\<close>

locale transition_system =
  fixes init :: "'s \<Rightarrow> bool"
    and step :: "'s \<Rightarrow> 's \<Rightarrow> bool"
    and inv :: "'s \<Rightarrow> bool"
  assumes init_inv: "init s \<Longrightarrow> inv s"
    and step_inv: "inv s \<Longrightarrow> step s t \<Longrightarrow> inv t"
begin

lemma run_from_inv: "step\<^sup>*\<^sup>* s t \<Longrightarrow> inv s \<Longrightarrow> inv t"
  by (induction rule: rtranclp_induct) (auto intro: step_inv)

lemma reachable_inv: "init s \<Longrightarrow> step\<^sup>*\<^sup>* s t \<Longrightarrow> inv t"
  by (blast intro: init_inv run_from_inv)

end

text \<open>A component in which some quantity never decreases from step to step.\<close>
locale monotone_system = transition_system +
  fixes rank :: "'s \<Rightarrow> nat"
  assumes step_rank: "inv s \<Longrightarrow> step s t \<Longrightarrow> rank s \<le> rank t"
begin

lemma run_rank: "step\<^sup>*\<^sup>* s t \<Longrightarrow> inv s \<Longrightarrow> rank s \<le> rank t"
  by (induction rule: rtranclp_induct) (auto intro: order_trans step_rank run_from_inv)

end

end
