(* ===== verification/Chain_Types.thy ===== *)
theory Chain_Types
  imports Prelude
begin

text \<open>
  The data of the node: transactions (\<^verbatim>\<open>src/src/core/transaction.rs\<close>), blocks
  (\<^verbatim>\<open>src/src/core/block.rs\<close>), accounts and errors (\<^verbatim>\<open>src/src/core/chain/mod.rs\<close>), receipts
  (\<^verbatim>\<open>src/src/core/receipt.rs\<close>), contracts (\<^verbatim>\<open>src/src/vm/state.rs\<close>), and the parameters of the
  token and governance transactions.

  The record \<open>externs\<close> collects every function of a third-party crate the node calls: SHA-3
  (\<^verbatim>\<open>sha3\<close>), ML-DSA-87 (\<^verbatim>\<open>ml-dsa\<close>), \<^verbatim>\<open>hex\<close>, \<^verbatim>\<open>bincode\<close> and \<^verbatim>\<open>serde_json\<close>, the alloy transaction decoder,
  the Wasmer and revm engines. It is an argument of the definitions that use it; theorems
  state what they need of it as hypotheses.

  A panic (a division by zero, an index out of range) that unwinds through a fallible call is the
  extra error \<open>Panicked\<close>. Error payloads that the source formats with \<^verbatim>\<open>hex::encode\<close> carry the raw bytes here.
\<close>

section \<open>Transactions\<close>

datatype transaction_kind =
  Transfer | Stake | Unstake | Coinbase | DeployContract | CallContract
| DeployToken | TokenTransfer | TokenApprove | TokenTransferFrom
| SubmitProposal | GovernanceVote | DeployEvmContract | CallEvmContract

datatype mempool_class = System | User

record transaction =
  tx_chain_id :: string
  tx_kind :: transaction_kind
  tx_from :: bytes
  tx_sender_public_key :: bytes
  tx_to :: bytes
  tx_amount :: u64
  tx_fee :: u64
  tx_max_fee_per_gas :: u64
  tx_max_priority_fee_per_gas :: u64
  tx_nonce :: u64
  tx_timestamp :: i64
  tx_signature :: "bytes option"
  tx_gas_limit :: u64
  tx_data :: bytes
  tx_evm_raw_tx :: bytes

text \<open>The payload a sender signs, and the one a transaction hash commits to.\<close>
record signable_transaction =
  st_chain_id :: string
  st_kind :: transaction_kind
  st_from :: bytes
  st_sender_public_key :: bytes
  st_to :: bytes
  st_amount :: u64
  st_fee :: u64
  st_max_fee_per_gas :: u64
  st_max_priority_fee_per_gas :: u64
  st_nonce :: u64
  st_timestamp :: i64
  st_gas_limit :: u64
  st_data :: bytes

section \<open>Blocks\<close>

record block_header =
  hdr_version :: u32
  hdr_height :: u64
  hdr_timestamp :: i64
  hdr_prev_hash :: bytes
  hdr_merkle_root :: bytes
  hdr_state_root :: bytes
  hdr_gas_used :: u64
  hdr_base_fee_per_gas :: u64
  hdr_validator_public_key :: bytes
  hdr_nonce :: u64

record block =
  blk_header :: block_header
  blk_transactions :: "transaction list"
  blk_hash :: bytes
  blk_signature :: "bytes option"

record key_pair =
  kp_public_key :: bytes
  kp_secret_key :: bytes

section \<open>Accounts, contracts, receipts\<close>

record pending_unstake =
  pu_amount :: u64
  pu_unlock_height :: u64

record account_state =
  acc_balance :: u64
  acc_nonce :: u64
  acc_staked_balance :: u64
  acc_pending_unstakes :: "pending_unstake list"
  acc_validator_active_from_height :: u64
  acc_jailed_until_height :: u64
  acc_public_key :: "bytes option"

text \<open>\<open>AccountState::default()\<close>.\<close>
definition default_account :: account_state where
  "default_account = \<lparr>acc_balance = 0, acc_nonce = 0, acc_staked_balance = 0,
     acc_pending_unstakes = [], acc_validator_active_from_height = 0,
     acc_jailed_until_height = 0, acc_public_key = None\<rparr>"

type_synonym accounts = "bytes \<rightharpoonup> account_state"

record contract_state =
  con_code_hash :: bytes
  con_code :: bytes
  con_storage :: "bytes \<rightharpoonup> bytes"
  con_owner :: bytes

type_synonym contracts = "bytes \<rightharpoonup> contract_state"

record log_entry =
  log_contract :: bytes
  log_topics :: "bytes list"
  log_data :: bytes

record receipt =
  rc_tx_hash :: bytes
  rc_success :: bool
  rc_gas_used :: u64
  rc_effective_gas_price :: u64
  rc_priority_fee_paid :: u64
  rc_base_fee_burned :: u64
  rc_gas_refunded :: u64
  rc_logs :: "log_entry list"
  rc_return_data :: bytes
  rc_contract_address :: "bytes option"

section \<open>Token and governance parameters\<close>

record deploy_token_params =
  dtp_name :: string
  dtp_symbol :: string
  dtp_decimals :: u8
  dtp_total_supply :: u64

record token_transfer_params =
  ttp_token_address :: bytes
  ttp_recipient :: bytes
  ttp_amount :: u64

record token_approve_params =
  tap_token_address :: bytes
  tap_spender :: bytes
  tap_amount :: u64

record token_transfer_from_params =
  tfp_token_address :: bytes
  tfp_from :: bytes
  tfp_recipient :: bytes
  tfp_amount :: u64

datatype proposal_kind =
  ProtocolUpgrade u32 string
| ParameterChange string u64

datatype vote_choice = For | Against

record governance_vote_params =
  gvp_proposal_id :: bytes
  gvp_vote :: vote_choice

section \<open>Execution engines\<close>

datatype vm_error =
  InvalidWasm | EmptyBytecode | OutOfGas u64 u64 | MissingEntrypoint
| UnsupportedEntrypoint | UnmeteredLoop | Execution string | VmGasOverflow

datatype evm_error =
  EvmInvalidBytecode | EvmEmptyBytecode | EvmReverted string | EvmHalted string
| EvmOutOfGas | EvmInternal string | EvmRlpDecode string | EvmSignatureRecovery
| EvmContractNotFound

record vm_context =
  vm_contract_id :: bytes
  vm_storage :: "bytes \<rightharpoonup> bytes"
  vm_logs :: "log_entry list"
  vm_caller :: bytes
  vm_input :: "64 word"
  vm_input_data :: bytes
  vm_gas_remaining :: u64
  vm_memory :: "bytes option"

text \<open>WebAssembly as \<^verbatim>\<open>wasmparser\<close> and \<^verbatim>\<open>wasmer\<close> present it: an operator is the name of its constructor
  with its immediates; a payload or an operator that fails to parse is \<open>None\<close>.\<close>
datatype wasm_operator = Op string "int list"

record wasm_import =
  wi_module :: string
  wi_name :: string
  wi_is_func :: bool

datatype wasm_payload =
  ImportSection "wasm_import option list"
| CodeSectionEntry "wasm_operator option list option"
| OtherPayload

datatype wasm_type = TI32 | TI64 | TOther

datatype wasm_value = VI32 u32 | VI64 u64 | VF32 u32 | VF64 u64 | V128 u128 | VRef

record wasm_instance =
  wn_functions :: "string \<rightharpoonup> wasm_type list"
  wn_memory :: "bytes option"

record evm_view =
  esv_accounts :: "bytes \<rightharpoonup> u64 \<times> u64"
  esv_contracts :: contracts

text \<open>What revm reports of an execution, and the touched accounts it returns.\<close>
datatype evm_output = CallOutput bytes | CreateOutput bytes "bytes option"

record evm_log =
  el_address :: bytes
  el_topics :: "bytes list"
  el_data :: bytes

datatype evm_result =
  EvmSuccess u64 evm_output "evm_log list"
| EvmRevert u64 bytes
| EvmHalt u64 string

record evm_account =
  ea_balance :: u256
  ea_nonce :: u64
  ea_code :: "bytes option"
  ea_storage :: "u256 \<rightharpoonup> u256"

record evm_tx_env =
  te_caller :: bytes
  te_gas_limit :: u64
  te_gas_price :: u64
  te_kind :: "bytes option" \<comment> \<open>\<open>TxKind::Call(to)\<close>, or \<open>None\<close> for \<open>TxKind::Create\<close>\<close>
  te_value :: u64
  te_data :: bytes
  te_nonce :: u64

record evm_block_env =
  be_number :: u64
  be_gas_limit :: u64
  be_basefee :: u64

record eth_envelope =
  eth_to :: "bytes option"
  eth_value :: u256
  eth_input :: bytes
  eth_gas_limit :: u64
  eth_max_fee_per_gas :: u128
  eth_max_priority_fee_per_gas :: "u128 option"
  eth_nonce :: u64
  eth_chain_id :: "u64 option"
  eth_tx_hash :: bytes

section \<open>Errors\<close>

datatype block_tree_error = OrphanBlock | InvalidHeightLink | BelowFinalized

datatype chain_error =
  InvalidGenesis string | GenesisMismatch | InvalidHeight u64 u64 | InvalidPrevHash
| InvalidBlockHash | InvalidMerkleRoot | InvalidStateRoot | InvalidBlockSignature
| InvalidBlockTimestamp i64 i64 i64 | InvalidSignature | InvalidChainId string string
| InvalidSender | InvalidRecipient | InvalidTransactionFormat string
| InsufficientBalance bytes u64 u64 | InvalidNonce u64 u64 | DuplicateTransaction
| ReplacementFeeTooLow | FeeTooLow | InvalidBaseFee u64 u64 | MempoolFull
| MissingCoinbase | MultipleCoinbase | InvalidCoinbase | UnauthorizedValidator
| WrongProposer u64 u32 | BlockTreeError block_tree_error | ReorgBelowFinality u64
| InvalidProtocolVersion u32 u32 | GasOverflow | SnapshotError string
| CheckpointMismatch u64 bytes bytes string | VmError vm_error | ContractNotFound bytes
| StorageError string | BlockStoreError string
| Panicked

section \<open>Third-party functions\<close>

record externs =
  x_sha3 :: "bytes \<Rightarrow> bytes"
  x_mldsa_sig_decode :: "bytes \<Rightarrow> bytes option"
  x_mldsa_verify :: "bytes \<Rightarrow> bytes \<Rightarrow> bytes \<Rightarrow> bool" \<comment> \<open>key, message, decoded signature\<close>
  x_mldsa_sign :: "bytes \<Rightarrow> bytes \<Rightarrow> bytes" \<comment> \<open>seed, message\<close>
  x_mldsa_public :: "bytes \<Rightarrow> bytes" \<comment> \<open>the encoded verifying key of a seed\<close>
  x_bin_header :: "block_header \<Rightarrow> bytes"
  x_bin_tx :: "signable_transaction \<Rightarrow> bytes"
  x_bin_account_leaf :: "bytes \<Rightarrow> account_state \<Rightarrow> bytes"
  x_bin_contract_leaf :: "bytes \<Rightarrow> bytes \<Rightarrow> bytes \<Rightarrow> bytes \<Rightarrow> bytes"
  x_bin_storage_leaf :: "bytes \<Rightarrow> bytes \<Rightarrow> bytes"
  x_bin_proposal_kind :: "proposal_kind \<Rightarrow> bytes"
  x_hex_decode :: "string \<Rightarrow> bytes option"
  x_hex_encode :: "bytes \<Rightarrow> string"
  x_json_deploy_token :: "bytes \<Rightarrow> deploy_token_params option"
  x_json_token_transfer :: "bytes \<Rightarrow> token_transfer_params option"
  x_json_token_approve :: "bytes \<Rightarrow> token_approve_params option"
  x_json_token_transfer_from :: "bytes \<Rightarrow> token_transfer_from_params option"
  x_json_submit_proposal :: "bytes \<Rightarrow> proposal_kind option"
  x_json_governance_vote :: "bytes \<Rightarrow> governance_vote_params option"
  x_eth_decode :: "bytes \<Rightarrow> eth_envelope option"
  x_eth_recover :: "eth_envelope \<Rightarrow> bytes option"
  x_wat2wasm :: "bytes \<Rightarrow> bytes option"
  x_wasm_parse :: "bytes \<Rightarrow> wasm_payload option list"
  x_wasm_module :: "bytes \<Rightarrow> u32 option \<Rightarrow> string option" \<comment> \<open>bytes, metering hook; an error message\<close>
  x_wasm_instantiate :: "bytes \<Rightarrow> u32 option \<Rightarrow> vm_context \<Rightarrow> string + wasm_instance \<times> vm_context"
  x_wasm_call :: "bytes \<Rightarrow> u32 option \<Rightarrow> string \<Rightarrow> wasm_value list \<Rightarrow> vm_context \<Rightarrow>
     string + wasm_value list \<times> vm_context"
  x_revm_transact :: "evm_block_env \<Rightarrow> evm_view \<Rightarrow> evm_tx_env \<Rightarrow>
     string + (evm_result \<times> (bytes \<rightharpoonup> evm_account))"

end
