(* ===== verification/Rust_Text.thy ===== *)
theory Rust_Text
  imports Prelude
begin

text \<open>
  The functions on strings of the Rust standard library that the address, wallet and RPC code uses. A \<open>string\<close> is the list of its
  UTF-8 bytes, so \<open>length\<close> is \<^verbatim>\<open>str::len\<close>. Numbers are printed by \<open>show_nat\<close> (\<^verbatim>\<open>{}\<close>) and \<open>show_hex\<close> (\<^verbatim>\<open>{:x}\<close>) and read by
  \<open>from_str_radix\<close>; the lemmas are the round trips.
\<close>

section \<open>Digits\<close>

text \<open>\<^verbatim>\<open>char::from_digit\<close> and \<^verbatim>\<open>char::to_digit\<close>.\<close>
definition digit_char :: "nat \<Rightarrow> char" where
  "digit_char n = char_of (if n < 10 then 48 + n else 87 + n)"

definition digit_value :: "nat \<Rightarrow> char \<Rightarrow> nat option" where
  "digit_value radix c =
     (let n = of_char c;
          v = (if 48 \<le> n \<and> n \<le> 57 then n - 48 else if 97 \<le> n \<and> n \<le> 122 then n - 87 else if 65 \<le> n \<and> n \<le> 90 then n - 55 else 36)
      in if v < radix then Some v else None)"

lemma digit_value_char [simp]: "n < radix \<Longrightarrow> radix \<le> 36 \<Longrightarrow> digit_value radix (digit_char n) = Some n"
  by (auto simp: digit_value_def digit_char_def Let_def)

section \<open>Printing\<close>

fun show_nat :: "nat \<Rightarrow> string" where
  "show_nat n = (if n < 10 then [digit_char n] else show_nat (n div 10) @ [digit_char (n mod 10)])"

fun show_hex :: "nat \<Rightarrow> string" where
  "show_hex n = (if n < 16 then [digit_char n] else show_hex (n div 16) @ [digit_char (n mod 16)])"

declare show_nat.simps [simp del] show_hex.simps [simp del]

text \<open>\<^verbatim>\<open>{:016x}\<close>.\<close>
definition pad_left :: "nat \<Rightarrow> string \<Rightarrow> string" where
  "pad_left n s = replicate (n - length s) CHR ''0'' @ s"

section \<open>Parsing\<close>

fun from_digits :: "nat \<Rightarrow> nat \<Rightarrow> string \<Rightarrow> nat option" where
  "from_digits radix acc [] = Some acc"
| "from_digits radix acc (c # cs) =
     (case digit_value radix c of None \<Rightarrow> None | Some d \<Rightarrow> from_digits radix (acc * radix + d) cs)"

text \<open>\<^verbatim>\<open>u64::from_str_radix\<close>: one leading \<open>+\<close> is allowed before at least one digit; a value that does not fit is an error.\<close>
definition from_str_radix :: "nat \<Rightarrow> string \<Rightarrow> u64 option" where
  "from_str_radix radix s =
     (if s = [] \<or> s = ''+'' then None
      else case from_digits radix 0 (if hd s = CHR ''+'' then tl s else s) of
             None \<Rightarrow> None
           | Some n \<Rightarrow> if n < 2 ^ 64 then Some (of_nat n) else None)"

abbreviation parse_u64 :: "string \<Rightarrow> u64 option" where
  "parse_u64 \<equiv> from_str_radix 10"

lemma from_digits_snoc:
  "from_digits radix acc (cs @ [c]) =
     (case from_digits radix acc cs of None \<Rightarrow> None | Some n \<Rightarrow> map_option (\<lambda>d. n * radix + d) (digit_value radix c))"
  by (induction cs arbitrary: acc) (auto split: option.split)

lemma from_digits_show_nat [simp]: "from_digits 10 0 (show_nat n) = Some n"
proof (induction n rule: show_nat.induct)
  case (1 n)
  then show ?case by (subst show_nat.simps) (simp add: from_digits_snoc)
qed

lemma from_digits_show_hex [simp]: "from_digits 16 0 (show_hex n) = Some n"
proof (induction n rule: show_hex.induct)
  case (1 n)
  then show ?case by (subst show_hex.simps) (simp add: from_digits_snoc)
qed

lemma of_char_digit [simp]: "n < 16 \<Longrightarrow> of_char (digit_char n) = (if n < 10 then 48 + n else 87 + n)"
  by (simp add: digit_char_def)

text \<open>A digit is neither a sign nor one of the letters of a prefix nor white space.\<close>
definition hex_digits :: "char set" where
  "hex_digits = {c. \<exists>n < 16. c = digit_char n}"

lemma hex_digits_range: "c \<in> hex_digits \<Longrightarrow> 48 \<le> (of_char c :: nat) \<and> (of_char c :: nat) \<le> 102 \<and> \<not> (58 \<le> (of_char c :: nat) \<and> (of_char c :: nat) \<le> 96)"
  by (auto simp: hex_digits_def split: if_splits)

lemma digit_in_hex [simp]: "n < 16 \<Longrightarrow> digit_char n \<in> hex_digits"
  by (auto simp: hex_digits_def)

lemma not_hex_digit [simp]:
  "CHR ''+'' \<notin> hex_digits" "CHR ''x'' \<notin> hex_digits" "CHR ''C'' \<notin> hex_digits" "CHR ''X'' \<notin> hex_digits"
  by (auto dest: hex_digits_range)

lemma show_nat_digits: "set (show_nat n) \<subseteq> hex_digits \<and> show_nat n \<noteq> []"
proof (induction n rule: show_nat.induct)
  case (1 n)
  then show ?case by (subst (1 2) show_nat.simps) auto
qed

lemma show_hex_digits: "set (show_hex n) \<subseteq> hex_digits \<and> show_hex n \<noteq> []"
proof (induction n rule: show_hex.induct)
  case (1 n)
  then show ?case by (subst (1 2) show_hex.simps) auto
qed

lemma digits_no_sign: "set s \<subseteq> hex_digits \<Longrightarrow> s \<noteq> [] \<Longrightarrow> s \<noteq> ''+'' \<and> hd s \<noteq> CHR ''+''"
  by (metis hd_in_set list.set_intros(1) not_hex_digit(1) subsetD)

lemma parse_show_hex [simp]: "from_str_radix 16 (show_hex (unat w)) = Some w"
  using show_hex_digits [of "unat w"] digits_no_sign [of "show_hex (unat w)"] unat_lt_u64 [of w] by (simp add: from_str_radix_def)

lemma parse_show_nat [simp]: "parse_u64 (show_nat (unat w)) = Some w"
  using show_nat_digits [of "unat w"] digits_no_sign [of "show_nat (unat w)"] unat_lt_u64 [of w] by (simp add: from_str_radix_def)

section \<open>Prefixes and white space\<close>

definition strip_prefix :: "string \<Rightarrow> string \<Rightarrow> string option" where
  "strip_prefix p s = (if take (length p) s = p then Some (drop (length p) s) else None)"

text \<open>\<^verbatim>\<open>s.strip_prefix(p).unwrap_or(s)\<close>.\<close>
definition strip_or :: "string \<Rightarrow> string \<Rightarrow> string" where
  "strip_or p s = (case strip_prefix p s of Some r \<Rightarrow> r | None \<Rightarrow> s)"

lemma strip_prefix_append [simp]: "strip_prefix p (p @ s) = Some s"
  by (simp add: strip_prefix_def)

lemma strip_or_append [simp]: "strip_or p (p @ s) = s"
  by (simp add: strip_or_def)

text \<open>The UTF-8 encodings of the characters with the property \<^verbatim>\<open>White_Space\<close>.\<close>
definition white_space :: "string list" where
  "white_space = [[CHR 0x09], [CHR 0x0A], [CHR 0x0B], [CHR 0x0C], [CHR 0x0D], [CHR 0x20], [CHR 0xC2, CHR 0x85], [CHR 0xC2, CHR 0xA0],
     [CHR 0xE1, CHR 0x9A, CHR 0x80], [CHR 0xE2, CHR 0x80, CHR 0x80], [CHR 0xE2, CHR 0x80, CHR 0x81], [CHR 0xE2, CHR 0x80, CHR 0x82],
     [CHR 0xE2, CHR 0x80, CHR 0x83], [CHR 0xE2, CHR 0x80, CHR 0x84], [CHR 0xE2, CHR 0x80, CHR 0x85], [CHR 0xE2, CHR 0x80, CHR 0x86],
     [CHR 0xE2, CHR 0x80, CHR 0x87], [CHR 0xE2, CHR 0x80, CHR 0x88], [CHR 0xE2, CHR 0x80, CHR 0x89], [CHR 0xE2, CHR 0x80, CHR 0x8A],
     [CHR 0xE2, CHR 0x80, CHR 0xA8], [CHR 0xE2, CHR 0x80, CHR 0xA9], [CHR 0xE2, CHR 0x80, CHR 0xAF], [CHR 0xE2, CHR 0x81, CHR 0x9F],
     [CHR 0xE3, CHR 0x80, CHR 0x80]]"

function drop_all :: "string list \<Rightarrow> string \<Rightarrow> string" where
  "drop_all ws s = (case find (\<lambda>w. w \<noteq> [] \<and> take (length w) s = w) ws of
     None \<Rightarrow> s | Some w \<Rightarrow> drop_all ws (drop (length w) s))"
  by auto
termination
  by (relation "measure (length \<circ> snd)") (auto simp: find_Some_iff, metis diff_less length_greater_0_conv take_Nil)

declare drop_all.simps [simp del]

definition trim_end :: "string \<Rightarrow> string" where
  "trim_end s = rev (drop_all (map rev white_space) (rev s))"

definition trim :: "string \<Rightarrow> string" where
  "trim s = trim_end (drop_all white_space s)"

definition graphic :: "char \<Rightarrow> bool" where
  "graphic c \<longleftrightarrow> 33 \<le> (of_char c :: nat) \<and> (of_char c :: nat) \<le> 126"

lemma drop_all_none:
  assumes "\<forall>w \<in> set ws. \<not> graphic (hd w)" "s = [] \<or> graphic (hd s)"
  shows "drop_all ws s = s"
proof -
  have "find (\<lambda>w. w \<noteq> [] \<and> take (length w) s = w) ws = None"
    using assms by (auto simp: find_None_iff dest!: bspec) (metis hd_take length_greater_0_conv take_Nil)
  then show ?thesis by (subst drop_all.simps) simp
qed

lemma white_space_ends: "\<forall>w \<in> set white_space. \<not> graphic (hd w)" "\<forall>w \<in> set (map rev white_space). \<not> graphic (hd w)"
  by (simp_all add: white_space_def graphic_def)

lemma trim_end_graphic: "s = [] \<or> graphic (last s) \<Longrightarrow> trim_end s = s"
  by (simp add: trim_end_def drop_all_none [OF white_space_ends(2)] hd_rev)

lemma trim_graphic: "s = [] \<or> graphic (hd s) \<and> graphic (last s) \<Longrightarrow> trim s = s"
  by (auto simp: trim_def drop_all_none [OF white_space_ends(1)] trim_end_graphic)

lemma hex_graphic: "c \<in> hex_digits \<Longrightarrow> graphic c"
  using hex_digits_range [of c] by (simp add: graphic_def)

section \<open>ASCII case\<close>

definition to_ascii_lowercase :: "char \<Rightarrow> char" where
  "to_ascii_lowercase c = (if 65 \<le> (of_char c :: nat) \<and> (of_char c :: nat) \<le> 90 then char_of (of_char c + 32 :: nat) else c)"

definition to_ascii_uppercase :: "char \<Rightarrow> char" where
  "to_ascii_uppercase c = (if 97 \<le> (of_char c :: nat) \<and> (of_char c :: nat) \<le> 122 then char_of (of_char c - 32 :: nat) else c)"

definition is_ascii_alphabetic :: "char \<Rightarrow> bool" where
  "is_ascii_alphabetic c \<longleftrightarrow> 65 \<le> (of_char c :: nat) \<and> (of_char c :: nat) \<le> 90 \<or> 97 \<le> (of_char c :: nat) \<and> (of_char c :: nat) \<le> 122"

lemma of_char_less: "(of_char c :: nat) < 256"
  by simp

lemma lower_hex [simp]: "c \<in> hex_digits \<Longrightarrow> to_ascii_lowercase c = c" "c \<in> hex_digits \<Longrightarrow> to_ascii_lowercase (to_ascii_uppercase c) = c"
  using hex_digits_range [of c] by (auto simp: to_ascii_lowercase_def to_ascii_uppercase_def)

end
