(* ===== verification/Demo_Externs.thy ===== *)
theory Demo_Externs
  imports Chain_Types Rust_Text
begin

text \<open>
  A concrete instance of the third-party functions, on which the witnesses of the theorems are
  evaluated. Digests are the first 32 bytes of the reversed, padded input; a signature is the
  padded concatenation of the seed (the first 32 bytes of the key) and the message; the
  serialisers and parsers are constants, and the execution engines reject everything.
\<close>

definition demo_sha3 :: "bytes \<Rightarrow> bytes" where
  "demo_sha3 d = take 32 (rev d @ replicate 32 0)"

definition demo_sign :: "bytes \<Rightarrow> bytes \<Rightarrow> bytes" where
  "demo_sign seed msg = take 4627 (seed @ msg @ replicate 4627 0)"

text \<open>Hexadecimal text as the \<^verbatim>\<open>hex\<close> crate documents it.\<close>
definition demo_hex_encode :: "bytes \<Rightarrow> string" where
  "demo_hex_encode b = concat (map (\<lambda>x. [digit_char (unat x div 16), digit_char (unat x mod 16)]) b)"

fun demo_hex_decode :: "string \<Rightarrow> bytes option" where
  "demo_hex_decode [] = Some []"
| "demo_hex_decode [c] = None"
| "demo_hex_decode (c # d # s) = (case (digit_value 16 c, digit_value 16 d, demo_hex_decode s) of
     (Some h, Some l, Some b) \<Rightarrow> Some (of_nat (16 * h + l) # b) | _ \<Rightarrow> None)"

definition demo_externs :: externs where
  "demo_externs = \<lparr>
     x_sha3 = demo_sha3,
     x_mldsa_sig_decode = Some,
     x_mldsa_verify = (\<lambda>pk msg sig. sig = demo_sign (take 32 pk) msg),
     x_mldsa_sign = demo_sign,
     x_mldsa_public = (\<lambda>seed. take 2592 (seed @ replicate 2592 0)),
     x_bin_header = (\<lambda>h. u64_le (hdr_height h)),
     x_bin_tx = (\<lambda>t. u64_le (st_nonce t) @ st_from t @ st_data t),
     x_bin_account_leaf = (\<lambda>a s. a @ u64_le (acc_balance s)),
     x_bin_contract_leaf = (\<lambda>a c o' r. a @ c @ o' @ r),
     x_bin_storage_leaf = (\<lambda>k v. k @ v),
     x_bin_proposal_kind = (\<lambda>k. []),
     x_hex_decode = demo_hex_decode,
     x_hex_encode = demo_hex_encode,
     x_json_deploy_token = (\<lambda>d. None),
     x_json_token_transfer = (\<lambda>d. None),
     x_json_token_approve = (\<lambda>d. None),
     x_json_token_transfer_from = (\<lambda>d. None),
     x_json_submit_proposal = (\<lambda>d. None),
     x_json_governance_vote = (\<lambda>d. None),
     x_eth_decode = (\<lambda>d. None),
     x_eth_recover = (\<lambda>e. None),
     x_wat2wasm = (\<lambda>c. None),
     x_wasm_parse = (\<lambda>c. []),
     x_wasm_module = (\<lambda>c h. None),
     x_wasm_instantiate = (\<lambda>c h v. Inl ''disabled''),
     x_wasm_call = (\<lambda>c h n a v. Inl ''disabled''),
     x_revm_transact = (\<lambda>b s t. Inl ''disabled'')\<rparr>"

lemma length_demo_sha3 [simp]: "length (demo_sha3 d) = 32"
  by (simp add: demo_sha3_def)

lemma length_demo_sign [simp]: "length (demo_sign seed msg) = 4627"
  by (simp add: demo_sign_def)

lemma demo_externs_simps [simp]:
  "x_sha3 demo_externs = demo_sha3"
  "x_mldsa_sig_decode demo_externs = Some"
  "x_mldsa_verify demo_externs = (\<lambda>pk msg sig. sig = demo_sign (take 32 pk) msg)"
  "x_mldsa_sign demo_externs = demo_sign"
  "x_bin_header demo_externs h = u64_le (hdr_height h)"
  "x_bin_tx demo_externs t = u64_le (st_nonce t) @ st_from t @ st_data t"
  "x_bin_account_leaf demo_externs a s = a @ u64_le (acc_balance s)"
  "x_bin_proposal_kind demo_externs k = []"
  "x_hex_decode demo_externs = demo_hex_decode"
  "x_hex_encode demo_externs = demo_hex_encode"
  "x_mldsa_public demo_externs seed = take 2592 (seed @ replicate 2592 0)"
  by (simp_all add: demo_externs_def)

lemma digit_value_iff: "digit_value 16 c = Some v \<longleftrightarrow> v < 16 \<and> to_ascii_lowercase c = digit_char v"
proof
  assume v: "digit_value 16 c = Some v"
  then show "v < 16 \<and> to_ascii_lowercase c = digit_char v"
    by (auto simp: digit_value_def digit_char_def to_ascii_lowercase_def Let_def add.commute split: if_splits)
next
  assume v: "v < 16 \<and> to_ascii_lowercase c = digit_char v"
  define n where "n = (of_char c :: nat)"
  have "(of_char (to_ascii_lowercase c) :: nat) = (if 65 \<le> n \<and> n \<le> 90 then n + 32 else n)"
    by (simp add: to_ascii_lowercase_def n_def)
  then have "(if 65 \<le> n \<and> n \<le> 90 then n + 32 else n) = (if v < 10 then 48 + v else 87 + v)" using v by simp
  then show "digit_value 16 c = Some v"
    using v unfolding digit_value_def Let_def n_def [symmetric] by (simp split: if_splits)
qed

lemma digit_value_less: "digit_value 16 c = Some v \<Longrightarrow> v < 16"
  by (simp add: digit_value_iff)

lemma nibbles_of: "(l :: nat) < 16 \<Longrightarrow> 16 * h + l = n \<longleftrightarrow> h = n div 16 \<and> l = n mod 16"
  by auto

lemma unat_u8: "unat (x :: u8) < 256"
  using unsigned_less [of x, where 'a = nat] by simp

lemma demo_hex_digits: "set (demo_hex_encode b) \<subseteq> hex_digits \<and> length (demo_hex_encode b) = 2 * length b"
proof (induction b)
  case (Cons x b)
  have "unat x div 16 < 16" using unat_u8 [of x] by simp
  then show ?case using Cons by (simp add: demo_hex_encode_def)
qed (simp add: demo_hex_encode_def)

lemma demo_hex_decode_iff: "demo_hex_decode s = Some b \<longleftrightarrow> map to_ascii_lowercase s = demo_hex_encode b"
proof (induction s arbitrary: b rule: demo_hex_decode.induct)
  case 1
  then show ?case by (cases b) (auto simp: demo_hex_encode_def)
next
  case (2 c)
  then show ?case by (cases b) (auto simp: demo_hex_encode_def)
next
  case (3 c d s)
  show ?case
  proof (cases b)
    case (Cons x b')
    have x: "unat x div 16 < 16" "unat x mod 16 < 16" using unat_u8 [of x] by simp_all
    have "of_nat (16 * h + l) = x \<longleftrightarrow> h = unat x div 16 \<and> l = unat x mod 16" if "h < 16" "l < 16" for h l
    proof -
      have "unat (of_nat (16 * h + l) :: u8) = 16 * h + l" using that by (subst unat_of_nat) simp
      then have "of_nat (16 * h + l) = x \<longleftrightarrow> 16 * h + l = unat x" by (metis word_unat_eq_iff)
      also have "\<dots> \<longleftrightarrow> h = unat x div 16 \<and> l = unat x mod 16"
        by (rule nibbles_of [OF that(2)])
      finally show ?thesis .
    qed
    note byte = this
    have "demo_hex_decode (c # d # s) = Some b \<longleftrightarrow>
        (\<exists>h l. digit_value 16 c = Some h \<and> digit_value 16 d = Some l \<and> of_nat (16 * h + l) = x) \<and> demo_hex_decode s = Some b'"
      unfolding Cons by (auto simp del: of_nat_add of_nat_mult split: option.splits)
    also have "(\<exists>h l. digit_value 16 c = Some h \<and> digit_value 16 d = Some l \<and> of_nat (16 * h + l) = x) \<longleftrightarrow>
        digit_value 16 c = Some (unat x div 16) \<and> digit_value 16 d = Some (unat x mod 16)"
      by (metis byte x digit_value_less)
    finally show ?thesis using Cons 3 x by (simp add: digit_value_iff demo_hex_encode_def)
  qed (auto simp: demo_hex_encode_def split: option.splits)
qed

lemma demo_hex_roundtrip [simp]: "demo_hex_decode (demo_hex_encode b) = Some b"
  unfolding demo_hex_decode_iff by (rule map_idI) (metis demo_hex_digits lower_hex(1) subsetD)

lemma demo_hex_no_prefix [simp]: "take 2 (demo_hex_encode b) \<noteq> ''0x''"
proof
  assume "take 2 (demo_hex_encode b) = ''0x''"
  then have "CHR ''x'' \<in> set (demo_hex_encode b)" by (metis in_set_takeD list.set_intros)
  then show False using demo_hex_digits [of b] by auto
qed

end
