(* ===== verification/Crypto_Hash.thy ===== *)
theory Crypto_Hash
  imports Demo_Externs
begin

text \<open>
  \<^verbatim>\<open>src/src/crypto/hash.rs\<close> and the wrapper \<^verbatim>\<open>src/src/crypto/dilithium.rs\<close>: domain-separated
  hashing, address derivation, the Merkle tree with its inclusion proofs, signature checking.
  The properties: every proof the tree generates verifies (completeness), and a proof accepted
  for an index can only be for the leaf at that index unless it exhibits a SHA-3 collision.
\<close>

section \<open>Hashing and addresses\<close>

definition ADDRESS_LEN :: nat where
  "ADDRESS_LEN = 20"

definition sha3_hash :: "externs \<Rightarrow> bytes \<Rightarrow> bytes" where
  "sha3_hash X data = x_sha3 X data"

definition sha3_hash_domain :: "externs \<Rightarrow> bytes \<Rightarrow> bytes list \<Rightarrow> bytes" where
  "sha3_hash_domain X domain parts =
     x_sha3 X (u32_le (of_nat (length domain)) @ domain @ concat parts)"

definition double_hash :: "externs \<Rightarrow> bytes \<Rightarrow> bytes" where
  "double_hash X data = sha3_hash X (sha3_hash X data)"

definition address_bytes_from_public_key :: "externs \<Rightarrow> bytes \<Rightarrow> bytes" where
  "address_bytes_from_public_key X public_key =
     take ADDRESS_LEN (sha3_hash_domain X (ascii ''curs3d-address'') [public_key])"

definition address_bytes_from_data :: "externs \<Rightarrow> bytes \<Rightarrow> bytes" where
  "address_bytes_from_data X data =
     take ADDRESS_LEN (sha3_hash_domain X (ascii ''curs3d-derived-address'') [data])"

section \<open>Signatures\<close>

text \<open>The byte lengths of an encoded ML-DSA-87 key and signature (FIPS-204).\<close>
definition MLDSA_PK_LEN :: nat where
  "MLDSA_PK_LEN = 2592"

definition MLDSA_SIG_LEN :: nat where
  "MLDSA_SIG_LEN = 4627"

definition dilithium_verify :: "externs \<Rightarrow> bytes \<Rightarrow> bytes \<Rightarrow> bytes \<Rightarrow> bool" where
  "dilithium_verify X message signature public_key =
     (if length public_key \<noteq> MLDSA_PK_LEN then False
      else if length signature \<noteq> MLDSA_SIG_LEN then False
      else case x_mldsa_sig_decode X signature of
        None \<Rightarrow> False
      | Some sig \<Rightarrow> x_mldsa_verify X public_key message sig)"

text \<open>\<open>KeyPair::sign\<close>; a secret key that is not a 32-byte seed panics, which is \<open>None\<close>.\<close>
definition dilithium_sign :: "externs \<Rightarrow> key_pair \<Rightarrow> bytes \<Rightarrow> bytes option" where
  "dilithium_sign X kp message =
     (if length (kp_secret_key kp) \<noteq> 32 then None
      else Some (x_mldsa_sign X (kp_secret_key kp) message))"

section \<open>The Merkle tree\<close>

definition MERKLE_LEAF_PREFIX :: u8 where
  "MERKLE_LEAF_PREFIX = 0"

definition MERKLE_NODE_PREFIX :: u8 where
  "MERKLE_NODE_PREFIX = 1"

definition merkle_hash_leaf :: "externs \<Rightarrow> bytes \<Rightarrow> bytes" where
  "merkle_hash_leaf X leaf = sha3_hash X (MERKLE_LEAF_PREFIX # leaf)"

definition merkle_hash_node :: "externs \<Rightarrow> bytes \<Rightarrow> bytes \<Rightarrow> bytes" where
  "merkle_hash_node X left right = sha3_hash X (MERKLE_NODE_PREFIX # left @ right)"

text \<open>One pass over \<open>current_level.chunks(2)\<close>; a last chunk of one node is paired with itself.\<close>
fun merkle_next_level :: "externs \<Rightarrow> bytes list \<Rightarrow> bytes list" where
  "merkle_next_level X [] = []"
| "merkle_next_level X [a] = [merkle_hash_node X a a]"
| "merkle_next_level X (a # b # rest) = merkle_hash_node X a b # merkle_next_level X rest"

lemma length_merkle_next_level: "length (merkle_next_level X xs) = (length xs + 1) div 2"
  by (induction X xs rule: merkle_next_level.induct) auto

function merkle_reduce :: "externs \<Rightarrow> bytes list \<Rightarrow> bytes list" where
  "merkle_reduce X level =
     (if length level > 1 then merkle_reduce X (merkle_next_level X level) else level)"
  by pat_completeness auto
termination
  by (relation "measure (\<lambda>(X, level). length level)") (auto simp: length_merkle_next_level)

declare merkle_reduce.simps [simp del]

definition merkle_root :: "externs \<Rightarrow> bytes list \<Rightarrow> bytes" where
  "merkle_root X hashes =
     (if hashes = [] then sha3_hash X (ascii ''empty'')
      else let current_level = map (merkle_hash_leaf X) hashes in
        if length current_level = 1 then hd current_level
        else hd (merkle_reduce X current_level))"

definition merkle_sibling_index :: "nat \<Rightarrow> nat \<Rightarrow> nat" where
  "merkle_sibling_index n i = (if even i then min (i + 1) (n - 1) else i - 1)"

function merkle_proof_loop :: "externs \<Rightarrow> bytes list \<Rightarrow> nat \<Rightarrow> bytes list" where
  "merkle_proof_loop X level i =
     (if length level > 1
      then level ! merkle_sibling_index (length level) i
             # merkle_proof_loop X (merkle_next_level X level) (i div 2)
      else [])"
  by pat_completeness auto
termination
  by (relation "measure (\<lambda>(X, level, i). length level)") (auto simp: length_merkle_next_level)

declare merkle_proof_loop.simps [simp del]

definition merkle_proof :: "externs \<Rightarrow> bytes list \<Rightarrow> nat \<Rightarrow> bytes list" where
  "merkle_proof X hashes index =
     (if hashes = [] \<or> index \<ge> length hashes then []
      else if length hashes = 1 then []
      else merkle_proof_loop X (map (merkle_hash_leaf X) hashes) index)"

fun merkle_fold :: "externs \<Rightarrow> bytes \<Rightarrow> nat \<Rightarrow> bytes list \<Rightarrow> bytes" where
  "merkle_fold X current i [] = current"
| "merkle_fold X current i (sibling # proof) =
     merkle_fold X (if even i then merkle_hash_node X current sibling
                    else merkle_hash_node X sibling current) (i div 2) proof"

definition verify_merkle_proof :: "externs \<Rightarrow> bytes \<Rightarrow> bytes list \<Rightarrow> nat \<Rightarrow> bytes \<Rightarrow> bool" where
  "verify_merkle_proof X leaf_hash proof index root =
     (if root = [] then False
      else merkle_fold X (merkle_hash_leaf X leaf_hash) index proof = root)"

section \<open>Completeness of proofs\<close>

text \<open>A documented fact of SHA3-256: every digest has 32 bytes.\<close>
definition sha3_digest_size :: "externs \<Rightarrow> bool" where
  "sha3_digest_size X \<longleftrightarrow> (\<forall>d. length (x_sha3 X d) = 32)"

text \<open>Two different inputs of SHA-3, one from each list, with the same digest.\<close>
definition sha3_collides :: "externs \<Rightarrow> bytes list \<Rightarrow> bytes list \<Rightarrow> bool" where
  "sha3_collides X as bs \<longleftrightarrow> (\<exists>a \<in> set as. \<exists>b \<in> set bs. a \<noteq> b \<and> x_sha3 X a = x_sha3 X b)"

text \<open>The inputs a verifier hashes along a proof.\<close>
fun merkle_inputs :: "externs \<Rightarrow> bytes \<Rightarrow> nat \<Rightarrow> bytes list \<Rightarrow> bytes list" where
  "merkle_inputs X current i [] = []"
| "merkle_inputs X current i (sibling # pf) =
     (let n = MERKLE_NODE_PREFIX # (if even i then current @ sibling else sibling @ current)
      in n # merkle_inputs X (x_sha3 X n) (i div 2) pf)"

definition proof_inputs :: "externs \<Rightarrow> bytes \<Rightarrow> nat \<Rightarrow> bytes list \<Rightarrow> bytes list" where
  "proof_inputs X leaf i pf = (MERKLE_LEAF_PREFIX # leaf) # merkle_inputs X (merkle_hash_leaf X leaf) i pf"

lemma merkle_next_level_nth:
  "i < length xs \<Longrightarrow> merkle_next_level X xs ! (i div 2) =
     (if even i then merkle_hash_node X (xs ! i) (xs ! merkle_sibling_index (length xs) i)
      else merkle_hash_node X (xs ! merkle_sibling_index (length xs) i) (xs ! i))"
proof (induction X xs arbitrary: i rule: merkle_next_level.induct)
  case (1 X)
  then show ?case by simp
next
  case (2 X a)
  then show ?case by (simp add: merkle_sibling_index_def)
next
  case (3 X a b rest)
  show ?case
  proof (cases "i < 2")
    case True
    then consider "i = 0" | "i = 1" by linarith
    then show ?thesis by cases (auto simp: merkle_sibling_index_def)
  next
    case False
    then obtain j where j: "i = Suc (Suc j)" by (metis One_nat_def Suc_1 less_2_cases_iff not0_implies_Suc)
    with "3.prems" have jlt: "j < length rest" by simp
    have sib: "(a # b # rest) ! merkle_sibling_index (length (a # b # rest)) i =
        rest ! merkle_sibling_index (length rest) j"
      using j jlt by (cases j) (auto simp: merkle_sibling_index_def min_def nth_Cons split: nat.splits
          intro!: arg_cong [where f = "nth rest"])
    show ?thesis using "3.IH" [OF jlt] sib j by simp
  qed
qed

lemma merkle_fold_proof_loop:
  "i < length level \<Longrightarrow>
     merkle_fold X (level ! i) i (merkle_proof_loop X level i) = hd (merkle_reduce X level)"
proof (induction X level i rule: merkle_proof_loop.induct)
  case (1 X level i)
  show ?case
  proof (cases "length level > 1")
    case True
    have lt: "i div 2 < length (merkle_next_level X level)"
      using "1.prems" by (simp add: length_merkle_next_level)
    show ?thesis
      using True "1.IH" [OF True lt] merkle_next_level_nth [OF "1.prems", of X]
      by (simp add: merkle_proof_loop.simps [of X level] merkle_reduce.simps [of X level] split: if_splits)
  next
    case False
    with "1.prems" have "i = 0" and "level \<noteq> []" by auto
    with False show ?thesis
      by (simp add: merkle_proof_loop.simps [of X level] merkle_reduce.simps [of X level] hd_conv_nth)
  qed
qed

lemma hd_merkle_reduce_sha3:
  "level \<noteq> [] \<Longrightarrow> (\<forall>h\<in>set level. \<exists>d. h = x_sha3 X d) \<Longrightarrow> \<exists>d. hd (merkle_reduce X level) = x_sha3 X d"
proof (induction X level rule: merkle_reduce.induct)
  case (1 X level)
  have nodes: "\<forall>h\<in>set (merkle_next_level X xs). \<exists>d. h = x_sha3 X d" for xs
    by (induction X xs rule: merkle_next_level.induct) (auto simp: merkle_hash_node_def sha3_hash_def)
  show ?case
  proof (cases "length level > 1")
    case True
    then have "length (merkle_next_level X level) \<noteq> 0"
      by (simp add: length_merkle_next_level)
    with True "1.IH" nodes show ?thesis by (simp add: merkle_reduce.simps [of X level])
  next
    case False
    with "1.prems" show ?thesis by (auto simp: merkle_reduce.simps [of X level])
  qed
qed

lemma merkle_root_sha3: "\<exists>d. merkle_root X hashes = x_sha3 X d"
  using hd_merkle_reduce_sha3 [of "map (merkle_hash_leaf X) hashes" X]
  by (cases hashes) (auto simp: merkle_root_def sha3_hash_def merkle_hash_leaf_def Let_def)

lemma merkle_root_nonempty: "sha3_digest_size X \<Longrightarrow> merkle_root X hashes \<noteq> []"
  by (metis list.size(3) merkle_root_sha3 sha3_digest_size_def zero_neq_numeral)

lemma merkle_fold_proof:
  "index < length hashes \<Longrightarrow>
     merkle_fold X (merkle_hash_leaf X (hashes ! index)) index (merkle_proof X hashes index)
       = merkle_root X hashes"
  using merkle_fold_proof_loop [of index "map (merkle_hash_leaf X) hashes" X]
  by (auto simp: merkle_proof_def merkle_root_def Let_def hd_conv_nth)

lemma verify_generated_proof:
  "sha3_digest_size X \<Longrightarrow> index < length hashes \<Longrightarrow>
     verify_merkle_proof X (hashes ! index) (merkle_proof X hashes index) index (merkle_root X hashes)"
  by (simp add: verify_merkle_proof_def merkle_root_nonempty merkle_fold_proof)

section \<open>Binding of proofs\<close>

lemma same_digest: "x \<in> set as \<Longrightarrow> y \<in> set bs \<Longrightarrow> x_sha3 X x = x_sha3 X y \<Longrightarrow> x = y \<or> sha3_collides X as bs"
  by (auto simp: sha3_collides_def)

text \<open>The inputs hashed for the level above, and for all the levels above.\<close>
fun merkle_next_inputs :: "bytes list \<Rightarrow> bytes list" where
  "merkle_next_inputs [] = []"
| "merkle_next_inputs [a] = [MERKLE_NODE_PREFIX # a @ a]"
| "merkle_next_inputs (a # b # rest) = (MERKLE_NODE_PREFIX # a @ b) # merkle_next_inputs rest"

lemma merkle_next_level_inputs: "merkle_next_level X xs = map (x_sha3 X) (merkle_next_inputs xs)"
  by (induction xs rule: merkle_next_inputs.induct) (simp_all add: merkle_hash_node_def sha3_hash_def)

function merkle_level_inputs :: "externs \<Rightarrow> bytes list \<Rightarrow> bytes list" where
  "merkle_level_inputs X level =
     (if length level > 1 then merkle_next_inputs level @ merkle_level_inputs X (merkle_next_level X level) else [])"
  by pat_completeness auto
termination
  by (relation "measure (\<lambda>(X, level). length level)") (auto simp: length_merkle_next_level)

declare merkle_level_inputs.simps [simp del]

text \<open>Everything that is hashed when the root of a list of leaves is built.\<close>
definition merkle_root_inputs :: "externs \<Rightarrow> bytes list \<Rightarrow> bytes list" where
  "merkle_root_inputs X hashes =
     (if hashes = [] then [ascii ''empty'']
      else map (Cons MERKLE_LEAF_PREFIX) hashes @ merkle_level_inputs X (map (merkle_hash_leaf X) hashes))"

text \<open>An input of the tree is that of a leaf of \<open>L\<close>, or that of a node over two digests of inputs of the tree.\<close>
definition tree_input :: "externs \<Rightarrow> bytes set \<Rightarrow> bytes set \<Rightarrow> bytes \<Rightarrow> bool" where
  "tree_input X L I d \<longleftrightarrow> (\<exists>l \<in> L. d = MERKLE_LEAF_PREFIX # l)
     \<or> (\<exists>l r. d = MERKLE_NODE_PREFIX # l @ r \<and> l \<in> x_sha3 X ` I \<and> r \<in> x_sha3 X ` I)"

lemma merkle_next_inputs_nodes:
  "d \<in> set (merkle_next_inputs xs) \<Longrightarrow> \<exists>l \<in> set xs. \<exists>r \<in> set xs. d = MERKLE_NODE_PREFIX # l @ r"
  by (induction xs rule: merkle_next_inputs.induct) auto

lemma merkle_level_inputs_closed:
  "set level \<subseteq> x_sha3 X ` I \<Longrightarrow> set (merkle_level_inputs X level) \<subseteq> I \<Longrightarrow>
     (\<forall>d \<in> set (merkle_level_inputs X level). tree_input X L I d) \<and> set (merkle_reduce X level) \<subseteq> x_sha3 X ` I"
proof (induction X level rule: merkle_level_inputs.induct)
  case (1 X level)
  show ?case
  proof (cases "length level > 1")
    case True
    have "set (merkle_next_level X level) \<subseteq> x_sha3 X ` I"
      using "1.prems"(2) True by (auto simp: merkle_next_level_inputs merkle_level_inputs.simps [of X level])
    with "1.IH" [OF True this] "1.prems" True show ?thesis
      by (auto simp: merkle_level_inputs.simps [of X level] merkle_reduce.simps [of X level] tree_input_def
          dest!: merkle_next_inputs_nodes) (metis subsetD)+
  next
    case False
    then show ?thesis using "1.prems"(1) by (simp add: merkle_level_inputs.simps [of X level] merkle_reduce.simps [of X level])
  qed
qed

lemma merkle_reduce_ne: "level \<noteq> [] \<Longrightarrow> merkle_reduce X level \<noteq> []"
proof (induction X level rule: merkle_reduce.induct)
  case (1 X level)
  have "merkle_next_level X level \<noteq> []" if "length level > 1"
    using that length_merkle_next_level [of X level] by auto
  with 1 show ?case by (cases "length level > 1") (simp_all add: merkle_reduce.simps [of X level])
qed

lemma merkle_root_closed:
  assumes "hashes \<noteq> []" and I: "I = set (merkle_root_inputs X hashes)"
  shows "merkle_root X hashes \<in> x_sha3 X ` I" "d \<in> I \<Longrightarrow> tree_input X (set hashes) I d"
proof -
  let ?level = "map (merkle_hash_leaf X) hashes"
  have "set ?level \<subseteq> x_sha3 X ` I" "set (merkle_level_inputs X ?level) \<subseteq> I"
    using assms by (auto simp: merkle_root_inputs_def merkle_hash_leaf_def sha3_hash_def)
  note closed = merkle_level_inputs_closed [OF this, of "set hashes"]
  have "merkle_root X hashes \<in> set (merkle_reduce X ?level)"
    using assms(1) merkle_reduce_ne [of ?level X]
    by (auto simp: merkle_root_def Let_def merkle_reduce.simps [of X "[_]"] length_Suc_conv)
  then show "merkle_root X hashes \<in> x_sha3 X ` I" using closed by blast
  show "d \<in> I \<Longrightarrow> tree_input X (set hashes) I d"
    using closed assms(1) unfolding I by (auto simp: merkle_root_inputs_def tree_input_def)
qed

text \<open>A path from any node that ends in a digest of the tree has only nodes of the tree on it.\<close>
lemma merkle_fold_descends:
  assumes "sha3_digest_size X" "\<And>d. d \<in> set I \<Longrightarrow> tree_input X L (set I) d"
  shows "length c = 32 \<Longrightarrow> merkle_fold X c i pf \<in> x_sha3 X ` set I \<Longrightarrow>
    c \<in> x_sha3 X ` set I \<or> sha3_collides X (merkle_inputs X c i pf) I"
proof (induction pf arbitrary: c i)
  case (Cons s pf)
  let ?n = "MERKLE_NODE_PREFIX # (if even i then c @ s else s @ c)"
  have len: "length (x_sha3 X d) = 32" for d using assms(1) by (simp add: sha3_digest_size_def)
  have "merkle_fold X (x_sha3 X ?n) (i div 2) pf \<in> x_sha3 X ` set I"
    using Cons.prems(2) by (simp add: merkle_hash_node_def sha3_hash_def split: if_splits)
  from Cons.IH [OF len this] consider "x_sha3 X ?n \<in> x_sha3 X ` set I" | "sha3_collides X (merkle_inputs X c i (s # pf)) I"
    by (auto simp: Let_def sha3_collides_def)
  then show ?case
  proof cases
    case 1
    then obtain d where d: "d \<in> set I" "x_sha3 X ?n = x_sha3 X d" by blast
    show ?thesis
    proof (cases "?n = d")
      case True
      then obtain l r where "?n = MERKLE_NODE_PREFIX # l @ r" "l \<in> x_sha3 X ` set I" "r \<in> x_sha3 X ` set I"
        using assms(2) [OF d(1)] by (auto simp: tree_input_def MERKLE_NODE_PREFIX_def MERKLE_LEAF_PREFIX_def)
      then show ?thesis using Cons.prems(1) len by (cases "even i") auto
    next
      case False
      then show ?thesis using d by (auto simp: Let_def sha3_collides_def)
    qed
  qed simp
qed simp

lemma merkle_fold_hashed: "\<exists>d \<in> set (proof_inputs X leaf i pf). merkle_fold X (merkle_hash_leaf X leaf) i pf = x_sha3 X d
   \<and> (\<exists>l. d = MERKLE_LEAF_PREFIX # l \<or> d = MERKLE_NODE_PREFIX # l)"
proof -
  have "merkle_fold X (x_sha3 X d) i pf = x_sha3 X d \<or> (\<exists>e \<in> set (merkle_inputs X (x_sha3 X d) i pf).
      merkle_fold X (x_sha3 X d) i pf = x_sha3 X e \<and> (\<exists>l. e = MERKLE_NODE_PREFIX # l))" for d
    by (induction pf arbitrary: d i) (auto simp: Let_def merkle_hash_node_def sha3_hash_def)
  then show ?thesis by (auto simp: proof_inputs_def merkle_hash_leaf_def sha3_hash_def)
qed

section \<open>Properties\<close>

text \<open>Completeness of the Merkle tree: for every list of leaves and every index in range,
  the proof generated for that index verifies against the root of the list.\<close>
theorem merkle_proof_verifies:
  assumes "sha3_digest_size X" and "index < length hashes"
  shows "verify_merkle_proof X (hashes ! index) (merkle_proof X hashes index) index
    (merkle_root X hashes)"
  using assms by (rule verify_generated_proof)

lemma demo_sha3_digest_size: "sha3_digest_size demo_externs"
  by (simp add: sha3_digest_size_def)

theorem merkle_proof_verifies_witness:
  "verify_merkle_proof demo_externs [7] (merkle_proof demo_externs [[5], [6], [7]] 2) 2
     (merkle_root demo_externs [[5], [6], [7]])"
  using merkle_proof_verifies [OF demo_sha3_digest_size, of 2 "[[5], [6], [7]]"] by simp

text \<open>Binding of the Merkle tree: whatever index and path a proof has, when it is accepted against the root of a list of
  leaves its leaf is one of the list, unless the inputs hashed along the path and those hashed for the root contain an
  explicit SHA-3 collision. The prefixes keep a node of the tree from being presented as a leaf.\<close>
theorem merkle_proof_binding:
  assumes "sha3_digest_size X" "hashes \<noteq> []" "verify_merkle_proof X leaf pf index (merkle_root X hashes)"
  shows "leaf \<in> set hashes \<or> sha3_collides X (proof_inputs X leaf index pf) (merkle_root_inputs X hashes)"
proof -
  note closed = merkle_root_closed [OF assms(2) refl, where X = X]
  have "merkle_fold X (merkle_hash_leaf X leaf) index pf \<in> x_sha3 X ` set (merkle_root_inputs X hashes)"
    using assms(3) closed(1) by (simp add: verify_merkle_proof_def split: if_splits)
  from merkle_fold_descends [OF assms(1) closed(2) _ this] assms(1)
  have "x_sha3 X (MERKLE_LEAF_PREFIX # leaf) \<in> x_sha3 X ` set (merkle_root_inputs X hashes)
      \<or> sha3_collides X (proof_inputs X leaf index pf) (merkle_root_inputs X hashes)"
    by (auto simp: merkle_hash_leaf_def sha3_hash_def sha3_digest_size_def sha3_collides_def proof_inputs_def)
  then show ?thesis
    using closed(2) [of "MERKLE_LEAF_PREFIX # leaf"]
    by (fastforce simp: tree_input_def MERKLE_NODE_PREFIX_def MERKLE_LEAF_PREFIX_def sha3_collides_def proof_inputs_def)
qed

theorem merkle_proof_binding_witness:
  "let pf = merkle_proof demo_externs [[5], [6], [7]] 2 in
   [7] \<in> set [[5], [6], [7 :: u8]] \<or> sha3_collides demo_externs (proof_inputs demo_externs [7] 2 pf)
     (merkle_root_inputs demo_externs [[5], [6], [7]])"
proof -
  have "verify_merkle_proof demo_externs [7] (merkle_proof demo_externs [[5], [6], [7]] 2) 2
      (merkle_root demo_externs [[5], [6], [7]])"
    using verify_generated_proof [OF demo_sha3_digest_size, of 2 "[[5], [6], [7]]"] by simp
  from merkle_proof_binding [OF demo_sha3_digest_size _ this] show ?thesis by (simp add: Let_def)
qed

end
