(* ===== verification/Transactions.thy ===== *)
theory Transactions
  imports Crypto_Hash
begin

text \<open>
  \<^verbatim>\<open>src/src/core/transaction.rs\<close> and the raw Ethereum decoder of \<^verbatim>\<open>src/src/vm/evm.rs\<close>: gas and fee
  arithmetic, transaction constructors, hashing, signing and signature checking.
  The wall clock of the constructors is the argument \<open>now\<close>.
\<close>

section \<open>Gas schedule (\<^verbatim>\<open>src/src/vm/gas.rs\<close>)\<close>

definition GAS_BASE_TX :: u64 where "GAS_BASE_TX = 21000"
definition GAS_DEPLOY :: u64 where "GAS_DEPLOY = 32000"
definition GAS_CALL :: u64 where "GAS_CALL = 2600"
definition GAS_PER_BYTE :: u64 where "GAS_PER_BYTE = 16"

lemmas gas_defs = GAS_BASE_TX_def GAS_DEPLOY_def GAS_CALL_def GAS_PER_BYTE_def

section \<open>Kinds and classes\<close>

fun kind_mempool_class :: "transaction_kind \<Rightarrow> mempool_class" where
  "kind_mempool_class Stake = System"
| "kind_mempool_class Unstake = System"
| "kind_mempool_class SubmitProposal = System"
| "kind_mempool_class GovernanceVote = System"
| "kind_mempool_class Coinbase = System"
| "kind_mempool_class Transfer = User"
| "kind_mempool_class DeployContract = User"
| "kind_mempool_class CallContract = User"
| "kind_mempool_class DeployToken = User"
| "kind_mempool_class TokenTransfer = User"
| "kind_mempool_class TokenApprove = User"
| "kind_mempool_class TokenTransferFrom = User"
| "kind_mempool_class DeployEvmContract = User"
| "kind_mempool_class CallEvmContract = User"

definition tx_mempool_class :: "transaction \<Rightarrow> mempool_class" where
  "tx_mempool_class tx = kind_mempool_class (tx_kind tx)"

definition is_coinbase :: "transaction \<Rightarrow> bool" where
  "is_coinbase tx \<longleftrightarrow> tx_kind tx = Coinbase"

definition is_stake :: "transaction \<Rightarrow> bool" where
  "is_stake tx \<longleftrightarrow> tx_kind tx = Stake"

definition is_unstake :: "transaction \<Rightarrow> bool" where
  "is_unstake tx \<longleftrightarrow> tx_kind tx = Unstake"

definition is_evm :: "transaction \<Rightarrow> bool" where
  "is_evm tx \<longleftrightarrow> tx_kind tx = DeployEvmContract \<or> tx_kind tx = CallEvmContract"

lemmas kind_defs = is_coinbase_def is_stake_def is_unstake_def is_evm_def

section \<open>Fees\<close>

definition max_fee_per_gas :: "transaction \<Rightarrow> u64" where
  "max_fee_per_gas tx = max (tx_max_fee_per_gas tx) (tx_fee tx)"

definition max_priority_fee_per_gas :: "transaction \<Rightarrow> u64" where
  "max_priority_fee_per_gas tx =
     (let max_fee = max_fee_per_gas tx in
      if tx_max_priority_fee_per_gas tx = 0 then min (tx_fee tx) max_fee
      else min (tx_max_priority_fee_per_gas tx) max_fee)"

definition payload_bytes :: "transaction \<Rightarrow> u64" where
  "payload_bytes tx = (case tx_kind tx of
       Transfer \<Rightarrow> len64 (tx_data tx)
     | Stake \<Rightarrow> 0 | Unstake \<Rightarrow> 0 | Coinbase \<Rightarrow> 0
     | DeployContract \<Rightarrow> sat_add (len64 (tx_to tx)) (len64 (tx_data tx))
     | CallContract \<Rightarrow> len64 (tx_data tx)
     | DeployToken \<Rightarrow> len64 (tx_data tx) | TokenTransfer \<Rightarrow> len64 (tx_data tx)
     | TokenApprove \<Rightarrow> len64 (tx_data tx) | TokenTransferFrom \<Rightarrow> len64 (tx_data tx)
     | SubmitProposal \<Rightarrow> len64 (tx_data tx) | GovernanceVote \<Rightarrow> len64 (tx_data tx)
     | DeployEvmContract \<Rightarrow> sat_add (len64 (tx_data tx)) (len64 (tx_to tx))
     | CallEvmContract \<Rightarrow> len64 (tx_data tx))"

definition kind_gas :: "transaction_kind \<Rightarrow> u64" where
  "kind_gas k = (case k of
       DeployContract \<Rightarrow> sat_add GAS_BASE_TX GAS_DEPLOY
     | CallContract \<Rightarrow> sat_add GAS_BASE_TX GAS_CALL
     | DeployEvmContract \<Rightarrow> sat_add GAS_BASE_TX GAS_DEPLOY
     | CallEvmContract \<Rightarrow> sat_add GAS_BASE_TX GAS_CALL
     | _ \<Rightarrow> GAS_BASE_TX)"

definition intrinsic_gas :: "transaction \<Rightarrow> u64" where
  "intrinsic_gas tx = sat_add (kind_gas (tx_kind tx)) (sat_mul (payload_bytes tx) GAS_PER_BYTE)"

definition estimated_gas_for_admission :: "transaction \<Rightarrow> u64" where
  "estimated_gas_for_admission tx =
     (if tx_kind tx \<in> {DeployContract, CallContract, DeployEvmContract, CallEvmContract}
      then max (tx_gas_limit tx) (intrinsic_gas tx) else intrinsic_gas tx)"

definition effective_gas_limit :: "transaction \<Rightarrow> u64" where
  "effective_gas_limit tx = estimated_gas_for_admission tx"

definition total_fee_cap :: "transaction \<Rightarrow> u64" where
  "total_fee_cap tx = sat_mul (effective_gas_limit tx) (max_fee_per_gas tx)"

definition effective_gas_price :: "transaction \<Rightarrow> u64 \<Rightarrow> u64 option" where
  "effective_gas_price tx base_fee_per_gas =
     (let max_fee = max_fee_per_gas tx in
      if max_fee < base_fee_per_gas then None
      else let priority = min (max_priority_fee_per_gas tx) (sat_sub max_fee base_fee_per_gas)
        in Some (sat_add base_fee_per_gas priority))"

definition priority_fee_per_gas :: "transaction \<Rightarrow> u64 \<Rightarrow> u64 option" where
  "priority_fee_per_gas tx base_fee_per_gas =
     map_option (\<lambda>effective. sat_sub effective base_fee_per_gas)
       (effective_gas_price tx base_fee_per_gas)"

definition with_fee_caps :: "transaction \<Rightarrow> u64 \<Rightarrow> u64 \<Rightarrow> transaction" where
  "with_fee_caps tx max_fee max_priority =
     tx\<lparr>tx_fee := max_fee, tx_max_fee_per_gas := max_fee,
        tx_max_priority_fee_per_gas := min max_priority max_fee\<rparr>"

section \<open>Constructors\<close>

definition native_tx :: "externs \<Rightarrow> i64 \<Rightarrow> string \<Rightarrow> transaction_kind \<Rightarrow> bytes \<Rightarrow> bytes \<Rightarrow> u64 \<Rightarrow>
    u64 \<Rightarrow> u64 \<Rightarrow> u64 \<Rightarrow> bytes \<Rightarrow> transaction" where
  "native_tx X now chain_id kind sender_public_key to' amount fee nonce gas_limit data =
     \<lparr>tx_chain_id = chain_id, tx_kind = kind,
      tx_from = address_bytes_from_public_key X sender_public_key,
      tx_sender_public_key = sender_public_key, tx_to = to', tx_amount = amount, tx_fee = fee,
      tx_max_fee_per_gas = fee, tx_max_priority_fee_per_gas = fee, tx_nonce = nonce,
      tx_timestamp = now, tx_signature = None, tx_gas_limit = gas_limit, tx_data = data,
      tx_evm_raw_tx = []\<rparr>"

definition tx_new :: "externs \<Rightarrow> i64 \<Rightarrow> string \<Rightarrow> bytes \<Rightarrow> bytes \<Rightarrow> u64 \<Rightarrow> u64 \<Rightarrow> u64 \<Rightarrow> transaction" where
  "tx_new X now chain_id sender_public_key to' amount fee nonce =
     native_tx X now chain_id Transfer sender_public_key to' amount fee nonce 0 []"

definition tx_stake :: "externs \<Rightarrow> i64 \<Rightarrow> string \<Rightarrow> bytes \<Rightarrow> u64 \<Rightarrow> u64 \<Rightarrow> u64 \<Rightarrow> transaction" where
  "tx_stake X now chain_id sender_public_key amount fee nonce =
     native_tx X now chain_id Stake sender_public_key [] amount fee nonce 0 []"

definition tx_unstake :: "externs \<Rightarrow> i64 \<Rightarrow> string \<Rightarrow> bytes \<Rightarrow> u64 \<Rightarrow> u64 \<Rightarrow> u64 \<Rightarrow> transaction" where
  "tx_unstake X now chain_id sender_public_key amount fee nonce =
     native_tx X now chain_id Unstake sender_public_key [] amount fee nonce 0 []"

definition tx_deploy_contract :: "externs \<Rightarrow> i64 \<Rightarrow> string \<Rightarrow> bytes \<Rightarrow> bytes \<Rightarrow> u64 \<Rightarrow> u64 \<Rightarrow> u64 \<Rightarrow>
    transaction" where
  "tx_deploy_contract X now chain_id sender_public_key code gas_limit fee nonce =
     native_tx X now chain_id DeployContract sender_public_key code 0 fee nonce gas_limit []"

definition tx_call_contract :: "externs \<Rightarrow> i64 \<Rightarrow> string \<Rightarrow> bytes \<Rightarrow> bytes \<Rightarrow> bytes \<Rightarrow> u64 \<Rightarrow> u64 \<Rightarrow>
    u64 \<Rightarrow> u64 \<Rightarrow> transaction" where
  "tx_call_contract X now chain_id sender_public_key contract_addr input_data value gas_limit fee nonce =
     native_tx X now chain_id CallContract sender_public_key contract_addr value fee nonce gas_limit
       input_data"

definition coinbase_with_timestamp :: "string \<Rightarrow> bytes \<Rightarrow> u64 \<Rightarrow> i64 \<Rightarrow> transaction" where
  "coinbase_with_timestamp chain_id to' amount timestamp =
     \<lparr>tx_chain_id = chain_id, tx_kind = Coinbase, tx_from = replicate ADDRESS_LEN 0,
      tx_sender_public_key = [], tx_to = to', tx_amount = amount, tx_fee = 0,
      tx_max_fee_per_gas = 0, tx_max_priority_fee_per_gas = 0, tx_nonce = 0,
      tx_timestamp = timestamp, tx_signature = None, tx_gas_limit = 0, tx_data = [],
      tx_evm_raw_tx = []\<rparr>"

definition from_evm_raw :: "i64 \<Rightarrow> string \<Rightarrow> transaction_kind \<Rightarrow> bytes \<Rightarrow> bytes \<Rightarrow> u64 \<Rightarrow> u64 \<Rightarrow> u64 \<Rightarrow>
    u64 \<Rightarrow> u64 \<Rightarrow> bytes \<Rightarrow> bytes \<Rightarrow> transaction" where
  "from_evm_raw now chain_id kind from_addr to_addr value nonce gas_limit max_fee max_priority
     data raw_tx =
     \<lparr>tx_chain_id = chain_id, tx_kind = kind, tx_from = from_addr, tx_sender_public_key = [],
      tx_to = to_addr, tx_amount = value, tx_fee = max_fee, tx_max_fee_per_gas = max_fee,
      tx_max_priority_fee_per_gas = max_priority, tx_nonce = nonce, tx_timestamp = now,
      tx_signature = None, tx_gas_limit = gas_limit, tx_data = data, tx_evm_raw_tx = raw_tx\<rparr>"

section \<open>Hashing and signing\<close>

definition signable_bytes :: "externs \<Rightarrow> transaction \<Rightarrow> bytes" where
  "signable_bytes X tx =
     ascii ''curs3d-tx-v1:'' @ x_bin_tx X
       \<lparr>st_chain_id = tx_chain_id tx, st_kind = tx_kind tx, st_from = tx_from tx,
        st_sender_public_key = tx_sender_public_key tx, st_to = tx_to tx,
        st_amount = tx_amount tx, st_fee = tx_fee tx,
        st_max_fee_per_gas = max_fee_per_gas tx,
        st_max_priority_fee_per_gas = max_priority_fee_per_gas tx,
        st_nonce = tx_nonce tx, st_timestamp = tx_timestamp tx,
        st_gas_limit = tx_gas_limit tx, st_data = tx_data tx\<rparr>"

definition tx_hash :: "externs \<Rightarrow> transaction \<Rightarrow> bytes" where
  "tx_hash X tx = sha3_hash X (signable_bytes X tx)"

text \<open>\<open>None\<close> is the panic of \<open>KeyPair::sign\<close> on a malformed secret key.\<close>
definition tx_sign :: "externs \<Rightarrow> transaction \<Rightarrow> key_pair \<Rightarrow> transaction option" where
  "tx_sign X tx kp =
     (if is_coinbase tx then Some tx
      else case dilithium_sign X kp (signable_bytes X tx) of
        None \<Rightarrow> None
      | Some sig \<Rightarrow> Some (tx\<lparr>tx_signature := Some sig\<rparr>))"

record decoded_raw_tx =
  dr_from :: bytes
  dr_to :: "bytes option"
  dr_value :: u64
  dr_data :: bytes
  dr_gas_limit :: u64
  dr_gas_price :: u64
  dr_max_fee_per_gas :: u64
  dr_max_priority_fee_per_gas :: u64
  dr_nonce :: u64
  dr_chain_id :: "u64 option"
  dr_tx_hash :: bytes

definition u64_from_u256_saturating :: "u256 \<Rightarrow> u64" where
  "u64_from_u256_saturating v = (if drop_bit 64 v \<noteq> 0 then - 1 else ucast v)"

definition decode_raw_eth_tx :: "externs \<Rightarrow> bytes \<Rightarrow> evm_error + decoded_raw_tx" where
  "decode_raw_eth_tx X raw =
     (case x_eth_decode X raw of
        None \<Rightarrow> Inl (EvmRlpDecode [])
      | Some envelope \<Rightarrow>
          (case x_eth_recover X envelope of
             None \<Rightarrow> Inl EvmSignatureRecovery
           | Some from' \<Rightarrow>
               let max_fee = eth_max_fee_per_gas envelope;
                   max_priority = (case eth_max_priority_fee_per_gas envelope of
                      None \<Rightarrow> max_fee | Some p \<Rightarrow> p)
               in Inr \<lparr>dr_from = from', dr_to = eth_to envelope,
                    dr_value = u64_from_u256_saturating (eth_value envelope),
                    dr_data = eth_input envelope, dr_gas_limit = eth_gas_limit envelope,
                    dr_gas_price = ucast max_fee, dr_max_fee_per_gas = ucast max_fee,
                    dr_max_priority_fee_per_gas = ucast max_priority,
                    dr_nonce = eth_nonce envelope, dr_chain_id = eth_chain_id envelope,
                    dr_tx_hash = eth_tx_hash envelope\<rparr>))"

definition tx_verify_signature :: "externs \<Rightarrow> transaction \<Rightarrow> bool" where
  "tx_verify_signature X tx =
     (if is_coinbase tx then True
      else if is_evm tx then
        (if tx_evm_raw_tx tx = [] then False
         else case decode_raw_eth_tx X (tx_evm_raw_tx tx) of
           Inr decoded \<Rightarrow> dr_from decoded = tx_from tx
         | Inl _ \<Rightarrow> False)
      else if tx_from tx \<noteq> address_bytes_from_public_key X (tx_sender_public_key tx) then False
      else case tx_signature tx of
        Some sig \<Rightarrow> dilithium_verify X (signable_bytes X tx) sig (tx_sender_public_key tx)
      | None \<Rightarrow> False)"

section \<open>Lemmas\<close>

lemma mempool_class_System_iff:
  "kind_mempool_class k = System \<longleftrightarrow> k \<in> {Stake, Unstake, SubmitProposal, GovernanceVote, Coinbase}"
  by (cases k) auto

lemma max_priority_le_max_fee: "max_priority_fee_per_gas tx \<le> max_fee_per_gas tx"
  by (simp add: max_priority_fee_per_gas_def Let_def)

lemma effective_gas_price_eq_None: "effective_gas_price tx b = None \<longleftrightarrow> max_fee_per_gas tx < b"
  by (simp add: effective_gas_price_def Let_def)

lemma unat_effective_gas_price:
  assumes "effective_gas_price tx b = Some p"
  shows "unat p = unat b + min (unat (max_priority_fee_per_gas tx)) (unat (max_fee_per_gas tx) - unat b)"
proof -
  have "unat b \<le> unat (max_fee_per_gas tx)" "unat (max_fee_per_gas tx) < 2 ^ 64"
    using assms unat_lt_u64 by (auto simp: effective_gas_price_def Let_def u_simps split: if_splits)
  with assms show ?thesis
    by (auto simp: effective_gas_price_def Let_def u_simps min_def split: if_splits)
qed

lemma effective_gas_price_bounds:
  assumes "effective_gas_price tx b = Some p"
  shows "b \<le> p" and "p \<le> max_fee_per_gas tx"
proof -
  have "unat b \<le> unat (max_fee_per_gas tx)"
    using assms by (auto simp: effective_gas_price_def Let_def u_simps split: if_splits)
  then show "b \<le> p" "p \<le> max_fee_per_gas tx"
    using unat_effective_gas_price [OF assms] by (auto simp: u_simps)
qed

lemma intrinsic_gas_ge_base: "GAS_BASE_TX \<le> intrinsic_gas tx"
  by (cases "tx_kind tx") (auto simp: intrinsic_gas_def kind_gas_def gas_defs u_simps)

lemma effective_gas_limit_ge_base: "GAS_BASE_TX \<le> effective_gas_limit tx"
  using intrinsic_gas_ge_base [of tx]
  by (auto simp: effective_gas_limit_def estimated_gas_for_admission_def max_def)

lemma tx_hash_signature [simp]: "tx_hash X (tx\<lparr>tx_signature := s\<rparr>) = tx_hash X tx"
  and signable_bytes_signature [simp]: "signable_bytes X (tx\<lparr>tx_signature := s\<rparr>) = signable_bytes X tx"
  by (simp_all add: tx_hash_def signable_bytes_def max_fee_per_gas_def max_priority_fee_per_gas_def Let_def)

section \<open>Properties\<close>

text \<open>The EIP-1559 price of a transaction. When the fee cap covers the base fee the effective
  price lies between the base fee and the fee cap, exceeds the base fee by at most the
  transaction's priority cap, and the tip is exactly the difference; otherwise there is no price.\<close>
theorem effective_gas_price_spec:
  "case effective_gas_price tx base of
     None \<Rightarrow> max_fee_per_gas tx < base \<and> priority_fee_per_gas tx base = None
   | Some p \<Rightarrow> base \<le> p \<and> p \<le> max_fee_per_gas tx
       \<and> unat p = unat base + min (unat (max_priority_fee_per_gas tx))
            (unat (max_fee_per_gas tx) - unat base)
       \<and> priority_fee_per_gas tx base = Some (p - base)"
proof (cases "effective_gas_price tx base")
  case None
  then show ?thesis
    using effective_gas_price_eq_None [of tx base] by (simp add: priority_fee_per_gas_def)
next
  case (Some p)
  then show ?thesis
    using effective_gas_price_bounds [OF Some] unat_effective_gas_price [OF Some]
    by (simp add: priority_fee_per_gas_def sat_sub_def)
qed

text \<open>The documented correctness of ML-DSA-87: a signature made with a seed decodes, has the
  encoded length, and verifies under the public key of that seed.\<close>
definition mldsa_correct :: "externs \<Rightarrow> key_pair \<Rightarrow> bool" where
  "mldsa_correct X kp \<longleftrightarrow> length (kp_secret_key kp) = 32 \<and> length (kp_public_key kp) = MLDSA_PK_LEN \<and>
     (\<forall>msg. length (x_mldsa_sign X (kp_secret_key kp) msg) = MLDSA_SIG_LEN \<and>
        (\<exists>sig. x_mldsa_sig_decode X (x_mldsa_sign X (kp_secret_key kp) msg) = Some sig \<and>
               x_mldsa_verify X (kp_public_key kp) msg sig))"

lemma dilithium_sign_verify:
  assumes "mldsa_correct X kp"
  shows "\<exists>sig. dilithium_sign X kp msg = Some sig \<and> dilithium_verify X msg sig (kp_public_key kp)"
proof -
  obtain sig where sig: "x_mldsa_sig_decode X (x_mldsa_sign X (kp_secret_key kp) msg) = Some sig"
      "x_mldsa_verify X (kp_public_key kp) msg sig"
    using assms unfolding mldsa_correct_def by blast
  have "length (kp_secret_key kp) = 32" "length (kp_public_key kp) = MLDSA_PK_LEN"
      "length (x_mldsa_sign X (kp_secret_key kp) msg) = MLDSA_SIG_LEN"
    using assms unfolding mldsa_correct_def by blast+
  with sig show ?thesis by (simp add: dilithium_sign_def dilithium_verify_def)
qed

text \<open>Signing and checking agree: a native transaction built for a key pair and signed with it
  passes \<open>verify_signature\<close>, and signing changes neither its hash nor any other field.\<close>
theorem sign_verify_roundtrip:
  assumes "mldsa_correct X kp" and "\<not> is_evm tx" and "tx_sender_public_key tx = kp_public_key kp"
    and "tx_from tx = address_bytes_from_public_key X (kp_public_key kp)"
  shows "\<exists>signed. tx_sign X tx kp = Some signed \<and> tx_verify_signature X signed
    \<and> tx_hash X signed = tx_hash X tx \<and> signed\<lparr>tx_signature := tx_signature tx\<rparr> = tx"
proof -
  obtain sig where sig: "dilithium_sign X kp (signable_bytes X tx) = Some sig"
      "dilithium_verify X (signable_bytes X tx) sig (tx_sender_public_key tx)"
    using dilithium_sign_verify [OF assms(1)] assms(3) by metis
  show ?thesis
  proof (cases "is_coinbase tx")
    case True
    then show ?thesis by (simp add: tx_sign_def tx_verify_signature_def)
  next
    case False
    then have "tx_verify_signature X (tx\<lparr>tx_signature := Some sig\<rparr>)"
      using sig(2) assms(2-4) by (simp add: tx_verify_signature_def kind_defs)
    then show ?thesis using False sig(1) by (simp add: tx_sign_def)
  qed
qed

lemma demo_mldsa_correct:
  "mldsa_correct demo_externs \<lparr>kp_public_key = replicate 2592 1, kp_secret_key = replicate 32 1\<rparr>"
  by (simp add: mldsa_correct_def MLDSA_PK_LEN_def MLDSA_SIG_LEN_def)

theorem sign_verify_roundtrip_witness:
  "let tx = tx_new demo_externs 0 ''c'' (replicate 2592 1) [] 5 1 0 in
   \<exists>signed. tx_sign demo_externs tx \<lparr>kp_public_key = replicate 2592 1, kp_secret_key = replicate 32 1\<rparr>
      = Some signed \<and> tx_verify_signature demo_externs signed
      \<and> tx_hash demo_externs signed = tx_hash demo_externs tx
      \<and> signed\<lparr>tx_signature := tx_signature tx\<rparr> = tx"
  using sign_verify_roundtrip [OF demo_mldsa_correct,
      of "tx_new demo_externs 0 ''c'' (replicate 2592 1) [] 5 1 0"]
  by (simp add: tx_new_def native_tx_def is_evm_def Let_def)

text \<open>C37. The signature check of an EVM transaction binds nothing but the sender: replacing the
  recipient, amount, nonce, call data, gas limit and fee caps of an accepted EVM transaction
  gives another accepted EVM transaction, with the raw signed payload of the original.\<close>
theorem evm_signature_not_binding:
  assumes "is_evm tx" and "tx_verify_signature X tx"
  shows "tx_verify_signature X (tx\<lparr>tx_to := to', tx_amount := amount, tx_nonce := nonce,
    tx_data := data, tx_gas_limit := gas, tx_fee := fee, tx_max_fee_per_gas := max_fee,
    tx_max_priority_fee_per_gas := max_prio\<rparr>)"
  using assms by (auto simp: tx_verify_signature_def kind_defs split: sum.splits)

definition demo_evm_externs :: externs where
  "demo_evm_externs = demo_externs\<lparr>
     x_eth_decode := (\<lambda>raw. Some \<lparr>eth_to = Some (replicate 20 2), eth_value = 1, eth_input = [],
       eth_gas_limit = 21000, eth_max_fee_per_gas = 1, eth_max_priority_fee_per_gas = None,
       eth_nonce = 0, eth_chain_id = None, eth_tx_hash = raw\<rparr>),
     x_eth_recover := (\<lambda>e. Some (replicate 20 1))\<rparr>"

theorem evm_signature_not_binding_witness:
  "let tx = from_evm_raw 0 ''c'' CallEvmContract (replicate 20 1) (replicate 20 2) 1 0 21000 1 1 [] [9]
   in tx_verify_signature demo_evm_externs (tx\<lparr>tx_to := replicate 20 3, tx_amount := 1000000,
        tx_nonce := 7, tx_data := [1], tx_gas_limit := 50000, tx_fee := 9,
        tx_max_fee_per_gas := 9, tx_max_priority_fee_per_gas := 9\<rparr>)"
  unfolding Let_def
  by (rule evm_signature_not_binding)
    (simp_all add: from_evm_raw_def is_evm_def is_coinbase_def tx_verify_signature_def
      decode_raw_eth_tx_def demo_evm_externs_def Let_def)

end
