(* ===== verification/Blocks.thy ===== *)
theory Blocks
  imports Transactions
begin

text \<open>
  \<^verbatim>\<open>src/src/core/block.rs\<close> and \<^verbatim>\<open>src/src/core/checkpoints.rs\<close>: block construction, the three
  local checks of a block (hash, signature, Merkle root), and the trusted checkpoints.
  Checkpoint enforcement is split from the compiled-in table (empty in this release), so that it
  can be reasoned about for any table.
\<close>

section \<open>Blocks\<close>

definition GENESIS_TIMESTAMP :: i64 where "GENESIS_TIMESTAMP = 1700000000"

definition EMPTY_STATE_ROOT_SEED :: bytes where
  "EMPTY_STATE_ROOT_SEED = ascii ''curs3d-empty-state''"

definition compute_hash :: "externs \<Rightarrow> block_header \<Rightarrow> bytes" where
  "compute_hash X header = double_hash X (x_bin_header X header)"

definition signable_block_hash :: "bytes \<Rightarrow> bytes" where
  "signable_block_hash block_hash = ascii ''curs3d-block-sig-v1:'' @ block_hash"

text \<open>\<open>Block::new\<close>; \<open>None\<close> is the panic of \<open>KeyPair::sign\<close> on a malformed secret key.\<close>
definition block_new :: "externs \<Rightarrow> i64 \<Rightarrow> u32 \<Rightarrow> u64 \<Rightarrow> bytes \<Rightarrow> bytes \<Rightarrow> u64 \<Rightarrow> u64 \<Rightarrow>
    transaction list \<Rightarrow> key_pair \<Rightarrow> block option" where
  "block_new X now version height prev_hash state_root gas_used base_fee_per_gas transactions kp =
     (let tx_hashes = map (tx_hash X) transactions;
          header = \<lparr>hdr_version = version, hdr_height = height, hdr_timestamp = now,
            hdr_prev_hash = prev_hash, hdr_merkle_root = merkle_root X tx_hashes,
            hdr_state_root = state_root, hdr_gas_used = gas_used,
            hdr_base_fee_per_gas = base_fee_per_gas,
            hdr_validator_public_key = kp_public_key kp, hdr_nonce = 0\<rparr>;
          h = compute_hash X header
      in case dilithium_sign X kp (signable_block_hash h) of
           None \<Rightarrow> None
         | Some sig \<Rightarrow> Some \<lparr>blk_header = header, blk_transactions = transactions, blk_hash = h,
             blk_signature = Some sig\<rparr>)"

definition genesis_with_state_root :: "externs \<Rightarrow> bytes \<Rightarrow> string \<Rightarrow> u64 \<Rightarrow> block" where
  "genesis_with_state_root X state_root chain_id initial_base_fee_per_gas =
     (let coinbase = coinbase_with_timestamp chain_id (replicate ADDRESS_LEN 0) 0 GENESIS_TIMESTAMP;
          header = \<lparr>hdr_version = 1, hdr_height = 0, hdr_timestamp = GENESIS_TIMESTAMP,
            hdr_prev_hash = replicate 32 0, hdr_merkle_root = merkle_root X [tx_hash X coinbase],
            hdr_state_root = state_root, hdr_gas_used = 0,
            hdr_base_fee_per_gas = initial_base_fee_per_gas,
            hdr_validator_public_key = [], hdr_nonce = 0\<rparr>
      in \<lparr>blk_header = header, blk_transactions = [coinbase], blk_hash = compute_hash X header,
          blk_signature = None\<rparr>)"

definition genesis :: "externs \<Rightarrow> block" where
  "genesis X = genesis_with_state_root X (sha3_hash X EMPTY_STATE_ROOT_SEED) ''curs3d-devnet'' 0"

definition verify_hash :: "externs \<Rightarrow> block \<Rightarrow> bool" where
  "verify_hash X b \<longleftrightarrow> blk_hash b = compute_hash X (blk_header b)"

definition blk_verify_signature :: "externs \<Rightarrow> block \<Rightarrow> bool" where
  "blk_verify_signature X b =
     (if hdr_height (blk_header b) = 0 then blk_signature b = None
      else case blk_signature b of
        Some signature \<Rightarrow> dilithium_verify X (signable_block_hash (blk_hash b)) signature
          (hdr_validator_public_key (blk_header b))
      | None \<Rightarrow> False)"

definition verify_merkle_root :: "externs \<Rightarrow> block \<Rightarrow> bool" where
  "verify_merkle_root X b \<longleftrightarrow>
     merkle_root X (map (tx_hash X) (blk_transactions b)) = hdr_merkle_root (blk_header b)"

abbreviation blk_height :: "block \<Rightarrow> u64" where
  "blk_height b \<equiv> hdr_height (blk_header b)"

abbreviation blk_prev_hash :: "block \<Rightarrow> bytes" where
  "blk_prev_hash b \<equiv> hdr_prev_hash (blk_header b)"

section \<open>Trusted checkpoints\<close>

record trusted_checkpoint =
  cp_height :: u64
  cp_hash :: bytes
  cp_state_root :: "bytes option"

record snapshot_manifest =
  mf_height :: u64
  mf_epoch :: u64
  mf_chain_id :: string
  mf_genesis_hash :: bytes
  mf_latest_hash :: bytes
  mf_tip_height :: u64
  mf_tip_hash :: bytes
  mf_finalized_height :: u64
  mf_finalized_hash :: bytes
  mf_state_root :: bytes
  mf_chunk_root :: bytes
  mf_chunk_count :: nat
  mf_chunk_hashes :: "bytes list"

definition checkpoints_for :: "string \<Rightarrow> trusted_checkpoint list" where
  "checkpoints_for chain_id = (if chain_id = ''curs3d-public-testnet'' then [] else [])"

definition check_block_checkpoint :: "trusted_checkpoint list \<Rightarrow> u64 \<Rightarrow> bytes \<Rightarrow> chain_error + unit" where
  "check_block_checkpoint cps height block_hash =
     (case find (\<lambda>cp. cp_height cp = height) cps of
        None \<Rightarrow> Inr ()
      | Some cp \<Rightarrow> if block_hash = cp_hash cp then Inr ()
          else Inl (CheckpointMismatch height (cp_hash cp) block_hash ''block''))"

definition verify_block_against_known :: "string \<Rightarrow> u64 \<Rightarrow> bytes \<Rightarrow> chain_error + unit" where
  "verify_block_against_known chain_id = check_block_checkpoint (checkpoints_for chain_id)"

fun check_snapshot_checkpoints :: "trusted_checkpoint list \<Rightarrow> snapshot_manifest \<Rightarrow> chain_error + unit" where
  "check_snapshot_checkpoints [] m = Inr ()"
| "check_snapshot_checkpoints (cp # cps) m =
     (if cp_height cp = mf_height m \<and> mf_latest_hash m \<noteq> cp_hash cp then
        Inl (CheckpointMismatch (cp_height cp) (cp_hash cp) (mf_latest_hash m) ''snapshot_latest_hash'')
      else if cp_height cp = mf_height m \<and> cp_state_root cp \<noteq> None
          \<and> mf_state_root m \<noteq> the (cp_state_root cp) then
        Inl (CheckpointMismatch (cp_height cp) (the (cp_state_root cp)) (mf_state_root m)
          ''snapshot_state_root'')
      else if cp_height cp = mf_finalized_height m \<and> mf_finalized_hash m \<noteq> cp_hash cp then
        Inl (CheckpointMismatch (cp_height cp) (cp_hash cp) (mf_finalized_hash m)
          ''snapshot_finalized_hash'')
      else check_snapshot_checkpoints cps m)"

definition verify_snapshot_against_known :: "string \<Rightarrow> snapshot_manifest \<Rightarrow> chain_error + unit" where
  "verify_snapshot_against_known chain_id = check_snapshot_checkpoints (checkpoints_for chain_id)"

section \<open>Lemmas\<close>

lemma compute_hash_length: "sha3_digest_size X \<Longrightarrow> length (compute_hash X h) = 32"
  by (simp add: compute_hash_def double_hash_def sha3_hash_def sha3_digest_size_def)

lemma genesis_fields [simp]:
  "blk_height (genesis_with_state_root X r c f) = 0"
  "blk_transactions (genesis_with_state_root X r c f) =
     [coinbase_with_timestamp c (replicate ADDRESS_LEN 0) 0 GENESIS_TIMESTAMP]"
  "hdr_state_root (blk_header (genesis_with_state_root X r c f)) = r"
  "hdr_base_fee_per_gas (blk_header (genesis_with_state_root X r c f)) = f"
  "blk_signature (genesis_with_state_root X r c f) = None"
  by (simp_all add: genesis_with_state_root_def Let_def)

lemma genesis_checks:
  "verify_hash X (genesis_with_state_root X r c f)"
  "blk_verify_signature X (genesis_with_state_root X r c f)"
  "verify_merkle_root X (genesis_with_state_root X r c f)"
  by (simp_all add: genesis_with_state_root_def Let_def verify_hash_def blk_verify_signature_def
      verify_merkle_root_def)

lemma check_block_checkpoint_Inr:
  "check_block_checkpoint cps h b = Inr () \<longleftrightarrow>
     (case find (\<lambda>cp. cp_height cp = h) cps of None \<Rightarrow> True | Some cp \<Rightarrow> b = cp_hash cp)"
  by (simp add: check_block_checkpoint_def split: option.split)

lemma check_snapshot_checkpoints_Inr:
  "check_snapshot_checkpoints cps m = Inr () \<longleftrightarrow>
     (\<forall>cp \<in> set cps.
        (cp_height cp = mf_height m \<longrightarrow> mf_latest_hash m = cp_hash cp
           \<and> (\<forall>r. cp_state_root cp = Some r \<longrightarrow> mf_state_root m = r)) \<and>
        (cp_height cp = mf_finalized_height m \<longrightarrow> mf_finalized_hash m = cp_hash cp))"
  by (induction cps m rule: check_snapshot_checkpoints.induct) auto

text \<open>A block built by \<open>Block::new\<close> with a key of the documented kind passes its own hash,
  signature and Merkle checks.\<close>
lemma block_new_checks:
  assumes "mldsa_correct X kp" and "block_new X now version height prev_hash state_root gas base txs kp = Some b"
  shows "verify_hash X b" "height \<noteq> 0 \<Longrightarrow> blk_verify_signature X b" "verify_merkle_root X b"
    "blk_transactions b = txs" "blk_height b = height" "blk_prev_hash b = prev_hash" "hdr_timestamp (blk_header b) = now"
    "hdr_version (blk_header b) = version" "hdr_state_root (blk_header b) = state_root" "hdr_gas_used (blk_header b) = gas"
    "hdr_base_fee_per_gas (blk_header b) = base" "hdr_validator_public_key (blk_header b) = kp_public_key kp"
proof -
  obtain sig h where b: "dilithium_sign X kp (signable_block_hash (blk_hash b)) = Some sig" "blk_signature b = Some sig"
    and f: "blk_header b = \<lparr>hdr_version = version, hdr_height = height, hdr_timestamp = now,
            hdr_prev_hash = prev_hash, hdr_merkle_root = merkle_root X (map (tx_hash X) txs),
            hdr_state_root = state_root, hdr_gas_used = gas, hdr_base_fee_per_gas = base,
            hdr_validator_public_key = kp_public_key kp, hdr_nonce = 0\<rparr>"
    and t: "blk_transactions b = txs" "blk_hash b = compute_hash X (blk_header b)"
    using assms(2) by (auto simp: block_new_def Let_def split: option.splits)
  have "dilithium_verify X (signable_block_hash (blk_hash b)) sig (kp_public_key kp)"
    using dilithium_sign_verify [OF assms(1), of "signable_block_hash (blk_hash b)"] b(1) by auto
  then show "verify_hash X b" "height \<noteq> 0 \<Longrightarrow> blk_verify_signature X b" "verify_merkle_root X b"
    "blk_transactions b = txs" "blk_height b = height" "blk_prev_hash b = prev_hash" "hdr_timestamp (blk_header b) = now"
    "hdr_version (blk_header b) = version" "hdr_state_root (blk_header b) = state_root" "hdr_gas_used (blk_header b) = gas"
    "hdr_base_fee_per_gas (blk_header b) = base" "hdr_validator_public_key (blk_header b) = kp_public_key kp"
    using b f t by (simp_all add: verify_hash_def blk_verify_signature_def verify_merkle_root_def)
qed

lemma block_new_total:
  "mldsa_correct X kp \<Longrightarrow> \<exists>b. block_new X now version height prev_hash state_root gas base txs kp = Some b"
  by (simp add: block_new_def Let_def split: option.split) (metis dilithium_sign_verify option.distinct(1))

end
