(* ===== verification/Tokens.thy ===== *)
theory Tokens
  imports Blocks
begin

text \<open>
  \<^verbatim>\<open>src/src/token/mod.rs\<close>: the CUR-20 token registry. Every operation that fails leaves the
  registry as it was (all checks precede the first write), so operations return
  \<open>token_error + \<dots>\<close> with the new registry on success. The specification is a ledger: the
  balances of a token always sum to its \<open>total_supply\<close>, hence the unchecked \<open>to_balance + amount\<close>
  of the source never wraps.
\<close>

section \<open>Registry\<close>

record cur20_token =
  tok_contract_address :: bytes
  tok_name :: string
  tok_symbol :: string
  tok_decimals :: u8
  tok_total_supply :: u64
  tok_creator :: bytes
  tok_created_at_height :: u64

record token_registry =
  tr_tokens :: "bytes \<rightharpoonup> cur20_token"
  tr_balances :: "bytes \<times> bytes \<rightharpoonup> u64"
  tr_allowances :: "bytes \<times> bytes \<times> bytes \<rightharpoonup> u64"

datatype token_error =
  TokenNotFound | InvalidName | InvalidSymbol | InvalidDecimals | InvalidSupply | AlreadyExists
| TokenInsufficientBalance | InsufficientAllowance | SelfTransfer | ZeroAmount

definition token_registry_new :: token_registry where
  "token_registry_new = \<lparr>tr_tokens = Map.empty, tr_balances = Map.empty, tr_allowances = Map.empty\<rparr>"

definition token_address :: "externs \<Rightarrow> bytes \<Rightarrow> u64 \<Rightarrow> bytes" where
  "token_address X deployer nonce =
     address_bytes_from_data X (deployer @ u64_le nonce @ ascii ''cur20'')"

definition deploy_token :: "externs \<Rightarrow> token_registry \<Rightarrow> bytes \<Rightarrow> u64 \<Rightarrow> deploy_token_params \<Rightarrow> u64 \<Rightarrow>
    token_error + bytes \<times> token_registry" where
  "deploy_token X r deployer nonce params height =
     (if dtp_name params = [] \<or> length (dtp_name params) > 64 then Inl InvalidName
      else if dtp_symbol params = [] \<or> length (dtp_symbol params) > 12 then Inl InvalidSymbol
      else if dtp_decimals params > 18 then Inl InvalidDecimals
      else if dtp_total_supply params = 0 then Inl InvalidSupply
      else let address = token_address X deployer nonce in
        if tr_tokens r address \<noteq> None then Inl AlreadyExists
        else let token = \<lparr>tok_contract_address = address, tok_name = dtp_name params,
               tok_symbol = dtp_symbol params, tok_decimals = dtp_decimals params,
               tok_total_supply = dtp_total_supply params, tok_creator = deployer,
               tok_created_at_height = height\<rparr>
          in Inr (address, r\<lparr>tr_tokens := (tr_tokens r)(address \<mapsto> token),
               tr_balances := (tr_balances r)((address, deployer) \<mapsto> dtp_total_supply params)\<rparr>))"

definition token_transfer :: "token_registry \<Rightarrow> bytes \<Rightarrow> bytes \<Rightarrow> bytes \<Rightarrow> u64 \<Rightarrow>
    token_error + token_registry" where
  "token_transfer r token from' to' amount =
     (if tr_tokens r token = None then Inl TokenNotFound
      else if from' = to' then Inl SelfTransfer
      else if amount = 0 then Inl ZeroAmount
      else let from_balance = get_or 0 (tr_balances r) (token, from') in
        if from_balance < amount then Inl TokenInsufficientBalance
        else let bal1 = (tr_balances r)((token, from') \<mapsto> from_balance - amount);
                 to_balance = get_or 0 bal1 (token, to')
          in Inr (r\<lparr>tr_balances := bal1((token, to') \<mapsto> to_balance + amount)\<rparr>))"

definition token_approve :: "token_registry \<Rightarrow> bytes \<Rightarrow> bytes \<Rightarrow> bytes \<Rightarrow> u64 \<Rightarrow>
    token_error + token_registry" where
  "token_approve r token owner spender amount =
     (if tr_tokens r token = None then Inl TokenNotFound
      else Inr (r\<lparr>tr_allowances := (tr_allowances r)((token, owner, spender) \<mapsto> amount)\<rparr>))"

definition token_transfer_from :: "token_registry \<Rightarrow> bytes \<Rightarrow> bytes \<Rightarrow> bytes \<Rightarrow> bytes \<Rightarrow> u64 \<Rightarrow>
    token_error + token_registry" where
  "token_transfer_from r token spender from' to' amount =
     (if tr_tokens r token = None then Inl TokenNotFound
      else if amount = 0 then Inl ZeroAmount
      else let allowance = get_or 0 (tr_allowances r) (token, from', spender) in
        if allowance < amount then Inl InsufficientAllowance
        else let from_balance = get_or 0 (tr_balances r) (token, from') in
          if from_balance < amount then Inl TokenInsufficientBalance
          else let bal1 = (tr_balances r)((token, from') \<mapsto> from_balance - amount);
                   to_balance = get_or 0 bal1 (token, to')
            in Inr (r\<lparr>tr_balances := bal1((token, to') \<mapsto> to_balance + amount),
                 tr_allowances := (tr_allowances r)((token, from', spender) \<mapsto> allowance - amount)\<rparr>))"

definition balance_of :: "token_registry \<Rightarrow> bytes \<Rightarrow> bytes \<Rightarrow> u64" where
  "balance_of r token owner = get_or 0 (tr_balances r) (token, owner)"

definition token_allowance :: "token_registry \<Rightarrow> bytes \<Rightarrow> bytes \<Rightarrow> bytes \<Rightarrow> u64" where
  "token_allowance r token owner spender = get_or 0 (tr_allowances r) (token, owner, spender)"

definition get_token :: "token_registry \<Rightarrow> bytes \<Rightarrow> cur20_token option" where
  "get_token r address = tr_tokens r address"

definition list_tokens :: "token_registry \<Rightarrow> cur20_token list" where
  "list_tokens r = map snd (entries (tr_tokens r))"

lemmas token_ops = deploy_token_def token_transfer_def token_approve_def token_transfer_from_def

section \<open>The ledger invariant\<close>

definition holdings :: "token_registry \<Rightarrow> bytes \<Rightarrow> bytes \<rightharpoonup> u64" where
  "holdings r token = (\<lambda>owner. tr_balances r (token, owner))"

definition supply_held :: "token_registry \<Rightarrow> bytes \<Rightarrow> nat" where
  "supply_held r token = total unat (holdings r token)"

definition token_inv :: "token_registry \<Rightarrow> bool" where
  "token_inv r \<longleftrightarrow> finite (dom (tr_balances r))
     \<and> (\<forall>t owner. tr_balances r (t, owner) \<noteq> None \<longrightarrow> tr_tokens r t \<noteq> None)
     \<and> (\<forall>t tok. tr_tokens r t = Some tok \<longrightarrow>
          tok_contract_address tok = t \<and> tok_total_supply tok \<noteq> 0
          \<and> supply_held r t = unat (tok_total_supply tok))"

lemma finite_holdings:
  assumes "finite (dom (tr_balances r))"
  shows "finite (dom (holdings r t))"
proof -
  have "dom (holdings r t) \<subseteq> snd ` dom (tr_balances r)"
    by (force simp: holdings_def)
  then show ?thesis using assms finite_surj by blast
qed

lemma total_move:
  fixes m :: "'k \<rightharpoonup> 'a::len word"
  assumes fin: "finite (dom m)" and a: "unat n \<le> unat (get_or 0 m a)"
    and bound: "total unat m < 2 ^ LENGTH('a)"
  shows "total unat (let m1 = m(a \<mapsto> get_or 0 m a - n) in m1(b \<mapsto> get_or 0 m1 b + n)) = total unat m"
proof -
  let ?m1 = "m(a \<mapsto> get_or 0 m a - n)"
  have fin1: "finite (dom ?m1)" using fin by simp
  have 1: "total unat ?m1 + unat (get_or 0 m a) = total unat m + unat (get_or 0 m a - n)"
    using fin by (intro total_upd_default) auto
  then have sub: "total unat ?m1 + unat n = total unat m"
    using a by (simp add: unat_sub_exact)
  have 2: "total unat (?m1(b \<mapsto> get_or 0 ?m1 b + n)) + unat (get_or 0 ?m1 b)
      = total unat ?m1 + unat (get_or 0 ?m1 b + n)"
    by (rule total_upd_default [OF fin1]) simp
  have "unat (get_or 0 ?m1 b) \<le> total unat ?m1"
    by (rule total_ge_default [OF fin1]) simp
  then have "unat (get_or 0 ?m1 b + n) = unat (get_or 0 ?m1 b) + unat n"
    using sub bound by (intro unat_add_exact) linarith
  then show ?thesis using 2 sub by (simp add: Let_def)
qed

text \<open>The write both transfers perform.\<close>
definition moved :: "token_registry \<Rightarrow> bytes \<Rightarrow> bytes \<Rightarrow> bytes \<Rightarrow> u64 \<Rightarrow> bytes \<times> bytes \<rightharpoonup> u64" where
  "moved r token from' to' amount =
     (let bal1 = (tr_balances r)((token, from') \<mapsto> balance_of r token from' - amount)
      in bal1((token, to') \<mapsto> get_or 0 bal1 (token, to') + amount))"

lemma token_transfer_Inr_iff:
  "token_transfer r t a b n = Inr r' \<longleftrightarrow>
     tr_tokens r t \<noteq> None \<and> a \<noteq> b \<and> n \<noteq> 0 \<and> n \<le> balance_of r t a
     \<and> r' = r\<lparr>tr_balances := moved r t a b n\<rparr>"
  by (auto simp: token_transfer_def moved_def balance_of_def Let_def)

lemma token_transfer_from_Inr_iff:
  "token_transfer_from r t s a b n = Inr r' \<longleftrightarrow>
     tr_tokens r t \<noteq> None \<and> n \<noteq> 0 \<and> n \<le> token_allowance r t a s \<and> n \<le> balance_of r t a
     \<and> r' = r\<lparr>tr_balances := moved r t a b n,
          tr_allowances := (tr_allowances r)((t, a, s) \<mapsto> token_allowance r t a s - n)\<rparr>"
  by (auto simp: token_transfer_from_def moved_def balance_of_def token_allowance_def Let_def)

lemma holdings_moved:
  "holdings (r\<lparr>tr_balances := moved r t a b n\<rparr>) t' =
     (if t' = t then (let m1 = (holdings r t)(a \<mapsto> get_or 0 (holdings r t) a - n)
        in m1(b \<mapsto> get_or 0 m1 b + n)) else holdings r t')"
  by (auto simp: holdings_def moved_def Let_def balance_of_def get_or_def fun_eq_iff)

lemma supply_lt: "token_inv r \<Longrightarrow> tr_tokens r t \<noteq> None \<Longrightarrow> supply_held r t < 2 ^ 64"
  using unat_lt_u64 by (auto simp: token_inv_def)

lemma supply_moved:
  assumes "token_inv r" "tr_tokens r t \<noteq> None" "n \<le> balance_of r t a"
  shows "supply_held (r\<lparr>tr_balances := moved r t a b n\<rparr>) t' = supply_held r t'"
proof (cases "t' = t")
  case True
  have "unat n \<le> unat (get_or 0 (holdings r t) a)"
    using assms(3) by (simp add: balance_of_def holdings_def get_or_def u_simps)
  with assms True show ?thesis
    using total_move [of "holdings r t" n a b] supply_lt [of r t]
    by (simp add: supply_held_def holdings_moved finite_holdings token_inv_def)
qed (simp add: supply_held_def holdings_moved)

lemma moved_dom: "dom (moved r t a b n) = insert (t, a) (insert (t, b) (dom (tr_balances r)))"
  by (auto simp: moved_def Let_def)

lemma token_inv_moved:
  assumes "token_inv r" "tr_tokens r t \<noteq> None" "n \<le> balance_of r t a"
  shows "token_inv (r\<lparr>tr_balances := moved r t a b n\<rparr>)"
proof -
  have "tr_tokens r t' \<noteq> None" if "moved r t a b n (t', o') \<noteq> None" for t' o'
  proof -
    have "(t', o') \<in> insert (t, a) (insert (t, b) (dom (tr_balances r)))"
      using that moved_dom [of r t a b n] by auto
    then show ?thesis using assms(1,2) by (auto simp: token_inv_def)
  qed
  then show ?thesis
    using assms by (auto simp: token_inv_def supply_moved moved_dom)
qed

lemma token_inv_allowances [simp]: "token_inv (r\<lparr>tr_allowances := al\<rparr>) = token_inv r"
  by (simp add: token_inv_def supply_held_def holdings_def)

lemma holdings_fresh:
  "token_inv r \<Longrightarrow> tr_tokens r t = None \<Longrightarrow> holdings r t = Map.empty"
  by (force simp: holdings_def token_inv_def)

lemma token_inv_deploy:
  assumes inv: "token_inv r" and ok: "deploy_token X r d n p h = Inr (addr, r')"
  shows "token_inv r'"
proof -
  obtain tok where r': "r' = r\<lparr>tr_tokens := (tr_tokens r)(addr \<mapsto> tok),
      tr_balances := (tr_balances r)((addr, d) \<mapsto> dtp_total_supply p)\<rparr>"
    and tok: "tok_contract_address tok = addr" "tok_total_supply tok = dtp_total_supply p"
    and p: "dtp_total_supply p \<noteq> 0" and fresh: "tr_tokens r addr = None"
    using ok by (auto simp: deploy_token_def Let_def split: if_splits)
  have hold: "holdings r' t = (if t = addr then [d \<mapsto> dtp_total_supply p] else holdings r t)" for t
    using holdings_fresh [OF inv fresh] by (auto simp: r' holdings_def fun_eq_iff)
  show ?thesis
    using inv tok p hold
    by (auto simp: token_inv_def supply_held_def total_def r')
qed

section \<open>Reachable registries\<close>

inductive token_step :: "externs \<Rightarrow> token_registry \<Rightarrow> token_registry \<Rightarrow> bool" for X where
  step_deploy: "deploy_token X r d n p h = Inr (addr, r') \<Longrightarrow> token_step X r r'"
| step_transfer: "token_transfer r t a b n = Inr r' \<Longrightarrow> token_step X r r'"
| step_approve: "token_approve r t a s n = Inr r' \<Longrightarrow> token_step X r r'"
| step_transfer_from: "token_transfer_from r t s a b n = Inr r' \<Longrightarrow> token_step X r r'"

lemma token_step_inv: "token_step X r r' \<Longrightarrow> token_inv r \<Longrightarrow> token_inv r'"
proof (induction rule: token_step.induct)
  case (step_deploy r d n p h addr r')
  then show ?case by (blast intro: token_inv_deploy)
next
  case (step_transfer r t a b n r')
  then show ?case by (auto simp: token_transfer_Inr_iff token_inv_moved)
next
  case (step_approve r t a s n r')
  then show ?case by (auto simp: token_approve_def split: if_splits)
next
  case (step_transfer_from r t s a b n r')
  then show ?case by (auto simp: token_transfer_from_Inr_iff token_inv_moved)
qed

lemma token_inv_new: "token_inv token_registry_new"
  by (simp add: token_inv_def token_registry_new_def)

interpretation token_system: transition_system "\<lambda>r. r = token_registry_new" "token_step X" token_inv
  by unfold_locales (auto simp: token_inv_new intro: token_step_inv)

section \<open>Properties\<close>

text \<open>C29. Conservation of supply. In every registry reached from the empty one by successful
  deployments, transfers, approvals and delegated transfers, the balances of each deployed token
  sum, as unbounded integers, exactly to its \<open>total_supply\<close>, and no balance exists for a token
  that was not deployed.\<close>
theorem token_supply_conserved:
  assumes "(token_step X)\<^sup>*\<^sup>* token_registry_new r"
  shows "(tr_tokens r t = Some tok \<longrightarrow>
            (\<Sum>owner\<in>dom (holdings r t). unat (balance_of r t owner)) = unat (tok_total_supply tok))
       \<and> (tr_tokens r t = None \<longrightarrow> balance_of r t owner = 0)"
proof -
  have inv: "token_inv r"
    by (rule token_system.reachable_inv [OF refl assms])
  have "unat (balance_of r t owner) = unat (the (holdings r t owner))"
    if "owner \<in> dom (holdings r t)" for owner
    using that by (auto simp: balance_of_def holdings_def get_or_def)
  then have "(\<Sum>owner\<in>dom (holdings r t). unat (balance_of r t owner)) = supply_held r t"
    by (simp add: supply_held_def total_def)
  moreover have "balance_of r t owner = 0" if "tr_tokens r t = None"
    using holdings_fresh [OF inv that]
    by (simp add: balance_of_def holdings_def fun_eq_iff get_or_def)
  ultimately show ?thesis using inv by (auto simp: token_inv_def)
qed

definition demo_token_params :: deploy_token_params where
  "demo_token_params = \<lparr>dtp_name = ''Gold'', dtp_symbol = ''GLD'', dtp_decimals = 2, dtp_total_supply = 1000\<rparr>"

definition demo_registry :: token_registry where
  "demo_registry = (case deploy_token demo_externs token_registry_new [1] 0 demo_token_params 7 of
     Inr (addr, r) \<Rightarrow> (case token_transfer r addr [1] [2] 300 of Inr r' \<Rightarrow> r' | Inl _ \<Rightarrow> r)
   | Inl _ \<Rightarrow> token_registry_new)"

definition demo_token :: bytes where
  "demo_token = token_address demo_externs [1] 0"

lemma demo_deploy:
  "deploy_token demo_externs token_registry_new [1] 0 demo_token_params 7 =
    Inr (demo_token, \<lparr>tr_tokens = [demo_token \<mapsto> \<lparr>tok_contract_address = demo_token, tok_name = ''Gold'',
         tok_symbol = ''GLD'', tok_decimals = 2, tok_total_supply = 1000, tok_creator = [1],
         tok_created_at_height = 7\<rparr>],
       tr_balances = [(demo_token, [1]) \<mapsto> 1000], tr_allowances = Map.empty\<rparr>)"
  by (simp add: deploy_token_def token_registry_new_def demo_token_params_def Let_def demo_token_def)

lemma demo_registry_eq:
  "demo_registry = \<lparr>tr_tokens = [demo_token \<mapsto> \<lparr>tok_contract_address = demo_token, tok_name = ''Gold'',
         tok_symbol = ''GLD'', tok_decimals = 2, tok_total_supply = 1000, tok_creator = [1],
         tok_created_at_height = 7\<rparr>],
       tr_balances = [(demo_token, [1]) \<mapsto> 700, (demo_token, [2]) \<mapsto> 300], tr_allowances = Map.empty\<rparr>"
  by (simp add: demo_registry_def demo_deploy token_transfer_def Let_def get_or_def)

lemma demo_registry_reachable: "(token_step demo_externs)\<^sup>*\<^sup>* token_registry_new demo_registry"
proof -
  obtain r where r: "deploy_token demo_externs token_registry_new [1] 0 demo_token_params 7 = Inr (demo_token, r)"
    using demo_deploy by blast
  moreover have "token_transfer r demo_token [1] [2] 300 = Inr demo_registry"
    using r by (auto simp: demo_deploy demo_registry_eq token_transfer_def Let_def get_or_def)
  ultimately show ?thesis
    by (meson step_deploy step_transfer rtranclp.rtrancl_into_rtrancl rtranclp.rtrancl_refl)
qed

theorem token_supply_conserved_witness:
  "(\<Sum>owner\<in>dom (holdings demo_registry demo_token). unat (balance_of demo_registry demo_token owner)) = 1000"
  using token_supply_conserved [OF demo_registry_reachable, of demo_token]
  by (simp add: demo_registry_eq)

text \<open>The outcome of \<open>transfer\<close> on a reachable registry. It succeeds exactly when the token
  exists, sender and recipient differ, the amount is positive and covered; then the sender loses and
  the recipient gains exactly the amount (no wrap-around), and no other balance, token or
  allowance changes. Otherwise it reports the first failing check.\<close>
theorem token_transfer_spec:
  assumes "(token_step X)\<^sup>*\<^sup>* token_registry_new r"
  shows "case token_transfer r t a b n of
      Inr r' \<Rightarrow> tr_tokens r t \<noteq> None \<and> a \<noteq> b \<and> n \<noteq> 0
        \<and> unat (balance_of r' t a) + unat n = unat (balance_of r t a)
        \<and> unat (balance_of r' t b) = unat (balance_of r t b) + unat n
        \<and> (\<forall>t' c. (t', c) \<notin> {(t, a), (t, b)} \<longrightarrow> balance_of r' t' c = balance_of r t' c)
        \<and> tr_tokens r' = tr_tokens r \<and> tr_allowances r' = tr_allowances r
    | Inl e \<Rightarrow> e = (if tr_tokens r t = None then TokenNotFound else if a = b then SelfTransfer
        else if n = 0 then ZeroAmount else TokenInsufficientBalance)
        \<and> (e = TokenInsufficientBalance \<longrightarrow> balance_of r t a < n)"
proof (cases "token_transfer r t a b n")
  case (Inl e)
  then show ?thesis
    by (auto simp: token_transfer_def balance_of_def Let_def split: if_splits)
next
  case (Inr r')
  then have ok: "tr_tokens r t \<noteq> None" "a \<noteq> b" "n \<noteq> 0" "n \<le> balance_of r t a"
    and r': "r' = r\<lparr>tr_balances := moved r t a b n\<rparr>"
    by (auto simp: token_transfer_Inr_iff)
  have inv: "token_inv r" by (rule token_system.reachable_inv [OF refl assms])
  have new: "balance_of r' t a = balance_of r t a - n" "balance_of r' t b = balance_of r t b + n"
    and frame: "(t', c) \<notin> {(t, a), (t, b)} \<Longrightarrow> balance_of r' t' c = balance_of r t' c" for t' c
    using ok by (auto simp: r' moved_def balance_of_def Let_def get_or_def)
  let ?h = "holdings r t"
  have "unat (balance_of r t a) + unat (balance_of r t b) \<le> supply_held r t"
    using ok total_ge_pair [OF finite_holdings, of r unat 0 a b t] inv
    by (simp add: supply_held_def balance_of_def holdings_def get_or_def token_inv_def)
  then have "unat (balance_of r t b) + unat n < 2 ^ 64"
    using ok supply_lt [OF inv, of t] by (simp add: u_simps)
  then show ?thesis
    using Inr ok new frame
    by (simp add: r' unat_add_exact unat_sub_exact u_simps)
qed

theorem token_transfer_spec_witness:
  "case token_transfer demo_registry demo_token [2] [3] 100 of
     Inr r' \<Rightarrow> unat (balance_of r' demo_token [3]) = unat (balance_of demo_registry demo_token [3]) + 100
   | Inl e \<Rightarrow> False"
  using token_transfer_spec [OF demo_registry_reachable, of demo_token "[2]" "[3]" 100]
  by (simp add: demo_registry_eq token_transfer_def get_or_def Let_def)

text \<open>A sequence of delegated transfers by one spender out of one owner's balance.\<close>
fun transfer_from_all :: "token_registry \<Rightarrow> bytes \<Rightarrow> bytes \<Rightarrow> bytes \<Rightarrow> (bytes \<times> u64) list \<Rightarrow>
    token_error + token_registry" where
  "transfer_from_all r t spender owner [] = Inr r"
| "transfer_from_all r t spender owner ((to', n) # rest) =
     (case token_transfer_from r t spender owner to' n of
        Inl e \<Rightarrow> Inl e
      | Inr r' \<Rightarrow> transfer_from_all r' t spender owner rest)"

lemma allowance_after_transfer_from:
  assumes "token_transfer_from r t s a b n = Inr r'"
  shows "unat (token_allowance r' t a s) + unat n = unat (token_allowance r t a s)"
  using assms by (auto simp: token_transfer_from_Inr_iff token_allowance_def u_simps unat_sub_exact)

text \<open>A spender can never move more than it was allowed: after any sequence of successful
  delegated transfers, to whatever recipients, what was moved plus the allowance left is exactly
  the allowance at the start, as unbounded integers.\<close>
theorem transfer_from_bounded_by_allowance:
  assumes "transfer_from_all r t spender owner moves = Inr r'"
  shows "(\<Sum>(to', n) \<leftarrow> moves. unat n) + unat (token_allowance r' t owner spender)
    = unat (token_allowance r t owner spender)"
  using assms
proof (induction moves arbitrary: r)
  case (Cons m moves)
  then show ?case
    using allowance_after_transfer_from
    by (fastforce split: prod.splits sum.splits)
qed simp

theorem transfer_from_bounded_by_allowance_witness:
  "\<exists>r r'. token_approve demo_registry demo_token [1] [9] 60 = Inr r
     \<and> transfer_from_all r demo_token [9] [1] [([3], 25), ([1], 30)] = Inr r'
     \<and> 55 + unat (token_allowance r' demo_token [1] [9]) = unat (token_allowance r demo_token [1] [9])"
proof -
  obtain r where r: "token_approve demo_registry demo_token [1] [9] 60 = Inr r"
    by (simp add: token_approve_def demo_registry_eq)
  obtain r' where r': "transfer_from_all r demo_token [9] [1] [([3], 25), ([1], 30)] = Inr r'"
    using r by (auto simp: token_approve_def demo_registry_eq token_transfer_from_def get_or_def Let_def)
  show ?thesis
    using transfer_from_bounded_by_allowance [OF r'] r r' by auto
qed

end
