(* ===== verification/Governance.thy ===== *)
theory Governance
  imports Blocks
begin

text \<open>
  \<^verbatim>\<open>src/src/governance/mod.rs\<close>: proposals, stake-weighted votes and the per-block processing of
  proposals. A \<^verbatim>\<open>HashSet\<close> of voters is a set; \<open>values_mut()\<close> visits the proposals in key order.
  The unchecked products of the quorum test are word products, so they wrap as in the source;
  \<open>None\<close> as the result of \<open>process_block\<close> is the panic on a zero epoch length.
\<close>

section \<open>State and operations\<close>

definition VOTING_PERIOD_EPOCHS :: u64 where "VOTING_PERIOD_EPOCHS = 2"
definition QUORUM_PERCENT :: u64 where "QUORUM_PERCENT = 50"
definition APPROVAL_PERCENT :: u64 where "APPROVAL_PERCENT = 67"
definition MIN_EXECUTION_DELAY_BLOCKS :: u64 where "MIN_EXECUTION_DELAY_BLOCKS = 32"

lemmas gov_consts = VOTING_PERIOD_EPOCHS_def QUORUM_PERCENT_def APPROVAL_PERCENT_def
  MIN_EXECUTION_DELAY_BLOCKS_def

datatype proposal_status = Active | Passed | Rejected | Executed | Expired

record proposal =
  prop_id :: bytes
  prop_proposer :: bytes
  prop_kind :: proposal_kind
  prop_status :: proposal_status
  prop_created_at_height :: u64
  prop_voting_deadline_height :: u64
  prop_execution_height :: "u64 option"
  prop_votes_for :: u64
  prop_votes_against :: u64
  prop_voters :: "bytes set"
  prop_stake_snapshot :: "bytes \<rightharpoonup> u64"

record governance_state =
  gs_proposals :: "bytes \<rightharpoonup> proposal"
  gs_executed_upgrades :: "bytes list"

datatype governance_error =
  ProposalNotFound | ProposalNotActive | AlreadyVoted | InvalidParams | VotingEnded
| UnknownParameter string

definition governance_new :: governance_state where
  "governance_new = \<lparr>gs_proposals = Map.empty, gs_executed_upgrades = []\<rparr>"

definition valid_params :: "string list" where
  "valid_params = [''block_gas_limit'', ''minimum_stake'', ''block_reward'', ''epoch_length'',
     ''unstake_delay_blocks'', ''jail_duration_blocks'']"

fun check_kind :: "proposal_kind \<Rightarrow> governance_error option" where
  "check_kind (ProtocolUpgrade version d) = (if version = 0 then Some InvalidParams else None)"
| "check_kind (ParameterChange parameter v) =
     (if parameter \<notin> set valid_params then Some (UnknownParameter parameter) else None)"

definition proposal_id :: "externs \<Rightarrow> bytes \<Rightarrow> u64 \<Rightarrow> proposal_kind \<Rightarrow> bytes" where
  "proposal_id X proposer height kind =
     sha3_hash X (proposer @ u64_le height @ x_bin_proposal_kind X kind)"

definition submit_proposal :: "externs \<Rightarrow> governance_state \<Rightarrow> bytes \<Rightarrow> proposal_kind \<Rightarrow> u64 \<Rightarrow> u64 \<Rightarrow>
    (bytes \<rightharpoonup> u64) \<Rightarrow> governance_error + bytes \<times> governance_state" where
  "submit_proposal X g proposer kind current_height epoch_length stake_snapshot =
     (case check_kind kind of
        Some e \<Rightarrow> Inl e
      | None \<Rightarrow>
          let pid = proposal_id X proposer current_height kind;
              prop = \<lparr>prop_id = pid, prop_proposer = proposer, prop_kind = kind,
                prop_status = Active, prop_created_at_height = current_height,
                prop_voting_deadline_height = current_height + VOTING_PERIOD_EPOCHS * epoch_length,
                prop_execution_height = None, prop_votes_for = 0, prop_votes_against = 0,
                prop_voters = {}, prop_stake_snapshot = stake_snapshot\<rparr>
          in Inr (pid, g\<lparr>gs_proposals := (gs_proposals g)(pid \<mapsto> prop)\<rparr>))"

definition cast_vote :: "proposal \<Rightarrow> bytes \<Rightarrow> vote_choice \<Rightarrow> u64 \<Rightarrow> proposal" where
  "cast_vote p voter choice stake =
     (let p' = p\<lparr>prop_voters := insert voter (prop_voters p)\<rparr> in
      case choice of
        For \<Rightarrow> p'\<lparr>prop_votes_for := prop_votes_for p + stake\<rparr>
      | Against \<Rightarrow> p'\<lparr>prop_votes_against := prop_votes_against p + stake\<rparr>)"

definition gov_vote :: "governance_state \<Rightarrow> bytes \<Rightarrow> bytes \<Rightarrow> vote_choice \<Rightarrow> u64 \<Rightarrow> u64 \<Rightarrow>
    governance_error + governance_state" where
  "gov_vote g voter pid choice voter_stake_current current_height =
     (case gs_proposals g pid of
        None \<Rightarrow> Inl ProposalNotFound
      | Some p \<Rightarrow>
          if prop_status p \<noteq> Active then Inl ProposalNotActive
          else if current_height > prop_voting_deadline_height p then Inl VotingEnded
          else if voter \<in> prop_voters p then Inl AlreadyVoted
          else let snapshotted_stake = get_or 0 (prop_stake_snapshot p) voter in
            if snapshotted_stake = 0 then Inl ProposalNotActive
            else Inr (g\<lparr>gs_proposals := (gs_proposals g)(pid \<mapsto>
              cast_vote p voter choice snapshotted_stake)\<rparr>))"

definition vote_passes :: "proposal \<Rightarrow> u64 \<Rightarrow> bool" where
  "vote_passes p total_stake =
     (let total_votes = prop_votes_for p + prop_votes_against p;
          quorum_met = (total_stake > 0 \<and> total_votes * 100 \<ge> total_stake * QUORUM_PERCENT);
          approved = (total_votes > 0 \<and> prop_votes_for p * 100 \<ge> total_votes * APPROVAL_PERCENT)
      in quorum_met \<and> approved)"

text \<open>One iteration of the loop: the updated proposal, and whether it is to be executed.\<close>
definition process_proposal :: "u64 \<Rightarrow> u64 \<Rightarrow> u64 \<Rightarrow> proposal \<Rightarrow> (proposal \<times> bool) option" where
  "process_proposal current_height total_stake epoch_length p =
     (case prop_status p of
        Active \<Rightarrow>
          if current_height > prop_voting_deadline_height p then
            if vote_passes p total_stake then
              if epoch_length = 0 then None
              else Some (p\<lparr>prop_status := Passed,
                prop_execution_height := Some (max
                  (sat_add (prop_voting_deadline_height p) MIN_EXECUTION_DELAY_BLOCKS)
                  ((prop_voting_deadline_height p div epoch_length + 1) * epoch_length))\<rparr>, False)
            else Some (p\<lparr>prop_status := Rejected\<rparr>, False)
          else Some (p, False)
      | Passed \<Rightarrow>
          (case prop_execution_height p of
             Some exec_height \<Rightarrow>
               if current_height \<ge> exec_height then Some (p\<lparr>prop_status := Executed\<rparr>, True)
               else Some (p, False)
           | None \<Rightarrow> Some (p, False))
      | _ \<Rightarrow> Some (p, False))"

fun process_loop :: "u64 \<Rightarrow> u64 \<Rightarrow> u64 \<Rightarrow> bytes list \<Rightarrow> governance_state \<Rightarrow> proposal list \<Rightarrow>
    (proposal list \<times> governance_state) option" where
  "process_loop h ts el [] g to_execute = Some (to_execute, g)"
| "process_loop h ts el (k # ks) g to_execute =
     (case gs_proposals g k of
        None \<Rightarrow> process_loop h ts el ks g to_execute
      | Some p \<Rightarrow>
          (case process_proposal h ts el p of
             None \<Rightarrow> None
           | Some (p', ex) \<Rightarrow>
               let g' = g\<lparr>gs_proposals := (gs_proposals g)(k \<mapsto> p')\<rparr> in
               if ex then process_loop h ts el ks
                 (g'\<lparr>gs_executed_upgrades := gs_executed_upgrades g @ [prop_id p']\<rparr>)
                 (to_execute @ [p'])
               else process_loop h ts el ks g' to_execute))"

definition process_block :: "governance_state \<Rightarrow> u64 \<Rightarrow> u64 \<Rightarrow> u64 \<Rightarrow>
    (proposal list \<times> governance_state) option" where
  "process_block g current_height total_stake epoch_length =
     process_loop current_height total_stake epoch_length (keys (gs_proposals g)) g []"

definition get_proposal :: "governance_state \<Rightarrow> bytes \<Rightarrow> proposal option" where
  "get_proposal g pid = gs_proposals g pid"

definition list_proposals :: "governance_state \<Rightarrow> proposal list" where
  "list_proposals g = map snd (entries (gs_proposals g))"

definition active_proposals :: "governance_state \<Rightarrow> proposal list" where
  "active_proposals g = filter (\<lambda>p. prop_status p = Active) (list_proposals g)"

section \<open>Per-proposal view of the block processing\<close>

definition processed :: "u64 \<Rightarrow> u64 \<Rightarrow> u64 \<Rightarrow> proposal \<Rightarrow> proposal" where
  "processed h ts el p = (case process_proposal h ts el p of Some (p', _) \<Rightarrow> p' | None \<Rightarrow> p)"

definition due :: "u64 \<Rightarrow> proposal \<Rightarrow> bool" where
  "due h p \<longleftrightarrow> prop_status p = Passed
     \<and> (case prop_execution_height p of Some e \<Rightarrow> e \<le> h | None \<Rightarrow> False)"

lemma process_proposal_Some:
  "el \<noteq> 0 \<Longrightarrow> process_proposal h ts el p = Some (processed h ts el p, due h p)"
  by (auto simp: processed_def process_proposal_def due_def split: proposal_status.splits option.splits)

lemma process_loop_spec:
  assumes "el \<noteq> 0" "distinct ks" "set ks \<subseteq> dom (gs_proposals g)"
  shows "process_loop h ts el ks g acc = Some
     (acc @ map (processed h ts el) (filter (due h) (map (the \<circ> gs_proposals g) ks)),
      g\<lparr>gs_proposals := (\<lambda>k. if k \<in> set ks then map_option (processed h ts el) (gs_proposals g k)
             else gs_proposals g k),
        gs_executed_upgrades := gs_executed_upgrades g @
          map (prop_id \<circ> processed h ts el) (filter (due h) (map (the \<circ> gs_proposals g) ks))\<rparr>)"
  using assms(2,3)
proof (induction ks arbitrary: g acc)
  case Nil
  then show ?case by simp
next
  case (Cons k ks)
  obtain p where p: "gs_proposals g k = Some p" using Cons.prems by auto
  let ?p' = "processed h ts el p"
  let ?g1 = "g\<lparr>gs_proposals := (gs_proposals g)(k \<mapsto> ?p')\<rparr>"
  let ?g2 = "if due h p then ?g1\<lparr>gs_executed_upgrades := gs_executed_upgrades g @ [prop_id ?p']\<rparr> else ?g1"
  have unfold: "process_loop h ts el (k # ks) g acc =
      process_loop h ts el ks ?g2 (if due h p then acc @ [?p'] else acc)"
    using p assms(1) by (simp add: process_proposal_Some)
  have same: "map (the \<circ> gs_proposals ?g2) ks = map (the \<circ> gs_proposals g) ks"
    using Cons.prems(1) by auto
  have sub: "set ks \<subseteq> dom (gs_proposals ?g2)" using Cons.prems by auto
  have IH: "process_loop h ts el ks ?g2 (if due h p then acc @ [?p'] else acc) = Some
     ((if due h p then acc @ [?p'] else acc) @
        map (processed h ts el) (filter (due h) (map (the \<circ> gs_proposals g) ks)),
      ?g2\<lparr>gs_proposals := (\<lambda>k. if k \<in> set ks then map_option (processed h ts el) (gs_proposals ?g2 k)
             else gs_proposals ?g2 k),
        gs_executed_upgrades := gs_executed_upgrades ?g2 @
          map (prop_id \<circ> processed h ts el) (filter (due h) (map (the \<circ> gs_proposals g) ks))\<rparr>)"
    using Cons.IH [OF _ sub, of "if due h p then acc @ [?p'] else acc", unfolded same] Cons.prems(1)
    by (metis distinct.simps(2))
  have fn: "(\<lambda>j. if j \<in> set ks then map_option (processed h ts el) (gs_proposals ?g2 j)
             else gs_proposals ?g2 j) =
      (\<lambda>j. if j \<in> set (k # ks) then map_option (processed h ts el) (gs_proposals g j)
             else gs_proposals g j)"
    using Cons.prems(1) p by (auto simp: fun_eq_iff)
  show ?case unfolding unfold IH fn using p by (auto simp: comp_def)
qed

text \<open>With a positive epoch length the processing of a block never panics.\<close>
lemma process_loop_total: "el \<noteq> 0 \<Longrightarrow> \<exists>r. process_loop h ts el ks g acc = Some r"
  by (induction ks arbitrary: g acc) (auto simp: process_proposal_Some Let_def split: option.split)

lemma process_block_spec:
  assumes "el \<noteq> 0" "finite (dom (gs_proposals g))"
  shows "process_block g h ts el = Some
     (map (processed h ts el) (filter (due h) (list_proposals g)),
      \<lparr>gs_proposals = map_option (processed h ts el) \<circ> gs_proposals g,
       gs_executed_upgrades = gs_executed_upgrades g @
         map (prop_id \<circ> processed h ts el) (filter (due h) (list_proposals g))\<rparr>)"
proof -
  have "list_proposals g = map (the \<circ> gs_proposals g) (keys (gs_proposals g))"
    by (simp add: list_proposals_def entries_def keys_def comp_def)
  moreover have "(\<lambda>k. if k \<in> dom (gs_proposals g) then map_option (processed h ts el) (gs_proposals g k)
        else gs_proposals g k) = map_option (processed h ts el) \<circ> gs_proposals g"
    by (simp add: fun_eq_iff domIff)
  ultimately show ?thesis
    using process_loop_spec [OF assms(1) distinct_keys, of "gs_proposals g" g h ts "[]"] assms(2)
    by (simp add: process_block_def)
qed

section \<open>Vote accounting\<close>

lemma cast_vote_fields [simp]:
  "prop_id (cast_vote p v c st) = prop_id p"
  "prop_status (cast_vote p v c st) = prop_status p"
  by (simp_all add: cast_vote_def Let_def split: vote_choice.split)

definition voter_stake :: "proposal \<Rightarrow> bytes set \<Rightarrow> nat" where
  "voter_stake p vs = (\<Sum>v\<in>vs. unat (get_or 0 (prop_stake_snapshot p) v))"

definition proposal_inv :: "proposal \<Rightarrow> bool" where
  "proposal_inv p \<longleftrightarrow> finite (dom (prop_stake_snapshot p))
     \<and> total unat (prop_stake_snapshot p) < 2 ^ 64
     \<and> prop_voters p \<subseteq> dom (prop_stake_snapshot p)
     \<and> unat (prop_votes_for p) + unat (prop_votes_against p) = voter_stake p (prop_voters p)"

definition gov_inv :: "governance_state \<Rightarrow> bool" where
  "gov_inv g \<longleftrightarrow> finite (dom (gs_proposals g)) \<and> (\<forall>p \<in> ran (gs_proposals g). proposal_inv p)
     \<and> (\<forall>pid p. gs_proposals g pid = Some p \<longrightarrow> prop_id p = pid)"

lemma voter_stake_le:
  assumes "finite (dom (prop_stake_snapshot p))" "vs \<subseteq> dom (prop_stake_snapshot p)"
  shows "voter_stake p vs \<le> total unat (prop_stake_snapshot p)"
proof -
  have "voter_stake p vs = (\<Sum>v\<in>vs. unat (the (prop_stake_snapshot p v)))"
    unfolding voter_stake_def using assms(2) by (intro sum.cong) (auto simp: get_or_def)
  then show ?thesis using assms by (simp add: total_def sum_mono2)
qed

lemma proposal_inv_cast:
  assumes inv: "proposal_inv p" and new: "v \<notin> prop_voters p"
    and stake: "get_or 0 (prop_stake_snapshot p) v = st" "st \<noteq> 0"
  shows "proposal_inv (cast_vote p v c st)"
proof -
  let ?vs = "insert v (prop_voters p)"
  have fin: "finite (prop_voters p)" "finite (dom (prop_stake_snapshot p))"
    using inv finite_subset by (auto simp: proposal_inv_def)
  have sub: "?vs \<subseteq> dom (prop_stake_snapshot p)"
    using inv stake by (auto simp: proposal_inv_def get_or_def split: option.splits)
  have sum: "voter_stake p ?vs = unat st + voter_stake p (prop_voters p)"
    using fin new stake by (simp add: voter_stake_def)
  have "voter_stake p ?vs < 2 ^ 64"
    using voter_stake_le [OF fin(2) sub] inv by (simp add: proposal_inv_def)
  then have "unat st + (unat (prop_votes_for p) + unat (prop_votes_against p)) < 2 ^ 64"
    using sum inv by (simp add: proposal_inv_def)
  then have "unat (prop_votes_for p + st) = unat (prop_votes_for p) + unat st"
      "unat (prop_votes_against p + st) = unat (prop_votes_against p) + unat st"
    by (simp_all add: unat_add_exact)
  then show ?thesis
    using inv sub sum by (cases c) (auto simp: proposal_inv_def cast_vote_def voter_stake_def)
qed

lemma processed_fields [simp]:
  "prop_stake_snapshot (processed h ts el p) = prop_stake_snapshot p"
  "prop_voters (processed h ts el p) = prop_voters p"
  "prop_votes_for (processed h ts el p) = prop_votes_for p"
  "prop_votes_against (processed h ts el p) = prop_votes_against p"
  "prop_id (processed h ts el p) = prop_id p"
  "prop_voting_deadline_height (processed h ts el p) = prop_voting_deadline_height p"
  by (auto simp: processed_def process_proposal_def split: proposal_status.splits option.splits)

lemma proposal_inv_processed [simp]: "proposal_inv (processed h ts el p) = proposal_inv p"
  by (simp add: proposal_inv_def voter_stake_def)

text \<open>The steps of the governance state. A proposal is submitted with a snapshot of finitely many
  stakes that sum to less than \<open>2^64\<close>.\<close>
inductive gov_step :: "externs \<Rightarrow> governance_state \<Rightarrow> governance_state \<Rightarrow> bool" for X where
  gov_submit: "finite (dom snap) \<Longrightarrow> total unat snap < 2 ^ 64 \<Longrightarrow>
     submit_proposal X g who kind h el snap = Inr (pid, g') \<Longrightarrow> gov_step X g g'"
| gov_cast: "gov_vote g who pid c st h = Inr g' \<Longrightarrow> gov_step X g g'"
| gov_block: "el \<noteq> 0 \<Longrightarrow> process_block g h ts el = Some (ex, g') \<Longrightarrow> gov_step X g g'"

lemma ran_upd_subset: "ran (m(k \<mapsto> v)) \<subseteq> insert v (ran m)"
  by (auto simp: ran_def)

lemma gov_step_inv: "gov_step X g g' \<Longrightarrow> gov_inv g \<Longrightarrow> gov_inv g'"
proof (induction rule: gov_step.induct)
  case (gov_submit snap g who kind h el pid g')
  then obtain p where p: "g' = g\<lparr>gs_proposals := (gs_proposals g)(pid \<mapsto> p)\<rparr>"
      "prop_id p = pid" "prop_stake_snapshot p = snap" "prop_voters p = {}"
      "prop_votes_for p = 0" "prop_votes_against p = 0"
    by (auto simp: submit_proposal_def Let_def split: option.splits)
  then have "proposal_inv p"
    using gov_submit by (simp add: proposal_inv_def voter_stake_def)
  then show ?case using p gov_submit ran_upd_subset [of "gs_proposals g" pid]
    by (auto simp: gov_inv_def)
next
  case (gov_cast g who pid c st h g')
  then obtain p where p: "gs_proposals g pid = Some p" "who \<notin> prop_voters p"
      "get_or 0 (prop_stake_snapshot p) who \<noteq> 0"
      "g' = g\<lparr>gs_proposals := (gs_proposals g)(pid \<mapsto>
              cast_vote p who c (get_or 0 (prop_stake_snapshot p) who))\<rparr>"
    by (auto simp: gov_vote_def Let_def split: option.splits if_splits)
  then have "proposal_inv p" "prop_id p = pid" using gov_cast by (auto simp: gov_inv_def ran_def)
  then have "proposal_inv (cast_vote p who c (get_or 0 (prop_stake_snapshot p) who))"
    using p proposal_inv_cast by blast
  then show ?case using p(4) gov_cast \<open>prop_id p = pid\<close> ran_upd_subset [of "gs_proposals g" pid]
    by (auto simp: gov_inv_def)
next
  case (gov_block el g h ts ex g')
  then have "gs_proposals g' = map_option (processed h ts el) \<circ> gs_proposals g"
    using process_block_spec [of el g h ts] by (auto simp: gov_inv_def)
  moreover have "dom (map_option (processed h ts el) \<circ> gs_proposals g) = dom (gs_proposals g)"
    by (auto simp: dom_def)
  ultimately show ?case using gov_block by (auto simp: gov_inv_def ran_def)
qed

lemma gov_inv_new: "gov_inv governance_new"
  by (simp add: gov_inv_def governance_new_def)

interpretation gov_system: transition_system "\<lambda>g. g = governance_new" "gov_step X" gov_inv
  by unfold_locales (auto simp: gov_inv_new intro: gov_step_inv)

section \<open>Progress of a proposal\<close>

fun status_rank :: "proposal_status \<Rightarrow> nat" where
  "status_rank Active = 0"
| "status_rank Passed = 1"
| "status_rank Rejected = 2"
| "status_rank Executed = 2"
| "status_rank Expired = 2"

definition gov_rank :: "bytes \<Rightarrow> governance_state \<Rightarrow> nat" where
  "gov_rank pid g = (case gs_proposals g pid of None \<Rightarrow> 0 | Some p \<Rightarrow> status_rank (prop_status p))"

text \<open>The steps that do not submit a proposal.\<close>
inductive gov_progress :: "governance_state \<Rightarrow> governance_state \<Rightarrow> bool" where
  progress_cast: "gov_vote g who pid c st h = Inr g' \<Longrightarrow> gov_progress g g'"
| progress_block: "el \<noteq> 0 \<Longrightarrow> process_block g h ts el = Some (ex, g') \<Longrightarrow> gov_progress g g'"

lemma gov_progress_step: "gov_progress g g' \<Longrightarrow> gov_step X g g'"
  by (auto elim!: gov_progress.cases intro: gov_step.intros)

lemma status_rank_processed: "status_rank (prop_status p) \<le> status_rank (prop_status (processed h ts el p))"
  by (auto simp: processed_def process_proposal_def split: proposal_status.splits option.splits)

lemma due_processed: "el \<noteq> 0 \<Longrightarrow> due h p \<Longrightarrow> prop_status (processed h ts el p) = Executed"
  by (auto simp: processed_def process_proposal_def due_def split: proposal_status.splits option.splits)

lemma gov_progress_rank:
  assumes "gov_inv g" "gov_progress g g'"
  shows "gov_rank pid g \<le> gov_rank pid g'"
  using assms(2)
proof cases
  case (progress_cast who pid c st h)
  then show ?thesis
    by (auto simp: gov_rank_def gov_vote_def Let_def split: option.splits if_splits)
next
  case (progress_block el h ts ex)
  then have "gs_proposals g' pid = map_option (processed h ts el) (gs_proposals g pid)"
    using process_block_spec [of el g h ts] assms(1) by (auto simp: gov_inv_def)
  then show ?thesis by (auto simp: gov_rank_def status_rank_processed split: option.splits)
qed

interpretation gov_progress: monotone_system "\<lambda>g. g = governance_new" gov_progress gov_inv "gov_rank pid"
  by unfold_locales (auto simp: gov_inv_new gov_progress_rank intro: gov_step_inv gov_progress_step)

section \<open>Properties\<close>

text \<open>C34. Stake-weighted voting is exact. In every governance state reached with stake snapshots that sum to less than 2^64, the two tallies of a
  proposal sum, as unbounded integers, to the snapshotted stakes of the distinct accounts that
  voted, each counted once, and never exceed the stake of the snapshot.\<close>
theorem gov_vote_accounting:
  assumes "(gov_step X)\<^sup>*\<^sup>* governance_new g" and "gs_proposals g pid = Some p"
  shows "unat (prop_votes_for p) + unat (prop_votes_against p)
       = (\<Sum>v\<in>prop_voters p. unat (get_or 0 (prop_stake_snapshot p) v))
    \<and> unat (prop_votes_for p) + unat (prop_votes_against p) \<le> total unat (prop_stake_snapshot p)"
proof -
  have "proposal_inv p"
    using gov_system.reachable_inv [OF refl assms(1)] assms(2) by (auto simp: gov_inv_def ran_def)
  then show ?thesis using voter_stake_le [of p "prop_voters p"]
    by (simp add: proposal_inv_def voter_stake_def)
qed

definition demo_gov :: governance_state where
  "demo_gov = (case submit_proposal demo_externs governance_new [7] (ProtocolUpgrade 6 []) 10 32
       [[1] \<mapsto> 60, [2] \<mapsto> 40] of
     Inr (pid, g) \<Rightarrow> (case gov_vote g [1] pid For 0 12 of Inr g' \<Rightarrow> g' | Inl _ \<Rightarrow> g)
   | Inl _ \<Rightarrow> governance_new)"

definition demo_pid :: bytes where
  "demo_pid = proposal_id demo_externs [7] 10 (ProtocolUpgrade 6 [])"

definition demo_proposal :: proposal where
  "demo_proposal = \<lparr>prop_id = demo_pid, prop_proposer = [7], prop_kind = ProtocolUpgrade 6 [],
     prop_status = Active, prop_created_at_height = 10, prop_voting_deadline_height = 74,
     prop_execution_height = None, prop_votes_for = 60, prop_votes_against = 0,
     prop_voters = {[1]}, prop_stake_snapshot = [[1] \<mapsto> 60, [2] \<mapsto> 40]\<rparr>"

lemma demo_gov_steps:
  "submit_proposal demo_externs governance_new [7] (ProtocolUpgrade 6 []) 10 32 [[1] \<mapsto> 60, [2] \<mapsto> 40]
     = Inr (demo_pid, \<lparr>gs_proposals = [demo_pid \<mapsto> demo_proposal\<lparr>prop_votes_for := 0, prop_voters := {}\<rparr>],
         gs_executed_upgrades = []\<rparr>)"
  "gov_vote \<lparr>gs_proposals = [demo_pid \<mapsto> demo_proposal\<lparr>prop_votes_for := 0, prop_voters := {}\<rparr>],
         gs_executed_upgrades = []\<rparr> [1] demo_pid For 0 12 = Inr demo_gov"
  "demo_gov = \<lparr>gs_proposals = [demo_pid \<mapsto> demo_proposal], gs_executed_upgrades = []\<rparr>"
  by (simp_all add: demo_gov_def submit_proposal_def gov_vote_def governance_new_def demo_proposal_def
      cast_vote_def demo_pid_def gov_consts Let_def get_or_def)

lemma demo_gov_reachable: "(gov_step demo_externs)\<^sup>*\<^sup>* governance_new demo_gov"
proof -
  have "total unat [[1 :: u8] \<mapsto> 60 :: u64, [2] \<mapsto> 40] = 100"
    by (simp add: total_def)
  then have "gov_step demo_externs governance_new
      \<lparr>gs_proposals = [demo_pid \<mapsto> demo_proposal\<lparr>prop_votes_for := 0, prop_voters := {}\<rparr>],
       gs_executed_upgrades = []\<rparr>"
    by (intro gov_submit [OF _ _ demo_gov_steps(1)]) auto
  then show ?thesis
    using gov_cast [OF demo_gov_steps(2), of demo_externs] by (meson rtranclp.simps)
qed

theorem gov_vote_accounting_witness:
  "unat (prop_votes_for demo_proposal) + unat (prop_votes_against demo_proposal)
     = (\<Sum>v\<in>prop_voters demo_proposal. unat (get_or 0 (prop_stake_snapshot demo_proposal) v))"
  using gov_vote_accounting [OF demo_gov_reachable, of demo_pid demo_proposal]
  by (simp add: demo_gov_steps(3))

lemma unat_mul_exact: "unat a * unat b < 2 ^ 64 \<Longrightarrow> unat (a * b) = unat a * unat b" for a b :: u64
  using unat_mult_lem [of a b] by simp

lemma vote_passes_exact:
  assumes "unat ts * 100 < 2 ^ 64"
    and "(unat (prop_votes_for p) + unat (prop_votes_against p)) * 100 < 2 ^ 64"
  shows "vote_passes p ts \<longleftrightarrow> 0 < unat ts
     \<and> unat ts \<le> 2 * (unat (prop_votes_for p) + unat (prop_votes_against p))
     \<and> 67 * (unat (prop_votes_for p) + unat (prop_votes_against p)) \<le> 100 * unat (prop_votes_for p)"
proof -
  let ?f = "prop_votes_for p" and ?a = "prop_votes_against p"
  have v: "unat (?f + ?a) = unat ?f + unat ?a"
    using assms by (intro unat_add_exact) simp
  have "unat ((?f + ?a) * 100) = (unat ?f + unat ?a) * 100"
      "unat ((?f + ?a) * 67) = (unat ?f + unat ?a) * 67"
      "unat (?f * 100) = unat ?f * 100" "unat (ts * 50) = unat ts * 50"
    using assms v unat_mul_exact [of "?f + ?a" 100] unat_mul_exact [of "?f + ?a" 67]
      unat_mul_exact [of ?f 100] unat_mul_exact [of ts 50] by simp_all
  then show ?thesis
    using v by (auto simp: vote_passes_def gov_consts Let_def u_simps)
qed

lemma epoch_alignment:
  fixes d el :: u64
  assumes "el \<noteq> 0" "unat d + unat el < 2 ^ 64"
  shows "unat d < unat ((d div el + 1) * el)"
    and "unat ((d div el + 1) * el) = (unat d div unat el + 1) * unat el"
proof -
  have el: "0 < unat el" using assms(1) by (simp add: unat_gt_0)
  have le: "(unat d div unat el + 1) * unat el \<le> unat d + unat el"
    by (simp add: add.commute)
  then have small: "(unat d div unat el + 1) * unat el < 2 ^ 64"
    using assms(2) by (rule le_less_trans)
  have "(unat d div unat el + 1) * 1 \<le> (unat d div unat el + 1) * unat el"
    using el by (intro mult_le_mono) auto
  then have "unat d div unat el + 1 < 2 ^ 64"
    using small by (simp only: mult_1_right)
  then have quot: "unat (d div el + 1) = unat d div unat el + 1"
    by (simp add: unat_add_exact unat_div_distrib)
  show eq: "unat ((d div el + 1) * el) = (unat d div unat el + 1) * unat el"
    using unat_mul_exact [of "d div el + 1" el] small unfolding quot by simp
  show "unat d < unat ((d div el + 1) * el)"
    unfolding eq using el by (metis dividend_less_div_times add.commute mult_Suc Suc_eq_plus1)
qed

text \<open>The decision on a proposal whose voting period is over. While hundred times the stake
  fits in 64 bits, the block after the deadline passes an active proposal exactly when votes from
  at least half of the total stake were cast and at least 67 percent of them were in favour; it is
  then scheduled for execution at least 32 blocks and one epoch boundary after the deadline.
  Otherwise the proposal is rejected. Nothing is executed by the deciding block.\<close>
theorem governance_decision:
  assumes "(gov_step X)\<^sup>*\<^sup>* governance_new g" and "gs_proposals g pid = Some p"
    and "prop_status p = Active" and "prop_voting_deadline_height p < h" and "el \<noteq> 0"
    and "unat ts * 100 < 2 ^ 64" and "total unat (prop_stake_snapshot p) * 100 < 2 ^ 64"
    and "unat (prop_voting_deadline_height p) + unat el + 32 < 2 ^ 64"
  shows "\<exists>ex g' p'. process_block g h ts el = Some (ex, g') \<and> gs_proposals g' pid = Some p'
    \<and> pid \<notin> set (map prop_id ex)
    \<and> (let votes = unat (prop_votes_for p) + unat (prop_votes_against p) in
       if 0 < unat ts \<and> unat ts \<le> 2 * votes \<and> 67 * votes \<le> 100 * unat (prop_votes_for p)
       then prop_status p' = Passed \<and> (\<exists>e. prop_execution_height p' = Some e
          \<and> unat (prop_voting_deadline_height p) + 32 \<le> unat e
          \<and> (unat (prop_voting_deadline_height p) div unat el + 1) * unat el \<le> unat e)
       else prop_status p' = Rejected)"
proof -
  have inv: "gov_inv g" by (rule gov_system.reachable_inv [OF refl assms(1)])
  then have pinv: "proposal_inv p" using assms(2) by (auto simp: gov_inv_def ran_def)
  let ?d = "prop_voting_deadline_height p"
  let ?ex = "map (processed h ts el) (filter (due h) (list_proposals g))"
  let ?g' = "\<lparr>gs_proposals = map_option (processed h ts el) \<circ> gs_proposals g,
       gs_executed_upgrades = gs_executed_upgrades g @
         map (prop_id \<circ> processed h ts el) (filter (due h) (list_proposals g))\<rparr>"
  have pb: "process_block g h ts el = Some (?ex, ?g')"
    using process_block_spec inv assms(5) by (simp add: gov_inv_def)
  have at: "gs_proposals ?g' pid = Some (processed h ts el p)" using assms(2) by simp
  have not_due: "pid \<notin> set (map prop_id ?ex)"
    using inv assms(2,3)
    by (auto simp: list_proposals_def in_entries_iff gov_inv_def due_def)
  have votes: "(unat (prop_votes_for p) + unat (prop_votes_against p)) * 100 < 2 ^ 64"
    using pinv voter_stake_le [of p "prop_voters p"] assms(7) by (simp add: proposal_inv_def)
  have exec: "unat ?d + 32 \<le> unat (max (sat_add ?d 32) ((?d div el + 1) * el))
     \<and> (unat ?d div unat el + 1) * unat el \<le> unat (max (sat_add ?d 32) ((?d div el + 1) * el))"
    using epoch_alignment(2) [OF assms(5), of ?d] assms(8) by (simp add: u_simps)
  have "let votes = unat (prop_votes_for p) + unat (prop_votes_against p) in
       if 0 < unat ts \<and> unat ts \<le> 2 * votes \<and> 67 * votes \<le> 100 * unat (prop_votes_for p)
       then prop_status (processed h ts el p) = Passed
          \<and> (\<exists>e. prop_execution_height (processed h ts el p) = Some e
          \<and> unat ?d + 32 \<le> unat e \<and> (unat ?d div unat el + 1) * unat el \<le> unat e)
       else prop_status (processed h ts el p) = Rejected"
    using vote_passes_exact [OF assms(6) votes] assms(3-5) exec
    by (simp add: processed_def process_proposal_def gov_consts Let_def)
  then show ?thesis using pb at not_due by blast
qed

theorem governance_decision_witness:
  "\<exists>ex g' p'. process_block demo_gov 75 100 32 = Some (ex, g') \<and> gs_proposals g' demo_pid = Some p'
     \<and> prop_status p' = Passed"
  using governance_decision [OF demo_gov_reachable, of demo_pid demo_proposal 75 32 100]
  by (simp add: demo_gov_steps(3) demo_proposal_def total_def Let_def) blast

text \<open>A passed proposal is handed over for execution once: a proposal returned by
  \<open>process_block\<close> is never returned again by a later call, whatever votes and blocks come
  between.\<close>
theorem proposal_executed_once:
  assumes "(gov_step X)\<^sup>*\<^sup>* governance_new g" and "el \<noteq> 0" and "el' \<noteq> 0"
    and "process_block g h ts el = Some (ex, g1)" and "gov_progress\<^sup>*\<^sup>* g1 g2"
    and "process_block g2 h' ts' el' = Some (ex', g3)"
  shows "set (map prop_id ex) \<inter> set (map prop_id ex') = {}"
proof -
  have inv: "gov_inv g" by (rule gov_system.reachable_inv [OF refl assms(1)])
  have inv1: "gov_inv g1" using gov_step_inv [OF gov_block] assms(2,4) inv by blast
  have inv2: "gov_inv g2" by (rule gov_progress.run_from_inv [OF assms(5) inv1])
  have executed: "gov_rank pid g1 = 2" if "pid \<in> set (map prop_id ex)" for pid
    using that process_block_spec [OF assms(2), of g h ts] inv assms(2,4)
    by (auto simp: gov_inv_def list_proposals_def in_entries_iff gov_rank_def due_processed)
  have pending: "gov_rank pid g2 = 1" if "pid \<in> set (map prop_id ex')" for pid
    using that process_block_spec [OF assms(3), of g2 h' ts'] inv2 assms(6)
    by (auto simp: gov_inv_def list_proposals_def in_entries_iff gov_rank_def due_def)
  show ?thesis
    using gov_progress.run_rank [OF assms(5) inv1] executed pending
    by (metis disjoint_iff numeral_le_one_iff semiring_norm(69))
qed

theorem proposal_executed_once_witness:
  "\<exists>ex g1 ex' g2. process_block demo_gov 75 100 32 = Some (ex, g1)
     \<and> process_block g1 200 100 32 = Some (ex', g2) \<and> set (map prop_id ex) \<inter> set (map prop_id ex') = {}"
proof -
  have fin: "finite (dom (gs_proposals demo_gov))"
    using gov_system.reachable_inv [OF refl demo_gov_reachable] by (simp add: gov_inv_def)
  obtain ex g1 where 1: "process_block demo_gov 75 100 32 = Some (ex, g1)"
    using process_block_spec [OF _ fin, of 32] by force
  have "gov_inv g1"
    using gov_step_inv [OF gov_block [OF _ 1]] gov_system.reachable_inv [OF refl demo_gov_reachable]
    by force
  then obtain ex' g2 where 2: "process_block g1 200 100 32 = Some (ex', g2)"
    using process_block_spec [of 32 g1] by (force simp: gov_inv_def)
  show ?thesis
    using proposal_executed_once [OF demo_gov_reachable _ _ 1 rtranclp.rtrancl_refl 2] 1 2 by auto
qed

text \<open>Outside that bound the products wrap: with a total stake of \<open>2^63\<close> the quorum threshold
  \<open>total_stake * 50\<close> is zero, and a single unit of stake passes a proposal.\<close>
lemma quorum_wraps:
  "prop_votes_for p = 1 \<Longrightarrow> prop_votes_against p = 0 \<Longrightarrow> vote_passes p (2 ^ 63)"
  by (simp add: vote_passes_def gov_consts Let_def)

text \<open>Submitting the same proposal again in one block replaces it and forgets its votes.\<close>
lemma resubmission_erases_votes:
  assumes "submit_proposal X g who kind h el snap = Inr (pid, g1)"
    and "submit_proposal X g' who kind h el snap' = Inr (pid', g2)"
  shows "pid' = pid \<and> (\<exists>p. gs_proposals g2 pid = Some p \<and> prop_voters p = {} \<and> prop_votes_for p = 0
    \<and> prop_votes_against p = 0)"
  using assms by (auto simp: submit_proposal_def Let_def split: option.splits)

end
