(* ===== verification/Wasm_Vm.thy ===== *)
theory Wasm_Vm
  imports Transactions
begin

text \<open>
  \<^verbatim>\<open>src/src/vm/mod.rs\<close>: the WebAssembly contract engine around the third-party parser and runtime.
  Modelled are the operator gas table, the static gas estimate, the choice of the metering hook,
  the instrumentation that charges gas before every operator, the twelve host functions over an
  execution context, and \<open>Vm::deploy\<close>/\<open>Vm::call\<close>. Parsing, compilation, instantiation and the
  execution of a compiled function are the externs \<open>x_wasm_*\<close>.

  A host function is a state transformer over the context that may fail; \<open>host_bind\<close> is the \<open>?\<close>
  operator. \<open>i64\<close> and \<open>i32\<close> values are words; \<open>pos64 a\<close>, \<open>pos32 a\<close> are \<open>a.max(0)\<close> on them.
\<close>

section \<open>Gas table\<close>

definition GAS_STORAGE_READ :: u64 where "GAS_STORAGE_READ = 200"
definition GAS_STORAGE_WRITE :: u64 where "GAS_STORAGE_WRITE = 5000"
definition GAS_LOG :: u64 where "GAS_LOG = 375"
definition GAS_MEMORY_READ_BYTE :: u64 where "GAS_MEMORY_READ_BYTE = 3"
definition GAS_MEMORY_WRITE_BYTE :: u64 where "GAS_MEMORY_WRITE_BYTE = 6"
definition GAS_HOST_CALL_OVERHEAD :: u64 where "GAS_HOST_CALL_OVERHEAD = 40"
definition GAS_WASM_DEFAULT_OP :: u64 where "GAS_WASM_DEFAULT_OP = 2"
definition GAS_WASM_MEMORY_OP :: u64 where "GAS_WASM_MEMORY_OP = 8"
definition GAS_WASM_CONTROL_OP :: u64 where "GAS_WASM_CONTROL_OP = 4"
definition GAS_WASM_CALL_OP :: u64 where "GAS_WASM_CALL_OP = 12"
definition GAS_WASM_NUMERIC_OP :: u64 where "GAS_WASM_NUMERIC_OP = 3"
definition GAS_WASM_LOOP_TICK :: u64 where "GAS_WASM_LOOP_TICK = 50"

lemmas wasm_gas_defs = GAS_STORAGE_READ_def GAS_STORAGE_WRITE_def GAS_LOG_def GAS_MEMORY_READ_BYTE_def
  GAS_MEMORY_WRITE_BYTE_def GAS_HOST_CALL_OVERHEAD_def GAS_WASM_DEFAULT_OP_def GAS_WASM_MEMORY_OP_def
  GAS_WASM_CONTROL_OP_def GAS_WASM_CALL_OP_def GAS_WASM_NUMERIC_OP_def GAS_WASM_LOOP_TICK_def

definition control_ops :: "string list" where
  "control_ops = [''Block'', ''Loop'', ''If'', ''Else'', ''End'', ''Br'', ''BrIf'', ''BrTable'', ''Return'',
     ''Select'', ''TypedSelect'']"

definition call_ops :: "string list" where
  "call_ops = [''Call'', ''CallIndirect'', ''ReturnCall'', ''ReturnCallIndirect'']"

definition memory_ops :: "string list" where
  "memory_ops = [''I32Load'', ''I64Load'', ''F32Load'', ''F64Load'', ''I32Load8S'', ''I32Load8U'',
     ''I32Load16S'', ''I32Load16U'', ''I64Load8S'', ''I64Load8U'', ''I64Load16S'', ''I64Load16U'',
     ''I64Load32S'', ''I64Load32U'', ''I32Store'', ''I64Store'', ''F32Store'', ''F64Store'', ''I32Store8'',
     ''I32Store16'', ''I64Store8'', ''I64Store16'', ''I64Store32'', ''MemorySize'', ''MemoryGrow'',
     ''MemoryCopy'', ''MemoryFill'', ''MemoryInit'', ''DataDrop'']"

definition numeric_ops :: "string list" where
  "numeric_ops = [''I32Const'', ''I64Const'', ''F32Const'', ''F64Const'', ''I32Eqz'', ''I32Eq'', ''I32Ne'',
     ''I32LtS'', ''I32LtU'', ''I32GtS'', ''I32GtU'', ''I32LeS'', ''I32LeU'', ''I32GeS'', ''I32GeU'', ''I64Eqz'',
     ''I64Eq'', ''I64Ne'', ''I64LtS'', ''I64LtU'', ''I64GtS'', ''I64GtU'', ''I64LeS'', ''I64LeU'', ''I64GeS'',
     ''I64GeU'', ''I32Add'', ''I32Sub'', ''I32Mul'', ''I32DivS'', ''I32DivU'', ''I32RemS'', ''I32RemU'',
     ''I32And'', ''I32Or'', ''I32Xor'', ''I32Shl'', ''I32ShrS'', ''I32ShrU'', ''I64Add'', ''I64Sub'', ''I64Mul'',
     ''I64DivS'', ''I64DivU'', ''I64RemS'', ''I64RemU'', ''I64And'', ''I64Or'', ''I64Xor'', ''I64Shl'',
     ''I64ShrS'', ''I64ShrU'']"

fun operator_gas_cost :: "wasm_operator \<Rightarrow> u64" where
  "operator_gas_cost (Op name args) =
     (if name \<in> set control_ops then GAS_WASM_CONTROL_OP
      else if name \<in> set call_ops then GAS_WASM_CALL_OP
      else if name \<in> set memory_ops then GAS_WASM_MEMORY_OP
      else if name \<in> set numeric_ops then GAS_WASM_NUMERIC_OP
      else GAS_WASM_DEFAULT_OP)"

fun is_loop :: "wasm_operator \<Rightarrow> bool" where
  "is_loop (Op name args) \<longleftrightarrow> name = ''Loop''"

section \<open>Fuel metering\<close>

text \<open>\<open>FuelMeteringFunction::feed\<close> on one operator: the operators pushed to the output, or
  \<open>None\<close> for the middleware error of a loop without a hook.\<close>
definition feed :: "u32 option \<Rightarrow> wasm_operator \<Rightarrow> wasm_operator list option" where
  "feed hook operator =
     (let metering_cost = operator_gas_cost operator in
      if is_loop operator then
        (case hook of
           None \<Rightarrow> None
         | Some function_index \<Rightarrow> Some [operator,
             Op ''I64Const'' [uint (sat_add metering_cost GAS_WASM_LOOP_TICK)],
             Op ''Call'' [uint function_index]])
      else
        (case hook of
           Some function_index \<Rightarrow>
             if metering_cost > 0 then Some [Op ''I64Const'' [uint metering_cost],
               Op ''Call'' [uint function_index], operator]
             else Some [operator]
         | None \<Rightarrow> Some [operator]))"

fun meter_code :: "u32 option \<Rightarrow> wasm_operator list \<Rightarrow> wasm_operator list option" where
  "meter_code hook [] = Some []"
| "meter_code hook (x # xs) =
     (case feed hook x of
        None \<Rightarrow> None
      | Some ys \<Rightarrow> map_option (\<lambda>zs. ys @ zs) (meter_code hook xs))"

fun sum_costs :: "wasm_operator option list \<Rightarrow> u64 \<Rightarrow> vm_error + u64" where
  "sum_costs [] acc = Inr acc"
| "sum_costs (None # xs) acc = Inl InvalidWasm"
| "sum_costs (Some x # xs) acc = sum_costs xs (sat_add acc (operator_gas_cost x))"

fun sum_payloads :: "wasm_payload option list \<Rightarrow> u64 \<Rightarrow> vm_error + u64" where
  "sum_payloads [] acc = Inr acc"
| "sum_payloads (None # ps) acc = Inl InvalidWasm"
| "sum_payloads (Some (CodeSectionEntry None) # ps) acc = Inl InvalidWasm"
| "sum_payloads (Some (CodeSectionEntry (Some body)) # ps) acc =
     (case sum_costs body acc of Inl e \<Rightarrow> Inl e | Inr acc' \<Rightarrow> sum_payloads ps acc')"
| "sum_payloads (Some p # ps) acc = sum_payloads ps acc"

definition starts_with_module :: "bytes \<Rightarrow> bool" where
  "starts_with_module code \<longleftrightarrow> take 7 code = ascii ''(module''"

definition estimate_wasm_gas :: "externs \<Rightarrow> bytes \<Rightarrow> vm_error + u64" where
  "estimate_wasm_gas X code =
     (if starts_with_module code then Inr (sat_mul (len64 code) GAS_WASM_DEFAULT_OP)
      else sum_payloads (x_wasm_parse X code) 0)"

definition normalize_module_bytes :: "externs \<Rightarrow> bytes \<Rightarrow> vm_error + bytes" where
  "normalize_module_bytes X code =
     (if starts_with_module code then (case x_wat2wasm X code of None \<Rightarrow> Inl InvalidWasm | Some b \<Rightarrow> Inr b)
      else Inr code)"

text \<open>The loop over the imports of one section: the index of \<open>loop_tick\<close> ends the search.\<close>
fun hook_imports :: "wasm_import option list \<Rightarrow> u32 \<Rightarrow> u32 option \<Rightarrow>
    vm_error + (u32 + u32 \<times> u32 option)" where
  "hook_imports [] i fallback = Inr (Inr (i, fallback))"
| "hook_imports (None # xs) i fallback = Inl InvalidWasm"
| "hook_imports (Some m # xs) i fallback =
     (if wi_is_func m then
        if wi_module m = ''curs3d'' \<and> wi_name m = ''loop_tick'' then Inr (Inl i)
        else hook_imports xs (sat_add i 1)
          (if wi_module m = ''curs3d'' \<and> wi_name m = ''consume_gas'' then Some i else fallback)
      else hook_imports xs i fallback)"

fun hook_payloads :: "wasm_payload option list \<Rightarrow> u32 \<Rightarrow> u32 option \<Rightarrow> vm_error + u32 option" where
  "hook_payloads [] i fallback = Inr fallback"
| "hook_payloads (None # ps) i fallback = Inl InvalidWasm"
| "hook_payloads (Some (ImportSection imports) # ps) i fallback =
     (case hook_imports imports i fallback of
        Inl e \<Rightarrow> Inl e
      | Inr (Inl found) \<Rightarrow> Inr (Some found)
      | Inr (Inr (i', fallback')) \<Rightarrow> hook_payloads ps i' fallback')"
| "hook_payloads (Some p # ps) i fallback = hook_payloads ps i fallback"

definition fuel_hook_function_index :: "externs \<Rightarrow> bytes \<Rightarrow> vm_error + u32 option" where
  "fuel_hook_function_index X code = hook_payloads (x_wasm_parse X code) 0 None"

fun body_loops :: "wasm_operator option list \<Rightarrow> vm_error + bool" where
  "body_loops [] = Inr False"
| "body_loops (None # xs) = Inl InvalidWasm"
| "body_loops (Some x # xs) = (if is_loop x then Inr True else body_loops xs)"

fun payload_loops :: "wasm_payload option list \<Rightarrow> vm_error + bool" where
  "payload_loops [] = Inr False"
| "payload_loops (None # ps) = Inl InvalidWasm"
| "payload_loops (Some (CodeSectionEntry None) # ps) = Inl InvalidWasm"
| "payload_loops (Some (CodeSectionEntry (Some body)) # ps) =
     (case body_loops body of Inl e \<Rightarrow> Inl e | Inr True \<Rightarrow> Inr True | Inr False \<Rightarrow> payload_loops ps)"
| "payload_loops (Some p # ps) = payload_loops ps"

definition module_contains_loops :: "externs \<Rightarrow> bytes \<Rightarrow> vm_error + bool" where
  "module_contains_loops X code = payload_loops (x_wasm_parse X code)"

text \<open>The normalised bytes and the metering hook of a module that compiles.\<close>
definition compile_module :: "externs \<Rightarrow> bytes \<Rightarrow> vm_error + bytes \<times> u32 option" where
  "compile_module X code =
     (case normalize_module_bytes X code of
        Inl e \<Rightarrow> Inl e
      | Inr wasm_bytes \<Rightarrow>
          (case fuel_hook_function_index X wasm_bytes of
             Inl e \<Rightarrow> Inl e
           | Inr hook \<Rightarrow>
               (case (if hook = None then module_contains_loops X wasm_bytes else Inr False) of
                  Inl e \<Rightarrow> Inl e
                | Inr True \<Rightarrow> Inl UnmeteredLoop
                | Inr False \<Rightarrow>
                    (case x_wasm_module X wasm_bytes hook of
                       None \<Rightarrow> Inr (wasm_bytes, hook)
                     | Some message \<Rightarrow>
                         if list_ex (\<lambda>n. take 32 (drop n message) = ''contracts with loops must import'') [0..<length message]
                         then Inl UnmeteredLoop else Inl InvalidWasm))))"

section \<open>Host functions\<close>

datatype host_error = HostVm vm_error | HostNoMemory | HostMemoryAccess

type_synonym 'a host = "vm_context \<Rightarrow> (host_error + 'a) \<times> vm_context"

definition host_return :: "'a \<Rightarrow> 'a host" where
  "host_return a ctx = (Inr a, ctx)"

definition host_bind :: "'a host \<Rightarrow> ('a \<Rightarrow> 'b host) \<Rightarrow> 'b host" where
  "host_bind m f ctx = (case m ctx of (Inl e, ctx') \<Rightarrow> (Inl e, ctx') | (Inr a, ctx') \<Rightarrow> f a ctx')"

definition pos64 :: "u64 \<Rightarrow> u64" where
  "pos64 a = (if sint a < 0 then 0 else a)"

definition pos32 :: "u32 \<Rightarrow> u32" where
  "pos32 a = (if sint a < 0 then 0 else a)"

definition bytes_to_i64 :: "bytes \<Rightarrow> u64 option" where
  "bytes_to_i64 bs = (if length bs \<noteq> 8 then None else Some (from_le bs))"

definition i64_to_bytes :: "u64 \<Rightarrow> bytes" where
  "i64_to_bytes v = u64_le v"

definition consume_gas :: "vm_context \<Rightarrow> u64 \<Rightarrow> (vm_error + unit) \<times> vm_context" where
  "consume_gas ctx amount =
     (if vm_gas_remaining ctx < amount then (Inl (OutOfGas (vm_gas_remaining ctx) amount), ctx)
      else (Inr (), ctx\<lparr>vm_gas_remaining := vm_gas_remaining ctx - amount\<rparr>))"

definition charge_host_gas :: "u64 \<Rightarrow> unit host" where
  "charge_host_gas amount ctx =
     (case consume_gas ctx amount of (Inl e, ctx') \<Rightarrow> (Inl (HostVm e), ctx') | (Inr u, ctx') \<Rightarrow> (Inr u, ctx'))"

definition read_memory_bytes :: "u32 \<Rightarrow> u32 \<Rightarrow> bytes host" where
  "read_memory_bytes ptr len =
     host_bind (charge_host_gas (sat_add GAS_HOST_CALL_OVERHEAD (sat_mul (ucast len) GAS_MEMORY_READ_BYTE)))
       (\<lambda>_ ctx. case vm_memory ctx of
          None \<Rightarrow> (Inl HostNoMemory, ctx)
        | Some mem \<Rightarrow> if unat ptr + unat len \<le> length mem
            then (Inr (take (unat len) (drop (unat ptr) mem)), ctx)
            else (Inl HostMemoryAccess, ctx))"

definition write_memory_bytes :: "u32 \<Rightarrow> bytes \<Rightarrow> unit host" where
  "write_memory_bytes ptr data =
     host_bind (charge_host_gas (sat_add GAS_HOST_CALL_OVERHEAD (sat_mul (len64 data) GAS_MEMORY_WRITE_BYTE)))
       (\<lambda>_ ctx. case vm_memory ctx of
          None \<Rightarrow> (Inl HostNoMemory, ctx)
        | Some mem \<Rightarrow> if unat ptr + length data \<le> length mem
            then (Inr (), ctx\<lparr>vm_memory := Some (take (unat ptr) mem @ data @ drop (unat ptr + length data) mem)\<rparr>)
            else (Inl HostMemoryAccess, ctx))"

definition storage_get :: "u64 \<Rightarrow> u64 host" where
  "storage_get key =
     host_bind (charge_host_gas (sat_add GAS_HOST_CALL_OVERHEAD GAS_STORAGE_READ))
       (\<lambda>_ ctx. (Inr (case vm_storage ctx (i64_to_bytes key) of
           None \<Rightarrow> 0
         | Some value \<Rightarrow> (case bytes_to_i64 value of None \<Rightarrow> 0 | Some v \<Rightarrow> v)), ctx))"

definition storage_set :: "u64 \<Rightarrow> u64 \<Rightarrow> unit host" where
  "storage_set key value =
     host_bind (charge_host_gas (sat_add GAS_HOST_CALL_OVERHEAD GAS_STORAGE_WRITE))
       (\<lambda>_ ctx. (Inr (), ctx\<lparr>vm_storage := (vm_storage ctx)(i64_to_bytes key \<mapsto> i64_to_bytes value)\<rparr>))"

definition push_log :: "bytes list \<Rightarrow> bytes \<Rightarrow> vm_context \<Rightarrow> vm_context" where
  "push_log topics data ctx =
     ctx\<lparr>vm_logs := vm_logs ctx @ [\<lparr>log_contract = vm_contract_id ctx, log_topics = topics, log_data = data\<rparr>]\<rparr>"

definition emit_log :: "u64 \<Rightarrow> u64 \<Rightarrow> unit host" where
  "emit_log topic data =
     host_bind (charge_host_gas (sat_add GAS_HOST_CALL_OVERHEAD GAS_LOG))
       (\<lambda>_ ctx. (Inr (), push_log [u64_le topic] (u64_le data) ctx))"

definition host_input :: "u64 host" where
  "host_input = host_bind (charge_host_gas (sat_add GAS_HOST_CALL_OVERHEAD GAS_PER_BYTE))
     (\<lambda>_ ctx. (Inr (vm_input ctx), ctx))"

definition host_consume_gas :: "u64 \<Rightarrow> unit host" where
  "host_consume_gas amount = charge_host_gas (pos64 amount)"

definition loop_tick :: "u64 \<Rightarrow> unit host" where
  "loop_tick amount = charge_host_gas (pos64 amount)"

definition storage_read :: "u32 \<Rightarrow> u32 \<Rightarrow> u32 \<Rightarrow> u32 \<Rightarrow> u32 host" where
  "storage_read key_ptr key_len dst_ptr dst_capacity =
     host_bind (read_memory_bytes (pos32 key_ptr) (pos32 key_len)) (\<lambda>key ctx.
       let value = get_or [] (vm_storage ctx) key;
           copy_len = min (length value) (unat (pos32 dst_capacity))
       in host_bind (charge_host_gas (sat_add GAS_STORAGE_READ (sat_mul (len64 value) GAS_MEMORY_WRITE_BYTE)))
            (\<lambda>_. host_bind (write_memory_bytes (pos32 dst_ptr) (take copy_len value))
              (\<lambda>_. host_return (of_nat copy_len))) ctx)"

definition storage_write_bytes :: "u32 \<Rightarrow> u32 \<Rightarrow> u32 \<Rightarrow> u32 \<Rightarrow> u32 host" where
  "storage_write_bytes key_ptr key_len value_ptr value_len =
     host_bind (read_memory_bytes (pos32 key_ptr) (pos32 key_len)) (\<lambda>key.
     host_bind (read_memory_bytes (pos32 value_ptr) (pos32 value_len)) (\<lambda>value.
     host_bind (charge_host_gas (sat_add GAS_STORAGE_WRITE (sat_mul (len64 value) GAS_PER_BYTE))) (\<lambda>_ ctx.
       (Inr 1, ctx\<lparr>vm_storage := (vm_storage ctx)(key \<mapsto> value)\<rparr>))))"

definition emit_log_bytes :: "u32 \<Rightarrow> u32 \<Rightarrow> u32 \<Rightarrow> u32 \<Rightarrow> u32 host" where
  "emit_log_bytes topic_ptr topic_len data_ptr data_len =
     host_bind (read_memory_bytes (pos32 topic_ptr) (pos32 topic_len)) (\<lambda>topic.
     host_bind (read_memory_bytes (pos32 data_ptr) (pos32 data_len)) (\<lambda>data.
     host_bind (charge_host_gas (sat_add GAS_LOG
       (sat_mul (of_nat (length topic + length data)) GAS_PER_BYTE))) (\<lambda>_ ctx.
       (Inr 1, push_log [topic] data ctx))))"

definition input_len :: "u32 host" where
  "input_len = host_bind (charge_host_gas (sat_add GAS_HOST_CALL_OVERHEAD GAS_PER_BYTE))
     (\<lambda>_ ctx. (Inr (of_nat (length (vm_input_data ctx))), ctx))"

definition input_read :: "u32 \<Rightarrow> u32 \<Rightarrow> u32 \<Rightarrow> u32 host" where
  "input_read offset dst_ptr len ctx =
     (let offset' = unat (pos32 offset);
          len' = unat (pos32 len);
          data = vm_input_data ctx
      in if offset' \<ge> length data then (Inr 0, ctx)
         else let slice = take (min (offset' + len') (length data) - offset') (drop offset' data)
           in host_bind (write_memory_bytes (pos32 dst_ptr) slice)
                (\<lambda>_. host_return (of_nat (length slice))) ctx)"

section \<open>Deploying and calling contracts\<close>

definition empty_receipt :: receipt where
  "empty_receipt = \<lparr>rc_tx_hash = [], rc_success = True, rc_gas_used = 0, rc_effective_gas_price = 0,
     rc_priority_fee_paid = 0, rc_base_fee_burned = 0, rc_gas_refunded = 0, rc_logs = [],
     rc_return_data = [], rc_contract_address = None\<rparr>"

definition checked_gas :: "u64 \<Rightarrow> u64 \<Rightarrow> u64 option \<Rightarrow> vm_error + u64" where
  "checked_gas base extra bytes_gas =
     (case bytes_gas of
        None \<Rightarrow> Inl VmGasOverflow
      | Some bg \<Rightarrow>
          (case checked_add base extra of
             None \<Rightarrow> Inl VmGasOverflow
           | Some g \<Rightarrow> (case checked_add g bg of None \<Rightarrow> Inl VmGasOverflow | Some g' \<Rightarrow> Inr g')))"

definition contract_address :: "externs \<Rightarrow> bytes \<Rightarrow> u64 \<Rightarrow> u64 \<Rightarrow> bytes" where
  "contract_address X deployer nonce block_height =
     take ADDRESS_LEN (sha3_hash_domain X (ascii ''curs3d-contract-addr-v2'')
       [deployer, u64_le nonce, u64_le block_height])"

definition vm_deploy :: "externs \<Rightarrow> bytes \<Rightarrow> bytes \<Rightarrow> u64 \<Rightarrow> u64 \<Rightarrow> u64 \<Rightarrow>
    vm_error + contract_state \<times> receipt" where
  "vm_deploy X code deployer nonce gas_limit block_height =
     (if code = [] then Inl EmptyBytecode
      else case compile_module X code of
        Inl e \<Rightarrow> Inl e
      | Inr (normalized_code, _) \<Rightarrow>
          (case checked_gas GAS_BASE_TX GAS_DEPLOY (checked_mul (len64 normalized_code) GAS_PER_BYTE) of
             Inl e \<Rightarrow> Inl e
           | Inr gas_needed \<Rightarrow>
               if gas_limit < gas_needed then Inl (OutOfGas gas_limit gas_needed)
               else Inr (\<lparr>con_code_hash = sha3_hash X normalized_code, con_code = normalized_code,
                   con_storage = Map.empty, con_owner = deployer\<rparr>,
                 empty_receipt\<lparr>rc_gas_used := gas_needed,
                   rc_contract_address := Some (contract_address X deployer nonce block_height)\<rparr>)))"

fun wasm_value_bytes :: "wasm_value \<Rightarrow> bytes" where
  "wasm_value_bytes (VI32 v) = u32_le v"
| "wasm_value_bytes (VI64 v) = u64_le v"
| "wasm_value_bytes (VF32 v) = u32_le v"
| "wasm_value_bytes (VF64 v) = u64_le v"
| "wasm_value_bytes (V128 v) = le_bytes 16 v"
| "wasm_value_bytes VRef = []"

text \<open>Choose the entry point and its arguments, run it, and collect the results.\<close>
definition run_entrypoint :: "externs \<Rightarrow> bytes \<Rightarrow> u32 option \<Rightarrow> wasm_instance \<Rightarrow> vm_context \<Rightarrow>
    vm_error + bytes \<times> vm_context" where
  "run_entrypoint X wasm_bytes hook inst ctx =
     (case (case wn_functions inst ''curs3d_call'' of
              Some ps \<Rightarrow> Some (''curs3d_call'', ps)
            | None \<Rightarrow> map_option (\<lambda>ps. (''call'', ps)) (wn_functions inst ''call'')) of
        None \<Rightarrow> Inl MissingEntrypoint
      | Some (name, params) \<Rightarrow>
          (case (if params = [] then Some []
                 else if params = [TI32] then Some [VI32 (ucast (vm_input ctx))]
                 else if params = [TI64] then Some [VI64 (vm_input ctx)] else None) of
             None \<Rightarrow> Inl UnsupportedEntrypoint
           | Some args \<Rightarrow>
               (case x_wasm_call X wasm_bytes hook name args ctx of
                  Inl err \<Rightarrow> Inl (Execution err)
                | Inr (results, ctx') \<Rightarrow> Inr (concat (map wasm_value_bytes results), ctx'))))"

definition vm_call_gas :: "u32 option \<Rightarrow> u64 \<Rightarrow> bytes \<Rightarrow> vm_error + u64" where
  "vm_call_gas hook static_gas function_data =
     (case checked_gas GAS_BASE_TX GAS_CALL (checked_mul (len64 function_data) GAS_PER_BYTE) of
        Inl e \<Rightarrow> Inl e
      | Inr intrinsic \<Rightarrow>
          if hook \<noteq> None then Inr intrinsic
          else (case checked_add intrinsic static_gas of None \<Rightarrow> Inl VmGasOverflow | Some g \<Rightarrow> Inr g))"

definition call_receipt :: "externs \<Rightarrow> vm_context \<Rightarrow> u64 \<Rightarrow> bytes \<Rightarrow> bytes \<Rightarrow> receipt" where
  "call_receipt X ctx gas_limit function_data return_data =
     empty_receipt\<lparr>
       rc_gas_used := sat_sub gas_limit (vm_gas_remaining ctx),
       rc_logs := (if vm_logs ctx = []
         then [\<lparr>log_contract = vm_contract_id ctx, log_topics = [sha3_hash X (ascii ''curs3d_call'')],
                log_data = vm_caller ctx @ function_data\<rparr>]
         else vm_logs ctx),
       rc_return_data := return_data\<rparr>"

text \<open>The second half of \<open>Vm::call\<close>, once the gas limit covers the charge made up front.\<close>
definition vm_execute :: "externs \<Rightarrow> contract_state \<Rightarrow> bytes \<Rightarrow> bytes \<Rightarrow> bytes \<Rightarrow> u64 \<Rightarrow> u64 \<Rightarrow>
    bytes \<Rightarrow> u32 option \<Rightarrow> vm_error + receipt \<times> contract_state" where
  "vm_execute X contract address function_data caller gas_limit gas_needed wasm_bytes hook =
     (let input = (if length function_data < 8 then 0 else from_le (take 8 function_data));
          ctx = \<lparr>vm_contract_id = address, vm_storage = con_storage contract, vm_logs = [],
            vm_caller = caller, vm_input = input, vm_input_data = function_data,
            vm_gas_remaining = sat_sub gas_limit gas_needed, vm_memory = None\<rparr>
      in case x_wasm_instantiate X wasm_bytes hook ctx of
           Inl err \<Rightarrow> Inl (Execution err)
         | Inr (inst, ctx1) \<Rightarrow>
             (case run_entrypoint X wasm_bytes hook inst (ctx1\<lparr>vm_memory := wn_memory inst\<rparr>) of
                Inl e \<Rightarrow> Inl e
              | Inr (return_data, ctx2) \<Rightarrow>
                  Inr (call_receipt X ctx2 gas_limit function_data return_data,
                    contract\<lparr>con_storage := vm_storage ctx2\<rparr>)))"

definition vm_call :: "externs \<Rightarrow> contract_state \<Rightarrow> bytes \<Rightarrow> bytes \<Rightarrow> bytes \<Rightarrow> u64 \<Rightarrow> u64 \<Rightarrow>
    vm_error + receipt \<times> contract_state" where
  "vm_call X contract address function_data caller value gas_limit =
     (case estimate_wasm_gas X (con_code contract) of
        Inl e \<Rightarrow> Inl e
      | Inr static_gas \<Rightarrow>
     (case compile_module X (con_code contract) of
        Inl e \<Rightarrow> Inl e
      | Inr (wasm_bytes, hook) \<Rightarrow>
     (case vm_call_gas hook static_gas function_data of
        Inl e \<Rightarrow> Inl e
      | Inr gas_needed \<Rightarrow>
          if gas_limit < gas_needed then Inl (OutOfGas gas_limit gas_needed)
          else vm_execute X contract address function_data caller gas_limit gas_needed wasm_bytes hook)))"

section \<open>Lemmas\<close>

lemma operator_gas_cost_bounds: "2 \<le> operator_gas_cost x \<and> operator_gas_cost x \<le> 12"
  by (cases x) (simp add: wasm_gas_defs)

lemma operator_gas_cost_pos: "0 < operator_gas_cost x"
  by (cases x) (simp add: wasm_gas_defs)

lemma charge_host_gas_cases:
  "charge_host_gas n ctx =
     (if vm_gas_remaining ctx < n then (Inl (HostVm (OutOfGas (vm_gas_remaining ctx) n)), ctx)
      else (Inr (), ctx\<lparr>vm_gas_remaining := vm_gas_remaining ctx - n\<rparr>))"
  by (simp add: charge_host_gas_def consume_gas_def)

text \<open>A host computation is metered when it only spends gas, keeps the identity of the call, and
  never shortens the log.\<close>
definition metered :: "'a host \<Rightarrow> bool" where
  "metered m \<longleftrightarrow> (\<forall>ctx. let ctx' = snd (m ctx) in
     vm_gas_remaining ctx' \<le> vm_gas_remaining ctx \<and> vm_contract_id ctx' = vm_contract_id ctx
     \<and> vm_caller ctx' = vm_caller ctx \<and> vm_input_data ctx' = vm_input_data ctx
     \<and> (\<exists>ls. vm_logs ctx' = vm_logs ctx @ ls \<and> (\<forall>l \<in> set ls. log_contract l = vm_contract_id ctx)))"

lemma metered_charge [intro]: "metered (charge_host_gas n)"
  by (auto simp: metered_def charge_host_gas_cases u_simps unat_sub_exact)

lemma metered_bind [intro]:
  assumes "metered m" "\<And>a. metered (f a)"
  shows "metered (host_bind m f)"
  unfolding metered_def Let_def
proof
  fix ctx
  obtain r ctx1 where m: "m ctx = (r, ctx1)" by (cases "m ctx")
  have 1: "vm_gas_remaining ctx1 \<le> vm_gas_remaining ctx \<and> vm_contract_id ctx1 = vm_contract_id ctx
     \<and> vm_caller ctx1 = vm_caller ctx \<and> vm_input_data ctx1 = vm_input_data ctx
     \<and> (\<exists>ls. vm_logs ctx1 = vm_logs ctx @ ls \<and> (\<forall>l \<in> set ls. log_contract l = vm_contract_id ctx))"
    using assms(1) m unfolding metered_def Let_def by (metis snd_conv)
  show "vm_gas_remaining (snd (host_bind m f ctx)) \<le> vm_gas_remaining ctx
     \<and> vm_contract_id (snd (host_bind m f ctx)) = vm_contract_id ctx
     \<and> vm_caller (snd (host_bind m f ctx)) = vm_caller ctx
     \<and> vm_input_data (snd (host_bind m f ctx)) = vm_input_data ctx
     \<and> (\<exists>ls. vm_logs (snd (host_bind m f ctx)) = vm_logs ctx @ ls
          \<and> (\<forall>l \<in> set ls. log_contract l = vm_contract_id ctx))"
  proof (cases r)
    case (Inl e)
    then show ?thesis using 1 m by (simp add: host_bind_def)
  next
    case (Inr a)
    have "host_bind m f ctx = f a ctx1" using Inr m by (simp add: host_bind_def)
    moreover have "vm_gas_remaining (snd (f a ctx1)) \<le> vm_gas_remaining ctx1
      \<and> vm_contract_id (snd (f a ctx1)) = vm_contract_id ctx1 \<and> vm_caller (snd (f a ctx1)) = vm_caller ctx1
      \<and> vm_input_data (snd (f a ctx1)) = vm_input_data ctx1
      \<and> (\<exists>ls. vm_logs (snd (f a ctx1)) = vm_logs ctx1 @ ls \<and> (\<forall>l \<in> set ls. log_contract l = vm_contract_id ctx1))"
      using assms(2) unfolding metered_def Let_def by blast
    ultimately show ?thesis using 1 by (auto intro: order_trans)
  qed
qed

lemma metered_return [intro]: "metered (host_return a)"
  by (simp add: metered_def host_return_def)

lemma metered_pure [intro]: "metered (\<lambda>ctx. (r ctx, ctx))"
  by (simp add: metered_def)

lemma metered_storage [intro]: "metered (\<lambda>ctx. (Inr a, ctx\<lparr>vm_storage := f ctx\<rparr>))"
  by (simp add: metered_def)

lemma metered_log [intro]: "metered (\<lambda>ctx. (Inr a, push_log topics data ctx))"
  by (simp add: metered_def push_log_def)

lemma metered_read_memory [intro]: "metered (read_memory_bytes p n)"
  unfolding read_memory_bytes_def
  by (intro metered_bind metered_charge) (auto simp: metered_def split: option.splits)

lemma metered_write_memory [intro]: "metered (write_memory_bytes p d)"
  unfolding write_memory_bytes_def
  by (intro metered_bind metered_charge) (auto simp: metered_def split: option.splits)

lemma metered_write_return: "metered (host_bind (write_memory_bytes p sl) (\<lambda>_. host_return (r :: u32)))"
  by (intro metered_bind metered_write_memory metered_return)

lemma metered_if: "(\<And>c. P c \<Longrightarrow> metered (f c)) \<Longrightarrow> (\<And>c. \<not> P c \<Longrightarrow> metered (g c)) \<Longrightarrow>
    metered (\<lambda>ctx. if P ctx then f ctx ctx else g ctx ctx)"
  by (simp add: metered_def)

lemma metered_storage_read [intro]: "metered (storage_read a b c d)"
  unfolding storage_read_def Let_def
proof (intro metered_bind metered_read_memory)
  fix key
  let ?v = "\<lambda>ctx. get_or [] (vm_storage ctx) key"
  let ?f = "\<lambda>ctx. host_bind (charge_host_gas (sat_add GAS_STORAGE_READ (sat_mul (len64 (?v ctx)) GAS_MEMORY_WRITE_BYTE)))
      (\<lambda>_. host_bind (write_memory_bytes (pos32 c) (take (min (length (?v ctx)) (unat (pos32 d))) (?v ctx)))
        (\<lambda>_. host_return (of_nat (min (length (?v ctx)) (unat (pos32 d))) :: u32)))"
  have "metered (?f ctx)" for ctx by (intro metered_bind metered_charge metered_write_return)
  then show "metered (\<lambda>ctx. ?f ctx ctx)" unfolding metered_def by blast
qed

lemma metered_input_read [intro]: "metered (input_read a b c)"
proof -
  have eq: "input_read a b c = (\<lambda>ctx. if unat (pos32 a) \<ge> length (vm_input_data ctx) then host_return 0 ctx
     else host_bind (write_memory_bytes (pos32 b) (take (min (unat (pos32 a) + unat (pos32 c)) (length (vm_input_data ctx))
          - unat (pos32 a)) (drop (unat (pos32 a)) (vm_input_data ctx))))
       (\<lambda>_. host_return (of_nat (length (take (min (unat (pos32 a) + unat (pos32 c)) (length (vm_input_data ctx))
          - unat (pos32 a)) (drop (unat (pos32 a)) (vm_input_data ctx)))))) ctx)"
    unfolding input_read_def Let_def host_return_def by (rule refl)
  show ?thesis unfolding eq by (rule metered_if) (intro metered_return metered_write_return)+
qed

lemma metered_host_functions [intro]:
  "metered (storage_get k)" "metered (storage_set k v)" "metered (emit_log t l)" "metered host_input"
  "metered (host_consume_gas n)" "metered (loop_tick n)" "metered (storage_write_bytes a b c d)"
  "metered (emit_log_bytes a b c d)" "metered input_len"
  unfolding storage_get_def storage_set_def emit_log_def host_input_def host_consume_gas_def loop_tick_def
    storage_write_bytes_def emit_log_bytes_def input_len_def
  by (intro metered_bind metered_charge metered_pure metered_storage metered_log metered_read_memory)+

text \<open>What running contract code does to its context: calls of host functions, and stores to its own
  linear memory.\<close>
inductive host_step :: "vm_context \<Rightarrow> vm_context \<Rightarrow> bool" where
  "host_step ctx (snd (storage_get k ctx))"
| "host_step ctx (snd (storage_set k v ctx))"
| "host_step ctx (snd (emit_log t l ctx))"
| "host_step ctx (snd (host_input ctx))"
| "host_step ctx (snd (host_consume_gas n ctx))"
| "host_step ctx (snd (loop_tick n ctx))"
| "host_step ctx (snd (storage_read a b c d ctx))"
| "host_step ctx (snd (storage_write_bytes a b c d ctx))"
| "host_step ctx (snd (emit_log_bytes a b c d ctx))"
| "host_step ctx (snd (input_len ctx))"
| "host_step ctx (snd (input_read a b c ctx))"
| guest_store: "host_step ctx (ctx\<lparr>vm_memory := m\<rparr>)"

definition host_inv :: "vm_context \<Rightarrow> vm_context \<Rightarrow> bool" where
  "host_inv c0 ctx \<longleftrightarrow> vm_contract_id ctx = vm_contract_id c0 \<and> vm_caller ctx = vm_caller c0
     \<and> vm_input_data ctx = vm_input_data c0
     \<and> (\<exists>ls. vm_logs ctx = vm_logs c0 @ ls \<and> (\<forall>l \<in> set ls. log_contract l = vm_contract_id c0))"

lemma metered_snd:
  assumes "metered m"
  shows "host_inv c0 ctx \<Longrightarrow> host_inv c0 (snd (m ctx))"
    and "vm_gas_remaining (snd (m ctx)) \<le> vm_gas_remaining ctx"
proof -
  have m: "vm_gas_remaining (snd (m ctx)) \<le> vm_gas_remaining ctx"
      "vm_contract_id (snd (m ctx)) = vm_contract_id ctx" "vm_caller (snd (m ctx)) = vm_caller ctx"
      "vm_input_data (snd (m ctx)) = vm_input_data ctx"
      "\<exists>ls. vm_logs (snd (m ctx)) = vm_logs ctx @ ls \<and> (\<forall>l \<in> set ls. log_contract l = vm_contract_id ctx)"
    using assms unfolding metered_def Let_def by blast+
  then show "vm_gas_remaining (snd (m ctx)) \<le> vm_gas_remaining ctx" by blast
  show "host_inv c0 (snd (m ctx))" if inv: "host_inv c0 ctx"
  proof -
    obtain l1 l2 where "vm_logs ctx = vm_logs c0 @ l1" "\<forall>l \<in> set l1. log_contract l = vm_contract_id c0"
        "vm_logs (snd (m ctx)) = vm_logs ctx @ l2" "\<forall>l \<in> set l2. log_contract l = vm_contract_id ctx"
      using inv m(5) unfolding host_inv_def by blast
    then have "vm_logs (snd (m ctx)) = vm_logs c0 @ (l1 @ l2)
        \<and> (\<forall>l \<in> set (l1 @ l2). log_contract l = vm_contract_id c0)"
      using inv unfolding host_inv_def by auto
    then show ?thesis using inv m unfolding host_inv_def by metis
  qed
qed

lemma metered_lift: "metered m \<Longrightarrow> \<exists>m' :: unit host. metered m' \<and> snd (m' ctx) = snd (m ctx)"
  by (rule exI [of _ "\<lambda>c. (Inr (), snd (m c))"]) (simp add: metered_def)

lemma host_step_metered:
  assumes "host_step ctx ctx'"
  shows "\<exists>m :: unit host. metered m \<and> snd (m ctx) = ctx'"
  using assms
proof cases
  case (guest_store m)
  then show ?thesis
    by (intro exI [of _ "\<lambda>c. (Inr (), c\<lparr>vm_memory := m\<rparr>)"]) (simp add: metered_def)
qed (auto intro!: metered_lift metered_host_functions metered_storage_read metered_input_read)

interpretation host_system: monotone_system "\<lambda>ctx. ctx = c0" host_step "host_inv c0"
    "\<lambda>ctx. 2 ^ 64 - unat (vm_gas_remaining ctx)"
proof
  show "host_inv c0 s" if "s = c0" for s using that by (simp add: host_inv_def)
  show "host_inv c0 t" if "host_inv c0 s" "host_step s t" for s t
    using host_step_metered [OF that(2)] metered_snd(1) that(1) by blast
  show "2 ^ 64 - unat (vm_gas_remaining s) \<le> 2 ^ 64 - unat (vm_gas_remaining t)"
    if "host_inv c0 s" "host_step s t" for s t
    using host_step_metered [OF that(2)] metered_snd(2) by (metis diff_le_mono2 word_le_nat_alt)
qed

lemma host_run:
  assumes "host_step\<^sup>*\<^sup>* c0 ctx"
  shows "host_inv c0 ctx" and "vm_gas_remaining ctx \<le> vm_gas_remaining c0"
proof -
  show "host_inv c0 ctx" by (rule host_system.reachable_inv [OF refl assms])
  have "2 ^ 64 - unat (vm_gas_remaining c0) \<le> 2 ^ 64 - unat (vm_gas_remaining ctx)"
    by (rule host_system.run_rank [OF assms, of c0]) (simp add: host_inv_def)
  then show "vm_gas_remaining ctx \<le> vm_gas_remaining c0"
    using unat_lt_u64 [of "vm_gas_remaining ctx"] unat_lt_u64 [of "vm_gas_remaining c0"]
    unfolding word_le_nat_alt by linarith
qed

section \<open>Properties\<close>

text \<open>Host functions only spend. Whatever sequence of host calls and memory stores contract code
  performs, its remaining gas never grows, it cannot change the contract identity, caller or
  input of the call, and it only appends log entries, all attributed to the running contract.\<close>
theorem host_calls_only_spend:
  assumes "host_step\<^sup>*\<^sup>* ctx ctx'"
  shows "vm_gas_remaining ctx' \<le> vm_gas_remaining ctx \<and> vm_contract_id ctx' = vm_contract_id ctx
    \<and> vm_caller ctx' = vm_caller ctx \<and> vm_input_data ctx' = vm_input_data ctx
    \<and> (\<exists>ls. vm_logs ctx' = vm_logs ctx @ ls \<and> (\<forall>l \<in> set ls. log_contract l = vm_contract_id ctx))"
  using host_run [OF assms] by (simp add: host_inv_def)

definition demo_ctx :: vm_context where
  "demo_ctx = \<lparr>vm_contract_id = [1], vm_storage = Map.empty, vm_logs = [], vm_caller = [2], vm_input = 0,
     vm_input_data = [], vm_gas_remaining = 10000, vm_memory = None\<rparr>"

theorem host_calls_only_spend_witness:
  "vm_gas_remaining (snd (storage_set 1 7 demo_ctx)) \<le> vm_gas_remaining demo_ctx
     \<and> vm_gas_remaining (snd (storage_set 1 7 demo_ctx)) = 4960"
  using host_calls_only_spend [of demo_ctx "snd (storage_set 1 7 demo_ctx)"] host_step.intros(2)
  by (auto simp: demo_ctx_def storage_set_def host_bind_def charge_host_gas_cases wasm_gas_defs sat_add_def)

text \<open>The fuel that instrumented code charges through the hook, in program order.\<close>
fun fuel_charged :: "u32 \<Rightarrow> wasm_operator list \<Rightarrow> int" where
  "fuel_charged f [] = 0"
| "fuel_charged f [x] = 0"
| "fuel_charged f (x # y # zs) =
     (case x of Op n args \<Rightarrow>
        if n = ''I64Const'' \<and> y = Op ''Call'' [uint f] then hd args + fuel_charged f (y # zs)
        else fuel_charged f (y # zs))"

text \<open>Removing the pushed operators again.\<close>
fun unmeter :: "wasm_operator list \<Rightarrow> wasm_operator list" where
  "unmeter (x # y # z # zs) = (if is_loop x then x else z) # unmeter zs"
| "unmeter xs = []"

lemma feed_Some:
  "feed (Some f) x = Some (if is_loop x
     then [x, Op ''I64Const'' [uint (operator_gas_cost x + 50)], Op ''Call'' [uint f]]
     else [Op ''I64Const'' [uint (operator_gas_cost x)], Op ''Call'' [uint f], x])"
proof -
  have "sat_add (operator_gas_cost x) 50 = operator_gas_cost x + 50"
    using operator_gas_cost_bounds [of x] by (simp add: sat_add_def u_simps)
  then show ?thesis using operator_gas_cost_pos [of x] by (simp add: feed_def GAS_WASM_LOOP_TICK_def)
qed

lemma meter_code_total: "\<exists>out. meter_code (Some f) ops = Some out"
  by (induction ops) (auto simp: feed_Some)

lemma meter_code_Cons:
  assumes "meter_code (Some f) (x # xs) = Some out"
  obtains rest where "meter_code (Some f) xs = Some rest" "out = the (feed (Some f) x) @ rest"
  using assms by (auto simp: feed_Some)

lemma meter_code_hd: "meter_code (Some f) ops = Some out \<Longrightarrow> out = [] \<or> (\<exists>n as. hd out = Op n as \<and> n \<noteq> ''Call'')"
proof (cases ops)
  case (Cons x xs)
  assume "meter_code (Some f) ops = Some out"
  then obtain rest where "out = the (feed (Some f) x) @ rest" using Cons meter_code_Cons by metis
  then show ?thesis by (cases x) (simp add: feed_Some del: operator_gas_cost.simps)
qed simp

lemma fuel_charged_skip:
  "(zs = [] \<or> (\<exists>n as. hd zs = Op n as \<and> n \<noteq> ''Call'')) \<Longrightarrow> fuel_charged f (x # zs) = fuel_charged f zs"
  by (cases x; cases zs) auto

lemma fuel_charged_call: "fuel_charged f (Op ''Call'' as # zs) = fuel_charged f zs"
  by (cases zs) auto

text \<open>C35. The metering middleware is exact. With a hook, instrumentation always succeeds, triples the
  code, loses nothing of it (the original operators can be read back in order), and the fuel it charges in
  one pass over the code is the sum of the operator costs plus the loop tick for every loop.\<close>
theorem metering_exact:
  "\<exists>out. meter_code (Some f) ops = Some out \<and> length out = 3 * length ops \<and> unmeter out = ops
    \<and> fuel_charged f out = (\<Sum>x \<leftarrow> ops. uint (operator_gas_cost x) + (if is_loop x then 50 else 0))"
proof (induction ops)
  case (Cons x xs)
  then obtain rest where rest: "meter_code (Some f) xs = Some rest" "length rest = 3 * length xs" "unmeter rest = xs"
      "fuel_charged f rest = (\<Sum>x \<leftarrow> xs. uint (operator_gas_cost x) + (if is_loop x then 50 else 0))"
    by blast
  have skip: "fuel_charged f (y # rest) = fuel_charged f rest" for y
    using meter_code_hd [OF rest(1)] by (rule fuel_charged_skip)
  have "unat (operator_gas_cost y + 50) = unat (operator_gas_cost y) + 50" for y
    using operator_gas_cost_bounds [of y] by (simp add: unat_add_exact u_simps)
  then have cost: "uint (operator_gas_cost y + 50) = uint (operator_gas_cost y) + 50" for y
    by (metis of_nat_add of_nat_numeral uint_nat)
  show ?case
    using rest by (cases x) (simp add: feed_Some skip fuel_charged_call cost del: operator_gas_cost.simps)
qed simp

lemma body_loops_sound: "body_loops body = Inr False \<Longrightarrow> Some x \<in> set body \<Longrightarrow> \<not> is_loop x"
  by (induction body rule: body_loops.induct) (auto split: if_splits)

lemma payload_loops_sound:
  "payload_loops ps = Inr False \<Longrightarrow> Some (CodeSectionEntry (Some body)) \<in> set ps \<Longrightarrow> Some x \<in> set body \<Longrightarrow> \<not> is_loop x"
  by (induction ps rule: payload_loops.induct)
    (auto split: sum.splits bool.splits dest: body_loops_sound)

text \<open>Code that may run forever is metered. A module that \<open>compile_module\<close> accepts either has
  the gas hook compiled in, or parses without a single loop operator in any function body.\<close>
theorem accepted_module_metered_or_loop_free:
  assumes "compile_module X code = Inr (wasm, hook)"
  shows "hook \<noteq> None \<or> (\<forall>body x. Some (CodeSectionEntry (Some body)) \<in> set (x_wasm_parse X wasm) \<longrightarrow>
    Some x \<in> set body \<longrightarrow> \<not> is_loop x)"
proof (cases hook)
  case None
  then have "payload_loops (x_wasm_parse X wasm) = Inr False"
    using assms by (auto simp: compile_module_def module_contains_loops_def
        split: sum.splits bool.splits option.splits if_splits)
  then show ?thesis using payload_loops_sound by blast
qed simp

theorem accepted_module_metered_or_loop_free_witness:
  "\<exists>wasm hook. compile_module demo_externs [0] = Inr (wasm, hook) \<and>
     (hook \<noteq> None \<or> (\<forall>body x. Some (CodeSectionEntry (Some body)) \<in> set (x_wasm_parse demo_externs wasm) \<longrightarrow>
        Some x \<in> set body \<longrightarrow> \<not> is_loop x))"
proof -
  have "compile_module demo_externs [0] = Inr ([0], None)"
    by (simp add: compile_module_def normalize_module_bytes_def starts_with_module_def ascii_def
        fuel_hook_function_index_def module_contains_loops_def demo_externs_def)
  then show ?thesis using accepted_module_metered_or_loop_free by blast
qed

text \<open>The documented behaviour of the runtime: compiled code touches its context through host
  functions and its own memory only.\<close>
definition runtime_sound :: "externs \<Rightarrow> bool" where
  "runtime_sound X \<longleftrightarrow>
     (\<forall>w h c inst c'. x_wasm_instantiate X w h c = Inr (inst, c') \<longrightarrow> host_step\<^sup>*\<^sup>* c c') \<and>
     (\<forall>w h n as c rs c'. x_wasm_call X w h n as c = Inr (rs, c') \<longrightarrow> host_step\<^sup>*\<^sup>* c c')"

lemma run_entrypoint_steps:
  assumes "runtime_sound X" "run_entrypoint X w h inst c = Inr (d, c')"
  shows "host_step\<^sup>*\<^sup>* c c'"
  using assms by (auto simp: run_entrypoint_def runtime_sound_def split: option.splits if_splits sum.splits prod.splits)

lemma checked_gas_exact:
  "checked_gas a b (checked_mul n m) = Inr g \<Longrightarrow> unat g = unat a + unat b + unat n * unat m"
  by (auto simp: checked_gas_def checked_mul_def checked_add_def unat_add_exact unat_mult_lem [THEN iffD1]
      split: option.splits if_splits)

lemma vm_call_gas_ge:
  assumes "vm_call_gas hook static data = Inr g" "length data < 2 ^ 64"
  shows "23600 + 16 * length data \<le> unat g"
proof -
  obtain i where i: "checked_gas GAS_BASE_TX GAS_CALL (checked_mul (len64 data) GAS_PER_BYTE) = Inr i" "unat i \<le> unat g"
    using assms(1) by (auto simp: vm_call_gas_def checked_add_def unat_add_exact split: sum.splits if_splits option.splits)
  then show ?thesis
    using checked_gas_exact [OF i(1)] assms(2) by (simp add: gas_defs len64_def unat_of_nat_small)
qed

lemma vm_execute_sound:
  assumes "runtime_sound X" "gas_needed \<le> gas_limit"
    and "vm_execute X contract addr data caller gas_limit gas_needed w hook = Inr (rc, contract')"
  shows "gas_needed \<le> rc_gas_used rc \<and> rc_gas_used rc \<le> gas_limit \<and> rc_success rc
    \<and> (\<forall>l \<in> set (rc_logs rc). log_contract l = addr)
    \<and> contract' = contract\<lparr>con_storage := con_storage contract'\<rparr>"
proof -
  let ?c = "\<lparr>vm_contract_id = addr, vm_storage = con_storage contract, vm_logs = [], vm_caller = caller,
    vm_input = if length data < 8 then 0 else from_le (take 8 data), vm_input_data = data,
    vm_gas_remaining = sat_sub gas_limit gas_needed, vm_memory = None\<rparr>"
  obtain inst c1 d c2 where i: "x_wasm_instantiate X w hook ?c = Inr (inst, c1)"
    and r: "run_entrypoint X w hook inst (c1\<lparr>vm_memory := wn_memory inst\<rparr>) = Inr (d, c2)"
    and rc: "rc = call_receipt X c2 gas_limit data d" and c': "contract' = contract\<lparr>con_storage := vm_storage c2\<rparr>"
    using assms(3) unfolding vm_execute_def Let_def by (auto split: sum.splits)
  have "host_step\<^sup>*\<^sup>* ?c c1" using assms(1) i unfolding runtime_sound_def by blast
  then have run: "host_step\<^sup>*\<^sup>* ?c c2"
    using guest_store [of c1 "wn_memory inst"] run_entrypoint_steps [OF assms(1) r] by (meson rtranclp.simps rtranclp_trans)
  have gas: "unat (vm_gas_remaining c2) \<le> unat gas_limit - unat gas_needed"
    using host_run(2) [OF run] by (simp add: word_le_nat_alt unat_sat_sub)
  have logs: "vm_contract_id c2 = addr" "\<forall>l \<in> set (vm_logs c2). log_contract l = addr"
    using host_run(1) [OF run] by (auto simp: host_inv_def)
  have "unat (rc_gas_used rc) = unat gas_limit - unat (vm_gas_remaining c2)"
    by (simp add: rc call_receipt_def unat_sat_sub)
  then have "gas_needed \<le> rc_gas_used rc \<and> rc_gas_used rc \<le> gas_limit"
    using gas assms(2) unfolding word_le_nat_alt by linarith
  then show ?thesis using logs c' by (simp add: rc call_receipt_def empty_receipt_def)
qed

text \<open>A contract call stays within its gas limit and touches nothing but storage. Under the
  runtime's documented behaviour, a successful \<open>Vm::call\<close> reports at least the intrinsic gas (base,
  call and payload bytes) and at most the caller's limit, every log entry is attributed to the called
  address, and the contract keeps its code, code hash and owner.\<close>
theorem vm_call_within_gas_limit:
  assumes "runtime_sound X" and "length data < 2 ^ 64"
    and "vm_call X contract addr data caller value gas_limit = Inr (rc, contract')"
  shows "23600 + 16 * length data \<le> unat (rc_gas_used rc) \<and> rc_gas_used rc \<le> gas_limit \<and> rc_success rc
    \<and> (\<forall>l \<in> set (rc_logs rc). log_contract l = addr)
    \<and> contract' = contract\<lparr>con_storage := con_storage contract'\<rparr>"
proof -
  obtain static w hook gas_needed where "vm_call_gas hook static data = Inr gas_needed" "\<not> gas_limit < gas_needed"
      "vm_execute X contract addr data caller gas_limit gas_needed w hook = Inr (rc, contract')"
    using assms(3) unfolding vm_call_def by (auto split: sum.splits if_splits)
  then show ?thesis
    using vm_execute_sound [OF assms(1)] vm_call_gas_ge [OF _ assms(2)]
    by (meson linorder_not_less order_trans word_le_nat_alt)
qed

definition demo_wasm_externs :: externs where
  "demo_wasm_externs = demo_externs\<lparr>
     x_wasm_instantiate := (\<lambda>w h c. Inr (\<lparr>wn_functions = [''call'' \<mapsto> []], wn_memory = None\<rparr>, c)),
     x_wasm_call := (\<lambda>w h n as c. Inr ([VI32 1], c))\<rparr>"

definition demo_contract :: contract_state where
  "demo_contract = \<lparr>con_code_hash = [], con_code = [0], con_storage = Map.empty, con_owner = [9]\<rparr>"

theorem vm_call_within_gas_limit_witness:
  "\<exists>rc contract'. vm_call demo_wasm_externs demo_contract [5] [] [2] 0 50000 = Inr (rc, contract')
     \<and> 23600 \<le> unat (rc_gas_used rc) \<and> rc_gas_used rc \<le> 50000"
proof -
  have "runtime_sound demo_wasm_externs" by (simp add: runtime_sound_def demo_wasm_externs_def)
  moreover have "\<exists>rc contract'. vm_call demo_wasm_externs demo_contract [5] [] [2] 0 50000 = Inr (rc, contract')"
    by (simp add: vm_call_def demo_contract_def estimate_wasm_gas_def compile_module_def normalize_module_bytes_def
        starts_with_module_def ascii_def fuel_hook_function_index_def module_contains_loops_def demo_wasm_externs_def
        demo_externs_def vm_call_gas_def checked_gas_def checked_add_def checked_mul_def len64_def gas_defs
        vm_execute_def run_entrypoint_def)
  ultimately show ?thesis
    using vm_call_within_gas_limit [of demo_wasm_externs "[]" demo_contract "[5]" "[2]" 0 50000] by auto
qed

end
