(* ===== verification/Evm.thy ===== *)
theory Evm
  imports Transactions
begin

text \<open>
  \<^verbatim>\<open>src/src/vm/evm.rs\<close> and the EVM half of \<^verbatim>\<open>src/src/core/chain/apply.rs\<close>: the state view handed to
  revm, the database adapter that reads it, the translation of revm's result into an outcome, and the
  merge of an outcome into the chain state. revm itself is the extern \<open>x_revm_transact\<close>. Loops over
  revm's maps are point-wise or in key order; every key is written once.
\<close>

section \<open>Words as big-endian bytes\<close>

definition slot_key_bytes :: "u256 \<Rightarrow> bytes" where
  "slot_key_bytes slot = rev (le_bytes 32 slot)"

definition value_bytes :: "u256 \<Rightarrow> bytes" where
  "value_bytes v = rev (le_bytes 32 v)"

definition bytes_to_u256 :: "bytes \<Rightarrow> u256" where
  "bytes_to_u256 bs =
     (if bs = [] then 0
      else from_le (rev (replicate (32 - length bs) 0 @ take 32 bs)))"

section \<open>State view and database adapter\<close>

definition evm_state_view :: "accounts \<Rightarrow> contracts \<Rightarrow> evm_view" where
  "evm_state_view accs cons =
     \<lparr>esv_accounts = (\<lambda>addr. if length addr \<noteq> 20 then None
        else map_option (\<lambda>a. (acc_balance a, acc_nonce a)) (accs addr)),
      esv_contracts = (\<lambda>addr. if length addr \<noteq> 20 then None else cons addr)\<rparr>"

text \<open>\<open>Database::basic\<close> (balance, nonce, code) and \<open>Database::storage\<close>.\<close>
definition db_basic :: "evm_view \<Rightarrow> bytes \<Rightarrow> u256 \<times> u64 \<times> bytes option" where
  "db_basic view address =
     (let (balance, nonce) = get_or (0, 0) (esv_accounts view) address
      in (ucast balance, nonce, map_option con_code (esv_contracts view address)))"

definition db_storage :: "evm_view \<Rightarrow> bytes \<Rightarrow> u256 \<Rightarrow> u256" where
  "db_storage view address index =
     (case esv_contracts view address of
        None \<Rightarrow> 0
      | Some c \<Rightarrow> (case con_storage c (slot_key_bytes index) of None \<Rightarrow> 0 | Some v \<Rightarrow> bytes_to_u256 v))"

section \<open>Outcomes\<close>

record evm_outcome =
  eo_gas_used :: u64
  eo_account_updates :: "bytes \<rightharpoonup> u64 \<times> u64"
  eo_storage_updates :: "bytes \<rightharpoonup> (bytes \<rightharpoonup> bytes)"
  eo_contracts_created :: contracts
  eo_contract_address :: "bytes option"
  eo_logs :: "log_entry list"
  eo_return_data :: bytes
  eo_success :: bool

definition convert_logs :: "bytes \<Rightarrow> evm_log list \<Rightarrow> log_entry list" where
  "convert_logs contract_addr logs =
     map (\<lambda>l. \<lparr>log_contract = (if el_address l = replicate 20 0 then contract_addr else el_address l),
        log_topics = el_topics l, log_data = el_data l\<rparr>) logs"

definition storage_update :: "evm_view \<Rightarrow> bytes \<Rightarrow> evm_account \<Rightarrow> (bytes \<rightharpoonup> bytes) option" where
  "storage_update seed key account =
     (if ea_storage account = Map.empty then None
      else let written = fold (\<lambda>(slot, v) m. m(slot_key_bytes slot \<mapsto> value_bytes v))
                 (entries (ea_storage account)) Map.empty
        in Some (case esv_contracts seed key of
             Some existing \<Rightarrow> con_storage existing ++ written
           | None \<Rightarrow> written))"

definition created_contract :: "externs \<Rightarrow> evm_view \<Rightarrow> bytes option \<Rightarrow> bytes option \<Rightarrow> bytes \<Rightarrow>
    evm_account \<Rightarrow> contract_state option" where
  "created_contract X seed expected_creator contract_addr key account =
     (case (ea_code account, expected_creator) of
        (Some code, Some creator) \<Rightarrow>
          if code \<noteq> [] \<and> contract_addr = Some key
          then Some \<lparr>con_code_hash = sha3_hash X code, con_code = code,
            con_storage = (case storage_update seed key account of Some st \<Rightarrow> st | None \<Rightarrow> Map.empty),
            con_owner = creator\<rparr>
          else None
      | _ \<Rightarrow> None)"

definition on_accounts :: "(bytes \<Rightarrow> evm_account \<Rightarrow> 'a option) \<Rightarrow> (bytes \<rightharpoonup> evm_account) \<Rightarrow> bytes \<rightharpoonup> 'a" where
  "on_accounts f state = (\<lambda>key. case state key of None \<Rightarrow> None | Some a \<Rightarrow> f key a)"

definition finish_execution :: "externs \<Rightarrow> evm_result \<Rightarrow> (bytes \<rightharpoonup> evm_account) \<Rightarrow> evm_view \<Rightarrow>
    bytes option \<Rightarrow> evm_error + evm_outcome" where
  "finish_execution X result state seed_state expected_creator =
     (let outcome = (\<lambda>gas data addr logs success.
        \<lparr>eo_gas_used = gas,
         eo_account_updates = on_accounts
           (\<lambda>k a. Some (u64_from_u256_saturating (ea_balance a), ea_nonce a)) state,
         eo_storage_updates = on_accounts (storage_update seed_state) state,
         eo_contracts_created = on_accounts (created_contract X seed_state expected_creator addr) state,
         eo_contract_address = addr, eo_logs = logs, eo_return_data = data, eo_success = success\<rparr>)
      in case result of
           EvmSuccess gas (CallOutput data) logs \<Rightarrow>
             Inr (outcome gas data None (convert_logs (replicate 20 0) logs) True)
         | EvmSuccess gas (CreateOutput data addr) logs \<Rightarrow>
             Inr (outcome gas data addr
               (convert_logs (case addr of Some a \<Rightarrow> a | None \<Rightarrow> replicate 20 0) logs) True)
         | EvmRevert gas data \<Rightarrow> Inr (outcome gas data None [] False)
         | EvmHalt gas reason \<Rightarrow> Inl (EvmHalted reason))"

definition evm_transact :: "externs \<Rightarrow> evm_view \<Rightarrow> bytes \<Rightarrow> bytes option \<Rightarrow> bytes \<Rightarrow> u64 \<Rightarrow> u64 \<Rightarrow>
    u64 \<Rightarrow> u64 \<Rightarrow> u64 \<Rightarrow> u64 \<Rightarrow> bytes option \<Rightarrow> evm_error + evm_outcome" where
  "evm_transact X state caller kind data value gas_limit gas_price block_height base_fee block_gas_limit
     creator =
     (let nonce = snd (get_or (0, 0) (esv_accounts state) caller);
          tx = \<lparr>te_caller = caller, te_gas_limit = gas_limit, te_gas_price = gas_price, te_kind = kind,
            te_value = value, te_data = data, te_nonce = nonce\<rparr>;
          env = \<lparr>be_number = block_height, be_gas_limit = block_gas_limit, be_basefee = base_fee\<rparr>
      in case x_revm_transact X env state tx of
           Inl e \<Rightarrow> Inl (EvmInternal e)
         | Inr (result, st) \<Rightarrow> finish_execution X result st state creator)"

definition evm_deploy :: "externs \<Rightarrow> evm_view \<Rightarrow> bytes \<Rightarrow> bytes \<Rightarrow> u64 \<Rightarrow> u64 \<Rightarrow> u64 \<Rightarrow> u64 \<Rightarrow> u64 \<Rightarrow>
    u64 \<Rightarrow> evm_error + evm_outcome" where
  "evm_deploy X state caller init_code value gas_limit gas_price block_height base_fee block_gas_limit =
     (if init_code = [] then Inl EvmEmptyBytecode
      else evm_transact X state caller None init_code value gas_limit gas_price block_height base_fee
        block_gas_limit (Some caller))"

definition evm_call :: "externs \<Rightarrow> evm_view \<Rightarrow> bytes \<Rightarrow> bytes \<Rightarrow> bytes \<Rightarrow> u64 \<Rightarrow> u64 \<Rightarrow> u64 \<Rightarrow> u64 \<Rightarrow>
    u64 \<Rightarrow> u64 \<Rightarrow> evm_error + evm_outcome" where
  "evm_call X state caller to' input_data value gas_limit gas_price block_height base_fee block_gas_limit =
     evm_transact X state caller (Some to') input_data value gas_limit gas_price block_height base_fee
       block_gas_limit None"

definition receipt_from_outcome :: "evm_outcome \<Rightarrow> bytes \<Rightarrow> u64 \<Rightarrow> receipt" where
  "receipt_from_outcome outcome hash price =
     \<lparr>rc_tx_hash = hash, rc_success = eo_success outcome, rc_gas_used = eo_gas_used outcome,
      rc_effective_gas_price = price, rc_priority_fee_paid = 0, rc_base_fee_burned = 0,
      rc_gas_refunded = 0, rc_logs = eo_logs outcome, rc_return_data = eo_return_data outcome,
      rc_contract_address = eo_contract_address outcome\<rparr>"

section \<open>Merging an outcome\<close>

definition merge_accounts :: "evm_outcome \<Rightarrow> accounts \<Rightarrow> accounts" where
  "merge_accounts outcome accs = (\<lambda>addr.
     case eo_account_updates outcome addr of
       Some (balance, nonce) \<Rightarrow> Some ((get_or default_account accs addr)
         \<lparr>acc_balance := balance, acc_nonce := nonce\<rparr>)
     | None \<Rightarrow> accs addr)"

definition merge_contracts :: "evm_outcome \<Rightarrow> contracts \<Rightarrow> contracts" where
  "merge_contracts outcome cons = (\<lambda>addr.
     case eo_contracts_created outcome addr of
       Some c \<Rightarrow> Some (c\<lparr>con_storage := (case eo_storage_updates outcome addr of
          Some st \<Rightarrow> st | None \<Rightarrow> con_storage c)\<rparr>)
     | None \<Rightarrow>
         (case (eo_storage_updates outcome addr, cons addr) of
            (Some slots, Some c) \<Rightarrow> Some (c\<lparr>con_storage := con_storage c ++ slots\<rparr>)
          | (_, c) \<Rightarrow> c))"

definition merge_evm_outcome :: "accounts \<Rightarrow> contracts \<Rightarrow> evm_outcome \<Rightarrow> accounts \<times> contracts" where
  "merge_evm_outcome accs cons outcome = (merge_accounts outcome accs, merge_contracts outcome cons)"

fun leak_evm_err :: "evm_error \<Rightarrow> string" where
  "leak_evm_err EvmEmptyBytecode = ''evm deploy: empty bytecode''"
| "leak_evm_err EvmInvalidBytecode = ''evm: invalid bytecode''"
| "leak_evm_err EvmContractNotFound = ''evm: contract not found''"
| "leak_evm_err EvmOutOfGas = ''evm: out of gas''"
| "leak_evm_err (EvmReverted r) = ''evm: reverted''"
| "leak_evm_err (EvmHalted r) = ''evm: halted''"
| "leak_evm_err (EvmInternal r) = ''evm: internal error''"
| "leak_evm_err (EvmRlpDecode r) = ''evm: rlp decode failed''"
| "leak_evm_err EvmSignatureRecovery = ''evm: signature recovery failed''"

definition DEFAULT_BLOCK_GAS_LIMIT :: u64 where "DEFAULT_BLOCK_GAS_LIMIT = 10000000"

definition address20 :: "bytes \<Rightarrow> bytes" where
  "address20 a = (if length a = 20 then a else replicate 20 0)"

definition apply_evm_deploy :: "externs \<Rightarrow> accounts \<Rightarrow> contracts \<Rightarrow> transaction \<Rightarrow> u64 \<Rightarrow> u64 \<Rightarrow>
    chain_error + evm_outcome \<times> accounts \<times> contracts" where
  "apply_evm_deploy X accs cons tx current_height base_fee_per_gas =
     (let state = evm_state_view accs cons;
          caller = address20 (tx_from tx);
          state' = (case esv_accounts state caller of
            Some (bal, post_nonce) \<Rightarrow>
              state\<lparr>esv_accounts := (esv_accounts state)(caller \<mapsto> (bal, tx_nonce tx))\<rparr>
          | None \<Rightarrow> state)
      in case evm_deploy X state' caller (tx_data tx) (tx_amount tx) (tx_gas_limit tx)
             (max base_fee_per_gas 1) current_height base_fee_per_gas DEFAULT_BLOCK_GAS_LIMIT of
           Inl e \<Rightarrow> Inl (InvalidTransactionFormat (leak_evm_err e))
         | Inr outcome \<Rightarrow> Inr (outcome, merge_evm_outcome accs cons outcome))"

definition apply_evm_call :: "externs \<Rightarrow> accounts \<Rightarrow> contracts \<Rightarrow> transaction \<Rightarrow> u64 \<Rightarrow> u64 \<Rightarrow>
    chain_error + evm_outcome \<times> accounts \<times> contracts" where
  "apply_evm_call X accs cons tx current_height base_fee_per_gas =
     (case evm_call X (evm_state_view accs cons) (address20 (tx_from tx)) (address20 (tx_to tx))
          (tx_data tx) (tx_amount tx) (tx_gas_limit tx) (max base_fee_per_gas 1) current_height
          base_fee_per_gas DEFAULT_BLOCK_GAS_LIMIT of
        Inl e \<Rightarrow> Inl (InvalidTransactionFormat (leak_evm_err e))
      | Inr outcome \<Rightarrow> Inr (outcome, merge_evm_outcome accs cons outcome))"

section \<open>Round trips\<close>

lemma value_bytes_roundtrip: "bytes_to_u256 (value_bytes v) = v"
proof -
  have "length (value_bytes v) = 32" by (simp add: value_bytes_def)
  then have "bytes_to_u256 (value_bytes v) = from_le (le_bytes 32 v)"
    by (auto simp: bytes_to_u256_def value_bytes_def)
  then show ?thesis by (simp add: from_le_le_bytes take_bit_word_eq_self)
qed

lemma slot_key_bytes_inj: "slot_key_bytes a = slot_key_bytes b \<longleftrightarrow> a = b"
  by (metis slot_key_bytes_def value_bytes_def value_bytes_roundtrip)

lemma written_lookup:
  assumes "distinct (map fst kvs)" "(slot, v) \<in> set kvs"
  shows "fold (\<lambda>(slot, v) m. m(slot_key_bytes slot \<mapsto> value_bytes v)) kvs m (slot_key_bytes slot) = Some (value_bytes v)"
  using assms
proof (induction kvs arbitrary: m)
  case (Cons kv kvs)
  have other: "s \<notin> fst ` set xs \<Longrightarrow>
      fold (\<lambda>(slot, v) m. m(slot_key_bytes slot \<mapsto> value_bytes v)) xs m (slot_key_bytes s) = m (slot_key_bytes s)"
    for s :: u256 and xs and m :: "bytes \<rightharpoonup> bytes"
    by (induction xs arbitrary: m) (auto simp: slot_key_bytes_inj)
  show ?case
  proof (cases "kv = (slot, v)")
    case True
    then show ?thesis using Cons.prems other [of slot kvs] by (simp del: fun_upd_apply) simp
  next
    case False
    then show ?thesis using Cons by (cases kv) auto
  qed
qed simp

lemma storage_update_lookup:
  assumes "finite (dom (ea_storage a))" "ea_storage a slot = Some v" "storage_update seed key a = Some st"
  shows "st (slot_key_bytes slot) = Some (value_bytes v)"
proof -
  have "fold (\<lambda>(slot, v) m. m(slot_key_bytes slot \<mapsto> value_bytes v)) (entries (ea_storage a)) Map.empty
      (slot_key_bytes slot) = Some (value_bytes v)"
    using assms(1,2) by (intro written_lookup) (simp_all add: map_fst_entries in_entries_iff)
  then show ?thesis
    using assms(3) by (auto simp: storage_update_def Let_def split: if_splits option.splits)
qed

section \<open>Properties\<close>

text \<open>EVM storage round-trips through the chain state. When revm finishes a call, and its outcome
  is merged into the chain state, the database adapter over the new state reads back, for every account
  revm touched that is a contract, exactly the storage values revm reported, and its balance and nonce.\<close>
theorem evm_storage_roundtrip:
  assumes "finish_execution X result st (evm_state_view accs cons) creator = Inr outcome"
    and "merge_evm_outcome accs cons outcome = (accs', cons')"
    and "st addr = Some a" and "length addr = 20" and "cons addr \<noteq> None"
    and "finite (dom (ea_storage a))" and "ea_storage a slot = Some v"
  shows "db_storage (evm_state_view accs' cons') addr slot = v
    \<and> fst (snd (db_basic (evm_state_view accs' cons') addr)) = ea_nonce a
    \<and> (ea_balance a < 2 ^ 64 \<longrightarrow> fst (db_basic (evm_state_view accs' cons') addr) = ea_balance a)"
proof -
  have upd: "eo_account_updates outcome addr = Some (u64_from_u256_saturating (ea_balance a), ea_nonce a)"
      "eo_storage_updates outcome addr = storage_update (evm_state_view accs cons) addr a"
    using assms(1,3) by (auto simp: finish_execution_def on_accounts_def Let_def split: evm_result.splits evm_output.splits)
  have "ea_storage a \<noteq> Map.empty" using assms(7) by auto
  then obtain sm where sm: "storage_update (evm_state_view accs cons) addr a = Some sm"
    by (simp add: storage_update_def Let_def)
  have val: "sm (slot_key_bytes slot) = Some (value_bytes v)"
    by (rule storage_update_lookup [OF assms(6,7) sm])
  obtain c where c: "cons' addr = Some c" "con_storage c (slot_key_bytes slot) = Some (value_bytes v)"
    using assms(2,5) upd(2) sm val
    by (cases "eo_contracts_created outcome addr") (auto simp: merge_evm_outcome_def merge_contracts_def)
  have acc: "accs' addr = Some ((get_or default_account accs addr)
      \<lparr>acc_balance := u64_from_u256_saturating (ea_balance a), acc_nonce := ea_nonce a\<rparr>)"
    using assms(2) upd(1) by (auto simp: merge_evm_outcome_def merge_accounts_def)
  have bal: "ucast (u64_from_u256_saturating (ea_balance a)) = ea_balance a" if "ea_balance a < 2 ^ 64"
  proof -
    have lt: "unat (ea_balance a) < 2 ^ 64" using that by (simp add: word_less_nat_alt)
    then have "unat (drop_bit 64 (ea_balance a)) = 0" by (simp add: drop_bit_eq_div unat_div_distrib)
    then have "drop_bit 64 (ea_balance a) = 0" by (simp add: unat_eq_0)
    moreover have "unat (ucast (ucast (ea_balance a) :: u64) :: u256) = unat (ea_balance a)"
      using lt by (simp add: unat_ucast_small)
    ultimately show ?thesis by (simp add: u64_from_u256_saturating_def word_unat_eq_iff)
  qed
  show ?thesis
    using c acc bal assms(4)
    by (simp add: db_storage_def db_basic_def evm_state_view_def value_bytes_roundtrip)
qed

definition demo_evm_account :: evm_account where
  "demo_evm_account = \<lparr>ea_balance = 9, ea_nonce = 4, ea_code = None, ea_storage = [7 \<mapsto> 42]\<rparr>"

theorem evm_storage_roundtrip_witness:
  "\<exists>outcome accs' cons'. finish_execution demo_externs (EvmSuccess 21000 (CallOutput []) []) [replicate 20 1 \<mapsto> demo_evm_account]
      (evm_state_view Map.empty [replicate 20 1 \<mapsto> \<lparr>con_code_hash = [], con_code = [1], con_storage = Map.empty, con_owner = []\<rparr>])
      None = Inr outcome
    \<and> merge_evm_outcome Map.empty [replicate 20 1 \<mapsto> \<lparr>con_code_hash = [], con_code = [1], con_storage = Map.empty, con_owner = []\<rparr>]
        outcome = (accs', cons')
    \<and> db_storage (evm_state_view accs' cons') (replicate 20 1) 7 = 42"
proof -
  let ?cons = "[replicate 20 1 \<mapsto> \<lparr>con_code_hash = [], con_code = [1], con_storage = Map.empty, con_owner = []\<rparr>]"
  obtain outcome where o: "finish_execution demo_externs (EvmSuccess 21000 (CallOutput []) [])
      [replicate 20 1 \<mapsto> demo_evm_account] (evm_state_view Map.empty ?cons) None = Inr outcome"
    by (simp add: finish_execution_def Let_def)
  obtain accs' cons' where m: "merge_evm_outcome Map.empty ?cons outcome = (accs', cons')"
    by (cases "merge_evm_outcome Map.empty ?cons outcome")
  show ?thesis
    using evm_storage_roundtrip [OF o m, of "replicate 20 1" demo_evm_account 7 42] o m
    by (auto simp: demo_evm_account_def)
qed

end
