(* ===== verification/Apply.thy ===== *)
theory Apply
  imports Tokens Governance Wasm_Vm Evm
begin

text \<open>
  \<^verbatim>\<open>src/src/core/chain/apply.rs\<close> (transaction level) and the helpers of \<^verbatim>\<open>src/src/core/chain/genesis.rs\<close>:
  the shape checks, the execution of one user transaction against the ledger, coinbase, unstake
  unlocks and fee arithmetic. The five maps the source passes by \<open>&mut\<close> are the record \<open>ledger\<close>.
  Rust's early return after a mutation keeps the mutation, so \<open>apply_user_transaction\<close> returns the
  ledger together with the result, also on errors.
\<close>

section \<open>Shape checks\<close>

abbreviation bad_format :: "string \<Rightarrow> chain_error + unit" where
  "bad_format s \<equiv> Inl (InvalidTransactionFormat s)"

text \<open>The checks shared by the kinds that carry JSON parameters in \<open>data\<close>.\<close>
definition check_data_kind :: "transaction \<Rightarrow> string \<Rightarrow> chain_error + unit" where
  "check_data_kind tx msg =
     (if tx_chain_id tx = [] then bad_format ''missing transaction chain id''
      else if length (tx_from tx) \<noteq> ADDRESS_LEN then Inl InvalidSender
      else if tx_data tx = [] then bad_format msg
      else Inr ())"

definition validate_transaction_shape :: "transaction \<Rightarrow> chain_error + unit" where
  "validate_transaction_shape tx =
     (if \<not> is_coinbase tx \<and> max_priority_fee_per_gas tx > max_fee_per_gas tx
      then bad_format ''max_priority_fee_per_gas cannot exceed max_fee_per_gas''
      else case tx_kind tx of
        Coinbase \<Rightarrow>
          if tx_chain_id tx = [] then Inl InvalidCoinbase
          else if tx_from tx \<noteq> replicate ADDRESS_LEN 0 then Inl InvalidCoinbase
          else if tx_sender_public_key tx \<noteq> [] then Inl InvalidCoinbase
          else if length (tx_to tx) \<noteq> ADDRESS_LEN then Inl InvalidCoinbase
          else if tx_fee tx \<noteq> 0 \<or> max_fee_per_gas tx \<noteq> 0 \<or> max_priority_fee_per_gas tx \<noteq> 0
            \<or> tx_nonce tx \<noteq> 0 \<or> tx_signature tx \<noteq> None then Inl InvalidCoinbase
          else Inr ()
      | Transfer \<Rightarrow>
          if tx_chain_id tx = [] then bad_format ''missing transaction chain id''
          else if length (tx_from tx) \<noteq> ADDRESS_LEN \<or> length (tx_to tx) \<noteq> ADDRESS_LEN then Inl InvalidRecipient
          else if tx_amount tx = 0 then bad_format ''transfer amount must be positive''
          else Inr ()
      | DeployContract \<Rightarrow>
          if tx_chain_id tx = [] then bad_format ''missing transaction chain id''
          else if length (tx_from tx) \<noteq> ADDRESS_LEN then Inl InvalidSender
          else if tx_to tx = [] then bad_format ''deploy contract must include bytecode''
          else if tx_gas_limit tx = 0 then bad_format ''deploy contract must specify gas_limit''
          else Inr ()
      | CallContract \<Rightarrow>
          if tx_chain_id tx = [] then bad_format ''missing transaction chain id''
          else if length (tx_from tx) \<noteq> ADDRESS_LEN then Inl InvalidSender
          else if length (tx_to tx) \<noteq> ADDRESS_LEN
            then bad_format ''call contract must specify a valid contract address''
          else if tx_gas_limit tx = 0 then bad_format ''call contract must specify gas_limit''
          else Inr ()
      | DeployToken \<Rightarrow> check_data_kind tx ''deploy token must include token parameters in data''
      | TokenTransfer \<Rightarrow> check_data_kind tx ''token transfer must include transfer parameters in data''
      | TokenApprove \<Rightarrow> check_data_kind tx ''token approve must include approve parameters in data''
      | TokenTransferFrom \<Rightarrow> check_data_kind tx ''token transferFrom must include parameters in data''
      | SubmitProposal \<Rightarrow> check_data_kind tx ''submit proposal must include proposal parameters in data''
      | GovernanceVote \<Rightarrow> check_data_kind tx ''governance vote must include vote parameters in data''
      | DeployEvmContract \<Rightarrow>
          if tx_chain_id tx = [] then bad_format ''missing transaction chain id''
          else if length (tx_from tx) \<noteq> ADDRESS_LEN then Inl InvalidSender
          else if tx_data tx = [] then bad_format ''evm deploy must include init bytecode in data''
          else if tx_gas_limit tx = 0 then bad_format ''evm deploy must specify gas_limit''
          else if tx_evm_raw_tx tx = [] then bad_format ''evm deploy missing raw tx for signature recovery''
          else Inr ()
      | CallEvmContract \<Rightarrow>
          if tx_chain_id tx = [] then bad_format ''missing transaction chain id''
          else if length (tx_from tx) \<noteq> ADDRESS_LEN then Inl InvalidSender
          else if length (tx_to tx) \<noteq> ADDRESS_LEN
            then bad_format ''evm call must specify a valid contract address''
          else if tx_gas_limit tx = 0 then bad_format ''evm call must specify gas_limit''
          else if tx_evm_raw_tx tx = [] then bad_format ''evm call missing raw tx for signature recovery''
          else Inr ()
      | _ \<Rightarrow> \<comment> \<open>Stake and Unstake\<close>
          if tx_chain_id tx = [] then bad_format ''missing transaction chain id''
          else if length (tx_from tx) \<noteq> ADDRESS_LEN then Inl InvalidSender
          else if tx_to tx \<noteq> [] then bad_format ''stake/unstake transactions cannot have a recipient''
          else if tx_amount tx = 0 then bad_format ''stake/unstake amount must be positive''
          else Inr ())"

section \<open>The ledger\<close>

record ledger =
  lg_accounts :: accounts
  lg_contracts :: contracts
  lg_receipts :: "bytes \<rightharpoonup> receipt"
  lg_tokens :: token_registry
  lg_governance :: governance_state

abbreviation account_of :: "accounts \<Rightarrow> bytes \<Rightarrow> account_state" where
  "account_of accs \<equiv> get_or default_account accs"

text \<open>\<open>entry(addr).or_default()\<close> followed by a saturating credit.\<close>
definition credit :: "accounts \<Rightarrow> bytes \<Rightarrow> u64 \<Rightarrow> accounts" where
  "credit accs addr amount =
     accs(addr \<mapsto> (account_of accs addr)\<lparr>acc_balance := sat_add (acc_balance (account_of accs addr)) amount\<rparr>)"

definition next_epoch_start_height_for :: "u64 \<Rightarrow> u64 \<Rightarrow> u64" where
  "next_epoch_start_height_for current_height epoch_length =
     (let el = max epoch_length 1 in sat_mul (sat_add (current_height div el) 1) el)"

definition apply_stake :: "account_state \<Rightarrow> u64 \<Rightarrow> u64 \<Rightarrow> u64 \<Rightarrow> u64 \<Rightarrow> account_state" where
  "apply_stake sender amount current_height epoch_length minimum_stake =
     (let was_below_minimum = acc_staked_balance sender < minimum_stake;
          sender' = sender\<lparr>acc_staked_balance := sat_add (acc_staked_balance sender) amount\<rparr>
      in if was_below_minimum \<and> acc_staked_balance sender' \<ge> minimum_stake
         then sender'\<lparr>acc_validator_active_from_height := next_epoch_start_height_for current_height epoch_length\<rparr>
         else sender')"

text \<open>The block of \<open>apply_user_transaction\<close> that charges the sender: the updated account, and the
  error if there is one.\<close>
definition charge_sender :: "transaction \<Rightarrow> account_state \<Rightarrow> u64 \<Rightarrow> u64 \<Rightarrow> u64 \<Rightarrow> u64 \<Rightarrow>
    chain_error option \<times> account_state" where
  "charge_sender tx sender current_height unstake_delay_blocks epoch_length minimum_stake =
     (if \<not> is_evm tx \<and> acc_public_key sender \<noteq> None \<and> acc_public_key sender \<noteq> Some (tx_sender_public_key tx)
      then (Some InvalidSender, sender)
      else
        let s1 = (if is_evm tx then sender else sender\<lparr>acc_public_key := Some (tx_sender_public_key tx)\<rparr>);
            needed = sat_add (tx_amount tx) (total_fee_cap tx)
        in if acc_balance s1 < needed
           then (Some (InsufficientBalance (tx_from tx) (acc_balance s1) needed), s1)
           else if tx_nonce tx \<noteq> acc_nonce s1 then (Some (InvalidNonce (acc_nonce s1) (tx_nonce tx)), s1)
           else
             let s2 = s1\<lparr>acc_balance := acc_balance s1 - needed, acc_nonce := acc_nonce s1 + 1\<rparr>;
                 s3 = (if is_stake tx then apply_stake s2 (tx_amount tx) current_height epoch_length minimum_stake
                       else s2)
             in if is_unstake tx then
                  if acc_staked_balance s3 < tx_amount tx
                  then (Some (InsufficientBalance (tx_from tx) (acc_staked_balance s3) (tx_amount tx)), s3)
                  else (None, s3\<lparr>acc_staked_balance := sat_sub (acc_staked_balance s3) (tx_amount tx),
                    acc_pending_unstakes := acc_pending_unstakes s3 @
                      [\<lparr>pu_amount = tx_amount tx, pu_unlock_height = sat_add current_height unstake_delay_blocks\<rparr>]\<rparr>)
                else (None, s3))"

definition stake_snapshot_of :: "accounts \<Rightarrow> u64 \<Rightarrow> bytes \<rightharpoonup> u64" where
  "stake_snapshot_of accs minimum_stake = (\<lambda>addr. case accs addr of
     Some a \<Rightarrow> if acc_staked_balance a \<ge> minimum_stake then Some (acc_staked_balance a) else None
   | None \<Rightarrow> None)"

definition apply_token_or_governance_tx :: "externs \<Rightarrow> token_registry \<Rightarrow> governance_state \<Rightarrow> accounts \<Rightarrow> u64 \<Rightarrow>
    u64 \<Rightarrow> transaction \<Rightarrow> u64 \<Rightarrow> chain_error + token_registry \<times> governance_state" where
  "apply_token_or_governance_tx X tokens gov accs minimum_stake epoch_length tx current_height =
     (case tx_kind tx of
        DeployToken \<Rightarrow>
          (case x_json_deploy_token X (tx_data tx) of
             None \<Rightarrow> Inl (InvalidTransactionFormat ''invalid DeployToken JSON in data'')
           | Some params \<Rightarrow>
               (case deploy_token X tokens (tx_from tx) (sat_sub (tx_nonce tx) 1) params current_height of
                  Inl e \<Rightarrow> Inl (InvalidTransactionFormat ''token operation failed'')
                | Inr (addr, r) \<Rightarrow> Inr (r, gov)))
      | TokenTransfer \<Rightarrow>
          (case x_json_token_transfer X (tx_data tx) of
             None \<Rightarrow> Inl (InvalidTransactionFormat ''invalid TokenTransfer JSON in data'')
           | Some params \<Rightarrow>
               (case token_transfer tokens (ttp_token_address params) (tx_from tx) (ttp_recipient params)
                   (ttp_amount params) of
                  Inl e \<Rightarrow> Inl (InvalidTransactionFormat ''token operation failed'')
                | Inr r \<Rightarrow> Inr (r, gov)))
      | TokenApprove \<Rightarrow>
          (case x_json_token_approve X (tx_data tx) of
             None \<Rightarrow> Inl (InvalidTransactionFormat ''invalid TokenApprove JSON in data'')
           | Some params \<Rightarrow>
               (case token_approve tokens (tap_token_address params) (tx_from tx) (tap_spender params)
                   (tap_amount params) of
                  Inl e \<Rightarrow> Inl (InvalidTransactionFormat ''token operation failed'')
                | Inr r \<Rightarrow> Inr (r, gov)))
      | TokenTransferFrom \<Rightarrow>
          (case x_json_token_transfer_from X (tx_data tx) of
             None \<Rightarrow> Inl (InvalidTransactionFormat ''invalid TokenTransferFrom JSON in data'')
           | Some params \<Rightarrow>
               (case token_transfer_from tokens (tfp_token_address params) (tx_from tx) (tfp_from params)
                   (tfp_recipient params) (tfp_amount params) of
                  Inl e \<Rightarrow> Inl (InvalidTransactionFormat ''token operation failed'')
                | Inr r \<Rightarrow> Inr (r, gov)))
      | SubmitProposal \<Rightarrow>
          (case x_json_submit_proposal X (tx_data tx) of
             None \<Rightarrow> Inl (InvalidTransactionFormat ''invalid SubmitProposal JSON in data'')
           | Some kind \<Rightarrow>
               if \<not> (case accs (tx_from tx) of Some a \<Rightarrow> acc_staked_balance a \<ge> minimum_stake | None \<Rightarrow> False)
               then Inl UnauthorizedValidator
               else (case submit_proposal X gov (tx_from tx) kind current_height epoch_length
                        (stake_snapshot_of accs minimum_stake) of
                       Inl e \<Rightarrow> Inl (InvalidTransactionFormat ''governance operation failed'')
                     | Inr (pid, g) \<Rightarrow> Inr (tokens, g)))
      | GovernanceVote \<Rightarrow>
          (case x_json_governance_vote X (tx_data tx) of
             None \<Rightarrow> Inl (InvalidTransactionFormat ''invalid GovernanceVote JSON in data'')
           | Some params \<Rightarrow>
               let voter_stake = (case accs (tx_from tx) of Some a \<Rightarrow> acc_staked_balance a | None \<Rightarrow> 0) in
               if voter_stake < minimum_stake then Inl UnauthorizedValidator
               else (case gov_vote gov (tx_from tx) (gvp_proposal_id params) (gvp_vote params) voter_stake
                        current_height of
                       Inl e \<Rightarrow> Inl (InvalidTransactionFormat ''governance operation failed'')
                     | Inr g \<Rightarrow> Inr (tokens, g)))
      | _ \<Rightarrow> Inr (tokens, gov))"

text \<open>The dispatch on the transaction kind: gas used and the receipt, if the kind makes one.\<close>
definition execute_kind :: "externs \<Rightarrow> ledger \<Rightarrow> transaction \<Rightarrow> u64 \<Rightarrow> u64 \<Rightarrow> u64 \<Rightarrow> u64 \<Rightarrow>
    chain_error + u64 \<times> receipt option \<times> ledger" where
  "execute_kind X L tx current_height epoch_length minimum_stake base_fee_per_gas =
     (case tx_kind tx of
        Transfer \<Rightarrow> Inr (GAS_BASE_TX, None, L\<lparr>lg_accounts := credit (lg_accounts L) (tx_to tx) (tx_amount tx)\<rparr>)
      | Stake \<Rightarrow> Inr (GAS_BASE_TX, None, L)
      | Unstake \<Rightarrow> Inr (GAS_BASE_TX, None, L)
      | Coinbase \<Rightarrow> Inl (InvalidTransactionFormat ''coinbase not allowed in user transaction flow'')
      | DeployContract \<Rightarrow>
          (case vm_deploy X (tx_to tx) (tx_from tx) (sat_sub (tx_nonce tx) 1) (tx_gas_limit tx) current_height of
             Inl e \<Rightarrow> Inl (VmError e)
           | Inr (contract, rc) \<Rightarrow>
               Inr (rc_gas_used rc, Some (rc\<lparr>rc_tx_hash := tx_hash X tx\<rparr>),
                 (case rc_contract_address rc of
                    Some addr \<Rightarrow> L\<lparr>lg_contracts := (lg_contracts L)(addr \<mapsto> contract)\<rparr>
                  | None \<Rightarrow> L)))
      | CallContract \<Rightarrow>
          (case lg_contracts L (tx_to tx) of
             None \<Rightarrow> Inl (ContractNotFound (tx_to tx))
           | Some contract \<Rightarrow>
               (case vm_call X contract (tx_to tx) (tx_data tx) (tx_from tx) (tx_amount tx) (tx_gas_limit tx) of
                  Inl e \<Rightarrow> Inl (VmError e)
                | Inr (rc, contract') \<Rightarrow>
                    Inr (rc_gas_used rc, Some (rc\<lparr>rc_tx_hash := tx_hash X tx\<rparr>),
                      L\<lparr>lg_contracts := (lg_contracts L)(tx_to tx \<mapsto> contract'),
                        lg_accounts := (if tx_amount tx > 0
                          then credit (lg_accounts L) (tx_to tx) (tx_amount tx) else lg_accounts L)\<rparr>)))
      | DeployEvmContract \<Rightarrow>
          (case apply_evm_deploy X (lg_accounts L) (lg_contracts L) tx current_height base_fee_per_gas of
             Inl e \<Rightarrow> Inl e
           | Inr (outcome, accs, cons) \<Rightarrow>
               Inr (max (eo_gas_used outcome) GAS_BASE_TX,
                 Some (receipt_from_outcome outcome (tx_hash X tx) (max base_fee_per_gas 1)),
                 L\<lparr>lg_accounts := accs, lg_contracts := cons\<rparr>))
      | CallEvmContract \<Rightarrow>
          (case apply_evm_call X (lg_accounts L) (lg_contracts L) tx current_height base_fee_per_gas of
             Inl e \<Rightarrow> Inl e
           | Inr (outcome, accs, cons) \<Rightarrow>
               Inr (max (eo_gas_used outcome) GAS_BASE_TX,
                 Some (receipt_from_outcome outcome (tx_hash X tx) (max base_fee_per_gas 1)),
                 L\<lparr>lg_accounts := accs, lg_contracts := cons\<rparr>))
      | _ \<Rightarrow>
          (case apply_token_or_governance_tx X (lg_tokens L) (lg_governance L) (lg_accounts L) minimum_stake
              epoch_length tx current_height of
             Inl e \<Rightarrow> Inl e
           | Inr (tokens, gov) \<Rightarrow> Inr (GAS_BASE_TX, None, L\<lparr>lg_tokens := tokens, lg_governance := gov\<rparr>)))"

definition ensure_transaction_fee_covers_base :: "transaction \<Rightarrow> u64 \<Rightarrow> u64 \<Rightarrow> chain_error + unit" where
  "ensure_transaction_fee_covers_base tx gas_used base_fee_per_gas =
     (let required = sat_mul gas_used base_fee_per_gas in
      if max_fee_per_gas tx < base_fee_per_gas \<or> total_fee_cap tx < required then Inl FeeTooLow else Inr ())"

definition priority_fee_for_transaction :: "transaction \<Rightarrow> u64 \<Rightarrow> u64 \<Rightarrow> u64" where
  "priority_fee_for_transaction tx gas_used base_fee_per_gas =
     sat_mul (case priority_fee_per_gas tx base_fee_per_gas of None \<Rightarrow> 0 | Some p \<Rightarrow> p) gas_used"

text \<open>The fee settlement at the end of \<open>apply_user_transaction\<close>.\<close>
definition settle_fees :: "externs \<Rightarrow> ledger \<Rightarrow> transaction \<Rightarrow> u64 \<Rightarrow> receipt option \<Rightarrow> u64 \<Rightarrow>
    (chain_error + u64) \<times> ledger" where
  "settle_fees X L tx gas_used maybe_receipt base_fee_per_gas =
     (case ensure_transaction_fee_covers_base tx gas_used base_fee_per_gas of
        Inl e \<Rightarrow> (Inl e, L)
      | Inr _ \<Rightarrow>
     (case effective_gas_price tx base_fee_per_gas of
        None \<Rightarrow> (Inl FeeTooLow, L)
      | Some price \<Rightarrow>
          let actual_fee_paid = sat_mul gas_used price;
              gas_refunded = sat_sub (total_fee_cap tx) actual_fee_paid;
              priority_fee_paid = priority_fee_for_transaction tx gas_used base_fee_per_gas;
              base_fee_burned = sat_mul gas_used base_fee_per_gas;
              L1 = L\<lparr>lg_accounts := credit (lg_accounts L) (tx_from tx) gas_refunded\<rparr>
          in (Inr gas_used,
              case maybe_receipt of
                None \<Rightarrow> L1
              | Some rc \<Rightarrow> L1\<lparr>lg_receipts := (lg_receipts L1)(tx_hash X tx \<mapsto>
                  rc\<lparr>rc_effective_gas_price := price, rc_priority_fee_paid := priority_fee_paid,
                     rc_base_fee_burned := base_fee_burned, rc_gas_refunded := gas_refunded\<rparr>)\<rparr>)))"

definition apply_user_transaction :: "externs \<Rightarrow> ledger \<Rightarrow> transaction \<Rightarrow> u64 \<Rightarrow> u64 \<Rightarrow> u64 \<Rightarrow> u64 \<Rightarrow> u64 \<Rightarrow>
    (chain_error + u64) \<times> ledger" where
  "apply_user_transaction X L tx current_height unstake_delay_blocks epoch_length minimum_stake
     base_fee_per_gas =
     (case validate_transaction_shape tx of
        Inl e \<Rightarrow> (Inl e, L)
      | Inr _ \<Rightarrow>
          if \<not> tx_verify_signature X tx then (Inl InvalidSignature, L)
          else if \<not> is_evm tx \<and> tx_from tx \<noteq> address_bytes_from_public_key X (tx_sender_public_key tx)
            then (Inl InvalidSender, L)
          else
            let (err, sender) = charge_sender tx (account_of (lg_accounts L) (tx_from tx)) current_height
                  unstake_delay_blocks epoch_length minimum_stake;
                L1 = L\<lparr>lg_accounts := (lg_accounts L)(tx_from tx \<mapsto> sender)\<rparr>
            in (case err of
                  Some e \<Rightarrow> (Inl e, L1)
                | None \<Rightarrow>
                    (case execute_kind X L1 tx current_height epoch_length minimum_stake base_fee_per_gas of
                       Inl e \<Rightarrow> (Inl e, L1)
                     | Inr (gas_used, rc, L2) \<Rightarrow> settle_fees X L2 tx gas_used rc base_fee_per_gas)))"

definition apply_coinbase_transaction :: "accounts \<Rightarrow> transaction \<Rightarrow> chain_error + accounts" where
  "apply_coinbase_transaction accs tx =
     (case validate_transaction_shape tx of
        Inl e \<Rightarrow> Inl e
      | Inr _ \<Rightarrow> if \<not> is_coinbase tx then Inl InvalidCoinbase
          else Inr (credit accs (tx_to tx) (tx_amount tx)))"

definition unlock_account :: "u64 \<Rightarrow> account_state \<Rightarrow> account_state" where
  "unlock_account block_height a =
     (let released = fold (\<lambda>p acc. if pu_unlock_height p \<le> block_height then sat_add acc (pu_amount p) else acc)
            (acc_pending_unstakes a) 0
      in a\<lparr>acc_pending_unstakes := filter (\<lambda>p. \<not> pu_unlock_height p \<le> block_height) (acc_pending_unstakes a),
           acc_balance := sat_add (acc_balance a) released\<rparr>)"

definition apply_unstake_unlocks :: "accounts \<Rightarrow> u64 \<Rightarrow> accounts" where
  "apply_unstake_unlocks accs block_height = (\<lambda>addr. map_option (unlock_account block_height) (accs addr))"


section \<open>Wealth\<close>

text \<open>The wealth of an account: liquid, staked and unlocking coins.\<close>
definition wealth :: "account_state \<Rightarrow> nat" where
  "wealth a = unat (acc_balance a) + unat (acc_staked_balance a)
     + sum_list (map (unat \<circ> pu_amount) (acc_pending_unstakes a))"

lemma wealth_default [simp]: "wealth default_account = 0"
  by (simp add: wealth_def default_account_def)

lemma wealth_upd [simp]:
  "wealth (a\<lparr>acc_public_key := k\<rparr>) = wealth a"
  "wealth (a\<lparr>acc_nonce := n\<rparr>) = wealth a"
  "wealth (a\<lparr>acc_validator_active_from_height := h\<rparr>) = wealth a"
  by (simp_all add: wealth_def)

lemma wealth_credit:
  "unat (acc_balance a) + unat v < 2 ^ 64 \<Longrightarrow>
     wealth (a\<lparr>acc_balance := sat_add (acc_balance a) v\<rparr>) = wealth a + unat v"
  by (simp add: wealth_def unat_sat_add)

lemma balance_le_wealth: "unat (acc_balance a) \<le> wealth a"
  by (simp add: wealth_def)

lemma account_wealth_le: "finite (dom accs) \<Longrightarrow> wealth (account_of accs k) \<le> total wealth accs"
  by (rule total_ge_default) simp_all

lemma finite_dom_credit [simp]: "finite (dom (credit accs k v)) = finite (dom accs)"
  by (simp add: credit_def)

lemma total_set_account:
  "finite (dom accs) \<Longrightarrow> total wealth (accs(k \<mapsto> a)) + wealth (account_of accs k) = total wealth accs + wealth a"
  by (rule total_upd_default) simp_all

text \<open>A credit that fits is exact, whatever the number of accounts.\<close>
lemma total_credit:
  assumes "finite (dom accs)" "total wealth accs + unat v < 2 ^ 64"
  shows "total wealth (credit accs k v) = total wealth accs + unat v"
proof -
  have "unat (acc_balance (account_of accs k)) + unat v < 2 ^ 64"
    using balance_le_wealth [of "account_of accs k"] account_wealth_le [OF assms(1), of k] assms(2) by linarith
  then show ?thesis
    using total_set_account [OF assms(1), of k
        "(account_of accs k)\<lparr>acc_balance := sat_add (acc_balance (account_of accs k)) v\<rparr>"]
    by (simp add: credit_def wealth_credit)
qed

lemma account_of_credit:
  "account_of (credit accs k v) k' = (if k' = k then (account_of accs k)\<lparr>acc_balance :=
     sat_add (acc_balance (account_of accs k)) v\<rparr> else account_of accs k')"
  by (simp add: credit_def)

section \<open>Charging the sender\<close>

definition debited :: "transaction \<Rightarrow> nat" where
  "debited tx = (if is_stake tx then 0 else unat (tx_amount tx)) + unat (total_fee_cap tx)"

lemma apply_stake_wealth:
  "unat (acc_staked_balance s) + unat v < 2 ^ 64 \<Longrightarrow> wealth (apply_stake s v h el ms) = wealth s + unat v"
  by (simp add: apply_stake_def Let_def wealth_def unat_sat_add)

lemma apply_stake_keeps [simp]:
  "acc_balance (apply_stake s v h el ms) = acc_balance s"
  "acc_nonce (apply_stake s v h el ms) = acc_nonce s"
  "acc_public_key (apply_stake s v h el ms) = acc_public_key s"
  "acc_pending_unstakes (apply_stake s v h el ms) = acc_pending_unstakes s"
  "acc_staked_balance (apply_stake s v h el ms) = sat_add (acc_staked_balance s) v"
  by (simp_all add: apply_stake_def Let_def)

lemma charge_sender_ok:
  assumes "charge_sender tx s h ud el ms = (None, s')"
  shows "acc_nonce s = tx_nonce tx" "acc_nonce s' = tx_nonce tx + 1"
    "sat_add (tx_amount tx) (total_fee_cap tx) \<le> acc_balance s"
    "acc_balance s' = acc_balance s - sat_add (tx_amount tx) (total_fee_cap tx)"
  using assms by (auto simp: charge_sender_def Let_def split: if_splits)

lemma sum_list_snoc: "sum_list (map f (xs @ [x])) = sum_list (map f xs) + f x" for f :: "_ \<Rightarrow> nat"
  by simp

lemma charge_sender_wealth:
  assumes "charge_sender tx s h ud el ms = (None, s')" "wealth s < 2 ^ 64 - 1"
  shows "wealth s' + debited tx = wealth s"
    and "unat (tx_amount tx) + unat (total_fee_cap tx) < 2 ^ 64 - 1"
proof -
  define k where "k = sat_add (tx_amount tx) (total_fee_cap tx)"
  have ok: "k \<le> acc_balance s" "acc_balance s' = acc_balance s - k"
    using charge_sender_ok [OF assms(1)] by (simp_all add: k_def)
  have small: "unat k < 2 ^ 64 - 1"
    using ok(1) assms(2) by (simp add: wealth_def word_le_nat_alt)
  then show fit: "unat (tx_amount tx) + unat (total_fee_cap tx) < 2 ^ 64 - 1"
    by (simp add: k_def unat_sat_add)
  have k: "unat k = unat (tx_amount tx) + unat (total_fee_cap tx)"
    using fit by (simp add: k_def unat_sat_add)
  have bal: "unat (acc_balance s') + unat k = unat (acc_balance s)"
    using ok by (simp add: word_le_nat_alt unat_sub)
  have room: "unat (acc_staked_balance s) + unat (tx_amount tx) < 2 ^ 64"
    using assms(2) k ok(1) unfolding wealth_def word_le_nat_alt by linarith
  have "unat (acc_staked_balance s') + sum_list (map (unat \<circ> pu_amount) (acc_pending_unstakes s'))
      = unat (acc_staked_balance s) + sum_list (map (unat \<circ> pu_amount) (acc_pending_unstakes s))
        + (if is_stake tx then unat (tx_amount tx) else 0)"
    using assms(1) room
    by (auto simp: charge_sender_def Let_def kind_defs unat_sat_add unat_sat_sub word_less_nat_alt split: if_splits)
  then show "wealth s' + debited tx = wealth s"
    using bal k by (cases "is_stake tx") (simp_all add: wealth_def debited_def)
qed


section \<open>Fees\<close>

lemma fee_within_cap:
  assumes "effective_gas_price tx b = Some price" "gas \<le> effective_gas_limit tx"
    and "unat (total_fee_cap tx) < 2 ^ 64 - 1"
  shows "unat gas * unat price \<le> unat (total_fee_cap tx)"
proof -
  have cap: "unat (total_fee_cap tx) = unat (effective_gas_limit tx) * unat (max_fee_per_gas tx)"
    using assms(3) by (simp add: total_fee_cap_def unat_sat_mul)
  have "price \<le> max_fee_per_gas tx" using effective_gas_price_bounds [OF assms(1)] by simp
  then show ?thesis using assms(2) unfolding cap word_le_nat_alt by (rule mult_le_mono [rotated])
qed

text \<open>Gas used by a native transaction never exceeds the limit its fee cap was computed from.\<close>
lemma execute_kind_gas:
  assumes "execute_kind X L tx h el ms b = Inr (gas, rc, L')" "\<not> is_evm tx"
  shows "gas \<le> effective_gas_limit tx"
proof -
  have call: "gas \<le> tx_gas_limit tx" if "vm_call X c a d cl v (tx_gas_limit tx) = Inr (r, c')" "gas = rc_gas_used r" for r c' c a d cl v
    using that by (auto simp: vm_call_def vm_execute_def Let_def call_receipt_def word_le_nat_alt unat_sat_sub
        split: sum.splits if_splits)
  have deploy: "gas \<le> tx_gas_limit tx" if "vm_deploy X c d n (tx_gas_limit tx) bh = Inr (c', r)" "gas = rc_gas_used r" for r c' c d n bh
    using that by (auto simp: vm_deploy_def split: sum.splits if_splits)
  have lim: "tx_gas_limit tx \<le> effective_gas_limit tx" if "tx_kind tx \<in> {DeployContract, CallContract}"
    using that by (auto simp: effective_gas_limit_def estimated_gas_for_admission_def)
  show ?thesis
    using assms effective_gas_limit_ge_base [of tx] call deploy lim
    by (fastforce simp: execute_kind_def is_evm_def split: transaction_kind.splits sum.splits option.splits)
qed

text \<open>What the execution step of a native transaction does to the accounts: it credits the recipient of a
  transfer or a contract call and touches nothing else.\<close>
definition delivers :: "transaction \<Rightarrow> bool" where
  "delivers tx \<longleftrightarrow> tx_kind tx = Transfer \<or> tx_kind tx = CallContract \<and> 0 < tx_amount tx"

lemma execute_kind_accounts:
  assumes "execute_kind X L tx h el ms b = Inr (gas, rc, L')" "\<not> is_evm tx"
  shows "lg_accounts L' = (if delivers tx then credit (lg_accounts L) (tx_to tx) (tx_amount tx) else lg_accounts L)"
  using assms
  by (auto simp: execute_kind_def is_evm_def delivers_def word_greater_zero_iff
      split: transaction_kind.splits sum.splits option.splits)

lemma settle_fees_accounts:
  assumes "settle_fees X L tx gas rc b = (Inr g, L')"
  shows "g = gas" and "\<exists>price. effective_gas_price tx b = Some price
    \<and> lg_accounts L' = credit (lg_accounts L) (tx_from tx) (sat_sub (total_fee_cap tx) (sat_mul gas price))"
  using assms by (auto simp: settle_fees_def Let_def split: sum.splits option.splits)

text \<open>The three steps of a transaction that was accepted.\<close>
lemma apply_user_transaction_ok:
  assumes "apply_user_transaction X L tx h ud el ms b = (Inr g, L')"
  obtains s L2 rc where "charge_sender tx (account_of (lg_accounts L) (tx_from tx)) h ud el ms = (None, s)"
    "execute_kind X (L\<lparr>lg_accounts := (lg_accounts L)(tx_from tx \<mapsto> s)\<rparr>) tx h el ms b = Inr (g, rc, L2)"
    "settle_fees X L2 tx g rc b = (Inr g, L')" "validate_transaction_shape tx = Inr ()" "tx_verify_signature X tx"
    "\<not> is_evm tx \<Longrightarrow> tx_from tx = address_bytes_from_public_key X (tx_sender_public_key tx)"
  using assms settle_fees_accounts(1)
  by (fastforce simp: apply_user_transaction_def Let_def split: sum.splits option.splits prod.splits if_splits)


section \<open>Properties of user transactions\<close>

text \<open>Coins that leave the ledger beside the fee: the amount of every kind that neither delivers it to
  a recipient nor stakes it.\<close>
definition lost_amount :: "transaction \<Rightarrow> nat" where
  "lost_amount tx = (if delivers tx \<or> is_stake tx then 0 else unat (tx_amount tx))"

text \<open>The accounting of one transaction, shared by the properties of transactions and of blocks.\<close>
lemma native_tx_wealth:
  assumes "apply_user_transaction X L tx h ud el ms b = (Inr g, L')" "\<not> is_evm tx"
    and "finite (dom (lg_accounts L))" "total wealth (lg_accounts L) < 2 ^ 64 - 1"
  shows "\<exists>price. effective_gas_price tx b = Some price \<and> g \<le> effective_gas_limit tx \<and>
    total wealth (lg_accounts L') + unat g * unat price + lost_amount tx = total wealth (lg_accounts L)
    \<and> finite (dom (lg_accounts L'))"
proof -
  let ?A = "lg_accounts L" and ?W = "total wealth (lg_accounts L)"
  obtain s L2 rc where c: "charge_sender tx (account_of ?A (tx_from tx)) h ud el ms = (None, s)"
    and e: "execute_kind X (L\<lparr>lg_accounts := ?A(tx_from tx \<mapsto> s)\<rparr>) tx h el ms b = Inr (g, rc, L2)"
    and f: "settle_fees X L2 tx g rc b = (Inr g, L')"
    using apply_user_transaction_ok [OF assms(1)] by metis
  have small: "wealth (account_of ?A (tx_from tx)) < 2 ^ 64 - 1"
    using account_wealth_le [OF assms(3), of "tx_from tx"] assms(4) by linarith
  have "total wealth (?A(tx_from tx \<mapsto> s)) + debited tx = ?W"
    using total_set_account [OF assms(3), of "tx_from tx" s] charge_sender_wealth(1) [OF c small] by linarith
  then have w1: "total wealth (?A(tx_from tx \<mapsto> s)) + unat (total_fee_cap tx)
      + (if is_stake tx then 0 else unat (tx_amount tx)) = ?W" by (simp add: debited_def)
  have stake: "is_stake tx \<Longrightarrow> \<not> delivers tx" by (simp add: is_stake_def delivers_def)
  have acc: "lg_accounts L2 = (if delivers tx then credit (?A(tx_from tx \<mapsto> s)) (tx_to tx) (tx_amount tx) else ?A(tx_from tx \<mapsto> s))"
    using execute_kind_accounts [OF e assms(2)] by simp
  have "total wealth (lg_accounts L2) = total wealth (?A(tx_from tx \<mapsto> s)) + (if delivers tx then unat (tx_amount tx) else 0)"
    unfolding acc using w1 assms(3,4) stake by (auto intro!: total_credit split: if_splits)
  then have w2: "total wealth (lg_accounts L2) + unat (total_fee_cap tx) + lost_amount tx = ?W"
    using w1 stake by (auto simp: lost_amount_def split: if_splits)
  obtain price where p: "effective_gas_price tx b = Some price"
    and a: "lg_accounts L' = credit (lg_accounts L2) (tx_from tx) (sat_sub (total_fee_cap tx) (sat_mul g price))"
    using settle_fees_accounts(2) [OF f] by blast
  have gas: "g \<le> effective_gas_limit tx" by (rule execute_kind_gas [OF e assms(2)])
  have fee: "unat g * unat price \<le> unat (total_fee_cap tx)"
    using fee_within_cap [OF p gas] charge_sender_wealth(2) [OF c small] by linarith
  have r: "unat (sat_sub (total_fee_cap tx) (sat_mul g price)) = unat (total_fee_cap tx) - unat g * unat price"
    using fee unat_lt_u64 [of "total_fee_cap tx"] by (simp add: unat_sat_sub unat_sat_mul)
  have "total wealth (lg_accounts L') = total wealth (lg_accounts L2) + (unat (total_fee_cap tx) - unat g * unat price)"
    unfolding a r [symmetric] using w2 r assms(3,4) acc by (intro total_credit) auto
  then show ?thesis using p gas w2 fee acc assms(3) a by (auto simp: unat_lt_u64)
qed

text \<open>A price splits into the burned base fee and the priority fee the proposer collects.\<close>
lemma fee_split:
  assumes "effective_gas_price tx b = Some price" "unat g * unat price < 2 ^ 64"
  shows "unat g * unat price = unat g * unat b + unat (priority_fee_for_transaction tx g b)"
proof -
  have "b \<le> price" using effective_gas_price_bounds [OF assms(1)] by simp
  then have p: "unat (sat_sub price b) = unat price - unat b" "unat b \<le> unat price"
    by (simp_all add: unat_sat_sub word_le_nat_alt)
  have "(unat price - unat b) * unat g \<le> unat g * unat price" by (simp add: mult.commute)
  then have "min ((unat price - unat b) * unat g) (2 ^ 64 - 1) = (unat price - unat b) * unat g"
    using assms(2) by (intro min_absorb1) linarith
  then have "unat (priority_fee_for_transaction tx g b) = (unat price - unat b) * unat g"
    using assms by (simp add: priority_fee_for_transaction_def priority_fee_per_gas_def unat_sat_mul p(1))
  then show ?thesis using p(2) by (simp add: mult.commute diff_mult_distrib2 add_increasing)
qed

text \<open>C13. Exact accounting of a native transaction. When a transaction of a native kind is accepted, the
  total wealth of the ledger (liquid, staked and unlocking coins of all accounts) drops by exactly the fee
  \<open>gas * effective price\<close>, plus the amount for the kinds that neither deliver nor stake it (contract
  deployment, token and governance kinds, and unstaking, which debits the liquid balance as well);
  the gas stays within the limit the sender agreed to pay for.\<close>
theorem native_tx_accounting:
  assumes "apply_user_transaction X L tx h ud el ms b = (Inr g, L')" "\<not> is_evm tx"
    and "finite (dom (lg_accounts L))" "total wealth (lg_accounts L) < 2 ^ 64 - 1"
  shows "\<exists>price. effective_gas_price tx b = Some price \<and> g \<le> effective_gas_limit tx \<and>
    total wealth (lg_accounts L') + unat g * unat price + lost_amount tx = total wealth (lg_accounts L)"
  using native_tx_wealth [OF assms] by blast

text \<open>C14. No replay. An accepted native transaction carried exactly the sender's nonce and leaves the sender's
  nonce one higher, no other account's nonce changes, and executing the same transaction again on
  the resulting ledger, at any height, base fee and parameters, is refused.\<close>
theorem native_tx_not_replayable:
  assumes "apply_user_transaction X L tx h ud el ms b = (Inr g, L')" "\<not> is_evm tx"
  shows "acc_nonce (account_of (lg_accounts L) (tx_from tx)) = tx_nonce tx
    \<and> acc_nonce (account_of (lg_accounts L') (tx_from tx)) = tx_nonce tx + 1
    \<and> (\<forall>a. a \<noteq> tx_from tx \<longrightarrow> acc_nonce (account_of (lg_accounts L') a) = acc_nonce (account_of (lg_accounts L) a))
    \<and> (\<forall>h' ud' el' ms' b'. \<exists>e. fst (apply_user_transaction X L' tx h' ud' el' ms' b') = Inl e)"
proof -
  obtain s L2 rc where c: "charge_sender tx (account_of (lg_accounts L) (tx_from tx)) h ud el ms = (None, s)"
    and e: "execute_kind X (L\<lparr>lg_accounts := (lg_accounts L)(tx_from tx \<mapsto> s)\<rparr>) tx h el ms b = Inr (g, rc, L2)"
    and f: "settle_fees X L2 tx g rc b = (Inr g, L')"
    using apply_user_transaction_ok [OF assms(1)] by metis
  note n = charge_sender_ok(1,2) [OF c]
  obtain v where a: "lg_accounts L' = credit (lg_accounts L2) (tx_from tx) v"
    using settle_fees_accounts(2) [OF f] by blast
  have keep: "acc_nonce (account_of (credit A k v) x) = acc_nonce (account_of A x)" for A k v x
    by (simp add: account_of_credit)
  have nonces: "acc_nonce (account_of (lg_accounts L') x) =
      (if x = tx_from tx then tx_nonce tx + 1 else acc_nonce (account_of (lg_accounts L) x))" for x
    using execute_kind_accounts [OF e assms(2)] by (simp add: a keep n)
  have "\<exists>er. fst (apply_user_transaction X L' tx h' ud' el' ms' b') = Inl er" for h' ud' el' ms' b'
  proof (rule ccontr)
    assume "\<not> ?thesis"
    then obtain g' L'' where "apply_user_transaction X L' tx h' ud' el' ms' b' = (Inr g', L'')"
      by (metis prod.collapse obj_sumE)
    then obtain s' where "charge_sender tx (account_of (lg_accounts L') (tx_from tx)) h' ud' el' ms' = (None, s')"
      using apply_user_transaction_ok by metis
    then show False using charge_sender_ok(1) nonces [of "tx_from tx"] by fastforce
  qed
  then show ?thesis using n nonces by simp
qed


subsection \<open>A concrete transfer\<close>

definition demo_pk :: bytes where "demo_pk = replicate 2592 1"

definition demo_sender :: bytes where "demo_sender = address_bytes_from_public_key demo_externs demo_pk"

definition demo_signed :: "transaction \<Rightarrow> transaction" where
  "demo_signed tx = tx\<lparr>tx_signature := Some (demo_sign (replicate 32 1) (signable_bytes demo_externs tx))\<rparr>"

definition demo_transfer :: transaction where
  "demo_transfer = demo_signed (tx_new demo_externs 0 ''c'' demo_pk (replicate 20 7) 5 1 0)"

definition demo_ledger :: ledger where
  "demo_ledger = \<lparr>lg_accounts = [demo_sender \<mapsto> default_account\<lparr>acc_balance := 1000000, acc_staked_balance := 50, acc_public_key := Some demo_pk\<rparr>], lg_contracts = Map.empty,
     lg_receipts = Map.empty, lg_tokens = token_registry_new, lg_governance = governance_new\<rparr>"

lemma length_demo_sender [simp]: "length demo_sender = 20" "length (address_bytes_from_public_key demo_externs pk) = 20"
  by (simp_all add: demo_sender_def address_bytes_from_public_key_def sha3_hash_domain_def ADDRESS_LEN_def)

lemma demo_signed_verifies:
  assumes "tx_sender_public_key tx = demo_pk" "tx_from tx = demo_sender" "\<not> is_evm tx"
  shows "tx_verify_signature demo_externs (demo_signed tx)"
proof -
  have "take 32 demo_pk = replicate 32 1" "length demo_pk = 2592" by (simp_all add: demo_pk_def)
  then show ?thesis
    using assms by (simp add: tx_verify_signature_def demo_signed_def kind_defs dilithium_verify_def demo_sender_def
        MLDSA_PK_LEN_def MLDSA_SIG_LEN_def signable_bytes_def max_fee_per_gas_def max_priority_fee_per_gas_def)
qed

lemma demo_transfer_fields [simp]:
  "tx_kind demo_transfer = Transfer" "tx_from demo_transfer = demo_sender" "tx_to demo_transfer = replicate 20 7"
  "tx_amount demo_transfer = 5" "tx_nonce demo_transfer = 0" "tx_fee demo_transfer = 1"
  "tx_max_fee_per_gas demo_transfer = 1" "tx_max_priority_fee_per_gas demo_transfer = 1"
  "tx_sender_public_key demo_transfer = demo_pk" "tx_chain_id demo_transfer = ''c''" "tx_data demo_transfer = []"
  "tx_gas_limit demo_transfer = 0"
  by (simp_all add: demo_transfer_def demo_signed_def tx_new_def native_tx_def demo_sender_def)

lemma demo_transfer_applies:
  "fst (apply_user_transaction demo_externs demo_ledger demo_transfer 1 10 4 100 1) = Inr 21000"
proof -
  have "tx_verify_signature demo_externs demo_transfer"
    unfolding demo_transfer_def
    by (rule demo_signed_verifies) (simp_all add: tx_new_def native_tx_def demo_sender_def is_evm_def)
  moreover have "validate_transaction_shape demo_transfer = Inr ()"
    by (simp add: validate_transaction_shape_def is_coinbase_def max_fee_per_gas_def max_priority_fee_per_gas_def ADDRESS_LEN_def)
  moreover have "max_fee_per_gas demo_transfer = 1" "max_priority_fee_per_gas demo_transfer = 1"
    by (simp_all add: max_fee_per_gas_def max_priority_fee_per_gas_def)
  moreover from this have "total_fee_cap demo_transfer = 21000"
    by (simp add: total_fee_cap_def effective_gas_limit_def estimated_gas_for_admission_def intrinsic_gas_def kind_gas_def
        payload_bytes_def len64_def gas_defs sat_add_def sat_mul_def)
  moreover have "tx_from demo_transfer = address_bytes_from_public_key demo_externs demo_pk" by (simp add: demo_sender_def)
  ultimately show ?thesis
    by (simp add: apply_user_transaction_def charge_sender_def demo_ledger_def kind_defs default_account_def sat_add_def
        execute_kind_def settle_fees_def ensure_transaction_fee_covers_base_def effective_gas_price_def GAS_BASE_TX_def
        sat_mul_def sat_sub_def)
qed

lemma demo_ledger_accounts: "finite (dom (lg_accounts demo_ledger))" "total wealth (lg_accounts demo_ledger) = 1000050"
  by (simp_all add: demo_ledger_def total_def wealth_def default_account_def)

theorem native_tx_accounting_witness:
  "\<exists>L'. apply_user_transaction demo_externs demo_ledger demo_transfer 1 10 4 100 1 = (Inr 21000, L')
     \<and> total wealth (lg_accounts L') = 1000050 - 21000"
proof -
  obtain L' where L': "apply_user_transaction demo_externs demo_ledger demo_transfer 1 10 4 100 1 = (Inr 21000, L')"
    using demo_transfer_applies by (metis prod.collapse)
  have "\<not> is_evm demo_transfer" "lost_amount demo_transfer = 0" "effective_gas_price demo_transfer 1 = Some 1"
    by (simp_all add: is_evm_def lost_amount_def delivers_def effective_gas_price_def max_fee_per_gas_def sat_sub_def)
  then have "total wealth (lg_accounts L') + 21000 = 1000050"
    using native_tx_accounting [OF L'] demo_ledger_accounts by simp
  then show ?thesis using L' by simp
qed

theorem native_tx_not_replayable_witness:
  "\<exists>L'. apply_user_transaction demo_externs demo_ledger demo_transfer 1 10 4 100 1 = (Inr 21000, L')
     \<and> acc_nonce (account_of (lg_accounts L') demo_sender) = 1
     \<and> (\<exists>e. fst (apply_user_transaction demo_externs L' demo_transfer 2 10 4 100 1) = Inl e)"
proof -
  obtain L' where L': "apply_user_transaction demo_externs demo_ledger demo_transfer 1 10 4 100 1 = (Inr 21000, L')"
    using demo_transfer_applies by (metis prod.collapse)
  have "\<not> is_evm demo_transfer" by (simp add: is_evm_def)
  then show ?thesis using native_tx_not_replayable [OF L'] L' by simp
qed


section \<open>Unstake unlocks\<close>

abbreviation pending_sum :: "pending_unstake list \<Rightarrow> nat" where
  "pending_sum ps \<equiv> sum_list (map (unat \<circ> pu_amount) ps)"

lemma unat_of_nat_id: "of_nat (unat w) = w" for w :: "'a::len word"
  by simp

lemma unat_released:
  "unat acc + pending_sum ps < 2 ^ 64 \<Longrightarrow>
     unat (fold (\<lambda>p acc. if pu_unlock_height p \<le> h then sat_add acc (pu_amount p) else acc) ps acc)
       = unat acc + pending_sum (filter (\<lambda>p. pu_unlock_height p \<le> h) ps)"
  by (induction ps arbitrary: acc) (auto simp: unat_sat_add)

lemma pending_sum_split:
  "pending_sum ps = pending_sum (filter P ps) + pending_sum (filter (\<lambda>p. \<not> P p) ps)"
  by (induction ps) auto

text \<open>On an account whose wealth fits, \<open>unlock_account\<close> moves the matured entries to the balance.\<close>
lemma unlock_account_exact:
  assumes "wealth a < 2 ^ 64"
  shows "acc_pending_unstakes (unlock_account h a) = filter (\<lambda>p. h < pu_unlock_height p) (acc_pending_unstakes a)"
    and "unat (acc_balance (unlock_account h a))
      = unat (acc_balance a) + pending_sum (filter (\<lambda>p. pu_unlock_height p \<le> h) (acc_pending_unstakes a))"
    and "acc_balance (unlock_account h a) = acc_balance a + of_nat (pending_sum (filter (\<lambda>p. pu_unlock_height p \<le> h) (acc_pending_unstakes a)))"
    and "wealth (unlock_account h a) = wealth a"
proof -
  let ?ps = "acc_pending_unstakes a"
  have "pending_sum ?ps < 2 ^ 64" using assms by (simp add: wealth_def)
  then have r: "unat (fold (\<lambda>p acc. if pu_unlock_height p \<le> h then sat_add acc (pu_amount p) else acc) ?ps 0)
      = pending_sum (filter (\<lambda>p. pu_unlock_height p \<le> h) ?ps)"
    using unat_released [of 0 ?ps h] by simp
  show p: "acc_pending_unstakes (unlock_account h a) = filter (\<lambda>p. h < pu_unlock_height p) ?ps"
    by (simp add: unlock_account_def Let_def linorder_not_le)
  show b: "unat (acc_balance (unlock_account h a)) = unat (acc_balance a) + pending_sum (filter (\<lambda>p. pu_unlock_height p \<le> h) ?ps)"
    using r assms pending_sum_split [of ?ps "\<lambda>p. pu_unlock_height p \<le> h"]
    by (simp add: unlock_account_def Let_def unat_sat_add wealth_def)
  show "acc_balance (unlock_account h a) = acc_balance a + of_nat (pending_sum (filter (\<lambda>p. pu_unlock_height p \<le> h) ?ps))"
    using arg_cong [OF b, of "of_nat :: nat \<Rightarrow> u64"] by (simp only: of_nat_add unat_of_nat_id)
  show "wealth (unlock_account h a) = wealth a"
    using b p pending_sum_split [of ?ps "\<lambda>p. pu_unlock_height p \<le> h"]
    by (simp add: wealth_def linorder_not_le) (simp add: unlock_account_def Let_def)
qed

lemma pending_sum_stages:
  "pending_sum (filter (\<lambda>p. pu_unlock_height p \<le> h) ps) + pending_sum (filter (\<lambda>p. h < pu_unlock_height p \<and> pu_unlock_height p \<le> h') ps)
     = pending_sum (filter (\<lambda>p. pu_unlock_height p \<le> max h h') ps)"
  by (induction ps) (auto simp: max_def)

lemma unlock_account_compose:
  assumes "wealth a < 2 ^ 64"
  shows "unlock_account h' (unlock_account h a) = unlock_account (max h h') a"
proof -
  let ?u = "unlock_account h a"
  have w: "wealth ?u < 2 ^ 64" using unlock_account_exact(4) [OF assms] assms by simp
  have "acc_balance (unlock_account h' ?u) = acc_balance (unlock_account (max h h') a)"
    unfolding unlock_account_exact(3) [OF w] unlock_account_exact(3) [OF assms] unlock_account_exact(1) [OF assms] filter_filter
      pending_sum_stages [symmetric]
    by (simp add: conj_commute)
  moreover have "acc_pending_unstakes (unlock_account h' ?u) = acc_pending_unstakes (unlock_account (max h h') a)"
    by (simp add: unlock_account_exact(1) [OF w] unlock_account_exact(1) [OF assms] conj_commute)
  ultimately show ?thesis by (simp add: unlock_account_def Let_def)
qed

lemma dom_unlocks [simp]: "dom (apply_unstake_unlocks accs h) = dom accs"
  by (auto simp: apply_unstake_unlocks_def dom_def)

lemma unlocks_wealth:
  assumes "finite (dom accs)" "total wealth accs < 2 ^ 64"
  shows "total wealth (apply_unstake_unlocks accs h) = total wealth accs"
proof -
  have "wealth a < 2 ^ 64" if "accs k = Some a" for k a
    using total_ge [OF assms(1) that, of wealth] assms(2) by simp
  then show ?thesis
    unfolding total_def by (auto intro!: sum.cong simp: apply_unstake_unlocks_def unlock_account_exact(4))
qed

text \<open>Unbonding delivers every coin exactly once. As long as the supply fits, \<open>apply_unstake_unlocks\<close> keeps the
  total wealth, leaves only entries that unlock strictly later, credits each account the sum of its matured
  entries, and running it for a second height is the same as running it once for the later of the two:
  no block order or repetition releases a coin twice or early.\<close>
theorem unstake_unlocks_exact:
  assumes "finite (dom accs)" "total wealth accs < 2 ^ 64"
  shows "total wealth (apply_unstake_unlocks accs h) = total wealth accs
    \<and> apply_unstake_unlocks (apply_unstake_unlocks accs h) h' = apply_unstake_unlocks accs (max h h')
    \<and> (\<forall>k a. accs k = Some a \<longrightarrow> (\<exists>a'. apply_unstake_unlocks accs h k = Some a'
      \<and> (\<forall>p \<in> set (acc_pending_unstakes a'). h < pu_unlock_height p)
      \<and> unat (acc_balance a') = unat (acc_balance a)
          + pending_sum (filter (\<lambda>p. pu_unlock_height p \<le> h) (acc_pending_unstakes a))))"
proof (intro conjI allI impI)
  have small: "wealth a < 2 ^ 64" if "accs k = Some a" for k a
    using total_ge [OF assms(1) that, of wealth] assms(2) by simp
  show "total wealth (apply_unstake_unlocks accs h) = total wealth accs" by (rule unlocks_wealth [OF assms])
  show "apply_unstake_unlocks (apply_unstake_unlocks accs h) h' = apply_unstake_unlocks accs (max h h')"
  proof
    fix k
    show "apply_unstake_unlocks (apply_unstake_unlocks accs h) h' k = apply_unstake_unlocks accs (max h h') k"
      using unlock_account_compose [OF small] by (cases "accs k") (simp_all add: apply_unstake_unlocks_def)
  qed
  fix k a
  assume "accs k = Some a"
  then show "\<exists>a'. apply_unstake_unlocks accs h k = Some a'
      \<and> (\<forall>p \<in> set (acc_pending_unstakes a'). h < pu_unlock_height p)
      \<and> unat (acc_balance a') = unat (acc_balance a)
          + pending_sum (filter (\<lambda>p. pu_unlock_height p \<le> h) (acc_pending_unstakes a))"
    using unlock_account_exact(1,2) [OF small] by (auto simp: apply_unstake_unlocks_def)
qed

definition demo_unbonding :: account_state where
  "demo_unbonding = default_account\<lparr>acc_balance := 3, acc_pending_unstakes :=
     [\<lparr>pu_amount = 4, pu_unlock_height = 9\<rparr>, \<lparr>pu_amount = 6, pu_unlock_height = 12\<rparr>]\<rparr>"

theorem unstake_unlocks_exact_witness:
  "\<exists>a'. apply_unstake_unlocks [[1] \<mapsto> demo_unbonding] 10 [1] = Some a' \<and> unat (acc_balance a') = 7"
proof -
  have "finite (dom [[1 :: u8] \<mapsto> demo_unbonding])" "total wealth [[1 :: u8] \<mapsto> demo_unbonding] < 2 ^ 64"
    by (simp_all add: total_def wealth_def demo_unbonding_def default_account_def)
  from unstake_unlocks_exact [OF this, of 10 0] have "\<exists>a'. apply_unstake_unlocks [[1] \<mapsto> demo_unbonding] 10 [1] = Some a'
      \<and> unat (acc_balance a') = unat (acc_balance demo_unbonding)
          + pending_sum (filter (\<lambda>p. pu_unlock_height p \<le> 10) (acc_pending_unstakes demo_unbonding))"
    by (metis fun_upd_same)
  then show ?thesis by (simp add: demo_unbonding_def)
qed

end
