(* ===== verification/State_Root.thy ===== *)
theory State_Root
  imports Blocks
begin

text \<open>
  The state commitment: the sparse Merkle trie (\<^verbatim>\<open>src/src/trie/mod.rs\<close>), the two state-root schemes
  (\<^verbatim>\<open>src/src/core/state_root.rs\<close>) and the inclusion proofs served to light clients
  (\<^verbatim>\<open>src/src/core/state_proof.rs\<close>). A trie insertion asserts that its key has 32 bytes; the panic is
  the value \<open>None\<close>. The level-by-level computation of the trie root is shown to equal the recursive
  definition of a sparse Merkle tree.
\<close>

unbundle bit_operations_syntax

section \<open>The sparse Merkle trie\<close>

definition TRIE_DEPTH :: nat where "TRIE_DEPTH = 256"

definition empty_hash :: "externs \<Rightarrow> bytes" where
  "empty_hash X = sha3_hash X (ascii ''curs3d-smt-empty'')"

definition hash_children :: "externs \<Rightarrow> bytes \<Rightarrow> bytes \<Rightarrow> bytes" where
  "hash_children X left right = sha3_hash_domain X (ascii ''curs3d-smt-node'') [left, right]"

definition hash_leaf :: "externs \<Rightarrow> bytes \<Rightarrow> bytes \<Rightarrow> bytes" where
  "hash_leaf X key value = sha3_hash_domain X (ascii ''curs3d-smt-leaf'') [key, value]"

definition get_bit :: "bytes \<Rightarrow> nat \<Rightarrow> bool" where
  "get_bit key depth =
     (if depth \<ge> TRIE_DEPTH \<or> depth div 8 \<ge> length key then False
      else (drop_bit (7 - depth mod 8) (key ! (depth div 8))) AND 1 = 1)"

definition clear_key_bit :: "bytes \<Rightarrow> nat \<Rightarrow> bytes" where
  "clear_key_bit key depth =
     key[depth div 8 := (key ! (depth div 8)) AND NOT (push_bit (7 - depth mod 8) 1)]"

definition set_key_bit :: "bytes \<Rightarrow> nat \<Rightarrow> bytes" where
  "set_key_bit key depth =
     key[depth div 8 := (key ! (depth div 8)) OR push_bit (7 - depth mod 8) 1]"

record sparse_merkle_trie =
  smt_leaves :: "bytes \<rightharpoonup> bytes"
  smt_cached_root :: "bytes option"

definition smt_new :: sparse_merkle_trie where
  "smt_new = \<lparr>smt_leaves = Map.empty, smt_cached_root = None\<rparr>"

definition smt_insert :: "sparse_merkle_trie \<Rightarrow> bytes \<Rightarrow> bytes \<Rightarrow> sparse_merkle_trie option" where
  "smt_insert t key value =
     (if length key \<noteq> 32 then None
      else Some \<lparr>smt_leaves = (if value = [] then (smt_leaves t)(key := None) else (smt_leaves t)(key \<mapsto> value)),
                 smt_cached_root = None\<rparr>)"

definition smt_remove :: "sparse_merkle_trie \<Rightarrow> bytes \<Rightarrow> sparse_merkle_trie" where
  "smt_remove t key = \<lparr>smt_leaves = (smt_leaves t)(key := None), smt_cached_root = None\<rparr>"

definition smt_get :: "sparse_merkle_trie \<Rightarrow> bytes \<Rightarrow> bytes option" where
  "smt_get t key = smt_leaves t key"

text \<open>One node of a level joins the entry of its parent; the grouping of a whole level; the level above.\<close>
definition smt_group :: "nat \<Rightarrow> bytes \<times> bytes \<Rightarrow> (bytes \<rightharpoonup> bytes option \<times> bytes option) \<Rightarrow>
    bytes \<rightharpoonup> bytes option \<times> bytes option" where
  "smt_group depth node parents =
     (let (key, node_hash) = node; parent_key = clear_key_bit key depth; entry = get_or (None, None) parents parent_key
      in parents(parent_key \<mapsto> (if get_bit key depth then (fst entry, Some node_hash)
                                     else (Some node_hash, snd entry))))"

definition smt_parents :: "nat \<Rightarrow> (bytes \<rightharpoonup> bytes) \<Rightarrow> bytes \<rightharpoonup> bytes option \<times> bytes option" where
  "smt_parents depth current_level = fold (smt_group depth) (entries current_level) Map.empty"

definition smt_level :: "externs \<Rightarrow> nat \<Rightarrow> (bytes \<rightharpoonup> bytes) \<Rightarrow> bytes \<rightharpoonup> bytes" where
  "smt_level X depth current_level = (\<lambda>parent_key.
     map_option (\<lambda>(left, right). hash_children X
         (case left of None \<Rightarrow> empty_hash X | Some h \<Rightarrow> h) (case right of None \<Rightarrow> empty_hash X | Some h \<Rightarrow> h))
       (smt_parents depth current_level parent_key))"

definition smt_compute_root :: "externs \<Rightarrow> sparse_merkle_trie \<Rightarrow> bytes" where
  "smt_compute_root X t =
     (if smt_leaves t = Map.empty then empty_hash X
      else let nodes = (\<lambda>key. map_option (hash_leaf X key) (smt_leaves t key));
               top = fold (smt_level X) (rev [0..<TRIE_DEPTH]) nodes
           in case entries top of [] \<Rightarrow> empty_hash X | (_, h) # _ \<Rightarrow> h)"

definition smt_root :: "externs \<Rightarrow> sparse_merkle_trie \<Rightarrow> bytes \<times> sparse_merkle_trie" where
  "smt_root X t = (case smt_cached_root t of
     Some cached \<Rightarrow> (cached, t)
   | None \<Rightarrow> let root = smt_compute_root X t in (root, t\<lparr>smt_cached_root := Some root\<rparr>))"

record smt_proof =
  sp_key :: bytes
  sp_value :: "bytes option"
  sp_siblings :: "bytes list"
  sp_root :: bytes

text \<open>A key of fewer than three bytes panics on the index \<open>sibling_key[byte_index]\<close>.\<close>
definition smt_prove :: "externs \<Rightarrow> sparse_merkle_trie \<Rightarrow> bytes \<Rightarrow> (smt_proof \<times> sparse_merkle_trie) option" where
  "smt_prove X t key =
     (if length key < 3 then None else
      let sibling = (\<lambda>depth.
            let sibling_key = (if \<not> get_bit key depth then set_key_bit key depth else clear_key_bit key depth)
            in case smt_leaves t sibling_key of
                 Some v \<Rightarrow> hash_leaf X sibling_key v
               | None \<Rightarrow> empty_hash X);
          (root, t') = smt_root X t
      in Some (\<lparr>sp_key = key, sp_value = smt_leaves t key, sp_siblings = map sibling [0..<min 20 TRIE_DEPTH],
           sp_root = root\<rparr>, t'))"

definition smt_verify :: "externs \<Rightarrow> smt_proof \<Rightarrow> bytes \<Rightarrow> bool" where
  "smt_verify X p expected_root =
     (if sp_root p \<noteq> expected_root then False
      else let leaf = (case sp_value p of Some v \<Rightarrow> hash_leaf X (sp_key p) v | None \<Rightarrow> empty_hash X);
               current = fold (\<lambda>(depth, sibling) c. if get_bit (sp_key p) depth then hash_children X sibling c
                                                    else hash_children X c sibling)
                 (List.enumerate 0 (sp_siblings p)) leaf
           in current \<noteq> [])"

section \<open>State roots\<close>

definition V6_PROTOCOL_VERSION :: u32 where "V6_PROTOCOL_VERSION = 6"

definition account_leaf_hash :: "externs \<Rightarrow> bytes \<Rightarrow> account_state \<Rightarrow> bytes" where
  "account_leaf_hash X address state = sha3_hash X (x_bin_account_leaf X address state)"

definition storage_leaf_hashes :: "externs \<Rightarrow> (bytes \<rightharpoonup> bytes) \<Rightarrow> bytes list" where
  "storage_leaf_hashes X storage = map (\<lambda>(k, v). sha3_hash X (x_bin_storage_leaf X k v)) (entries storage)"

definition contract_storage_root :: "externs \<Rightarrow> contract_state \<Rightarrow> bytes" where
  "contract_storage_root X c = merkle_root X (storage_leaf_hashes X (con_storage c))"

definition contract_code_hash :: "externs \<Rightarrow> contract_state \<Rightarrow> bytes" where
  "contract_code_hash X c = (if con_code_hash c = [] then sha3_hash X (con_code c) else con_code_hash c)"

definition contract_leaf_hash :: "externs \<Rightarrow> bytes \<Rightarrow> contract_state \<Rightarrow> bytes" where
  "contract_leaf_hash X address c =
     sha3_hash X (x_bin_contract_leaf X address (contract_code_hash X c) (con_owner c) (contract_storage_root X c))"

definition state_leaf_hashes :: "externs \<Rightarrow> accounts \<Rightarrow> contracts \<Rightarrow> bytes list" where
  "state_leaf_hashes X accs cons =
     map (\<lambda>(a, s). account_leaf_hash X a s) (entries accs) @ map (\<lambda>(a, c). contract_leaf_hash X a c) (entries cons)"

definition compute_v5_merkle :: "externs \<Rightarrow> accounts \<Rightarrow> contracts \<Rightarrow> bytes" where
  "compute_v5_merkle X accs cons =
     (if accs = Map.empty \<and> cons = Map.empty then sha3_hash X EMPTY_STATE_ROOT_SEED
      else merkle_root X (state_leaf_hashes X accs cons))"

definition insert_leaf :: "externs \<Rightarrow> bytes \<times> bytes \<Rightarrow> sparse_merkle_trie option \<Rightarrow> sparse_merkle_trie option" where
  "insert_leaf X kv t = Option.bind t (\<lambda>t. smt_insert t (sha3_hash X (fst kv)) (snd kv))"

definition compute_v6_smt :: "externs \<Rightarrow> accounts \<Rightarrow> contracts \<Rightarrow> bytes option" where
  "compute_v6_smt X accs cons =
     (let t1 = fold (insert_leaf X) (map (\<lambda>(a, s). (0 # a, account_leaf_hash X a s)) (entries accs)) (Some smt_new);
          t2 = fold (insert_leaf X) (map (\<lambda>(a, c). (1 # a, contract_leaf_hash X a c)) (entries cons)) t1
      in map_option (fst \<circ> smt_root X) t2)"

definition compute_full :: "externs \<Rightarrow> accounts \<Rightarrow> contracts \<Rightarrow> bytes" where
  "compute_full X accs cons = compute_v5_merkle X accs cons"

definition compute_at_protocol :: "externs \<Rightarrow> accounts \<Rightarrow> contracts \<Rightarrow> u32 \<Rightarrow> bytes option" where
  "compute_at_protocol X accs cons protocol_version =
     (if protocol_version \<ge> V6_PROTOCOL_VERSION then compute_v6_smt X accs cons
      else Some (compute_v5_merkle X accs cons))"

section \<open>Inclusion proofs\<close>

record account_proof =
  ap_address :: bytes
  ap_state :: account_state
  ap_leaf_index :: nat
  ap_leaf_hash :: bytes
  ap_proof :: "bytes list"
  ap_state_root :: bytes

record storage_proof =
  stp_contract_address :: bytes
  stp_contract_code_hash :: bytes
  stp_contract_owner :: bytes
  stp_key :: bytes
  stp_value :: bytes
  stp_storage_leaf_index :: nat
  stp_storage_leaf_hash :: bytes
  stp_storage_proof :: "bytes list"
  stp_storage_root :: bytes
  stp_contract_leaf_index :: nat
  stp_contract_leaf_hash :: bytes
  stp_contract_proof :: "bytes list"
  stp_state_root :: bytes

text \<open>\<open>entries.iter().position(|(k, _)| k == key)\<close>.\<close>
definition position_of :: "bytes \<Rightarrow> (bytes \<rightharpoonup> 'v) \<Rightarrow> nat option" where
  "position_of key m =
     (let i = length (takeWhile (\<lambda>k. k \<noteq> key) (keys m)) in if i < length (keys m) then Some i else None)"

definition generate_account_proof :: "externs \<Rightarrow> bytes \<Rightarrow> accounts \<Rightarrow> contracts \<Rightarrow> account_proof option" where
  "generate_account_proof X address accs cons =
     (case accs address of
        None \<Rightarrow> None
      | Some state \<Rightarrow>
          (case position_of address accs of
             None \<Rightarrow> None
           | Some account_index \<Rightarrow>
               Some \<lparr>ap_address = address, ap_state = state, ap_leaf_index = account_index,
                 ap_leaf_hash = account_leaf_hash X address state,
                 ap_proof = merkle_proof X (state_leaf_hashes X accs cons) account_index,
                 ap_state_root = compute_full X accs cons\<rparr>))"

definition verify_account_proof :: "externs \<Rightarrow> account_proof \<Rightarrow> bool" where
  "verify_account_proof X p \<longleftrightarrow>
     account_leaf_hash X (ap_address p) (ap_state p) = ap_leaf_hash p \<and>
     verify_merkle_proof X (ap_leaf_hash p) (ap_proof p) (ap_leaf_index p) (ap_state_root p)"

definition generate_storage_proof :: "externs \<Rightarrow> bytes \<Rightarrow> bytes \<Rightarrow> accounts \<Rightarrow> contracts \<Rightarrow> storage_proof option" where
  "generate_storage_proof X address key accs cons =
     (case cons address of
        None \<Rightarrow> None
      | Some c \<Rightarrow>
     (case con_storage c key of
        None \<Rightarrow> None
      | Some value \<Rightarrow>
     (case position_of address cons of
        None \<Rightarrow> None
      | Some contract_position \<Rightarrow>
     (case position_of key (con_storage c) of
        None \<Rightarrow> None
      | Some storage_position \<Rightarrow>
          let storage_leaves = storage_leaf_hashes X (con_storage c);
              contract_index = length (entries accs) + contract_position
          in Some \<lparr>stp_contract_address = address, stp_contract_code_hash = contract_code_hash X c,
               stp_contract_owner = con_owner c, stp_key = key, stp_value = value,
               stp_storage_leaf_index = storage_position,
               stp_storage_leaf_hash = storage_leaves ! storage_position,
               stp_storage_proof = merkle_proof X storage_leaves storage_position,
               stp_storage_root = merkle_root X storage_leaves,
               stp_contract_leaf_index = contract_index,
               stp_contract_leaf_hash = contract_leaf_hash X address c,
               stp_contract_proof = merkle_proof X (state_leaf_hashes X accs cons) contract_index,
               stp_state_root = compute_full X accs cons\<rparr>))))"

definition verify_storage_proof :: "externs \<Rightarrow> storage_proof \<Rightarrow> bool" where
  "verify_storage_proof X p =
     (if sha3_hash X (x_bin_storage_leaf X (stp_key p) (stp_value p)) \<noteq> stp_storage_leaf_hash p then False
      else if \<not> verify_merkle_proof X (stp_storage_leaf_hash p) (stp_storage_proof p) (stp_storage_leaf_index p)
                (stp_storage_root p) then False
      else sha3_hash X (x_bin_contract_leaf X (stp_contract_address p) (stp_contract_code_hash p)
             (stp_contract_owner p) (stp_storage_root p)) = stp_contract_leaf_hash p
        \<and> verify_merkle_proof X (stp_contract_leaf_hash p) (stp_contract_proof p) (stp_contract_leaf_index p)
             (stp_state_root p))"


section \<open>Bits of trie keys\<close>

abbreviation trie_key :: "bytes \<Rightarrow> bool" where
  "trie_key k \<equiv> length k = 32"

lemma low_bit_iff: "drop_bit n w AND 1 = 1 \<longleftrightarrow> bit w n" for w :: u8
  by (simp add: bit_iff_odd_drop_bit and_one_eq mod_2_eq_odd)

lemma get_bit_iff:
  assumes "trie_key k"
  shows "get_bit k e \<longleftrightarrow> e < 256 \<and> bit (k ! (e div 8)) (7 - e mod 8)"
proof (cases "e < 256")
  case True
  then have "e div 8 < 32" by linarith
  then show ?thesis using True assms by (simp add: get_bit_def TRIE_DEPTH_def low_bit_iff)
qed (simp add: get_bit_def TRIE_DEPTH_def)

lemma trie_key_upd [simp]: "trie_key (clear_key_bit k d) = trie_key k" "trie_key (set_key_bit k d) = trie_key k"
  by (simp_all add: clear_key_bit_def set_key_bit_def)

lemma bit_index_eq:
  assumes "7 - d mod 8 = 7 - e mod 8" "d div 8 = e div 8"
  shows "d = (e :: nat)"
proof -
  have "d mod 8 < 8" "e mod 8 < 8" by simp_all
  with assms(1) have "d mod 8 = e mod 8" by linarith
  with assms(2) show ?thesis by (metis div_mult_mod_eq)
qed

lemma bit_clear_u8: "bit (w AND NOT (push_bit n 1)) m \<longleftrightarrow> bit w m \<and> m \<noteq> n" for w :: u8
  by (auto simp: bit_simps dest: bit_imp_le_length)

lemma bit_set_u8: "n < 8 \<Longrightarrow> bit (w OR push_bit n 1) m \<longleftrightarrow> bit w m \<or> m = n" for w :: u8
  by (auto simp: bit_simps)

lemma upd_bit:
  assumes "trie_key k" "d < 256" "e < 256" "\<And>m. bit w m \<longleftrightarrow> P (m = 7 - d mod 8) (bit (k ! (d div 8)) m)" "\<And>b. P False b = b"
  shows "bit (k[d div 8 := w] ! (e div 8)) (7 - e mod 8) \<longleftrightarrow> P (e = d) (bit (k ! (e div 8)) (7 - e mod 8))"
proof (cases "e div 8 = d div 8")
  case True
  have "d div 8 < 32" using assms(2) by linarith
  then have "k[d div 8 := w] ! (e div 8) = w" using True assms(1) by simp
  moreover have "e = d \<longleftrightarrow> 7 - e mod 8 = 7 - d mod 8" using bit_index_eq [of e d] True by blast
  ultimately show ?thesis using assms(4) True by simp
next
  case False
  then have "e \<noteq> d" "k[d div 8 := w] ! (e div 8) = k ! (e div 8)" by auto
  then show ?thesis using assms(5) by simp
qed

lemma get_clear_bit:
  assumes "trie_key k" "d < 256"
  shows "get_bit (clear_key_bit k d) e \<longleftrightarrow> e \<noteq> d \<and> get_bit k e"
proof (cases "e < 256")
  case True
  let ?w = "(k ! (d div 8)) AND NOT (push_bit (7 - d mod 8) 1)"
  have "bit (k[d div 8 := ?w] ! (e div 8)) (7 - e mod 8) \<longleftrightarrow> \<not> e = d \<and> bit (k ! (e div 8)) (7 - e mod 8)"
    by (rule upd_bit [OF assms True]) (unfold bit_clear_u8, blast+)
  then show ?thesis using assms unfolding clear_key_bit_def by (simp only: get_bit_iff length_list_update True simp_thms)
qed (use assms in \<open>simp add: get_bit_iff\<close>)

lemma get_set_bit:
  assumes "trie_key k" "d < 256"
  shows "get_bit (set_key_bit k d) e \<longleftrightarrow> e = d \<or> get_bit k e"
proof (cases "e < 256")
  case True
  let ?w = "(k ! (d div 8)) OR push_bit (7 - d mod 8) 1"
  have "7 - d mod 8 < 8" by simp
  then have "bit ?w m \<longleftrightarrow> m = 7 - d mod 8 \<or> bit (k ! (d div 8)) m" for m using bit_set_u8 by blast
  then have "bit (k[d div 8 := ?w] ! (e div 8)) (7 - e mod 8) \<longleftrightarrow> e = d \<or> bit (k ! (e div 8)) (7 - e mod 8)"
    by (rule upd_bit [OF assms True]) simp
  then show ?thesis using assms unfolding set_key_bit_def by (simp only: get_bit_iff length_list_update True simp_thms)
qed (use assms in \<open>auto simp: get_bit_iff\<close>)

lemma trie_key_eqI:
  assumes "trie_key a" "trie_key b" "\<And>e. e < 256 \<Longrightarrow> get_bit a e = get_bit b e"
  shows "a = b"
proof (rule nth_equalityI)
  fix i assume i: "i < length a"
  show "a ! i = b ! i"
  proof (rule bit_word_eqI)
    fix n assume n: "n < LENGTH(8)"
    define j where "j = 7 - n"
    define e where "e = 8 * i + j"
    have j: "j < 8" "7 - j = n" using n by (simp_all add: j_def)
    then have "e div 8 = i" "e mod 8 = j" "e < 256" using i assms(1) by (simp_all add: e_def)
    then show "bit (a ! i) n = bit (b ! i) n"
      using assms(3) [of e] get_bit_iff [OF assms(1), of e] get_bit_iff [OF assms(2), of e] j(2) by simp
  qed
qed (simp add: assms)

lemmas bit_facts = get_clear_bit get_set_bit

lemma clear_eq_iff:
  assumes "trie_key k" "trie_key p" "d < 256"
  shows "clear_key_bit k d = p \<longleftrightarrow> \<not> get_bit p d \<and> (if get_bit k d then k = set_key_bit p d else k = p)"
proof -
  have "clear_key_bit k d = p \<longleftrightarrow> (\<forall>e<256. (e \<noteq> d \<and> get_bit k e) = get_bit p e)"
    using trie_key_eqI [of "clear_key_bit k d" p] assms by (auto simp: bit_facts)
  moreover have "k = set_key_bit p d \<longleftrightarrow> (\<forall>e<256. get_bit k e = (e = d \<or> get_bit p e))"
    using trie_key_eqI [of k "set_key_bit p d"] assms by (auto simp: bit_facts)
  moreover have "k = p \<longleftrightarrow> (\<forall>e<256. get_bit k e = get_bit p e)"
    using trie_key_eqI [of k p] assms by auto
  ultimately show ?thesis using assms(3) by (auto split: if_splits)
qed


section \<open>The root of the sparse trie\<close>

text \<open>The reference definition: the subtree of the leaves in \<open>L\<close>, \<open>n\<close> levels above the leaves.\<close>
fun smt_subtree :: "externs \<Rightarrow> nat \<Rightarrow> (bytes \<rightharpoonup> bytes) \<Rightarrow> bytes" where
  "smt_subtree X 0 L = (case entries L of [] \<Rightarrow> empty_hash X | (k, v) # _ \<Rightarrow> hash_leaf X k v)"
| "smt_subtree X (Suc n) L = (if L = Map.empty then empty_hash X
     else hash_children X (smt_subtree X n (L |` {k. \<not> get_bit k (255 - n)}))
                          (smt_subtree X n (L |` {k. get_bit k (255 - n)})))"

lemma smt_group_at:
  "smt_group d (k, h) ps p = (if p = clear_key_bit k d
     then Some (if get_bit k d then (fst (get_or (None, None) ps p), Some h) else (Some h, snd (get_or (None, None) ps p)))
     else ps p)"
  by (simp add: smt_group_def Let_def)

lemma smt_parents_fold:
  assumes "distinct (map fst xs)" "\<forall>k \<in> fst ` set xs. trie_key k" "trie_key p" "d < 256"
  shows "fold (smt_group d) xs Map.empty p
    = (if get_bit p d \<or> map_of xs p = None \<and> map_of xs (set_key_bit p d) = None then None
       else Some (map_of xs p, map_of xs (set_key_bit p d)))"
  using assms(1,2)
proof (induction xs rule: rev_induct)
  case (snoc x xs)
  obtain k h where x: "x = (k, h)" by (cases x)
  have k: "trie_key k" "map_of xs k = None" using snoc.prems x by (auto simp: map_of_eq_None_iff)
  have IH: "fold (smt_group d) xs Map.empty p
    = (if get_bit p d \<or> map_of xs p = None \<and> map_of xs (set_key_bit p d) = None then None
       else Some (map_of xs p, map_of xs (set_key_bit p d)))" using snoc by simp
  have step: "fold (smt_group d) (xs @ [x]) Map.empty p = smt_group d (k, h) (fold (smt_group d) xs Map.empty) p"
    by (simp add: x)
  have upd: "map_of (xs @ [x]) q = (if q = k then Some h else map_of xs q)" for q
    using k(2) by (auto simp: x map_add_def split: option.splits)
  have set: "get_bit (set_key_bit p d) d" using assms(3,4) by (simp add: get_set_bit)
  consider "get_bit p d" | "\<not> get_bit p d" "k = p" | "\<not> get_bit p d" "k = set_key_bit p d"
    | "\<not> get_bit p d" "k \<noteq> p" "k \<noteq> set_key_bit p d" by blast
  then show ?case
  proof cases
    case 1
    then have "p \<noteq> clear_key_bit k d" using clear_eq_iff [OF k(1) assms(3,4)] by auto
    then show ?thesis using 1 IH unfolding step smt_group_at by simp
  next
    case 2
    then have "p = clear_key_bit k d" "set_key_bit p d \<noteq> k" "\<not> get_bit k d" using clear_eq_iff [OF k(1) assms(3,4)] set by auto
    then show ?thesis using 2 IH k(2) unfolding step smt_group_at upd by (auto simp: get_or_def)
  next
    case 3
    then have "p = clear_key_bit k d" "p \<noteq> k" "get_bit k d" using clear_eq_iff [OF k(1) assms(3,4)] set by auto
    then show ?thesis using 3 IH k(2) unfolding step smt_group_at upd by (auto simp: get_or_def)
  next
    case 4
    then have "p \<noteq> clear_key_bit k d" using clear_eq_iff [OF k(1) assms(3,4)] by metis
    then show ?thesis using 4 IH unfolding step smt_group_at upd by auto
  qed
qed simp

lemma map_of_entries: "finite (dom m) \<Longrightarrow> map_of (entries m) k = m k"
proof -
  assume fin: "finite (dom m)"
  have "map_of (entries m) = m |` dom m"
    using fin by (auto simp: entries_def map_of_map_restrict comp_def restrict_map_def fun_eq_iff domIff)
  then show ?thesis by (simp add: restrict_map_def domIff)
qed

lemma trie_keys_finite: "(\<And>k. k \<in> dom m \<Longrightarrow> trie_key k) \<Longrightarrow> finite (dom m)" for m :: "bytes \<rightharpoonup> 'v"
  by (rule finite_subset [OF _ finite_lists_length_eq [of "UNIV :: u8 set" 32]]) auto

lemma smt_parents_eq:
  assumes "\<And>k. k \<in> dom m \<Longrightarrow> trie_key k" "trie_key p" "d < 256"
  shows "smt_parents d m p = (if get_bit p d \<or> m p = None \<and> m (set_key_bit p d) = None then None
       else Some (m p, m (set_key_bit p d)))"
proof -
  have fin: "finite (dom m)" using assms(1) by (rule trie_keys_finite)
  have "fst ` set (entries m) = dom m" using fin by (force simp: set_entries)
  then have "\<forall>k \<in> fst ` set (entries m). trie_key k" using assms(1) by blast
  moreover have "distinct (map fst (entries m))" by (simp add: map_fst_entries)
  ultimately show ?thesis
    using smt_parents_fold [of "entries m" p d] assms(2,3) fin by (simp add: smt_parents_def map_of_entries)
qed

lemma smt_parents_dom:
  assumes "\<And>k. k \<in> dom m \<Longrightarrow> trie_key k" "p \<in> dom (smt_parents d m)"
  shows "trie_key p"
proof -
  have "fst ` set (entries m) = dom m" using trie_keys_finite [OF assms(1)] by (force simp: set_entries)
  then have keys: "\<forall>k \<in> fst ` set (entries m). trie_key k" using assms(1) by blast
  have "\<forall>k \<in> fst ` set xs. trie_key k \<Longrightarrow> \<forall>q \<in> dom ps. trie_key q \<Longrightarrow> q \<in> dom (fold (smt_group d) xs ps) \<Longrightarrow> trie_key q" for xs ps q
  proof (induction xs arbitrary: ps)
    case (Cons x xs)
    have "\<forall>q \<in> dom (smt_group d x ps). trie_key q" using Cons.prems(1,2) by (auto simp: smt_group_def Let_def split: prod.splits)
    then show ?case using Cons by simp
  qed simp
  from this [OF keys _ assms(2) [unfolded smt_parents_def]] show ?thesis by simp
qed


definition agrees :: "nat \<Rightarrow> bytes \<Rightarrow> bytes \<Rightarrow> bool" where
  "agrees d p k \<longleftrightarrow> (\<forall>e<d. get_bit k e = get_bit p e)"

text \<open>The level at depth \<open>d\<close>: every prefix of \<open>d\<close> bits that has a leaf below it, with its subtree.\<close>
definition level_at :: "externs \<Rightarrow> (bytes \<rightharpoonup> bytes) \<Rightarrow> nat \<Rightarrow> bytes \<rightharpoonup> bytes" where
  "level_at X L d = (\<lambda>p. if trie_key p \<and> (\<forall>e\<ge>d. \<not> get_bit p e) \<and> L |` {k. agrees d p k} \<noteq> Map.empty
     then Some (smt_subtree X (256 - d) (L |` {k. agrees d p k})) else None)"

lemma smt_subtree_empty [simp]: "smt_subtree X n Map.empty = empty_hash X"
  by (cases n) simp_all

lemma agrees_left:
  assumes "trie_key p" "\<not> get_bit p d"
  shows "L |` {k. agrees (Suc d) p k} = L |` {k. agrees d p k} |` {k. \<not> get_bit k d}"
  using assms by (auto simp: agrees_def restrict_map_def less_Suc_eq fun_eq_iff)

lemma agrees_right:
  assumes "trie_key p" "d < 256"
  shows "L |` {k. agrees (Suc d) (set_key_bit p d) k} = L |` {k. agrees d p k} |` {k. get_bit k d}"
  using assms by (auto simp: agrees_def restrict_map_def less_Suc_eq get_set_bit fun_eq_iff)

lemma restrict_split_empty:
  "M |` {k. \<not> P k} = Map.empty \<and> M |` {k. P k} = Map.empty \<longleftrightarrow> M = Map.empty"
proof
  assume a: "M |` {k. \<not> P k} = Map.empty \<and> M |` {k. P k} = Map.empty"
  have "M k = None" for k
    using a [THEN conjunct1, THEN fun_cong, of k] a [THEN conjunct2, THEN fun_cong, of k]
    by (simp add: restrict_map_def split: if_splits)
  then show "M = Map.empty" by blast
qed simp

lemma restrict_UNIV: "m |` UNIV = m"
  by (simp add: restrict_map_def)

lemma smt_level_at:
  assumes "d < 256"
  shows "smt_level X d (level_at X L (Suc d)) = level_at X L d"
proof
  fix p
  let ?m = "level_at X L (Suc d)" and ?M = "L |` {k. agrees d p k}"
  have keys: "k \<in> dom ?m \<Longrightarrow> trie_key k" for k by (auto simp: level_at_def split: if_splits)
  show "smt_level X d ?m p = level_at X L d p"
  proof (cases "trie_key p \<and> (\<forall>e\<ge>d. \<not> get_bit p e)")
    case False
    have "smt_parents d ?m p = None"
    proof (cases "trie_key p")
      case True
      then obtain e where e: "e \<ge> d" "get_bit p e" using False by blast
      then have "get_bit p d \<or> ?m p = None \<and> ?m (set_key_bit p d) = None"
        using True assms by (cases "e = d") (auto simp: level_at_def get_set_bit)
      then show ?thesis using smt_parents_eq [OF keys True assms] by simp
    next
      case False
      then show ?thesis using smt_parents_dom [OF keys, where p = p and d = d] by blast
    qed
    then show ?thesis using False by (auto simp: smt_level_def level_at_def)
  next
    case True
    then have p: "trie_key p" "\<not> get_bit p d" by auto
    have "\<forall>e\<ge>Suc d. \<not> get_bit (set_key_bit p d) e" using True assms by (simp add: get_set_bit)
    then have m: "?m p = (if ?M |` {k. \<not> get_bit k d} \<noteq> Map.empty then Some (smt_subtree X (255 - d) (?M |` {k. \<not> get_bit k d})) else None)"
      "?m (set_key_bit p d) = (if ?M |` {k. get_bit k d} \<noteq> Map.empty then Some (smt_subtree X (255 - d) (?M |` {k. get_bit k d})) else None)"
      using True p assms by (auto simp: level_at_def agrees_left agrees_right)
    have n: "256 - d = Suc (255 - d)" "255 - (255 - d) = d" using assms by simp_all
    have "level_at X L d p = (if ?M = Map.empty then None else Some (hash_children X
        (smt_subtree X (255 - d) (?M |` {k. \<not> get_bit k d})) (smt_subtree X (255 - d) (?M |` {k. get_bit k d}))))"
      using True by (simp add: level_at_def n del: smt_subtree.simps) (simp add: n)
    then show ?thesis
      using smt_parents_eq [OF keys p(1) assms] p(2) m restrict_split_empty [of ?M "\<lambda>k. get_bit k d"]
      by (auto simp: smt_level_def split: if_splits)
  qed
qed

lemma levels_from: "d \<le> 256 \<Longrightarrow> fold (smt_level X) (rev [d..<256]) (level_at X L 256) = level_at X L d"
proof (induction "256 - d" arbitrary: d)
  case (Suc n)
  then have "[d..<256] = d # [Suc d..<256]" by (simp add: upt_conv_Cons)
  then show ?case using Suc smt_level_at [of d X L] by simp
qed simp

lemma level_at_leaves:
  assumes "\<And>k. k \<in> dom L \<Longrightarrow> trie_key k"
  shows "level_at X L 256 = (\<lambda>key. map_option (hash_leaf X key) (L key))"
proof
  fix p
  show "level_at X L 256 p = map_option (hash_leaf X p) (L p)"
  proof (cases "trie_key p")
    case True
    have "agrees 256 p k \<longleftrightarrow> k = p" if "k \<in> dom L" for k
      using trie_key_eqI [of k p] assms [OF that] True by (auto simp: agrees_def)
    then have r: "L |` {k. agrees 256 p k} = L |` {p}" unfolding restrict_map_def fun_eq_iff domIff mem_Collect_eq by (metis singleton_iff)
    have b: "\<forall>e\<ge>256. \<not> get_bit p e" using True by (simp add: get_bit_iff)
    show ?thesis
    proof (cases "L p")
      case None
      then have "L |` {p} = Map.empty" by (auto simp: restrict_map_def)
      then show ?thesis using None by (simp add: level_at_def r)
    next
      case (Some v)
      then have "L |` {p} = [p \<mapsto> v]" by (auto simp: restrict_map_def)
      then show ?thesis using Some True b by (simp add: level_at_def r entries_def)
    qed
  next
    case False
    then have "L p = None" using assms [of p] by blast
    then show ?thesis using False by (simp add: level_at_def)
  qed
qed

text \<open>C21. The sparse trie root is the root of the sparse Merkle tree. The level-by-level computation over hash maps
  that \<open>compute_root\<close> performs returns exactly the hash given by the recursive definition of a depth-256
  binary tree over the key bits, in which a subtree without leaves is the empty hash. The root is
  therefore a function of the stored leaves only, whatever the order of insertions and removals.\<close>
theorem smt_root_refines_tree:
  assumes "\<And>k. k \<in> dom (smt_leaves t) \<Longrightarrow> length k = 32" and "smt_cached_root t = None"
  shows "fst (smt_root X t) = smt_subtree X 256 (smt_leaves t)"
proof (cases "smt_leaves t = Map.empty")
  case True
  then show ?thesis using assms(2) by (simp add: smt_root_def smt_compute_root_def Let_def del: smt_subtree.simps)
next
  case False
  let ?L = "smt_leaves t"
  have zero: "trie_key (replicate 32 0)" "\<not> get_bit (replicate 32 0) e" for e
    by (auto simp: get_bit_def TRIE_DEPTH_def)
  have top: "level_at X ?L 0 = [replicate 32 0 \<mapsto> smt_subtree X 256 ?L]"
  proof
    fix p
    have "trie_key p \<and> (\<forall>e\<ge>0. \<not> get_bit p e) \<longleftrightarrow> p = replicate 32 0"
      using trie_key_eqI [of p "replicate 32 0"] zero by auto
    then show "level_at X ?L 0 p = [replicate 32 0 \<mapsto> smt_subtree X 256 ?L] p"
      using False by (simp add: level_at_def agrees_def [abs_def] restrict_UNIV)
  qed
  show ?thesis
    using assms(2) False levels_from [of 0 X ?L] level_at_leaves [OF assms(1), where X = X] top
    by (simp add: smt_root_def smt_compute_root_def Let_def TRIE_DEPTH_def entries_def)
qed


theorem smt_root_refines_tree_witness:
  "let t = \<lparr>smt_leaves = [replicate 32 7 \<mapsto> [1]], smt_cached_root = None\<rparr> in
   fst (smt_root demo_externs t) = smt_subtree demo_externs 256 [replicate 32 7 \<mapsto> [1]]"
  unfolding Let_def
  by (subst smt_root_refines_tree) (simp_all del: smt_subtree.simps split: if_splits)

text \<open>The trie's own proof check compares no hash with the root: a proof object for any key, any claimed value and any
  list of siblings passes, as long as it carries the expected root.\<close>
lemma smt_verify_accepts_anything:
  assumes "sha3_digest_size X"
  shows "smt_verify X \<lparr>sp_key = key, sp_value = v, sp_siblings = sibs, sp_root = root\<rparr> root"
proof -
  have ne: "x_sha3 X d \<noteq> []" for d using assms by (metis sha3_digest_size_def list.size(3) zero_neq_numeral)
  have "c \<noteq> [] \<Longrightarrow> fold (\<lambda>(depth, sibling) c. if get_bit key depth then hash_children X sibling c
      else hash_children X c sibling) xs c \<noteq> []" for xs c
    using ne by (induction xs arbitrary: c) (auto simp: hash_children_def sha3_hash_domain_def)
  moreover have "(case v of Some v \<Rightarrow> hash_leaf X key v | None \<Rightarrow> empty_hash X) \<noteq> []"
    using ne by (auto simp: hash_leaf_def empty_hash_def sha3_hash_domain_def sha3_hash_def split: option.split)
  ultimately show ?thesis by (cases v) (simp_all add: smt_verify_def Let_def)
qed

section \<open>Account and storage proofs\<close>

lemma length_takeWhile_member: "k \<in> set xs \<Longrightarrow> length (takeWhile (\<lambda>x. x \<noteq> k) xs) < length xs"
  by (induction xs) auto

lemma position_of_Some:
  assumes "finite (dom m)" "m k = Some v"
  obtains i where "position_of k m = Some i" "i < length (keys m)" "keys m ! i = k"
proof -
  have "k \<in> set (keys m)" using assms by auto
  then have lt: "length (takeWhile (\<lambda>x. x \<noteq> k) (keys m)) < length (keys m)"
    by (rule length_takeWhile_member)
  then have "keys m ! length (takeWhile (\<lambda>x. x \<noteq> k) (keys m)) = k" using nth_length_takeWhile by blast
  with lt show ?thesis using that by (simp add: position_of_def Let_def)
qed

lemma nth_entries: "i < length (keys m) \<Longrightarrow> entries m ! i = (keys m ! i, the (m (keys m ! i)))"
  by (simp add: entries_def keys_def)

lemma length_entries [simp]: "length (entries m) = length (keys m)"
  by (simp add: entries_def keys_def)

lemma account_leaf_nth:
  "i < length (keys accs) \<Longrightarrow> state_leaf_hashes X accs cons ! i = account_leaf_hash X (keys accs ! i) (the (accs (keys accs ! i)))"
  by (simp add: state_leaf_hashes_def nth_append nth_entries)

lemma contract_leaf_nth:
  "i < length (keys cons) \<Longrightarrow> state_leaf_hashes X accs cons ! (length (keys accs) + i)
     = contract_leaf_hash X (keys cons ! i) (the (cons (keys cons ! i)))"
  by (simp add: state_leaf_hashes_def nth_append nth_entries)

lemma length_state_leaf_hashes [simp]: "length (state_leaf_hashes X accs cons) = length (keys accs) + length (keys cons)"
  by (simp add: state_leaf_hashes_def)

lemma compute_full_root: "accs k = Some a \<or> cons k = Some c \<Longrightarrow> compute_full X accs cons = merkle_root X (state_leaf_hashes X accs cons)"
  by (auto simp: compute_full_def compute_v5_merkle_def)

lemma state_proof_of_account:
  assumes "sha3_digest_size X" "finite (dom accs)" and a: "accs a = Some s"
  shows "\<exists>p. generate_account_proof X a accs cons = Some p \<and> verify_account_proof X p
      \<and> ap_address p = a \<and> ap_state p = s \<and> ap_state_root p = compute_full X accs cons"
proof -
  obtain i where i: "position_of a accs = Some i" "i < length (keys accs)" "keys accs ! i = a"
    using position_of_Some [OF assms(2) a] .
  show ?thesis
    using a i verify_generated_proof [OF assms(1), of i "state_leaf_hashes X accs cons"] account_leaf_nth [OF i(2), of X cons]
    by (simp add: generate_account_proof_def verify_account_proof_def compute_full_root [of accs a s cons])
qed

text \<open>C31. Every state query can be proved. For any account of the state, and for any storage slot of any contract of the
  state, a proof is generated, it is about that account or slot and its current value, it carries the
  state root of the block header scheme, and it passes the light client's check.\<close>
theorem state_proofs_complete:
  assumes "sha3_digest_size X" "finite (dom accs)" "finite (dom cons)"
  shows "(\<forall>a s. accs a = Some s \<longrightarrow> (\<exists>p. generate_account_proof X a accs cons = Some p \<and> verify_account_proof X p
      \<and> ap_address p = a \<and> ap_state p = s \<and> ap_state_root p = compute_full X accs cons))
    \<and> (\<forall>a c k v. cons a = Some c \<and> con_storage c k = Some v \<and> finite (dom (con_storage c)) \<longrightarrow>
        (\<exists>p. generate_storage_proof X a k accs cons = Some p \<and> verify_storage_proof X p
          \<and> stp_contract_address p = a \<and> stp_key p = k \<and> stp_value p = v \<and> stp_state_root p = compute_full X accs cons))"
proof (intro conjI allI impI)
  fix a s assume "accs a = Some s"
  then show "\<exists>p. generate_account_proof X a accs cons = Some p \<and> verify_account_proof X p
      \<and> ap_address p = a \<and> ap_state p = s \<and> ap_state_root p = compute_full X accs cons"
    by (rule state_proof_of_account [OF assms(1,2)])
next
  fix a c k v assume A: "cons a = Some c \<and> con_storage c k = Some v \<and> finite (dom (con_storage c))"
  obtain i where i: "position_of a cons = Some i" "i < length (keys cons)" "keys cons ! i = a"
    using position_of_Some [OF assms(3)] A by metis
  obtain j where j: "position_of k (con_storage c) = Some j" "j < length (keys (con_storage c))" "keys (con_storage c) ! j = k"
    using position_of_Some A by metis
  have leaf: "storage_leaf_hashes X (con_storage c) ! j = sha3_hash X (x_bin_storage_leaf X k v)"
    using j A by (simp add: storage_leaf_hashes_def nth_entries)
  have "verify_merkle_proof X (sha3_hash X (x_bin_storage_leaf X k v)) (merkle_proof X (storage_leaf_hashes X (con_storage c)) j) j
      (merkle_root X (storage_leaf_hashes X (con_storage c)))"
    using verify_generated_proof [OF assms(1), of j "storage_leaf_hashes X (con_storage c)"] j leaf
    by (simp add: storage_leaf_hashes_def)
  moreover have "verify_merkle_proof X (contract_leaf_hash X a c)
      (merkle_proof X (state_leaf_hashes X accs cons) (length (keys accs) + i)) (length (keys accs) + i)
      (merkle_root X (state_leaf_hashes X accs cons))"
    using verify_generated_proof [OF assms(1), of "length (keys accs) + i" "state_leaf_hashes X accs cons"] i A
      contract_leaf_nth [OF i(2), of X accs] by simp
  ultimately show "\<exists>p. generate_storage_proof X a k accs cons = Some p \<and> verify_storage_proof X p
      \<and> stp_contract_address p = a \<and> stp_key p = k \<and> stp_value p = v \<and> stp_state_root p = compute_full X accs cons"
    using A i j leaf
    by (simp add: generate_storage_proof_def verify_storage_proof_def Let_def compute_full_root [of accs a _ cons c]
        contract_leaf_hash_def contract_storage_root_def)
qed

definition demo_state :: accounts where
  "demo_state = [[1] \<mapsto> default_account\<lparr>acc_balance := 9\<rparr>, [2] \<mapsto> default_account]"

theorem state_proofs_complete_witness:
  "\<exists>p. generate_account_proof demo_externs [1] demo_state Map.empty = Some p \<and> verify_account_proof demo_externs p
     \<and> acc_balance (ap_state p) = 9"
proof -
  have "\<exists>p. generate_account_proof demo_externs [1] demo_state Map.empty = Some p \<and> verify_account_proof demo_externs p
      \<and> ap_address p = [1] \<and> ap_state p = default_account\<lparr>acc_balance := 9\<rparr>
      \<and> ap_state_root p = compute_full demo_externs demo_state Map.empty"
    using state_proofs_complete [OF demo_sha3_digest_size, of demo_state Map.empty] by (simp add: demo_state_def)
  then show ?thesis by auto
qed

text \<open>Everything that is hashed from the leaf inputs of a ledger on to its root.\<close>
definition state_root_inputs :: "externs \<Rightarrow> accounts \<Rightarrow> contracts \<Rightarrow> bytes list" where
  "state_root_inputs X accs cons =
     (if accs = Map.empty \<and> cons = Map.empty then [EMPTY_STATE_ROOT_SEED]
      else map (\<lambda>(a, s). x_bin_account_leaf X a s) (entries accs)
        @ map (\<lambda>(a, c). x_bin_contract_leaf X a (contract_code_hash X c) (con_owner c) (contract_storage_root X c)) (entries cons)
        @ merkle_root_inputs X (state_leaf_hashes X accs cons))"

lemma seed_not_proof_input: "EMPTY_STATE_ROOT_SEED \<noteq> MERKLE_LEAF_PREFIX # l" "EMPTY_STATE_ROOT_SEED \<noteq> MERKLE_NODE_PREFIX # l"
  by (simp_all add: EMPTY_STATE_ROOT_SEED_def MERKLE_LEAF_PREFIX_def MERKLE_NODE_PREFIX_def ascii_def)

text \<open>C32. A state proof cannot lie. Whatever index, path and path length an account proof has, when it is accepted against the
  state root of a ledger, then it states the true state of a real account, or the account it states encodes to the very bytes of a
  contract leaf of the ledger (the two kinds of leaves carry no tag), or the bytes hashed by the verifier and those hashed when
  the root was built contain an explicit SHA-3 collision. The serialiser is assumed to encode the claimed account unlike every
  different account of the ledger, as a decodable encoding does.\<close>
theorem account_proof_binding:
  assumes "sha3_digest_size X" "finite (dom accs)" "finite (dom cons)"
    and "\<And>a s. accs a = Some s \<Longrightarrow> x_bin_account_leaf X (ap_address p) (ap_state p) = x_bin_account_leaf X a s \<Longrightarrow>
      ap_address p = a \<and> ap_state p = s"
    and "verify_account_proof X p" "ap_state_root p = compute_full X accs cons"
  shows "accs (ap_address p) = Some (ap_state p)
    \<or> (\<exists>a c. cons a = Some c \<and> x_bin_account_leaf X (ap_address p) (ap_state p)
          = x_bin_contract_leaf X a (contract_code_hash X c) (con_owner c) (contract_storage_root X c))
    \<or> sha3_collides X (x_bin_account_leaf X (ap_address p) (ap_state p) # proof_inputs X (ap_leaf_hash p) (ap_leaf_index p) (ap_proof p))
        (state_root_inputs X accs cons)"
  (is "?true \<or> ?contract \<or> sha3_collides X (?claim # ?path) ?ins")
proof (cases "accs = Map.empty \<and> cons = Map.empty")
  case True
  then have "merkle_fold X (merkle_hash_leaf X (ap_leaf_hash p)) (ap_leaf_index p) (ap_proof p) = x_sha3 X EMPTY_STATE_ROOT_SEED"
    using assms(5,6) by (auto simp: verify_account_proof_def verify_merkle_proof_def compute_full_def compute_v5_merkle_def sha3_hash_def split: if_splits)
  then have "sha3_collides X ?path ?ins"
    using merkle_fold_hashed [of X "ap_leaf_hash p" "ap_leaf_index p" "ap_proof p"] seed_not_proof_input True
    by (auto simp: sha3_collides_def state_root_inputs_def) metis+
  then show ?thesis by (auto simp: sha3_collides_def)
next
  case False
  let ?ls = "state_leaf_hashes X accs cons"
  have ne: "?ls \<noteq> []" using False in_entries_iff [OF assms(2)] in_entries_iff [OF assms(3)] by (auto simp: state_leaf_hashes_def fun_eq_iff)
  have "verify_merkle_proof X (ap_leaf_hash p) (ap_proof p) (ap_leaf_index p) (merkle_root X ?ls)" and leaf: "ap_leaf_hash p = x_sha3 X ?claim"
    using assms(5,6) False by (auto simp: verify_account_proof_def compute_full_def compute_v5_merkle_def account_leaf_hash_def sha3_hash_def)
  from merkle_proof_binding [OF assms(1) ne this(1)] consider "ap_leaf_hash p \<in> set ?ls" | "sha3_collides X (?claim # ?path) ?ins"
    using False by (auto simp: sha3_collides_def state_root_inputs_def)
  then show ?thesis
  proof cases
    case 1
    then have "ap_leaf_hash p \<in> (\<lambda>(a, s). account_leaf_hash X a s) ` set (entries accs)
        \<union> (\<lambda>(a, c). contract_leaf_hash X a c) ` set (entries cons)" by (simp add: state_leaf_hashes_def)
    then consider a s where "(a, s) \<in> set (entries accs)" "ap_leaf_hash p = account_leaf_hash X a s"
      | a c where "(a, c) \<in> set (entries cons)" "ap_leaf_hash p = contract_leaf_hash X a c" by auto
    then show ?thesis
    proof cases
      case 1
      then have "x_bin_account_leaf X a s \<in> set ?ins" using False by (auto simp: state_root_inputs_def)
      from same_digest [OF list.set_intros(1) [of ?claim ?path] this, of X] show ?thesis
        using assms(4) [of a s] 1 leaf in_entries_iff [OF assms(2), of a s] by (auto simp: account_leaf_hash_def sha3_hash_def)
    next
      case 2
      then have "x_bin_contract_leaf X a (contract_code_hash X c) (con_owner c) (contract_storage_root X c) \<in> set ?ins"
        using False by (auto simp: state_root_inputs_def)
      from same_digest [OF list.set_intros(1) [of ?claim ?path] this, of X] show ?thesis
        using 2 leaf in_entries_iff [OF assms(3), of a c] by (auto simp: contract_leaf_hash_def sha3_hash_def)
    qed
  qed simp
qed
theorem account_proof_binding_witness:
  "\<exists>p. verify_account_proof demo_externs p \<and> ap_state_root p = compute_full demo_externs demo_state Map.empty
     \<and> (demo_state (ap_address p) = Some (ap_state p)
       \<or> sha3_collides demo_externs
          (x_bin_account_leaf demo_externs (ap_address p) (ap_state p) # proof_inputs demo_externs (ap_leaf_hash p) (ap_leaf_index p) (ap_proof p))
          (state_root_inputs demo_externs demo_state Map.empty))"
proof -
  have fin: "finite (dom demo_state)" "finite (dom (Map.empty :: contracts))" by (simp_all add: demo_state_def)
  obtain p where p: "verify_account_proof demo_externs p" "ap_address p = [1]" "ap_state p = default_account\<lparr>acc_balance := 9\<rparr>"
    "ap_state_root p = compute_full demo_externs demo_state Map.empty"
    using state_proof_of_account [OF demo_sha3_digest_size fin(1), of "[1]"] by (auto simp: demo_state_def)
  have enc: "demo_state b = Some s \<Longrightarrow> x_bin_account_leaf demo_externs (ap_address p) (ap_state p) = x_bin_account_leaf demo_externs b s
      \<Longrightarrow> ap_address p = b \<and> ap_state p = s" for b s
    using p(2,3) by (auto simp: demo_state_def split: if_splits)
  from account_proof_binding [OF demo_sha3_digest_size fin enc p(1,4)] p(1,4)
  show ?thesis by (intro exI [of _ p]) simp
qed

end
