(* ===== verification/Block_Store.thy ===== *)
theory Block_Store
  imports Blocks
begin

text \<open>
  The paginated block store (\<^verbatim>\<open>src/src/core/block_store.rs\<close>) over the block backends of
  \<^verbatim>\<open>src/src/storage/backend.rs\<close>: the in-memory backend and the block tables of the redb storage
  (\<^verbatim>\<open>src/src/storage/mod.rs\<close>). The trait \<open>BlockBackend\<close> is the record \<open>backend_ops\<close> of operations on a
  backend state; its contract is the locale \<open>block_backend\<close>, interpreted on both backends. The
  \<^verbatim>\<open>lru\<close> crate is the record \<open>cache_ops\<close>, with its documented behaviour as the hypothesis \<open>cache_ok\<close>.
  \<open>chain_view\<close> is the abstract specification: a cursor shows the canonical chain whatever the
  cache evicts. The redb tables hold typed values (serialisation round trips), their transactions are assumed
  to commit, and calls are sequential, as they are behind the chain's mutex.
\<close>

section \<open>Backends\<close>

record 'b backend_ops =
  bk_put :: "'b \<Rightarrow> block \<Rightarrow> string + 'b"
  bk_get :: "'b \<Rightarrow> u64 \<Rightarrow> string + block option"
  bk_prune :: "'b \<Rightarrow> u64 \<Rightarrow> string + nat \<times> 'b"
  bk_height :: "'b \<Rightarrow> string + u64 option"

type_synonym mem_backend = "u64 \<rightharpoonup> block"

definition mem_put :: "mem_backend \<Rightarrow> block \<Rightarrow> string + mem_backend" where
  "mem_put inner b = Inr (inner(hdr_height (blk_header b) \<mapsto> b))"

definition mem_get :: "mem_backend \<Rightarrow> u64 \<Rightarrow> string + block option" where
  "mem_get inner height = Inr (inner height)"

definition mem_prune :: "mem_backend \<Rightarrow> u64 \<Rightarrow> string + nat \<times> mem_backend" where
  "mem_prune inner retain_from =
     (if retain_from = 0 then Inr (0, inner)
      else let to_remove = filter (\<lambda>h. h < retain_from) (keys inner)
        in Inr (length to_remove, fold (\<lambda>h m. m(h := None)) to_remove inner))"

definition mem_height :: "mem_backend \<Rightarrow> string + u64 option" where
  "mem_height inner = Inr (if keys inner = [] then None else Some (last (keys inner)))"

definition mem_ops :: "mem_backend backend_ops" where
  "mem_ops = \<lparr>bk_put = mem_put, bk_get = mem_get, bk_prune = mem_prune, bk_height = mem_height\<rparr>"

text \<open>\<open>to_be_bytes\<close>: the key of a height in the redb tables.\<close>
definition u64_be :: "u64 \<Rightarrow> bytes" where
  "u64_be h = rev (u64_le h)"

definition HEIGHT_KEY :: bytes where "HEIGHT_KEY = ascii ''chain_height''"

record redb_db =
  db_blocks :: "bytes \<rightharpoonup> block"
  db_meta :: "bytes \<rightharpoonup> bytes"

definition redb_put :: "redb_db \<Rightarrow> block \<Rightarrow> string + redb_db" where
  "redb_put db b =
     (let key = u64_be (hdr_height (blk_header b))
      in Inr (db\<lparr>db_blocks := (db_blocks db)(key \<mapsto> b), db_meta := (db_meta db)(HEIGHT_KEY \<mapsto> key)\<rparr>))"

definition redb_get :: "redb_db \<Rightarrow> u64 \<Rightarrow> string + block option" where
  "redb_get db height = Inr (db_blocks db (u64_be height))"

definition redb_prune :: "redb_db \<Rightarrow> u64 \<Rightarrow> string + nat \<times> redb_db" where
  "redb_prune db retain_from =
     (if retain_from = 0 then Inr (0, db)
      else let upper = u64_be retain_from;
               keys_to_remove = filter (\<lambda>k. k < upper) (keys (db_blocks db))
        in Inr (length keys_to_remove, db\<lparr>db_blocks := fold (\<lambda>k m. m(k := None)) keys_to_remove (db_blocks db)\<rparr>))"

definition redb_height :: "redb_db \<Rightarrow> string + u64 option" where
  "redb_height db = (case db_meta db HEIGHT_KEY of
     Some data \<Rightarrow> if length data = 8 then Inr (Some (from_le (rev data))) else Inl ''invalid height bytes''
   | None \<Rightarrow> Inr None)"

definition redb_ops :: "redb_db backend_ops" where
  "redb_ops = \<lparr>bk_put = redb_put, bk_get = redb_get, bk_prune = redb_prune, bk_height = redb_height\<rparr>"

section \<open>The cursor\<close>

text \<open>The \<^verbatim>\<open>lru\<close> crate: \<open>get\<close> also reorders the entries, \<open>put\<close> may evict one.\<close>
record 'c cache_ops =
  lc_new :: "nat \<Rightarrow> 'c"
  lc_get :: "'c \<Rightarrow> u64 \<Rightarrow> block option \<times> 'c"
  lc_put :: "'c \<Rightarrow> u64 \<Rightarrow> block \<Rightarrow> 'c"
  lc_pop :: "'c \<Rightarrow> u64 \<Rightarrow> 'c"
  lc_keys :: "'c \<Rightarrow> u64 list"

datatype block_store_error = BsStorage string | MissingGenesis | NonContiguousAppend u64 u64

record ('b, 'c) block_store_cursor =
  cur_storage :: 'b
  cur_genesis :: block
  cur_cache :: 'c
  cur_height_count :: u64
  cur_base_height :: u64
  cur_self_persist :: bool

text \<open>The search for the first block above genesis: \<open>for candidate in 1..height_count\<close>.\<close>
fun find_base :: "'b backend_ops \<Rightarrow> 'b \<Rightarrow> nat list \<Rightarrow> string + u64" where
  "find_base B s [] = Inr 0"
| "find_base B s (candidate # rest) =
     (case bk_get B s (of_nat candidate) of
        Inl e \<Rightarrow> Inl e
      | Inr (Some _) \<Rightarrow> Inr (of_nat candidate)
      | Inr None \<Rightarrow> find_base B s rest)"

definition new_with_persist :: "'b backend_ops \<Rightarrow> 'c cache_ops \<Rightarrow> 'b \<Rightarrow> nat \<Rightarrow> bool \<Rightarrow>
    block_store_error + ('b, 'c) block_store_cursor" where
  "new_with_persist B C storage cache_size self_persist =
     (case bk_get B storage 0 of
        Inl e \<Rightarrow> Inl (BsStorage e)
      | Inr None \<Rightarrow> Inl MissingGenesis
      | Inr (Some genesis') \<Rightarrow>
     (case bk_height B storage of
        Inl e \<Rightarrow> Inl (BsStorage e)
      | Inr head_height_opt \<Rightarrow>
          let height_count = (case head_height_opt of None \<Rightarrow> 1 | Some h \<Rightarrow> h + 1)
          in (case (if height_count > 1 then find_base B storage [1..<unat height_count] else Inr 0) of
                Inl e \<Rightarrow> Inl (BsStorage e)
              | Inr base \<Rightarrow>
                  Inr \<lparr>cur_storage = storage, cur_genesis = genesis', cur_cache = lc_new C (max cache_size 1),
                    cur_height_count = height_count, cur_base_height = base, cur_self_persist = self_persist\<rparr>)))"

definition head_height :: "('b, 'c) block_store_cursor \<Rightarrow> u64" where
  "head_height cur = sat_sub (cur_height_count cur) 1"

abbreviation out_of_range :: "('b, 'c) block_store_cursor \<Rightarrow> u64 \<Rightarrow> bool" where
  "out_of_range cur height \<equiv> height \<ge> cur_height_count cur \<or> height < cur_base_height cur"

definition cursor_block_at :: "'b backend_ops \<Rightarrow> 'c cache_ops \<Rightarrow> ('b, 'c) block_store_cursor \<Rightarrow> u64 \<Rightarrow>
    (block_store_error + block option) \<times> ('b, 'c) block_store_cursor" where
  "cursor_block_at B C cur height =
     (if height = 0 then (Inr (Some (cur_genesis cur)), cur)
      else if out_of_range cur height then (Inr None, cur)
      else let (hit, cache) = lc_get C (cur_cache cur) height; cur1 = cur\<lparr>cur_cache := cache\<rparr>
        in case hit of
             Some b \<Rightarrow> (Inr (Some b), cur1)
           | None \<Rightarrow>
               (case bk_get B (cur_storage cur1) height of
                  Inl e \<Rightarrow> (Inl (BsStorage e), cur1)
                | Inr None \<Rightarrow> (Inr None, cur1)
                | Inr (Some b) \<Rightarrow>
                    if out_of_range cur1 height then (Inr None, cur1)
                    else (Inr (Some b), cur1\<lparr>cur_cache := lc_put C (cur_cache cur1) height b\<rparr>)))"

definition cursor_append :: "'b backend_ops \<Rightarrow> 'c cache_ops \<Rightarrow> ('b, 'c) block_store_cursor \<Rightarrow> block \<Rightarrow>
    block_store_error + ('b, 'c) block_store_cursor" where
  "cursor_append B C cur b =
     (let h = hdr_height (blk_header b) in
      if h \<noteq> cur_height_count cur then Inl (NonContiguousAppend (cur_height_count cur) h)
      else case (if cur_self_persist cur then bk_put B (cur_storage cur) b else Inr (cur_storage cur)) of
             Inl e \<Rightarrow> Inl (BsStorage e)
           | Inr storage \<Rightarrow>
               let cur1 = cur\<lparr>cur_storage := storage\<rparr>;
                   cur2 = (if h = 0 then cur1\<lparr>cur_genesis := b\<rparr>
                           else cur1\<lparr>cur_cache := lc_put C (cur_cache cur1) h b\<rparr>)
               in Inr (cur2\<lparr>cur_height_count := cur_height_count cur2 + 1\<rparr>))"

text \<open>How the chain appends with synchronous persistence: a cursor that does not persist by itself, as the chain opens it on
  redb, is followed by the \<open>put_block\<close> of \<open>persist_added_block\<close>.\<close>
definition persisted_append :: "'b backend_ops \<Rightarrow> 'c cache_ops \<Rightarrow> ('b, 'c) block_store_cursor \<Rightarrow> block \<Rightarrow>
    block_store_error + ('b, 'c) block_store_cursor" where
  "persisted_append B C cur b =
     (case cursor_append B C cur b of
        Inl e \<Rightarrow> Inl e
      | Inr cur' \<Rightarrow>
          if cur_self_persist cur' then Inr cur'
          else (case bk_put B (cur_storage cur') b of
                  Inl e \<Rightarrow> Inl (BsStorage e)
                | Inr storage \<Rightarrow> Inr (cur'\<lparr>cur_storage := storage\<rparr>)))"

definition cursor_prune_below :: "'b backend_ops \<Rightarrow> 'c cache_ops \<Rightarrow> ('b, 'c) block_store_cursor \<Rightarrow> u64 \<Rightarrow>
    block_store_error + nat \<times> ('b, 'c) block_store_cursor" where
  "cursor_prune_below B C cur keep_from =
     (if keep_from = 0 then Inr (0, cur)
      else if \<not> keep_from > cur_base_height cur then Inr (0, cur)
      else case bk_prune B (cur_storage cur) keep_from of
             Inl e \<Rightarrow> Inl (BsStorage e)
           | Inr (removed, storage) \<Rightarrow>
               let to_evict = filter (\<lambda>h. h < keep_from) (lc_keys C (cur_cache cur))
               in Inr (removed, cur\<lparr>cur_storage := storage, cur_base_height := keep_from,
                    cur_cache := fold (\<lambda>h c. lc_pop C c h) to_evict (cur_cache cur)\<rparr>))"

definition cursor_invalidate_from :: "'c cache_ops \<Rightarrow> ('b, 'c) block_store_cursor \<Rightarrow> u64 \<Rightarrow> ('b, 'c) block_store_cursor" where
  "cursor_invalidate_from C cur from' =
     (let to_evict = filter (\<lambda>h. h \<ge> from') (lc_keys C (cur_cache cur));
          cur1 = cur\<lparr>cur_cache := fold (\<lambda>h c. lc_pop C c h) to_evict (cur_cache cur)\<rparr>
      in if from' < cur_height_count cur1 then cur1\<lparr>cur_height_count := from'\<rparr> else cur1)"

section \<open>The abstract view\<close>

text \<open>What a cursor stands for: a genesis block, the blocks above it, their count and the prune floor.\<close>
record chain_view =
  cv_genesis :: block
  cv_blocks :: "u64 \<rightharpoonup> block"
  cv_count :: u64
  cv_base :: u64

definition view_block_at :: "chain_view \<Rightarrow> u64 \<Rightarrow> block option" where
  "view_block_at v h =
     (if h = 0 then Some (cv_genesis v) else if h \<ge> cv_count v \<or> h < cv_base v then None else cv_blocks v h)"

text \<open>The view a cursor opens on.\<close>
definition opened_view :: "'b backend_ops \<Rightarrow> ('b, 'c) block_store_cursor \<Rightarrow> chain_view" where
  "opened_view B cur = \<lparr>cv_genesis = cur_genesis cur,
     cv_blocks = (\<lambda>h. case bk_get B (cur_storage cur) h of Inr found \<Rightarrow> found | Inl e \<Rightarrow> None),
     cv_count = cur_height_count cur, cv_base = cur_base_height cur\<rparr>"

definition view_append :: "chain_view \<Rightarrow> block \<Rightarrow> block_store_error + chain_view" where
  "view_append v b =
     (let h = hdr_height (blk_header b) in
      if h \<noteq> cv_count v then Inl (NonContiguousAppend (cv_count v) h)
      else Inr (if h = 0 then v\<lparr>cv_genesis := b, cv_count := cv_count v + 1\<rparr>
                else v\<lparr>cv_blocks := (cv_blocks v)(h \<mapsto> b), cv_count := cv_count v + 1\<rparr>))"

definition view_prune_below :: "chain_view \<Rightarrow> u64 \<Rightarrow> chain_view" where
  "view_prune_below v keep_from = (if keep_from > cv_base v then v\<lparr>cv_base := keep_from\<rparr> else v)"

definition view_invalidate_from :: "chain_view \<Rightarrow> u64 \<Rightarrow> chain_view" where
  "view_invalidate_from v from' = (if from' < cv_count v then v\<lparr>cv_count := from'\<rparr> else v)"


section \<open>The contract of a backend\<close>

text \<open>What the cursor relies on: reads answer, a write shows at its height and nowhere else, pruning hides exactly the
  heights below the floor.\<close>
locale block_backend =
  fixes B :: "'b backend_ops"
    and valid :: "'b \<Rightarrow> bool"
  assumes get_ok: "valid s \<Longrightarrow> \<exists>found. bk_get B s h = Inr found"
    and put_get: "valid s \<Longrightarrow> \<exists>s'. bk_put B s b = Inr s' \<and> valid s' \<and> (\<forall>h. bk_get B s' h =
      (if h = hdr_height (blk_header b) then Inr (Some b) else bk_get B s h))"
    and prune_get: "valid s \<Longrightarrow> \<exists>n s'. bk_prune B s r = Inr (n, s') \<and> valid s' \<and> (\<forall>h. bk_get B s' h =
      (if h < r then Inr None else bk_get B s h))"

lemma fold_remove: "fold (\<lambda>k m. m(k := None)) ks m x = (if x \<in> set ks then None else m x)"
  by (induction ks arbitrary: m) auto

interpretation mem: block_backend mem_ops "\<lambda>_. True"
proof
  fix s :: mem_backend and b r h
  show "\<exists>found. bk_get mem_ops s h = Inr found" by (simp add: mem_ops_def mem_get_def)
  show "\<exists>s'. bk_put mem_ops s b = Inr s' \<and> True \<and> (\<forall>h. bk_get mem_ops s' h =
      (if h = hdr_height (blk_header b) then Inr (Some b) else bk_get mem_ops s h))"
    by (simp add: mem_ops_def mem_put_def mem_get_def)
  show "\<exists>n s'. bk_prune mem_ops s r = Inr (n, s') \<and> True \<and> (\<forall>h. bk_get mem_ops s' h =
      (if h < r then Inr None else bk_get mem_ops s h))"
    by (auto simp: mem_ops_def mem_prune_def mem_get_def Let_def fold_remove word_gt_0 domIff)
qed

subsection \<open>Big-endian keys\<close>

definition be_val :: "bytes \<Rightarrow> nat" where
  "be_val bs = foldl (\<lambda>a b. a * 256 + unat b) 0 bs"

lemma foldl_be: "foldl (\<lambda>a b. a * 256 + unat (b :: u8)) c bs = c * 256 ^ length bs + be_val bs"
proof (induction bs rule: rev_induct)
  case (snoc b bs)
  have "be_val (bs @ [b]) = be_val bs * 256 + unat b" by (simp add: be_val_def)
  then show ?case using snoc by (simp add: distrib_right)
qed (simp add: be_val_def)

lemma be_val_Cons [simp]: "be_val (b # bs) = unat b * 256 ^ length bs + be_val bs"
  using foldl_be [of "unat b" bs] by (simp add: be_val_def)

lemma be_val_Nil [simp]: "be_val [] = 0"
  by (simp add: be_val_def)

lemma be_val_bound: "be_val bs < 256 ^ length bs"
proof (induction bs)
  case (Cons b bs)
  have "unat b < 256" using unsigned_less [of b] by simp
  then have "unat b * 256 ^ length bs + be_val bs < (unat b + 1) * 256 ^ length bs" using Cons by simp
  also have "\<dots> \<le> 256 * 256 ^ length bs" using \<open>unat b < 256\<close> by (intro mult_le_mono1) simp
  finally show ?case by simp
qed simp

lemma lex_digit:
  assumes "a < b" "x < (m :: nat)"
  shows "a * m + x < b * m + y"
proof -
  have "a * m + x < (a + 1) * m" using assms(2) by simp
  also have "\<dots> \<le> b * m" using assms(1) by (intro mult_le_mono1) simp
  finally show ?thesis by simp
qed

text \<open>Lexicographic order on byte strings of one length is the order of the numbers they spell.\<close>
lemma be_val_less: "length xs = length ys \<Longrightarrow> xs < ys \<longleftrightarrow> be_val xs < be_val ys"
proof (induction xs arbitrary: ys)
  case (Cons x xs)
  then obtain y zs where ys: "ys = y # zs" "length xs = length zs" by (cases ys) auto
  have b: "be_val xs < 256 ^ length zs" "be_val zs < 256 ^ length zs" using be_val_bound [of xs] be_val_bound [of zs] ys(2) by simp_all
  consider "x < y" | "x = y" | "y < x" using linorder_cases by blast
  then show ?case
  proof cases
    case 1
    then have "unat x * 256 ^ length zs + be_val xs < unat y * 256 ^ length zs + be_val zs" using b(1) by (intro lex_digit) (simp_all add: word_less_nat_alt)
    then show ?thesis using 1 ys by simp
  next
    case 2
    then show ?thesis using Cons.IH [OF ys(2)] ys by simp
  next
    case 3
    then have "unat y * 256 ^ length zs + be_val zs < unat x * 256 ^ length zs + be_val xs" using b(2) by (intro lex_digit) (simp_all add: word_less_nat_alt)
    then show ?thesis using 3 ys by auto
  qed
qed simp


lemma of_nat_be_val: "of_nat (be_val (rev bs)) = (from_le bs :: 'a::len word)"
proof (induction bs)
  case (Cons b bs)
  have "be_val (rev bs @ [b]) = be_val (rev bs) * 256 + unat b" by (simp add: be_val_def)
  then show ?case using Cons by (simp add: mult.commute add.commute)
qed simp

lemma length_u64_be [simp]: "length (u64_be h) = 8"
  by (simp add: u64_be_def)

lemma be_val_u64: "be_val (u64_be h) = unat h"
proof -
  have "(of_nat (be_val (u64_be h)) :: u64) = h"
    unfolding u64_be_def of_nat_be_val by (simp add: from_le_le_bytes take_bit_word_eq_self)
  moreover have "be_val (u64_be h) < 2 ^ 64" using be_val_bound [of "u64_be h"] by simp
  ultimately show ?thesis using unat_of_nat_small [of "be_val (u64_be h)", where 'a = 64] by simp
qed

lemma u64_be_less: "u64_be a < u64_be b \<longleftrightarrow> a < b"
  by (simp add: be_val_less be_val_u64 word_less_nat_alt)

lemma u64_be_inj: "u64_be a = u64_be b \<longleftrightarrow> a = b"
  by (metis u64_be_less linorder_neq_iff)


definition redb_valid :: "redb_db \<Rightarrow> bool" where
  "redb_valid db \<longleftrightarrow> dom (db_blocks db) \<subseteq> range u64_be"

lemma redb_valid_finite: "redb_valid db \<Longrightarrow> finite (dom (db_blocks db))"
  unfolding redb_valid_def by (erule finite_subset) (rule finite_imageI, simp)

interpretation redb: block_backend redb_ops redb_valid
proof
  fix s b r h
  assume v: "redb_valid s"
  show "\<exists>found. bk_get redb_ops s h = Inr found" by (simp add: redb_ops_def redb_get_def)
  show "\<exists>s'. bk_put redb_ops s b = Inr s' \<and> redb_valid s' \<and> (\<forall>h. bk_get redb_ops s' h =
      (if h = hdr_height (blk_header b) then Inr (Some b) else bk_get redb_ops s h))"
    using v by (auto simp: redb_ops_def redb_put_def redb_get_def redb_valid_def Let_def u64_be_inj)
  show "\<exists>n s'. bk_prune redb_ops s r = Inr (n, s') \<and> redb_valid s' \<and> (\<forall>h. bk_get redb_ops s' h =
      (if h < r then Inr None else bk_get redb_ops s h))"
  proof (cases "r = 0")
    case True
    then show ?thesis using v by (simp add: redb_ops_def redb_prune_def redb_get_def)
  next
    case False
    have "redb_valid (s\<lparr>db_blocks := fold (\<lambda>k m. m(k := None)) ks (db_blocks s)\<rparr>)" for ks
      using v by (auto simp: redb_valid_def fold_remove split: if_splits)
    moreover have "fold (\<lambda>k m. m(k := None)) (filter (\<lambda>k. k < u64_be r) (keys (db_blocks s))) (db_blocks s) (u64_be h)
        = (if h < r then None else db_blocks s (u64_be h))" for h
      using redb_valid_finite [OF v] by (auto simp: fold_remove u64_be_less domIff)
    ultimately show ?thesis using False by (simp add: redb_ops_def redb_prune_def redb_get_def Let_def)
  qed
qed

section \<open>The cursor refines the view\<close>

text \<open>The documented behaviour of the cache: it returns what was put under a key or, after an eviction, nothing.\<close>
definition cache_ok :: "'c cache_ops \<Rightarrow> bool" where
  "cache_ok C \<longleftrightarrow>
     (\<forall>n h. fst (lc_get C (lc_new C n) h) = None) \<and>
     (\<forall>c k h. fst (lc_get C (snd (lc_get C c k)) h) = fst (lc_get C c h)) \<and>
     (\<forall>c k b. fst (lc_get C (lc_put C c k b) k) = Some b) \<and>
     (\<forall>c k b h. h \<noteq> k \<longrightarrow> fst (lc_get C (lc_put C c k b) h) \<in> {None, fst (lc_get C c h)}) \<and>
     (\<forall>c k h. fst (lc_get C (lc_pop C c k) h) = (if h = k then None else fst (lc_get C c h))) \<and>
     (\<forall>c. set (lc_keys C c) = {h. fst (lc_get C c h) \<noteq> None})"

lemma cache_pops:
  assumes "cache_ok C"
  shows "fst (lc_get C (fold (\<lambda>h c. lc_pop C c h) hs c) h) = (if h \<in> set hs then None else fst (lc_get C c h))"
  using assms by (induction hs arbitrary: c) (auto simp: cache_ok_def)

lemma cache_evict:
  assumes "cache_ok C"
  shows "fst (lc_get C (fold (\<lambda>h c. lc_pop C c h) (filter P (lc_keys C c)) c) h) = (if P h then None else fst (lc_get C c h))"
  using assms by (auto simp: cache_pops) (auto simp: cache_ok_def)

definition refines :: "'b backend_ops \<Rightarrow> ('b \<Rightarrow> bool) \<Rightarrow> 'c cache_ops \<Rightarrow> ('b, 'c) block_store_cursor \<Rightarrow> chain_view \<Rightarrow> bool" where
  "refines B valid C cur v \<longleftrightarrow> valid (cur_storage cur)
     \<and> cv_genesis v = cur_genesis cur \<and> cv_count v = cur_height_count cur \<and> cv_base v = cur_base_height cur
     \<and> (\<forall>h. h \<noteq> 0 \<longrightarrow> \<not> out_of_range cur h \<longrightarrow> bk_get B (cur_storage cur) h = Inr (cv_blocks v h))
     \<and> (\<forall>h b. fst (lc_get C (cur_cache cur) h) = Some b \<longrightarrow> h < cur_height_count cur \<and> cv_blocks v h = Some b)"

datatype store_op = BlockAt u64 | Append block | PruneBelow u64 | InvalidateFrom u64 | Len | BaseHeight

datatype store_result = RBlock "block option" | RUnit | RNum u64 | RError block_store_error

definition cursor_step :: "'b backend_ops \<Rightarrow> 'c cache_ops \<Rightarrow> store_op \<Rightarrow> ('b, 'c) block_store_cursor \<Rightarrow>
    store_result \<times> ('b, 'c) block_store_cursor" where
  "cursor_step B C op cur = (case op of
     BlockAt h \<Rightarrow> (case cursor_block_at B C cur h of (Inl e, c) \<Rightarrow> (RError e, c) | (Inr b, c) \<Rightarrow> (RBlock b, c))
   | Append b \<Rightarrow> (case persisted_append B C cur b of Inl e \<Rightarrow> (RError e, cur) | Inr c \<Rightarrow> (RUnit, c))
   | PruneBelow r \<Rightarrow> (case cursor_prune_below B C cur r of Inl e \<Rightarrow> (RError e, cur) | Inr (n, c) \<Rightarrow> (RUnit, c))
   | InvalidateFrom r \<Rightarrow> (RUnit, cursor_invalidate_from C cur r)
   | Len \<Rightarrow> (RNum (cur_height_count cur), cur)
   | BaseHeight \<Rightarrow> (RNum (cur_base_height cur), cur))"

definition view_step :: "store_op \<Rightarrow> chain_view \<Rightarrow> store_result \<times> chain_view" where
  "view_step op v = (case op of
     BlockAt h \<Rightarrow> (RBlock (view_block_at v h), v)
   | Append b \<Rightarrow> (case view_append v b of Inl e \<Rightarrow> (RError e, v) | Inr v' \<Rightarrow> (RUnit, v'))
   | PruneBelow r \<Rightarrow> (RUnit, view_prune_below v r)
   | InvalidateFrom r \<Rightarrow> (RUnit, view_invalidate_from v r)
   | Len \<Rightarrow> (RNum (cv_count v), v)
   | BaseHeight \<Rightarrow> (RNum (cv_base v), v))"

context block_backend
begin

lemma block_at_refines:
  assumes "cache_ok C" "refines B valid C cur v"
  shows "fst (cursor_block_at B C cur h) = Inr (view_block_at v h) \<and> refines B valid C (snd (cursor_block_at B C cur h)) v"
proof (cases "h = 0 \<or> out_of_range cur h")
  case True
  then show ?thesis using assms(2) by (auto simp: cursor_block_at_def view_block_at_def refines_def)
next
  case False
  obtain hit c where g: "lc_get C (cur_cache cur) h = (hit, c)" by (cases "lc_get C (cur_cache cur) h")
  have keep: "fst (lc_get C c k) = fst (lc_get C (cur_cache cur) k)" for k
    using assms(1) g unfolding cache_ok_def by (metis snd_conv)
  have st: "bk_get B (cur_storage cur) h = Inr (cv_blocks v h)" "view_block_at v h = cv_blocks v h"
    using False assms(2) by (auto simp: refines_def view_block_at_def)
  have r1: "refines B valid C (cur\<lparr>cur_cache := c\<rparr>) v" using assms(2) by (simp add: refines_def keep)
  have r2: "refines B valid C (cur\<lparr>cur_cache := lc_put C c h b\<rparr>) v" if "cv_blocks v h = Some b" for b
  proof -
    have "fst (lc_get C (lc_put C c h b) k) = Some b' \<Longrightarrow> k = h \<and> b' = b \<or> fst (lc_get C c k) = Some b'" for k b'
      using assms(1) unfolding cache_ok_def by (metis empty_iff insert_iff option.discI option.inject)
    then show ?thesis using r1 that False by (fastforce simp: refines_def)
  qed
  show ?thesis
  proof (cases hit)
    case (Some b)
    then have "cv_blocks v h = Some b" using g assms(2) by (auto simp: refines_def)
    then show ?thesis using False g Some st r1 by (simp add: cursor_block_at_def)
  next
    case None
    then show ?thesis using False g st r1 r2 by (simp add: cursor_block_at_def Let_def split: option.split)
  qed
qed

lemma storage_last:
  "cur\<lparr>cur_genesis := b, cur_height_count := n, cur_storage := s\<rparr> = cur\<lparr>cur_storage := s, cur_genesis := b, cur_height_count := n\<rparr>"
  "cur\<lparr>cur_cache := c, cur_height_count := n, cur_storage := s\<rparr> = cur\<lparr>cur_storage := s, cur_cache := c, cur_height_count := n\<rparr>"
  by simp_all

lemma append_refines:
  assumes "cache_ok C" "refines B valid C cur v" "unat (cv_count v) + 1 < 2 ^ 64"
  shows "case persisted_append B C cur b of
      Inl e \<Rightarrow> view_append v b = Inl e
    | Inr cur' \<Rightarrow> \<exists>v'. view_append v b = Inr v' \<and> refines B valid C cur' v'"
proof (cases "hdr_height (blk_header b) = cur_height_count cur")
  case True
  let ?h = "cur_height_count cur"
  have r: "valid (cur_storage cur)" "cv_genesis v = cur_genesis cur" "cv_count v = ?h"
    "cv_base v = cur_base_height cur"
    "\<And>h. h \<noteq> 0 \<Longrightarrow> \<not> out_of_range cur h \<Longrightarrow> bk_get B (cur_storage cur) h = Inr (cv_blocks v h)"
    "\<And>h b. fst (lc_get C (cur_cache cur) h) = Some b \<Longrightarrow> h < ?h \<and> cv_blocks v h = Some b"
    using assms(2) by (auto simp: refines_def)
  obtain s' where s': "bk_put B (cur_storage cur) b = Inr s'" "valid s'"
    "\<And>h. bk_get B s' h = (if h = ?h then Inr (Some b) else bk_get B (cur_storage cur) h)"
    using put_get [OF r(1), of b] True by auto
  have inc: "h < ?h + 1 \<longleftrightarrow> h < ?h \<or> h = ?h" for h
    using assms(3) r(3) by (auto simp: word_less_nat_alt word_unat_eq_iff unat_add_exact)
  have put: "fst (lc_get C (lc_put C (cur_cache cur) ?h b) k) = Some b' \<Longrightarrow> k = ?h \<and> b' = b \<or> fst (lc_get C (cur_cache cur) k) = Some b'" for k b'
    using assms(1) unfolding cache_ok_def by (metis empty_iff insert_iff option.discI option.inject)
  show ?thesis
  proof (cases "?h = 0")
    case z: True
    then have "refines B valid C (cur\<lparr>cur_storage := s', cur_genesis := b, cur_height_count := 1\<rparr>) (v\<lparr>cv_genesis := b, cv_count := 1\<rparr>)"
      using r s' word_less_1 by (fastforce simp: refines_def linorder_not_le)
    then show ?thesis using True z r s' by (simp add: persisted_append_def cursor_append_def view_append_def Let_def storage_last)
  next
    case nz: False
    have "refines B valid C (cur\<lparr>cur_storage := s', cur_cache := lc_put C (cur_cache cur) ?h b, cur_height_count := ?h + 1\<rparr>)
        (v\<lparr>cv_blocks := (cv_blocks v)(?h \<mapsto> b), cv_count := ?h + 1\<rparr>)"
      unfolding refines_def
      using r(1-4) s' r(5) by (auto simp: linorder_not_le inc dest!: put r(6))
    then show ?thesis using True nz r s' by (simp add: persisted_append_def cursor_append_def view_append_def Let_def storage_last)
  qed
next
  case False
  then show ?thesis using assms(2) by (simp add: persisted_append_def cursor_append_def view_append_def refines_def Let_def)
qed

lemma prune_refines:
  assumes "cache_ok C" "refines B valid C cur v"
  shows "\<exists>n cur'. cursor_prune_below B C cur r = Inr (n, cur') \<and> refines B valid C cur' (view_prune_below v r)"
proof (cases "r > cur_base_height cur")
  case True
  then have "r \<noteq> 0" by auto
  obtain n s' where s': "bk_prune B (cur_storage cur) r = Inr (n, s')" "valid s'"
      "\<And>h. bk_get B s' h = (if h < r then Inr None else bk_get B (cur_storage cur) h)"
    using prune_get assms(2) unfolding refines_def by metis
  have "refines B valid C (cur\<lparr>cur_storage := s', cur_base_height := r,
      cur_cache := fold (\<lambda>h c. lc_pop C c h) (filter (\<lambda>h. h < r) (lc_keys C (cur_cache cur))) (cur_cache cur)\<rparr>) (v\<lparr>cv_base := r\<rparr>)"
    using assms(2) s' True unfolding refines_def by (auto simp: cache_evict [OF assms(1)])
  then show ?thesis using True \<open>r \<noteq> 0\<close> s' assms(2)
    by (simp add: cursor_prune_below_def view_prune_below_def refines_def)
next
  case False
  then show ?thesis using assms(2) by (simp add: cursor_prune_below_def view_prune_below_def refines_def)
qed

lemma invalidate_refines:
  assumes "cache_ok C" "refines B valid C cur v"
  shows "refines B valid C (cursor_invalidate_from C cur r) (view_invalidate_from v r)"
  using assms(2) unfolding refines_def cursor_invalidate_from_def view_invalidate_from_def Let_def
  by (auto simp: cache_evict [OF assms(1)] split: if_splits)

lemma step_refines:
  assumes "cache_ok C" "refines B valid C cur v" "unat (cv_count v) + 1 < 2 ^ 64"
  shows "fst (cursor_step B C op cur) = fst (view_step op v)
    \<and> refines B valid C (snd (cursor_step B C op cur)) (snd (view_step op v))"
proof (cases op)
  case (BlockAt h)
  show ?thesis
    using block_at_refines [OF assms(1,2), of h]
    by (cases "cursor_block_at B C cur h") (auto simp: BlockAt cursor_step_def view_step_def)
next
  case (Append b)
  then show ?thesis
    using append_refines [OF assms, of b] assms(2) by (auto simp: cursor_step_def view_step_def split: sum.splits)
next
  case (PruneBelow r)
  then show ?thesis
    using prune_refines [OF assms(1,2), of r] by (auto simp: cursor_step_def view_step_def)
next
  case (InvalidateFrom r)
  then show ?thesis
    using invalidate_refines [OF assms(1,2)] by (simp add: cursor_step_def view_step_def)
qed (use assms(2) in \<open>simp_all add: cursor_step_def view_step_def refines_def\<close>)

end

text \<open>The answers to a sequence of operations.\<close>
fun run_ops :: "('op \<Rightarrow> 's \<Rightarrow> 'r \<times> 's) \<Rightarrow> 'op list \<Rightarrow> 's \<Rightarrow> 'r list" where
  "run_ops step [] s = []"
| "run_ops step (op # ops) s = (case step op s of (r, s') \<Rightarrow> r # run_ops step ops s')"

lemma view_step_count: "unat (cv_count (snd (view_step op v))) \<le> unat (cv_count v) + 1"
proof -
  have "unat (c + 1 :: u64) \<le> unat c + 1" for c by (simp add: word_le_nat_alt unat_word_ariths)
  then show ?thesis
    by (auto simp: view_step_def view_append_def view_prune_below_def view_invalidate_from_def word_less_nat_alt Let_def
        split: store_op.split sum.split)
qed

context block_backend
begin

lemma run_refines:
  assumes "cache_ok C"
  shows "refines B valid C cur v \<Longrightarrow> unat (cv_count v) + length ops < 2 ^ 64 \<Longrightarrow>
    run_ops (cursor_step B C) ops cur = run_ops view_step ops v"
proof (induction ops arbitrary: cur v)
  case (Cons op ops)
  have "fst (cursor_step B C op cur) = fst (view_step op v)
      \<and> refines B valid C (snd (cursor_step B C op cur)) (snd (view_step op v))"
    using step_refines [OF assms Cons.prems(1)] Cons.prems(2) by simp
  moreover have "unat (cv_count (snd (view_step op v))) + length ops < 2 ^ 64"
    using view_step_count [of op v] Cons.prems(2) by simp
  ultimately show ?case using Cons.IH [of "snd (cursor_step B C op cur)" "snd (view_step op v)"]
    by (cases "cursor_step B C op cur"; cases "view_step op v") simp
qed simp

end

section \<open>Properties\<close>

lemma opened_cursor:
  assumes "new_with_persist B C s n p = Inr cur"
  shows "cur_storage cur = s" "cur_cache cur = lc_new C (max n 1)"
  using assms by (auto simp: new_with_persist_def Let_def split: sum.splits option.splits if_splits)

context block_backend
begin

lemma opened_refines:
  assumes "cache_ok C" "new_with_persist B C s n p = Inr cur" "valid s"
  shows "refines B valid C cur (opened_view B cur)"
proof -
  have "bk_get B s h = Inr (case bk_get B s h of Inr found \<Rightarrow> found | Inl e \<Rightarrow> None)" for h
    using get_ok [OF assms(3), of h] by auto
  then show ?thesis using assms opened_cursor [OF assms(2)] by (auto simp: refines_def opened_view_def cache_ok_def)
qed

end

text \<open>C20. The cache is invisible. Open a cursor on any in-memory store, or on any redb block table with keys of eight bytes, self-persisting or not,
  with any capacity and any cache that satisfies the documented contract of the \<^verbatim>\<open>lru\<close> crate. Let any reads, prunes, truncations and
  appends follow, fewer than 2^64 blocks in all, where an append of a cursor that does not persist by itself is followed by the write of
  the block, as the chain does with synchronous persistence. Every answer is that of the abstract chain that was in the store when it was opened,
  errors included.\<close>
theorem cursor_refines_chain_view:
  assumes "cache_ok C"
  shows "(\<forall>m n p cur ops. new_with_persist mem_ops C m n p = Inr cur \<and> unat (cur_height_count cur) + length ops < 2 ^ 64 \<longrightarrow>
      run_ops (cursor_step mem_ops C) ops cur = run_ops view_step ops (opened_view mem_ops cur))
    \<and> (\<forall>db n p cur ops. new_with_persist redb_ops C db n p = Inr cur \<and> redb_valid db \<and> unat (cur_height_count cur) + length ops < 2 ^ 64 \<longrightarrow>
      run_ops (cursor_step redb_ops C) ops cur = run_ops view_step ops (opened_view redb_ops cur))"
proof (intro conjI allI impI)
  fix m n p cur and ops :: "store_op list"
  assume "new_with_persist mem_ops C m n p = Inr cur \<and> unat (cur_height_count cur) + length ops < 2 ^ 64"
  then show "run_ops (cursor_step mem_ops C) ops cur = run_ops view_step ops (opened_view mem_ops cur)"
    by (intro mem.run_refines [OF assms mem.opened_refines [OF assms, of m n p]]) (simp_all add: opened_view_def)
next
  fix db n p cur and ops :: "store_op list"
  assume "new_with_persist redb_ops C db n p = Inr cur \<and> redb_valid db \<and> unat (cur_height_count cur) + length ops < 2 ^ 64"
  then show "run_ops (cursor_step redb_ops C) ops cur = run_ops view_step ops (opened_view redb_ops cur)"
    by (intro redb.run_refines [OF assms redb.opened_refines [OF assms, of db n p]]) (simp_all add: opened_view_def)
qed

text \<open>A cache of one entry, the smallest the code allows.\<close>
definition single_cache :: "(u64 \<times> block) option cache_ops" where
  "single_cache = \<lparr>lc_new = (\<lambda>n. None),
     lc_get = (\<lambda>c h. (case c of Some (k, b) \<Rightarrow> if k = h then Some b else None | None \<Rightarrow> None, c)),
     lc_put = (\<lambda>c k b. Some (k, b)),
     lc_pop = (\<lambda>c k. case c of Some (k', b) \<Rightarrow> if k' = k then None else c | None \<Rightarrow> None),
     lc_keys = (\<lambda>c. case c of Some (k, b) \<Rightarrow> [k] | None \<Rightarrow> [])\<rparr>"

lemma single_cache_ok: "cache_ok single_cache"
  by (auto simp: cache_ok_def single_cache_def set_eq_iff split: option.splits prod.splits if_splits)

definition stored_block :: "u64 \<Rightarrow> block" where
  "stored_block h = \<lparr>blk_header = \<lparr>hdr_version = 5, hdr_height = h, hdr_timestamp = 0, hdr_prev_hash = [], hdr_merkle_root = [],
     hdr_state_root = [], hdr_gas_used = 0, hdr_base_fee_per_gas = 1, hdr_validator_public_key = [], hdr_nonce = 0\<rparr>,
     blk_transactions = [], blk_hash = [], blk_signature = None\<rparr>"

text \<open>A redb table with the blocks 0 and 1, opened as the chain opens it.\<close>
definition demo_redb :: redb_db where
  "demo_redb = \<lparr>db_blocks = [u64_be 0 \<mapsto> stored_block 0, u64_be 1 \<mapsto> stored_block 1], db_meta = [HEIGHT_KEY \<mapsto> u64_be 1]\<rparr>"

lemma demo_redb_opens:
  obtains cur where "new_with_persist redb_ops single_cache demo_redb 1000 False = Inr cur"
    "cur_genesis cur = stored_block 0" "cur_height_count cur = 2" "cur_base_height cur = 1" "cur_storage cur = demo_redb" "redb_valid demo_redb"
    "cur_cache cur = None" "\<not> cur_self_persist cur"
proof -
  have "(from_le (rev (u64_be 1)) :: u64) = 1" by (simp add: u64_be_def from_le_le_bytes take_bit_word_eq_self)
  moreover have "unat (2 :: u64) = 2" "[Suc 0..<2] = [1]" by (simp_all add: upt_rec)
  ultimately show ?thesis
    by (intro that) (auto simp: new_with_persist_def redb_ops_def redb_get_def redb_height_def demo_redb_def u64_be_inj redb_valid_def single_cache_def)
qed

theorem cursor_refines_chain_view_witness:
  "\<exists>cur. new_with_persist redb_ops single_cache demo_redb 1000 False = Inr cur \<and>
     run_ops (cursor_step redb_ops single_cache) [Append (stored_block 2), Append (stored_block 3), BlockAt 1, BlockAt 2, PruneBelow 2, BlockAt 1, BlockAt 0] cur
       = [RUnit, RUnit, RBlock (Some (stored_block 1)), RBlock (Some (stored_block 2)), RUnit, RBlock None, RBlock (Some (stored_block 0))]"
proof -
  obtain cur where cur: "new_with_persist redb_ops single_cache demo_redb 1000 False = Inr cur"
    "cur_genesis cur = stored_block 0" "cur_height_count cur = 2" "cur_base_height cur = 1" "cur_storage cur = demo_redb" "redb_valid demo_redb"
    by (rule demo_redb_opens)
  let ?ops = "[Append (stored_block 2), Append (stored_block 3), BlockAt 1, BlockAt 2, PruneBelow 2, BlockAt 1, BlockAt 0]"
  have "unat (cur_height_count cur) + length ?ops < 2 ^ 64" using cur(3) by simp
  with cursor_refines_chain_view [OF single_cache_ok, THEN conjunct2, rule_format, OF conjI, OF cur(1) conjI, OF cur(6)]
  have "run_ops (cursor_step redb_ops single_cache) ?ops cur = run_ops view_step ?ops (opened_view redb_ops cur)" .
  moreover have "\<not> (4 :: u64) \<le> 1" "\<not> (4 :: u64) \<le> 2" by (simp_all add: word_le_nat_alt)
  ultimately show ?thesis
    using cur by (simp add: view_step_def view_append_def view_block_at_def view_prune_below_def opened_view_def stored_block_def
        redb_ops_def redb_get_def demo_redb_def u64_be_inj)
qed

text \<open>With asynchronous persistence the chain appends and writes nothing: the block is only in the cache, and an eviction before the next
  full-state write loses it.\<close>
lemma unwritten_block_lost:
  "\<exists>cur cur1 cur2. new_with_persist redb_ops single_cache demo_redb 1000 False = Inr cur
     \<and> cursor_append redb_ops single_cache cur (stored_block 2) = Inr cur1 \<and> cursor_append redb_ops single_cache cur1 (stored_block 3) = Inr cur2
     \<and> fst (cursor_block_at redb_ops single_cache cur2 2) = Inr None"
proof -
  obtain cur where cur: "new_with_persist redb_ops single_cache demo_redb 1000 False = Inr cur"
    "cur_height_count cur = 2" "cur_base_height cur = 1" "cur_storage cur = demo_redb" "cur_cache cur = None" "\<not> cur_self_persist cur"
    by (rule demo_redb_opens)
  have "\<not> (4 :: u64) \<le> 2" "\<not> (2 :: u64) < 1" by (simp_all add: word_le_nat_alt word_less_nat_alt)
  then show ?thesis using cur
    by (simp add: cursor_append_def cursor_block_at_def single_cache_def stored_block_def redb_ops_def redb_get_def demo_redb_def u64_be_inj)
qed

text \<open>A truncation and appends without writes, as in a reorganisation on redb: after an eviction the cursor reads the block of the old fork.\<close>
lemma stale_block_read:
  "\<exists>cur cur1 cur2 b. new_with_persist redb_ops single_cache demo_redb 1000 False = Inr cur \<and> b \<noteq> stored_block 1
     \<and> cursor_append redb_ops single_cache (cursor_invalidate_from single_cache cur 1) b = Inr cur1
     \<and> cursor_append redb_ops single_cache cur1 (stored_block 2) = Inr cur2
     \<and> fst (cursor_block_at redb_ops single_cache cur2 1) = Inr (Some (stored_block 1))"
proof -
  obtain cur where cur: "new_with_persist redb_ops single_cache demo_redb 1000 False = Inr cur"
    "cur_height_count cur = 2" "cur_base_height cur = 1" "cur_storage cur = demo_redb" "cur_cache cur = None" "\<not> cur_self_persist cur"
    by (rule demo_redb_opens)
  have "\<not> (3 :: u64) \<le> 1" "(1 :: u64) < 2" by (simp_all add: word_le_nat_alt word_less_nat_alt)
  then show ?thesis using cur
    by (intro exI [of _ cur] exI [of _ "cur\<lparr>cur_cache := Some (1, stored_block 1\<lparr>blk_hash := [1]\<rparr>), cur_height_count := 2\<rparr>"]
        exI [of _ "cur\<lparr>cur_cache := Some (2, stored_block 2), cur_height_count := 3\<rparr>"] exI [of _ "stored_block 1\<lparr>blk_hash := [1]\<rparr>"])
      (simp add: cursor_invalidate_from_def cursor_append_def cursor_block_at_def single_cache_def stored_block_def redb_ops_def redb_get_def demo_redb_def u64_be_inj)
qed

text \<open>Pruning also removes height 0 from the backend, so the pinned copy in memory is the last one: opening
  the pruned store again is refused.\<close>
lemma pruned_store_does_not_reopen:
  assumes "redb_valid (cur_storage cur)" "cursor_prune_below redb_ops C cur keep_from = Inr (n, cur')" "keep_from > cur_base_height cur"
  shows "new_with_persist redb_ops C' (cur_storage cur') cache_size p = Inl MissingGenesis"
proof -
  have nz: "keep_from \<noteq> 0" using assms(3) by auto
  then have "(0 :: u64) < keep_from" by (simp add: word_gt_0)
  moreover obtain m s' where "bk_prune redb_ops (cur_storage cur) keep_from = Inr (m, s')"
      "\<And>h. bk_get redb_ops s' h = (if h < keep_from then Inr None else bk_get redb_ops (cur_storage cur) h)"
    using redb.prune_get [OF assms(1)] by metis
  ultimately have "bk_get redb_ops (cur_storage cur') 0 = Inr None"
    using assms(2,3) nz by (auto simp: cursor_prune_below_def Let_def)
  then show ?thesis by (simp add: new_with_persist_def)
qed

end
