(* ===== verification/Block_Tree.thy ===== *)
theory Block_Tree
  imports Blocks
begin

text \<open>
  \<^verbatim>\<open>src/src/core/blocktree.rs\<close>: the tree of known blocks, the heaviest-chain fork choice and the
  finality boundary. All walks of the source are one loop: from a hash, follow \<open>prev_hash\<close> while the
  entry is present, stopping at height 0. \<open>walk\<close> is the list of hashes that loop visits; its fuel is
  the height of the starting block plus one, which \<open>walk_fuel_enough\<close> shows to be enough in every
  tree the operations build. A loop that leaves early is a prefix or a search of that list.
\<close>

section \<open>State and operations\<close>

record block_entry =
  be_block :: block
  be_cumulative_stake_weight :: u64
  be_children :: "bytes list"

type_synonym block_entries = "bytes \<rightharpoonup> block_entry"

record block_tree =
  bt_entries :: block_entries
  bt_canonical_tip :: bytes
  bt_finalized_hash :: bytes
  bt_finalized_height :: u64

definition tree_from_genesis :: "block \<Rightarrow> block_tree" where
  "tree_from_genesis gen =
     \<lparr>bt_entries = [blk_hash gen \<mapsto> \<lparr>be_block = gen, be_cumulative_stake_weight = 0,
        be_children = []\<rparr>],
      bt_canonical_tip = blk_hash gen, bt_finalized_hash = blk_hash gen,
      bt_finalized_height = 0\<rparr>"

abbreviation entry_height :: "block_entry \<Rightarrow> u64" where
  "entry_height e \<equiv> blk_height (be_block e)"

abbreviation entry_prev :: "block_entry \<Rightarrow> bytes" where
  "entry_prev e \<equiv> blk_prev_hash (be_block e)"

fun walk_fuel :: "nat \<Rightarrow> block_entries \<Rightarrow> bytes \<Rightarrow> bytes list" where
  "walk_fuel 0 es h = []"
| "walk_fuel (Suc n) es h =
     (case es h of
        None \<Rightarrow> []
      | Some e \<Rightarrow> h # (if entry_height e = 0 then [] else walk_fuel n es (entry_prev e)))"

definition walk :: "block_entries \<Rightarrow> bytes \<Rightarrow> bytes list" where
  "walk es h = (case es h of None \<Rightarrow> [] | Some e \<Rightarrow> walk_fuel (Suc (unat (entry_height e))) es h)"

definition is_descendant_of :: "block_tree \<Rightarrow> bytes \<Rightarrow> bytes \<Rightarrow> bool" where
  "is_descendant_of t descendant ancestor \<longleftrightarrow> ancestor \<in> set (walk (bt_entries t) descendant)"

definition canonical_chain :: "block_tree \<Rightarrow> block list" where
  "canonical_chain t = rev (map (\<lambda>h. be_block (the (bt_entries t h))) (walk (bt_entries t) (bt_canonical_tip t)))"

definition is_on_canonical_chain :: "block_tree \<Rightarrow> bytes \<Rightarrow> bool" where
  "is_on_canonical_chain t hash = is_descendant_of t (bt_canonical_tip t) hash"

definition common_ancestor :: "block_tree \<Rightarrow> bytes \<Rightarrow> bytes \<Rightarrow> bytes option" where
  "common_ancestor t hash_a hash_b =
     find (\<lambda>h. h \<in> set (walk (bt_entries t) hash_a)) (walk (bt_entries t) hash_b)"

definition chain_between :: "block_tree \<Rightarrow> bytes \<Rightarrow> bytes \<Rightarrow> block list" where
  "chain_between t ancestor_hash descendant_hash =
     rev (map (\<lambda>h. be_block (the (bt_entries t h)))
       (takeWhile (\<lambda>h. h \<noteq> ancestor_hash) (walk (bt_entries t) descendant_hash)))"

text \<open>The second half of \<open>insert\<close>: link the block under its parent and choose the heavier tip.\<close>
definition tree_attach :: "block_tree \<Rightarrow> block \<Rightarrow> block_entry \<Rightarrow> u64 \<Rightarrow> bool \<times> block_tree" where
  "tree_attach t b parent proposer_stake =
     (let cumulative_weight = be_cumulative_stake_weight parent + proposer_stake;
          es = (bt_entries t)(blk_prev_hash b \<mapsto>
            parent\<lparr>be_children := be_children parent @ [blk_hash b]\<rparr>);
          t1 = t\<lparr>bt_entries := es(blk_hash b \<mapsto> \<lparr>be_block = b,
            be_cumulative_stake_weight = cumulative_weight, be_children = []\<rparr>)\<rparr>;
          old_tip_weight = (case bt_entries t1 (bt_canonical_tip t1) of
            Some e \<Rightarrow> be_cumulative_stake_weight e | None \<Rightarrow> 0)
      in if cumulative_weight > old_tip_weight then
           let old_tip = bt_canonical_tip t1;
               t2 = t1\<lparr>bt_canonical_tip := blk_hash b\<rparr>
           in (\<not> is_descendant_of t2 (bt_canonical_tip t2) old_tip, t2)
         else (False, t1))"

definition tree_insert :: "block_tree \<Rightarrow> block \<Rightarrow> u64 \<Rightarrow> block_tree_error + bool \<times> block_tree" where
  "tree_insert t b proposer_stake =
     (if bt_entries t (blk_hash b) \<noteq> None then Inr (False, t)
      else if blk_height b \<le> bt_finalized_height t \<and> blk_hash b \<noteq> bt_finalized_hash t
        then Inl BelowFinalized
      else case bt_entries t (blk_prev_hash b) of
        None \<Rightarrow> Inl OrphanBlock
      | Some parent \<Rightarrow>
          if blk_height b \<noteq> entry_height parent + 1 then Inl InvalidHeightLink
          else if bt_finalized_height t > 0 \<and> blk_prev_hash b \<noteq> bt_finalized_hash t
            \<and> \<not> is_descendant_of t (blk_prev_hash b) (bt_finalized_hash t)
            then Inl BelowFinalized
          else Inr (tree_attach t b parent proposer_stake))"

definition prune_below_finalized :: "block_tree \<Rightarrow> block_tree" where
  "prune_below_finalized t =
     (if bt_finalized_height t = 0 then t
      else let keep = (\<lambda>h. h = bt_finalized_hash t \<or> is_descendant_of t h (bt_finalized_hash t)
                 \<or> is_descendant_of t (bt_finalized_hash t) h)
        in t\<lparr>bt_entries := (\<lambda>h. if keep h then bt_entries t h else None)\<rparr>)"

definition set_finalized :: "block_tree \<Rightarrow> bytes \<Rightarrow> u64 \<Rightarrow> block_tree" where
  "set_finalized t hash height =
     prune_below_finalized (t\<lparr>bt_finalized_hash := hash, bt_finalized_height := height\<rparr>)"

definition tree_contains :: "block_tree \<Rightarrow> bytes \<Rightarrow> bool" where
  "tree_contains t hash \<longleftrightarrow> bt_entries t hash \<noteq> None"

definition tree_get :: "block_tree \<Rightarrow> bytes \<Rightarrow> block option" where
  "tree_get t hash = map_option be_block (bt_entries t hash)"

section \<open>Walks in a linked tree\<close>

text \<open>Every entry is stored under its hash and, above height 0, hangs one height above a parent
  that is present.\<close>
definition linked :: "block_entries \<Rightarrow> bool" where
  "linked es \<longleftrightarrow> (\<forall>h e. es h = Some e \<longrightarrow> blk_hash (be_block e) = h \<and>
     (entry_height e \<noteq> 0 \<longrightarrow> (\<exists>p. es (entry_prev e) = Some p
        \<and> unat (entry_height e) = Suc (unat (entry_height p)))))"

lemma linkedD:
  assumes "linked es" "es h = Some e"
  shows "blk_hash (be_block e) = h"
    and "entry_height e \<noteq> 0 \<Longrightarrow> \<exists>p. es (entry_prev e) = Some p \<and> unat (entry_height e) = Suc (unat (entry_height p))"
  using assms by (auto simp: linked_def)

lemma walk_fuel_enough:
  "linked es \<Longrightarrow> es h = Some e \<Longrightarrow> unat (entry_height e) < n \<Longrightarrow> walk_fuel n es h = walk es h"
proof (induction n arbitrary: h e)
  case (Suc n)
  show ?case
  proof (cases "entry_height e = 0")
    case False
    then obtain p where "es (entry_prev e) = Some p" "unat (entry_height e) = Suc (unat (entry_height p))"
      using linkedD(2) [OF Suc.prems(1,2)] by blast
    then show ?thesis using Suc False by (simp add: walk_def)
  qed (use Suc in \<open>simp add: walk_def\<close>)
qed simp

lemma walk_None [simp]: "es h = None \<Longrightarrow> walk es h = []"
  by (simp add: walk_def)

lemma walk_unfold:
  assumes "linked es" "es h = Some e"
  shows "walk es h = h # (if entry_height e = 0 then [] else walk es (entry_prev e))"
proof (cases "entry_height e = 0")
  case False
  then obtain p where "es (entry_prev e) = Some p" "unat (entry_height e) = Suc (unat (entry_height p))"
    using linkedD(2) [OF assms] by blast
  then show ?thesis using assms False by (simp add: walk_def walk_fuel_enough)
qed (use assms in \<open>simp add: walk_def\<close>)

text \<open>Induction along parent links.\<close>
lemma linked_induct [consumes 2, case_names genesis link]:
  assumes "linked es" "es h = Some e"
    and "\<And>h e. es h = Some e \<Longrightarrow> entry_height e = 0 \<Longrightarrow> P h e"
    and "\<And>h e p. es h = Some e \<Longrightarrow> entry_height e \<noteq> 0 \<Longrightarrow> es (entry_prev e) = Some p \<Longrightarrow>
      unat (entry_height e) = Suc (unat (entry_height p)) \<Longrightarrow> P (entry_prev e) p \<Longrightarrow> P h e"
  shows "P h e"
  using assms(2)
proof (induction "unat (entry_height e)" arbitrary: h e)
  case 0
  then show ?case using assms(3) by (simp add: unat_eq_0)
next
  case (Suc n)
  then have "entry_height e \<noteq> 0" by auto
  then obtain p where "es (entry_prev e) = Some p" "unat (entry_height e) = Suc (unat (entry_height p))"
    using linkedD(2) [OF assms(1) Suc.prems] by blast
  then show ?case using Suc assms(4) \<open>entry_height e \<noteq> 0\<close> by simp
qed

lemma walk_self: "linked es \<Longrightarrow> es h = Some e \<Longrightarrow> h \<in> set (walk es h)"
  by (simp add: walk_unfold)

lemma walk_dom:
  assumes "linked es" "a \<in> set (walk es h)"
  shows "a \<in> dom es"
proof (cases "es h")
  case (Some e)
  from assms(1) Some assms(2) show ?thesis
    by (induction rule: linked_induct) (auto simp: walk_unfold [OF assms(1)] split: if_splits)
qed (use assms in simp)

lemma walk_suffix:
  assumes "linked es" "a \<in> set (walk es h)"
  shows "\<exists>xs. walk es h = xs @ walk es a"
proof (cases "es h")
  case (Some e)
  from assms(1) Some assms(2) show ?thesis
  proof (induction rule: linked_induct)
    case (genesis h e)
    then show ?case using walk_unfold [OF assms(1) genesis(1)] by simp
  next
    case (link h e p)
    then show ?case
      by (cases "a = h") (auto simp: walk_unfold [OF assms(1) link(1)] intro: exI [of _ "h # _"])
  qed
qed (use assms in simp)

lemma walk_trans:
  "linked es \<Longrightarrow> a \<in> set (walk es b) \<Longrightarrow> b \<in> set (walk es c) \<Longrightarrow> a \<in> set (walk es c)"
  using walk_suffix [of es b c] by auto

lemma walk_heights:
  assumes "linked es" "es h = Some e" "a \<in> set (walk es h)" "es a = Some ea"
  shows "unat (entry_height ea) \<le> unat (entry_height e) \<and> (entry_height ea = entry_height e \<longrightarrow> a = h)"
  using assms(1,2,3)
proof (induction rule: linked_induct)
  case (genesis h e)
  then show ?case using assms(1,4) by (simp add: walk_unfold)
next
  case (link h e p)
  then show ?case using assms(1,4) by (auto simp: walk_unfold dest: arg_cong [where f = unat])
qed

lemma length_walk:
  assumes "linked es" "es h = Some e"
  shows "length (walk es h) = Suc (unat (entry_height e))"
  using assms by (induction rule: linked_induct) (simp_all add: walk_unfold [OF assms(1)])

text \<open>Growing or shrinking a linked tree does not change the walks of the blocks in both.\<close>
definition same_blocks :: "block_entries \<Rightarrow> block_entries \<Rightarrow> bool" where
  "same_blocks es es' \<longleftrightarrow> (\<forall>h e. es h = Some e \<longrightarrow> (\<exists>e'. es' h = Some e' \<and> be_block e' = be_block e))"

lemma walk_same_blocks:
  assumes "linked es" "linked es'" "same_blocks es es'" "es h = Some e"
  shows "walk es' h = walk es h"
  using assms(1,4)
proof (induction rule: linked_induct)
  case (genesis h e)
  then obtain e' where "es' h = Some e'" "be_block e' = be_block e" using assms(3) by (auto simp: same_blocks_def)
  then show ?case using genesis by (simp add: walk_unfold [OF assms(1)] walk_unfold [OF assms(2)])
next
  case (link h e p)
  then obtain e' where "es' h = Some e'" "be_block e' = be_block e" using assms(3) by (auto simp: same_blocks_def)
  then show ?case using link by (simp add: walk_unfold [OF assms(1)] walk_unfold [OF assms(2)])
qed

lemma walk_linear:
  assumes "linked es" "a \<in> set (walk es h)" "b \<in> set (walk es h)"
  shows "a \<in> set (walk es b) \<or> b \<in> set (walk es a)"
proof -
  obtain xs ys where "walk es h = xs @ walk es a" "walk es h = ys @ walk es b"
    using walk_suffix [OF assms(1,2)] walk_suffix [OF assms(1,3)] by blast
  then have "(\<exists>us. walk es a = us @ walk es b) \<or> (\<exists>us. walk es b = us @ walk es a)"
    by (metis append_eq_append_conv2)
  moreover have "a \<in> set (walk es a)" "b \<in> set (walk es b)"
    using walk_dom [OF assms(1,2)] walk_dom [OF assms(1,3)] walk_self [OF assms(1)] by auto
  ultimately show ?thesis by auto
qed

section \<open>Invariant\<close>

definition rooted :: "bytes \<Rightarrow> block_entries \<Rightarrow> bool" where
  "rooted g es \<longleftrightarrow> (\<exists>e. es g = Some e \<and> entry_height e = 0) \<and>
     (\<forall>h e. es h = Some e \<longrightarrow> entry_height e = 0 \<longrightarrow> h = g)"

definition heaviest :: "block_entries \<Rightarrow> bytes \<Rightarrow> bool" where
  "heaviest es tip \<longleftrightarrow> (\<exists>e. es tip = Some e \<and>
     (\<forall>h e'. es h = Some e' \<longrightarrow> be_cumulative_stake_weight e' \<le> be_cumulative_stake_weight e))"

definition tree_inv :: "bytes \<Rightarrow> block_tree \<Rightarrow> bool" where
  "tree_inv g t \<longleftrightarrow> linked (bt_entries t) \<and> rooted g (bt_entries t)
     \<and> (\<exists>e. bt_entries t (bt_finalized_hash t) = Some e \<and> entry_height e = bt_finalized_height t)
     \<and> heaviest (bt_entries t) (bt_canonical_tip t)
     \<and> bt_finalized_hash t \<in> set (walk (bt_entries t) (bt_canonical_tip t))"

lemma genesis_in_walk:
  assumes "linked es" "rooted g es" "es h = Some e"
  shows "g \<in> set (walk es h)"
  using assms(1,3)
  by (induction rule: linked_induct)
    (use assms(2) in \<open>auto simp: walk_unfold [OF assms(1)] rooted_def\<close>)

lemma tree_inv_from_genesis:
  "blk_height g = 0 \<Longrightarrow> tree_inv (blk_hash g) (tree_from_genesis g)"
  by (auto simp: tree_inv_def tree_from_genesis_def linked_def rooted_def heaviest_def walk_def split: if_splits)

lemma tree_attach_fields [simp]:
  "bt_finalized_hash (snd (tree_attach t b parent st)) = bt_finalized_hash t"
  "bt_finalized_height (snd (tree_attach t b parent st)) = bt_finalized_height t"
  "bt_entries (snd (tree_attach t b parent st)) = (bt_entries t)
     (blk_prev_hash b \<mapsto> parent\<lparr>be_children := be_children parent @ [blk_hash b]\<rparr>,
      blk_hash b \<mapsto> \<lparr>be_block = b, be_cumulative_stake_weight = be_cumulative_stake_weight parent + st,
        be_children = []\<rparr>)"
  by (simp_all add: tree_attach_def Let_def)

lemma tree_attach_tip:
  assumes "bt_entries t (bt_canonical_tip t) = Some e" "bt_entries t (blk_hash b) = None"
    "bt_entries t (blk_prev_hash b) = Some parent"
  shows "bt_canonical_tip (snd (tree_attach t b parent st)) =
    (if be_cumulative_stake_weight e < be_cumulative_stake_weight parent + st
     then blk_hash b else bt_canonical_tip t)"
  using assms by (auto simp: tree_attach_def Let_def split: option.splits if_splits)

lemma tree_insert_Inr:
  "tree_insert t b st = Inr res \<longleftrightarrow>
     (bt_entries t (blk_hash b) \<noteq> None \<and> res = (False, t)) \<or>
     (\<exists>parent. bt_entries t (blk_hash b) = None \<and> bt_entries t (blk_prev_hash b) = Some parent
       \<and> (blk_height b \<le> bt_finalized_height t \<longrightarrow> blk_hash b = bt_finalized_hash t)
       \<and> blk_height b = entry_height parent + 1
       \<and> (bt_finalized_height t > 0 \<longrightarrow> blk_prev_hash b = bt_finalized_hash t
            \<or> is_descendant_of t (blk_prev_hash b) (bt_finalized_hash t))
       \<and> res = tree_attach t b parent st)"
  by (auto simp: tree_insert_def split: option.splits)

section \<open>Insertion keeps the invariant\<close>

lemma attach_linked:
  assumes "linked es" "es (blk_hash b) = None" "es (blk_prev_hash b) = Some parent"
    and "blk_height b = entry_height parent + 1" "blk_height b \<noteq> 0"
  shows "linked (es(blk_prev_hash b \<mapsto> parent\<lparr>be_children := cs\<rparr>,
      blk_hash b \<mapsto> \<lparr>be_block = b, be_cumulative_stake_weight = w, be_children = []\<rparr>))"
    (is "linked ?es")
proof -
  have suc: "unat (blk_height b) = Suc (unat (entry_height parent))"
    using assms(4,5) unatSuc [of "entry_height parent"] by (simp add: add.commute)
  have kept: "\<exists>p'. ?es h = Some p' \<and> be_block p' = be_block p" if "es h = Some p" for h p
    using that assms(2,3) by auto
  show ?thesis unfolding linked_def
  proof (intro allI impI)
    fix h e assume e: "?es h = Some e"
    show "blk_hash (be_block e) = h \<and> (entry_height e \<noteq> 0 \<longrightarrow>
        (\<exists>p. ?es (entry_prev e) = Some p \<and> unat (entry_height e) = Suc (unat (entry_height p))))"
    proof (cases "h = blk_hash b")
      case True
      then show ?thesis using e suc kept [OF assms(3)] by auto
    next
      case False
      then obtain e0 where e0: "es h = Some e0" "be_block e = be_block e0"
        using e assms(3) by (auto split: if_splits)
      then show ?thesis using linkedD [OF assms(1) e0(1)] kept by metis
    qed
  qed
qed

lemma attach_same_blocks:
  assumes "es (blk_hash b) = None" "es (blk_prev_hash b) = Some parent"
  shows "same_blocks es (es(blk_prev_hash b \<mapsto> parent\<lparr>be_children := cs\<rparr>, blk_hash b \<mapsto> e))"
  using assms by (auto simp: same_blocks_def)

lemma tree_insert_height_nonzero:
  assumes "tree_inv g t" "bt_entries t (blk_hash b) = None"
    and "blk_height b \<le> bt_finalized_height t \<longrightarrow> blk_hash b = bt_finalized_hash t"
  shows "blk_height b \<noteq> 0"
  using assms by (auto simp: tree_inv_def)

lemma tree_inv_attach:
  assumes inv: "tree_inv g t" and new: "bt_entries t (blk_hash b) = None"
    and par: "bt_entries t (blk_prev_hash b) = Some parent"
    and fin: "blk_height b \<le> bt_finalized_height t \<longrightarrow> blk_hash b = bt_finalized_hash t"
    and ht: "blk_height b = entry_height parent + 1"
    and desc: "bt_finalized_height t > 0 \<longrightarrow> blk_prev_hash b = bt_finalized_hash t
      \<or> is_descendant_of t (blk_prev_hash b) (bt_finalized_hash t)"
  shows "tree_inv g (snd (tree_attach t b parent st))"
    and "same_blocks (bt_entries t) (bt_entries (snd (tree_attach t b parent st)))"
proof -
  let ?es = "bt_entries t" and ?t' = "snd (tree_attach t b parent st)"
  let ?es' = "bt_entries ?t'"
  have nz: "blk_height b \<noteq> 0" by (rule tree_insert_height_nonzero [OF inv new fin])
  have lk: "linked ?es" and lk': "linked ?es'"
    using inv attach_linked [OF _ new par ht nz] by (simp_all add: tree_inv_def)
  show same: "same_blocks ?es ?es'"
    using attach_same_blocks [of ?es b, OF new par] by simp
  note walks = walk_same_blocks [OF lk lk' same]
  have root: "rooted g ?es'"
    unfolding rooted_def
  proof
    obtain ge where "?es g = Some ge" "entry_height ge = 0" using inv by (auto simp: tree_inv_def rooted_def)
    then show "\<exists>e. ?es' g = Some e \<and> entry_height e = 0" using same unfolding same_blocks_def by metis
    have "h = g" if "?es h = Some e" "entry_height e = 0" for h e
      using that inv by (auto simp: tree_inv_def rooted_def)
    then show "\<forall>h e. ?es' h = Some e \<longrightarrow> entry_height e = 0 \<longrightarrow> h = g"
      using par nz by auto
  qed
  have finE: "\<exists>e. ?es' (bt_finalized_hash t) = Some e \<and> entry_height e = bt_finalized_height t"
  proof -
    obtain fe where "?es (bt_finalized_hash t) = Some fe" "entry_height fe = bt_finalized_height t"
      using inv by (auto simp: tree_inv_def)
    moreover then obtain fe' where "?es' (bt_finalized_hash t) = Some fe'" "be_block fe' = be_block fe"
      using same unfolding same_blocks_def by blast
    ultimately show ?thesis by metis
  qed
  obtain te where te: "?es (bt_canonical_tip t) = Some te"
      "\<And>h e'. ?es h = Some e' \<Longrightarrow> be_cumulative_stake_weight e' \<le> be_cumulative_stake_weight te"
    using inv by (auto simp: tree_inv_def heaviest_def)
  note tip = tree_attach_tip [OF te(1) new par]
  have heavy: "heaviest ?es' (bt_canonical_tip ?t')"
    unfolding heaviest_def tip using te new par by (auto simp: not_less dest: te(2) order_less_imp_le intro: order_trans)
  have "bt_finalized_hash t \<in> set (walk ?es (blk_prev_hash b))"
  proof (cases "bt_finalized_height t = 0")
    case True
    then have "bt_finalized_hash t = g" using inv by (auto simp: tree_inv_def rooted_def)
    then show ?thesis using genesis_in_walk [OF lk _ par] inv by (simp add: tree_inv_def)
  next
    case False
    then show ?thesis using desc walk_self [OF lk par] by (auto simp: is_descendant_of_def word_gt_0)
  qed
  then have "bt_finalized_hash t \<in> set (walk ?es' (blk_hash b))"
    using walk_unfold [OF lk', of "blk_hash b"] walks [OF par] nz by simp
  moreover have "bt_finalized_hash t \<in> set (walk ?es' (bt_canonical_tip t))"
    using inv walks [OF te(1)] by (simp add: tree_inv_def)
  ultimately show "tree_inv g ?t'"
    using lk' root finE heavy tip by (simp add: tree_inv_def del: fun_upd_apply)
qed

lemma tree_insert_inv:
  assumes "tree_inv g t" "tree_insert t b st = Inr (r, t')"
  shows "tree_inv g t'" and "same_blocks (bt_entries t) (bt_entries t')"
    and "bt_finalized_hash t' = bt_finalized_hash t" and "bt_finalized_height t' = bt_finalized_height t"
proof -
  consider "t' = t" | parent where "bt_entries t (blk_hash b) = None" "bt_entries t (blk_prev_hash b) = Some parent"
      "blk_height b \<le> bt_finalized_height t \<longrightarrow> blk_hash b = bt_finalized_hash t"
      "blk_height b = entry_height parent + 1"
      "bt_finalized_height t > 0 \<longrightarrow> blk_prev_hash b = bt_finalized_hash t
            \<or> is_descendant_of t (blk_prev_hash b) (bt_finalized_hash t)"
      "t' = snd (tree_attach t b parent st)"
    using assms(2) unfolding tree_insert_Inr by (metis snd_conv)
  then have "tree_inv g t' \<and> same_blocks (bt_entries t) (bt_entries t')
    \<and> bt_finalized_hash t' = bt_finalized_hash t \<and> bt_finalized_height t' = bt_finalized_height t"
  proof cases
    case 1
    then show ?thesis using assms(1) by (auto simp: same_blocks_def)
  next
    case 2
    then show ?thesis using tree_inv_attach [OF assms(1) 2(1-5)] by (simp only: tree_attach_fields simp_thms)
  qed
  then show "tree_inv g t'" "same_blocks (bt_entries t) (bt_entries t')"
    "bt_finalized_hash t' = bt_finalized_hash t" "bt_finalized_height t' = bt_finalized_height t"
    by auto
qed

section \<open>Finalization keeps the invariant\<close>

definition kept :: "block_entries \<Rightarrow> bytes \<Rightarrow> bytes \<Rightarrow> bool" where
  "kept es f h \<longleftrightarrow> h = f \<or> f \<in> set (walk es h) \<or> h \<in> set (walk es f)"

lemma kept_parent:
  assumes "linked es" "es f \<noteq> None" "es h = Some e" "entry_height e \<noteq> 0" "kept es f h"
  shows "kept es f (entry_prev e)"
proof -
  obtain p where p: "es (entry_prev e) = Some p" using linkedD(2) [OF assms(1,3,4)] by blast
  then have in_h: "entry_prev e \<in> set (walk es h)"
    using walk_unfold [OF assms(1,3)] assms(4) walk_self [OF assms(1) p] by simp
  consider "h \<in> set (walk es f)" | "f \<in> set (walk es h)" "f \<noteq> h"
    using assms(2,3,5) walk_self [OF assms(1)] by (auto simp: kept_def)
  then show ?thesis
  proof cases
    case 1
    then show ?thesis using walk_trans [OF assms(1) in_h] by (simp add: kept_def)
  next
    case 2
    then show ?thesis using walk_unfold [OF assms(1,3)] assms(4) by (simp add: kept_def)
  qed
qed

lemma pruned_linked:
  assumes "linked es" "es f \<noteq> None"
  shows "linked (\<lambda>h. if kept es f h then es h else None)"
  unfolding linked_def
proof (intro allI impI)
  fix h e assume "(if kept es f h then es h else None) = Some e"
  then have h: "kept es f h" "es h = Some e" by (auto split: if_splits)
  then show "blk_hash (be_block e) = h \<and> (entry_height e \<noteq> 0 \<longrightarrow>
      (\<exists>p. (if kept es f (entry_prev e) then es (entry_prev e) else None) = Some p
        \<and> unat (entry_height e) = Suc (unat (entry_height p))))"
    using linkedD [OF assms(1) h(2)] kept_parent [OF assms h(2) _ h(1)] by auto
qed

lemma set_finalized_entries:
  "height \<noteq> 0 \<Longrightarrow> set_finalized t hash height = t\<lparr>bt_finalized_hash := hash, bt_finalized_height := height,
     bt_entries := (\<lambda>h. if kept (bt_entries t) hash h then bt_entries t h else None)\<rparr>"
  by (simp add: set_finalized_def prune_below_finalized_def kept_def is_descendant_of_def Let_def
      cong: if_cong)

text \<open>What \<open>add_finality_vote\<close> has checked when it calls \<open>set_finalized\<close>.\<close>
definition may_finalize :: "block_tree \<Rightarrow> bytes \<Rightarrow> u64 \<Rightarrow> bool" where
  "may_finalize t hash height \<longleftrightarrow> (\<exists>b. tree_get t hash = Some b \<and> blk_height b = height)
     \<and> is_on_canonical_chain t hash \<and> bt_finalized_height t < height"

lemma set_finalized_inv:
  assumes inv: "tree_inv g t" and ok: "may_finalize t hash height"
  shows "tree_inv g (set_finalized t hash height)"
    and "same_blocks (bt_entries (set_finalized t hash height)) (bt_entries t)"
    and "bt_finalized_hash t \<in> set (walk (bt_entries t) hash)"
proof -
  let ?es = "bt_entries t" and ?t' = "set_finalized t hash height"
  let ?es' = "\<lambda>h. if kept ?es hash h then ?es h else None"
  have nz: "height \<noteq> 0" using ok by (auto simp: may_finalize_def)
  obtain e where e: "?es hash = Some e" "entry_height e = height"
    using ok by (auto simp: may_finalize_def tree_get_def)
  obtain te where te: "?es (bt_canonical_tip t) = Some te"
    using inv by (auto simp: tree_inv_def heaviest_def)
  have on: "hash \<in> set (walk ?es (bt_canonical_tip t))"
    using ok by (simp add: may_finalize_def is_on_canonical_chain_def is_descendant_of_def)
  have lk: "linked ?es" using inv by (simp add: tree_inv_def)
  have lk': "linked ?es'" using pruned_linked [OF lk] e by simp
  have tip_kept: "kept ?es hash (bt_canonical_tip t)" using on by (simp add: kept_def)
  have g_kept: "kept ?es hash g" using genesis_in_walk [OF lk _ e(1)] inv by (simp add: kept_def tree_inv_def)
  have hash_kept: "kept ?es hash hash" by (simp add: kept_def)
  have same: "same_blocks ?es' ?es" by (auto simp: same_blocks_def)
  have "walk ?es' (bt_canonical_tip t) = walk ?es (bt_canonical_tip t)"
    using walk_same_blocks [OF lk' lk same, of "bt_canonical_tip t" te] tip_kept te by simp
  then have fin: "hash \<in> set (walk ?es' (bt_canonical_tip t))" using on by simp
  have "rooted g ?es" "heaviest ?es (bt_canonical_tip t)" using inv by (simp_all add: tree_inv_def)
  then have "rooted g ?es'" "heaviest ?es' (bt_canonical_tip t)"
    using g_kept tip_kept by (simp_all add: rooted_def heaviest_def) blast
  then show "tree_inv g ?t'"
    using lk' fin e hash_kept nz by (simp add: tree_inv_def set_finalized_entries)
  show "same_blocks (bt_entries ?t') ?es" using same nz by (simp add: set_finalized_entries)
  show "bt_finalized_hash t \<in> set (walk ?es hash)"
  proof -
    obtain fe where fe: "?es (bt_finalized_hash t) = Some fe" "entry_height fe = bt_finalized_height t"
        "bt_finalized_hash t \<in> set (walk ?es (bt_canonical_tip t))"
      using inv by (auto simp: tree_inv_def)
    have "hash \<notin> set (walk ?es (bt_finalized_hash t))"
      using walk_heights [OF lk fe(1) _ e(1)] ok fe(2) e(2) by (auto simp: may_finalize_def word_less_nat_alt)
    then show ?thesis using walk_linear [OF lk fe(3) on] by blast
  qed
qed

section \<open>Reachable trees\<close>

inductive tree_step :: "block_tree \<Rightarrow> block_tree \<Rightarrow> bool" where
  tree_step_insert: "tree_insert t b st = Inr (r, t') \<Longrightarrow> tree_step t t'"
| tree_step_finalize: "may_finalize t hash height \<Longrightarrow> tree_step t (set_finalized t hash height)"

inductive_cases tree_stepE: "tree_step t t'"

lemma tree_step_inv: "tree_step t t' \<Longrightarrow> tree_inv g t \<Longrightarrow> tree_inv g t'"
  by (auto elim!: tree_stepE intro: tree_insert_inv set_finalized_inv)

lemma set_finalized_fields [simp]:
  "bt_finalized_hash (set_finalized t hash height) = hash"
  "bt_finalized_height (set_finalized t hash height) = height"
  "bt_canonical_tip (set_finalized t hash height) = bt_canonical_tip t"
  by (simp_all add: set_finalized_def prune_below_finalized_def Let_def)

lemma tree_step_finalized_height:
  "tree_inv g t \<Longrightarrow> tree_step t t' \<Longrightarrow> unat (bt_finalized_height t) \<le> unat (bt_finalized_height t')"
  by (auto elim!: tree_stepE simp: tree_insert_inv may_finalize_def word_less_nat_alt)

interpretation tree_system: monotone_system "\<lambda>t. \<exists>gen. blk_height gen = 0 \<and> blk_hash gen = g \<and> t = tree_from_genesis gen"
    tree_step "tree_inv g" "\<lambda>t. unat (bt_finalized_height t)"
  by unfold_locales (auto simp: tree_inv_from_genesis tree_step_finalized_height intro: tree_step_inv)

text \<open>A step keeps the ancestry of finalized blocks.\<close>
lemma tree_step_ancestry:
  assumes inv: "tree_inv g t" and f: "f \<in> set (walk (bt_entries t) (bt_finalized_hash t))" and "tree_step t t'"
  shows "f \<in> set (walk (bt_entries t') (bt_finalized_hash t'))"
  using assms(3)
proof cases
  case 1: (tree_step_insert b st r)
  obtain e where "bt_entries t (bt_finalized_hash t) = Some e" using inv by (auto simp: tree_inv_def)
  then have "walk (bt_entries t') (bt_finalized_hash t) = walk (bt_entries t) (bt_finalized_hash t)"
    using walk_same_blocks tree_insert_inv(1,2) [OF inv 1] inv by (simp add: tree_inv_def)
  then show ?thesis using f tree_insert_inv(3) [OF inv 1] by simp
next
  case 2: (tree_step_finalize hash height)
  have lk: "linked (bt_entries t)" using inv by (simp add: tree_inv_def)
  have inv': "tree_inv g t'" using set_finalized_inv [OF inv 2(2)] 2(1) by simp
  then obtain e where "bt_entries t' hash = Some e" using 2(1) by (auto simp: tree_inv_def)
  then have "walk (bt_entries t) hash = walk (bt_entries t') hash"
    using walk_same_blocks [of "bt_entries t'" "bt_entries t"] inv' lk set_finalized_inv(2) [OF inv 2(2)] 2(1)
    by (simp add: tree_inv_def)
  then show ?thesis using walk_trans [OF lk f set_finalized_inv(3) [OF inv 2(2)]] 2(1) by simp
qed

interpretation tree_finality: transition_system "\<lambda>t. tree_inv g t \<and> bt_finalized_hash t = f" tree_step
    "\<lambda>t. tree_inv g t \<and> f \<in> set (walk (bt_entries t) (bt_finalized_hash t))"
  by unfold_locales (auto simp: tree_step_ancestry intro: tree_step_inv, auto simp: tree_inv_def walk_self)

section \<open>Properties\<close>

text \<open>C11. Finality is irreversible. Once a block is finalized in a tree reached from genesis, it stays
  on the canonical chain of every tree reached later, whatever blocks are inserted and whatever
  finalizations follow; later finalized blocks descend from it, and the finalized height never
  decreases.\<close>
theorem finality_irreversible:
  assumes "blk_height gen = 0" and "tree_step\<^sup>*\<^sup>* (tree_from_genesis gen) t" and "tree_step\<^sup>*\<^sup>* t t'"
  shows "is_on_canonical_chain t' (bt_finalized_hash t)
    \<and> is_descendant_of t' (bt_finalized_hash t') (bt_finalized_hash t)
    \<and> bt_finalized_height t \<le> bt_finalized_height t'"
proof -
  have inv: "tree_inv (blk_hash gen) t"
    using tree_system.reachable_inv [OF _ assms(2)] assms(1) by blast
  have "tree_inv (blk_hash gen) t' \<and> bt_finalized_hash t \<in> set (walk (bt_entries t') (bt_finalized_hash t'))"
    using tree_finality.reachable_inv [OF _ assms(3)] inv by blast
  moreover have "unat (bt_finalized_height t) \<le> unat (bt_finalized_height t')"
    by (rule tree_system.run_rank [OF assms(3) inv])
  ultimately show ?thesis
    using walk_trans [of "bt_entries t'"]
    by (auto simp: is_on_canonical_chain_def is_descendant_of_def tree_inv_def word_le_nat_alt)
qed

definition demo_block :: "u64 \<Rightarrow> bytes \<Rightarrow> bytes \<Rightarrow> block" where
  "demo_block height prev hash = \<lparr>blk_header = \<lparr>hdr_version = 5, hdr_height = height, hdr_timestamp = 0,
     hdr_prev_hash = prev, hdr_merkle_root = [], hdr_state_root = [], hdr_gas_used = 0,
     hdr_base_fee_per_gas = 1, hdr_validator_public_key = [], hdr_nonce = 0\<rparr>,
     blk_transactions = [], blk_hash = hash, blk_signature = None\<rparr>"

definition demo_tree :: block_tree where
  "demo_tree = (case tree_insert (tree_from_genesis (demo_block 0 [] [0])) (demo_block 1 [0] [1]) 5 of
     Inr (r, t) \<Rightarrow> t | Inl e \<Rightarrow> tree_from_genesis (demo_block 0 [] [0]))"

lemma demo_tree_eq: "tree_insert (tree_from_genesis (demo_block 0 [] [0])) (demo_block 1 [0] [1]) 5
     = Inr (False, demo_tree)"
    "demo_tree = \<lparr>bt_entries = [[0] \<mapsto> \<lparr>be_block = demo_block 0 [] [0], be_cumulative_stake_weight = 0,
         be_children = [[1]]\<rparr>, [1] \<mapsto> \<lparr>be_block = demo_block 1 [0] [1], be_cumulative_stake_weight = 5,
         be_children = []\<rparr>], bt_canonical_tip = [1], bt_finalized_hash = [0], bt_finalized_height = 0\<rparr>"
  by (simp_all add: demo_tree_def tree_insert_def tree_attach_def tree_from_genesis_def demo_block_def Let_def
      is_descendant_of_def walk_def)

theorem finality_irreversible_witness:
  "is_on_canonical_chain (set_finalized demo_tree [1] 1) [0]"
proof -
  have 1: "tree_step\<^sup>*\<^sup>* (tree_from_genesis (demo_block 0 [] [0])) demo_tree"
    using tree_step_insert [OF demo_tree_eq(1)] by blast
  have "may_finalize demo_tree [1] 1"
    by (simp add: may_finalize_def demo_tree_eq(2) tree_get_def is_on_canonical_chain_def
        is_descendant_of_def walk_def demo_block_def)
  then have "tree_step\<^sup>*\<^sup>* demo_tree (set_finalized demo_tree [1] 1)" using tree_step_finalize by blast
  then show ?thesis
    using finality_irreversible [OF _ 1] by (simp add: demo_block_def demo_tree_eq(2))
qed

text \<open>A list of blocks that starts at height 0 and in which each block links to the one before.\<close>
definition linked_blocks :: "block list \<Rightarrow> bool" where
  "linked_blocks bs \<longleftrightarrow> (\<forall>i < length bs. unat (blk_height (bs ! i)) = i) \<and>
     (\<forall>i. Suc i < length bs \<longrightarrow> blk_prev_hash (bs ! Suc i) = blk_hash (bs ! i))"

lemma linked_blocks_snoc:
  assumes "linked_blocks bs" "bs \<noteq> []" "unat (blk_height b) = length bs" "blk_prev_hash b = blk_hash (last bs)"
  shows "linked_blocks (bs @ [b])"
  unfolding linked_blocks_def
proof (intro conjI allI impI)
  fix i assume "i < length (bs @ [b])"
  then show "unat (blk_height ((bs @ [b]) ! i)) = i"
    using assms(1,3) by (auto simp: linked_blocks_def nth_append less_Suc_eq)
next
  fix i assume i: "Suc i < length (bs @ [b])"
  show "blk_prev_hash ((bs @ [b]) ! Suc i) = blk_hash ((bs @ [b]) ! i)"
  proof (cases "Suc i = length bs")
    case True
    then have "last bs = bs ! i" using assms(2) by (metis diff_Suc_1 last_conv_nth)
    then show ?thesis using True assms(4) by (simp add: nth_append)
  next
    case False
    then show ?thesis using i assms(1) by (simp add: linked_blocks_def nth_append)
  qed
qed

lemma walk_linked_blocks:
  assumes "linked es" "es h = Some e"
  shows "let bs = rev (map (\<lambda>h. be_block (the (es h))) (walk es h)) in
    linked_blocks bs \<and> bs \<noteq> [] \<and> blk_hash (last bs) = h \<and> blk_height (hd bs) = 0 \<and> es (blk_hash (hd bs)) \<noteq> None"
  using assms
proof (induction rule: linked_induct)
  case (genesis h e)
  then show ?case
    by (simp add: walk_unfold [OF assms(1)] linked_blocks_def linkedD(1) [OF assms(1)])
next
  case (link h e p)
  let ?bs = "rev (map (\<lambda>h. be_block (the (es h))) (walk es (entry_prev e)))"
  have "length ?bs = unat (entry_height e)"
    using length_walk [OF assms(1) link(3)] link(4) by simp
  moreover have "linked_blocks (?bs @ [be_block e])"
    using link length_walk [OF assms(1) link(3)] by (intro linked_blocks_snoc) (auto simp: Let_def)
  ultimately show ?case
    using link linkedD(1) [OF assms(1) link(1)] by (simp add: walk_unfold [OF assms(1) link(1)] Let_def)
qed

text \<open>Fork choice. In every tree reached from genesis the canonical chain runs from the genesis
  block to the tip, one height at a time along \<open>prev_hash\<close> links, contains the finalized block, and no
  known block has a larger cumulative stake weight than its tip.\<close>
theorem canonical_chain_correct:
  assumes "blk_height gen = 0" and "tree_step\<^sup>*\<^sup>* (tree_from_genesis gen) t"
  shows "linked_blocks (canonical_chain t) \<and> canonical_chain t \<noteq> []
    \<and> blk_hash (hd (canonical_chain t)) = blk_hash gen
    \<and> blk_hash (last (canonical_chain t)) = bt_canonical_tip t
    \<and> is_on_canonical_chain t (bt_finalized_hash t)
    \<and> (\<exists>tip. bt_entries t (bt_canonical_tip t) = Some tip \<and> (\<forall>h e. bt_entries t h = Some e \<longrightarrow>
         be_cumulative_stake_weight e \<le> be_cumulative_stake_weight tip))"
proof -
  have inv: "tree_inv (blk_hash gen) t"
    using tree_system.reachable_inv [OF _ assms(2)] assms(1) by blast
  then obtain tip where tip: "bt_entries t (bt_canonical_tip t) = Some tip"
      "\<forall>h e. bt_entries t h = Some e \<longrightarrow> be_cumulative_stake_weight e \<le> be_cumulative_stake_weight tip"
    by (auto simp: tree_inv_def heaviest_def)
  have lk: "linked (bt_entries t)" and root: "rooted (blk_hash gen) (bt_entries t)"
    using inv by (simp_all add: tree_inv_def)
  note chain = walk_linked_blocks [OF lk tip(1), unfolded Let_def, folded canonical_chain_def]
  obtain e where e: "bt_entries t (blk_hash (hd (canonical_chain t))) = Some e" using chain by blast
  have "hd (canonical_chain t) \<in> set (canonical_chain t)" using chain by simp
  then obtain h0 where h0: "h0 \<in> set (walk (bt_entries t) (bt_canonical_tip t))"
      "hd (canonical_chain t) = be_block (the (bt_entries t h0))"
    unfolding canonical_chain_def set_rev set_map by blast
  then obtain e0 where "bt_entries t h0 = Some e0" using walk_dom [OF lk] by blast
  then have "be_block e = hd (canonical_chain t)" using e h0(2) linkedD(1) [OF lk] by simp
  then have "blk_hash (hd (canonical_chain t)) = blk_hash gen"
    using root e chain by (auto simp: rooted_def)
  then show ?thesis
    using chain tip inv by (simp add: is_on_canonical_chain_def is_descendant_of_def tree_inv_def)
qed

theorem canonical_chain_correct_witness:
  "linked_blocks (canonical_chain demo_tree) \<and> blk_hash (last (canonical_chain demo_tree)) = [1]"
  using canonical_chain_correct [of "demo_block 0 [] [0]" demo_tree] tree_step_insert [OF demo_tree_eq(1)]
  by (simp add: demo_block_def demo_tree_eq(2) r_into_rtranclp)

lemma walk_nth_height:
  assumes "linked es" "es h = Some e" "i < length (walk es h)"
  shows "\<exists>ei. es (walk es h ! i) = Some ei \<and> unat (entry_height ei) + i = unat (entry_height e)"
  using assms
proof (induction arbitrary: i rule: linked_induct)
  case (genesis h e)
  then show ?case by (simp add: walk_unfold [OF assms(1)])
next
  case (link h e p)
  then show ?case by (cases i) (auto simp: walk_unfold [OF assms(1) link(1)])
qed

text \<open>The fork point. For two known blocks of a reachable tree \<open>common_ancestor\<close> always finds a
  block; it is an ancestor of both, and every common ancestor is an ancestor of it.\<close>
theorem common_ancestor_correct:
  assumes "blk_height gen = 0" and "tree_step\<^sup>*\<^sup>* (tree_from_genesis gen) t"
    and "tree_contains t a" and "tree_contains t b"
  shows "\<exists>c. common_ancestor t a b = Some c \<and> is_descendant_of t a c \<and> is_descendant_of t b c
    \<and> (\<forall>x. is_descendant_of t a x \<and> is_descendant_of t b x \<longrightarrow> is_descendant_of t c x)"
proof -
  let ?es = "bt_entries t"
  have inv: "tree_inv (blk_hash gen) t"
    using tree_system.reachable_inv [OF _ assms(2)] assms(1) by blast
  then have lk: "linked ?es" and root: "rooted (blk_hash gen) ?es" by (simp_all add: tree_inv_def)
  obtain ea eb where ea: "?es a = Some ea" and eb: "?es b = Some eb"
    using assms(3,4) by (auto simp: tree_contains_def)
  have "blk_hash gen \<in> set (walk ?es a)" "blk_hash gen \<in> set (walk ?es b)"
    using genesis_in_walk [OF lk root] ea eb by blast+
  then obtain c where c: "common_ancestor t a b = Some c"
    unfolding common_ancestor_def by (metis find_None_iff not_None_eq)
  then obtain i where i: "i < length (walk ?es b)" "walk ?es b ! i = c" "c \<in> set (walk ?es a)"
      "\<forall>j<i. walk ?es b ! j \<notin> set (walk ?es a)"
    by (auto simp: common_ancestor_def find_Some_iff)
  obtain ec where ec: "?es c = Some ec" "unat (entry_height ec) + i = unat (entry_height eb)"
    using walk_nth_height [OF lk eb i(1)] i(2) by auto
  have "x \<in> set (walk ?es c)" if x: "x \<in> set (walk ?es a)" "x \<in> set (walk ?es b)" for x
  proof -
    obtain j where j: "j < length (walk ?es b)" "walk ?es b ! j = x" using x(2) by (auto simp: in_set_conv_nth)
    obtain ex where ex: "?es x = Some ex" "unat (entry_height ex) + j = unat (entry_height eb)"
      using walk_nth_height [OF lk eb j(1)] j(2) by auto
    have "i \<le> j" using i(4) j x(1) by (metis not_le)
    then have le: "unat (entry_height ex) \<le> unat (entry_height ec)" using ec(2) ex(2) by linarith
    have "c \<in> set (walk ?es b)" using i by (metis nth_mem)
    then consider "x \<in> set (walk ?es c)" | "c \<in> set (walk ?es x)" using walk_linear [OF lk x(2)] by blast
    then show ?thesis
    proof cases
      case 2
      then have "c = x" using walk_heights [OF lk ex(1) 2 ec(1)] le by (metis le_antisym word_unat_eq_iff)
      then show ?thesis using walk_self [OF lk ec(1)] by simp
    qed
  qed
  then show ?thesis using c i by (auto simp: is_descendant_of_def)
qed

theorem common_ancestor_correct_witness:
  "\<exists>c. common_ancestor demo_tree [1] [0] = Some c \<and> is_descendant_of demo_tree [1] c"
  using common_ancestor_correct [of "demo_block 0 [] [0]" demo_tree "[1]" "[0]"]
    tree_step_insert [OF demo_tree_eq(1)]
  by (auto simp: demo_block_def demo_tree_eq(2) tree_contains_def)

end
