(* ===== verification/Consensus.thy ===== *)
theory Consensus
  imports Blocks
begin

text \<open>
  \<^verbatim>\<open>src/src/consensus/mod.rs\<close> without the finality tracker, and the epoch settlement of
  \<^verbatim>\<open>src/src/core/chain/consensus.rs\<close>: the active validator set, stake-weighted leader selection
  with ranked backups, slashing with equivocation evidence, rewards and inactivity penalties.
  A \<^verbatim>\<open>HashMap\<close> iteration followed by a sort is the iteration in key order followed by the same
  (stable) sort. Sums of stakes are word sums.
\<close>

section \<open>Constants and data\<close>

definition EQUIVOCATION_SLASH_PERCENT :: u64 where "EQUIVOCATION_SLASH_PERCENT = 33"
definition EPOCH_REWARD_RATE_PER_CUR :: u64 where "EPOCH_REWARD_RATE_PER_CUR = 100"
definition INACTIVITY_PENALTY_RATE_PER_CUR :: u64 where "INACTIVITY_PENALTY_RATE_PER_CUR = 50"
definition INACTIVITY_GRACE_EPOCHS :: u64 where "INACTIVITY_GRACE_EPOCHS = 2"
definition BACKUP_LEADER_TIMEOUT_SECS :: u64 where "BACKUP_LEADER_TIMEOUT_SECS = 30"

lemmas consensus_consts = EQUIVOCATION_SLASH_PERCENT_def EPOCH_REWARD_RATE_PER_CUR_def
  INACTIVITY_PENALTY_RATE_PER_CUR_def INACTIVITY_GRACE_EPOCHS_def BACKUP_LEADER_TIMEOUT_SECS_def

record validator =
  val_address :: bytes
  val_public_key :: bytes
  val_stake :: u64

record equivocation_evidence =
  ev_height :: u64
  ev_validator_public_key :: bytes
  ev_block_header_a :: block_header
  ev_block_hash_a :: bytes
  ev_signature_a :: bytes
  ev_block_header_b :: block_header
  ev_block_hash_b :: bytes
  ev_signature_b :: bytes

datatype slashing_error = InvalidEvidence | AlreadySlashed | ValidatorNotFound

record epoch_snapshot =
  es_epoch :: u64
  es_start_height :: u64
  es_validators :: "validator list"
  es_total_stake :: u64

record validator_reward =
  vr_address :: bytes
  vr_amount :: u64
  vr_blocks_produced :: u64

datatype penalty_reason = Inactivity u64 | Equivocation

record validator_penalty =
  vp_address :: bytes
  vp_amount :: u64
  vp_reason :: penalty_reason

record epoch_settlement =
  se_epoch :: u64
  se_rewards :: "validator_reward list"
  se_penalties :: "validator_penalty list"
  se_total_rewards_distributed :: u64
  se_total_penalties_applied :: u64

record proof_of_stake =
  pos_minimum_stake :: u64
  pos_slashed_validators :: "bytes set"
  pos_current_height :: u64

section \<open>Equivocation evidence\<close>

definition evidence_verify :: "externs \<Rightarrow> equivocation_evidence \<Rightarrow> bool" where
  "evidence_verify X e =
     (if ev_block_hash_a e = ev_block_hash_b e then False
      else if hdr_height (ev_block_header_a e) \<noteq> ev_height e
        \<or> hdr_height (ev_block_header_b e) \<noteq> ev_height e then False
      else if hdr_validator_public_key (ev_block_header_a e) \<noteq> ev_validator_public_key e
        \<or> hdr_validator_public_key (ev_block_header_b e) \<noteq> ev_validator_public_key e then False
      else if compute_hash X (ev_block_header_a e) \<noteq> ev_block_hash_a e
        \<or> compute_hash X (ev_block_header_b e) \<noteq> ev_block_hash_b e then False
      else dilithium_verify X (ev_block_hash_a e) (ev_signature_a e) (ev_validator_public_key e)
         \<and> dilithium_verify X (ev_block_hash_b e) (ev_signature_b e) (ev_validator_public_key e))"

definition evidence_key :: "equivocation_evidence \<Rightarrow> bytes" where
  "evidence_key e = rev (u64_le (ev_height e)) @ ev_validator_public_key e"

section \<open>Epoch settlement\<close>

text \<open>The body of the loop over the validators: the reward or the penalty of one of them.\<close>
definition validator_reward_for :: "(bytes \<rightharpoonup> u64) \<Rightarrow> validator \<Rightarrow> validator_reward option" where
  "validator_reward_for producers v =
     (let blocks_produced = get_or 0 producers (val_address v) in
      if blocks_produced > 0 then
        let reward = sat_mul (sat_mul (val_stake v div 1000000) EPOCH_REWARD_RATE_PER_CUR) blocks_produced
        in if reward > 0 then Some \<lparr>vr_address = val_address v, vr_amount = reward,
             vr_blocks_produced = blocks_produced\<rparr> else None
      else None)"

definition validator_penalty_for :: "(bytes \<rightharpoonup> u64) \<Rightarrow> (bytes \<rightharpoonup> u64) \<Rightarrow> validator \<Rightarrow>
    validator_penalty option" where
  "validator_penalty_for producers missed_epochs v =
     (if get_or 0 producers (val_address v) > 0 then None
      else let consecutive_missed = sat_add (get_or 0 missed_epochs (val_address v)) 1 in
        if consecutive_missed > INACTIVITY_GRACE_EPOCHS then
          let penalty = sat_mul (sat_mul (val_stake v div 1000000) INACTIVITY_PENALTY_RATE_PER_CUR)
                (sat_sub consecutive_missed INACTIVITY_GRACE_EPOCHS)
          in if penalty > 0 then Some \<lparr>vp_address = val_address v, vp_amount = penalty,
               vp_reason = Inactivity consecutive_missed\<rparr> else None
        else None)"

definition compute_epoch_settlement :: "epoch_snapshot \<Rightarrow> (bytes \<rightharpoonup> u64) \<Rightarrow> (bytes \<rightharpoonup> u64) \<Rightarrow>
    epoch_settlement" where
  "compute_epoch_settlement snapshot producers missed_epochs =
     (let rewards = List.map_filter (validator_reward_for producers) (es_validators snapshot);
          penalties = List.map_filter (validator_penalty_for producers missed_epochs)
            (es_validators snapshot)
      in \<lparr>se_epoch = es_epoch snapshot, se_rewards = rewards, se_penalties = penalties,
          se_total_rewards_distributed = fold (\<lambda>r acc. sat_add acc (vr_amount r)) rewards 0,
          se_total_penalties_applied = fold (\<lambda>p acc. sat_add acc (vp_amount p)) penalties 0\<rparr>)"

definition apply_reward :: "validator_reward \<Rightarrow> accounts \<Rightarrow> accounts" where
  "apply_reward r accs =
     (let a = get_or default_account accs (vr_address r)
      in accs(vr_address r \<mapsto> a\<lparr>acc_balance := sat_add (acc_balance a) (vr_amount r)\<rparr>))"

definition apply_penalty :: "validator_penalty \<Rightarrow> accounts \<Rightarrow> accounts" where
  "apply_penalty p accs =
     (let a = get_or default_account accs (vp_address p)
      in accs(vp_address p \<mapsto> a\<lparr>acc_staked_balance := sat_sub (acc_staked_balance a) (vp_amount p)\<rparr>))"

definition apply_epoch_settlement :: "epoch_settlement \<Rightarrow> accounts \<Rightarrow> accounts" where
  "apply_epoch_settlement s accs = fold apply_penalty (se_penalties s) (fold apply_reward (se_rewards s) accs)"

definition count_producers :: "bytes list \<Rightarrow> bytes \<rightharpoonup> u64" where
  "count_producers addrs = fold (\<lambda>a m. m(a \<mapsto> get_or 0 m a + 1)) addrs Map.empty"

definition update_missed :: "(bytes \<rightharpoonup> u64) \<Rightarrow> validator list \<Rightarrow> (bytes \<rightharpoonup> u64) \<Rightarrow> (bytes \<rightharpoonup> u64)" where
  "update_missed producers vs missed =
     fold (\<lambda>v m. if producers (val_address v) \<noteq> None then m(val_address v := None)
        else m(val_address v \<mapsto> get_or 0 m (val_address v) + 1)) vs missed"

definition apply_epoch_settlement_for_block :: "u64 \<Rightarrow> u64 \<Rightarrow> (u64 \<rightharpoonup> epoch_snapshot) \<Rightarrow> bytes list \<Rightarrow>
    accounts \<Rightarrow> (bytes \<rightharpoonup> u64) \<Rightarrow> accounts \<times> (bytes \<rightharpoonup> u64)" where
  "apply_epoch_settlement_for_block block_height epoch_length epoch_snapshots producer_addresses
     accs missed =
     (let epoch_len = max epoch_length 1;
          prev_epoch = sat_sub block_height 1 div epoch_len;
          new_epoch = block_height div epoch_len
      in if new_epoch \<le> prev_epoch \<or> prev_epoch = 0 then (accs, missed)
         else case epoch_snapshots prev_epoch of
           None \<Rightarrow> (accs, missed)
         | Some snapshot \<Rightarrow>
             let producers = count_producers producer_addresses;
                 settlement = compute_epoch_settlement snapshot producers missed
             in (apply_epoch_settlement settlement accs,
                 update_missed producers (es_validators snapshot) missed))"

section \<open>Proof of stake\<close>

definition is_active_validator :: "proof_of_stake \<Rightarrow> bytes \<Rightarrow> account_state \<Rightarrow> bool" where
  "is_active_validator pos address a \<longleftrightarrow> acc_public_key a \<noteq> None
     \<and> \<not> acc_staked_balance a < pos_minimum_stake pos
     \<and> \<not> acc_validator_active_from_height a > pos_current_height pos
     \<and> \<not> acc_jailed_until_height a > pos_current_height pos
     \<and> address \<notin> pos_slashed_validators pos"

definition as_validator :: "proof_of_stake \<Rightarrow> bytes \<times> account_state \<Rightarrow> validator option" where
  "as_validator pos entry = (case entry of (address, a) \<Rightarrow>
     if is_active_validator pos address a
     then Some \<lparr>val_address = address, val_public_key = the (acc_public_key a),
            val_stake = acc_staked_balance a\<rparr>
     else None)"

definition active_validators :: "proof_of_stake \<Rightarrow> accounts \<Rightarrow> validator list" where
  "active_validators pos accs =
     sort_key val_address (List.map_filter (as_validator pos) (entries accs))"

text \<open>The walk over the validators' ticket ranges.\<close>
fun pick_by_stake :: "u64 \<Rightarrow> validator list \<Rightarrow> validator option" where
  "pick_by_stake selector [] = None"
| "pick_by_stake selector (v # vs) =
     (if selector < val_stake v then Some v else pick_by_stake (selector - val_stake v) vs)"

definition stake_sum :: "validator list \<Rightarrow> u64" where
  "stake_sum vs = sum_list (map val_stake vs)"

definition select_from :: "externs \<Rightarrow> validator list \<Rightarrow> u64 \<Rightarrow> bytes \<Rightarrow> validator option" where
  "select_from X validators block_height prev_hash =
     (if validators = [] then None
      else let total_stake = stake_sum validators in
        if total_stake = 0 then None
        else let hash = sha3_hash_domain X (ascii ''curs3d-validator-selection'')
               [u64_le block_height, prev_hash]
          in pick_by_stake (from_le (take 8 hash) mod total_stake) validators)"

definition select_validator :: "externs \<Rightarrow> proof_of_stake \<Rightarrow> accounts \<Rightarrow> u64 \<Rightarrow> bytes \<Rightarrow>
    validator option" where
  "select_validator X pos accs block_height prev_hash =
     select_from X (active_validators pos accs) block_height prev_hash"

definition select_validator_from_snapshot :: "externs \<Rightarrow> epoch_snapshot \<Rightarrow> u64 \<Rightarrow> bytes \<Rightarrow>
    validator option" where
  "select_validator_from_snapshot X snapshot block_height prev_hash =
     select_from X (es_validators snapshot) block_height prev_hash"

definition slash_with_evidence :: "externs \<Rightarrow> proof_of_stake \<Rightarrow> accounts \<Rightarrow> equivocation_evidence \<Rightarrow> u64 \<Rightarrow>
    slashing_error + u64 \<times> proof_of_stake \<times> accounts" where
  "slash_with_evidence X pos accs evidence jail_duration_blocks =
     (if \<not> evidence_verify X evidence then Inl InvalidEvidence
      else let address = address_bytes_from_public_key X (ev_validator_public_key evidence) in
        if address \<in> pos_slashed_validators pos then Inl AlreadySlashed
        else case accs address of
          None \<Rightarrow> Inl ValidatorNotFound
        | Some a \<Rightarrow>
            let penalty = sat_mul (acc_staked_balance a) EQUIVOCATION_SLASH_PERCENT div 100
            in Inr (penalty,
                 pos\<lparr>pos_slashed_validators := insert address (pos_slashed_validators pos)\<rparr>,
                 accs(address \<mapsto> a\<lparr>acc_staked_balance := sat_sub (acc_staked_balance a) penalty,
                   acc_jailed_until_height := sat_add (pos_current_height pos) jail_duration_blocks\<rparr>)))"

section \<open>Slot leaders\<close>

definition slot_leader_excluding :: "externs \<Rightarrow> epoch_snapshot \<Rightarrow> u64 \<Rightarrow> bytes \<Rightarrow> u32 \<Rightarrow> bytes set \<Rightarrow>
    bytes option" where
  "slot_leader_excluding X snapshot height parent_hash rank excluded =
     (let candidates = filter (\<lambda>v. val_address v \<notin> excluded) (es_validators snapshot) in
      if candidates = [] then None
      else let total_stake = stake_sum candidates in
        if total_stake = 0 then None
        else let hash = sha3_hash_domain X (ascii ''curs3d-slot-leader-v1'')
                   [u64_le height, parent_hash, u32_le rank];
                 selector = (from_le (take 16 hash) :: u128) mod ucast total_stake
          in case pick_by_stake (ucast selector) candidates of
               Some v \<Rightarrow> Some (val_address v)
             | None \<Rightarrow> Some (val_address (last candidates)))"

fun leader_loop :: "externs \<Rightarrow> epoch_snapshot \<Rightarrow> u64 \<Rightarrow> bytes \<Rightarrow> u32 list \<Rightarrow> bytes set \<Rightarrow> bytes option \<Rightarrow>
    bytes option" where
  "leader_loop X snapshot height parent_hash [] excluded last' = last'"
| "leader_loop X snapshot height parent_hash (k # ks) excluded last' =
     (case slot_leader_excluding X snapshot height parent_hash k excluded of
        Some addr \<Rightarrow> leader_loop X snapshot height parent_hash ks (insert addr excluded) (Some addr)
      | None \<Rightarrow> last')"

definition ranks_upto :: "u32 \<Rightarrow> u32 list" where
  "ranks_upto rank = map of_nat [0..<unat rank + 1]"

definition slot_leader_at_rank :: "externs \<Rightarrow> epoch_snapshot \<Rightarrow> u64 \<Rightarrow> bytes \<Rightarrow> u32 \<Rightarrow> bytes option" where
  "slot_leader_at_rank X snapshot height parent_hash rank =
     (if es_validators snapshot = [] then None
      else leader_loop X snapshot height parent_hash (ranks_upto rank) {} None)"

definition slot_leader :: "externs \<Rightarrow> epoch_snapshot \<Rightarrow> u64 \<Rightarrow> bytes \<Rightarrow> bytes option" where
  "slot_leader X snapshot height parent_hash = slot_leader_at_rank X snapshot height parent_hash 0"

definition allowed_backup_rank :: "i64 \<Rightarrow> i64 \<Rightarrow> nat \<Rightarrow> u32" where
  "allowed_backup_rank parent_timestamp block_timestamp snapshot_validators =
     (if snapshot_validators \<le> 1 \<or> block_timestamp \<le> parent_timestamp then 0
      else let gap = (of_int (block_timestamp - parent_timestamp) :: u64) in
        if gap < BACKUP_LEADER_TIMEOUT_SECS then 0
        else let rank = gap div BACKUP_LEADER_TIMEOUT_SECS;
                 max_rank = of_nat (snapshot_validators - 1)
          in ucast (min rank max_rank))"

section \<open>Ticket ranges\<close>

definition nat_stake :: "validator list \<Rightarrow> nat" where
  "nat_stake vs = sum_list (map (unat \<circ> val_stake) vs)"

fun pick_nat :: "nat \<Rightarrow> validator list \<Rightarrow> validator option" where
  "pick_nat n [] = None"
| "pick_nat n (v # vs) = (if n < unat (val_stake v) then Some v else pick_nat (n - unat (val_stake v)) vs)"

lemma nat_stake_simps [simp]:
  "nat_stake [] = 0" "nat_stake (v # vs) = unat (val_stake v) + nat_stake vs"
  by (simp_all add: nat_stake_def)

lemma unat_stake_sum: "nat_stake vs < 2 ^ 64 \<Longrightarrow> unat (stake_sum vs) = nat_stake vs"
  using sum_list_unat [of "map val_stake vs"] by (simp add: stake_sum_def nat_stake_def)

lemma pick_by_stake_nat: "pick_by_stake sel vs = pick_nat (unat sel) vs"
  by (induction vs arbitrary: sel) (auto simp: word_less_nat_alt unat_sub_exact)

lemma pick_nat_total: "n < nat_stake vs \<longleftrightarrow> (\<exists>v. pick_nat n vs = Some v)"
proof (induction vs arbitrary: n)
  case (Cons w vs)
  have "n - unat (val_stake w) < nat_stake vs \<longleftrightarrow> n < unat (val_stake w) + nat_stake vs"
    if "\<not> n < unat (val_stake w)" using that by auto
  then show ?case using Cons.IH [of "n - unat (val_stake w)"] by (cases "n < unat (val_stake w)") simp_all
qed simp

lemma pick_nat_in: "pick_nat n vs = Some v \<Longrightarrow> v \<in> set vs"
  by (induction vs arbitrary: n) (auto split: if_splits)

lemma card_pick_nat:
  "finite {n. pick_nat n vs = Some v} \<and>
   card {n. pick_nat n vs = Some v} = sum_list (map (\<lambda>w. if w = v then unat (val_stake w) else 0) vs)"
proof (induction vs)
  case (Cons w vs)
  let ?k = "unat (val_stake w)" and ?S = "{n. pick_nat n vs = Some v}"
  let ?A = "if w = v then {..<?k} else {}"
  have split: "{n. pick_nat n (w # vs) = Some v} = ?A \<union> (+) ?k ` ?S"
  proof (intro set_eqI iffI)
    fix n assume "n \<in> {n. pick_nat n (w # vs) = Some v}"
    then show "n \<in> ?A \<union> (+) ?k ` ?S"
      by (cases "n < ?k") (auto simp: image_iff intro!: exI [of _ "n - ?k"])
  qed (auto split: if_splits)
  have "?A \<inter> (+) ?k ` ?S = {}" by auto
  moreover have "card ((+) ?k ` ?S) = card ?S" by (simp add: card_image)
  moreover have "finite ?A" by simp
  ultimately show ?case using Cons split by (simp add: card_Un_disjoint)
qed simp

lemma sum_list_single:
  "distinct vs \<Longrightarrow> v \<in> set vs \<Longrightarrow> sum_list (map (\<lambda>w. if w = v then f w else (0::nat)) vs) = f v"
  by (induction vs) (auto simp: sum_list_eq_0_iff)

section \<open>The schedule of leaders\<close>

lemma slot_leader_excluding_in:
  assumes "slot_leader_excluding X s h p k E = Some a"
  shows "a \<in> val_address ` set (es_validators s) - E"
proof -
  let ?c = "filter (\<lambda>v. val_address v \<notin> E) (es_validators s)"
  have "?c \<noteq> []" and "(\<exists>v n. pick_nat n ?c = Some v \<and> a = val_address v) \<or> a = val_address (last ?c)"
    using assms by (auto simp: slot_leader_excluding_def Let_def pick_by_stake_nat
        split: if_splits option.splits)
  then obtain v where "v \<in> set ?c" "a = val_address v"
    using pick_nat_in last_in_set by metis
  then show ?thesis by auto
qed

lemma slot_leader_excluding_None_iff:
  "slot_leader_excluding X s h p k E = None \<longleftrightarrow>
     stake_sum (filter (\<lambda>v. val_address v \<notin> E) (es_validators s)) = 0"
  by (auto simp: slot_leader_excluding_def Let_def stake_sum_def split: option.splits)

text \<open>The leaders of ranks \<open>0..<n\<close>, in order.\<close>
fun elected :: "externs \<Rightarrow> epoch_snapshot \<Rightarrow> u64 \<Rightarrow> bytes \<Rightarrow> nat \<Rightarrow> bytes list" where
  "elected X s h p 0 = []"
| "elected X s h p (Suc n) =
     (case slot_leader_excluding X s h p (of_nat n) (set (elected X s h p n)) of
        Some a \<Rightarrow> elected X s h p n @ [a]
      | None \<Rightarrow> elected X s h p n)"

lemma elected_stuck:
  assumes "slot_leader_excluding X s h p (of_nat n) (set (elected X s h p n)) = None"
  shows "elected X s h p (n + m) = elected X s h p n"
proof (induction m)
  case (Suc m)
  then have "slot_leader_excluding X s h p (of_nat (n + m)) (set (elected X s h p (n + m))) = None"
    using assms by (simp add: slot_leader_excluding_None_iff)
  then show ?case using Suc by (simp add: Suc.IH)
qed simp

lemma leader_loop_elected:
  "leader_loop X s h p (map of_nat [n..<n + m]) (set (elected X s h p n))
     (if elected X s h p n = [] then None else Some (last (elected X s h p n)))
   = (if elected X s h p (n + m) = [] then None else Some (last (elected X s h p (n + m))))"
proof (induction m arbitrary: n)
  case (Suc m)
  have upt: "map of_nat [n..<n + Suc m] = of_nat n # map of_nat [Suc n..<Suc n + m]"
    by (simp add: upt_conv_Cons del: upt_Suc)
  show ?case
  proof (cases "slot_leader_excluding X s h p (of_nat n) (set (elected X s h p n))")
    case None
    then show ?thesis using elected_stuck [OF None, of "Suc m"] unfolding upt by (simp del: elected.simps upt_Suc)
  next
    case (Some a)
    then have "elected X s h p (Suc n) = elected X s h p n @ [a]" by simp
    then show ?thesis using Some Suc.IH [of "Suc n"] unfolding upt by (simp del: elected.simps upt_Suc)
  qed
qed simp

lemma slot_leader_at_rank_elected:
  "slot_leader_at_rank X s h p r =
     (if elected X s h p (unat r + 1) = [] then None else Some (last (elected X s h p (unat r + 1))))"
proof (cases "es_validators s = []")
  case True
  then have "slot_leader_excluding X s h p k E = None" for k E
    by (simp add: slot_leader_excluding_def)
  then have "elected X s h p n = []" for n by (induction n) auto
  then show ?thesis using True by (simp add: slot_leader_at_rank_def del: elected.simps)
next
  case False
  then show ?thesis
    using leader_loop_elected [of X s h p 0 "unat r + 1"]
    by (simp add: slot_leader_at_rank_def ranks_upto_def del: elected.simps(2))
qed

definition valid_snapshot :: "epoch_snapshot \<Rightarrow> bool" where
  "valid_snapshot s \<longleftrightarrow> distinct (map val_address (es_validators s))
     \<and> (\<forall>v \<in> set (es_validators s). val_stake v \<noteq> 0) \<and> nat_stake (es_validators s) < 2 ^ 64"

lemma nat_stake_filter_le: "nat_stake (filter P vs) \<le> nat_stake vs"
  by (induction vs) auto

lemma nat_stake_eq_0: "nat_stake vs = 0 \<longleftrightarrow> (\<forall>v \<in> set vs. val_stake v = 0)"
  by (induction vs) (auto simp: unat_eq_0)

lemma slot_leader_excluding_Some:
  assumes "valid_snapshot s" "E \<subset> val_address ` set (es_validators s)"
  obtains a where "slot_leader_excluding X s h p k E = Some a"
proof -
  let ?c = "filter (\<lambda>v. val_address v \<notin> E) (es_validators s)"
  obtain v where v: "v \<in> set ?c" using assms(2) by auto
  then have "nat_stake ?c \<noteq> 0" using assms(1) by (auto simp: nat_stake_eq_0 valid_snapshot_def)
  moreover have "unat (stake_sum ?c) = nat_stake ?c"
    using nat_stake_filter_le assms(1) by (intro unat_stake_sum) (auto simp: valid_snapshot_def intro: le_less_trans)
  ultimately have "stake_sum ?c \<noteq> 0" by auto
  then show ?thesis using slot_leader_excluding_None_iff [of X s h p k E] that by force
qed

lemma elected_props:
  assumes "valid_snapshot s"
  shows "distinct (elected X s h p n) \<and> set (elected X s h p n) \<subseteq> val_address ` set (es_validators s)
    \<and> length (elected X s h p n) = min n (length (es_validators s))"
proof (induction n)
  case (Suc n)
  let ?e = "elected X s h p n" and ?A = "val_address ` set (es_validators s)"
  have cardA: "card ?A = length (es_validators s)"
    using assms distinct_card [of "map val_address (es_validators s)"] by (simp add: valid_snapshot_def)
  show ?case
  proof (cases "set ?e = ?A")
    case True
    then have full: "length ?e = length (es_validators s)"
      using Suc cardA distinct_card by metis
    have "slot_leader_excluding X s h p (of_nat n) (set ?e) = None"
      using slot_leader_excluding_in [of X s h p "of_nat n" "set ?e"] True by (cases "slot_leader_excluding X s h p (of_nat n) (set ?e)") auto
    then show ?thesis using Suc full by (auto simp: min_def)
  next
    case False
    then have "set ?e \<subset> ?A" using Suc by auto
    then obtain a where a: "slot_leader_excluding X s h p (of_nat n) (set ?e) = Some a"
      using slot_leader_excluding_Some [OF assms] by blast
    have "length ?e < length (es_validators s)"
      using \<open>set ?e \<subset> ?A\<close> Suc cardA psubset_card_mono [of ?A "set ?e"] distinct_card [of ?e] by simp
    then show ?thesis using a Suc slot_leader_excluding_in [OF a] by auto
  qed
qed simp

lemma elected_prefix: "n \<le> m \<Longrightarrow> \<exists>zs. elected X s h p m = elected X s h p n @ zs"
proof (induction m)
  case (Suc m)
  then show ?case
    by (cases "n = Suc m") (auto split: option.splits simp: le_Suc_eq)
qed simp

lemma elected_nth:
  assumes "valid_snapshot s" "n < length (es_validators s)" "n < m"
  shows "elected X s h p m ! n = last (elected X s h p (Suc n))"
proof -
  obtain zs where zs: "elected X s h p m = elected X s h p (Suc n) @ zs"
    using elected_prefix [of "Suc n" m X s h p] assms(3) by (metis Suc_leI)
  have "length (elected X s h p (Suc n)) = Suc n"
    using elected_props [OF assms(1), of X h p "Suc n"] assms(2) by simp
  then show ?thesis
    unfolding zs by (metis diff_Suc_1 last_conv_nth length_0_conv lessI nat.distinct(1) nth_append)
qed

section \<open>The validator set\<close>

lemma as_validator_Some: "as_validator pos (address, a) = Some v \<longleftrightarrow> val_address v = address
     \<and> is_active_validator pos address a \<and> acc_public_key a = Some (val_public_key v)
     \<and> val_stake v = acc_staked_balance a"
  by (cases v) (auto simp: as_validator_def is_active_validator_def)

lemma active_validators_set:
  "finite (dom accs) \<Longrightarrow> v \<in> set (active_validators pos accs) \<longleftrightarrow>
     (\<exists>a. accs (val_address v) = Some a \<and> is_active_validator pos (val_address v) a
        \<and> acc_public_key a = Some (val_public_key v) \<and> val_stake v = acc_staked_balance a)"
  by (auto simp: active_validators_def in_map_filter set_entries as_validator_Some Bex_def)

lemma active_validators_distinct: "distinct (map val_address (active_validators pos accs))"
proof -
  have "distinct (map val_address (List.map_filter (as_validator pos) (entries accs)))"
    by (rule distinct_map_filter [of fst]) (auto simp: map_fst_entries as_validator_Some)
  then show ?thesis
    by (simp add: active_validators_def distinct_map)
qed

section \<open>Settlement, per account\<close>

lemma reward_address: "validator_reward_for pr v = Some r \<Longrightarrow> vr_address r = val_address v"
  by (auto simp: validator_reward_for_def Let_def split: if_splits)

lemma penalty_address: "validator_penalty_for pr m v = Some r \<Longrightarrow> vp_address r = val_address v"
  by (auto simp: validator_penalty_for_def Let_def split: if_splits)

definition reward_amount :: "(bytes \<rightharpoonup> u64) \<Rightarrow> validator \<Rightarrow> u64" where
  "reward_amount pr v = (case validator_reward_for pr v of None \<Rightarrow> 0 | Some r \<Rightarrow> vr_amount r)"

definition penalty_amount :: "(bytes \<rightharpoonup> u64) \<Rightarrow> (bytes \<rightharpoonup> u64) \<Rightarrow> validator \<Rightarrow> u64" where
  "penalty_amount pr m v = (case validator_penalty_for pr m v of None \<Rightarrow> 0 | Some r \<Rightarrow> vp_amount r)"

lemma reward_amount_eq: "reward_amount pr v = (if 0 < get_or 0 pr (val_address v)
     then sat_mul (sat_mul (val_stake v div 1000000) 100) (get_or 0 pr (val_address v)) else 0)"
  by (simp add: reward_amount_def validator_reward_for_def consensus_consts Let_def word_gt_0)

lemma sat_sub_0 [simp]: "sat_sub m 0 = m"
  by (simp add: sat_sub_def)

lemma sat_sub_less: "b < a \<Longrightarrow> sat_sub a b = a - b"
  by (simp add: sat_sub_def order_less_imp_le)

lemma penalty_amount_eq: "penalty_amount pr m v =
     (if 0 < get_or 0 pr (val_address v) then 0
      else if sat_add (get_or 0 m (val_address v)) 1 > 2
      then sat_mul (sat_mul (val_stake v div 1000000) 50) (sat_add (get_or 0 m (val_address v)) 1 - 2) else 0)"
  by (simp add: penalty_amount_def validator_penalty_for_def consensus_consts Let_def word_gt_0 sat_sub_less)

lemma rewards_effect:
  assumes "distinct (map val_address vs)"
  shows "fold apply_reward (List.map_filter (validator_reward_for pr) vs) accs addr =
    (case find (\<lambda>r. vr_address r = addr) (List.map_filter (validator_reward_for pr) vs) of
       None \<Rightarrow> accs addr
     | Some r \<Rightarrow> Some ((get_or default_account accs addr)
         \<lparr>acc_balance := sat_add (acc_balance (get_or default_account accs addr)) (vr_amount r)\<rparr>))"
proof -
  have "distinct (map vr_address (List.map_filter (validator_reward_for pr) vs))"
    using assms by (rule distinct_map_filter) (rule reward_address)
  from fold_point_upd [OF this, where d = default_account
      and u = "\<lambda>r a. a\<lparr>acc_balance := sat_add (acc_balance a) (vr_amount r)\<rparr>"]
  show ?thesis by (simp add: apply_reward_def [abs_def] Let_def)
qed

lemma penalties_effect:
  assumes "distinct (map val_address vs)"
  shows "fold apply_penalty (List.map_filter (validator_penalty_for pr m) vs) accs addr =
    (case find (\<lambda>r. vp_address r = addr) (List.map_filter (validator_penalty_for pr m) vs) of
       None \<Rightarrow> accs addr
     | Some r \<Rightarrow> Some ((get_or default_account accs addr)
         \<lparr>acc_staked_balance := sat_sub (acc_staked_balance (get_or default_account accs addr)) (vp_amount r)\<rparr>))"
proof -
  have "distinct (map vp_address (List.map_filter (validator_penalty_for pr m) vs))"
    using assms by (rule distinct_map_filter) (rule penalty_address)
  from fold_point_upd [OF this, where d = default_account
      and u = "\<lambda>r a. a\<lparr>acc_staked_balance := sat_sub (acc_staked_balance a) (vp_amount r)\<rparr>"]
  show ?thesis by (simp add: apply_penalty_def [abs_def] Let_def)
qed

lemma settlement_at:
  assumes "distinct (map val_address (es_validators s))" "v \<in> set (es_validators s)"
  shows "get_or default_account (apply_epoch_settlement (compute_epoch_settlement s pr m) accs) (val_address v)
    = (get_or default_account accs (val_address v))
        \<lparr>acc_balance := sat_add (acc_balance (get_or default_account accs (val_address v))) (reward_amount pr v),
         acc_staked_balance := sat_sub (acc_staked_balance (get_or default_account accs (val_address v)))
           (penalty_amount pr m v)\<rparr>"
proof -
  have "find (\<lambda>r. vr_address r = val_address v) (List.map_filter (validator_reward_for pr) (es_validators s))
      = validator_reward_for pr v"
      "find (\<lambda>r. vp_address r = val_address v) (List.map_filter (validator_penalty_for pr m) (es_validators s))
      = validator_penalty_for pr m v"
    by (rule find_map_filter [OF assms], erule reward_address)
      (rule find_map_filter [OF assms], erule penalty_address)
  then show ?thesis
    using assms(1)
    by (simp add: apply_epoch_settlement_def compute_epoch_settlement_def Let_def get_or_def
        rewards_effect penalties_effect reward_amount_def penalty_amount_def sat_sub_def
        split: option.split)
qed

lemma settlement_other:
  assumes "distinct (map val_address (es_validators s))" "addr \<notin> val_address ` set (es_validators s)"
  shows "apply_epoch_settlement (compute_epoch_settlement s pr m) accs addr = accs addr"
proof -
  have "find (\<lambda>r. vr_address r = addr) (List.map_filter (validator_reward_for pr) (es_validators s)) = None"
       "find (\<lambda>r. vp_address r = addr) (List.map_filter (validator_penalty_for pr m) (es_validators s)) = None"
    using assms(2) by (auto simp: find_None_iff in_map_filter dest: reward_address penalty_address)
  then show ?thesis
    using assms(1) by (simp add: apply_epoch_settlement_def compute_epoch_settlement_def Let_def
        rewards_effect penalties_effect)
qed

section \<open>Properties\<close>

text \<open>C30. The leader schedule. For a snapshot of validators with distinct addresses, positive stakes
  and a total that fits in 64 bits, every rank has a leader, and it is one of the validators; the
  leaders of distinct ranks below the number of validators are distinct, so the ranks enumerate
  the whole set; and every higher rank falls back to the last of them.\<close>
theorem slot_leader_schedule:
  assumes "valid_snapshot s" and "es_validators s \<noteq> []"
  shows "\<exists>leader. (\<forall>r. slot_leader_at_rank X s h p r = Some (leader (min (unat r) (length (es_validators s) - 1))))
    \<and> inj_on leader {..<length (es_validators s)}
    \<and> leader ` {..<length (es_validators s)} = val_address ` set (es_validators s)"
proof (intro exI conjI)
  let ?n = "length (es_validators s)" and ?e = "elected X s h p"
  let ?leader = "\<lambda>i. ?e ?n ! i"
  have n: "0 < ?n" using assms(2) by simp
  have full: "distinct (?e ?n)" "set (?e ?n) \<subseteq> val_address ` set (es_validators s)" "length (?e ?n) = ?n"
    using elected_props [OF assms(1), of X h p ?n] by auto
  have "card (val_address ` set (es_validators s)) = ?n"
    using assms(1) distinct_card [of "map val_address (es_validators s)"] by (simp add: valid_snapshot_def)
  then have set_eq: "set (?e ?n) = val_address ` set (es_validators s)"
    using full distinct_card [of "?e ?n"] by (intro card_subset_eq) auto
  show "inj_on ?leader {..<?n}"
    using full(1,3) by (simp add: inj_on_nth)
  show "?leader ` {..<?n} = val_address ` set (es_validators s)"
    unfolding set_eq [symmetric] using full(3) by (auto simp: set_conv_nth)
  show "\<forall>r. slot_leader_at_rank X s h p r = Some (?leader (min (unat r) (?n - 1)))"
  proof
    fix r :: u32
    have len: "length (?e (unat r + 1)) = min (unat r + 1) ?n"
      using elected_props [OF assms(1), of X h p "unat r + 1"] by simp
    have "last (?e (unat r + 1)) = ?leader (min (unat r) (?n - 1))"
    proof (cases "unat r < ?n")
      case True
      then show ?thesis using elected_nth [OF assms(1) True True, of X h p] by simp
    next
      case False
      then obtain zs where "?e (unat r + 1) = ?e ?n @ zs"
        using elected_prefix [of ?n "unat r + 1" X s h p] by auto
      then have "?e (unat r + 1) = ?e ?n" using len full(3) False by (simp del: elected.simps)
      moreover have "min (unat r) (?n - 1) = ?n - 1" using False by simp
      moreover have "last (?e ?n) = ?leader (?n - 1)"
        using full(3) n by (metis last_conv_nth length_greater_0_conv)
      ultimately show ?thesis by (simp del: elected.simps)
    qed
    moreover have "0 < length (?e (unat r + 1))" unfolding len using n by simp
    ultimately show "slot_leader_at_rank X s h p r = Some (?leader (min (unat r) (?n - 1)))"
      by (simp add: slot_leader_at_rank_elected del: elected.simps)
  qed
qed

definition demo_snapshot :: epoch_snapshot where
  "demo_snapshot = \<lparr>es_epoch = 0, es_start_height = 0,
     es_validators = [\<lparr>val_address = [1], val_public_key = [11], val_stake = 60\<rparr>,
       \<lparr>val_address = [2], val_public_key = [12], val_stake = 40\<rparr>], es_total_stake = 100\<rparr>"

lemma demo_snapshot_valid: "valid_snapshot demo_snapshot"
  by (simp add: valid_snapshot_def demo_snapshot_def)

theorem slot_leader_schedule_witness:
  "\<exists>leader. (\<forall>r. slot_leader_at_rank demo_externs demo_snapshot 5 [9] r = Some (leader (min (unat r) 1)))
     \<and> inj_on leader {..<2} \<and> leader ` {..<2} = {[1], [2]}"
  using slot_leader_schedule [OF demo_snapshot_valid, of demo_externs 5 "[9]"]
  by (simp add: demo_snapshot_def numeral_2_eq_2)

text \<open>Selection is proportional to stake: among the selectors below the total stake, the number
  that pick a given validator is exactly its stake, and every such selector picks somebody.\<close>
theorem selection_proportional_to_stake:
  assumes "distinct vs" and "nat_stake vs < 2 ^ 64" and "v \<in> set vs"
  shows "card {sel. sel < stake_sum vs \<and> pick_by_stake sel vs = Some v} = unat (val_stake v)
    \<and> (\<forall>sel < stake_sum vs. pick_by_stake sel vs \<noteq> None)"
proof
  let ?N = "{n. pick_nat n vs = Some v}"
  have small: "n < 2 ^ 64 \<and> n < nat_stake vs" if "n \<in> ?N" for n
    using that pick_nat_total [of n vs] assms(2) by auto
  have total: "unat (stake_sum vs) = nat_stake vs" by (rule unat_stake_sum [OF assms(2)])
  have "{sel :: u64. sel < stake_sum vs \<and> pick_by_stake sel vs = Some v} = of_nat ` ?N"
  proof (intro set_eqI iffI)
    fix sel :: u64 assume "sel \<in> {sel. sel < stake_sum vs \<and> pick_by_stake sel vs = Some v}"
    then show "sel \<in> of_nat ` ?N"
      by (auto simp: pick_by_stake_nat image_iff intro!: exI [of _ "unat sel"])
  next
    fix sel :: u64 assume "sel \<in> of_nat ` ?N"
    then obtain n where n: "n \<in> ?N" "sel = of_nat n" by auto
    then have "unat sel = n" using small by (simp add: unat_of_nat_small)
    then show "sel \<in> {sel. sel < stake_sum vs \<and> pick_by_stake sel vs = Some v}"
      using n small [OF n(1)] total by (simp add: pick_by_stake_nat word_less_nat_alt)
  qed
  moreover have "inj_on (of_nat :: nat \<Rightarrow> u64) ?N"
    using small by (auto intro!: inj_onI dest!: arg_cong [where f = unat] simp: unat_of_nat_small)
  ultimately have "card {sel :: u64. sel < stake_sum vs \<and> pick_by_stake sel vs = Some v} = card ?N"
    by (simp add: card_image)
  then show "card {sel. sel < stake_sum vs \<and> pick_by_stake sel vs = Some v} = unat (val_stake v)"
    using card_pick_nat [of vs v] sum_list_single [OF assms(1,3), of "\<lambda>w. unat (val_stake w)"] by simp
  show "\<forall>sel < stake_sum vs. pick_by_stake sel vs \<noteq> None"
    using pick_nat_total [of _ vs] total by (auto simp: pick_by_stake_nat word_less_nat_alt)
qed

theorem selection_proportional_to_stake_witness:
  "card {sel. sel < stake_sum (es_validators demo_snapshot)
      \<and> pick_by_stake sel (es_validators demo_snapshot)
        = Some \<lparr>val_address = [2], val_public_key = [12], val_stake = 40\<rparr>} = 40"
  using selection_proportional_to_stake [of "es_validators demo_snapshot"
      "\<lparr>val_address = [2], val_public_key = [12], val_stake = 40\<rparr>"]
  by (simp add: demo_snapshot_def)

text \<open>The backup rank a timestamp admits is the number of whole timeouts since the parent, capped
  at the last validator of the snapshot.\<close>
lemma unat_allowed_backup_rank:
  assumes "0 \<le> parent" and "block < 2 ^ 63" and "n < 2 ^ 32"
  shows "unat (allowed_backup_rank parent block n) =
    (if block \<le> parent then 0 else min (nat (block - parent) div 30) (n - 1))"
proof (cases "n \<le> 1 \<or> block \<le> parent")
  case True
  then show ?thesis by (auto simp: allowed_backup_rank_def)
next
  case False
  let ?gap = "of_int (block - parent) :: u64"
  have gap: "unat ?gap = nat (block - parent)"
    using False assms by (intro unat_of_int_u64) auto
  have max_rank: "unat (of_nat (n - 1) :: u64) = n - 1"
    using assms(3) by (intro unat_of_nat_small) (simp add: less_imp_diff_less)
  have div: "unat (?gap div 30) = nat (block - parent) div 30"
    using gap by (simp add: unat_div_distrib)
  have "min (nat (block - parent) div 30) (n - 1) < 2 ^ 32" using assms(3) by auto
  then have "unat (ucast (min (?gap div 30) (of_nat (n - 1))) :: u32) = min (nat (block - parent) div 30) (n - 1)"
    using div max_rank by (simp add: unat_ucast_small unat_min_u)
  moreover have "min (nat (block - parent) div 30) (n - 1) = 0" if "nat (block - parent) < 30"
    using that by simp
  ultimately show ?thesis
    using False gap by (auto simp: allowed_backup_rank_def consensus_consts Let_def word_less_nat_alt)
qed

text \<open>Slashing. Evidence is acted on exactly when it verifies, names a known account and that
  account was not slashed before. The penalty is 33 percent of the stake (rounded down) while 33
  times the stake fits in 64 bits, it is taken from the stake only, the account is jailed, and it
  belongs to no later validator set, at any height.\<close>
theorem slash_with_evidence_spec:
  fixes X pos accs ev jail
  defines "addr \<equiv> address_bytes_from_public_key X (ev_validator_public_key ev)"
  shows "case slash_with_evidence X pos accs ev jail of
      Inr (penalty, pos', accs') \<Rightarrow> evidence_verify X ev \<and> addr \<notin> pos_slashed_validators pos
        \<and> (\<exists>a. accs addr = Some a
            \<and> accs' = accs(addr \<mapsto> a\<lparr>acc_staked_balance := acc_staked_balance a - penalty,
                acc_jailed_until_height := sat_add (pos_current_height pos) jail\<rparr>)
            \<and> penalty \<le> acc_staked_balance a
            \<and> (33 * unat (acc_staked_balance a) < 2 ^ 64 \<longrightarrow>
                 unat penalty = 33 * unat (acc_staked_balance a) div 100))
        \<and> pos_slashed_validators pos' = insert addr (pos_slashed_validators pos)
        \<and> slash_with_evidence X pos' accs' ev jail = Inl AlreadySlashed
        \<and> (\<forall>h accs'' v. finite (dom accs'') \<longrightarrow>
             v \<in> set (active_validators (pos'\<lparr>pos_current_height := h\<rparr>) accs'') \<longrightarrow> val_address v \<noteq> addr)
    | Inl e \<Rightarrow> e = (if \<not> evidence_verify X ev then InvalidEvidence
        else if addr \<in> pos_slashed_validators pos then AlreadySlashed else ValidatorNotFound)
        \<and> (e = ValidatorNotFound \<longrightarrow> accs addr = None)"
proof (cases "slash_with_evidence X pos accs ev jail")
  case (Inl e)
  then show ?thesis
    by (auto simp: slash_with_evidence_def addr_def Let_def split: if_splits option.splits)
next
  case (Inr res)
  then obtain a where ok: "evidence_verify X ev" "addr \<notin> pos_slashed_validators pos" "accs addr = Some a"
    and res: "res = (sat_mul (acc_staked_balance a) 33 div 100,
      pos\<lparr>pos_slashed_validators := insert addr (pos_slashed_validators pos)\<rparr>,
      accs(addr \<mapsto> a\<lparr>acc_staked_balance := sat_sub (acc_staked_balance a) (sat_mul (acc_staked_balance a) 33 div 100),
        acc_jailed_until_height := sat_add (pos_current_height pos) jail\<rparr>))"
    by (auto simp: slash_with_evidence_def addr_def Let_def consensus_consts split: if_splits option.splits)
  let ?p = "sat_mul (acc_staked_balance a) 33 div 100"
  have up: "unat ?p = min (33 * unat (acc_staked_balance a)) (2 ^ 64 - 1) div 100"
    by (simp add: unat_div_distrib unat_sat_mul mult.commute)
  also have "\<dots> \<le> unat (acc_staked_balance a)"
    by (rule order_trans [OF div_le_mono [OF min.cobounded1]]) simp
  finally have le: "?p \<le> acc_staked_balance a" by (simp add: word_le_nat_alt)
  have again: "slash_with_evidence X (fst (snd res)) (snd (snd res)) ev jail = Inl AlreadySlashed"
    using ok by (simp add: slash_with_evidence_def res addr_def)
  have "val_address v \<noteq> addr" if "finite (dom accs'')"
      "v \<in> set (active_validators ((fst (snd res))\<lparr>pos_current_height := h\<rparr>) accs'')" for h accs'' v
    using that by (auto simp: active_validators_set is_active_validator_def res)
  then show ?thesis using Inr ok le again up by (simp add: res sat_sub_def)
qed

text \<open>Epoch settlement, account by account. Over a snapshot with distinct addresses, a validator
  that produced blocks gains its reward on the liquid balance and keeps its stake, one that did not
  loses its inactivity penalty from the stake and keeps its balance, nothing else of either account
  changes, and every account outside the snapshot is untouched.\<close>
theorem epoch_settlement_per_account:
  assumes "distinct (map val_address (es_validators s))"
  shows "(\<forall>v \<in> set (es_validators s).
      let a = get_or default_account accs (val_address v);
          a' = get_or default_account (apply_epoch_settlement (compute_epoch_settlement s pr m) accs) (val_address v);
          cur = val_stake v div 1000000;
          missed = sat_add (get_or 0 m (val_address v)) 1
      in if 0 < get_or 0 pr (val_address v)
         then a' = a\<lparr>acc_balance := sat_add (acc_balance a) (sat_mul (sat_mul cur 100) (get_or 0 pr (val_address v)))\<rparr>
         else a' = a\<lparr>acc_staked_balance := sat_sub (acc_staked_balance a)
                (if missed > 2 then sat_mul (sat_mul cur 50) (missed - 2) else 0)\<rparr>)
    \<and> (\<forall>addr. addr \<notin> val_address ` set (es_validators s) \<longrightarrow>
        apply_epoch_settlement (compute_epoch_settlement s pr m) accs addr = accs addr)"
  using assms
  by (auto simp: settlement_at settlement_other reward_amount_eq penalty_amount_eq Let_def sat_sub_0)

theorem epoch_settlement_per_account_witness:
  "get_or default_account (apply_epoch_settlement
      (compute_epoch_settlement (demo_snapshot\<lparr>es_validators := [\<lparr>val_address = [1], val_public_key = [11],
         val_stake = 5000000\<rparr>]\<rparr>) [[1] \<mapsto> 3] Map.empty) Map.empty) [1]
     = default_account\<lparr>acc_balance := 1500\<rparr>"
  using epoch_settlement_per_account [of "demo_snapshot\<lparr>es_validators := [\<lparr>val_address = [1],
      val_public_key = [11], val_stake = 5000000\<rparr>]\<rparr>" "Map.empty" "[[1] \<mapsto> 3]" "Map.empty"]
  by (simp add: Let_def default_account_def sat_mul_def)

text \<open>Unforgeability of the signatures of a key on the messages \<open>M\<close>: a signature of one of them
  does not verify for another.\<close>
definition sigs_separate :: "externs \<Rightarrow> key_pair \<Rightarrow> bytes set \<Rightarrow> bool" where
  "sigs_separate X kp M \<longleftrightarrow> (\<forall>m\<in>M. \<forall>m'\<in>M. \<forall>sig. m \<noteq> m' \<longrightarrow> dilithium_sign X kp m = Some sig \<longrightarrow>
     \<not> dilithium_verify X m' sig (kp_public_key kp))"

text \<open>The evidence the network layer assembles from two conflicting signed blocks
  (\<^verbatim>\<open>src/src/network/mod.rs\<close>, \<open>handle_new_block\<close>).\<close>
definition evidence_of_blocks :: "block \<Rightarrow> block \<Rightarrow> equivocation_evidence option" where
  "evidence_of_blocks our_block b =
     (if hdr_validator_public_key (blk_header our_block) = hdr_validator_public_key (blk_header b)
        \<and> blk_hash our_block \<noteq> blk_hash b
      then case (blk_signature our_block, blk_signature b) of
        (Some sig_a, Some sig_b) \<Rightarrow> Some \<lparr>ev_height = blk_height b,
          ev_validator_public_key = hdr_validator_public_key (blk_header b),
          ev_block_header_a = blk_header our_block, ev_block_hash_a = blk_hash our_block,
          ev_signature_a = sig_a,
          ev_block_header_b = blk_header b, ev_block_hash_b = blk_hash b, ev_signature_b = sig_b\<rparr>
      | _ \<Rightarrow> None
      else None)"

lemma block_new_signature:
  assumes "block_new X now v h prev root gas base txs kp = Some b"
  shows "\<exists>sig. blk_signature b = Some sig \<and> dilithium_sign X kp (signable_block_hash (blk_hash b)) = Some sig
    \<and> hdr_validator_public_key (blk_header b) = kp_public_key kp \<and> blk_height b = h"
  using assms by (auto simp: block_new_def Let_def split: option.splits)

lemma signable_block_hash_neq: "signable_block_hash h \<noteq> h"
  by (simp add: signable_block_hash_def ascii_def)

text \<open>C36. Equivocation evidence made from real blocks never verifies: \<open>verify\<close> checks the signatures
  against the bare block hash, while \<open>Block::new\<close> signs the domain-separated
  \<open>signable_block_hash\<close>. So two conflicting blocks signed by one validator at one height, which are
  exactly what slashing is for, are rejected as evidence.\<close>
theorem evidence_from_blocks_rejected:
  assumes "block_new X now v h prev root gas base txs kp = Some a"
    and "block_new X now' v' h prev' root' gas' base' txs' kp = Some b"
    and "sigs_separate X kp {blk_hash a, signable_block_hash (blk_hash a)}"
    and "evidence_of_blocks a b = Some ev"
  shows "\<not> evidence_verify X ev \<and> slash_with_evidence X pos accs ev jail = Inl InvalidEvidence"
proof -
  obtain sig where sig: "blk_signature a = Some sig"
      "dilithium_sign X kp (signable_block_hash (blk_hash a)) = Some sig"
    using block_new_signature [OF assms(1)] by auto
  have "\<not> dilithium_verify X (blk_hash a) sig (kp_public_key kp)"
    using assms(3) sig(2) signable_block_hash_neq unfolding sigs_separate_def by blast
  moreover have "ev_signature_a ev = sig" "ev_block_hash_a ev = blk_hash a"
      "ev_validator_public_key ev = kp_public_key kp"
    using assms(4) sig block_new_signature [OF assms(2)] by (auto simp: evidence_of_blocks_def split: option.splits if_splits)
  ultimately have "\<not> evidence_verify X ev" by (simp add: evidence_verify_def)
  then show ?thesis by (simp add: slash_with_evidence_def)
qed

definition demo_slash_externs :: externs where
  "demo_slash_externs = demo_externs\<lparr>x_bin_header := (\<lambda>h. u64_le (hdr_gas_used h))\<rparr>"

definition demo_kp :: key_pair where
  "demo_kp = \<lparr>kp_public_key = replicate 2592 1, kp_secret_key = replicate 32 1\<rparr>"

definition demo_header :: "u64 \<Rightarrow> block_header" where
  "demo_header gas = \<lparr>hdr_version = 5, hdr_height = 9, hdr_timestamp = 0, hdr_prev_hash = [],
     hdr_merkle_root = [], hdr_state_root = [], hdr_gas_used = gas, hdr_base_fee_per_gas = 1,
     hdr_validator_public_key = replicate 2592 1, hdr_nonce = 0\<rparr>"

definition demo_evidence :: equivocation_evidence where
  "demo_evidence = \<lparr>ev_height = 9, ev_validator_public_key = replicate 2592 1,
     ev_block_header_a = demo_header 1, ev_block_hash_a = compute_hash demo_slash_externs (demo_header 1),
     ev_signature_a = demo_sign (replicate 32 1) (compute_hash demo_slash_externs (demo_header 1)),
     ev_block_header_b = demo_header 2, ev_block_hash_b = compute_hash demo_slash_externs (demo_header 2),
     ev_signature_b = demo_sign (replicate 32 1) (compute_hash demo_slash_externs (demo_header 2))\<rparr>"

lemma demo_u64_le: "u64_le 1 = [1, 0, 0, 0, 0, 0, 0, 0]" "u64_le 2 = [2, 0, 0, 0, 0, 0, 0, 0]"
  by (simp_all add: le_bytes_def upt_rec)

lemma demo_compute_hash:
  "hdr_gas_used h = 1 \<Longrightarrow> compute_hash demo_slash_externs h = replicate 24 0 @ [1, 0, 0, 0, 0, 0, 0, 0]"
  "hdr_gas_used h = 2 \<Longrightarrow> compute_hash demo_slash_externs h = replicate 24 0 @ [2, 0, 0, 0, 0, 0, 0, 0]"
  by (simp_all add: compute_hash_def double_hash_def sha3_hash_def demo_slash_externs_def demo_sha3_def
      demo_u64_le)

lemma demo_dilithium_verify:
  "dilithium_verify demo_slash_externs m (demo_sign (replicate 32 1) m') (replicate 2592 1) \<longleftrightarrow>
     demo_sign (replicate 32 1) m' = demo_sign (replicate 32 1) m"
  by (simp add: dilithium_verify_def MLDSA_PK_LEN_def MLDSA_SIG_LEN_def demo_slash_externs_def)

lemma demo_sign_first: "m \<noteq> [] \<Longrightarrow> demo_sign (replicate 32 1) m ! 32 = hd m"
  by (cases m) (simp_all add: demo_sign_def nth_append)

theorem slash_with_evidence_spec_witness:
  "case slash_with_evidence demo_slash_externs
      \<lparr>pos_minimum_stake = 1, pos_slashed_validators = {}, pos_current_height = 10\<rparr>
      [address_bytes_from_public_key demo_slash_externs (replicate 2592 1) \<mapsto>
         default_account\<lparr>acc_staked_balance := 200\<rparr>] demo_evidence 64 of
     Inr (penalty, pos', accs') \<Rightarrow> unat penalty = 66
       \<and> slash_with_evidence demo_slash_externs pos' accs' demo_evidence 64 = Inl AlreadySlashed
   | Inl e \<Rightarrow> False"
proof -
  have "evidence_verify demo_slash_externs demo_evidence"
    by (simp add: evidence_verify_def demo_evidence_def demo_dilithium_verify demo_header_def demo_compute_hash)
  then show ?thesis
    using slash_with_evidence_spec [where X = demo_slash_externs and jail = 64 and ev = demo_evidence and
      pos = "\<lparr>pos_minimum_stake = 1, pos_slashed_validators = {}, pos_current_height = 10\<rparr>" and
      accs = "[address_bytes_from_public_key demo_slash_externs (replicate 2592 1) \<mapsto>
         default_account\<lparr>acc_staked_balance := 200\<rparr>]"]
    by (auto simp: demo_evidence_def split: sum.splits)
qed

lemma demo_sigs_separate:
  "sigs_separate demo_slash_externs demo_kp
     {replicate 24 0 @ [1, 0, 0, 0, 0, 0, 0, 0], signable_block_hash (replicate 24 0 @ [1, 0, 0, 0, 0, 0, 0, 0])}"
proof -
  let ?h = "replicate 24 0 @ [1, 0, 0, 0, 0, 0, 0, 0 :: u8]"
  have "demo_sign (replicate 32 1) (signable_block_hash ?h) ! 32 \<noteq> demo_sign (replicate 32 1) ?h ! 32"
    by (subst (1 2) demo_sign_first) (simp_all add: signable_block_hash_def ascii_def of_char_def)
  then have "demo_sign (replicate 32 1) (signable_block_hash ?h) \<noteq> demo_sign (replicate 32 1) ?h" by metis
  moreover have "dilithium_sign demo_slash_externs demo_kp m = Some (demo_sign (replicate 32 1) m)" for m
    by (simp add: dilithium_sign_def demo_kp_def demo_slash_externs_def)
  moreover have "kp_public_key demo_kp = replicate 2592 1" by (simp add: demo_kp_def)
  ultimately show ?thesis
    by (auto simp: sigs_separate_def demo_dilithium_verify)
qed

theorem evidence_from_blocks_rejected_witness:
  "\<exists>a b ev. block_new demo_slash_externs 0 5 9 [] [] 1 1 [] demo_kp = Some a
     \<and> block_new demo_slash_externs 0 5 9 [] [] 2 1 [] demo_kp = Some b
     \<and> evidence_of_blocks a b = Some ev
     \<and> slash_with_evidence demo_slash_externs
         \<lparr>pos_minimum_stake = 1, pos_slashed_validators = {}, pos_current_height = 10\<rparr> Map.empty ev 64
       = Inl InvalidEvidence"
proof -
  have sign: "dilithium_sign demo_slash_externs demo_kp m = Some (demo_sign (replicate 32 1) m)" for m
    by (simp add: dilithium_sign_def demo_kp_def demo_slash_externs_def)
  obtain a b where ab: "block_new demo_slash_externs 0 5 9 [] [] 1 1 [] demo_kp = Some a"
      "block_new demo_slash_externs 0 5 9 [] [] 2 1 [] demo_kp = Some b"
    by (simp add: block_new_def sign Let_def)
  then have hash: "blk_hash a = replicate 24 0 @ [1, 0, 0, 0, 0, 0, 0, 0]"
      "blk_hash b = replicate 24 0 @ [2, 0, 0, 0, 0, 0, 0, 0]"
    by (auto simp: block_new_def sign Let_def demo_compute_hash)
  obtain ev where ev: "evidence_of_blocks a b = Some ev"
    using block_new_signature [OF ab(1)] block_new_signature [OF ab(2)] hash
    by (auto simp: evidence_of_blocks_def)
  show ?thesis
    using evidence_from_blocks_rejected [OF ab _ ev] ab ev demo_sigs_separate hash by auto
qed

end
