(* ===== verification/Finality.thy ===== *)
theory Finality
  imports Consensus
begin

text \<open>
  The finality tracker of \<^verbatim>\<open>src/src/consensus/mod.rs\<close>: signed votes, one per validator and height,
  collected per block hash until two thirds of the snapshot's stake is reached. \<open>add_vote\<close> returns
  the finalized block, if any, and the new tracker; its early returns leave the tracker as it was,
  except that the deduplication entry and the vote are recorded once a vote has passed the checks.
\<close>

section \<open>Votes and the tracker\<close>

record finality_vote =
  fv_block_hash :: bytes
  fv_block_height :: u64
  fv_epoch :: u64
  fv_voter_public_key :: bytes
  fv_signature :: bytes

definition vote_signable_data :: "bytes \<Rightarrow> u64 \<Rightarrow> u64 \<Rightarrow> bytes" where
  "vote_signable_data block_hash block_height epoch =
     ascii ''curs3d-finality-vote-v1:'' @ block_hash @ u64_le block_height @ u64_le epoch"

definition finality_vote_new :: "externs \<Rightarrow> bytes \<Rightarrow> u64 \<Rightarrow> u64 \<Rightarrow> key_pair \<Rightarrow> finality_vote option" where
  "finality_vote_new X block_hash block_height epoch kp =
     (case dilithium_sign X kp (vote_signable_data block_hash block_height epoch) of
        None \<Rightarrow> None
      | Some sig \<Rightarrow> Some \<lparr>fv_block_hash = block_hash, fv_block_height = block_height, fv_epoch = epoch,
          fv_voter_public_key = kp_public_key kp, fv_signature = sig\<rparr>)"

definition vote_verify :: "externs \<Rightarrow> finality_vote \<Rightarrow> bool" where
  "vote_verify X v = dilithium_verify X
     (vote_signable_data (fv_block_hash v) (fv_block_height v) (fv_epoch v))
     (fv_signature v) (fv_voter_public_key v)"

record finalized_block =
  fb_hash :: bytes
  fb_height :: u64

record finality_tracker =
  ft_votes :: "bytes \<rightharpoonup> finality_vote list"
  ft_seen_votes :: "(bytes \<times> u64) set"
  ft_finalized_height :: u64
  ft_finalized_hash :: bytes

definition tracker_new :: finality_tracker where
  "tracker_new = \<lparr>ft_votes = Map.empty, ft_seen_votes = {}, ft_finalized_height = 0,
     ft_finalized_hash = []\<rparr>"

definition tracker_with_finalized :: "u64 \<Rightarrow> bytes \<Rightarrow> finality_tracker" where
  "tracker_with_finalized height hash = \<lparr>ft_votes = Map.empty, ft_seen_votes = {},
     ft_finalized_height = height, ft_finalized_hash = hash\<rparr>"

text \<open>Collecting into a \<^verbatim>\<open>HashMap\<close> keeps the last entry of a repeated key.\<close>
definition validator_stakes :: "epoch_snapshot \<Rightarrow> bytes \<rightharpoonup> u64" where
  "validator_stakes snapshot =
     map_of (rev (map (\<lambda>v. (val_public_key v, val_stake v)) (es_validators snapshot)))"

definition voted_stake :: "epoch_snapshot \<Rightarrow> finality_vote list \<Rightarrow> u64" where
  "voted_stake snapshot votes =
     sum_list (List.map_filter (\<lambda>v. validator_stakes snapshot (fv_voter_public_key v)) votes)"

text \<open>The second half of \<open>add_vote\<close>: count the recorded votes for the block and finalize it.\<close>
definition tally :: "finality_tracker \<Rightarrow> bytes \<Rightarrow> u64 \<Rightarrow> epoch_snapshot \<Rightarrow>
    finalized_block option \<times> finality_tracker" where
  "tally tr block_hash block_height snapshot =
     (let total_active_stake = es_total_stake snapshot in
      if total_active_stake = 0 then (None, tr)
      else let voted = (case ft_votes tr block_hash of Some votes \<Rightarrow> voted_stake snapshot votes | None \<Rightarrow> 0)
        in if sat_mul voted 3 \<ge> sat_mul total_active_stake 2
           then (Some \<lparr>fb_hash = block_hash, fb_height = block_height\<rparr>,
             tr\<lparr>ft_finalized_height := block_height, ft_finalized_hash := block_hash,
               ft_votes := (\<lambda>h. case ft_votes tr h of
                   Some (f # fs) \<Rightarrow> if fv_block_height f > block_height then Some (f # fs) else None
                 | _ \<Rightarrow> None),
               ft_seen_votes := {(k, h) \<in> ft_seen_votes tr. h > block_height}\<rparr>)
           else (None, tr))"

definition add_vote :: "externs \<Rightarrow> finality_tracker \<Rightarrow> finality_vote \<Rightarrow> epoch_snapshot \<Rightarrow>
    finalized_block option \<times> finality_tracker" where
  "add_vote X tr vote snapshot =
     (if \<not> vote_verify X vote then (None, tr)
      else if fv_epoch vote \<noteq> es_epoch snapshot then (None, tr)
      else if fv_block_height vote \<le> ft_finalized_height tr then (None, tr)
      else if validator_stakes snapshot (fv_voter_public_key vote) = None then (None, tr)
      else if (fv_voter_public_key vote, fv_block_height vote) \<in> ft_seen_votes tr then (None, tr)
      else
        let tr1 = tr\<lparr>ft_seen_votes := insert (fv_voter_public_key vote, fv_block_height vote) (ft_seen_votes tr)\<rparr>;
            votes = get_or [] (ft_votes tr1) (fv_block_hash vote)
        in if \<exists>v \<in> set votes. fv_voter_public_key v = fv_voter_public_key vote then (None, tr1)
           else tally (tr1\<lparr>ft_votes := (ft_votes tr1)(fv_block_hash vote \<mapsto> votes @ [vote])\<rparr>)
             (fv_block_hash vote) (fv_block_height vote) snapshot)"

section \<open>Invariant of the tracker\<close>

definition votes_ok :: "externs \<Rightarrow> bytes \<Rightarrow> finality_vote list \<Rightarrow> bool" where
  "votes_ok X h vs \<longleftrightarrow> distinct (map fv_voter_public_key vs) \<and>
     (\<forall>v \<in> set vs. vote_verify X v \<and> fv_block_hash v = h)"

definition tracker_inv :: "externs \<Rightarrow> finality_tracker \<Rightarrow> bool" where
  "tracker_inv X tr \<longleftrightarrow> (\<forall>h vs. ft_votes tr h = Some vs \<longrightarrow> votes_ok X h vs)"

lemma votes_ok_get_or: "tracker_inv X tr \<Longrightarrow> votes_ok X h (get_or [] (ft_votes tr) h)"
  by (auto simp: tracker_inv_def get_or_def votes_ok_def split: option.split)

text \<open>The state of \<open>add_vote\<close> when it counts: the vote passed every check and was recorded.\<close>
definition counted :: "externs \<Rightarrow> finality_tracker \<Rightarrow> finality_vote \<Rightarrow> epoch_snapshot \<Rightarrow> bool" where
  "counted X tr vote s \<longleftrightarrow> vote_verify X vote \<and> fv_epoch vote = es_epoch s
     \<and> ft_finalized_height tr < fv_block_height vote
     \<and> validator_stakes s (fv_voter_public_key vote) \<noteq> None
     \<and> (fv_voter_public_key vote, fv_block_height vote) \<notin> ft_seen_votes tr
     \<and> (\<forall>v \<in> set (get_or [] (ft_votes tr) (fv_block_hash vote)). fv_voter_public_key v \<noteq> fv_voter_public_key vote)"

definition recorded :: "finality_tracker \<Rightarrow> finality_vote \<Rightarrow> finality_tracker" where
  "recorded tr vote = tr\<lparr>ft_seen_votes := insert (fv_voter_public_key vote, fv_block_height vote) (ft_seen_votes tr),
     ft_votes := (ft_votes tr)(fv_block_hash vote \<mapsto> get_or [] (ft_votes tr) (fv_block_hash vote) @ [vote])\<rparr>"

lemma recorded_fields [simp]:
  "ft_finalized_height (recorded tr vote) = ft_finalized_height tr"
  "ft_votes (recorded tr vote) = (ft_votes tr)(fv_block_hash vote \<mapsto>
     get_or [] (ft_votes tr) (fv_block_hash vote) @ [vote])"
  by (simp_all add: recorded_def)

lemma add_vote_counted:
  "counted X tr vote s \<Longrightarrow>
     add_vote X tr vote s = tally (recorded tr vote) (fv_block_hash vote) (fv_block_height vote) s"
  by (auto simp: add_vote_def counted_def recorded_def Let_def not_le [symmetric])

lemma add_vote_not_counted:
  "\<not> counted X tr vote s \<Longrightarrow> \<exists>tr'. add_vote X tr vote s = (None, tr') \<and> ft_votes tr' = ft_votes tr
     \<and> ft_finalized_height tr' = ft_finalized_height tr \<and> ft_finalized_hash tr' = ft_finalized_hash tr"
  unfolding add_vote_def counted_def Let_def by (simp add: not_le [symmetric] split del: if_split) auto

lemma tally_cases:
  obtains "tally tr h ht s = (None, tr)"
  | votes where "tally tr h ht s = (Some \<lparr>fb_hash = h, fb_height = ht\<rparr>, snd (tally tr h ht s))"
      "es_total_stake s \<noteq> 0"
      "sat_mul (es_total_stake s) 2 \<le> sat_mul (case ft_votes tr h of Some votes \<Rightarrow> voted_stake s votes | None \<Rightarrow> 0) 3"
      "ft_finalized_height (snd (tally tr h ht s)) = ht" "ft_finalized_hash (snd (tally tr h ht s)) = h"
      "\<And>k vs. ft_votes (snd (tally tr h ht s)) k = Some vs \<Longrightarrow> ft_votes tr k = Some vs"
proof (cases "es_total_stake s \<noteq> 0 \<and>
    sat_mul (es_total_stake s) 2 \<le> sat_mul (case ft_votes tr h of Some votes \<Rightarrow> voted_stake s votes | None \<Rightarrow> 0) 3")
  case True
  then show thesis
    by (intro that(2)) (auto simp: tally_def Let_def split: option.splits list.splits if_splits)
next
  case False
  then show thesis by (intro that(1)) (auto simp: tally_def Let_def)
qed

lemma add_vote_Some:
  assumes "add_vote X tr vote s = (Some fb, tr')"
  shows "counted X tr vote s" "fb = \<lparr>fb_hash = fv_block_hash vote, fb_height = fv_block_height vote\<rparr>"
    "es_total_stake s \<noteq> 0"
    "sat_mul (es_total_stake s) 2
       \<le> sat_mul (voted_stake s (get_or [] (ft_votes tr) (fv_block_hash vote) @ [vote])) 3"
    "ft_finalized_height tr' = fv_block_height vote" "ft_finalized_hash tr' = fv_block_hash vote"
proof -
  show c: "counted X tr vote s" using assms add_vote_not_counted by fastforce
  have t: "tally (recorded tr vote) (fv_block_hash vote) (fv_block_height vote) s = (Some fb, tr')"
    using assms add_vote_counted [OF c] by simp
  show "fb = \<lparr>fb_hash = fv_block_hash vote, fb_height = fv_block_height vote\<rparr>" "es_total_stake s \<noteq> 0"
    "sat_mul (es_total_stake s) 2
       \<le> sat_mul (voted_stake s (get_or [] (ft_votes tr) (fv_block_hash vote) @ [vote])) 3"
    "ft_finalized_height tr' = fv_block_height vote" "ft_finalized_hash tr' = fv_block_hash vote"
    using t by (cases rule: tally_cases [of "recorded tr vote" "fv_block_hash vote" "fv_block_height vote" s]; simp)+
qed

lemma add_vote_None:
  assumes "add_vote X tr vote s = (None, tr')"
  shows "ft_finalized_height tr' = ft_finalized_height tr \<and> ft_finalized_hash tr' = ft_finalized_hash tr"
proof (cases "counted X tr vote s")
  case True
  then have t: "tally (recorded tr vote) (fv_block_hash vote) (fv_block_height vote) s = (None, tr')"
    using assms add_vote_counted by simp
  show ?thesis using t
    by (cases rule: tally_cases [of "recorded tr vote" "fv_block_hash vote" "fv_block_height vote" s]) (auto simp: recorded_def)
next
  case False
  then show ?thesis using add_vote_not_counted assms by fastforce
qed

lemma votes_ok_snoc:
  assumes "votes_ok X h vs" "vote_verify X v" "fv_block_hash v = h"
    "\<forall>u \<in> set vs. fv_voter_public_key u \<noteq> fv_voter_public_key v"
  shows "votes_ok X h (vs @ [v])"
proof -
  have "fv_voter_public_key v \<notin> fv_voter_public_key ` set vs"
    using assms(4) by (metis imageE)
  then show ?thesis using assms(1-3) unfolding votes_ok_def by simp
qed

lemma counted_votes_ok:
  assumes "tracker_inv X tr" "counted X tr vote s"
  shows "votes_ok X (fv_block_hash vote) (get_or [] (ft_votes tr) (fv_block_hash vote) @ [vote])"
  using assms(2) unfolding counted_def
  by (intro votes_ok_snoc votes_ok_get_or [OF assms(1)]) blast+

lemma add_vote_inv:
  assumes inv: "tracker_inv X tr" and res: "add_vote X tr vote s = (r, tr')"
  shows "tracker_inv X tr'"
proof (cases "counted X tr vote s")
  case False
  then show ?thesis using add_vote_not_counted [OF False] res inv by (auto simp: tracker_inv_def)
next
  case True
  let ?h = "fv_block_hash vote"
  have ok: "votes_ok X ?h (get_or [] (ft_votes tr) ?h @ [vote])"
    by (rule counted_votes_ok [OF inv True])
  then have rec: "tracker_inv X (recorded tr vote)"
    using inv by (simp add: tracker_inv_def recorded_def)
  have "tr' = snd (tally (recorded tr vote) ?h (fv_block_height vote) s)"
    using res add_vote_counted [OF True] by simp
  then show ?thesis
    using rec by (cases rule: tally_cases [of "recorded tr vote" ?h "fv_block_height vote" s])
      (auto simp: tracker_inv_def)
qed

inductive tracker_step :: "externs \<Rightarrow> finality_tracker \<Rightarrow> finality_tracker \<Rightarrow> bool" for X where
  tracker_vote: "add_vote X tr vote s = (r, tr') \<Longrightarrow> tracker_step X tr tr'"

lemma add_vote_height_mono:
  assumes "add_vote X tr vote s = (r, tr')"
  shows "unat (ft_finalized_height tr) \<le> unat (ft_finalized_height tr')"
proof (cases "counted X tr vote s")
  case False
  then show ?thesis using add_vote_not_counted [OF False] assms by auto
next
  case True
  have "tr' = snd (tally (recorded tr vote) (fv_block_hash vote) (fv_block_height vote) s)"
    using add_vote_counted [OF True] assms by (metis snd_conv)
  then have "ft_finalized_height tr' \<in> {ft_finalized_height tr, fv_block_height vote}"
    by (cases rule: tally_cases [of "recorded tr vote" "fv_block_hash vote" "fv_block_height vote" s])
      auto
  then show ?thesis using True by (auto simp: counted_def u_simps)
qed

definition tracker_init :: "finality_tracker \<Rightarrow> bool" where
  "tracker_init tr \<longleftrightarrow> (\<exists>height hash. tr = tracker_with_finalized height hash)"

lemma tracker_init_inv: "tracker_init tr \<Longrightarrow> tracker_inv X tr"
  by (auto simp: tracker_init_def tracker_with_finalized_def tracker_inv_def)

interpretation tracker_system: monotone_system tracker_init "tracker_step X" "tracker_inv X"
    "\<lambda>tr. unat (ft_finalized_height tr)"
  by unfold_locales
    (auto simp: tracker_init_inv elim!: tracker_step.cases intro: add_vote_inv add_vote_height_mono)

section \<open>Stake behind a set of keys\<close>

definition stake_of :: "epoch_snapshot \<Rightarrow> bytes set \<Rightarrow> nat" where
  "stake_of s K = (\<Sum>v \<leftarrow> filter (\<lambda>v. val_public_key v \<in> K) (es_validators s). unat (val_stake v))"

text \<open>Snapshots as \<open>build_epoch_snapshot_for_accounts\<close> makes them, with distinct keys and three times
  the stake below \<open>2^64\<close>.\<close>
definition countable_snapshot :: "epoch_snapshot \<Rightarrow> bool" where
  "countable_snapshot s \<longleftrightarrow> distinct (map val_public_key (es_validators s))
     \<and> es_total_stake s = stake_sum (es_validators s) \<and> 3 * nat_stake (es_validators s) < 2 ^ 64"

lemma validator_stakes_eq:
  assumes "distinct (map val_public_key (es_validators s))"
  shows "validator_stakes s k = Some w \<longleftrightarrow> (\<exists>v \<in> set (es_validators s). val_public_key v = k \<and> val_stake v = w)"
proof -
  have "distinct (map fst (rev (map (\<lambda>v. (val_public_key v, val_stake v)) (es_validators s))))"
    using assms by (simp add: rev_map [symmetric] comp_def)
  then show ?thesis unfolding validator_stakes_def by (subst map_of_eq_Some_iff) auto
qed

lemma sum_filter_insert:
  assumes "distinct (map val_public_key vs)" "k \<notin> K"
  shows "(\<Sum>v \<leftarrow> filter (\<lambda>v. val_public_key v \<in> insert k K) vs. f v) =
    (\<Sum>v \<leftarrow> filter (\<lambda>v. val_public_key v \<in> K) vs. f v) +
    (\<Sum>v \<leftarrow> filter (\<lambda>v. val_public_key v = k) vs. (f v :: nat))"
  using assms by (induction vs) auto

lemma sum_filter_key:
  assumes "distinct (map val_public_key vs)"
  shows "(\<Sum>v \<leftarrow> filter (\<lambda>v. val_public_key v = k) vs. f v) =
    (case find (\<lambda>v. val_public_key v = k) vs of None \<Rightarrow> 0 | Some v \<Rightarrow> (f v :: nat))"
  using assms
proof (induction vs)
  case (Cons w vs)
  have "filter (\<lambda>v. val_public_key v = val_public_key w) vs = []"
    using Cons.prems by (simp add: filter_empty_conv) (metis image_eqI)
  then show ?case using Cons by auto
qed simp

lemma stake_of_insert:
  assumes "distinct (map val_public_key (es_validators s))" "k \<notin> K"
  shows "stake_of s (insert k K) = stake_of s K + (case validator_stakes s k of None \<Rightarrow> 0 | Some w \<Rightarrow> unat w)"
proof -
  have "(case find (\<lambda>v. val_public_key v = k) (es_validators s) of None \<Rightarrow> 0 | Some v \<Rightarrow> unat (val_stake v))
      = (case validator_stakes s k of None \<Rightarrow> 0 | Some w \<Rightarrow> unat w)"
  proof (cases "find (\<lambda>v. val_public_key v = k) (es_validators s)")
    case None
    then have "validator_stakes s k = None"
      using validator_stakes_eq [OF assms(1), of k] by (cases "validator_stakes s k") (auto simp: find_None_iff)
    then show ?thesis using None by simp
  next
    case (Some v)
    then have "validator_stakes s k = Some (val_stake v)"
      using validator_stakes_eq [OF assms(1), of k] by (metis (mono_tags, lifting) find_Some_iff nth_mem)
    then show ?thesis using Some by simp
  qed
  then show ?thesis
    using sum_filter_insert [OF assms] sum_filter_key [OF assms(1)] by (simp add: stake_of_def)
qed

lemma stake_of_le: "stake_of s K \<le> nat_stake (es_validators s)"
  using nat_stake_filter_le by (simp add: stake_of_def nat_stake_def comp_def)

lemma stake_of_inter:
  "stake_of s A + stake_of s B \<le> stake_of s (A \<inter> B) + nat_stake (es_validators s)"
proof -
  have "(\<Sum>v \<leftarrow> filter (\<lambda>v. val_public_key v \<in> A) vs. unat (val_stake v))
      + (\<Sum>v \<leftarrow> filter (\<lambda>v. val_public_key v \<in> B) vs. unat (val_stake v))
      \<le> (\<Sum>v \<leftarrow> filter (\<lambda>v. val_public_key v \<in> A \<inter> B) vs. unat (val_stake v)) + nat_stake vs" for vs
    by (induction vs) auto
  then show ?thesis by (simp add: stake_of_def)
qed

lemma voted_stake_sum:
  assumes "distinct (map val_public_key (es_validators s))" "distinct (map fv_voter_public_key vs)"
  shows "sum_list (map unat (List.map_filter (\<lambda>v. validator_stakes s (fv_voter_public_key v)) vs))
    = stake_of s (fv_voter_public_key ` set vs)"
  using assms(2)
proof (induction vs)
  case Nil
  then show ?case by (simp add: stake_of_def List.map_filter_simps)
next
  case (Cons v vs)
  then have "fv_voter_public_key v \<notin> fv_voter_public_key ` set vs" by simp
  then show ?case
    using Cons stake_of_insert [OF assms(1)] by (auto simp: map_filter_Cons split: option.splits)
qed

lemma voted_stake_exact:
  assumes "countable_snapshot s" "distinct (map fv_voter_public_key vs)"
  shows "unat (voted_stake s vs) = stake_of s (fv_voter_public_key ` set vs)"
proof -
  have "stake_of s (fv_voter_public_key ` set vs) < 2 ^ 64"
    using stake_of_le [of s "fv_voter_public_key ` set vs"] assms(1) by (simp add: countable_snapshot_def)
  moreover have "sum_list (map unat (List.map_filter (\<lambda>v. validator_stakes s (fv_voter_public_key v)) vs))
      = stake_of s (fv_voter_public_key ` set vs)"
    using voted_stake_sum [OF _ assms(2)] assms(1) by (simp add: countable_snapshot_def)
  ultimately show ?thesis
    using sum_list_unat [of "List.map_filter (\<lambda>v. validator_stakes s (fv_voter_public_key v)) vs"]
    by (simp add: voted_stake_def)
qed

section \<open>Properties\<close>

text \<open>The keys behind signed votes for a block.\<close>
definition signers :: "externs \<Rightarrow> bytes \<Rightarrow> bytes set" where
  "signers X h = {k. \<exists>v. vote_verify X v \<and> fv_block_hash v = h \<and> fv_voter_public_key v = k}"

lemma finalized_by_two_thirds:
  assumes "tracker_inv X tr" "countable_snapshot s" "add_vote X tr vote s = (Some fb, tr')"
  shows "\<exists>K \<subseteq> signers X (fb_hash fb). 2 * nat_stake (es_validators s) \<le> 3 * stake_of s K"
proof -
  note ok = add_vote_Some [OF assms(3)]
  let ?vs = "get_or [] (ft_votes tr) (fv_block_hash vote) @ [vote]"
  have vs: "votes_ok X (fv_block_hash vote) ?vs"
    by (rule counted_votes_ok [OF assms(1) ok(1)])
  have total: "unat (es_total_stake s) = nat_stake (es_validators s)"
    using assms(2) unat_stake_sum by (simp add: countable_snapshot_def)
  have voted: "unat (voted_stake s ?vs) = stake_of s (fv_voter_public_key ` set ?vs)"
    using vs unfolding votes_ok_def by (intro voted_stake_exact [OF assms(2)]) blast
  have "unat (sat_mul (es_total_stake s) 2) \<le> unat (sat_mul (voted_stake s ?vs) 3)"
    using ok(4) by (simp add: word_le_nat_alt)
  then have "2 * nat_stake (es_validators s) \<le> 3 * stake_of s (fv_voter_public_key ` set ?vs)"
    using assms(2) unfolding unat_sat_mul total voted by (simp add: countable_snapshot_def min_def split: if_splits)
  moreover have "fv_voter_public_key ` set ?vs \<subseteq> signers X (fb_hash fb)"
  proof
    fix k assume "k \<in> fv_voter_public_key ` set ?vs"
    then obtain v where "v \<in> set ?vs" "k = fv_voter_public_key v" by blast
    moreover then have "vote_verify X v" "fv_block_hash v = fb_hash fb"
      using vs ok(2) unfolding votes_ok_def by (auto simp only: finalized_block.simps)
    ultimately show "k \<in> signers X (fb_hash fb)" unfolding signers_def by blast
  qed
  ultimately show ?thesis by (intro exI [of _ "fv_voter_public_key ` set ?vs"] conjI)
qed

text \<open>C15. Finalization needs a two-thirds quorum of signatures, and moves forward. When a tracker,
  however it got its votes, finalizes a block, the block is strictly above the previously finalized
  height, becomes the tracker's finalized block, and validators of the snapshot holding at
  least two thirds of its stake have each signed a vote for exactly that block.\<close>
theorem finalization_quorum:
  assumes "tracker_init tr0" and "(tracker_step X)\<^sup>*\<^sup>* tr0 tr" and "countable_snapshot s"
    and "add_vote X tr vote s = (Some fb, tr')"
  shows "ft_finalized_height tr < fb_height fb \<and> ft_finalized_height tr' = fb_height fb
    \<and> ft_finalized_hash tr' = fb_hash fb
    \<and> (\<exists>K \<subseteq> signers X (fb_hash fb). 2 * nat_stake (es_validators s) \<le> 3 * stake_of s K)"
  using finalized_by_two_thirds [OF tracker_system.reachable_inv [OF assms(1,2)] assms(3,4)]
    add_vote_Some [OF assms(4)] by (simp add: counted_def)

text \<open>C12. Accountable safety. If two trackers, on two nodes and fed with any votes whatever, finalize
  blocks under the same snapshot, then validators holding at least one third of its stake have
  signed votes for both blocks; when the blocks differ these validators can be identified and
  blamed.\<close>
theorem accountable_safety:
  assumes "tracker_init a0" and "(tracker_step X)\<^sup>*\<^sup>* a0 a" and "add_vote X a v s = (Some fa, a')"
    and "tracker_init b0" and "(tracker_step X)\<^sup>*\<^sup>* b0 b" and "add_vote X b w s = (Some fb, b')"
    and "countable_snapshot s"
  shows "\<exists>K \<subseteq> signers X (fb_hash fa) \<inter> signers X (fb_hash fb).
    nat_stake (es_validators s) \<le> 3 * stake_of s K"
proof -
  obtain A where A: "A \<subseteq> signers X (fb_hash fa)" "2 * nat_stake (es_validators s) \<le> 3 * stake_of s A"
    using finalized_by_two_thirds [OF tracker_system.reachable_inv [OF assms(1,2)] assms(7,3)] by blast
  obtain B where B: "B \<subseteq> signers X (fb_hash fb)" "2 * nat_stake (es_validators s) \<le> 3 * stake_of s B"
    using finalized_by_two_thirds [OF tracker_system.reachable_inv [OF assms(4,5)] assms(7,6)] by blast
  have "nat_stake (es_validators s) \<le> 3 * stake_of s (A \<inter> B)"
    using stake_of_inter [of s A B] A(2) B(2) by linarith
  moreover have "A \<inter> B \<subseteq> signers X (fb_hash fa) \<inter> signers X (fb_hash fb)" using A(1) B(1) by auto
  ultimately show ?thesis by (intro exI [of _ "A \<inter> B"] conjI)
qed

text \<open>A signing key for the witnesses, and the snapshot in which it holds all the stake.\<close>
definition demo_validator_kp :: key_pair where
  "demo_validator_kp = \<lparr>kp_public_key = replicate 2592 1, kp_secret_key = replicate 32 1\<rparr>"

definition demo_vote :: finality_vote where
  "demo_vote = the (finality_vote_new demo_externs [7] 3 0 demo_validator_kp)"

definition demo_vote_snapshot :: epoch_snapshot where
  "demo_vote_snapshot = \<lparr>es_epoch = 0, es_start_height = 0,
     es_validators = [\<lparr>val_address = [1], val_public_key = replicate 2592 1, val_stake = 60\<rparr>],
     es_total_stake = 60\<rparr>"

lemma demo_vote_eq: "demo_vote = \<lparr>fv_block_hash = [7], fv_block_height = 3, fv_epoch = 0,
    fv_voter_public_key = replicate 2592 1,
    fv_signature = demo_sign (replicate 32 1) (vote_signable_data [7] 3 0)\<rparr>"
  by (simp add: demo_vote_def finality_vote_new_def dilithium_sign_def demo_validator_kp_def)

lemma demo_add_vote:
  "\<exists>tr'. add_vote demo_externs tracker_new demo_vote demo_vote_snapshot
     = (Some \<lparr>fb_hash = [7], fb_height = 3\<rparr>, tr')"
proof -
  have "vote_verify demo_externs demo_vote"
    by (simp add: vote_verify_def demo_vote_eq dilithium_verify_def MLDSA_PK_LEN_def MLDSA_SIG_LEN_def)
  moreover have "validator_stakes demo_vote_snapshot (replicate 2592 1) = Some 60"
    by (simp add: validator_stakes_def demo_vote_snapshot_def)
  ultimately show ?thesis
    by (simp add: add_vote_def tally_def tracker_new_def demo_vote_eq voted_stake_def map_filter_Cons
        List.map_filter_simps sat_mul_def Let_def demo_vote_snapshot_def)
qed

lemma demo_vote_snapshot_countable: "countable_snapshot demo_vote_snapshot"
  by (simp add: countable_snapshot_def demo_vote_snapshot_def stake_sum_def)

lemma tracker_new_init: "tracker_init tracker_new"
  by (auto simp: tracker_init_def tracker_new_def tracker_with_finalized_def)

theorem finalization_quorum_witness:
  "\<exists>K \<subseteq> signers demo_externs [7]. 2 * nat_stake (es_validators demo_vote_snapshot) \<le> 3 * stake_of demo_vote_snapshot K"
proof -
  obtain tr' where v: "add_vote demo_externs tracker_new demo_vote demo_vote_snapshot
      = (Some \<lparr>fb_hash = [7], fb_height = 3\<rparr>, tr')"
    using demo_add_vote by blast
  show ?thesis
    using finalization_quorum [OF tracker_new_init rtranclp.rtrancl_refl demo_vote_snapshot_countable v] by simp
qed

theorem accountable_safety_witness:
  "\<exists>K \<subseteq> signers demo_externs [7] \<inter> signers demo_externs [7].
     nat_stake (es_validators demo_vote_snapshot) \<le> 3 * stake_of demo_vote_snapshot K"
proof -
  obtain tr' where v: "add_vote demo_externs tracker_new demo_vote demo_vote_snapshot
      = (Some \<lparr>fb_hash = [7], fb_height = 3\<rparr>, tr')"
    using demo_add_vote by blast
  show ?thesis
    using accountable_safety [OF tracker_new_init rtranclp.rtrancl_refl v tracker_new_init
        rtranclp.rtrancl_refl v demo_vote_snapshot_countable] by simp
qed

text \<open>Votes round-trip: a vote made with a key of the documented kind verifies.\<close>
theorem vote_sign_verify:
  assumes "mldsa_correct X kp"
  shows "\<exists>v. finality_vote_new X h ht ep kp = Some v \<and> vote_verify X v
    \<and> fv_block_hash v = h \<and> fv_block_height v = ht \<and> fv_epoch v = ep"
  using dilithium_sign_verify [OF assms, of "vote_signable_data h ht ep"]
  by (auto simp: finality_vote_new_def vote_verify_def)

theorem vote_sign_verify_witness:
  "\<exists>v. finality_vote_new demo_externs [7] 3 0 demo_validator_kp = Some v \<and> vote_verify demo_externs v"
  using vote_sign_verify [of demo_externs demo_validator_kp "[7]" 3 0] demo_mldsa_correct
  by (auto simp: demo_validator_kp_def)

end
