(* ===== verification/Chain_State.thy ===== *)
theory Chain_State
  imports Apply State_Root Block_Store Block_Tree Finality "HOL-Library.Product_Lexorder"
begin

text \<open>
  The chain object (\<^verbatim>\<open>src/src/core/chain/mod.rs\<close>): its configuration and state, genesis
  (\<^verbatim>\<open>genesis.rs\<close>), base fee, epoch snapshots, protocol versions and proposer authorisation
  (\<^verbatim>\<open>consensus.rs\<close>), finality votes and slashing (\<^verbatim>\<open>finality.rs\<close>), receipt and log queries.

  The record \<open>blockchain\<close> is a chain without attached storage, as \<open>from_genesis\<close> builds it: the \<open>persist_*\<close> calls are
  then no-ops. Its cursor is the \<open>chain_view\<close> that the block store refines (theory \<open>Block_Store\<close>).
  \<open>latest_block\<close> is \<open>None\<close> where the source's \<open>expect\<close> panics.
\<close>

section \<open>Configuration and state\<close>

record genesis_allocation =
  ga_public_key :: string
  ga_balance :: u64
  ga_staked_balance :: u64

record protocol_upgrade =
  up_height :: u64
  up_version :: u32
  up_description :: string

record genesis_config =
  gc_chain_id :: string
  gc_chain_name :: string
  gc_block_reward :: u64
  gc_minimum_stake :: u64
  gc_unstake_delay_blocks :: u64
  gc_epoch_length :: u64
  gc_jail_duration_blocks :: u64
  gc_allocations :: "genesis_allocation list"
  gc_upgrades :: "protocol_upgrade list"
  gc_block_gas_limit :: u64
  gc_initial_base_fee_per_gas :: u64
  gc_base_fee_change_denominator :: u64

definition DEFAULT_BLOCK_REWARD :: u64 where "DEFAULT_BLOCK_REWARD = 50000000"
definition DEFAULT_MIN_STAKE :: u64 where "DEFAULT_MIN_STAKE = 1000000000"
definition DEFAULT_UNSTAKE_DELAY_BLOCKS :: u64 where "DEFAULT_UNSTAKE_DELAY_BLOCKS = 10"
definition DEFAULT_EPOCH_LENGTH :: u64 where "DEFAULT_EPOCH_LENGTH = 32"
definition DEFAULT_JAIL_DURATION_BLOCKS :: u64 where "DEFAULT_JAIL_DURATION_BLOCKS = 64"
definition DEFAULT_INITIAL_BASE_FEE_PER_GAS :: u64 where "DEFAULT_INITIAL_BASE_FEE_PER_GAS = 0"
definition DEFAULT_BASE_FEE_CHANGE_DENOMINATOR :: u64 where "DEFAULT_BASE_FEE_CHANGE_DENOMINATOR = 8"
definition V6_HARDFORK_HEIGHT_TESTNET :: u64 where "V6_HARDFORK_HEIGHT_TESTNET = - 1"
definition MAX_FUTURE_BLOCK_TIME_SECS :: i64 where "MAX_FUTURE_BLOCK_TIME_SECS = 30"

definition default_genesis_config :: genesis_config where
  "default_genesis_config = \<lparr>gc_chain_id = ''curs3d-devnet'', gc_chain_name = ''curs3d-devnet'',
     gc_block_reward = DEFAULT_BLOCK_REWARD, gc_minimum_stake = DEFAULT_MIN_STAKE,
     gc_unstake_delay_blocks = DEFAULT_UNSTAKE_DELAY_BLOCKS, gc_epoch_length = DEFAULT_EPOCH_LENGTH,
     gc_jail_duration_blocks = DEFAULT_JAIL_DURATION_BLOCKS, gc_allocations = [], gc_upgrades = [],
     gc_block_gas_limit = DEFAULT_BLOCK_GAS_LIMIT,
     gc_initial_base_fee_per_gas = DEFAULT_INITIAL_BASE_FEE_PER_GAS,
     gc_base_fee_change_denominator = DEFAULT_BASE_FEE_CHANGE_DENOMINATOR\<rparr>"

record receipt_location =
  rl_block_height :: u64
  rl_tx_index :: nat

record indexed_receipt =
  ir_tx_hash :: bytes
  ir_block_height :: u64
  ir_tx_index :: nat
  ir_receipt :: receipt

record indexed_log_entry =
  il_block_height :: u64
  il_tx_index :: nat
  il_log_index :: nat
  il_tx_hash :: bytes
  il_contract :: bytes
  il_topics :: "bytes list"
  il_data :: bytes

record log_filter =
  lf_contract :: "bytes option"
  lf_topic :: "bytes option"
  lf_topics :: "bytes option list option"
  lf_from_block :: "u64 option"
  lf_to_block :: "u64 option"
  lf_limit :: "nat option"

record blockchain =
  bc_accounts :: accounts
  bc_pending_transactions :: "transaction list"
  bc_block_reward :: u64
  bc_minimum_stake :: u64
  bc_unstake_delay_blocks :: u64
  bc_epoch_length :: u64
  bc_jail_duration_blocks :: u64
  bc_genesis_config :: genesis_config
  bc_block_tree :: block_tree
  bc_finality_tracker :: finality_tracker
  bc_slashed_validators :: "bytes set"
  bc_epoch_snapshots :: "u64 \<rightharpoonup> epoch_snapshot"
  bc_block_gas_limit :: u64
  bc_initial_base_fee_per_gas :: u64
  bc_base_fee_change_denominator :: u64
  bc_contracts :: contracts
  bc_receipts :: "bytes \<rightharpoonup> receipt"
  bc_receipt_locations :: "bytes \<rightharpoonup> receipt_location"
  bc_log_index :: "indexed_log_entry list"
  bc_token_registry :: token_registry
  bc_governance :: governance_state
  bc_validator_missed_epochs :: "bytes \<rightharpoonup> u64"
  bc_block_hash_to_height :: "bytes \<rightharpoonup> u64"
  bc_tx_hash_index :: "bytes \<rightharpoonup> u64 \<times> nat"
  bc_evm_tx_hash_index :: "bytes \<rightharpoonup> u64 \<times> nat"
  bc_cursor :: chain_view
  bc_prune_keep_blocks :: "u64 option"

section \<open>Reading the chain\<close>

definition genesis_block :: "blockchain \<Rightarrow> block" where
  "genesis_block c = cv_genesis (bc_cursor c)"

definition block_at_height :: "blockchain \<Rightarrow> u64 \<Rightarrow> block option" where
  "block_at_height c h = view_block_at (bc_cursor c) h"

definition block_count :: "blockchain \<Rightarrow> u64" where
  "block_count c = cv_count (bc_cursor c)"

definition height :: "blockchain \<Rightarrow> u64" where
  "height c = sat_sub (block_count c) 1"

definition latest_block :: "blockchain \<Rightarrow> block option" where
  "latest_block c = block_at_height c (height c)"

definition iter_blocks :: "blockchain \<Rightarrow> block list" where
  "iter_blocks c = List.map_filter (\<lambda>h. block_at_height c (of_nat h)) [0..<unat (block_count c)]"

definition push_block_internal :: "blockchain \<Rightarrow> block \<Rightarrow> blockchain" where
  "push_block_internal c b = (case view_append (bc_cursor c) b of
     Inl _ \<Rightarrow> c | Inr v \<Rightarrow> c\<lparr>bc_cursor := v\<rparr>)"

definition replace_all_blocks :: "blockchain \<Rightarrow> block list \<Rightarrow> blockchain" where
  "replace_all_blocks c blocks =
     fold (\<lambda>b c. push_block_internal c b) blocks (c\<lparr>bc_cursor := view_invalidate_from (bc_cursor c) 0\<rparr>)"

definition epoch_for_height :: "blockchain \<Rightarrow> u64 \<Rightarrow> u64" where
  "epoch_for_height c h = h div max (bc_epoch_length c) 1"

definition current_epoch :: "blockchain \<Rightarrow> u64" where
  "current_epoch c = height c div max (bc_epoch_length c) 1"

definition current_epoch_start_height :: "blockchain \<Rightarrow> u64" where
  "current_epoch_start_height c = current_epoch c * max (bc_epoch_length c) 1"

definition get_balance :: "blockchain \<Rightarrow> bytes \<Rightarrow> u64" where
  "get_balance c a = (case bc_accounts c a of Some s \<Rightarrow> acc_balance s | None \<Rightarrow> 0)"

definition get_staked_balance :: "blockchain \<Rightarrow> bytes \<Rightarrow> u64" where
  "get_staked_balance c a = (case bc_accounts c a of Some s \<Rightarrow> acc_staked_balance s | None \<Rightarrow> 0)"

definition get_account :: "blockchain \<Rightarrow> bytes \<Rightarrow> account_state" where
  "get_account c a = account_of (bc_accounts c) a"

section \<open>Base fee\<close>

definition target_block_gas_usage :: "u64 \<Rightarrow> u64" where
  "target_block_gas_usage block_gas_limit = max (block_gas_limit div 2) 1"

text \<open>The fee that \<open>next_base_fee_per_gas\<close> starts from.\<close>
definition parent_base_fee :: "blockchain \<Rightarrow> block \<Rightarrow> u64" where
  "parent_base_fee c parent =
     (if blk_height parent = 0 then max (hdr_base_fee_per_gas (blk_header parent)) (bc_initial_base_fee_per_gas c)
      else hdr_base_fee_per_gas (blk_header parent))"

definition next_base_fee_per_gas :: "blockchain \<Rightarrow> block \<Rightarrow> u64" where
  "next_base_fee_per_gas c parent =
     (let base = parent_base_fee c parent;
          gas_used = hdr_gas_used (blk_header parent);
          target = target_block_gas_usage (bc_block_gas_limit c)
      in if base = 0 then 1
         else if gas_used = target then base
         else let delta = abs_diff gas_used target;
                  change = max (case checked_div (sat_mul (max base 1) delta)
                      (sat_mul target (max (bc_base_fee_change_denominator c) 1)) of None \<Rightarrow> 0 | Some q \<Rightarrow> q) 1
           in if gas_used > target then sat_add base change
              else max (sat_sub base change) 1)"

section \<open>Epoch snapshots and proposers\<close>

definition build_epoch_snapshot_for_accounts :: "genesis_config \<Rightarrow> u64 \<Rightarrow> accounts \<Rightarrow> bytes set \<Rightarrow> epoch_snapshot" where
  "build_epoch_snapshot_for_accounts gc epoch accs slashed =
     (let start_height = epoch * max (gc_epoch_length gc) 1;
          validators = active_validators \<lparr>pos_minimum_stake = gc_minimum_stake gc, pos_slashed_validators = slashed,
            pos_current_height = start_height\<rparr> accs
      in \<lparr>es_epoch = epoch, es_start_height = start_height, es_validators = validators,
          es_total_stake = stake_sum validators\<rparr>)"

definition snapshot_for_accounts :: "blockchain \<Rightarrow> u64 \<Rightarrow> accounts \<Rightarrow> epoch_snapshot" where
  "snapshot_for_accounts c epoch accs =
     build_epoch_snapshot_for_accounts (bc_genesis_config c) epoch accs (bc_slashed_validators c)"

abbreviation pos_at :: "blockchain \<Rightarrow> u64 \<Rightarrow> proof_of_stake" where
  "pos_at c h \<equiv> \<lparr>pos_minimum_stake = bc_minimum_stake c, pos_slashed_validators = bc_slashed_validators c,
     pos_current_height = h\<rparr>"

definition active_validator_total_stake :: "blockchain \<Rightarrow> accounts \<Rightarrow> u64 \<Rightarrow> u64" where
  "active_validator_total_stake c accs h = stake_sum (active_validators (pos_at c h) accs)"

definition create_epoch_snapshot_from_accounts :: "blockchain \<Rightarrow> u64 \<Rightarrow> accounts \<Rightarrow> blockchain" where
  "create_epoch_snapshot_from_accounts c epoch accs =
     c\<lparr>bc_epoch_snapshots := (bc_epoch_snapshots c)(epoch \<mapsto> snapshot_for_accounts c epoch accs)\<rparr>"

definition protocol_version_at_height :: "blockchain \<Rightarrow> u64 \<Rightarrow> u32" where
  "protocol_version_at_height c h =
     (let upgrades = gc_upgrades (bc_genesis_config c);
          version = (if upgrades = [] then 5
                     else fold (\<lambda>u v. if up_height u \<le> h then up_version u else v) upgrades 1)
      in if h \<ge> V6_HARDFORK_HEIGHT_TESTNET \<and> version < V6_PROTOCOL_VERSION then V6_PROTOCOL_VERSION else version)"

definition allowed_backup_rank_for_height :: "u64 \<Rightarrow> i64 \<Rightarrow> i64 \<Rightarrow> nat \<Rightarrow> u32" where
  "allowed_backup_rank_for_height block_height parent_timestamp block_timestamp snapshot_size =
     (if block_height \<le> 1 then 0 else allowed_backup_rank parent_timestamp block_timestamp snapshot_size)"

definition snapshot_for_height :: "blockchain \<Rightarrow> accounts \<Rightarrow> (u64 \<rightharpoonup> epoch_snapshot) \<Rightarrow> u64 \<Rightarrow> epoch_snapshot option" where
  "snapshot_for_height c accs snapshots block_height =
     (let epoch = block_height div max (bc_epoch_length c) 1;
          live = (if block_height > 0 then
              let validators = active_validators (pos_at c block_height) accs
              in if validators = [] then None
                 else Some \<lparr>es_epoch = epoch, es_start_height = block_height, es_validators = validators,
                        es_total_stake = stake_sum validators\<rparr>
            else None)
      in case snapshots epoch of
           Some snapshot \<Rightarrow> if es_validators snapshot \<noteq> [] then Some snapshot else live
         | None \<Rightarrow> live)"

definition ensure_validator_is_authorized :: "externs \<Rightarrow> blockchain \<Rightarrow> accounts \<Rightarrow> (u64 \<rightharpoonup> epoch_snapshot) \<Rightarrow> bytes \<Rightarrow>
    u64 \<Rightarrow> bytes \<Rightarrow> u32 \<Rightarrow> chain_error + unit" where
  "ensure_validator_is_authorized X c accs snapshots validator_public_key block_height prev_hash allowed_rank =
     (let proposer_address = address_bytes_from_public_key X validator_public_key
      in case snapshot_for_height c accs snapshots block_height of
           Some snapshot \<Rightarrow>
             if es_validators snapshot = [] then Inr ()
             else if \<exists>rank \<in> set (ranks_upto allowed_rank).
                 slot_leader_at_rank X snapshot block_height prev_hash rank = Some proposer_address then Inr ()
             else Inl (WrongProposer block_height allowed_rank)
         | None \<Rightarrow>
             (case select_validator X (pos_at c block_height) accs block_height prev_hash of
                Some expected \<Rightarrow> if val_public_key expected = validator_public_key then Inr ()
                                 else Inl (WrongProposer block_height allowed_rank)
              | None \<Rightarrow> Inr ()))"

definition proposer_addresses_for_settling_epoch :: "externs \<Rightarrow> blockchain \<Rightarrow> u64 \<Rightarrow> bytes list" where
  "proposer_addresses_for_settling_epoch X c block_height =
     (let epoch_len = max (bc_epoch_length c) 1;
          prev_epoch = sat_sub block_height 1 div epoch_len;
          new_epoch = block_height div epoch_len
      in if new_epoch \<le> prev_epoch \<or> prev_epoch = 0 then []
         else map (\<lambda>b. address_bytes_from_public_key X (hdr_validator_public_key (blk_header b)))
           (List.map_filter (\<lambda>h. block_at_height c (of_nat h))
              [unat (prev_epoch * epoch_len)..<unat (new_epoch * epoch_len)]))"

definition slot_leader_address :: "externs \<Rightarrow> blockchain \<Rightarrow> u64 \<Rightarrow> bytes \<Rightarrow> u32 \<Rightarrow> bytes option" where
  "slot_leader_address X c block_height prev_hash rank =
     (case snapshot_for_height c (bc_accounts c) (bc_epoch_snapshots c) block_height of
        None \<Rightarrow> None
      | Some snapshot \<Rightarrow> if es_validators snapshot = [] then None
          else slot_leader_at_rank X snapshot block_height prev_hash rank)"

section \<open>Genesis\<close>

definition decode_public_key_hex :: "externs \<Rightarrow> string \<Rightarrow> chain_error + bytes" where
  "decode_public_key_hex X v =
     (let raw = (if take 2 v = ''0x'' then drop 2 v else v)
      in case x_hex_decode X raw of
           None \<Rightarrow> Inl (InvalidGenesis ''invalid public_key hex in genesis'')
         | Some k \<Rightarrow> Inr k)"

fun genesis_accounts_loop :: "externs \<Rightarrow> u64 \<Rightarrow> genesis_allocation list \<Rightarrow> accounts \<Rightarrow> chain_error + accounts" where
  "genesis_accounts_loop X minimum_stake [] accs = Inr accs"
| "genesis_accounts_loop X minimum_stake (al # rest) accs =
     (case decode_public_key_hex X (ga_public_key al) of
        Inl e \<Rightarrow> Inl e
      | Inr public_key \<Rightarrow>
          let address = address_bytes_from_public_key X public_key in
          if accs address \<noteq> None then Inl (InvalidGenesis ''duplicate account in genesis'')
          else genesis_accounts_loop X minimum_stake rest (accs(address \<mapsto>
            \<lparr>acc_balance = ga_balance al, acc_nonce = 0, acc_staked_balance = ga_staked_balance al,
             acc_pending_unstakes = [],
             acc_validator_active_from_height = (if ga_staked_balance al \<ge> minimum_stake then 1 else 0),
             acc_jailed_until_height = 0, acc_public_key = Some public_key\<rparr>)))"

definition accounts_from_genesis :: "externs \<Rightarrow> genesis_config \<Rightarrow> chain_error + accounts" where
  "accounts_from_genesis X gc = genesis_accounts_loop X (gc_minimum_stake gc) (gc_allocations gc) Map.empty"

definition from_genesis :: "externs \<Rightarrow> genesis_config \<Rightarrow> chain_error + blockchain" where
  "from_genesis X gc =
     (case accounts_from_genesis X gc of
        Inl e \<Rightarrow> Inl e
      | Inr accs \<Rightarrow>
          let state_root = compute_full X accs Map.empty;
              gen = genesis_with_state_root X state_root (gc_chain_id gc) (gc_initial_base_fee_per_gas gc)
          in Inr \<lparr>bc_accounts = accs, bc_pending_transactions = [], bc_block_reward = gc_block_reward gc,
               bc_minimum_stake = gc_minimum_stake gc, bc_unstake_delay_blocks = gc_unstake_delay_blocks gc,
               bc_epoch_length = gc_epoch_length gc, bc_jail_duration_blocks = gc_jail_duration_blocks gc,
               bc_genesis_config = gc, bc_block_tree = tree_from_genesis gen, bc_finality_tracker = tracker_new,
               bc_slashed_validators = {},
               bc_epoch_snapshots = [0 \<mapsto> build_epoch_snapshot_for_accounts gc 0 accs {}],
               bc_block_gas_limit = gc_block_gas_limit gc,
               bc_initial_base_fee_per_gas = gc_initial_base_fee_per_gas gc,
               bc_base_fee_change_denominator = gc_base_fee_change_denominator gc,
               bc_contracts = Map.empty, bc_receipts = Map.empty, bc_receipt_locations = Map.empty, bc_log_index = [],
               bc_token_registry = token_registry_new, bc_governance = governance_new,
               bc_validator_missed_epochs = Map.empty, bc_block_hash_to_height = Map.empty,
               bc_tx_hash_index = Map.empty, bc_evm_tx_hash_index = Map.empty,
               bc_cursor = \<lparr>cv_genesis = gen, cv_blocks = Map.empty, cv_count = 1, cv_base = 0\<rparr>,
               bc_prune_keep_blocks = None\<rparr>)"

section \<open>Finality votes and slashing\<close>

text \<open>The number of pruned blocks is only logged; the model keeps the effect.\<close>
definition maybe_prune_finalized :: "blockchain \<Rightarrow> u64 \<Rightarrow> blockchain" where
  "maybe_prune_finalized c finalized_height =
     (case bc_prune_keep_blocks c of
        None \<Rightarrow> c
      | Some keep \<Rightarrow>
          if finalized_height < keep then c
          else let keep_from = finalized_height - keep
            in if keep_from = 0 then c else c\<lparr>bc_cursor := view_prune_below (bc_cursor c) keep_from\<rparr>)"

definition add_finality_vote :: "externs \<Rightarrow> blockchain \<Rightarrow> finality_vote \<Rightarrow> finalized_block option \<times> blockchain" where
  "add_finality_vote X c vote =
     (case tree_get (bc_block_tree c) (fv_block_hash vote) of
        None \<Rightarrow> (None, c)
      | Some voted_block \<Rightarrow>
          if blk_height voted_block \<noteq> fv_block_height vote then (None, c)
          else let vote_epoch = epoch_for_height c (fv_block_height vote) in
            if fv_epoch vote \<noteq> vote_epoch then (None, c)
            else if \<not> is_on_canonical_chain (bc_block_tree c) (fv_block_hash vote) then (None, c)
            else (case bc_epoch_snapshots c vote_epoch of
                    None \<Rightarrow> (None, c)
                  | Some snapshot \<Rightarrow>
                      let (result, tracker) = add_vote X (bc_finality_tracker c) vote snapshot;
                          c1 = c\<lparr>bc_finality_tracker := tracker\<rparr>
                      in (case result of
                            None \<Rightarrow> (None, c1)
                          | Some finalized \<Rightarrow>
                              (Some finalized, maybe_prune_finalized
                                 (c1\<lparr>bc_block_tree := set_finalized (bc_block_tree c1) (fb_hash finalized) (fb_height finalized)\<rparr>)
                                 (fb_height finalized)))))"

definition process_equivocation :: "externs \<Rightarrow> blockchain \<Rightarrow> equivocation_evidence \<Rightarrow> slashing_error + u64 \<times> blockchain" where
  "process_equivocation X c evidence =
     (case slash_with_evidence X (pos_at c (height c)) (bc_accounts c) evidence (bc_jail_duration_blocks c) of
        Inl e \<Rightarrow> Inl e
      | Inr (penalty, pos, accs) \<Rightarrow>
          Inr (penalty, c\<lparr>bc_accounts := accs, bc_slashed_validators := pos_slashed_validators pos\<rparr>))"

section \<open>Receipts and logs\<close>

definition get_receipt :: "blockchain \<Rightarrow> bytes \<Rightarrow> indexed_receipt option" where
  "get_receipt c h = (case bc_receipts c h of
     None \<Rightarrow> None
   | Some rc \<Rightarrow> (case bc_receipt_locations c h of
       None \<Rightarrow> None
     | Some loc \<Rightarrow> Some \<lparr>ir_tx_hash = h, ir_block_height = rl_block_height loc, ir_tx_index = rl_tx_index loc,
         ir_receipt = rc\<rparr>))"

definition log_matches :: "log_filter \<Rightarrow> indexed_log_entry \<Rightarrow> bool" where
  "log_matches f e \<longleftrightarrow>
     (case lf_contract f of None \<Rightarrow> True | Some ct \<Rightarrow> il_contract e = ct) \<and>
     (case lf_topic f of None \<Rightarrow> True | Some t \<Rightarrow> t \<in> set (il_topics e)) \<and>
     (case lf_topics f of None \<Rightarrow> True
      | Some positional \<Rightarrow> list_all (\<lambda>(i, expected). case expected of None \<Rightarrow> True
          | Some wanted \<Rightarrow> i < length (il_topics e) \<and> il_topics e ! i = wanted) (List.enumerate 0 positional)) \<and>
     (case lf_from_block f of None \<Rightarrow> True | Some b \<Rightarrow> il_block_height e \<ge> b) \<and>
     (case lf_to_block f of None \<Rightarrow> True | Some b \<Rightarrow> il_block_height e \<le> b)"

definition query_logs :: "blockchain \<Rightarrow> log_filter \<Rightarrow> indexed_log_entry list" where
  "query_logs c f =
     take (min (case lf_limit f of None \<Rightarrow> 100 | Some l \<Rightarrow> l) 1000) (filter (log_matches f) (bc_log_index c))"

text \<open>The transactions of one block that involve an address, then the newest-first walk over the blocks.\<close>
definition block_txs_for :: "bytes \<Rightarrow> block \<Rightarrow> (u64 \<times> nat \<times> transaction) list" where
  "block_txs_for address b =
     map (\<lambda>(i, tx). (blk_height b, i, tx))
       (filter (\<lambda>(i, tx). tx_from tx = address \<or> tx_to tx = address) (List.enumerate 0 (blk_transactions b)))"

fun txs_for_loop :: "bytes \<Rightarrow> u64 option \<Rightarrow> u64 option \<Rightarrow> block list \<Rightarrow> (u64 \<times> nat \<times> transaction) list" where
  "txs_for_loop address from' to' [] = []"
| "txs_for_loop address from' to' (b # rest) =
     (if case to' of Some t \<Rightarrow> blk_height b > t | None \<Rightarrow> False then txs_for_loop address from' to' rest
      else if case from' of Some f \<Rightarrow> blk_height b < f | None \<Rightarrow> False then []
      else block_txs_for address b @ txs_for_loop address from' to' rest)"

text \<open>The source stops after the push that reaches the limit; a limit of 0 therefore returns the first match.\<close>
definition transactions_for_address :: "blockchain \<Rightarrow> bytes \<Rightarrow> u64 option \<Rightarrow> u64 option \<Rightarrow> nat \<Rightarrow> (u64 \<times> nat \<times> transaction) list" where
  "transactions_for_address c address from_block to_block limit =
     take (max (min limit 1000) 1) (txs_for_loop address from_block to_block (rev (iter_blocks c)))"

text \<open>One transaction of one block in \<open>rebuild_receipt_indexes\<close>.\<close>
definition index_receipt :: "externs \<Rightarrow> (bytes \<rightharpoonup> receipt) \<Rightarrow> u64 \<Rightarrow> nat \<times> transaction \<Rightarrow>
    (bytes \<rightharpoonup> receipt_location) \<times> indexed_log_entry list \<Rightarrow> (bytes \<rightharpoonup> receipt_location) \<times> indexed_log_entry list" where
  "index_receipt X receipts block_height itx acc =
     (let (tx_index, tx) = itx; (locs, logs) = acc; h = tx_hash X tx
      in if is_coinbase tx then acc
         else case receipts h of
           None \<Rightarrow> acc
         | Some rc \<Rightarrow>
             (locs(h \<mapsto> \<lparr>rl_block_height = block_height, rl_tx_index = tx_index\<rparr>),
              logs @ map (\<lambda>(li, log). \<lparr>il_block_height = block_height, il_tx_index = tx_index, il_log_index = li,
                 il_tx_hash = h, il_contract = log_contract log, il_topics = log_topics log, il_data = log_data log\<rparr>)
                (List.enumerate 0 (rc_logs rc))))"

definition rebuild_receipt_indexes :: "externs \<Rightarrow> blockchain \<Rightarrow> blockchain" where
  "rebuild_receipt_indexes X c =
     (let (locs, logs) = fold (\<lambda>b. fold (index_receipt X (bc_receipts c) (blk_height b))
              (List.enumerate 0 (blk_transactions b))) (iter_blocks c) (Map.empty, [])
      in c\<lparr>bc_receipt_locations := locs,
           bc_log_index := sort_key (\<lambda>e. (il_block_height e, il_tx_index e, il_log_index e)) logs\<rparr>)"

definition remove_block_transactions_from_mempool :: "externs \<Rightarrow> blockchain \<Rightarrow> block \<Rightarrow> blockchain" where
  "remove_block_transactions_from_mempool X c b =
     (let included = set (map (tx_hash X) (filter (\<lambda>tx. \<not> is_coinbase tx) (blk_transactions b)))
      in c\<lparr>bc_pending_transactions := filter (\<lambda>p. tx_hash X p \<notin> included) (bc_pending_transactions c)\<rparr>)"

definition slashed_validator_count :: "blockchain \<Rightarrow> nat" where
  "slashed_validator_count c = card (bc_slashed_validators c)"

definition jailed_validator_count :: "blockchain \<Rightarrow> nat" where
  "jailed_validator_count c =
     length (filter (\<lambda>(_, a). acc_jailed_until_height a > height c) (entries (bc_accounts c)))"

definition active_validator_count :: "blockchain \<Rightarrow> nat" where
  "active_validator_count c = length (active_validators (pos_at c (height c + 1)) (bc_accounts c))"

definition get_account_proof :: "externs \<Rightarrow> blockchain \<Rightarrow> bytes \<Rightarrow> account_proof option" where
  "get_account_proof X c address = generate_account_proof X address (bc_accounts c) (bc_contracts c)"

definition get_storage_proof :: "externs \<Rightarrow> blockchain \<Rightarrow> bytes \<Rightarrow> bytes \<Rightarrow> storage_proof option" where
  "get_storage_proof X c address key = generate_storage_proof X address key (bc_accounts c) (bc_contracts c)"

section \<open>Properties of the base fee\<close>

lemma fee_change_bound:
  fixes base delta target d :: u64
  assumes "base \<noteq> 0" "target \<noteq> 0" "unat delta \<le> unat target"
  shows "unat (max (case checked_div (sat_mul (max base 1) delta) (sat_mul target (max d 1)) of None \<Rightarrow> 0 | Some q \<Rightarrow> q) 1)
    \<le> max 1 (unat base div max 1 (unat d))"
proof -
  let ?n = "unat (sat_mul (max base 1) delta)" and ?m = "unat (sat_mul target (max d 1))" and ?M = "2 ^ 64 - 1 :: nat"
  have "0 < unat base" and t: "0 < unat target" using assms(1,2) by (simp_all add: unat_gt_0)
  then have b: "unat (max base 1) = unat base" by (simp add: unat_max_u)
  have n: "?n \<le> unat base * unat target" "?n \<le> ?M"
    using assms(3) by (simp_all add: unat_sat_mul b min.coboundedI1)
  have m: "?m = min (unat target * max 1 (unat d)) ?M" by (simp add: unat_sat_mul unat_max_u max.commute)
  have "?n div ?m \<le> max 1 (unat base div max 1 (unat d))"
  proof (cases "unat target * max 1 (unat d) \<le> ?M")
    case True
    then have "?n div ?m \<le> (unat target * unat base) div (unat target * max 1 (unat d))"
      using div_le_mono [OF n(1), of ?m] m by (simp add: mult.commute min_def)
    then show ?thesis using t by (simp add: div_mult_mult1)
  next
    case False
    then have "?n div ?m \<le> 1" using n(2) m div_le_mono [OF n(2), of ?M] by simp
    then show ?thesis by simp
  qed
  then show ?thesis
    by (simp add: checked_div_def unat_max_u unat_div split: option.split)
qed

lemma next_base_fee_pos: "1 \<le> unat (next_base_fee_per_gas c p)"
proof -
  have mx: "1 \<le> unat (max x (1 :: u64))" for x by (simp add: unat_max_u)
  have ad: "1 \<le> unat (sat_add x y)" if "x \<noteq> 0" for x y :: u64
    using that by (simp add: unat_sat_add Suc_le_eq unat_gt_0)
  show ?thesis unfolding next_base_fee_per_gas_def Let_def using mx ad by (simp split: if_splits) (simp add: Suc_le_eq unat_gt_0)
qed

lemma target_pos: "target_block_gas_usage l \<noteq> 0"
  by (metis target_block_gas_usage_def max.absorb_iff1 max.commute nle_le word_coorder.extremum_uniqueI zero_neq_one)

text \<open>C19. The fee market. The next base fee is never 0; it stays at a block that used exactly the target,
  rises strictly (until it saturates) after a fuller one and falls or is 1 after an emptier one; and after a
  block that used at most twice the target it moves by at most the larger of 1 and the old fee divided by
  \<open>base_fee_change_denominator\<close>.\<close>
theorem base_fee_step:
  fixes c parent
  defines "old \<equiv> unat (parent_base_fee c parent)" and "new \<equiv> unat (next_base_fee_per_gas c parent)"
    and "gas \<equiv> unat (hdr_gas_used (blk_header parent))" and "target \<equiv> unat (target_block_gas_usage (bc_block_gas_limit c))"
    and "step \<equiv> max 1 (unat (parent_base_fee c parent) div max 1 (unat (bc_base_fee_change_denominator c)))"
  shows "1 \<le> new
    \<and> (gas = target \<longrightarrow> new = max 1 old)
    \<and> (target < gas \<longrightarrow> new = 2 ^ 64 - 1 \<or> old < new)
    \<and> (gas < target \<longrightarrow> new < old \<or> new = 1)
    \<and> (gas \<le> 2 * target \<longrightarrow> new \<le> old + step \<and> old \<le> new + step)"
proof (cases "parent_base_fee c parent = 0")
  case True
  then show ?thesis by (simp add: assms next_base_fee_per_gas_def)
next
  case False
  define change where "change = max (case checked_div (sat_mul (max (parent_base_fee c parent) 1)
      (abs_diff (hdr_gas_used (blk_header parent)) (target_block_gas_usage (bc_block_gas_limit c))))
      (sat_mul (target_block_gas_usage (bc_block_gas_limit c)) (max (bc_base_fee_change_denominator c) 1)) of None \<Rightarrow> 0 | Some q \<Rightarrow> q) 1"
  have pos: "1 \<le> old" using False by (simp add: old_def Suc_le_eq unat_gt_0)
  have c1: "1 \<le> unat change" by (simp add: change_def unat_max_u)
  have bound: "unat change \<le> step" if "gas \<le> 2 * target"
    unfolding change_def step_def
    by (rule fee_change_bound) (use False target_pos that in \<open>auto simp: unat_abs_diff gas_def target_def\<close>)
  have new: "new = (if gas = target then old else if target < gas then min (old + unat change) (2 ^ 64 - 1)
      else max (old - unat change) 1)"
    using False by (simp add: assms next_base_fee_per_gas_def Let_def change_def [symmetric] unat_sat_add unat_max_u unat_sat_sub
        word_less_nat_alt word_unat_eq_iff)
  have "old < 2 ^ 64" using unat_lt_u64 [of "parent_base_fee c parent"] by (simp add: old_def)
  then show ?thesis using pos c1 bound by (auto simp: new)
qed

definition demo_base_fee_chain :: "blockchain \<Rightarrow> blockchain" where
  "demo_base_fee_chain c = c\<lparr>bc_block_gas_limit := 1000, bc_base_fee_change_denominator := 8\<rparr>"

definition demo_full_block :: block where
  "demo_full_block = (genesis demo_externs)\<lparr>blk_header := (blk_header (genesis demo_externs))\<lparr>hdr_height := 5,
     hdr_gas_used := 1000, hdr_base_fee_per_gas := 80\<rparr>\<rparr>"

theorem base_fee_step_witness:
  "\<forall>c. 80 < unat (next_base_fee_per_gas (demo_base_fee_chain c) demo_full_block)
     \<and> unat (next_base_fee_per_gas (demo_base_fee_chain c) demo_full_block) \<le> 90"
proof
  fix c
  let ?c = "demo_base_fee_chain c"
  have "parent_base_fee ?c demo_full_block = 80" "target_block_gas_usage (bc_block_gas_limit ?c) = 500"
    "next_base_fee_per_gas ?c demo_full_block = 90"
    by (simp_all add: next_base_fee_per_gas_def Let_def parent_base_fee_def demo_full_block_def demo_base_fee_chain_def target_block_gas_usage_def
        abs_diff_def sat_mul_def checked_div_def sat_add_def max_def word_le_nat_alt)
  then show "80 < unat (next_base_fee_per_gas ?c demo_full_block) \<and> unat (next_base_fee_per_gas ?c demo_full_block) \<le> 90"
    using base_fee_step [of ?c demo_full_block]
    by (simp add: demo_full_block_def demo_base_fee_chain_def)
qed

end
