(* ===== verification/Block_Apply.thy ===== *)
theory Block_Apply
  imports Chain_State
begin

text \<open>
  Block validation and adoption (\<^verbatim>\<open>src/src/core/chain/apply.rs\<close> lines 37-389), composed from the transaction level of theory \<open>Apply\<close> and the chain object
  of theory \<open>Chain_State\<close>. \<open>now\<close> is the wall clock the source reads. \<open>add_block\<close> changes the chain before its
  checks (epoch snapshot, settlement), so it returns the chain together with the result, also on errors.
  A \<open>BlockExecution\<close> has the five fields of \<open>ledger\<close> and is that record.
\<close>

section \<open>Validation\<close>

type_synonym block_execution = ledger

record block_progress =
  bp_ledger :: ledger
  bp_seen :: "bytes set"
  bp_priority_fees :: u64
  bp_gas :: u64
  bp_coinbase :: "transaction option"

abbreviation apply_in_block :: "externs \<Rightarrow> blockchain \<Rightarrow> ledger \<Rightarrow> transaction \<Rightarrow> u64 \<Rightarrow> u64 \<Rightarrow> (chain_error + u64) \<times> ledger" where
  "apply_in_block X c L tx h base \<equiv>
     apply_user_transaction X L tx h (bc_unstake_delay_blocks c) (bc_epoch_length c) (bc_minimum_stake c) base"

text \<open>The transaction loop of \<open>validate_block_against_state\<close>.\<close>
fun validate_transactions :: "externs \<Rightarrow> blockchain \<Rightarrow> u64 \<Rightarrow> u64 \<Rightarrow> nat \<Rightarrow> transaction list \<Rightarrow> block_progress \<Rightarrow>
    chain_error + block_progress" where
  "validate_transactions X c h base index [] st = Inr st"
| "validate_transactions X c h base index (tx # txs) st =
     (if tx_chain_id tx \<noteq> gc_chain_id (bc_genesis_config c)
      then Inl (InvalidChainId (gc_chain_id (bc_genesis_config c)) (tx_chain_id tx))
      else if tx_hash X tx \<in> bp_seen st then Inl DuplicateTransaction
      else let st1 = st\<lparr>bp_seen := insert (tx_hash X tx) (bp_seen st)\<rparr> in
        if is_coinbase tx then
          if index \<noteq> 0 then Inl InvalidCoinbase
          else if bp_coinbase st1 \<noteq> None then Inl MultipleCoinbase
          else validate_transactions X c h base (Suc index) txs (st1\<lparr>bp_coinbase := Some tx\<rparr>)
        else case apply_in_block X c (bp_ledger st1) tx h base of
          (Inl e, _) \<Rightarrow> Inl e
        | (Inr gas_used, L) \<Rightarrow>
            let priority_fees = sat_add (bp_priority_fees st1) (priority_fee_for_transaction tx gas_used base);
                total_gas_used = sat_add (bp_gas st1) gas_used
            in if total_gas_used > bc_block_gas_limit c
               then Inl (InvalidTransactionFormat ''block gas limit exceeded'')
               else validate_transactions X c h base (Suc index) txs
                 (st1\<lparr>bp_ledger := L, bp_priority_fees := priority_fees, bp_gas := total_gas_used\<rparr>))"

definition snapshot_size :: "blockchain \<Rightarrow> accounts \<Rightarrow> u64 \<Rightarrow> nat" where
  "snapshot_size c accs h = (case snapshot_for_height c accs (bc_epoch_snapshots c) h of
     None \<Rightarrow> 0 | Some s \<Rightarrow> length (es_validators s))"

text \<open>The checks of the header, in the order of the source.\<close>
definition check_header :: "externs \<Rightarrow> blockchain \<Rightarrow> i64 \<Rightarrow> block \<Rightarrow> block \<Rightarrow> accounts \<Rightarrow> chain_error + unit" where
  "check_header X c now b parent parent_accounts =
     (let hdr = blk_header b; phdr = blk_header parent;
          max_timestamp = now + MAX_FUTURE_BLOCK_TIME_SECS;
          expected_version = protocol_version_at_height c (hdr_height hdr);
          expected_base_fee = next_base_fee_per_gas c parent;
          allowed_rank = allowed_backup_rank_for_height (hdr_height hdr) (hdr_timestamp phdr) (hdr_timestamp hdr)
            (snapshot_size c parent_accounts (hdr_height hdr))
      in if hdr_height hdr \<noteq> hdr_height phdr + 1 then Inl (InvalidHeight (hdr_height phdr + 1) (hdr_height hdr))
         else if hdr_prev_hash hdr \<noteq> blk_hash parent then Inl InvalidPrevHash
         else if \<not> verify_hash X b then Inl InvalidBlockHash
         else if \<not> verify_merkle_root X b then Inl InvalidMerkleRoot
         else if \<not> blk_verify_signature X b then Inl InvalidBlockSignature
         else if hdr_timestamp hdr < hdr_timestamp phdr \<or> hdr_timestamp hdr > max_timestamp
           then Inl (InvalidBlockTimestamp (hdr_timestamp hdr) (hdr_timestamp phdr) max_timestamp)
         else if hdr_version hdr \<noteq> expected_version then Inl (InvalidProtocolVersion expected_version (hdr_version hdr))
         else if hdr_base_fee_per_gas hdr \<noteq> expected_base_fee
           then Inl (InvalidBaseFee expected_base_fee (hdr_base_fee_per_gas hdr))
         else ensure_validator_is_authorized X c parent_accounts (bc_epoch_snapshots c) (hdr_validator_public_key hdr)
           (hdr_height hdr) (hdr_prev_hash hdr) allowed_rank)"

text \<open>The checks after the transactions: governance, gas, coinbase, state root. The proposals that
  \<open>process_block\<close> passes are dropped, as in the source.\<close>
definition finish_block :: "externs \<Rightarrow> blockchain \<Rightarrow> block \<Rightarrow> block_progress \<Rightarrow> chain_error + block_execution" where
  "finish_block X c b st =
     (let hdr = blk_header b; L = bp_ledger st;
          total_active_stake = active_validator_total_stake c (lg_accounts L) (hdr_height hdr)
      in case process_block (lg_governance L) (hdr_height hdr) total_active_stake (bc_epoch_length c) of
           None \<Rightarrow> Inl Panicked
         | Some (_, gov) \<Rightarrow>
             if hdr_gas_used hdr \<noteq> bp_gas st then Inl (InvalidTransactionFormat ''block gas accounting mismatch'')
             else case bp_coinbase st of
               None \<Rightarrow> Inl MissingCoinbase
             | Some coinbase \<Rightarrow>
                 if tx_to coinbase \<noteq> address_bytes_from_public_key X (hdr_validator_public_key hdr) then Inl InvalidCoinbase
                 else if tx_amount coinbase \<noteq> sat_add (bc_block_reward c) (bp_priority_fees st) then Inl InvalidCoinbase
                 else case apply_coinbase_transaction (lg_accounts L) coinbase of
                   Inl e \<Rightarrow> Inl e
                 | Inr accs \<Rightarrow>
                     (case compute_at_protocol X accs (lg_contracts L) (protocol_version_at_height c (hdr_height hdr)) of
                        None \<Rightarrow> Inl Panicked
                      | Some root \<Rightarrow>
                          if hdr_state_root hdr \<noteq> root then Inl InvalidStateRoot
                          else Inr (L\<lparr>lg_accounts := accs, lg_governance := gov\<rparr>)))"

definition validate_block_against_state :: "externs \<Rightarrow> blockchain \<Rightarrow> i64 \<Rightarrow> block \<Rightarrow> block \<Rightarrow> accounts \<Rightarrow> contracts \<Rightarrow>
    token_registry \<Rightarrow> governance_state \<Rightarrow> chain_error + block_execution" where
  "validate_block_against_state X c now b parent parent_accounts parent_contracts parent_token_registry parent_governance =
     (case check_header X c now b parent parent_accounts of
        Inl e \<Rightarrow> Inl e
      | Inr _ \<Rightarrow>
          (case validate_transactions X c (blk_height b) (hdr_base_fee_per_gas (blk_header b)) 0 (blk_transactions b)
              \<lparr>bp_ledger = \<lparr>lg_accounts = apply_unstake_unlocks parent_accounts (blk_height b),
                 lg_contracts = parent_contracts, lg_receipts = Map.empty, lg_tokens = parent_token_registry,
                 lg_governance = parent_governance\<rparr>,
               bp_seen = {}, bp_priority_fees = 0, bp_gas = 0, bp_coinbase = None\<rparr> of
             Inl e \<Rightarrow> Inl e
           | Inr st \<Rightarrow> finish_block X c b st))"

section \<open>Adoption\<close>

text \<open>One transaction in the index loop of \<open>add_block\<close>.\<close>
definition index_transaction :: "externs \<Rightarrow> u64 \<Rightarrow> nat \<times> transaction \<Rightarrow> blockchain \<Rightarrow> blockchain" where
  "index_transaction X h itx c =
     (let (tx_index, tx) = itx;
          c1 = c\<lparr>bc_tx_hash_index := (bc_tx_hash_index c)(tx_hash X tx \<mapsto> (h, tx_index))\<rparr>
      in if is_evm tx then
           (case decode_raw_eth_tx X (tx_evm_raw_tx tx) of
              Inl _ \<Rightarrow> c1
            | Inr decoded \<Rightarrow> c1\<lparr>bc_evm_tx_hash_index := (bc_evm_tx_hash_index c1)(dr_tx_hash decoded \<mapsto> (h, tx_index))\<rparr>)
         else c1)"

text \<open>The snapshot of a new epoch, taken when its first block arrives.\<close>
definition ensure_epoch_snapshot :: "blockchain \<Rightarrow> u64 \<Rightarrow> accounts \<Rightarrow> blockchain" where
  "ensure_epoch_snapshot c h accs =
     (if h > 0 \<and> h mod max (bc_epoch_length c) 1 = 0 \<and> bc_epoch_snapshots c (epoch_for_height c h) = None
      then create_epoch_snapshot_from_accounts c (epoch_for_height c h) accs else c)"

text \<open>The mutations before the checks.\<close>
definition settle_before_block :: "externs \<Rightarrow> blockchain \<Rightarrow> u64 \<Rightarrow> blockchain" where
  "settle_before_block X c h =
     (let c1 = ensure_epoch_snapshot c h (bc_accounts c);
          producers = proposer_addresses_for_settling_epoch X c1 h;
          (accs, missed) = apply_epoch_settlement_for_block h (bc_epoch_length c1) (bc_epoch_snapshots c1) producers
             (bc_accounts c1) (bc_validator_missed_epochs c1)
      in c1\<lparr>bc_accounts := accs, bc_validator_missed_epochs := missed\<rparr>)"

text \<open>The mutations after the checks.\<close>
definition commit_block :: "externs \<Rightarrow> blockchain \<Rightarrow> block \<Rightarrow> block_execution \<Rightarrow> blockchain" where
  "commit_block X c b execution =
     (let proposer_address = address_bytes_from_public_key X (hdr_validator_public_key (blk_header b));
          proposer_stake = (case lg_accounts execution proposer_address of Some a \<Rightarrow> acc_staked_balance a | None \<Rightarrow> 0);
          tree = (case tree_insert (bc_block_tree c) b proposer_stake of Inl _ \<Rightarrow> bc_block_tree c | Inr (_, t) \<Rightarrow> t);
          c1 = c\<lparr>bc_block_tree := tree, bc_accounts := lg_accounts execution, bc_contracts := lg_contracts execution,
                 bc_receipts := bc_receipts c ++ lg_receipts execution, bc_token_registry := lg_tokens execution,
                 bc_governance := lg_governance execution\<rparr>;
          c2 = push_block_internal c1 b;
          c3 = c2\<lparr>bc_block_hash_to_height := (bc_block_hash_to_height c2)(blk_hash b \<mapsto> blk_height b)\<rparr>;
          c4 = fold (index_transaction X (blk_height b)) (List.enumerate 0 (blk_transactions b)) c3
      in remove_block_transactions_from_mempool X (rebuild_receipt_indexes X c4) b)"

definition add_block :: "externs \<Rightarrow> i64 \<Rightarrow> blockchain \<Rightarrow> block \<Rightarrow> (chain_error + unit) \<times> blockchain" where
  "add_block X now c b =
     (let c1 = settle_before_block X c (blk_height b)
      in case latest_block c1 of
           None \<Rightarrow> (Inl Panicked, c1)
         | Some prev \<Rightarrow>
             (case validate_block_against_state X c1 now b prev (bc_accounts c1) (bc_contracts c1) (bc_token_registry c1)
                 (bc_governance c1) of
                Inl e \<Rightarrow> (Inl e, c1)
              | Inr execution \<Rightarrow>
                  (case verify_block_against_known (gc_chain_id (bc_genesis_config c1)) (blk_height b) (blk_hash b) of
                     Inl e \<Rightarrow> (Inl e, c1)
                   | Inr _ \<Rightarrow> (Inr (), commit_block X c1 b execution))))"

section \<open>Runs of the transaction loop\<close>

definition executed :: "externs \<Rightarrow> u64 \<Rightarrow> transaction \<Rightarrow> u64 \<Rightarrow> ledger \<Rightarrow> block_progress \<Rightarrow> block_progress" where
  "executed X base tx g L st = st\<lparr>bp_seen := insert (tx_hash X tx) (bp_seen st), bp_ledger := L,
     bp_priority_fees := sat_add (bp_priority_fees st) (priority_fee_for_transaction tx g base), bp_gas := sat_add (bp_gas st) g\<rparr>"

definition opened :: "externs \<Rightarrow> transaction \<Rightarrow> block_progress \<Rightarrow> block_progress" where
  "opened X tx st = st\<lparr>bp_seen := insert (tx_hash X tx) (bp_seen st), bp_coinbase := Some tx\<rparr>"

text \<open>The two ways the loop passes a transaction.\<close>
lemma validate_transactions_Cons_iff:
  "validate_transactions X c h base i (tx # txs) st = Inr st' \<longleftrightarrow>
     tx_chain_id tx = gc_chain_id (bc_genesis_config c) \<and> tx_hash X tx \<notin> bp_seen st \<and>
     (if is_coinbase tx then i = 0 \<and> bp_coinbase st = None \<and> validate_transactions X c h base (Suc i) txs (opened X tx st) = Inr st'
      else \<exists>g L. apply_in_block X c (bp_ledger st) tx h base = (Inr g, L) \<and> sat_add (bp_gas st) g \<le> bc_block_gas_limit c
        \<and> validate_transactions X c h base (Suc i) txs (executed X base tx g L st) = Inr st')"
  by (auto simp: Let_def executed_def opened_def linorder_not_less split: sum.splits prod.splits)

section \<open>The supply over a block\<close>

definition native_block :: "block \<Rightarrow> bool" where
  "native_block b \<longleftrightarrow> list_all (\<lambda>tx. \<not> is_evm tx) (blk_transactions b)"

text \<open>Coins that the transactions of a block take out of the ledger beside their fees.\<close>
definition block_lost :: "transaction list \<Rightarrow> nat" where
  "block_lost txs = sum_list (map lost_amount (filter (\<lambda>tx. \<not> is_coinbase tx) txs))"

text \<open>What the transaction loop keeps: the coins that left the accounts are the base fees of the gas, the
  priority fees and the lost amounts.\<close>
definition accounted :: "u64 \<Rightarrow> nat \<Rightarrow> block_progress \<Rightarrow> nat \<Rightarrow> bool" where
  "accounted base W st lost \<longleftrightarrow> finite (dom (lg_accounts (bp_ledger st)))
     \<and> total wealth (lg_accounts (bp_ledger st)) + unat (bp_gas st) * unat base + unat (bp_priority_fees st) + lost = W"

lemma accounted_step:
  assumes acc: "accounted base W st lost" and W: "W < 2 ^ 64 - 1" and base: "1 \<le> unat base"
    and tx: "apply_in_block X c (bp_ledger st) tx h base = (Inr g, L)" "\<not> is_evm tx"
  shows "accounted base W (executed X base tx g L st) (lost + lost_amount tx)"
proof -
  let ?A = "lg_accounts (bp_ledger st)"
  have fin: "finite (dom ?A)" and eq: "total wealth ?A + unat (bp_gas st) * unat base + unat (bp_priority_fees st) + lost = W"
    using acc by (simp_all add: accounted_def)
  obtain price where p: "effective_gas_price tx base = Some price"
    and w: "total wealth (lg_accounts L) + unat g * unat price + lost_amount tx = total wealth ?A" and fin': "finite (dom (lg_accounts L))"
    using native_tx_wealth [OF tx fin] eq W by auto
  have split: "unat g * unat price = unat g * unat base + unat (priority_fee_for_transaction tx g base)"
    using fee_split [OF p, of g] w eq W by linarith
  have "unat (bp_gas st) + unat g \<le> (unat (bp_gas st) + unat g) * unat base" using base by (cases "unat base") auto
  also have "\<dots> \<le> W" using w eq split by (simp add: distrib_right)
  finally have "unat (sat_add (bp_gas st) g) = unat (bp_gas st) + unat g" using W by (simp add: unat_sat_add)
  moreover have "unat (sat_add (bp_priority_fees st) (priority_fee_for_transaction tx g base))
      = unat (bp_priority_fees st) + unat (priority_fee_for_transaction tx g base)"
    using w eq split W by (simp add: unat_sat_add)
  ultimately show ?thesis
    using w eq split fin' by (simp add: accounted_def executed_def distrib_right)
qed

lemma validate_transactions_accounted:
  assumes "validate_transactions X c h base i txs st = Inr st'" "accounted base W st lost" "W < 2 ^ 64 - 1" "1 \<le> unat base"
    and "list_all (\<lambda>tx. \<not> is_evm tx) txs"
  shows "accounted base W st' (lost + block_lost txs)"
  using assms(1,2,5)
proof (induction txs arbitrary: i st lost)
  case Nil
  then show ?case by (simp add: block_lost_def)
next
  case (Cons tx txs)
  note step = Cons.prems(1) [unfolded validate_transactions_Cons_iff]
  show ?case
  proof (cases "is_coinbase tx")
    case True
    then have v: "validate_transactions X c h base (Suc i) txs (opened X tx st) = Inr st'" using step by metis
    have "accounted base W (opened X tx st) lost" using Cons.prems(2) by (simp add: accounted_def opened_def)
    then show ?thesis using Cons.IH [OF v] Cons.prems(3) True by (simp add: block_lost_def)
  next
    case False
    then obtain g L where "apply_in_block X c (bp_ledger st) tx h base = (Inr g, L)"
      and v: "validate_transactions X c h base (Suc i) txs (executed X base tx g L st) = Inr st'"
      using step by auto
    then have "accounted base W (executed X base tx g L st) (lost + lost_amount tx)"
      using accounted_step Cons.prems(2,3) assms(3,4) by simp
    then show ?thesis using Cons.IH [OF v, of "lost + lost_amount tx"] Cons.prems(3) False by (simp add: block_lost_def add.assoc)
  qed
qed

definition block_start :: "block \<Rightarrow> accounts \<Rightarrow> contracts \<Rightarrow> token_registry \<Rightarrow> governance_state \<Rightarrow> block_progress" where
  "block_start b accs cons tok gov = \<lparr>bp_ledger = \<lparr>lg_accounts = apply_unstake_unlocks accs (blk_height b),
     lg_contracts = cons, lg_receipts = Map.empty, lg_tokens = tok, lg_governance = gov\<rparr>,
     bp_seen = {}, bp_priority_fees = 0, bp_gas = 0, bp_coinbase = None\<rparr>"

text \<open>The parts of an accepted block.\<close>
lemma validate_block_ok:
  assumes "validate_block_against_state X c now b parent accs cons tok gov = Inr ex"
  shows "\<exists>st cb. check_header X c now b parent accs = Inr ()
    \<and> validate_transactions X c (blk_height b) (hdr_base_fee_per_gas (blk_header b)) 0 (blk_transactions b)
       (block_start b accs cons tok gov) = Inr st
    \<and> finish_block X c b st = Inr ex
    \<and> bp_coinbase st = Some cb
    \<and> hdr_gas_used (blk_header b) = bp_gas st
    \<and> tx_to cb = address_bytes_from_public_key X (hdr_validator_public_key (blk_header b))
    \<and> tx_amount cb = sat_add (bc_block_reward c) (bp_priority_fees st)
    \<and> lg_accounts ex = credit (lg_accounts (bp_ledger st)) (tx_to cb) (tx_amount cb)
    \<and> lg_contracts ex = lg_contracts (bp_ledger st)
    \<and> compute_at_protocol X (lg_accounts ex) (lg_contracts ex) (protocol_version_at_height c (blk_height b))
       = Some (hdr_state_root (blk_header b))"
  using assms
  by (fastforce simp: validate_block_against_state_def finish_block_def apply_coinbase_transaction_def Let_def block_start_def [symmetric]
      split: sum.splits option.splits if_splits prod.splits)

lemma check_header_base_fee:
  "check_header X c now b parent accs = Inr () \<Longrightarrow> hdr_base_fee_per_gas (blk_header b) = next_base_fee_per_gas c parent"
  by (auto simp: check_header_def Let_def split: if_splits)

lemma validated_supply:
  assumes v: "validate_block_against_state X c now b parent accs cons tok gov = Inr ex"
    and "native_block b" "finite (dom accs)" "total wealth accs + unat (bc_block_reward c) < 2 ^ 64 - 1"
  shows "total wealth (lg_accounts ex) + unat (hdr_gas_used (blk_header b)) * unat (hdr_base_fee_per_gas (blk_header b))
      + block_lost (blk_transactions b) = total wealth accs + unat (bc_block_reward c)"
proof -
  let ?base = "hdr_base_fee_per_gas (blk_header b)"
  obtain st and cb :: transaction where h: "check_header X c now b parent accs = Inr ()"
    and r: "validate_transactions X c (blk_height b) ?base 0 (blk_transactions b) (block_start b accs cons tok gov) = Inr st"
    and g: "hdr_gas_used (blk_header b) = bp_gas st" and am: "tx_amount cb = sat_add (bc_block_reward c) (bp_priority_fees st)"
    and ex: "lg_accounts ex = credit (lg_accounts (bp_ledger st)) (tx_to cb) (tx_amount cb)"
    using validate_block_ok [OF v] by blast
  have W: "total wealth accs < 2 ^ 64 - 1" using assms(4) by linarith
  have "1 \<le> unat ?base" using check_header_base_fee [OF h] next_base_fee_pos by simp
  moreover have "accounted ?base (total wealth accs) (block_start b accs cons tok gov) 0"
    using assms(3) unlocks_wealth [OF assms(3)] W by (simp add: accounted_def block_start_def)
  ultimately have fin: "finite (dom (lg_accounts (bp_ledger st)))" and acc: "total wealth (lg_accounts (bp_ledger st)) + unat (bp_gas st) * unat ?base
      + unat (bp_priority_fees st) + block_lost (blk_transactions b) = total wealth accs"
    using validate_transactions_accounted [OF r _ W] assms(2) by (simp_all add: accounted_def native_block_def)
  have amt: "unat (tx_amount cb) = unat (bc_block_reward c) + unat (bp_priority_fees st)"
    using am acc assms(4) by (simp add: unat_sat_add)
  have "total wealth (lg_accounts ex) = total wealth (lg_accounts (bp_ledger st)) + unat (tx_amount cb)"
    unfolding ex by (rule total_credit [OF fin]) (use acc amt assms(4) in linarith)
  then show ?thesis using acc amt g by simp
qed

section \<open>Accepted blocks\<close>

lemma validate_transactions_shape:
  assumes "validate_transactions X c h base i txs st = Inr st'"
  shows "distinct (map (tx_hash X) txs)" "bp_seen st \<inter> tx_hash X ` set txs = {}"
    "\<forall>tx \<in> set txs. tx_chain_id tx = gc_chain_id (bc_genesis_config c)"
    "bp_gas st \<le> bc_block_gas_limit c \<Longrightarrow> bp_gas st' \<le> bc_block_gas_limit c"
    "0 < i \<Longrightarrow> (\<forall>tx \<in> set txs. \<not> is_coinbase tx) \<and> bp_coinbase st' = bp_coinbase st"
proof -
  have "distinct (map (tx_hash X) txs) \<and> bp_seen st \<inter> tx_hash X ` set txs = {}
    \<and> (\<forall>tx \<in> set txs. tx_chain_id tx = gc_chain_id (bc_genesis_config c))
    \<and> (bp_gas st \<le> bc_block_gas_limit c \<longrightarrow> bp_gas st' \<le> bc_block_gas_limit c)
    \<and> (0 < i \<longrightarrow> (\<forall>tx \<in> set txs. \<not> is_coinbase tx) \<and> bp_coinbase st' = bp_coinbase st)"
    using assms
  proof (induction txs arbitrary: i st)
    case (Cons tx txs)
    note step = Cons.prems [unfolded validate_transactions_Cons_iff]
    obtain st1 where v: "validate_transactions X c h base (Suc i) txs st1 = Inr st'"
      and s: "bp_seen st1 = insert (tx_hash X tx) (bp_seen st)"
      "bp_gas st \<le> bc_block_gas_limit c \<longrightarrow> bp_gas st1 \<le> bc_block_gas_limit c"
      "0 < i \<longrightarrow> \<not> is_coinbase tx \<and> bp_coinbase st1 = bp_coinbase st"
    proof (cases "is_coinbase tx")
      case True
      then show thesis using step by (intro that [of "opened X tx st"]) (auto simp: opened_def)
    next
      case False
      then obtain g L where "validate_transactions X c h base (Suc i) txs (executed X base tx g L st) = Inr st'"
        "sat_add (bp_gas st) g \<le> bc_block_gas_limit c" using step by auto
      then show thesis using False by (intro that [of "executed X base tx g L st"]) (auto simp: executed_def)
    qed
    show ?case using Cons.IH [OF v] s step by auto
  qed simp
  then show "distinct (map (tx_hash X) txs)" "bp_seen st \<inter> tx_hash X ` set txs = {}"
    "\<forall>tx \<in> set txs. tx_chain_id tx = gc_chain_id (bc_genesis_config c)"
    "bp_gas st \<le> bc_block_gas_limit c \<Longrightarrow> bp_gas st' \<le> bc_block_gas_limit c"
    "0 < i \<Longrightarrow> (\<forall>tx \<in> set txs. \<not> is_coinbase tx) \<and> bp_coinbase st' = bp_coinbase st" by blast+
qed

text \<open>A block that passes the loop and has a coinbase starts with it, and has no other.\<close>
lemma coinbase_first:
  assumes "validate_transactions X c h base 0 txs st = Inr st'" "bp_coinbase st = None" "bp_coinbase st' = Some cb"
  shows "\<exists>users. txs = cb # users \<and> is_coinbase cb \<and> (\<forall>u \<in> set users. \<not> is_coinbase u)"
proof (cases txs)
  case Nil
  then show ?thesis using assms by simp
next
  case (Cons tx users)
  note step = assms(1) [unfolded Cons validate_transactions_Cons_iff]
  show ?thesis
  proof (cases "is_coinbase tx")
    case True
    then have "validate_transactions X c h base (Suc 0) users (opened X tx st) = Inr st'" using step by simp
    from validate_transactions_shape(5) [OF this] show ?thesis using assms(3) Cons True by (simp add: opened_def)
  next
    case False
    then obtain g L where "validate_transactions X c h base (Suc 0) users (executed X base tx g L st) = Inr st'"
      using step by auto
    from validate_transactions_shape(5) [OF this] show ?thesis using assms(2,3) by (simp add: executed_def)
  qed
qed

lemma check_header_ok:
  assumes "check_header X c now b parent accs = Inr ()"
  shows "blk_height b = blk_height parent + 1" "blk_prev_hash b = blk_hash parent" "verify_hash X b" "verify_merkle_root X b"
    "blk_verify_signature X b" "hdr_timestamp (blk_header parent) \<le> hdr_timestamp (blk_header b)"
    "hdr_timestamp (blk_header b) \<le> now + MAX_FUTURE_BLOCK_TIME_SECS"
    "hdr_version (blk_header b) = protocol_version_at_height c (blk_height b)"
    "hdr_base_fee_per_gas (blk_header b) = next_base_fee_per_gas c parent"
  using assms by (auto simp: check_header_def Let_def split: if_splits)

lemma push_block_accounts [simp]:
  "bc_accounts (push_block_internal c b) = bc_accounts c" "bc_contracts (push_block_internal c b) = bc_contracts c"
  by (auto simp: push_block_internal_def split: sum.split)

lemma index_transaction_keeps [simp]:
  "bc_accounts (index_transaction X h itx c) = bc_accounts c" "bc_contracts (index_transaction X h itx c) = bc_contracts c"
  "bc_cursor (index_transaction X h itx c) = bc_cursor c" "bc_block_tree (index_transaction X h itx c) = bc_block_tree c"
  by (auto simp: index_transaction_def Let_def split: prod.split sum.split)

lemma fold_index_keeps [simp]:
  "bc_accounts (fold (index_transaction X h) itxs c) = bc_accounts c"
  "bc_contracts (fold (index_transaction X h) itxs c) = bc_contracts c"
  "bc_cursor (fold (index_transaction X h) itxs c) = bc_cursor c"
  "bc_block_tree (fold (index_transaction X h) itxs c) = bc_block_tree c"
  by (induction itxs arbitrary: c) simp_all

lemma rebuild_receipt_indexes_keeps [simp]:
  "bc_accounts (rebuild_receipt_indexes X c) = bc_accounts c" "bc_contracts (rebuild_receipt_indexes X c) = bc_contracts c"
  "bc_cursor (rebuild_receipt_indexes X c) = bc_cursor c" "bc_block_tree (rebuild_receipt_indexes X c) = bc_block_tree c"
  by (simp_all add: rebuild_receipt_indexes_def split: prod.split)

lemma commit_block_state [simp]:
  "bc_accounts (commit_block X c b ex) = lg_accounts ex" "bc_contracts (commit_block X c b ex) = lg_contracts ex"
  "bc_cursor (commit_block X c b ex) = (case view_append (bc_cursor c) b of Inl _ \<Rightarrow> bc_cursor c | Inr v \<Rightarrow> v)"
  by (simp_all add: commit_block_def Let_def remove_block_transactions_from_mempool_def push_block_internal_def split: sum.split)

lemma settle_keeps [simp]:
  "bc_cursor (settle_before_block X c h) = bc_cursor c" "bc_contracts (settle_before_block X c h) = bc_contracts c"
  "bc_block_gas_limit (settle_before_block X c h) = bc_block_gas_limit c"
  "bc_genesis_config (settle_before_block X c h) = bc_genesis_config c"
  "bc_initial_base_fee_per_gas (settle_before_block X c h) = bc_initial_base_fee_per_gas c"
  "bc_base_fee_change_denominator (settle_before_block X c h) = bc_base_fee_change_denominator c"
  "bc_block_reward (settle_before_block X c h) = bc_block_reward c"
  by (simp_all add: settle_before_block_def Let_def ensure_epoch_snapshot_def create_epoch_snapshot_from_accounts_def split: prod.split)

lemma settle_chain_reads [simp]:
  "latest_block (settle_before_block X c h) = latest_block c"
  "protocol_version_at_height (settle_before_block X c h) = protocol_version_at_height c"
  "next_base_fee_per_gas (settle_before_block X c h) = next_base_fee_per_gas c"
  unfolding latest_block_def height_def block_count_def block_at_height_def protocol_version_at_height_def
    next_base_fee_per_gas_def parent_base_fee_def fun_eq_iff settle_keeps by simp_all

lemma add_block_ok:
  assumes "add_block X now c b = (Inr (), c')"
  shows "\<exists>prev ex. let c1 = settle_before_block X c (blk_height b) in latest_block c = Some prev
    \<and> validate_block_against_state X c1 now b prev (bc_accounts c1) (bc_contracts c1) (bc_token_registry c1) (bc_governance c1) = Inr ex
    \<and> c' = commit_block X c1 b ex"
  using assms by (auto simp: add_block_def Let_def split: option.splits sum.splits)

text \<open>The priority fees and the gas of the execution of a list of transactions, one after the other.\<close>
fun executed_totals :: "externs \<Rightarrow> blockchain \<Rightarrow> u64 \<Rightarrow> u64 \<Rightarrow> transaction list \<Rightarrow> ledger \<Rightarrow> u64 \<times> u64 \<Rightarrow> u64 \<times> u64" where
  "executed_totals X c h base [] L (fees, gas) = (fees, gas)"
| "executed_totals X c h base (tx # txs) L (fees, gas) = (case apply_in_block X c L tx h base of
     (Inl _, _) \<Rightarrow> (fees, gas)
   | (Inr g, L') \<Rightarrow> executed_totals X c h base txs L' (sat_add fees (priority_fee_for_transaction tx g base), sat_add gas g))"

lemma validate_transactions_totals:
  "validate_transactions X c h base i txs st = Inr st' \<Longrightarrow> \<forall>tx \<in> set txs. \<not> is_coinbase tx \<Longrightarrow>
     executed_totals X c h base txs (bp_ledger st) (bp_priority_fees st, bp_gas st) = (bp_priority_fees st', bp_gas st')"
proof (induction txs arbitrary: i st)
  case (Cons tx txs)
  then obtain g L where "apply_in_block X c (bp_ledger st) tx h base = (Inr g, L)"
    "validate_transactions X c h base (Suc i) txs (executed X base tx g L st) = Inr st'"
    unfolding validate_transactions_Cons_iff by auto
  then show ?case using Cons.IH [of "Suc i" "executed X base tx g L st"] Cons.prems(2) by (simp add: executed_def)
qed simp

lemma add_block_coinbase:
  assumes "add_block X now c b = (Inr (), c')"
  shows "\<exists>cb users. blk_transactions b = cb # users \<and> is_coinbase cb"
proof -
  obtain st cb c1 where r: "validate_transactions X c1 (blk_height b) (hdr_base_fee_per_gas (blk_header b)) 0 (blk_transactions b)
       (block_start b (bc_accounts c1) (bc_contracts c1) (bc_token_registry c1) (bc_governance c1)) = Inr st" "bp_coinbase st = Some cb"
    using add_block_ok [OF assms] unfolding Let_def by (blast dest: validate_block_ok)
  then show ?thesis using coinbase_first [OF r(1) _ r(2)] by (auto simp: block_start_def)
qed

lemma settle_inside_epoch:
  assumes "h mod max (bc_epoch_length c) 1 \<noteq> 0"
  shows "settle_before_block X c h = c"
    and "apply_epoch_settlement_for_block h (bc_epoch_length c) (bc_epoch_snapshots c) pr accs missed = (accs, missed)"
proof -
  let ?e = "max (bc_epoch_length c) 1"
  have "unat h mod unat ?e \<noteq> 0" using assms by (metis unat_mod_distrib unat_eq_zero)
  then obtain n where n: "unat h = Suc n" "Suc n mod unat ?e \<noteq> 0" by (cases "unat h") auto
  have "unat (sat_sub h 1 div ?e) = unat (h div ?e)"
    using n by (simp add: unat_div_distrib unat_sat_sub div_Suc)
  then have "h div ?e = sat_sub h 1 div ?e" by (simp add: word_unat_eq_iff)
  then have "\<not> sat_sub h 1 div ?e < h div ?e" by simp
  then show e: "apply_epoch_settlement_for_block h (bc_epoch_length c) (bc_epoch_snapshots c) pr accs missed = (accs, missed)" for pr accs missed
    by (simp add: apply_epoch_settlement_for_block_def Let_def linorder_not_less)
  show "settle_before_block X c h = c" using assms e by (simp add: settle_before_block_def ensure_epoch_snapshot_def Let_def)
qed

text \<open>C7. Coins over a block. When a block of native transactions is adopted, the coins in all accounts change, from the ledger after epoch settlement
  to the one after the block, by exactly the block reward, less the base fee of the gas the header declares and the amounts that the transaction
  kinds without a recipient take out: priority fees only move, no rounding or saturation creates or loses a coin. Inside an epoch there is
  no settlement and the start is the ledger of the chain; at an epoch boundary the rewards and penalties of the settlement come before.\<close>
theorem block_supply:
  assumes "add_block X now c b = (Inr (), c')" "native_block b"
    and "finite (dom (bc_accounts (settle_before_block X c (blk_height b))))"
    and "total wealth (bc_accounts (settle_before_block X c (blk_height b))) + unat (bc_block_reward c) < 2 ^ 64 - 1"
  shows "total wealth (bc_accounts c') + unat (hdr_gas_used (blk_header b)) * unat (hdr_base_fee_per_gas (blk_header b))
      + block_lost (blk_transactions b)
    = total wealth (bc_accounts (settle_before_block X c (blk_height b))) + unat (bc_block_reward c)
    \<and> (blk_height b mod max (bc_epoch_length c) 1 \<noteq> 0 \<longrightarrow> settle_before_block X c (blk_height b) = c)"
  using add_block_ok [OF assms(1)] validated_supply [OF _ assms(2,3)] assms(4) settle_inside_epoch(1) by (auto simp: Let_def)

text \<open>C9. What acceptance means. A block that \<open>add_block\<close> accepts extends the tip by height and hash, carries the hash of its
  header, the Merkle root of its transactions and a valid signature of its proposer, a time between the parent's and the clock's
  tolerance, the base fee and version the chain computes, the gas its transactions used, within the limit, distinct transactions of this chain, one
  coinbase at the front that pays the proposer exactly the block reward and the priority fees of the execution; and the state root in its header is the root of the accounts
  and contracts the chain holds afterwards.\<close>
theorem accepted_block:
  assumes "add_block X now c b = (Inr (), c')"
  shows "\<exists>prev cb users. latest_block c = Some prev
    \<and> blk_height b = blk_height prev + 1 \<and> blk_prev_hash b = blk_hash prev
    \<and> verify_hash X b \<and> verify_merkle_root X b \<and> blk_verify_signature X b
    \<and> hdr_timestamp (blk_header prev) \<le> hdr_timestamp (blk_header b) \<and> hdr_timestamp (blk_header b) \<le> now + 30
    \<and> hdr_base_fee_per_gas (blk_header b) = next_base_fee_per_gas c prev
    \<and> hdr_gas_used (blk_header b) \<le> bc_block_gas_limit c
    \<and> blk_transactions b = cb # users \<and> is_coinbase cb \<and> (\<forall>u \<in> set users. \<not> is_coinbase u)
    \<and> tx_to cb = address_bytes_from_public_key X (hdr_validator_public_key (blk_header b))
    \<and> (let s = settle_before_block X c (blk_height b);
           (fees, gas) = executed_totals X s (blk_height b) (hdr_base_fee_per_gas (blk_header b)) users
             (bp_ledger (block_start b (bc_accounts s) (bc_contracts s) (bc_token_registry s) (bc_governance s))) (0, 0)
       in tx_amount cb = sat_add (bc_block_reward c) fees \<and> hdr_gas_used (blk_header b) = gas)
    \<and> distinct (map (tx_hash X) (cb # users))
    \<and> (\<forall>tx \<in> set (cb # users). tx_chain_id tx = gc_chain_id (bc_genesis_config c))
    \<and> compute_at_protocol X (bc_accounts c') (bc_contracts c') (hdr_version (blk_header b)) = Some (hdr_state_root (blk_header b))"
proof -
  let ?c = "settle_before_block X c (blk_height b)"
  obtain prev ex where p: "latest_block c = Some prev" and c': "c' = commit_block X ?c b ex"
    and v: "validate_block_against_state X ?c now b prev (bc_accounts ?c) (bc_contracts ?c) (bc_token_registry ?c) (bc_governance ?c) = Inr ex"
    using add_block_ok [OF assms] by (auto simp: Let_def)
  obtain st cb where h: "check_header X ?c now b prev (bc_accounts ?c) = Inr ()"
    and r: "validate_transactions X ?c (blk_height b) (hdr_base_fee_per_gas (blk_header b)) 0 (blk_transactions b)
       (block_start b (bc_accounts ?c) (bc_contracts ?c) (bc_token_registry ?c) (bc_governance ?c)) = Inr st"
    and cb: "bp_coinbase st = Some cb" and gas: "hdr_gas_used (blk_header b) = bp_gas st"
    and to: "tx_to cb = address_bytes_from_public_key X (hdr_validator_public_key (blk_header b))"
    and amt: "tx_amount cb = sat_add (bc_block_reward ?c) (bp_priority_fees st)"
    and root: "compute_at_protocol X (lg_accounts ex) (lg_contracts ex) (protocol_version_at_height ?c (blk_height b)) = Some (hdr_state_root (blk_header b))"
    using validate_block_ok [OF v] by blast
  obtain users where u: "blk_transactions b = cb # users" "is_coinbase cb" "\<forall>u \<in> set users. \<not> is_coinbase u"
    using coinbase_first [OF r _ cb] by (auto simp: block_start_def)
  note hd = check_header_ok [OF h]
  let ?bp = "block_start b (bc_accounts ?c) (bc_contracts ?c) (bc_token_registry ?c) (bc_governance ?c)"
  have "executed_totals X ?c (blk_height b) (hdr_base_fee_per_gas (blk_header b)) users (bp_ledger ?bp) (0, 0) = (bp_priority_fees st, bp_gas st)"
    using validate_transactions_totals [of X ?c "blk_height b" "hdr_base_fee_per_gas (blk_header b)" "Suc 0" users "opened X cb ?bp" st] r u
    unfolding u(1) validate_transactions_Cons_iff by (simp add: opened_def block_start_def)
  moreover have "bp_gas st \<le> bc_block_gas_limit c" using validate_transactions_shape(4) [OF r] by (simp add: block_start_def)
  ultimately show ?thesis
    using p u to amt hd root gas c' validate_transactions_shape(1,3) [OF r]
    by (intro exI [of _ prev] exI [of _ cb] exI [of _ users]) (simp add: MAX_FUTURE_BLOCK_TIME_SECS_def)
qed

end
