(* ===== verification/Production.thy ===== *)
theory Production
  imports Block_Apply
begin

text \<open>
  Block production (\<^verbatim>\<open>src/src/core/chain/produce.rs\<close>) and its agreement with block validation.
\<close>

section \<open>Assembling a block\<close>

record assembly =
  as_ledger :: ledger
  as_txs :: "transaction list"
  as_priority_fees :: u64
  as_gas :: u64
  as_seen :: "bytes set"

text \<open>One pending transaction: whatever its fate, the projected ledger keeps the mutations of its execution.\<close>
definition assemble_tx :: "externs \<Rightarrow> blockchain \<Rightarrow> u64 \<Rightarrow> u64 \<Rightarrow> transaction \<Rightarrow> assembly \<Rightarrow> assembly" where
  "assemble_tx X c h base tx st =
     (if tx_hash X tx \<in> as_seen st then st
      else let st1 = st\<lparr>as_seen := insert (tx_hash X tx) (as_seen st)\<rparr>;
               (result, L) = apply_in_block X c (as_ledger st1) tx h base;
               st2 = st1\<lparr>as_ledger := L\<rparr>
        in case result of
             Inl _ \<Rightarrow> st2
           | Inr gas_used \<Rightarrow>
               if sat_add (as_gas st2) gas_used \<le> bc_block_gas_limit c
               then st2\<lparr>as_gas := sat_add (as_gas st2) gas_used,
                      as_priority_fees := sat_add (as_priority_fees st2) (priority_fee_for_transaction tx gas_used base),
                      as_txs := as_txs st2 @ [tx]\<rparr>
               else st2)"

text \<open>The projected state the loop starts from.\<close>
definition assembly_start :: "externs \<Rightarrow> blockchain \<Rightarrow> u64 \<Rightarrow> assembly" where
  "assembly_start X c h =
     (let unlocked = apply_unstake_unlocks (bc_accounts c) h;
          accs = fst (apply_epoch_settlement_for_block h (bc_epoch_length c) (bc_epoch_snapshots c)
            (proposer_addresses_for_settling_epoch X c h) unlocked (bc_validator_missed_epochs c))
      in \<lparr>as_ledger = \<lparr>lg_accounts = accs, lg_contracts = bc_contracts c, lg_receipts = Map.empty,
            lg_tokens = bc_token_registry c, lg_governance = bc_governance c\<rparr>,
          as_txs = [], as_priority_fees = 0, as_gas = 0, as_seen = {}\<rparr>)"

text \<open>The clock is read three times: for the rank (\<open>now\<close>), for the coinbase (\<open>now_cb\<close>) and in \<open>Block::new\<close> (\<open>now_b\<close>).\<close>
definition create_block :: "externs \<Rightarrow> i64 \<Rightarrow> i64 \<Rightarrow> i64 \<Rightarrow> blockchain \<Rightarrow> key_pair \<Rightarrow> chain_error + block" where
  "create_block X now now_cb now_b c kp =
     (case latest_block c of
        None \<Rightarrow> Inl Panicked
      | Some prev_block \<Rightarrow>
          let h = blk_height prev_block + 1; prev_hash = blk_hash prev_block;
              protocol_version = protocol_version_at_height c h;
              base = next_base_fee_per_gas c prev_block;
              proposer_address = address_bytes_from_public_key X (kp_public_key kp);
              allowed_rank = allowed_backup_rank_for_height h (hdr_timestamp (blk_header prev_block)) now
                (snapshot_size c (bc_accounts c) h)
          in case ensure_validator_is_authorized X c (bc_accounts c) (bc_epoch_snapshots c) (kp_public_key kp) h
               prev_hash allowed_rank of
             Inl e \<Rightarrow> Inl e
           | Inr _ \<Rightarrow>
               let st = fold (assemble_tx X c h base) (bc_pending_transactions c) (assembly_start X c h);
                   coinbase = coinbase_with_timestamp (gc_chain_id (bc_genesis_config c)) proposer_address
                     (sat_add (bc_block_reward c) (as_priority_fees st)) now_cb
               in (case apply_coinbase_transaction (lg_accounts (as_ledger st)) coinbase of
                     Inl e \<Rightarrow> Inl e
                   | Inr accs \<Rightarrow>
                       (case compute_at_protocol X accs (lg_contracts (as_ledger st)) protocol_version of
                          None \<Rightarrow> Inl Panicked
                        | Some state_root \<Rightarrow>
                            (case block_new X now_b protocol_version h prev_hash state_root (as_gas st) base
                                (coinbase # as_txs st) kp of
                               None \<Rightarrow> Inl Panicked
                             | Some b \<Rightarrow> Inr b))))"

section \<open>Assembling and validating agree\<close>

text \<open>The transactions of a finished assembly, by the one that comes first.\<close>
lemma assemble_tx_cases:
  obtains (skipped) "as_txs (assemble_tx X c h base tx st) = as_txs st"
  | (included) g L where "tx_hash X tx \<notin> as_seen st" "apply_in_block X c (as_ledger st) tx h base = (Inr g, L)"
    "sat_add (as_gas st) g \<le> bc_block_gas_limit c"
    "assemble_tx X c h base tx st = \<lparr>as_ledger = L, as_txs = as_txs st @ [tx],
       as_priority_fees = sat_add (as_priority_fees st) (priority_fee_for_transaction tx g base),
       as_gas = sat_add (as_gas st) g, as_seen = insert (tx_hash X tx) (as_seen st)\<rparr>"
proof (cases "tx_hash X tx \<in> as_seen st")
  case True
  then show thesis by (intro skipped) (simp add: assemble_tx_def)
next
  case False
  obtain r L where a: "apply_in_block X c (as_ledger st) tx h base = (r, L)" by fastforce
  show thesis
  proof (cases r)
    case (Inl e)
    then show thesis using a False by (intro skipped) (simp add: assemble_tx_def Let_def)
  next
    case (Inr g)
    then show thesis using a False skipped included [of g L]
      by (cases "sat_add (as_gas st) g \<le> bc_block_gas_limit c") (simp_all add: assemble_tx_def Let_def)
  qed
qed

lemma assembled_at_most: "length (as_txs (fold (assemble_tx X c h base) txs st)) \<le> length (as_txs st) + length txs"
proof (induction txs arbitrary: st)
  case (Cons tx txs)
  have "length (as_txs (assemble_tx X c h base tx st)) \<le> Suc (length (as_txs st))"
    by (rule assemble_tx_cases [of X c h base tx st]) simp_all
  then show ?case using Cons [of "assemble_tx X c h base tx st"] by simp
qed simp

lemma included_not_coinbase: "apply_in_block X c L tx h base = (Inr g, L') \<Longrightarrow> \<not> is_coinbase tx"
  by (erule apply_user_transaction_ok) (auto simp: execute_kind_def is_coinbase_def)

definition agrees_with :: "block_progress \<Rightarrow> assembly \<Rightarrow> bytes set \<Rightarrow> bool" where
  "agrees_with bp st extra \<longleftrightarrow> bp_ledger bp = as_ledger st \<and> bp_gas bp = as_gas st
     \<and> bp_priority_fees bp = as_priority_fees st \<and> bp_seen bp = as_seen st \<union> extra"

text \<open>When every pending transaction is included, the validation loop repeats the assembly step by step.\<close>
lemma assembled_validates:
  assumes "as_txs (fold (assemble_tx X c h base) txs st) = as_txs st @ txs" "agrees_with bp st extra"
    and "\<forall>tx \<in> set txs. tx_chain_id tx = gc_chain_id (bc_genesis_config c) \<and> tx_hash X tx \<notin> extra"
  shows "\<exists>bp'. validate_transactions X c h base (Suc i) txs bp = Inr bp'
    \<and> agrees_with bp' (fold (assemble_tx X c h base) txs st) extra \<and> bp_coinbase bp' = bp_coinbase bp"
  using assms
proof (induction txs arbitrary: st bp i)
  case (Cons tx txs)
  let ?st = "assemble_tx X c h base tx st"
  show ?case
  proof (rule assemble_tx_cases [of X c h base tx st])
    assume "as_txs ?st = as_txs st"
    then show ?thesis using Cons.prems(1) assembled_at_most [of X c h base txs ?st] by simp
  next
    fix g L
    assume a: "tx_hash X tx \<notin> as_seen st" "apply_in_block X c (as_ledger st) tx h base = (Inr g, L)"
      "sat_add (as_gas st) g \<le> bc_block_gas_limit c"
      and st: "?st = \<lparr>as_ledger = L, as_txs = as_txs st @ [tx],
       as_priority_fees = sat_add (as_priority_fees st) (priority_fee_for_transaction tx g base),
       as_gas = sat_add (as_gas st) g, as_seen = insert (tx_hash X tx) (as_seen st)\<rparr>"
    have ag: "agrees_with (executed X base tx g L bp) ?st extra"
      using Cons.prems(2) by (simp add: st agrees_with_def executed_def)
    have "as_txs (fold (assemble_tx X c h base) txs ?st) = as_txs ?st @ txs" using Cons.prems(1) by (simp add: st)
    from Cons.IH [OF this ag] Cons.prems(3) obtain bp' where
      "validate_transactions X c h base (Suc (Suc i)) txs (executed X base tx g L bp) = Inr bp'"
      "agrees_with bp' (fold (assemble_tx X c h base) txs ?st) extra" "bp_coinbase bp' = bp_coinbase bp"
      by (auto simp: executed_def)
    then show ?thesis
      using a Cons.prems(2,3) included_not_coinbase [OF a(2)]
      by (intro exI [of _ bp']) (auto simp: validate_transactions_Cons_iff agrees_with_def simp del: validate_transactions.simps(2))
  qed
qed simp

lemma set_ranks_upto: "set (ranks_upto r) = {0..r}"
proof
  show "set (ranks_upto r) \<subseteq> {0..r}"
  proof
    fix x assume "x \<in> set (ranks_upto r)"
    then obtain n where "x = of_nat n" "n \<in> {0..<unat r + 1}" unfolding ranks_upto_def set_map set_upt by (elim imageE)
    moreover have "unat r < 2 ^ 32" using unsigned_less [of r] by simp
    ultimately have "unat x \<le> unat r" using unat_of_nat_small [of n, where 'a = 32] by simp
    then show "x \<in> {0..r}" by (simp add: word_le_nat_alt)
  qed
  show "{0..r} \<subseteq> set (ranks_upto r)"
  proof
    fix x assume "x \<in> {0..r}"
    then have "unat x \<in> set [0..<unat r + 1]" by (simp add: word_le_nat_alt less_Suc_eq_le del: upt_Suc)
    then show "x \<in> set (ranks_upto r)" unfolding ranks_upto_def set_map by (rule image_eqI [rotated]) simp
  qed
qed

lemma allowed_rank_mono:
  assumes "0 \<le> parent" "t \<le> t'" "t' < 2 ^ 63" "n < 2 ^ 32"
  shows "allowed_backup_rank_for_height h parent t n \<le> allowed_backup_rank_for_height h parent t' n"
proof -
  have "nat (t - parent) div 30 \<le> nat (t' - parent) div 30" if "parent < t"
    using that assms(2) by (intro div_le_mono nat_mono) simp
  then show ?thesis
    using assms by (auto simp: allowed_backup_rank_for_height_def word_le_nat_alt unat_allowed_backup_rank min.coboundedI1)
qed

lemma authorized_mono:
  assumes "ensure_validator_is_authorized X c accs sn pk h prev r = Inr ()" "r \<le> r'"
  shows "ensure_validator_is_authorized X c accs sn pk h prev r' = Inr ()"
  using assms by (auto simp: ensure_validator_is_authorized_def Let_def set_ranks_upto split: option.splits if_splits)

section \<open>Produced blocks are accepted\<close>

lemma create_block_ok:
  assumes "create_block X now now_cb now_b c kp = Inr b" "latest_block c = Some prev"
  obtains h st cb root where "h = blk_height prev + 1"
    "st = fold (assemble_tx X c h (next_base_fee_per_gas c prev)) (bc_pending_transactions c) (assembly_start X c h)"
    "cb = coinbase_with_timestamp (gc_chain_id (bc_genesis_config c)) (address_bytes_from_public_key X (kp_public_key kp))
       (sat_add (bc_block_reward c) (as_priority_fees st)) now_cb"
    "ensure_validator_is_authorized X c (bc_accounts c) (bc_epoch_snapshots c) (kp_public_key kp) h (blk_hash prev)
       (allowed_backup_rank_for_height h (hdr_timestamp (blk_header prev)) now (snapshot_size c (bc_accounts c) h)) = Inr ()"
    "apply_coinbase_transaction (lg_accounts (as_ledger st)) cb = Inr (credit (lg_accounts (as_ledger st)) (tx_to cb) (tx_amount cb))"
    "compute_at_protocol X (credit (lg_accounts (as_ledger st)) (tx_to cb) (tx_amount cb)) (lg_contracts (as_ledger st))
       (protocol_version_at_height c h) = Some root"
    "block_new X now_b (protocol_version_at_height c h) h (blk_hash prev) root (as_gas st) (next_base_fee_per_gas c prev)
       (cb # as_txs st) kp = Some b"
  using assms unfolding create_block_def Let_def
  by (auto simp: apply_coinbase_transaction_def split: sum.splits option.splits if_splits)

lemma produced_block_validates:
  assumes create: "create_block X now now_cb now_b c kp = Inr b" and prev: "latest_block c = Some prev"
    and key: "mldsa_correct X kp" and h: "blk_height b \<noteq> 0" "blk_height b mod max (bc_epoch_length c) 1 \<noteq> 0" "bc_epoch_length c \<noteq> 0"
    and clock: "0 \<le> hdr_timestamp (blk_header prev)" "hdr_timestamp (blk_header prev) \<le> now_b" "now \<le> now_b" "now_b \<le> now_v + 30" "now_b < 2 ^ 63"
    and sz: "snapshot_size c (bc_accounts c) (blk_height b) < 2 ^ 32"
    and txs: "tl (blk_transactions b) = bc_pending_transactions c"
    and pool: "\<forall>tx \<in> set (bc_pending_transactions c). tx_chain_id tx = gc_chain_id (bc_genesis_config c)
      \<and> tx_hash X tx \<noteq> tx_hash X (hd (blk_transactions b))"
  shows "\<exists>c'. add_block X now_v c b = (Inr (), c')"
proof -
  let ?base = "next_base_fee_per_gas c prev" and ?cid = "gc_chain_id (bc_genesis_config c)" and ?A = "bc_accounts c"
  obtain h st cb root where hh: "h = blk_height prev + 1"
    and st: "st = fold (assemble_tx X c h ?base) (bc_pending_transactions c) (assembly_start X c h)"
    and cb: "cb = coinbase_with_timestamp ?cid (address_bytes_from_public_key X (kp_public_key kp))
       (sat_add (bc_block_reward c) (as_priority_fees st)) now_cb"
    and auth: "ensure_validator_is_authorized X c ?A (bc_epoch_snapshots c) (kp_public_key kp) h (blk_hash prev)
       (allowed_backup_rank_for_height h (hdr_timestamp (blk_header prev)) now (snapshot_size c ?A h)) = Inr ()"
    and pay: "apply_coinbase_transaction (lg_accounts (as_ledger st)) cb = Inr (credit (lg_accounts (as_ledger st)) (tx_to cb) (tx_amount cb))"
    and root: "compute_at_protocol X (credit (lg_accounts (as_ledger st)) (tx_to cb) (tx_amount cb)) (lg_contracts (as_ledger st))
       (protocol_version_at_height c h) = Some root"
    and new: "block_new X now_b (protocol_version_at_height c h) h (blk_hash prev) root (as_gas st) ?base (cb # as_txs st) kp = Some b"
    using create_block_ok [OF create prev] by blast
  note f = block_new_checks [OF key new]
  have "is_coinbase cb" "tx_chain_id cb = ?cid" by (simp_all add: cb coinbase_with_timestamp_def is_coinbase_def)
  have ht: "blk_height b = h" using f by simp
  have settle: "settle_before_block X c h = c" using settle_inside_epoch(1) h(2) ht by simp
  have "ensure_validator_is_authorized X c ?A (bc_epoch_snapshots c) (kp_public_key kp) h (blk_hash prev)
       (allowed_backup_rank_for_height h (hdr_timestamp (blk_header prev)) now_b (snapshot_size c ?A h)) = Inr ()"
    using auth allowed_rank_mono sz clock ht by (intro authorized_mono [OF auth]) simp
  then have header: "check_header X c now_v b prev ?A = Inr ()"
    using f h clock hh by (simp add: check_header_def Let_def MAX_FUTURE_BLOCK_TIME_SECS_def)
  let ?bp = "block_start b ?A (bc_contracts c) (bc_token_registry c) (bc_governance c)"
  have "agrees_with (opened X cb ?bp) (assembly_start X c h) {tx_hash X cb}"
    using settle_inside_epoch(2) h(2) ht
    by (simp add: agrees_with_def opened_def block_start_def assembly_start_def Let_def)
  moreover have "as_txs st = as_txs (assembly_start X c h) @ bc_pending_transactions c" using txs f
    by (simp add: assembly_start_def Let_def)
  ultimately obtain bp where v: "validate_transactions X c h ?base (Suc 0) (bc_pending_transactions c) (opened X cb ?bp) = Inr bp"
    and ag: "agrees_with bp st {tx_hash X cb}" "bp_coinbase bp = Some cb"
    using assembled_validates [of X c h ?base "bc_pending_transactions c" "assembly_start X c h" "opened X cb ?bp" "{tx_hash X cb}" 0] pool f
    by (auto simp: st opened_def)
  have run: "validate_transactions X c h ?base 0 (blk_transactions b) ?bp = Inr bp"
    using v \<open>is_coinbase cb\<close> \<open>tx_chain_id cb = ?cid\<close> txs f
    by (simp add: validate_transactions_Cons_iff block_start_def del: validate_transactions.simps)
  obtain gov where "\<exists>l. process_block (lg_governance (bp_ledger bp)) h (active_validator_total_stake c (lg_accounts (bp_ledger bp)) h)
      (bc_epoch_length c) = Some (l, gov)"
    using process_loop_total [OF h(3)] by (metis process_block_def surj_pair)
  then have "\<exists>ex. finish_block X c b bp = Inr ex"
    using ag pay root f cb by (auto simp: finish_block_def agrees_with_def Let_def coinbase_with_timestamp_def)
  then show ?thesis
    using header run settle prev f
    by (auto simp: add_block_def Let_def validate_block_against_state_def block_start_def verify_block_against_known_def checkpoints_for_def
        check_block_checkpoint_def)
qed

text \<open>C8. Production and validation agree. When a proposer with a working key builds a block inside an epoch and every pending
  transaction fits into it, a node with the same chain accepts that block: every check of \<open>add_block\<close> passes, the recomputed gas,
  fees, coinbase and state root included, as long as its clock is at most 30 seconds behind.\<close>
theorem produced_block_accepted:
  assumes "create_block X now now_cb now_b c kp = Inr b" "latest_block c = Some prev" "mldsa_correct X kp"
    and "blk_height b \<noteq> 0" "blk_height b mod max (bc_epoch_length c) 1 \<noteq> 0" "bc_epoch_length c \<noteq> 0"
    and "0 \<le> hdr_timestamp (blk_header prev)" "hdr_timestamp (blk_header prev) \<le> now_b" "now \<le> now_b" "now_b \<le> now_v + 30" "now_b < 2 ^ 63"
    and "snapshot_size c (bc_accounts c) (blk_height b) < 2 ^ 32"
    and "tl (blk_transactions b) = bc_pending_transactions c"
    and "\<forall>tx \<in> set (bc_pending_transactions c). tx_chain_id tx = gc_chain_id (bc_genesis_config c)
      \<and> tx_hash X tx \<noteq> tx_hash X (hd (blk_transactions b))"
  shows "\<exists>c'. add_block X now_v c b = (Inr (), c')"
  by (rule produced_block_validates [OF assms])

subsection \<open>A concrete chain\<close>

text \<open>A chain at genesis with one funded account, and one transfer in the pool.\<close>
definition demo_config :: genesis_config where
  "demo_config = default_genesis_config\<lparr>gc_chain_id := ''c'', gc_epoch_length := 4, gc_minimum_stake := 100,
     gc_allocations := [\<lparr>ga_public_key = demo_hex_encode demo_pk, ga_balance = 1000000, ga_staked_balance = 50\<rparr>]\<rparr>"

definition demo_gen :: block where
  "demo_gen = genesis_with_state_root demo_externs (compute_full demo_externs (lg_accounts demo_ledger) Map.empty) ''c'' 0"

definition demo_start_chain :: blockchain where
  "demo_start_chain = (case from_genesis demo_externs demo_config of Inr c \<Rightarrow> c)"

definition demo_chain :: blockchain where
  "demo_chain = demo_start_chain\<lparr>bc_pending_transactions := [demo_transfer]\<rparr>"

lemma demo_config_fields:
  "gc_chain_id demo_config = ''c''" "gc_epoch_length demo_config = 4" "gc_minimum_stake demo_config = 100" "gc_upgrades demo_config = []"
  "gc_block_reward demo_config = 50000000" "gc_unstake_delay_blocks demo_config = 10" "gc_block_gas_limit demo_config = DEFAULT_BLOCK_GAS_LIMIT"
  "gc_initial_base_fee_per_gas demo_config = 0"
  by (simp_all add: demo_config_def default_genesis_config_def DEFAULT_UNSTAKE_DELAY_BLOCKS_def DEFAULT_BLOCK_REWARD_def
      DEFAULT_INITIAL_BASE_FEE_PER_GAS_def)

lemma demo_genesis_accounts: "accounts_from_genesis demo_externs demo_config = Inr (lg_accounts demo_ledger)"
  by (simp add: accounts_from_genesis_def demo_config_def decode_public_key_hex_def Let_def demo_ledger_def demo_sender_def
      default_genesis_config_def default_account_def word_le_nat_alt)

lemma demo_start_chain_from_genesis: "from_genesis demo_externs demo_config = Inr demo_start_chain"
  by (simp add: demo_start_chain_def from_genesis_def demo_genesis_accounts Let_def)

lemma demo_epoch_0: "active_validators \<lparr>pos_minimum_stake = 100, pos_slashed_validators = {}, pos_current_height = h\<rparr> (lg_accounts demo_ledger) = []"
  by (simp add: active_validators_def entries_def demo_ledger_def List.map_filter_simps as_validator_def is_active_validator_def
      default_account_def word_less_nat_alt)

definition demo_keys :: key_pair where
  "demo_keys = \<lparr>kp_public_key = replicate 2592 1, kp_secret_key = replicate 32 1\<rparr>"

lemma demo_chain_fields:
  "bc_accounts demo_chain = lg_accounts demo_ledger" "bc_pending_transactions demo_chain = [demo_transfer]"
  "latest_block demo_chain = Some demo_gen" "bc_epoch_length demo_chain = 4" "bc_minimum_stake demo_chain = 100"
  "bc_unstake_delay_blocks demo_chain = 10" "bc_block_gas_limit demo_chain = DEFAULT_BLOCK_GAS_LIMIT"
  "bc_epoch_snapshots demo_chain = [0 \<mapsto> \<lparr>es_epoch = 0, es_start_height = 0, es_validators = [], es_total_stake = 0\<rparr>]"
  "bc_slashed_validators demo_chain = {}" "gc_chain_id (bc_genesis_config demo_chain) = ''c''" "bc_block_reward demo_chain = 50000000"
  "bc_contracts demo_chain = lg_contracts demo_ledger" "bc_token_registry demo_chain = lg_tokens demo_ledger"
  "bc_governance demo_chain = lg_governance demo_ledger" "gc_upgrades (bc_genesis_config demo_chain) = []"
  "bc_initial_base_fee_per_gas demo_chain = 0"
  by (simp_all add: demo_chain_def demo_start_chain_def from_genesis_def demo_genesis_accounts Let_def
      latest_block_def block_at_height_def view_block_at_def height_def block_count_def sat_sub_def demo_gen_def
      build_epoch_snapshot_for_accounts_def demo_epoch_0 stake_sum_def demo_config_fields)
    (simp_all add: demo_ledger_def)

lemma demo_unlocks: "apply_unstake_unlocks (lg_accounts demo_ledger) h = lg_accounts demo_ledger"
  by (simp add: fun_eq_iff apply_unstake_unlocks_def demo_ledger_def unlock_account_def default_account_def)

lemma demo_no_validators: "active_validators (pos_at demo_chain 1) (lg_accounts demo_ledger) = []"
  by (simp add: demo_chain_fields demo_epoch_0)

lemma demo_base_fee: "next_base_fee_per_gas demo_chain demo_gen = 1"
  by (simp add: next_base_fee_per_gas_def Let_def parent_base_fee_def demo_chain_fields demo_gen_def)

lemma demo_version: "protocol_version_at_height demo_chain 1 = 5"
  by (simp add: protocol_version_at_height_def Let_def demo_chain_fields V6_HARDFORK_HEIGHT_TESTNET_def word_le_nat_alt unat_max_word)

lemma demo_start: "as_ledger (assembly_start demo_externs demo_chain 1) = demo_ledger"
  "as_txs (assembly_start demo_externs demo_chain 1) = []" "as_gas (assembly_start demo_externs demo_chain 1) = 0"
  "as_seen (assembly_start demo_externs demo_chain 1) = {}"
  using settle_inside_epoch(2) [of 1 demo_chain]
  by (simp_all add: assembly_start_def Let_def demo_chain_fields demo_unlocks max_def word_le_nat_alt)
    (simp add: demo_ledger_def)

lemma demo_authorized: "ensure_validator_is_authorized demo_externs demo_chain (bc_accounts demo_chain) (bc_epoch_snapshots demo_chain) pk 1 prev r = Inr ()"
  "snapshot_size demo_chain (bc_accounts demo_chain) 1 = 0"
  by (simp_all add: ensure_validator_is_authorized_def Let_def snapshot_size_def snapshot_for_height_def demo_chain_fields
      demo_no_validators [unfolded demo_chain_fields] select_validator_def select_from_def max_def word_le_nat_alt)

lemma demo_assembled: "as_txs (assemble_tx demo_externs demo_chain 1 1 demo_transfer (assembly_start demo_externs demo_chain 1)) = [demo_transfer]"
proof -
  obtain L where "apply_in_block demo_externs demo_chain demo_ledger demo_transfer 1 1 = (Inr 21000, L)"
    using demo_transfer_applies by (metis prod.collapse demo_chain_fields(4-6))
  then show ?thesis by (simp add: assemble_tx_def Let_def demo_start demo_chain_fields sat_add_def DEFAULT_BLOCK_GAS_LIMIT_def)
qed

lemma demo_sender_bytes: "demo_sender = replicate 20 1"
  by (simp add: demo_sender_def address_bytes_from_public_key_def sha3_hash_domain_def demo_sha3_def demo_pk_def ADDRESS_LEN_def)

lemma demo_tx_hash: "tx_nonce tx = 0 \<Longrightarrow> length (tx_from tx) = 20 \<Longrightarrow> tx_data tx = [] \<Longrightarrow> take 20 (tx_hash demo_externs tx) = rev (tx_from tx)"
  by (simp add: tx_hash_def sha3_hash_def signable_bytes_def demo_sha3_def)

text \<open>The block the demo proposer makes at any time after genesis.\<close>
lemma demo_block:
  obtains b where "create_block demo_externs t t t demo_chain demo_keys = Inr b"
    "blk_height b = 1" "tl (blk_transactions b) = [demo_transfer]" "tx_hash demo_externs demo_transfer \<noteq> tx_hash demo_externs (hd (blk_transactions b))"
    "hdr_validator_public_key (blk_header b) = demo_pk"
proof -
  let ?st = "assemble_tx demo_externs demo_chain 1 1 demo_transfer (assembly_start demo_externs demo_chain 1)"
  let ?cb = "coinbase_with_timestamp ''c'' (address_bytes_from_public_key demo_externs (kp_public_key demo_keys))
    (sat_add (bc_block_reward demo_chain) (as_priority_fees ?st)) t"
  have gh: "blk_height demo_gen = 0" by (simp add: demo_gen_def)
  have "validate_transaction_shape ?cb = Inr ()"
    by (simp add: validate_transaction_shape_def coinbase_with_timestamp_def is_coinbase_def max_fee_per_gas_def max_priority_fee_per_gas_def ADDRESS_LEN_def)
  then have pay: "apply_coinbase_transaction A ?cb = Inr (credit A (tx_to ?cb) (tx_amount ?cb))" for A
    by (simp add: apply_coinbase_transaction_def coinbase_with_timestamp_def is_coinbase_def)
  have root: "compute_at_protocol demo_externs A C 5 = Some (compute_v5_merkle demo_externs A C)" for A C
    by (simp add: compute_at_protocol_def V6_PROTOCOL_VERSION_def word_le_nat_alt)
  have key: "mldsa_correct demo_externs demo_keys" using demo_mldsa_correct by (simp add: demo_keys_def)
  obtain b where new: "block_new demo_externs t 5 1 (blk_hash demo_gen) (compute_v5_merkle demo_externs
      (credit (lg_accounts (as_ledger ?st)) (tx_to ?cb) (tx_amount ?cb)) (lg_contracts (as_ledger ?st))) (as_gas ?st) 1 (?cb # as_txs ?st) demo_keys = Some b"
    using block_new_total [OF key] by blast
  have "create_block demo_externs t t t demo_chain demo_keys = Inr b"
    using demo_authorized(1) [unfolded demo_chain_fields] pay root new
    by (simp add: create_block_def demo_chain_fields gh demo_base_fee demo_version Let_def)
  moreover have "blk_height b = 1" "blk_transactions b = ?cb # [demo_transfer]" "hdr_validator_public_key (blk_header b) = demo_pk"
    using block_new_checks [OF key new] demo_assembled by (simp_all add: demo_keys_def demo_pk_def)
  moreover have "tx_hash demo_externs demo_transfer \<noteq> tx_hash demo_externs ?cb"
    using demo_tx_hash [of demo_transfer] demo_tx_hash [of ?cb]
    by (auto simp: coinbase_with_timestamp_def demo_sender_bytes ADDRESS_LEN_def)
  ultimately show thesis using that by simp
qed

lemma demo_facts:
  "hdr_timestamp (blk_header demo_gen) = 1700000000" "mldsa_correct demo_externs demo_keys" "(1 :: u64) mod max (bc_epoch_length demo_chain) 1 \<noteq> 0"
  "tx_chain_id demo_transfer = gc_chain_id (bc_genesis_config demo_chain)" "snapshot_size demo_chain (bc_accounts demo_chain) 1 < 2 ^ 32"
  using demo_mldsa_correct
  by (simp_all add: demo_gen_def genesis_with_state_root_def Let_def GENESIS_TIMESTAMP_def demo_keys_def demo_chain_fields max_def
      word_le_nat_alt demo_authorized(2) [unfolded demo_chain_fields])

lemma demo_block_accepted:
  obtains b c' where "create_block demo_externs 1700000009 1700000009 1700000009 demo_chain demo_keys = Inr b"
    "add_block demo_externs 1700000009 demo_chain b = (Inr (), c')" "tl (blk_transactions b) = [demo_transfer]" "blk_height b = 1"
    "hdr_validator_public_key (blk_header b) = demo_pk"
proof -
  obtain b where b: "create_block demo_externs 1700000009 1700000009 1700000009 demo_chain demo_keys = Inr b"
    "blk_height b = 1" "tl (blk_transactions b) = [demo_transfer]" "tx_hash demo_externs demo_transfer \<noteq> tx_hash demo_externs (hd (blk_transactions b))"
    "hdr_validator_public_key (blk_header b) = demo_pk"
    by (rule demo_block)
  have "\<exists>c'. add_block demo_externs 1700000009 demo_chain b = (Inr (), c')"
    by (rule produced_block_validates [OF b(1) demo_chain_fields(3) demo_facts(2)])
      (use b demo_facts in \<open>simp_all add: demo_chain_fields\<close>)
  then show thesis using that b by blast
qed

theorem produced_block_accepted_witness:
  "\<exists>b c'. create_block demo_externs 1700000009 1700000009 1700000009 demo_chain demo_keys = Inr b
     \<and> add_block demo_externs 1700000000 demo_chain b = (Inr (), c')"
proof -
  obtain b where b: "create_block demo_externs 1700000009 1700000009 1700000009 demo_chain demo_keys = Inr b"
    "blk_height b = 1" "tl (blk_transactions b) = [demo_transfer]" "tx_hash demo_externs demo_transfer \<noteq> tx_hash demo_externs (hd (blk_transactions b))"
    by (rule demo_block)
  have "\<exists>c'. add_block demo_externs 1700000000 demo_chain b = (Inr (), c')"
    by (rule produced_block_accepted [OF b(1) demo_chain_fields(3) demo_facts(2)])
      (use b demo_facts in \<open>simp_all add: demo_chain_fields\<close>)
  then show ?thesis using b(1) by blast
qed

theorem accepted_block_witness:
  "\<exists>b c' cb. add_block demo_externs 1700000009 demo_chain b = (Inr (), c') \<and> blk_transactions b = [cb, demo_transfer]
     \<and> compute_at_protocol demo_externs (bc_accounts c') (bc_contracts c') (hdr_version (blk_header b)) = Some (hdr_state_root (blk_header b))"
proof -
  obtain b c' where "add_block demo_externs 1700000009 demo_chain b = (Inr (), c')" "tl (blk_transactions b) = [demo_transfer]"
    by (rule demo_block_accepted)
  then show ?thesis using accepted_block [of demo_externs 1700000009 demo_chain b c'] by (intro exI [of _ b] exI [of _ c']) auto
qed

text \<open>The transfer of 5 coins burns 21000, the block creates the reward of 50000000.\<close>
theorem block_supply_witness:
  "\<exists>b c'. add_block demo_externs 1700000009 demo_chain b = (Inr (), c')
     \<and> total wealth (bc_accounts c') + unat (hdr_gas_used (blk_header b)) * unat (hdr_base_fee_per_gas (blk_header b)) = 51000050"
proof -
  obtain b c' where a: "add_block demo_externs 1700000009 demo_chain b = (Inr (), c')" "tl (blk_transactions b) = [demo_transfer]" "blk_height b = 1"
    by (rule demo_block_accepted)
  obtain cb :: transaction where t: "blk_transactions b = [cb, demo_transfer]" "is_coinbase cb"
    using add_block_coinbase [OF a(1)] a(2) by auto
  have s: "settle_before_block demo_externs demo_chain (blk_height b) = demo_chain"
    using settle_inside_epoch(1) demo_facts(3) a(3) by simp
  have "native_block b" "block_lost (blk_transactions b) = 0"
    using t by (auto simp: native_block_def block_lost_def kind_defs lost_amount_def delivers_def)
  then show ?thesis using block_supply [OF a(1)] s a(1) demo_ledger_accounts by (auto simp: demo_chain_fields)
qed

end
