(* ===== verification/Replay.thy ===== *)
theory Replay
  imports Production
begin

text \<open>
  State replay (\<^verbatim>\<open>src/src/core/chain/replay.rs\<close>).

  \<open>replay_state_to_tip\<close> first collects the lineage of a block by following parent hashes up to the genesis hash, a
  loop that ends only in a sound tree: it is a \<open>partial_function\<close>, \<open>None\<close> is divergence, and
  \<open>lineage_loop_total\<close> (theory \<open>Reorg\<close>) shows that it always returns on the trees the chain builds.
  \<open>restart_equivalence\<close> is the property the source's comments are about: rebuilding the state of a chain from its blocks
  gives the state the live path computed.
\<close>

section \<open>Replay\<close>

partial_function (option) lineage_loop :: "block_tree \<Rightarrow> bytes \<Rightarrow> bytes \<Rightarrow> block list \<Rightarrow> (chain_error + block list) option" where
  "lineage_loop t genesis_hash current lineage =
     (case tree_get t current of
        None \<Rightarrow> Some (Inl (BlockTreeError OrphanBlock))
      | Some b \<Rightarrow> if current = genesis_hash then Some (Inr (b # lineage))
          else lineage_loop t genesis_hash (blk_prev_hash b) (b # lineage))"

definition empty_ledger :: "accounts \<Rightarrow> ledger" where
  "empty_ledger accs = \<lparr>lg_accounts = accs, lg_contracts = Map.empty, lg_receipts = Map.empty,
     lg_tokens = token_registry_new, lg_governance = governance_new\<rparr>"

text \<open>One block of either replay: settlement with the given snapshots, then validation.\<close>
definition replay_block :: "externs \<Rightarrow> i64 \<Rightarrow> blockchain \<Rightarrow> block \<Rightarrow> block \<Rightarrow> ledger \<Rightarrow> (bytes \<rightharpoonup> u64) \<Rightarrow>
    chain_error + ledger \<times> (bytes \<rightharpoonup> u64)" where
  "replay_block X now c previous b L missed =
     (let producers = proposer_addresses_for_settling_epoch X c (blk_height b);
          (accs, missed') = apply_epoch_settlement_for_block (blk_height b) (bc_epoch_length c) (bc_epoch_snapshots c) producers
            (lg_accounts L) missed
      in case validate_block_against_state X c now b previous accs (lg_contracts L) (lg_tokens L) (lg_governance L) of
           Inl e \<Rightarrow> Inl e
         | Inr ex \<Rightarrow> Inr (ex\<lparr>lg_receipts := lg_receipts L ++ lg_receipts ex\<rparr>, missed'))"

fun replay_loop :: "externs \<Rightarrow> i64 \<Rightarrow> blockchain \<Rightarrow> block \<Rightarrow> block list \<Rightarrow> ledger \<Rightarrow> (bytes \<rightharpoonup> u64) \<Rightarrow> chain_error + ledger" where
  "replay_loop X now c previous [] L missed = Inr L"
| "replay_loop X now c previous (b # bs) L missed =
     (case replay_block X now c previous b L missed of
        Inl e \<Rightarrow> Inl e
      | Inr (L', missed') \<Rightarrow> replay_loop X now c b bs L' missed')"

definition replay_state_to_tip :: "externs \<Rightarrow> i64 \<Rightarrow> blockchain \<Rightarrow> bytes \<Rightarrow> (chain_error + ledger) option" where
  "replay_state_to_tip X now c tip_hash =
     (case lineage_loop (bc_block_tree c) (blk_hash (genesis_block c)) tip_hash [] of
        None \<Rightarrow> None
      | Some (Inl e) \<Rightarrow> Some (Inl e)
      | Some (Inr []) \<Rightarrow> Some (Inl Panicked)
      | Some (Inr (first # rest)) \<Rightarrow>
          (case accounts_from_genesis X (bc_genesis_config c) of
             Inl e \<Rightarrow> Some (Inl e)
           | Inr accs \<Rightarrow> Some (replay_loop X now c first rest (empty_ledger accs) Map.empty)))"

definition replay_state_to_canonical_height :: "externs \<Rightarrow> i64 \<Rightarrow> blockchain \<Rightarrow> u64 \<Rightarrow> (chain_error + ledger) option" where
  "replay_state_to_canonical_height X now c target_height =
     (case block_at_height c target_height of
        None \<Rightarrow> Some (Inl (SnapshotError ''target height missing''))
      | Some b \<Rightarrow> replay_state_to_tip X now c (blk_hash b))"

text \<open>The loop of \<open>rebuild_canonical_state\<close>, which also recreates the epoch snapshots in the chain object.\<close>
fun rebuild_loop :: "externs \<Rightarrow> i64 \<Rightarrow> blockchain \<Rightarrow> block \<Rightarrow> block list \<Rightarrow> ledger \<Rightarrow> (bytes \<rightharpoonup> u64) \<Rightarrow>
    (chain_error + ledger \<times> (bytes \<rightharpoonup> u64)) \<times> blockchain" where
  "rebuild_loop X now c previous [] L missed = (Inr (L, missed), c)"
| "rebuild_loop X now c previous (b # bs) L missed =
     (let c1 = ensure_epoch_snapshot c (blk_height b) (lg_accounts L)
      in case replay_block X now c1 previous b L missed of
           Inl e \<Rightarrow> (Inl e, c1)
         | Inr (L', missed') \<Rightarrow> rebuild_loop X now c1 b bs L' missed')"

definition index_block :: "externs \<Rightarrow> block \<Rightarrow> blockchain \<Rightarrow> blockchain" where
  "index_block X b c = fold (index_transaction X (blk_height b)) (List.enumerate 0 (blk_transactions b))
     (c\<lparr>bc_block_hash_to_height := (bc_block_hash_to_height c)(blk_hash b \<mapsto> blk_height b)\<rparr>)"

definition rebuild_canonical_state :: "externs \<Rightarrow> i64 \<Rightarrow> blockchain \<Rightarrow> (chain_error + unit) \<times> blockchain" where
  "rebuild_canonical_state X now c =
     (let blocks = iter_blocks c in
      case accounts_from_genesis X (bc_genesis_config c) of
        Inl e \<Rightarrow> (Inl e, c)
      | Inr accs \<Rightarrow>
          let c1 = c\<lparr>bc_epoch_snapshots := [0 \<mapsto> snapshot_for_accounts c 0 accs], bc_block_hash_to_height := Map.empty,
                     bc_tx_hash_index := Map.empty, bc_evm_tx_hash_index := Map.empty\<rparr>;
              c2 = fold (index_block X) blocks c1
          in case blocks of
               [] \<Rightarrow> (Inl (InvalidGenesis ''missing genesis block''), c2)
             | first # rest \<Rightarrow>
                 (case rebuild_loop X now c2 first rest (empty_ledger accs) Map.empty of
                    (Inl e, c3) \<Rightarrow> (Inl e, c3)
                  | (Inr (L, missed), c3) \<Rightarrow>
                      (Inr (), rebuild_receipt_indexes X (c3\<lparr>bc_accounts := lg_accounts L, bc_contracts := lg_contracts L,
                         bc_receipts := lg_receipts L, bc_token_registry := lg_tokens L, bc_governance := lg_governance L,
                         bc_validator_missed_epochs := missed\<rparr>))))"

section \<open>What validation reads of the chain\<close>

definition rules :: "blockchain \<Rightarrow> genesis_config \<times> u64 \<times> u64 \<times> u64 \<times> u64 \<times> u64 \<times> u64 \<times> u64 \<times> bytes set" where
  "rules c = (bc_genesis_config c, bc_block_gas_limit c, bc_initial_base_fee_per_gas c, bc_base_fee_change_denominator c,
     bc_epoch_length c, bc_minimum_stake c, bc_unstake_delay_blocks c, bc_block_reward c, bc_slashed_validators c)"

lemma validate_transactions_cong:
  "rules c = rules d \<Longrightarrow> validate_transactions X c h base i txs st = validate_transactions X d h base i txs st"
  by (induction X c h base i txs st rule: validate_transactions.induct)
    (auto simp: rules_def Let_def split: sum.splits prod.splits)

lemma rules_fields:
  assumes "rules c = rules d"
  shows "bc_genesis_config c = bc_genesis_config d" "bc_block_gas_limit c = bc_block_gas_limit d"
    "bc_initial_base_fee_per_gas c = bc_initial_base_fee_per_gas d" "bc_base_fee_change_denominator c = bc_base_fee_change_denominator d"
    "bc_epoch_length c = bc_epoch_length d" "bc_minimum_stake c = bc_minimum_stake d"
    "bc_unstake_delay_blocks c = bc_unstake_delay_blocks d" "bc_block_reward c = bc_block_reward d"
    "bc_slashed_validators c = bc_slashed_validators d"
  using assms by (simp_all add: rules_def)

lemma validate_cong:
  assumes "rules c = rules d" "bc_epoch_snapshots c = bc_epoch_snapshots d"
  shows "validate_block_against_state X c = validate_block_against_state X d"
proof -
  note r = rules_fields [OF assms(1)] assms(2)
  have h: "check_header X c = check_header X d"
    unfolding check_header_def ensure_validator_is_authorized_def snapshot_size_def snapshot_for_height_def protocol_version_at_height_def
      next_base_fee_per_gas_def parent_base_fee_def r by (rule refl)
  have f: "finish_block X c = finish_block X d"
    unfolding finish_block_def active_validator_total_stake_def protocol_version_at_height_def r by (rule refl)
  have t: "validate_transactions X c = validate_transactions X d"
    using validate_transactions_cong [OF assms(1)] by (simp add: fun_eq_iff)
  show ?thesis unfolding validate_block_against_state_def h f t by (rule refl)
qed

text \<open>Validation at a later time accepts what it accepted before.\<close>
lemma validate_later:
  assumes "validate_block_against_state X c now b p accs cons tok gov = Inr ex" "now \<le> now'"
  shows "validate_block_against_state X c now' b p accs cons tok gov = Inr ex"
proof -
  have "check_header X c now b p accs = Inr ()"
    using assms(1) by (auto simp: validate_block_against_state_def split: sum.splits)
  then have "check_header X c now' b p accs = Inr ()"
    using assms(2) by (auto simp: check_header_def Let_def split: if_splits)
  then show ?thesis using assms(1) by (auto simp: validate_block_against_state_def split: sum.splits)
qed

lemma map_filter_cong: "(\<And>x. x \<in> set xs \<Longrightarrow> f x = g x) \<Longrightarrow> List.map_filter f xs = List.map_filter g xs"
  by (induction xs) (simp_all add: List.map_filter_simps split: option.split)

lemma proposer_addresses_cong:
  assumes "bc_epoch_length c = bc_epoch_length d" "\<And>k. unat k < unat h \<Longrightarrow> block_at_height c k = block_at_height d k"
  shows "proposer_addresses_for_settling_epoch X c h = proposer_addresses_for_settling_epoch X d h"
proof -
  let ?e = "max (bc_epoch_length d) 1" and ?f = "\<lambda>c k. block_at_height c (of_nat k)"
  have le: "unat (h div ?e * ?e) \<le> unat h"
    by (simp only: word_le_nat_alt [symmetric] word_div_mult_le)
  have "List.map_filter (?f c) [unat (sat_sub h 1 div ?e * ?e)..<unat (h div ?e * ?e)]
      = List.map_filter (?f d) [unat (sat_sub h 1 div ?e * ?e)..<unat (h div ?e * ?e)]"
  proof (rule map_filter_cong)
    fix x
    assume "x \<in> set [unat (sat_sub h 1 div ?e * ?e)..<unat (h div ?e * ?e)]"
    then have "x < unat h" using le by simp
    moreover from this have "unat (of_nat x :: u64) = x" using unat_lt_u64 [of h] by (simp add: unat_of_nat_small)
    ultimately show "?f c x = ?f d x" using assms(2) by simp
  qed
  then show ?thesis unfolding proposer_addresses_for_settling_epoch_def assms(1) Let_def by simp
qed

section \<open>The live history of a chain\<close>

text \<open>Blocks adopted one after the other, at times up to \<open>T\<close>. Between them the pool, the votes and the block tree may change.\<close>
inductive adopts :: "externs \<Rightarrow> i64 \<Rightarrow> blockchain \<Rightarrow> block list \<Rightarrow> blockchain \<Rightarrow> bool" for X T c0 where
  adopts_start: "adopts X T c0 [] c0"
| adopts_block: "adopts X T c0 bs c \<Longrightarrow> now \<le> T \<Longrightarrow> add_block X now c b = (Inr (), c') \<Longrightarrow> adopts X T c0 (bs @ [b]) c'"
| adopts_other: "adopts X T c0 bs c \<Longrightarrow>
    adopts X T c0 bs (c\<lparr>bc_pending_transactions := pool, bc_finality_tracker := tr, bc_block_tree := t\<rparr>)"

text \<open>The chain holds exactly the adopted blocks.\<close>
definition holds_blocks :: "blockchain \<Rightarrow> block \<Rightarrow> block list \<Rightarrow> bool" where
  "holds_blocks c gen bs \<longleftrightarrow> cv_genesis (bc_cursor c) = gen \<and> cv_base (bc_cursor c) \<le> 1 \<and> unat (block_count c) = Suc (length bs)
     \<and> (\<forall>i < length bs. cv_blocks (bc_cursor c) (of_nat (Suc i)) = Some (bs ! i) \<and> unat (blk_height (bs ! i)) = Suc i)"

lemma holds_blocks_at:
  assumes "holds_blocks c gen bs" "n \<le> length bs"
  shows "block_at_height c (of_nat n) = Some ((gen # bs) ! n)"
proof -
  have "Suc (length bs) < 2 ^ 64" using assms(1) unat_lt_u64 [of "block_count c"] by (simp add: holds_blocks_def)
  then have n: "unat (of_nat n :: u64) = n" using assms(2) by (intro unat_of_nat_small) simp
  show ?thesis
  proof (cases n)
    case 0
    then show ?thesis using assms(1) by (simp add: block_at_height_def view_block_at_def holds_blocks_def)
  next
    case (Suc i)
    then have "of_nat n \<noteq> (0 :: u64)" "\<not> block_count c \<le> of_nat n" "\<not> of_nat n < cv_base (bc_cursor c)"
      using n assms by (auto simp: word_le_nat_alt word_less_nat_alt holds_blocks_def)
    then show ?thesis
      using assms Suc by (simp add: block_at_height_def view_block_at_def holds_blocks_def block_count_def del: of_nat_Suc)
  qed
qed

lemma holds_blocks_latest:
  assumes "holds_blocks c gen bs"
  shows "latest_block c = Some (last (gen # bs))"
proof -
  have "unat (height c) = length bs" using assms by (simp add: height_def unat_sat_sub holds_blocks_def)
  then have "height c = of_nat (length bs)" by (metis unat_of_nat_id)
  then show ?thesis using holds_blocks_at [OF assms, of "length bs"] by (simp add: latest_block_def last_conv_nth)
qed

lemma holds_blocks_iter:
  assumes "holds_blocks c gen bs"
  shows "iter_blocks c = gen # bs"
proof -
  have "unat (block_count c) = length (gen # bs)" using assms by (simp add: holds_blocks_def)
  then have "iter_blocks c = map (\<lambda>n. (gen # bs) ! n) [0..<length (gen # bs)]"
    using holds_blocks_at [OF assms] unfolding iter_blocks_def
    by (simp add: List.map_filter_def del: upt_Suc)
  then show ?thesis by (simp only: map_nth)
qed

section \<open>One block of the rebuild\<close>

lemma index_transaction_rest [simp]:
  "bc_receipts (index_transaction X h itx c) = bc_receipts c"
  "bc_token_registry (index_transaction X h itx c) = bc_token_registry c"
  "bc_governance (index_transaction X h itx c) = bc_governance c"
  "bc_epoch_snapshots (index_transaction X h itx c) = bc_epoch_snapshots c"
  "bc_validator_missed_epochs (index_transaction X h itx c) = bc_validator_missed_epochs c"
  "rules (index_transaction X h itx c) = rules c"
  by (auto simp: index_transaction_def Let_def rules_def split: prod.split sum.split)

lemma fold_index_rest [simp]:
  "bc_receipts (fold (index_transaction X h) itxs c) = bc_receipts c"
  "bc_token_registry (fold (index_transaction X h) itxs c) = bc_token_registry c"
  "bc_governance (fold (index_transaction X h) itxs c) = bc_governance c"
  "bc_epoch_snapshots (fold (index_transaction X h) itxs c) = bc_epoch_snapshots c"
  "bc_validator_missed_epochs (fold (index_transaction X h) itxs c) = bc_validator_missed_epochs c"
  "rules (fold (index_transaction X h) itxs c) = rules c"
  by (induction itxs arbitrary: c) simp_all

lemma push_block_rest [simp]:
  "bc_receipts (push_block_internal c b) = bc_receipts c"
  "bc_token_registry (push_block_internal c b) = bc_token_registry c"
  "bc_governance (push_block_internal c b) = bc_governance c"
  "bc_epoch_snapshots (push_block_internal c b) = bc_epoch_snapshots c"
  "bc_validator_missed_epochs (push_block_internal c b) = bc_validator_missed_epochs c"
  "rules (push_block_internal c b) = rules c"
  by (auto simp: push_block_internal_def rules_def split: sum.split)

lemma rebuild_receipt_indexes_rest [simp]:
  "bc_receipts (rebuild_receipt_indexes X c) = bc_receipts c"
  "bc_token_registry (rebuild_receipt_indexes X c) = bc_token_registry c"
  "bc_governance (rebuild_receipt_indexes X c) = bc_governance c"
  "bc_epoch_snapshots (rebuild_receipt_indexes X c) = bc_epoch_snapshots c"
  "bc_validator_missed_epochs (rebuild_receipt_indexes X c) = bc_validator_missed_epochs c"
  "rules (rebuild_receipt_indexes X c) = rules c"
  by (simp_all add: rebuild_receipt_indexes_def rules_def split: prod.split)

lemma rules_upd [simp]:
  "rules (c\<lparr>bc_accounts := a\<rparr>) = rules c" "rules (c\<lparr>bc_contracts := k\<rparr>) = rules c" "rules (c\<lparr>bc_receipts := r\<rparr>) = rules c"
  "rules (c\<lparr>bc_token_registry := tk\<rparr>) = rules c" "rules (c\<lparr>bc_governance := gv\<rparr>) = rules c" "rules (c\<lparr>bc_block_tree := t\<rparr>) = rules c"
  "rules (c\<lparr>bc_epoch_snapshots := e\<rparr>) = rules c" "rules (c\<lparr>bc_validator_missed_epochs := m\<rparr>) = rules c"
  "rules (c\<lparr>bc_pending_transactions := p\<rparr>) = rules c" "rules (c\<lparr>bc_finality_tracker := tr\<rparr>) = rules c"
  "rules (c\<lparr>bc_block_hash_to_height := bh\<rparr>) = rules c" "rules (c\<lparr>bc_tx_hash_index := th\<rparr>) = rules c"
  "rules (c\<lparr>bc_evm_tx_hash_index := eh\<rparr>) = rules c" "rules (c\<lparr>bc_cursor := v\<rparr>) = rules c"
  by (simp_all add: rules_def)

lemma commit_block_rest [simp]:
  "bc_receipts (commit_block X c b ex) = bc_receipts c ++ lg_receipts ex" "bc_token_registry (commit_block X c b ex) = lg_tokens ex"
  "bc_governance (commit_block X c b ex) = lg_governance ex" "bc_epoch_snapshots (commit_block X c b ex) = bc_epoch_snapshots c"
  "bc_validator_missed_epochs (commit_block X c b ex) = bc_validator_missed_epochs c" "rules (commit_block X c b ex) = rules c"
  by (simp_all add: commit_block_def Let_def remove_block_transactions_from_mempool_def)

text \<open>The replayed state is the live state of \<open>c\<close>.\<close>
definition mirrors :: "blockchain \<Rightarrow> ledger \<Rightarrow> (bytes \<rightharpoonup> u64) \<Rightarrow> blockchain \<Rightarrow> bool" where
  "mirrors F L m c \<longleftrightarrow> rules F = rules c \<and> bc_epoch_snapshots F = bc_epoch_snapshots c \<and> m = bc_validator_missed_epochs c
     \<and> L = \<lparr>lg_accounts = bc_accounts c, lg_contracts = bc_contracts c, lg_receipts = bc_receipts c,
         lg_tokens = bc_token_registry c, lg_governance = bc_governance c\<rparr>"

lemma rebuild_step:
  assumes m: "mirrors F L m c" and add: "add_block X now c b = (Inr (), c')" and prev: "latest_block c = Some prev" and now: "now \<le> T"
    and blocks: "\<And>k. unat k < unat (blk_height b) \<Longrightarrow> block_at_height F k = block_at_height c k"
  shows "\<exists>L' m' e. rebuild_loop X T F prev [b] L m = (Inr (L', m'), F\<lparr>bc_epoch_snapshots := e\<rparr>) \<and> mirrors (F\<lparr>bc_epoch_snapshots := e\<rparr>) L' m' c'"
proof -
  let ?h = "blk_height b" and ?A = "bc_accounts c"
  note r = rules_fields [OF m [unfolded mirrors_def, THEN conjunct1]]
  have ms: "bc_epoch_snapshots F = bc_epoch_snapshots c" "lg_accounts L = ?A" "m = bc_validator_missed_epochs c" using m by (simp_all add: mirrors_def)
  define e where "e = bc_epoch_snapshots (ensure_epoch_snapshot c ?h ?A)"
  define accs missed where "accs = fst (apply_epoch_settlement_for_block ?h (bc_epoch_length c) e (proposer_addresses_for_settling_epoch X c ?h) ?A m)"
    and "missed = snd (apply_epoch_settlement_for_block ?h (bc_epoch_length c) e (proposer_addresses_for_settling_epoch X c ?h) ?A m)"
  have st: "apply_epoch_settlement_for_block ?h (bc_epoch_length c) e (proposer_addresses_for_settling_epoch X c ?h) ?A m = (accs, missed)"
    by (simp add: accs_def missed_def)
  have live: "settle_before_block X c ?h = c\<lparr>bc_epoch_snapshots := e, bc_accounts := accs, bc_validator_missed_epochs := missed\<rparr>"
  proof -
    have "ensure_epoch_snapshot c ?h ?A = c\<lparr>bc_epoch_snapshots := e\<rparr>"
      by (simp add: e_def ensure_epoch_snapshot_def create_epoch_snapshot_from_accounts_def)
    moreover have "proposer_addresses_for_settling_epoch X (c\<lparr>bc_epoch_snapshots := e\<rparr>) ?h = proposer_addresses_for_settling_epoch X c ?h"
      by (rule proposer_addresses_cong) (simp_all add: block_at_height_def)
    ultimately show ?thesis using st ms by (simp add: settle_before_block_def)
  qed
  have F1: "ensure_epoch_snapshot F ?h (lg_accounts L) = F\<lparr>bc_epoch_snapshots := e\<rparr>"
    using r ms by (simp add: e_def ensure_epoch_snapshot_def create_epoch_snapshot_from_accounts_def epoch_for_height_def snapshot_for_accounts_def)
  have pr: "proposer_addresses_for_settling_epoch X (F\<lparr>bc_epoch_snapshots := e\<rparr>) ?h = proposer_addresses_for_settling_epoch X c ?h"
    using blocks r by (intro proposer_addresses_cong) (simp_all add: block_at_height_def)
  obtain ex where v: "validate_block_against_state X (settle_before_block X c ?h) now b prev accs (bc_contracts c) (bc_token_registry c) (bc_governance c) = Inr ex"
    and c': "c' = commit_block X (settle_before_block X c ?h) b ex"
    using add_block_ok [OF add] prev live by (auto simp: Let_def)
  have "validate_block_against_state X (F\<lparr>bc_epoch_snapshots := e\<rparr>) T b prev accs (bc_contracts c) (bc_token_registry c) (bc_governance c) = Inr ex"
    using validate_later [OF v now] validate_cong [of "F\<lparr>bc_epoch_snapshots := e\<rparr>" "settle_before_block X c ?h" X] m live
    by (simp add: mirrors_def)
  then have "replay_block X T (F\<lparr>bc_epoch_snapshots := e\<rparr>) prev b L m = Inr (ex\<lparr>lg_receipts := bc_receipts c ++ lg_receipts ex\<rparr>, missed)"
    using m r st by (simp add: replay_block_def pr mirrors_def)
  then have "rebuild_loop X T F prev [b] L m = (Inr (ex\<lparr>lg_receipts := bc_receipts c ++ lg_receipts ex\<rparr>, missed), F\<lparr>bc_epoch_snapshots := e\<rparr>)"
    unfolding rebuild_loop.simps Let_def F1 by simp
  moreover have "mirrors (F\<lparr>bc_epoch_snapshots := e\<rparr>) (ex\<lparr>lg_receipts := bc_receipts c ++ lg_receipts ex\<rparr>) missed c'"
    using m by (simp add: c' live mirrors_def)
  ultimately show ?thesis by blast
qed

section \<open>Restart equivalence\<close>

lemma rebuild_loop_append:
  "rebuild_loop X T F prev (bs @ cs) L m = (case rebuild_loop X T F prev bs L m of
     (Inl e, F') \<Rightarrow> (Inl e, F') | (Inr (L', m'), F') \<Rightarrow> rebuild_loop X T F' (last (prev # bs)) cs L' m')"
  by (induction bs arbitrary: F prev L m) (simp_all add: Let_def split: sum.split prod.split)

lemma holds_blocks_add:
  assumes "holds_blocks c gen bs" "blk_height gen = 0" "add_block X now c b = (Inr (), c')" "Suc (Suc (length bs)) < 2 ^ 64"
  shows "holds_blocks c' gen (bs @ [b])" "unat (blk_height b) = Suc (length bs)"
proof -
  obtain ex prev where c': "c' = commit_block X (settle_before_block X c (blk_height b)) b ex" and p: "latest_block c = Some prev"
    and v: "validate_block_against_state X (settle_before_block X c (blk_height b)) now b prev (bc_accounts (settle_before_block X c (blk_height b)))
      (bc_contracts c) (bc_token_registry (settle_before_block X c (blk_height b))) (bc_governance (settle_before_block X c (blk_height b))) = Inr ex"
    using add_block_ok [OF assms(3)] by (auto simp: Let_def)
  have prev: "prev = last (gen # bs)" using p holds_blocks_latest [OF assms(1)] by simp
  have "unat (blk_height prev) = length bs"
  proof (cases bs rule: rev_cases)
    case (snoc cs x)
    then show ?thesis using assms(1) prev by (auto simp: holds_blocks_def nth_append dest!: spec [of _ "length cs"])
  qed (use prev assms(2) in simp)
  moreover have "blk_height b = blk_height prev + 1"
    using validate_block_ok [OF v] check_header_ok(1) by blast
  ultimately show h: "unat (blk_height b) = Suc (length bs)" using assms(4) by (simp add: unat_add_exact)
  have count: "unat (cv_count (bc_cursor c)) = Suc (length bs)" using assms(1) by (simp add: holds_blocks_def block_count_def)
  then have eq: "blk_height b = cv_count (bc_cursor c)" using h by (simp add: word_unat_eq_iff)
  have "blk_height b \<noteq> 0" using h by auto
  then have cur: "bc_cursor c' = (bc_cursor c)\<lparr>cv_blocks := (cv_blocks (bc_cursor c))(blk_height b \<mapsto> b), cv_count := cv_count (bc_cursor c) + 1\<rparr>"
    by (simp add: c' view_append_def eq Let_def)
  have at: "blk_height b = of_nat (Suc (length bs))" using h by (metis unat_of_nat_id)
  have ne: "of_nat (Suc i) \<noteq> blk_height b" if "i < length bs" for i
  proof
    assume "of_nat (Suc i) = blk_height b"
    then have "unat (of_nat (Suc i) :: u64) = Suc (length bs)" using h by simp
    moreover have "unat (of_nat (Suc i) :: u64) = Suc i" using that assms(4) by (intro unat_of_nat_small) simp
    ultimately show False using that by simp
  qed
  show "holds_blocks c' gen (bs @ [b])"
    using assms(1) cur count assms(4) h at ne
    by (auto simp: holds_blocks_def block_count_def unat_add_exact nth_append less_Suc_eq simp del: of_nat_Suc)
qed

lemma settle_rules [simp]: "rules (settle_before_block X c h) = rules c"
  by (simp add: settle_before_block_def Let_def ensure_epoch_snapshot_def create_epoch_snapshot_from_accounts_def split: prod.split)

lemma add_block_rules: "add_block X now c b = (Inr (), c') \<Longrightarrow> rules c' = rules c"
  using add_block_ok by (fastforce simp: Let_def)

lemma adopts_history:
  assumes "adopts X T c0 bs c" "holds_blocks c0 gen []" "blk_height gen = 0" "Suc (length bs) < 2 ^ 64"
  shows "holds_blocks c gen bs \<and> rules c = rules c0"
  using assms(1,4)
proof induction
  case (adopts_block bs c now b c')
  then show ?case using holds_blocks_add(1) [of c gen bs X now b c'] assms(3) add_block_rules [of X now c b c'] by simp
qed (use assms(2) in \<open>simp_all add: holds_blocks_def block_count_def\<close>)

text \<open>Replaying the adopted blocks leads to the state of the chain that adopted them.\<close>
lemma adopts_rebuild:
  assumes "adopts X T c0 bs c" "holds_blocks c0 gen []" "blk_height gen = 0" "Suc (length bs) < 2 ^ 64"
    and "mirrors F L0 m0 c0" "T \<le> T'" "\<And>k. k \<le> length bs \<Longrightarrow> block_at_height F (of_nat k) = Some ((gen # bs) ! k)"
  shows "\<exists>L m e. rebuild_loop X T' F gen bs L0 m0 = (Inr (L, m), F\<lparr>bc_epoch_snapshots := e\<rparr>) \<and> mirrors (F\<lparr>bc_epoch_snapshots := e\<rparr>) L m c"
  using assms(1,4,7)
proof induction
  case adopts_start
  then show ?case using assms(5) by (auto intro!: exI [of _ "bc_epoch_snapshots F"])
next
  case (adopts_block bs c now b c')
  have holds: "holds_blocks c gen bs" using adopts_history [OF adopts_block.hyps(1) assms(2,3)] adopts_block.prems(1) by simp
  have h: "unat (blk_height b) = Suc (length bs)"
    using holds_blocks_add(2) [OF holds assms(3) adopts_block.hyps(3)] adopts_block.prems(1) by simp
  have at: "block_at_height F (of_nat k) = Some ((gen # bs) ! k)" if "k \<le> length bs" for k
    using adopts_block.prems(2) [of k] that by (cases k) (auto simp: nth_append)
  obtain L m e where run: "rebuild_loop X T' F gen bs L0 m0 = (Inr (L, m), F\<lparr>bc_epoch_snapshots := e\<rparr>)" and m: "mirrors (F\<lparr>bc_epoch_snapshots := e\<rparr>) L m c"
    using adopts_block.IH at adopts_block.prems(1) by auto
  have "block_at_height (F\<lparr>bc_epoch_snapshots := e\<rparr>) k = block_at_height c k" if "unat k < unat (blk_height b)" for k
  proof -
    have "unat k \<le> length bs" using that h by simp
    then have "block_at_height F (of_nat (unat k)) = block_at_height c (of_nat (unat k))" using at [of "unat k"] holds_blocks_at [OF holds, of "unat k"] by simp
    then show ?thesis by (simp add: block_at_height_def)
  qed
  from rebuild_step [OF m adopts_block.hyps(3) holds_blocks_latest [OF holds] order_trans [OF adopts_block.hyps(2) assms(6)] this]
  obtain L' m' e' where "rebuild_loop X T' (F\<lparr>bc_epoch_snapshots := e\<rparr>) (last (gen # bs)) [b] L m = (Inr (L', m'), F\<lparr>bc_epoch_snapshots := e'\<rparr>)"
    "mirrors (F\<lparr>bc_epoch_snapshots := e'\<rparr>) L' m' c'" by auto
  then show ?case unfolding rebuild_loop_append run by auto
next
  case (adopts_other bs c pool tr t)
  then show ?case by (fastforce simp: mirrors_def)
qed

lemma index_block_keeps [simp]:
  "bc_epoch_snapshots (fold (index_block X) bs c) = bc_epoch_snapshots c" "rules (fold (index_block X) bs c) = rules c"
  "bc_cursor (fold (index_block X) bs c) = bc_cursor c" "bc_block_tree (fold (index_block X) bs c) = bc_block_tree c"
  by (induction bs arbitrary: c) (simp_all add: index_block_def)

text \<open>What a rebuild computes depends on the stored blocks and the rules of the chain only.\<close>
lemma rebuild_from_blocks:
  assumes "from_genesis X gc = Inr c0" "adopts X T c0 bs c" "T \<le> T'" "Suc (length bs) < 2 ^ 64"
    and "rules d = rules c" "holds_blocks d (genesis_block c0) bs"
  shows "\<exists>c'. rebuild_canonical_state X T' d = (Inr (), c')
    \<and> bc_accounts c' = bc_accounts c \<and> bc_contracts c' = bc_contracts c \<and> bc_receipts c' = bc_receipts c
    \<and> bc_token_registry c' = bc_token_registry c \<and> bc_governance c' = bc_governance c
    \<and> bc_epoch_snapshots c' = bc_epoch_snapshots c \<and> bc_validator_missed_epochs c' = bc_validator_missed_epochs c"
proof -
  obtain accs where a: "accounts_from_genesis X gc = Inr accs" using assms(1) by (auto simp: from_genesis_def split: sum.splits)
  let ?gen = "genesis_with_state_root X (compute_full X accs Map.empty) (gc_chain_id gc) (gc_initial_base_fee_per_gas gc)"
  have c0: "holds_blocks c0 ?gen []" "rules c0 = (gc, gc_block_gas_limit gc, gc_initial_base_fee_per_gas gc, gc_base_fee_change_denominator gc,
     gc_epoch_length gc, gc_minimum_stake gc, gc_unstake_delay_blocks gc, gc_block_reward gc, {})"
    "bc_epoch_snapshots c0 = [0 \<mapsto> build_epoch_snapshot_for_accounts gc 0 accs {}]" "bc_validator_missed_epochs c0 = Map.empty"
    "empty_ledger accs = \<lparr>lg_accounts = bc_accounts c0, lg_contracts = bc_contracts c0, lg_receipts = bc_receipts c0,
       lg_tokens = bc_token_registry c0, lg_governance = bc_governance c0\<rparr>"
    using assms(1) a by (auto simp: from_genesis_def Let_def holds_blocks_def block_count_def rules_def empty_ledger_def)
  have hist: "holds_blocks d ?gen bs" "rules d = rules c0"
    using adopts_history [OF assms(2) c0(1) _ assms(4)] assms(5,6) c0(1) by (simp_all add: holds_blocks_def genesis_block_def)
  have rc: "bc_genesis_config d = gc" "bc_slashed_validators d = {}" using hist(2) c0(2) by (simp_all add: rules_def)
  define F where "F = fold (index_block X) (?gen # bs) (d\<lparr>bc_epoch_snapshots := [0 \<mapsto> build_epoch_snapshot_for_accounts gc 0 accs {}],
    bc_block_hash_to_height := Map.empty, bc_tx_hash_index := Map.empty, bc_evm_tx_hash_index := Map.empty\<rparr>)"
  have "mirrors F (empty_ledger accs) Map.empty c0"
    using c0(3-5) hist(2) unfolding mirrors_def F_def index_block_keeps by simp
  moreover have "block_at_height F (of_nat k) = Some ((?gen # bs) ! k)" if "k \<le> length bs" for k
    using holds_blocks_at [OF hist(1) that] unfolding F_def block_at_height_def index_block_keeps by simp
  ultimately obtain L m e where run: "rebuild_loop X T' F ?gen bs (empty_ledger accs) Map.empty = (Inr (L, m), F\<lparr>bc_epoch_snapshots := e\<rparr>)"
    and mir: "mirrors (F\<lparr>bc_epoch_snapshots := e\<rparr>) L m c"
    using adopts_rebuild [OF assms(2) c0(1) _ assms(4)] assms(3) by (metis genesis_fields(1))
  then show ?thesis
    using a rc unfolding rebuild_canonical_state_def Let_def holds_blocks_iter [OF hist(1)] snapshot_for_accounts_def
    by (simp add: F_def [symmetric] mirrors_def del: fold.simps fold_simps)
qed

text \<open>C2. Restart equivalence. Take a chain that started at genesis and adopted blocks one by one, with any changes of its pool,
  votes and block tree in between. Rebuilding its state from the stored blocks, at any later time, succeeds and reproduces the live
  accounts, contracts, receipts, tokens, governance, epoch snapshots and missed-epoch counters exactly.\<close>
theorem restart_equivalence:
  assumes "from_genesis X gc = Inr c0" "adopts X T c0 bs c" "T \<le> T'" "Suc (length bs) < 2 ^ 64"
  shows "\<exists>c'. rebuild_canonical_state X T' c = (Inr (), c')
    \<and> bc_accounts c' = bc_accounts c \<and> bc_contracts c' = bc_contracts c \<and> bc_receipts c' = bc_receipts c
    \<and> bc_token_registry c' = bc_token_registry c \<and> bc_governance c' = bc_governance c
    \<and> bc_epoch_snapshots c' = bc_epoch_snapshots c \<and> bc_validator_missed_epochs c' = bc_validator_missed_epochs c"
proof -
  obtain gen where "holds_blocks c0 gen []" "blk_height gen = 0" "genesis_block c0 = gen"
    using assms(1) by (auto simp: from_genesis_def Let_def holds_blocks_def block_count_def genesis_block_def split: sum.splits)
  then have "holds_blocks c (genesis_block c0) bs" using adopts_history [OF assms(2) _ _ assms(4)] by blast
  then show ?thesis using rebuild_from_blocks [OF assms refl] by blast
qed

lemma demo_pool_adopts: "adopts demo_externs 1700000009 demo_start_chain [] demo_chain"
  using adopts_other [OF adopts_start [of demo_externs 1700000009 demo_start_chain], where pool = "[demo_transfer]"
      and tr = "bc_finality_tracker demo_start_chain" and t = "bc_block_tree demo_start_chain"]
  by (simp add: demo_chain_def)

lemma demo_block_adopts:
  "add_block demo_externs 1700000009 demo_chain b = (Inr (), c) \<Longrightarrow> adopts demo_externs 1700000009 demo_start_chain [b] c"
  using adopts_block [OF demo_pool_adopts, of 1700000009 b c] by simp

theorem restart_equivalence_witness:
  "\<exists>b c c'. adopts demo_externs 1700000009 demo_start_chain [b] c \<and> tl (blk_transactions b) = [demo_transfer]
     \<and> rebuild_canonical_state demo_externs 1700000500 c = (Inr (), c') \<and> bc_accounts c' = bc_accounts c"
proof -
  obtain b c where b: "add_block demo_externs 1700000009 demo_chain b = (Inr (), c)" "tl (blk_transactions b) = [demo_transfer]"
    by (rule demo_block_accepted)
  show ?thesis
    using restart_equivalence [OF demo_start_chain_from_genesis demo_block_adopts [OF b(1)], of 1700000500] demo_block_adopts [OF b(1)] b(2) by auto
qed

end
