(* ===== verification/Reorg.thy ===== *)
theory Reorg
  imports Replay
begin

text \<open>
  Fork choice and reorganisation (\<^verbatim>\<open>src/src/core/chain/reorg.rs\<close>): the entry point for blocks from the network, the finality
  checks of a reorganisation, and the switch to the canonical chain of the block tree.
\<close>

section \<open>Fork choice\<close>

definition MAX_REORG_DEPTH :: u64 where "MAX_REORG_DEPTH = 64"

text \<open>The three finality checks; \<open>None\<close> as the latest block is the panic.\<close>
definition check_reorg :: "blockchain \<Rightarrow> chain_error + unit" where
  "check_reorg c =
     (let canonical = canonical_chain (bc_block_tree c); tracker = bc_finality_tracker c;
          fh = ft_finalized_height tracker;
          tip_height = (if canonical = [] then 0 else blk_height (last canonical));
          new_tip = (if canonical = [] then blk_hash (genesis_block c) else blk_hash (last canonical))
      in if tip_height < fh then Inl (ReorgBelowFinality fh)
         else if fh > 0 then
           (case latest_block c of
              None \<Rightarrow> Inl Panicked
            | Some latest \<Rightarrow>
                (case common_ancestor (bc_block_tree c) (blk_hash latest) new_tip of
                   None \<Rightarrow> Inl InvalidPrevHash
                 | Some ancestor \<Rightarrow>
                     (case tree_get (bc_block_tree c) ancestor of
                        None \<Rightarrow> Inl InvalidPrevHash
                      | Some ancestor_block \<Rightarrow>
                          if blk_height ancestor_block < fh then Inl (ReorgBelowFinality fh)
                          else if \<not> is_descendant_of (bc_block_tree c) new_tip (ft_finalized_hash tracker)
                            then Inl (ReorgBelowFinality fh)
                          else Inr ())))
         else Inr ())"

definition reorg_to_canonical_tip :: "externs \<Rightarrow> i64 \<Rightarrow> blockchain \<Rightarrow> (chain_error + unit) \<times> blockchain" where
  "reorg_to_canonical_tip X now c =
     (case check_reorg c of
        Inl e \<Rightarrow> (Inl e, c)
      | Inr _ \<Rightarrow> rebuild_canonical_state X now (replace_all_blocks c (canonical_chain (bc_block_tree c))))"

text \<open>\<open>None\<close> is a replay that does not end.\<close>
definition add_block_with_fork_choice :: "externs \<Rightarrow> i64 \<Rightarrow> blockchain \<Rightarrow> block \<Rightarrow> ((chain_error + bool) \<times> blockchain) option" where
  "add_block_with_fork_choice X now c b =
     (if height c > MAX_REORG_DEPTH \<and> blk_height b < sat_sub (height c) MAX_REORG_DEPTH
      then Some (Inl (InvalidTransactionFormat ''block too old: exceeds maximum reorg depth''), c)
      else case latest_block c of
        None \<Rightarrow> Some (Inl Panicked, c)
      | Some latest \<Rightarrow>
          if blk_prev_hash b = blk_hash latest then
            (case add_block X now c b of (Inl e, c') \<Rightarrow> Some (Inl e, c') | (Inr _, c') \<Rightarrow> Some (Inr False, c'))
          else (case tree_get (bc_block_tree c) (blk_prev_hash b) of
            None \<Rightarrow> Some (Inl (BlockTreeError OrphanBlock), c)
          | Some parent \<Rightarrow>
              (case replay_state_to_tip X now c (blk_hash parent) of
                 None \<Rightarrow> None
               | Some (Inl e) \<Rightarrow> Some (Inl e, c)
               | Some (Inr L) \<Rightarrow>
                   (case validate_block_against_state X c now b parent (lg_accounts L) (lg_contracts L) (lg_tokens L) (lg_governance L) of
                      Inl e \<Rightarrow> Some (Inl e, c)
                    | Inr ex \<Rightarrow>
                        let proposer_address = address_bytes_from_public_key X (hdr_validator_public_key (blk_header b));
                            proposer_stake = (case lg_accounts ex proposer_address of Some a \<Rightarrow> acc_staked_balance a | None \<Rightarrow> 0)
                        in (case tree_insert (bc_block_tree c) b proposer_stake of
                              Inl e \<Rightarrow> Some (Inl (BlockTreeError e), c)
                            | Inr (tip_changed, t) \<Rightarrow>
                                let c1 = c\<lparr>bc_block_tree := t\<rparr>
                                in if tip_changed then
                                     (case reorg_to_canonical_tip X now c1 of
                                        (Inl e, c2) \<Rightarrow> Some (Inl e, c2) | (Inr _, c2) \<Rightarrow> Some (Inr True, c2))
                                   else Some (Inr False, c1))))))"

section \<open>Lineages and termination of fork choice\<close>

lemma lineage_loop_total:
  assumes "linked (bt_entries t)" "rooted g (bt_entries t)" "bt_entries t h = Some e"
  shows "lineage_loop t g h acc = Some (Inr (rev (map (\<lambda>h. be_block (the (bt_entries t h))) (walk (bt_entries t) h)) @ acc))"
  using assms(1,3)
proof (induction arbitrary: acc rule: linked_induct)
  case (genesis h e)
  then have g: "g = h" using assms(2) unfolding rooted_def by blast
  have w: "walk (bt_entries t) h = [h]" using walk_unfold [OF assms(1) genesis(1)] genesis(2) by simp
  show ?case unfolding g w by (subst lineage_loop.simps) (simp add: tree_get_def genesis(1))
next
  case (link h e p)
  have "h \<noteq> g" using assms(2) link(1,2) unfolding rooted_def by (metis option.inject)
  then have "lineage_loop t g h acc = lineage_loop t g (entry_prev e) (be_block e # acc)"
    using link(1) by (subst lineage_loop.simps) (simp add: tree_get_def)
  moreover have "walk (bt_entries t) h = h # walk (bt_entries t) (entry_prev e)" using walk_unfold [OF assms(1) link(1)] link(2) by simp
  ultimately show ?case using link(1) by (simp add: link.IH)
qed

lemma replay_state_total:
  assumes "tree_inv (blk_hash (genesis_block c)) (bc_block_tree c)"
  shows "\<exists>r. replay_state_to_tip X now c tip = Some r"
proof (cases "bt_entries (bc_block_tree c) tip")
  case None
  then have "lineage_loop (bc_block_tree c) (blk_hash (genesis_block c)) tip [] = Some (Inl (BlockTreeError OrphanBlock))"
    by (subst lineage_loop.simps) (simp add: tree_get_def)
  then show ?thesis by (simp add: replay_state_to_tip_def)
next
  case (Some e)
  then show ?thesis using lineage_loop_total [OF _ _ Some] assms
    by (auto simp: replay_state_to_tip_def tree_inv_def split: list.split sum.split)
qed

lemma fork_choice_total:
  assumes "tree_inv (blk_hash (genesis_block c)) (bc_block_tree c)"
  shows "\<exists>r. add_block_with_fork_choice X now c b = Some r"
proof -
  have "\<forall>h. \<exists>r. replay_state_to_tip X now c h = Some r" using replay_state_total assms by blast
  then obtain r where "\<And>h. replay_state_to_tip X now c h = Some (r h)" by (metis choice)
  then show ?thesis
    by (auto simp: add_block_with_fork_choice_def Let_def split: option.split sum.split prod.split)
qed

section \<open>Reorganisation\<close>

lemma push_all:
  assumes "\<And>i. i < length bs \<Longrightarrow> unat (blk_height (bs ! i)) = i" "length bs < 2 ^ 64" "block_count c = 0"
    and "d = fold (\<lambda>b c. push_block_internal c b) bs c"
  shows "unat (block_count d) = length bs \<and> cv_base (bc_cursor d) = cv_base (bc_cursor c)
    \<and> (\<forall>i < length bs. (if i = 0 then Some (cv_genesis (bc_cursor d)) else cv_blocks (bc_cursor d) (of_nat i)) = Some (bs ! i))"
  using assms
proof (induction bs arbitrary: d rule: rev_induct)
  case (snoc b bs)
  define e where "e = fold (\<lambda>b c. push_block_internal c b) bs c"
  have bs: "unat (blk_height (bs ! i)) = i" if "i < length bs" for i
    using snoc.prems(1) [of i] that by (simp add: nth_append)
  have IH: "unat (block_count e) = length bs" "cv_base (bc_cursor e) = cv_base (bc_cursor c)"
    "\<And>i. i < length bs \<Longrightarrow> (if i = 0 then Some (cv_genesis (bc_cursor e)) else cv_blocks (bc_cursor e) (of_nat i)) = Some (bs ! i)"
    using snoc.IH [OF bs _ snoc.prems(3) e_def] snoc.prems(2) by simp_all
  have h: "unat (blk_height b) = length bs" using snoc.prems(1) [of "length bs"] by simp
  then have n: "blk_height b = cv_count (bc_cursor e)" using IH(1) by (simp add: word_unat_eq_iff block_count_def)
  have d: "d = push_block_internal e b" using snoc.prems(4) by (simp add: e_def)
  have z: "cv_count (bc_cursor e) = 0 \<longleftrightarrow> bs = []" using IH(1) by (metis block_count_def length_0_conv unat_eq_zero)
  have c: "bc_cursor d = (if length bs = 0 then (bc_cursor e)\<lparr>cv_genesis := b, cv_count := cv_count (bc_cursor e) + 1\<rparr>
      else (bc_cursor e)\<lparr>cv_blocks := (cv_blocks (bc_cursor e))(blk_height b \<mapsto> b), cv_count := cv_count (bc_cursor e) + 1\<rparr>)"
    by (simp add: d n z push_block_internal_def view_append_def Let_def)
  have "unat (block_count d) = Suc (length bs)"
    using c IH(1) snoc.prems(2) by (simp add: block_count_def unat_add_exact)
  moreover have "blk_height b = of_nat (length bs)" using h by (metis unat_of_nat_id)
  moreover have "of_nat i \<noteq> (of_nat (length bs) :: u64)" if "i < length bs" for i
  proof
    assume "of_nat i = (of_nat (length bs) :: u64)"
    then have "unat (of_nat i :: u64) = unat (of_nat (length bs) :: u64)" by simp
    then show False using that snoc.prems(2) by (simp add: unat_of_nat_small)
  qed
  moreover have "bs \<noteq> [] \<Longrightarrow> cv_genesis (bc_cursor e) = bs ! 0" using IH(3) [of 0] by simp
  moreover have "0 < i \<Longrightarrow> i < length bs \<Longrightarrow> cv_blocks (bc_cursor e) (of_nat i) = Some (bs ! i)" for i using IH(3) [of i] by simp
  ultimately show ?case using c IH(1,2) by (auto simp: nth_append less_Suc_eq)
qed simp

lemma replay_block_root:
  assumes "replay_block X now c prev b L m = Inr (L', m')"
  shows "compute_at_protocol X (lg_accounts L') (lg_contracts L') (hdr_version (blk_header b)) = Some (hdr_state_root (blk_header b))"
proof -
  obtain accs ex where v: "validate_block_against_state X c now b prev accs (lg_contracts L) (lg_tokens L) (lg_governance L) = Inr ex"
    and L': "lg_accounts L' = lg_accounts ex" "lg_contracts L' = lg_contracts ex"
    using assms by (auto simp: replay_block_def split: prod.splits sum.splits)
  show ?thesis using validate_block_ok [OF v] L' check_header_ok(8) by metis
qed

text \<open>A rebuilt state is the one the last block commits to.\<close>
lemma rebuild_loop_root:
  assumes "rebuild_loop X now c prev bs L m = (Inr (L', m'), c')" "bs \<noteq> []"
  shows "compute_at_protocol X (lg_accounts L') (lg_contracts L') (hdr_version (blk_header (last bs))) = Some (hdr_state_root (blk_header (last bs)))"
  using assms
proof (induction bs arbitrary: c prev L m)
  case (Cons b bs)
  obtain L1 m1 where r: "replay_block X now (ensure_epoch_snapshot c (blk_height b) (lg_accounts L)) prev b L m = Inr (L1, m1)"
    and l: "rebuild_loop X now (ensure_epoch_snapshot c (blk_height b) (lg_accounts L)) b bs L1 m1 = (Inr (L', m'), c')"
    using Cons.prems(1) by (auto simp: Let_def split: sum.splits prod.splits)
  show ?case
  proof (cases "bs = []")
    case True
    then show ?thesis using l replay_block_root [OF r] by simp
  next
    case False
    then show ?thesis using Cons.IH [OF l] by simp
  qed
qed simp

lemma rebuild_loop_chain:
  assumes "rebuild_loop X now c prev bs L m = (r, c')"
  shows "bc_cursor c' = bc_cursor c \<and> bc_block_tree c' = bc_block_tree c \<and> bc_finality_tracker c' = bc_finality_tracker c"
  using assms
proof (induction bs arbitrary: c prev L m)
  case (Cons b bs)
  have "bc_cursor (ensure_epoch_snapshot c (blk_height b) (lg_accounts L)) = bc_cursor c
    \<and> bc_block_tree (ensure_epoch_snapshot c (blk_height b) (lg_accounts L)) = bc_block_tree c
    \<and> bc_finality_tracker (ensure_epoch_snapshot c (blk_height b) (lg_accounts L)) = bc_finality_tracker c"
    by (simp add: ensure_epoch_snapshot_def create_epoch_snapshot_from_accounts_def)
  then show ?case using Cons by (fastforce simp: Let_def split: sum.splits prod.splits)
qed simp

lemma rebuild_canonical_ok:
  assumes "rebuild_canonical_state X now c = (Inr (), c')"
  shows "bc_cursor c' = bc_cursor c \<and> bc_block_tree c' = bc_block_tree c
    \<and> (1 < length (iter_blocks c) \<longrightarrow> compute_at_protocol X (bc_accounts c') (bc_contracts c') (hdr_version (blk_header (last (iter_blocks c))))
         = Some (hdr_state_root (blk_header (last (iter_blocks c)))))"
proof -
  obtain accs where a: "accounts_from_genesis X (bc_genesis_config c) = Inr accs"
    using assms by (auto simp: rebuild_canonical_state_def Let_def split: sum.splits)
  obtain first rest where bs: "iter_blocks c = first # rest"
    using assms a by (cases "iter_blocks c") (auto simp: rebuild_canonical_state_def Let_def)
  define F where "F = fold (index_block X) (first # rest) (c\<lparr>bc_epoch_snapshots := [0 \<mapsto> snapshot_for_accounts c 0 accs],
    bc_block_hash_to_height := Map.empty, bc_tx_hash_index := Map.empty, bc_evm_tx_hash_index := Map.empty\<rparr>)"
  have F: "bc_cursor F = bc_cursor c" "bc_block_tree F = bc_block_tree c" unfolding F_def index_block_keeps by simp_all
  obtain L m c3 where run: "rebuild_loop X now F first rest (empty_ledger accs) Map.empty = (Inr (L, m), c3)"
    and c': "c' = rebuild_receipt_indexes X (c3\<lparr>bc_accounts := lg_accounts L, bc_contracts := lg_contracts L,
       bc_receipts := lg_receipts L, bc_token_registry := lg_tokens L, bc_governance := lg_governance L, bc_validator_missed_epochs := m\<rparr>)"
    using assms a unfolding rebuild_canonical_state_def Let_def bs
    by (auto simp: F_def split: prod.splits sum.splits)
  have "compute_at_protocol X (lg_accounts L) (lg_contracts L) (hdr_version (blk_header (last rest))) = Some (hdr_state_root (blk_header (last rest)))"
    if "rest \<noteq> []" by (rule rebuild_loop_root [OF run that])
  then show ?thesis using rebuild_loop_chain [OF run] F by (simp add: c' bs)
qed

lemma fork_choice_reorg:
  assumes "add_block_with_fork_choice X now c b = Some (Inr True, c')"
  shows "\<exists>st t. tree_insert (bc_block_tree c) b st = Inr (True, t) \<and> reorg_to_canonical_tip X now (c\<lparr>bc_block_tree := t\<rparr>) = (Inr (), c')"
  using assms
  by (auto simp: add_block_with_fork_choice_def Let_def split: if_splits option.splits sum.splits prod.splits)

lemma tree_insert_tip:
  assumes "tree_insert t b st = Inr (True, t')" "tree_inv g t"
  shows "\<exists>e. bt_entries t' (bt_canonical_tip t') = Some e \<and> be_block e = b" "blk_height b \<noteq> 0"
proof -
  obtain parent where p: "bt_entries t (blk_hash b) = None" "bt_entries t (blk_prev_hash b) = Some parent"
    "blk_height b \<le> bt_finalized_height t \<longrightarrow> blk_hash b = bt_finalized_hash t"
    "(True, t') = tree_attach t b parent st" using assms(1) unfolding tree_insert_Inr by auto
  then show "\<exists>e. bt_entries t' (bt_canonical_tip t') = Some e \<and> be_block e = b"
    by (auto simp: tree_attach_def Let_def split: if_splits)
  show "blk_height b \<noteq> 0" by (rule tree_insert_height_nonzero [OF assms(2) p(1,3)])
qed

lemma replace_all_tree [simp]: "bc_block_tree (replace_all_blocks c bs) = bc_block_tree c"
proof -
  have "bc_block_tree (fold (\<lambda>b c. push_block_internal c b) bs c) = bc_block_tree c" for c
    by (induction bs arbitrary: c) (simp_all add: push_block_internal_def split: sum.split)
  then show ?thesis by (simp add: replace_all_blocks_def)
qed

lemma replace_all_rules [simp]: "rules (replace_all_blocks c bs) = rules c"
proof -
  have "rules (fold (\<lambda>b c. push_block_internal c b) bs c) = rules c" for c by (induction bs arbitrary: c) simp_all
  then show ?thesis by (simp add: replace_all_blocks_def)
qed

lemma replace_all_heights:
  assumes h: "\<And>i. i < length bs \<Longrightarrow> unat (blk_height (bs ! i)) = i" and "bs \<noteq> []" "length bs < 2 ^ 64" "cv_base (bc_cursor c) \<le> 1"
  shows "holds_blocks (replace_all_blocks c bs) (hd bs) (tl bs)"
proof -
  let ?c = "c\<lparr>bc_cursor := view_invalidate_from (bc_cursor c) 0\<rparr>"
  have z: "block_count ?c = 0" "cv_base (bc_cursor ?c) \<le> 1"
    using assms(4) by (simp_all add: block_count_def view_invalidate_from_def word_gt_0)
  note p = push_all [OF h assms(3) z(1) refl, folded replace_all_blocks_def]
  have tl: "tl bs ! i = bs ! Suc i" "i < length (tl bs) \<longleftrightarrow> Suc i < length bs" for i using assms(2) by (cases bs; simp)+
  have "cv_genesis (bc_cursor (replace_all_blocks c bs)) = hd bs" using p assms(2) by (cases bs) auto
  then show ?thesis using p z(2) h assms(2) unfolding holds_blocks_def tl by (auto simp del: of_nat_Suc)
qed

lemma replace_all_holds:
  assumes "linked_blocks bs" "bs \<noteq> []" "length bs < 2 ^ 64" "cv_base (bc_cursor c) \<le> 1"
  shows "holds_blocks (replace_all_blocks c bs) (hd bs) (tl bs)"
  using assms(1) by (intro replace_all_heights assms(2-4)) (simp add: linked_blocks_def)

text \<open>C10. A reorganisation adopts the heaviest chain. When \<open>add_block_with_fork_choice\<close> reports a reorganisation, the chain holds exactly the
  canonical chain of the block tree, from genesis to its tip and linked hash by hash; the block the finality tracker holds
  final is on it; and the rebuilt accounts and contracts have the state root that the tip commits to.\<close>
theorem reorg_adopts_canonical_chain:
  assumes "add_block_with_fork_choice X now c b = Some (Inr True, c')"
    and "tree_step\<^sup>*\<^sup>* (tree_from_genesis (genesis_block c)) (bc_block_tree c)" "blk_height (genesis_block c) = 0"
    and "cv_base (bc_cursor c) \<le> 1" "length (canonical_chain (bc_block_tree c')) < 2 ^ 64"
  shows "let bs = canonical_chain (bc_block_tree c') in iter_blocks c' = bs \<and> linked_blocks bs \<and> 1 < length bs
    \<and> (0 < ft_finalized_height (bc_finality_tracker c) \<longrightarrow> ft_finalized_hash (bc_finality_tracker c) \<in> blk_hash ` set bs)
    \<and> compute_at_protocol X (bc_accounts c') (bc_contracts c') (hdr_version (blk_header (last bs))) = Some (hdr_state_root (blk_header (last bs)))"
proof -
  have inv: "tree_inv (blk_hash (genesis_block c)) (bc_block_tree c)"
    using tree_system.reachable_inv [OF _ assms(2)] assms(3) by blast
  obtain st t where ins: "tree_insert (bc_block_tree c) b st = Inr (True, t)"
    and re: "reorg_to_canonical_tip X now (c\<lparr>bc_block_tree := t\<rparr>) = (Inr (), c')"
    using fork_choice_reorg [OF assms(1)] by blast
  let ?c = "c\<lparr>bc_block_tree := t\<rparr>" and ?bs = "canonical_chain t"
  have ck: "check_reorg ?c = Inr ()" and rb: "rebuild_canonical_state X now (replace_all_blocks ?c ?bs) = (Inr (), c')"
    using re by (auto simp: reorg_to_canonical_tip_def split: sum.splits)
  have inv': "tree_inv (blk_hash (genesis_block c)) t" using tree_insert_inv(1) [OF inv ins] .
  then have lk: "linked (bt_entries t)" by (simp add: tree_inv_def)
  obtain e where tip: "bt_entries t (bt_canonical_tip t) = Some e" using inv' by (auto simp: tree_inv_def heaviest_def)
  have bs: "linked_blocks ?bs" "?bs \<noteq> []" "blk_hash (last ?bs) = bt_canonical_tip t"
    using walk_linked_blocks [OF lk tip] by (simp_all add: Let_def canonical_chain_def)
  have tree: "bc_block_tree c' = t" using rebuild_canonical_ok [OF rb] by simp
  have "holds_blocks (replace_all_blocks ?c ?bs) (hd ?bs) (tl ?bs)"
    using replace_all_holds [OF bs(1,2)] assms(4,5) tree by simp
  then have it: "iter_blocks (replace_all_blocks ?c ?bs) = ?bs" using holds_blocks_iter bs(2) by simp
  then have "iter_blocks c' = ?bs"
    using rebuild_canonical_ok [OF rb] by (simp add: iter_blocks_def block_at_height_def block_count_def)
  moreover have "1 < length ?bs"
  proof -
    have "entry_height e \<noteq> 0" using tree_insert_tip [OF ins inv] tip by auto
    then show ?thesis using length_walk [OF lk tip] by (simp add: canonical_chain_def unat_gt_0)
  qed
  moreover have "ft_finalized_hash (bc_finality_tracker c) \<in> blk_hash ` set ?bs" if "0 < ft_finalized_height (bc_finality_tracker c)"
  proof -
    have "is_descendant_of t (blk_hash (last ?bs)) (ft_finalized_hash (bc_finality_tracker c))"
      using ck that bs(2) by (auto simp: check_reorg_def Let_def split: if_splits option.splits)
    then have f: "ft_finalized_hash (bc_finality_tracker c) \<in> set (walk (bt_entries t) (bt_canonical_tip t))" using bs(3) by (simp add: is_descendant_of_def)
    then obtain ef where "bt_entries t (ft_finalized_hash (bc_finality_tracker c)) = Some ef" using walk_dom [OF lk] by blast
    then have "blk_hash (be_block (the (bt_entries t (ft_finalized_hash (bc_finality_tracker c))))) = ft_finalized_hash (bc_finality_tracker c)"
      using linkedD(1) [OF lk] by simp
    then show ?thesis using f unfolding canonical_chain_def by (force simp: image_iff)
  qed
  ultimately show ?thesis using rebuild_canonical_ok [OF rb] it bs(1) by (simp add: tree)
qed

subsection \<open>A concrete reorganisation\<close>

text \<open>A chain on a block of stake 1 learns of the demo block, whose proposer has a stake of 50.\<close>
definition demo_rival :: block where
  "demo_rival = demo_block 1 (blk_hash demo_gen) [9]"

definition demo_fork_tree :: block_tree where
  "demo_fork_tree = (case tree_insert (tree_from_genesis demo_gen) demo_rival 1 of Inr (_, t) \<Rightarrow> t)"

definition demo_fork_chain :: blockchain where
  "demo_fork_chain = demo_chain\<lparr>bc_cursor := (bc_cursor demo_chain)\<lparr>cv_blocks := [1 \<mapsto> demo_rival], cv_count := 2\<rparr>, bc_block_tree := demo_fork_tree\<rparr>"

lemma transfer_keeps_stake:
  assumes "apply_user_transaction X L tx h ud el ms b = (Inr g, L')" "tx_kind tx = Transfer"
  shows "acc_staked_balance (account_of (lg_accounts L') a) = acc_staked_balance (account_of (lg_accounts L) a)"
proof -
  obtain s L2 rc where c: "charge_sender tx (account_of (lg_accounts L) (tx_from tx)) h ud el ms = (None, s)"
    and e: "execute_kind X (L\<lparr>lg_accounts := (lg_accounts L)(tx_from tx \<mapsto> s)\<rparr>) tx h el ms b = Inr (g, rc, L2)"
    and f: "settle_fees X L2 tx g rc b = (Inr g, L')"
    using apply_user_transaction_ok [OF assms(1)] by metis
  obtain v where "lg_accounts L' = credit (lg_accounts L2) (tx_from tx) v" using settle_fees_accounts(2) [OF f] by blast
  moreover have "acc_staked_balance s = acc_staked_balance (account_of (lg_accounts L) (tx_from tx))"
    using c assms(2) by (auto simp: charge_sender_def Let_def kind_defs split: if_splits)
  ultimately show ?thesis using e assms(2) by (auto simp: execute_kind_def account_of_credit)
qed

lemma demo_header_hash: "compute_hash demo_externs hdr = replicate 24 0 @ u64_le (hdr_height hdr)"
  by (simp add: compute_hash_def double_hash_def sha3_hash_def demo_sha3_def)

lemma demo_gen_facts:
  "blk_hash demo_gen = replicate 24 0 @ u64_le 0" "blk_hash demo_gen \<noteq> [9]" "blk_height demo_gen = 0"
proof -
  show h: "blk_hash demo_gen = replicate 24 0 @ u64_le 0" by (simp add: demo_gen_def genesis_with_state_root_def Let_def demo_header_hash)
  have "length (blk_hash demo_gen) = 32" by (simp add: h)
  then show "blk_hash demo_gen \<noteq> [9]" by auto
  show "blk_height demo_gen = 0" by (simp add: demo_gen_def)
qed

lemma demo_hash_1:
  assumes "verify_hash demo_externs b" "blk_height b = 1"
  shows "blk_hash b \<noteq> blk_hash demo_gen" "blk_hash b \<noteq> [9]"
proof -
  have h: "blk_hash b = replicate 24 0 @ u64_le 1" using assms by (simp add: verify_hash_def demo_header_hash)
  have "length (blk_hash b) = 32" by (simp add: h)
  then show "blk_hash b \<noteq> [9]" by auto
  show "blk_hash b \<noteq> blk_hash demo_gen" by (simp add: h demo_gen_facts(1)) (simp add: le_bytes_def upt_rec)
qed

lemma demo_fork_tree_eq:
  "tree_insert (tree_from_genesis demo_gen) demo_rival 1 = Inr (False, demo_fork_tree)"
  "demo_fork_tree = \<lparr>bt_entries = [blk_hash demo_gen \<mapsto> \<lparr>be_block = demo_gen, be_cumulative_stake_weight = 0, be_children = [[9]]\<rparr>,
     [9] \<mapsto> \<lparr>be_block = demo_rival, be_cumulative_stake_weight = 1, be_children = []\<rparr>],
     bt_canonical_tip = [9], bt_finalized_hash = blk_hash demo_gen, bt_finalized_height = 0\<rparr>"
  using demo_gen_facts(2,3)
  by (simp_all add: demo_fork_tree_def tree_insert_def tree_attach_def tree_from_genesis_def demo_rival_def demo_block_def Let_def
      is_descendant_of_def walk_def)

lemma demo_fork_chain_facts:
  "latest_block demo_fork_chain = Some demo_rival" "height demo_fork_chain = 1" "genesis_block demo_fork_chain = demo_gen"
  "bc_block_tree demo_fork_chain = demo_fork_tree"
  "bc_epoch_snapshots demo_fork_chain = bc_epoch_snapshots demo_chain" "bc_genesis_config demo_fork_chain = demo_config"
  "cv_base (bc_cursor demo_fork_chain) = 0" "bc_finality_tracker demo_fork_chain = tracker_new" "genesis_block demo_start_chain = demo_gen"
  by (simp_all add: demo_fork_chain_def demo_chain_def demo_start_chain_def from_genesis_def demo_genesis_accounts Let_def latest_block_def
      block_at_height_def view_block_at_def height_def block_count_def sat_sub_def word_le_nat_alt genesis_block_def demo_gen_def demo_config_fields)

lemma demo_rules: "rules demo_fork_chain = rules demo_chain" "rules demo_start_chain = rules demo_chain"
  by (simp_all add: demo_fork_chain_def demo_chain_def)

text \<open>The demo block on the fork: what its validation computes, and the tree with it.\<close>
lemma demo_fork_block:
  obtains b c ex st where "adopts demo_externs 1700000009 demo_start_chain [b] c" "rules c = rules demo_chain" "blk_prev_hash b = blk_hash demo_gen" "blk_height b = 1"
    "verify_hash demo_externs b"
    "validate_block_against_state demo_externs demo_fork_chain 1700000009 b demo_gen (lg_accounts demo_ledger) Map.empty token_registry_new governance_new = Inr ex"
    "lg_accounts ex (address_bytes_from_public_key demo_externs (hdr_validator_public_key (blk_header b))) = Some st" "acc_staked_balance st = 50"
proof -
  let ?A = "lg_accounts demo_ledger" and ?start = "\<lambda>b. block_start b (lg_accounts demo_ledger) Map.empty token_registry_new governance_new"
  obtain b c where b: "add_block demo_externs 1700000009 demo_chain b = (Inr (), c)" "tl (blk_transactions b) = [demo_transfer]" "blk_height b = 1"
    "hdr_validator_public_key (blk_header b) = demo_pk" by (rule demo_block_accepted)
  have s: "settle_before_block demo_externs demo_chain (blk_height b) = demo_chain"
    using settle_inside_epoch(1) demo_facts(3) b(3) by simp
  obtain ex where v: "validate_block_against_state demo_externs demo_chain 1700000009 b demo_gen ?A Map.empty token_registry_new governance_new = Inr ex"
    using add_block_ok [OF b(1)] by (auto simp: Let_def s demo_chain_fields) (simp add: demo_ledger_def)
  obtain st cb where h: "check_header demo_externs demo_chain 1700000009 b demo_gen ?A = Inr ()"
    and r: "validate_transactions demo_externs demo_chain (blk_height b) (hdr_base_fee_per_gas (blk_header b)) 0 (blk_transactions b) (?start b) = Inr st"
    and cb: "bp_coinbase st = Some cb" "tx_to cb = demo_sender" "lg_accounts ex = credit (lg_accounts (bp_ledger st)) (tx_to cb) (tx_amount cb)"
    using validate_block_ok [OF v] b(4) by (auto simp: demo_sender_def)
  obtain users where "blk_transactions b = cb # users" "is_coinbase cb"
    using coinbase_first [OF r _ cb(1)] by (auto simp: block_start_def)
  then have txs: "blk_transactions b = [cb, demo_transfer]" "is_coinbase cb" "\<not> is_coinbase demo_transfer" using b(2) by (simp_all add: is_coinbase_def)
  obtain g L where L: "apply_in_block demo_externs demo_chain (bp_ledger (?start b)) demo_transfer (blk_height b) (hdr_base_fee_per_gas (blk_header b)) = (Inr g, L)"
    "bp_ledger st = L"
    using r txs by (auto simp: validate_transactions_Cons_iff opened_def executed_def simp del: validate_transactions.simps(2))
  have "acc_staked_balance (account_of (lg_accounts (bp_ledger (?start b))) demo_sender) = 50"
    by (simp add: block_start_def demo_unlocks) (simp add: demo_ledger_def get_or_def)
  then have "acc_staked_balance (account_of (lg_accounts L) demo_sender) = 50" using transfer_keeps_stake [OF L(1)] by simp
  then have "\<exists>st. lg_accounts ex demo_sender = Some st \<and> acc_staked_balance st = 50" using cb L(2) by (simp add: credit_def)
  moreover have "validate_block_against_state demo_externs demo_fork_chain 1700000009 b demo_gen ?A Map.empty token_registry_new governance_new = Inr ex"
    using v validate_cong [of demo_fork_chain demo_chain demo_externs] demo_fork_chain_facts(5) demo_rules by simp
  ultimately show thesis
    using that [OF demo_block_adopts [OF b(1)] add_block_rules [OF b(1)]] check_header_ok(1-3) [OF h] b(3,4) by (auto simp: demo_sender_def)
qed

theorem reorg_adopts_canonical_chain_witness:
  "\<exists>b c'. add_block_with_fork_choice demo_externs 1700000009 demo_fork_chain b = Some (Inr True, c') \<and> iter_blocks c' = [demo_gen, b]"
proof -
  obtain b c ex st where a: "adopts demo_externs 1700000009 demo_start_chain [b] c" and rc: "rules c = rules demo_chain" and p: "blk_prev_hash b = blk_hash demo_gen" "blk_height b = 1"
    "verify_hash demo_externs b"
    and v: "validate_block_against_state demo_externs demo_fork_chain 1700000009 b demo_gen (lg_accounts demo_ledger) Map.empty token_registry_new governance_new = Inr ex"
    and st: "lg_accounts ex (address_bytes_from_public_key demo_externs (hdr_validator_public_key (blk_header b))) = Some st" "acc_staked_balance st = 50"
    by (rule demo_fork_block)
  note ne = demo_hash_1 [OF p(3,2)] demo_gen_facts(2,3)
  obtain t where t: "tree_insert demo_fork_tree b 50 = Inr (True, t)" "canonical_chain t = [demo_gen, b]"
    using ne ne(1) [symmetric] p by (simp add: tree_insert_def tree_attach_def demo_fork_tree_eq(2) Let_def is_descendant_of_def walk_def canonical_chain_def
        word_less_nat_alt)
  have lb: "linked_blocks [demo_gen, b]" using p ne(4) by (auto simp: linked_blocks_def less_Suc_eq)
  let ?d = "replace_all_blocks (demo_fork_chain\<lparr>bc_block_tree := t\<rparr>) [demo_gen, b]"
  have "rules ?d = rules c" "holds_blocks ?d (genesis_block demo_start_chain) [b]"
    using replace_all_holds [OF lb, of "demo_fork_chain\<lparr>bc_block_tree := t\<rparr>"] rc
    by (simp_all add: replace_all_rules demo_rules demo_fork_chain_facts)
  then obtain c' where rb: "rebuild_canonical_state demo_externs 1700000009 ?d = (Inr (), c')"
    using rebuild_from_blocks [OF demo_start_chain_from_genesis a, of 1700000009 ?d] by auto
  then have re: "reorg_to_canonical_tip demo_externs 1700000009 (demo_fork_chain\<lparr>bc_block_tree := t\<rparr>) = (Inr (), c')"
    by (simp add: reorg_to_canonical_tip_def check_reorg_def t(2) demo_fork_chain_facts tracker_new_def)
  have "replay_state_to_tip demo_externs 1700000009 demo_fork_chain (blk_hash demo_gen) = Some (Inr (empty_ledger (lg_accounts demo_ledger)))"
  proof -
    have "lineage_loop demo_fork_tree (blk_hash demo_gen) (blk_hash demo_gen) [] = Some (Inr [demo_gen])"
      using ne by (subst lineage_loop.simps) (simp add: tree_get_def demo_fork_tree_eq(2))
    then show ?thesis by (simp add: replay_state_to_tip_def demo_fork_chain_facts demo_genesis_accounts)
  qed
  then have f: "add_block_with_fork_choice demo_externs 1700000009 demo_fork_chain b = Some (Inr True, c')"
    using v st t(1) re p ne by (simp add: add_block_with_fork_choice_def demo_fork_chain_facts MAX_REORG_DEPTH_def word_less_nat_alt empty_ledger_def
       demo_rival_def demo_block_def demo_fork_tree_eq(2) tree_get_def)
  have "bc_block_tree c' = t" using rebuild_canonical_ok [OF rb] by simp
  moreover have "tree_step\<^sup>*\<^sup>* (tree_from_genesis (genesis_block demo_fork_chain)) (bc_block_tree demo_fork_chain)"
    using tree_step_insert [OF demo_fork_tree_eq(1)] by (simp add: demo_fork_chain_facts r_into_rtranclp)
  ultimately show ?thesis
    using reorg_adopts_canonical_chain [OF f] f ne t(2) by (auto simp: demo_fork_chain_facts Let_def)
qed

end
