(* ===== verification/Mempool.thy ===== *)
theory Mempool
  imports Chain_State "HOL-Library.Multiset"
begin

text \<open>
  The mempool (\<^verbatim>\<open>src/src/core/chain/mempool.rs\<close>): admission, fee floors, eviction, sorting and pruning of the
  pending transactions of the chain object.

  The comparator of \<open>sort_pending_transactions\<close> is not transitive (nonce order inside a sender, fee order between
  senders). For such a comparator the documentation of \<open>slice::sort_by\<close> promises only that the slice keeps its
  elements, so the sort is a parameter \<open>srt\<close> with that promise as the hypothesis \<open>sort_keeps\<close>. \<open>min_by\<close> is the
  fold of the standard library and needs no such care. The base fee, which the source recomputes in every helper from the latest block,
  is passed down; the panic of \<open>latest_block\<close> is taken at the entry.
\<close>

section \<open>Comparators\<close>

datatype rust_ordering = Less | Equal | Greater

fun then_with :: "rust_ordering \<Rightarrow> rust_ordering \<Rightarrow> rust_ordering" where
  "then_with Equal y = y"
| "then_with x y = x"

fun reverse_ordering :: "rust_ordering \<Rightarrow> rust_ordering" where
  "reverse_ordering Less = Greater"
| "reverse_ordering Equal = Equal"
| "reverse_ordering Greater = Less"

definition cmp :: "'a::linorder \<Rightarrow> 'a \<Rightarrow> rust_ordering" where
  "cmp a b = (if a < b then Less else if a = b then Equal else Greater)"

text \<open>\<open>Iterator::min_by\<close>: of several minimal elements the first.\<close>
fun min_by :: "('a \<Rightarrow> 'a \<Rightarrow> rust_ordering) \<Rightarrow> 'a list \<Rightarrow> 'a option" where
  "min_by f [] = None"
| "min_by f (x # xs) = Some (fold (\<lambda>y best. if f best y = Greater then y else best) xs x)"

type_synonym tx_sorter = "(transaction \<Rightarrow> transaction \<Rightarrow> rust_ordering) \<Rightarrow> transaction list \<Rightarrow> transaction list"

definition sort_keeps :: "tx_sorter \<Rightarrow> bool" where
  "sort_keeps srt \<longleftrightarrow> (\<forall>f xs. mset (srt f xs) = mset xs)"

section \<open>Limits and fee floors\<close>

definition MAX_FUTURE_TX_TIME_SECS :: i64 where "MAX_FUTURE_TX_TIME_SECS = 30"
definition MAX_PENDING_TX_AGE_SECS :: i64 where "MAX_PENDING_TX_AGE_SECS = 15 * 60"
definition MAX_PENDING_TRANSACTIONS :: nat where "MAX_PENDING_TRANSACTIONS = 10000"
definition RESERVED_SYSTEM_SLOTS :: nat where "RESERVED_SYSTEM_SLOTS = 500"
definition MAX_PENDING_TRANSACTIONS_USER :: nat where
  "MAX_PENDING_TRANSACTIONS_USER = MAX_PENDING_TRANSACTIONS - RESERVED_SYSTEM_SLOTS"
definition MAX_PENDING_TRANSACTIONS_PER_ACCOUNT :: nat where "MAX_PENDING_TRANSACTIONS_PER_ACCOUNT = 64"
definition MAX_PENDING_GAS_BUDGET_MULTIPLIER :: u64 where "MAX_PENDING_GAS_BUDGET_MULTIPLIER = 8"
definition MAX_PENDING_GAS_PER_ACCOUNT_MULTIPLIER :: u64 where "MAX_PENDING_GAS_PER_ACCOUNT_MULTIPLIER = 2"
definition MAX_PENDING_NONCE_GAP :: u64 where "MAX_PENDING_NONCE_GAP = 32"
definition MIN_REPLACEMENT_FEE_BUMP_PCT :: u64 where "MIN_REPLACEMENT_FEE_BUMP_PCT = 10"
definition MIN_REPLACEMENT_PRIORITY_BUMP_PCT :: u64 where "MIN_REPLACEMENT_PRIORITY_BUMP_PCT = 25"
definition MAX_CONTRACT_CODE_BYTES :: nat where "MAX_CONTRACT_CODE_BYTES = 256 * 1024"

lemmas mempool_consts = MAX_PENDING_TRANSACTIONS_def RESERVED_SYSTEM_SLOTS_def MAX_PENDING_TRANSACTIONS_USER_def
  MAX_PENDING_TRANSACTIONS_PER_ACCOUNT_def

abbreviation priority_or_zero :: "transaction \<Rightarrow> u64 \<Rightarrow> u64" where
  "priority_or_zero tx base \<equiv> (case priority_fee_per_gas tx base of None \<Rightarrow> 0 | Some p \<Rightarrow> p)"

definition pending_gas_budget :: "blockchain \<Rightarrow> u64" where
  "pending_gas_budget c = sat_mul (bc_block_gas_limit c) MAX_PENDING_GAS_BUDGET_MULTIPLIER"

text \<open>A wrapping \<open>sum()\<close>.\<close>
definition gas_usage :: "transaction list \<Rightarrow> u64" where
  "gas_usage txs = sum_list (map estimated_gas_for_admission txs)"

definition pending_gas_usage :: "blockchain \<Rightarrow> u64" where
  "pending_gas_usage c = gas_usage (bc_pending_transactions c)"

definition minimum_priority_fee_per_gas_for_usage :: "transaction \<Rightarrow> u64 \<Rightarrow> u64 \<Rightarrow> u64" where
  "minimum_priority_fee_per_gas_for_usage tx usage budget =
     (let occupancy_pct = sat_mul usage 100 div budget;
          congestion_floor = (if occupancy_pct \<ge> 95 then 12 else if occupancy_pct \<ge> 85 then 8
            else if occupancy_pct \<ge> 70 then 4 else if occupancy_pct \<ge> 50 then 2 else 0);
          gas_units = sat_add (estimated_gas_for_admission tx) 249999 div 250000
      in sat_mul congestion_floor (max gas_units 1))"

definition minimum_priority_fee_per_gas :: "blockchain \<Rightarrow> transaction \<Rightarrow> u64" where
  "minimum_priority_fee_per_gas c tx =
     minimum_priority_fee_per_gas_for_usage tx (pending_gas_usage c) (max (pending_gas_budget c) 1)"

definition minimum_admission_fee :: "blockchain \<Rightarrow> transaction \<Rightarrow> u64 \<Rightarrow> u64" where
  "minimum_admission_fee c tx base =
     (let required_base = sat_mul (effective_gas_limit tx) base;
          required_priority = sat_mul (effective_gas_limit tx) (minimum_priority_fee_per_gas c tx);
          budget = max (pending_gas_budget c) 1;
          occupancy_pct = sat_mul (pending_gas_usage c) 100 div budget;
          surcharge = (if occupancy_pct \<ge> 95 then 8 else if occupancy_pct \<ge> 85 then 4
            else if occupancy_pct \<ge> 70 then 2 else if occupancy_pct \<ge> 50 then 1 else 0)
      in if surcharge = 0 then sat_add required_base required_priority
         else let units = sat_add (estimated_gas_for_admission tx) 99999 div 100000
           in sat_add (sat_add required_base required_priority) (sat_mul (max units 1) surcharge))"

section \<open>Order\<close>

definition compare_fee_priority :: "transaction \<Rightarrow> transaction \<Rightarrow> u64 \<Rightarrow> rust_ordering" where
  "compare_fee_priority a b base =
     (let a_gas = ucast (max (estimated_gas_for_admission a) 1) :: u128;
          b_gas = ucast (max (estimated_gas_for_admission b) 1) :: u128;
          a_fee = ucast (priority_or_zero a base) :: u128;
          b_fee = ucast (priority_or_zero b base) :: u128
      in then_with (cmp (sat_mul b_fee a_gas) (sat_mul a_fee b_gas)) (cmp (max_fee_per_gas b) (max_fee_per_gas a)))"

definition pool_order :: "u64 \<Rightarrow> transaction \<Rightarrow> transaction \<Rightarrow> rust_ordering" where
  "pool_order base a b =
     (if tx_from a = tx_from b then
        then_with (cmp (tx_nonce a) (tx_nonce b)) (cmp (max_fee_per_gas b) (max_fee_per_gas a))
      else case (tx_mempool_class a, tx_mempool_class b) of
        (System, User) \<Rightarrow> Less
      | (User, System) \<Rightarrow> Greater
      | _ \<Rightarrow> then_with (then_with (compare_fee_priority a b base) (cmp (tx_timestamp a) (tx_timestamp b)))
               (cmp (max_fee_per_gas b) (max_fee_per_gas a)))"

definition sort_pending_transactions :: "tx_sorter \<Rightarrow> u64 \<Rightarrow> transaction list \<Rightarrow> transaction list" where
  "sort_pending_transactions srt base txs = srt (pool_order base) txs"

definition prune_pending_transactions :: "tx_sorter \<Rightarrow> i64 \<Rightarrow> u64 \<Rightarrow> blockchain \<Rightarrow> blockchain" where
  "prune_pending_transactions srt now base c =
     (let cutoff = now - MAX_PENDING_TX_AGE_SECS; usage = pending_gas_usage c; budget = max (pending_gas_budget c) 1;
          kept = filter (\<lambda>p. tx_timestamp p \<ge> cutoff \<and> max_fee_per_gas p \<ge> base
            \<and> priority_or_zero p base \<ge> minimum_priority_fee_per_gas_for_usage p usage budget) (bc_pending_transactions c)
      in c\<lparr>bc_pending_transactions := sort_pending_transactions srt base kept\<rparr>)"

section \<open>Eviction\<close>

definition eviction_order :: "u64 \<Rightarrow> nat \<times> transaction \<Rightarrow> nat \<times> transaction \<Rightarrow> rust_ordering" where
  "eviction_order base x y =
     (let a = snd x; b = snd y in
      if tx_from a = tx_from b then then_with (cmp (tx_nonce b) (tx_nonce a)) (cmp (max_fee_per_gas a) (max_fee_per_gas b))
      else reverse_ordering (compare_fee_priority a b base))"

definition worst_pending_transaction_index_in_class :: "u64 \<Rightarrow> mempool_class \<Rightarrow> transaction list \<Rightarrow> nat option" where
  "worst_pending_transaction_index_in_class base cls txs =
     map_option fst (min_by (eviction_order base) (filter (\<lambda>(_, tx). tx_mempool_class tx = cls) (List.enumerate 0 txs)))"

definition count_pending_by_class :: "transaction list \<Rightarrow> nat \<times> nat" where
  "count_pending_by_class txs =
     fold (\<lambda>tx (sy, us). case tx_mempool_class tx of System \<Rightarrow> (Suc sy, us) | User \<Rightarrow> (sy, Suc us)) txs (0, 0)"

definition evict_transaction_and_dependents :: "nat \<Rightarrow> transaction list \<Rightarrow> transaction list" where
  "evict_transaction_and_dependents index txs =
     (if index \<ge> length txs then txs
      else let evicted = txs ! index
        in filter (\<lambda>p. \<not> (tx_from p = tx_from evicted \<and> tx_nonce p > tx_nonce evicted)) (take index txs @ drop (Suc index) txs))"

definition eviction_candidate :: "u64 \<Rightarrow> transaction list \<Rightarrow> nat option" where
  "eviction_candidate base txs =
     (case worst_pending_transaction_index_in_class base User txs of
        Some i \<Rightarrow> Some i
      | None \<Rightarrow> worst_pending_transaction_index_in_class base System txs)"

lemma fold_choice: "fold (\<lambda>y best. if P best y then y else best) xs x \<in> insert x (set xs)"
  by (induction xs arbitrary: x) fastforce+

lemma min_by_in: "min_by f xs = Some x \<Longrightarrow> x \<in> set xs"
  using fold_choice [of "\<lambda>best y. f best y = Greater"] by (cases xs) force+

lemma min_by_None [simp]: "min_by f xs = None \<longleftrightarrow> xs = []"
  by (cases xs) simp_all

lemma worst_index:
  assumes "worst_pending_transaction_index_in_class base cls txs = Some i"
  shows "i < length txs" "tx_mempool_class (txs ! i) = cls"
  using assms
  by (auto simp: worst_pending_transaction_index_in_class_def in_set_enumerate_eq dest!: min_by_in)

lemma eviction_candidate_bound: "eviction_candidate base txs = Some i \<Longrightarrow> i < length txs"
  by (auto simp: eviction_candidate_def split: option.splits dest: worst_index(1))

lemma evict_shorter:
  assumes "i < length txs"
  shows "length (evict_transaction_and_dependents i txs) < length txs"
proof -
  have "length (evict_transaction_and_dependents i txs) \<le> length (take i txs @ drop (Suc i) txs)"
    using assms unfolding evict_transaction_and_dependents_def Let_def
    by (simp del: length_append filter_append)
  then show ?thesis using assms by simp
qed

text \<open>The loop of \<open>enforce_mempool_limits\<close>; it ends because every round evicts.\<close>
function enforce_mempool_limits :: "externs \<Rightarrow> u64 \<Rightarrow> u64 \<Rightarrow> bytes \<Rightarrow> transaction list \<Rightarrow> (chain_error + unit) \<times> transaction list" where
  "enforce_mempool_limits X base budget protected_hash txs =
     (let (system_count, user_count) = count_pending_by_class txs;
          over_gas = gas_usage txs > budget
      in if \<not> user_count > MAX_PENDING_TRANSACTIONS_USER \<and> \<not> system_count > RESERVED_SYSTEM_SLOTS \<and> \<not> over_gas then (Inr (), txs)
         else case eviction_candidate base txs of
           None \<Rightarrow> (Inr (), txs)
         | Some index \<Rightarrow>
             if tx_hash X (txs ! index) = protected_hash then (Inl (if over_gas then FeeTooLow else MempoolFull), txs)
             else enforce_mempool_limits X base budget protected_hash (evict_transaction_and_dependents index txs))"
  by pat_completeness auto
termination
  by (relation "measure (\<lambda>(X, base, budget, h, txs). length txs)") (auto intro!: evict_shorter dest: eviction_candidate_bound)

declare enforce_mempool_limits.simps [simp del]

section \<open>Admission\<close>

text \<open>The thresholds a replacement must reach.\<close>
definition bumped :: "u64 \<Rightarrow> u64 \<Rightarrow> u64" where
  "bumped fee pct = max (sat_add fee (sat_mul fee pct div 100)) (sat_add fee 1)"

definition replacement_pays :: "transaction \<Rightarrow> transaction \<Rightarrow> u64 \<Rightarrow> bool" where
  "replacement_pays existing tx base \<longleftrightarrow>
     \<not> (total_fee_cap tx < bumped (total_fee_cap existing) MIN_REPLACEMENT_FEE_BUMP_PCT
       \<or> max_fee_per_gas tx < bumped (max_fee_per_gas existing) MIN_REPLACEMENT_FEE_BUMP_PCT
       \<or> priority_or_zero tx base < bumped (priority_or_zero existing base) MIN_REPLACEMENT_PRIORITY_BUMP_PCT)"

definition replacement_index :: "transaction \<Rightarrow> transaction list \<Rightarrow> nat option" where
  "replacement_index tx txs =
     (let i = length (takeWhile (\<lambda>p. \<not> (tx_from p = tx_from tx \<and> tx_nonce p = tx_nonce tx)) txs)
      in if i < length txs then Some i else None)"

text \<open>The dry run over the pool, without the transaction that is replaced.\<close>
fun project_pending :: "externs \<Rightarrow> blockchain \<Rightarrow> u64 \<Rightarrow> nat option \<Rightarrow> (nat \<times> transaction) list \<Rightarrow> bytes set \<Rightarrow> ledger \<Rightarrow>
    chain_error + ledger" where
  "project_pending X c base ri [] seen L = Inr L"
| "project_pending X c base ri ((index, p) # rest) seen L =
     (if ri = Some index then project_pending X c base ri rest seen L
      else if tx_hash X p \<in> seen then Inl DuplicateTransaction
      else case apply_user_transaction X L p (height c + 1) (bc_unstake_delay_blocks c) (bc_epoch_length c)
          (bc_minimum_stake c) base of
        (Inl e, _) \<Rightarrow> Inl e
      | (Inr _, L') \<Rightarrow> project_pending X c base ri rest (insert (tx_hash X p) seen) L')"

text \<open>The checks of \<open>add_transaction\<close> on a pruned pool, in their order.\<close>
definition admission_check :: "externs \<Rightarrow> i64 \<Rightarrow> u64 \<Rightarrow> blockchain \<Rightarrow> transaction \<Rightarrow> chain_error + unit" where
  "admission_check X now base c tx =
     (let pool = bc_pending_transactions c; ri = replacement_index tx pool;
          floor_nonce = (case bc_accounts c (tx_from tx) of Some a \<Rightarrow> acc_nonce a | None \<Rightarrow> 0);
          (system_count, user_count) = count_pending_by_class pool;
          mine = filter (\<lambda>p. tx_from p = tx_from tx) pool;
          chain_id = gc_chain_id (bc_genesis_config c)
      in if is_coinbase tx then Inl (InvalidTransactionFormat ''coinbase transactions cannot enter the mempool'')
         else if tx_chain_id tx \<noteq> chain_id then Inl (InvalidChainId chain_id (tx_chain_id tx))
         else if tx_timestamp tx > now + MAX_FUTURE_TX_TIME_SECS
           then Inl (InvalidTransactionFormat ''transaction timestamp too far in the future'')
         else if estimated_gas_for_admission tx > bc_block_gas_limit c
           then Inl (InvalidTransactionFormat ''transaction gas limit exceeds block gas limit'')
         else if tx_kind tx = DeployContract \<and> length (tx_to tx) > MAX_CONTRACT_CODE_BYTES
           then Inl (InvalidTransactionFormat ''deploy contract: wasm code exceeds 256 KB limit'')
         else if max_fee_per_gas tx < base then Inl FeeTooLow
         else if priority_or_zero tx base < minimum_priority_fee_per_gas c tx then Inl FeeTooLow
         else if total_fee_cap tx < minimum_admission_fee c tx base then Inl FeeTooLow
         else if tx_nonce tx < floor_nonce
           then Inl (InvalidTransactionFormat ''transaction nonce below account nonce (stale transaction)'')
         else if tx_nonce tx > sat_add floor_nonce MAX_PENDING_NONCE_GAP
           then Inl (InvalidTransactionFormat ''transaction nonce gap too large for mempool admission'')
         else if ri = None \<and> (case tx_mempool_class tx of System \<Rightarrow> system_count \<ge> RESERVED_SYSTEM_SLOTS
             | User \<Rightarrow> user_count \<ge> MAX_PENDING_TRANSACTIONS_USER) then Inl MempoolFull
         else if length mine \<ge> MAX_PENDING_TRANSACTIONS_PER_ACCOUNT \<and> ri = None then Inl MempoolFull
         else if ri = None \<and> sat_add (gas_usage mine) (estimated_gas_for_admission tx)
             > sat_mul (bc_block_gas_limit c) MAX_PENDING_GAS_PER_ACCOUNT_MULTIPLIER then Inl MempoolFull
         else if tx_hash X tx \<in> set (map (tx_hash X) pool) then Inl DuplicateTransaction
         else if (case ri of Some i \<Rightarrow> \<not> replacement_pays (pool ! i) tx base | None \<Rightarrow> False) then Inl ReplacementFeeTooLow
         else case project_pending X c base ri (List.enumerate 0 pool) {}
             \<lparr>lg_accounts = bc_accounts c, lg_contracts = bc_contracts c, lg_receipts = Map.empty,
              lg_tokens = bc_token_registry c, lg_governance = bc_governance c\<rparr> of
           Inl e \<Rightarrow> Inl e
         | Inr L \<Rightarrow>
             (case fst (apply_user_transaction X L tx (height c + 1) (bc_unstake_delay_blocks c) (bc_epoch_length c)
                 (bc_minimum_stake c) base) of
                Inl e \<Rightarrow> Inl e
              | Inr _ \<Rightarrow> Inr ()))"

definition insert_pending :: "transaction \<Rightarrow> transaction list \<Rightarrow> transaction list" where
  "insert_pending tx pool = (case replacement_index tx pool of Some i \<Rightarrow> pool[i := tx] | None \<Rightarrow> pool @ [tx])"

definition add_transaction :: "externs \<Rightarrow> tx_sorter \<Rightarrow> i64 \<Rightarrow> blockchain \<Rightarrow> transaction \<Rightarrow> (chain_error + unit) \<times> blockchain" where
  "add_transaction X srt now c tx =
     (case latest_block c of
        None \<Rightarrow> (Inl Panicked, c)
      | Some latest \<Rightarrow>
          let base = next_base_fee_per_gas c latest; c1 = prune_pending_transactions srt now base c
          in case admission_check X now base c1 tx of
               Inl e \<Rightarrow> (Inl e, c1)
             | Inr _ \<Rightarrow>
                 let pool = insert_pending tx (bc_pending_transactions c1);
                     protected_hash = (case find (\<lambda>p. tx_from p = tx_from tx \<and> tx_nonce p = tx_nonce tx) pool of
                       Some p \<Rightarrow> tx_hash X p | None \<Rightarrow> []);
                     (result, pool') = enforce_mempool_limits X base (pending_gas_budget c1) protected_hash pool
                 in case result of
                      Inl e \<Rightarrow> (Inl e, c1\<lparr>bc_pending_transactions := pool'\<rparr>)
                    | Inr _ \<Rightarrow> (Inr (), c1\<lparr>bc_pending_transactions := sort_pending_transactions srt base pool'\<rparr>))"

definition mempool_stats :: "blockchain \<Rightarrow> nat \<times> nat \<times> u64 \<times> u64" where
  "mempool_stats c =
     (let (system_count, user_count) = count_pending_by_class (bc_pending_transactions c)
      in (system_count, user_count, pending_gas_usage c, pending_gas_budget c))"

section \<open>Limits hold after admission\<close>

definition within_limits :: "u64 \<Rightarrow> transaction list \<Rightarrow> bool" where
  "within_limits budget txs \<longleftrightarrow> length (filter (\<lambda>t. tx_mempool_class t = User) txs) \<le> MAX_PENDING_TRANSACTIONS_USER
     \<and> length (filter (\<lambda>t. tx_mempool_class t = System) txs) \<le> RESERVED_SYSTEM_SLOTS \<and> gas_usage txs \<le> budget"

lemma count_pending_by_class_eq:
  "count_pending_by_class txs = (length (filter (\<lambda>t. tx_mempool_class t = System) txs), length (filter (\<lambda>t. tx_mempool_class t = User) txs))"
proof -
  have "fold (\<lambda>tx (sy, us). case tx_mempool_class tx of System \<Rightarrow> (Suc sy, us) | User \<Rightarrow> (sy, Suc us)) txs (i, j) =
      (i + length (filter (\<lambda>t. tx_mempool_class t = System) txs), j + length (filter (\<lambda>t. tx_mempool_class t = User) txs))" for i j
    by (induction txs arbitrary: i j) (auto split: mempool_class.split)
  then show ?thesis by (simp add: count_pending_by_class_def)
qed

lemma worst_None: "worst_pending_transaction_index_in_class base cls txs = None \<longleftrightarrow> (\<forall>t \<in> set txs. tx_mempool_class t \<noteq> cls)"
proof -
  have "set txs = snd ` set (List.enumerate 0 txs)" by (metis list.set_map map_snd_enumerate)
  then show ?thesis by (auto simp: worst_pending_transaction_index_in_class_def filter_empty_conv)
qed

lemma no_candidate: "eviction_candidate base txs = None \<longleftrightarrow> txs = []"
proof (cases txs)
  case (Cons t ts)
  then have "t \<in> set txs" by simp
  moreover have "tx_mempool_class t = User \<or> tx_mempool_class t = System" by (cases "tx_mempool_class t") auto
  ultimately have "worst_pending_transaction_index_in_class base User txs \<noteq> None \<or> worst_pending_transaction_index_in_class base System txs \<noteq> None"
    using worst_None by blast
  then show ?thesis using Cons by (auto simp: eviction_candidate_def split: option.split)
qed (simp add: eviction_candidate_def worst_pending_transaction_index_in_class_def)

lemma enforce_step:
  "enforce_mempool_limits X base budget h txs =
     (if within_limits budget txs then (Inr (), txs)
      else let i = the (eviction_candidate base txs) in
        if tx_hash X (txs ! i) = h then (Inl (if gas_usage txs > budget then FeeTooLow else MempoolFull), txs)
        else enforce_mempool_limits X base budget h (evict_transaction_and_dependents i txs))"
proof -
  have "within_limits budget []" by (simp add: within_limits_def gas_usage_def)
  then show ?thesis
    by (subst enforce_mempool_limits.simps)
      (auto simp: count_pending_by_class_eq within_limits_def no_candidate Let_def linorder_not_less split: option.split)
qed

lemma evict_mset: "mset (evict_transaction_and_dependents i txs) \<subseteq># mset txs"
proof (cases "i < length txs")
  case True
  then have "mset txs = add_mset (txs ! i) (mset (take i txs @ drop (Suc i) txs))"
    using arg_cong [OF id_take_nth_drop, of i txs mset] by simp
  then have "mset (take i txs @ drop (Suc i) txs) \<subseteq># mset txs" by simp
  then show ?thesis using True
    unfolding evict_transaction_and_dependents_def Let_def mset_filter
    by (simp only: not_le if_False if_not_P mset_filter) (rule subset_mset.order_trans [OF multiset_filter_subset])
qed (simp add: evict_transaction_and_dependents_def)

lemma eviction_outcome:
  assumes "enforce_mempool_limits X base budget h txs = (r, txs')"
  shows "mset txs' \<subseteq># mset txs \<and> (r = Inr () \<longrightarrow> within_limits budget txs')
    \<and> (r \<noteq> Inr () \<longrightarrow> \<not> within_limits budget txs' \<and> h \<in> tx_hash X ` set txs')"
  using assms
proof (induction "length txs" arbitrary: txs rule: less_induct)
  case less
  let ?i = "the (eviction_candidate base txs)"
  show ?case
  proof (cases "within_limits budget txs")
    case False
    then have "eviction_candidate base txs \<noteq> None" by (auto simp: no_candidate within_limits_def gas_usage_def)
    then have i: "?i < length txs" using eviction_candidate_bound by fastforce
    show ?thesis
    proof (cases "tx_hash X (txs ! ?i) = h")
      case True
      then show ?thesis using less.prems False i by (subst (asm) enforce_step) (auto simp: Let_def)
    next
      case ne: False
      then have "enforce_mempool_limits X base budget h (evict_transaction_and_dependents ?i txs) = (r, txs')"
        using less.prems False by (subst (asm) enforce_step) (simp add: Let_def)
      from less.hyps [OF evict_shorter [OF i] this] show ?thesis using evict_mset [of ?i txs] by (meson subset_mset.order_trans)
    qed
  qed (use less.prems in \<open>subst (asm) enforce_step, simp\<close>)
qed

lemma within_limits_mset: "mset xs = mset ys \<Longrightarrow> within_limits budget xs = within_limits budget ys"
proof -
  assume eq: "mset xs = mset ys"
  have "length (filter P xs) = length (filter P ys)" for P using eq by (metis mset_filter size_mset)
  moreover have "gas_usage xs = gas_usage ys" unfolding gas_usage_def using eq by (metis mset_map sum_mset_sum_list)
  ultimately show ?thesis by (simp add: within_limits_def)
qed

lemma sorted_pool [simp]: "sort_keeps srt \<Longrightarrow> mset (sort_pending_transactions srt base txs) = mset txs"
  by (simp add: sort_keeps_def sort_pending_transactions_def)

lemma prune_mset: "sort_keeps srt \<Longrightarrow> mset (bc_pending_transactions (prune_pending_transactions srt now base c)) \<subseteq># mset (bc_pending_transactions c)"
  by (simp add: prune_pending_transactions_def Let_def multiset_filter_subset)

lemma prune_keeps [simp]:
  "bc_block_gas_limit (prune_pending_transactions srt now base c) = bc_block_gas_limit c"
  by (simp add: prune_pending_transactions_def Let_def)

lemma insert_pending_mset: "mset (insert_pending tx pool) \<subseteq># add_mset tx (mset pool)"
proof (cases "replacement_index tx pool")
  case (Some i)
  then have "i < length pool" by (auto simp: replacement_index_def Let_def split: if_splits)
  then have "mset (pool[i := tx]) = add_mset tx (mset pool - {#pool ! i#})" by (simp add: mset_update)
  then show ?thesis using Some by (simp add: insert_pending_def)
qed (simp add: insert_pending_def)

text \<open>The shapes of the outcome of \<open>add_transaction\<close>.\<close>
lemma add_transaction_cases:
  assumes "add_transaction X srt now c tx = (r, c')"
  obtains (panic) "r = Inl Panicked" "c' = c"
  | (refused) e base where "r = Inl e" "c' = prune_pending_transactions srt now base c"
  | (admitted) base pool c1 h where "c1 = prune_pending_transactions srt now base c" "admission_check X now base c1 tx = Inr ()"
    "enforce_mempool_limits X base (pending_gas_budget c1) h (insert_pending tx (bc_pending_transactions c1)) = (r, pool)"
    "c' = c1\<lparr>bc_pending_transactions := (if r = Inr () then sort_pending_transactions srt base pool else pool)\<rparr>"
proof (cases "latest_block c")
  case (Some l)
  let ?base = "next_base_fee_per_gas c l"
  let ?c1 = "prune_pending_transactions srt now ?base c"
  show thesis
  proof (cases "admission_check X now ?base ?c1 tx")
    case (Inr u)
    let ?pool = "insert_pending tx (bc_pending_transactions ?c1)"
    let ?h = "case find (\<lambda>p. tx_from p = tx_from tx \<and> tx_nonce p = tx_nonce tx) ?pool of Some p \<Rightarrow> tx_hash X p | None \<Rightarrow> []"
    obtain r' pool where e: "enforce_mempool_limits X ?base (pending_gas_budget ?c1) ?h ?pool = (r', pool)" by fastforce
    show thesis
      using assms Some Inr e by (intro admitted [of ?c1 ?base ?h pool]) (auto simp: add_transaction_def Let_def split: sum.splits)
  next
    case (Inl e)
    show thesis using assms Some Inl by (intro refused [of e ?base]) (simp_all add: add_transaction_def Let_def)
  qed
next
  case None
  show thesis using assms None by (intro panic) (simp_all add: add_transaction_def)
qed

text \<open>C17. The mempool stays bounded. After every accepted transaction the pool holds at most 9500 user and 500 system transactions
  and its gas is within the budget; whatever the outcome, a call adds nothing to the pool but the transaction offered; and a
  call that fails after the transaction was inserted leaves the pool over a limit.\<close>
theorem mempool_limits:
  assumes "sort_keeps srt" "add_transaction X srt now c tx = (r, c')"
  shows "mset (bc_pending_transactions c') \<subseteq># add_mset tx (mset (bc_pending_transactions c))
    \<and> (r = Inr () \<longrightarrow> within_limits (pending_gas_budget c) (bc_pending_transactions c'))
    \<and> (r \<noteq> Inr () \<longrightarrow> mset (bc_pending_transactions c') \<subseteq># mset (bc_pending_transactions c)
        \<or> \<not> within_limits (pending_gas_budget c) (bc_pending_transactions c'))"
  using assms(2)
proof (cases rule: add_transaction_cases)
  case panic
  then show ?thesis by simp
next
  case (refused e base)
  moreover have "mset (bc_pending_transactions c) \<subseteq># add_mset tx (mset (bc_pending_transactions c))" by simp
  ultimately show ?thesis using prune_mset [OF assms(1), of now base c] subset_mset.order_trans by blast
next
  case (admitted base pool c1 h)
  have b: "pending_gas_budget c1 = pending_gas_budget c" using admitted(1) by (simp add: pending_gas_budget_def)
  note o = eviction_outcome [OF admitted(3)]
  have "mset pool \<subseteq># add_mset tx (mset (bc_pending_transactions c1))"
    using o insert_pending_mset by (metis subset_mset.order_trans)
  moreover have "mset (bc_pending_transactions c1) \<subseteq># mset (bc_pending_transactions c)" using prune_mset [OF assms(1)] admitted(1) by simp
  ultimately have "mset pool \<subseteq># add_mset tx (mset (bc_pending_transactions c))"
    by (meson mset_subset_eq_add_mset_cancel subset_mset.order_trans)
  then show ?thesis
    using o admitted(4) b assms(1) within_limits_mset [of "sort_pending_transactions srt base pool" pool] by auto
qed

section \<open>One transaction per sender and nonce\<close>

abbreviation tx_slot :: "transaction \<Rightarrow> bytes \<times> u64" where
  "tx_slot tx \<equiv> (tx_from tx, tx_nonce tx)"

text \<open>No two pending transactions compete for a nonce, and no account holds more than its share.\<close>
definition pool_inv :: "transaction list \<Rightarrow> bool" where
  "pool_inv txs \<longleftrightarrow> distinct (map tx_slot txs)
     \<and> (\<forall>a. length (filter (\<lambda>p. tx_from p = a) txs) \<le> MAX_PENDING_TRANSACTIONS_PER_ACCOUNT)"

lemma distinct_mset_sub:
  assumes "distinct ys" "mset xs \<subseteq># mset ys"
  shows "distinct xs"
  unfolding distinct_count_atmost_1
proof
  fix a
  have "count (mset ys) a \<le> 1" using assms(1) by (cases "a \<in> set ys") (simp_all add: distinct_count_atmost_1)
  then have "count (mset xs) a \<le> 1" using mset_subset_eq_count [OF assms(2), of a] by linarith
  moreover have "(a \<in> set xs) = (count (mset xs) a \<noteq> 0)" by (simp add: count_mset_0_iff)
  ultimately show "count (mset xs) a = (if a \<in> set xs then 1 else 0)"
    by (simp only: le_Suc_eq One_nat_def le_zero_eq split: if_split) blast
qed

lemma pool_inv_sub:
  assumes "pool_inv ys" "mset xs \<subseteq># mset ys"
  shows "pool_inv xs"
proof -
  have "mset (map tx_slot xs) \<subseteq># mset (map tx_slot ys)" using assms(2) by (simp add: image_mset_subseteq_mono)
  then have "distinct (map tx_slot xs)"
    using assms(1) distinct_mset_sub unfolding pool_inv_def by blast
  moreover have "length (filter (\<lambda>p. tx_from p = a) xs) \<le> length (filter (\<lambda>p. tx_from p = a) ys)" for a
    using size_mset_mono [OF multiset_filter_mono [OF assms(2)]] by (metis mset_filter size_mset)
  ultimately show ?thesis using assms(1) unfolding pool_inv_def by (meson order_trans)
qed

lemma replacement_index_Some:
  assumes "replacement_index tx pool = Some i"
  shows "i < length pool" "tx_slot (pool ! i) = tx_slot tx"
proof -
  show "i < length pool" using assms by (auto simp: replacement_index_def Let_def split: if_splits)
  then show "tx_slot (pool ! i) = tx_slot tx"
    using assms nth_length_takeWhile [of "\<lambda>p. \<not> (tx_from p = tx_from tx \<and> tx_nonce p = tx_nonce tx)" pool]
    by (auto simp: replacement_index_def Let_def split: if_splits)
qed

lemma replacement_index_None:
  assumes "replacement_index tx pool = None"
  shows "tx_slot tx \<notin> tx_slot ` set pool"
proof -
  let ?P = "\<lambda>p. \<not> (tx_from p = tx_from tx \<and> tx_nonce p = tx_nonce tx)"
  have "length pool \<le> length (takeWhile ?P pool)" using assms by (simp add: replacement_index_def Let_def split: if_splits)
  then have "takeWhile ?P pool = pool" using takeWhile_eq_take [of ?P pool] by simp
  then have "\<forall>p \<in> set pool. ?P p" by (simp only: takeWhile_eq_all_conv)
  then show ?thesis by auto
qed

lemma admission_room:
  "admission_check X now base c tx = Inr () \<Longrightarrow> replacement_index tx (bc_pending_transactions c) = None \<Longrightarrow>
     length (filter (\<lambda>p. tx_from p = tx_from tx) (bc_pending_transactions c)) < MAX_PENDING_TRANSACTIONS_PER_ACCOUNT"
  by (auto simp: admission_check_def Let_def split: if_splits prod.splits)

lemma pool_inv_insert:
  assumes "pool_inv (bc_pending_transactions c)" "admission_check X now base c tx = Inr ()"
  shows "pool_inv (insert_pending tx (bc_pending_transactions c))"
proof (cases "replacement_index tx (bc_pending_transactions c)")
  case None
  then have "tx_slot tx \<notin> tx_slot ` set (bc_pending_transactions c)" by (rule replacement_index_None)
  then show ?thesis using None assms admission_room [OF assms(2) None] by (auto simp: insert_pending_def pool_inv_def)
next
  case (Some i)
  let ?pool = "bc_pending_transactions c"
  note r = replacement_index_Some [OF Some]
  have slots: "map tx_slot (?pool[i := tx]) = map tx_slot ?pool"
    using r by (simp add: map_update list_update_same_conv del: prod.inject)
  have by_slot: "length (filter (\<lambda>p. tx_from p = a) xs) = length (filter (\<lambda>k. fst k = a) (map tx_slot xs))" for a xs
    by (simp add: filter_map comp_def)
  show ?thesis using assms(1) Some unfolding insert_pending_def pool_inv_def by_slot by (simp add: slots del: map_update)
qed

text \<open>What happens to a pool: offers of transactions, and blocks that take some out.\<close>
inductive pool_step :: "externs \<Rightarrow> tx_sorter \<Rightarrow> blockchain \<Rightarrow> blockchain \<Rightarrow> bool" for X srt where
  pool_add: "pool_step X srt c (snd (add_transaction X srt now c tx))"
| pool_block: "pool_step X srt c (remove_block_transactions_from_mempool X c b)"

lemma pool_step_inv:
  assumes "sort_keeps srt" "pool_inv (bc_pending_transactions c)" "pool_step X srt c c'"
  shows "pool_inv (bc_pending_transactions c')"
  using assms(3)
proof cases
  case (pool_add now tx)
  obtain r where "add_transaction X srt now c tx = (r, c')" using pool_add by (metis prod.collapse)
  then show ?thesis
  proof (cases rule: add_transaction_cases)
    case (admitted base pool c1 h)
    have "pool_inv (bc_pending_transactions c1)" using pool_inv_sub [OF assms(2) prune_mset [OF assms(1)]] admitted(1) by simp
    from pool_inv_insert [OF this admitted(2)] have "pool_inv pool" using eviction_outcome [OF admitted(3)] pool_inv_sub by blast
    then show ?thesis using admitted(4) assms(1) pool_inv_sub [of pool "sort_pending_transactions srt base pool"] by simp
  qed (use assms(2) pool_inv_sub [OF assms(2) prune_mset [OF assms(1)]] in simp_all)
next
  case (pool_block b)
  then show ?thesis using pool_inv_sub [OF assms(2)] by (simp add: remove_block_transactions_from_mempool_def Let_def multiset_filter_subset)
qed

interpretation pool_system: transition_system "\<lambda>c. bc_pending_transactions c = []"
  "\<lambda>c c'. sort_keeps srt \<and> pool_step X srt c c'" "\<lambda>c. pool_inv (bc_pending_transactions c)" for X srt
proof
  show "bc_pending_transactions s = [] \<Longrightarrow> pool_inv (bc_pending_transactions s)" for s :: blockchain by (simp add: pool_inv_def)
  show "pool_inv (bc_pending_transactions s) \<Longrightarrow> sort_keeps srt \<and> pool_step X srt s t \<Longrightarrow> pool_inv (bc_pending_transactions t)" for s t
    using pool_step_inv by blast
qed

text \<open>A sorter that keeps its promise: insertion sort.\<close>
fun insert_by :: "('a \<Rightarrow> 'a \<Rightarrow> rust_ordering) \<Rightarrow> 'a \<Rightarrow> 'a list \<Rightarrow> 'a list" where
  "insert_by f x [] = [x]"
| "insert_by f x (y # ys) = (if f x y = Greater then y # insert_by f x ys else x # y # ys)"

definition insertion_sort :: tx_sorter where
  "insertion_sort f xs = foldr (insert_by f) xs []"

lemma insertion_sort_keeps: "sort_keeps insertion_sort"
proof -
  have ins: "mset (insert_by f x ys) = add_mset x (mset ys)" for f :: "'a \<Rightarrow> 'a \<Rightarrow> rust_ordering" and x ys
    by (induction ys) auto
  have "mset (foldr (insert_by f) xs []) = mset xs" for f :: "transaction \<Rightarrow> transaction \<Rightarrow> rust_ordering" and xs
    by (induction xs) (simp_all add: ins)
  then show ?thesis by (simp add: sort_keeps_def insertion_sort_def)
qed

text \<open>System transactions are not out of reach of user pressure: evicting a user transaction takes the sender's
  later system transactions with it.\<close>
lemma eviction_takes_system_dependents:
  assumes "i < length txs" "tx_from s = tx_from (txs ! i)" "tx_nonce (txs ! i) < tx_nonce s"
  shows "s \<notin> set (evict_transaction_and_dependents i txs)"
  using assms by (simp add: evict_transaction_and_dependents_def Let_def)

end
