(* ===== verification/Chain_Run.thy ===== *)
theory Chain_Run
  imports Reorg Mempool
begin

text \<open>
  The chain object as one state machine: the operations through which the node, the API and the network change a chain
  (\<^verbatim>\<open>src/src/core/chain\<close>), in any order and with any outcome. The invariant ties the components together: the block tree is one that
  theory \<open>Block_Tree\<close> can build, the finality tracker and the tree agree, the genesis block never changes, and the pool holds
  one transaction per nonce. It is what the termination of fork choice and the finality of the node rest on.
\<close>

section \<open>The steps of a chain\<close>

inductive chain_step :: "externs \<Rightarrow> tx_sorter \<Rightarrow> blockchain \<Rightarrow> blockchain \<Rightarrow> bool" for X srt where
  step_block: "add_block X now c b = (r, c') \<Longrightarrow> chain_step X srt c c'"
| step_fork: "add_block_with_fork_choice X now c b = Some (r, c') \<Longrightarrow> chain_step X srt c c'"
| step_vote: "add_finality_vote X c v = (r, c') \<Longrightarrow> chain_step X srt c c'"
| step_transaction: "add_transaction X srt now c tx = (r, c') \<Longrightarrow> chain_step X srt c c'"
| step_slash: "process_equivocation X c ev = Inr (p, c') \<Longrightarrow> chain_step X srt c c'"

text \<open>A chain right after genesis, with any pruning setting.\<close>
definition chain_init :: "externs \<Rightarrow> blockchain \<Rightarrow> bool" where
  "chain_init X c \<longleftrightarrow> (\<exists>gc c0 k. from_genesis X gc = Inr c0 \<and> c = c0\<lparr>bc_prune_keep_blocks := k\<rparr>)"

text \<open>What the invariant is about.\<close>
definition tree_ok :: "block \<Rightarrow> block_tree \<Rightarrow> bool" where
  "tree_ok gen t \<longleftrightarrow> tree_inv (blk_hash gen) t \<and> tree_get t (blk_hash gen) = Some gen"

definition agree :: "finality_tracker \<Rightarrow> block_tree \<Rightarrow> bool" where
  "agree tr t \<longleftrightarrow> ft_finalized_height tr = bt_finalized_height t
     \<and> (0 < ft_finalized_height tr \<longrightarrow> ft_finalized_hash tr = bt_finalized_hash t)"

definition chain_inv :: "block \<Rightarrow> blockchain \<Rightarrow> bool" where
  "chain_inv gen c \<longleftrightarrow> genesis_block c = gen \<and> blk_height gen = 0 \<and> tree_ok gen (bc_block_tree c)
     \<and> agree (bc_finality_tracker c) (bc_block_tree c) \<and> pool_inv (bc_pending_transactions c)"

section \<open>What the operations leave alone\<close>

definition frame :: "blockchain \<Rightarrow> block \<times> block_tree \<times> finality_tracker \<times> transaction list" where
  "frame c = (genesis_block c, bc_block_tree c, bc_finality_tracker c, bc_pending_transactions c)"

lemma chain_inv_frame: "frame c = frame d \<Longrightarrow> chain_inv gen c = chain_inv gen d"
  by (simp add: frame_def chain_inv_def)

lemma frame_upd [simp]:
  "frame (c\<lparr>bc_accounts := a\<rparr>) = frame c" "frame (c\<lparr>bc_contracts := k\<rparr>) = frame c" "frame (c\<lparr>bc_receipts := r\<rparr>) = frame c"
  "frame (c\<lparr>bc_token_registry := tk\<rparr>) = frame c" "frame (c\<lparr>bc_governance := gv\<rparr>) = frame c" "frame (c\<lparr>bc_epoch_snapshots := e\<rparr>) = frame c"
  "frame (c\<lparr>bc_validator_missed_epochs := m\<rparr>) = frame c" "frame (c\<lparr>bc_block_hash_to_height := bh\<rparr>) = frame c"
  "frame (c\<lparr>bc_tx_hash_index := th\<rparr>) = frame c" "frame (c\<lparr>bc_evm_tx_hash_index := eh\<rparr>) = frame c"
  "frame (c\<lparr>bc_receipt_locations := rl\<rparr>) = frame c" "frame (c\<lparr>bc_log_index := li\<rparr>) = frame c"
  "frame (c\<lparr>bc_slashed_validators := sv\<rparr>) = frame c" "frame (c\<lparr>bc_prune_keep_blocks := pk\<rparr>) = frame c"
  by (simp_all add: frame_def genesis_block_def)

lemma settle_frame [simp]: "frame (settle_before_block X c h) = frame c"
  by (simp add: settle_before_block_def Let_def ensure_epoch_snapshot_def create_epoch_snapshot_from_accounts_def split: prod.split)

lemma receipt_index_frame [simp]: "frame (rebuild_receipt_indexes X c) = frame c"
  by (simp add: rebuild_receipt_indexes_def Let_def split: prod.split)

lemma index_transaction_frame [simp]: "frame (fold (index_transaction X h) itxs c) = frame c"
  by (induction itxs arbitrary: c) (simp_all add: index_transaction_def Let_def split: prod.split sum.split)

lemma index_block_frame [simp]: "frame (index_block X b c) = frame c" "frame (fold (index_block X) bs c) = frame c"
proof -
  show i: "frame (index_block X b c) = frame c" for b c by (simp add: index_block_def)
  show "frame (fold (index_block X) bs c) = frame c" by (induction bs arbitrary: c) (simp_all add: i)
qed

lemma push_frame:
  "blk_height b \<noteq> 0 \<or> block_count c \<noteq> 0 \<Longrightarrow> frame (push_block_internal c b) = frame c"
  by (auto simp: push_block_internal_def view_append_def frame_def genesis_block_def block_count_def Let_def split: sum.split)

lemma rebuild_loop_frame: "rebuild_loop X now c prev bs L m = (r, c') \<Longrightarrow> frame c' = frame c"
proof (induction bs arbitrary: c prev L m)
  case (Cons b bs)
  have "frame (ensure_epoch_snapshot c (blk_height b) (lg_accounts L)) = frame c"
    by (simp add: ensure_epoch_snapshot_def create_epoch_snapshot_from_accounts_def)
  then show ?case using Cons by (fastforce simp: Let_def split: sum.splits prod.splits)
qed simp

lemma rebuild_frame: "rebuild_canonical_state X now c = (r, c') \<Longrightarrow> frame c' = frame c"
  by (auto simp: rebuild_canonical_state_def Let_def dest!: rebuild_loop_frame split: sum.splits list.splits prod.splits)

section \<open>The invariant\<close>

lemma tree_ok_insert:
  assumes "tree_ok gen t" "tree_insert t b st = Inr (r, t')"
  shows "tree_ok gen t'"
  using assms tree_insert_inv(1,2) [of "blk_hash gen" t b st r t'] by (fastforce simp: tree_ok_def tree_get_def same_blocks_def)

lemma tree_ok_finalize:
  assumes "tree_ok gen t" "may_finalize t hash h"
  shows "tree_ok gen (set_finalized t hash h)"
proof -
  note f = set_finalized_inv [OF _ assms(2), of "blk_hash gen"]
  have inv: "tree_inv (blk_hash gen) (set_finalized t hash h)" using assms(1) f(1) by (simp add: tree_ok_def)
  then obtain e where "bt_entries (set_finalized t hash h) (blk_hash gen) = Some e" by (auto simp: tree_inv_def rooted_def)
  then show ?thesis using inv assms(1) f(2) by (fastforce simp: tree_ok_def tree_get_def same_blocks_def)
qed

lemma agree_insert: "agree tr t \<Longrightarrow> tree_inv g t \<Longrightarrow> tree_insert t b st = Inr (r, t') \<Longrightarrow> agree tr t'"
  by (simp add: agree_def tree_insert_inv(3,4))

lemma tree_ok_genesis: "blk_height gen = 0 \<Longrightarrow> tree_ok gen (tree_from_genesis gen)"
  by (simp add: tree_ok_def tree_inv_from_genesis tree_get_def) (simp add: tree_from_genesis_def)

lemma chain_inv_init:
  assumes "chain_init X c"
  shows "chain_inv (genesis_block c) c"
proof -
  obtain gc c0 k where c0: "from_genesis X gc = Inr c0" and c: "c = c0\<lparr>bc_prune_keep_blocks := k\<rparr>"
    using assms by (auto simp: chain_init_def)
  obtain gen where "blk_height gen = 0" "frame c0 = (gen, tree_from_genesis gen, tracker_new, [])"
    using c0 by (auto simp: from_genesis_def Let_def frame_def genesis_block_def split: sum.splits)
  then have "blk_height gen = 0" "frame c = (gen, tree_from_genesis gen, tracker_new, [])" using c by simp_all
  then show ?thesis using tree_ok_genesis [of gen]
    by (auto simp: chain_inv_def frame_def agree_def tracker_new_def pool_inv_def) (simp add: tree_from_genesis_def)
qed

lemma commit_frame:
  assumes "blk_height b \<noteq> 0 \<or> block_count c \<noteq> 0"
  shows "\<exists>st. frame (commit_block X c b ex) = (genesis_block c,
    case tree_insert (bc_block_tree c) b st of Inl _ \<Rightarrow> bc_block_tree c | Inr (_, t) \<Rightarrow> t, bc_finality_tracker c,
    bc_pending_transactions (remove_block_transactions_from_mempool X c b))"
proof -
  define st where "st = (case lg_accounts ex (address_bytes_from_public_key X (hdr_validator_public_key (blk_header b))) of
    Some a \<Rightarrow> acc_staked_balance a | None \<Rightarrow> 0)"
  define t where "t = (case tree_insert (bc_block_tree c) b st of Inl _ \<Rightarrow> bc_block_tree c | Inr (_, t) \<Rightarrow> t)"
  define d where "d = c\<lparr>bc_block_tree := t, bc_accounts := lg_accounts ex, bc_contracts := lg_contracts ex,
    bc_receipts := bc_receipts c ++ lg_receipts ex, bc_token_registry := lg_tokens ex, bc_governance := lg_governance ex\<rparr>"
  define e where "e = rebuild_receipt_indexes X (fold (index_transaction X (blk_height b)) (List.enumerate 0 (blk_transactions b))
    ((push_block_internal d b)\<lparr>bc_block_hash_to_height := (bc_block_hash_to_height (push_block_internal d b))(blk_hash b \<mapsto> blk_height b)\<rparr>))"
  have "frame e = frame d" using assms unfolding e_def by (simp add: push_frame d_def block_count_def)
  then have "frame e = (genesis_block c, t, bc_finality_tracker c, bc_pending_transactions c)"
    by (simp add: d_def frame_def genesis_block_def)
  moreover have "commit_block X c b ex = remove_block_transactions_from_mempool X e b"
    by (simp add: commit_block_def Let_def e_def d_def t_def st_def)
  ultimately show ?thesis
    by (intro exI [of _ st]) (simp add: t_def frame_def remove_block_transactions_from_mempool_def Let_def genesis_block_def)
qed

text \<open>A step of the chain moves its tree by steps of the tree.\<close>
definition runs_to :: "block \<Rightarrow> blockchain \<Rightarrow> blockchain \<Rightarrow> bool" where
  "runs_to gen c c' \<longleftrightarrow> chain_inv gen c' \<and> tree_step\<^sup>*\<^sup>* (bc_block_tree c) (bc_block_tree c')"

lemma runs_to_frame: "chain_inv gen c \<Longrightarrow> frame c' = frame c \<Longrightarrow> runs_to gen c c'"
  using chain_inv_frame [of c' c gen] by (simp add: runs_to_def frame_def)

lemma pool_inv_remove: "pool_inv (bc_pending_transactions c) \<Longrightarrow> pool_inv (bc_pending_transactions (remove_block_transactions_from_mempool X c b))"
  by (erule pool_inv_sub) (simp add: remove_block_transactions_from_mempool_def Let_def multiset_filter_subset)

lemma add_block_runs:
  assumes inv: "chain_inv gen c" and add: "add_block X now c b = (r, c')"
  shows "runs_to gen c c'"
proof (cases "r = Inr ()")
  case True
  let ?c = "settle_before_block X c (blk_height b)"
  obtain prev ex where p: "latest_block c = Some prev" and c': "c' = commit_block X ?c b ex"
    and v: "validate_block_against_state X ?c now b prev (bc_accounts ?c) (bc_contracts ?c) (bc_token_registry ?c) (bc_governance ?c) = Inr ex"
    using add_block_ok add unfolding True Let_def by blast
  have "blk_height b = blk_height prev + 1" using validate_block_ok [OF v] check_header_ok(1) by blast
  moreover have "prev = gen" if "block_count c = 0"
    using p inv that by (simp add: latest_block_def height_def sat_sub_def block_at_height_def view_block_at_def chain_inv_def genesis_block_def split: if_splits)
  ultimately have "blk_height b \<noteq> 0 \<or> block_count ?c \<noteq> 0" using inv by (auto simp: chain_inv_def block_count_def)
  from commit_frame [OF this, of X ex] obtain st where f: "frame c' = (genesis_block ?c,
    case tree_insert (bc_block_tree ?c) b st of Inl _ \<Rightarrow> bc_block_tree ?c | Inr (_, t) \<Rightarrow> t, bc_finality_tracker ?c,
    bc_pending_transactions (remove_block_transactions_from_mempool X ?c b))" using c' by blast
  have s: "chain_inv gen ?c" "bc_block_tree ?c = bc_block_tree c" using settle_frame [of X c "blk_height b"] chain_inv_frame [of ?c c gen] inv
    by (simp_all add: frame_def)
  show ?thesis
  proof (cases "tree_insert (bc_block_tree c) b st")
    case (Inl e)
    then show ?thesis using f s pool_inv_remove by (simp add: runs_to_def chain_inv_def frame_def)
  next
    case (Inr rt)
    then obtain tc t where i: "tree_insert (bc_block_tree c) b st = Inr (tc, t)" by (cases rt) simp
    have "tree_ok gen t" "agree (bc_finality_tracker ?c) t"
      using s inv tree_ok_insert [OF _ i] agree_insert [OF _ _ i, of "bc_finality_tracker ?c" "blk_hash gen"] by (simp_all add: chain_inv_def tree_ok_def)
    then show ?thesis using f s i pool_inv_remove tree_step_insert [OF i] by (auto simp: runs_to_def chain_inv_def frame_def)
  qed
next
  case False
  then have "frame c' = frame c" using add by (auto simp: add_block_def Let_def split: option.splits sum.splits)
  then show ?thesis by (rule runs_to_frame [OF inv])
qed

lemma canonical_chain_genesis:
  assumes "tree_ok gen t"
  shows "canonical_chain t \<noteq> []" "hd (canonical_chain t) = gen" "linked_blocks (canonical_chain t)"
proof -
  have lk: "linked (bt_entries t)" "rooted (blk_hash gen) (bt_entries t)" using assms by (simp_all add: tree_ok_def tree_inv_def)
  obtain e where tip: "bt_entries t (bt_canonical_tip t) = Some e" using assms by (auto simp: tree_ok_def tree_inv_def heaviest_def)
  let ?es = "bt_entries t" and ?w = "walk (bt_entries t) (bt_canonical_tip t)"
  show ne: "canonical_chain t \<noteq> []" and "linked_blocks (canonical_chain t)"
    and h: "hd (canonical_chain t) = gen"
  proof -
    note w = walk_linked_blocks [OF lk(1) tip, unfolded Let_def, folded canonical_chain_def]
    show ne: "canonical_chain t \<noteq> []" and "linked_blocks (canonical_chain t)" using w by simp_all
    then have l: "?w \<noteq> []" by (auto simp: canonical_chain_def)
    have hd: "hd (canonical_chain t) = be_block (the (?es (last ?w)))" using l by (simp add: canonical_chain_def hd_rev last_map)
    have "last ?w \<in> dom ?es" using walk_dom [OF lk(1)] l by (meson last_in_set)
    then obtain el where el: "?es (last ?w) = Some el" by blast
    then have "last ?w = blk_hash gen" using lk(2) w hd by (auto simp: rooted_def)
    then show "hd (canonical_chain t) = gen" using assms hd by (auto simp: tree_ok_def tree_get_def)
  qed
qed

lemma replace_all_frame:
  assumes "linked_blocks bs" "bs \<noteq> []"
  shows "frame (replace_all_blocks c bs) = (hd bs, bc_block_tree c, bc_finality_tracker c, bc_pending_transactions c)"
proof -
  obtain g rest where bs: "bs = g # rest" using assms(2) by (cases bs) auto
  let ?c = "c\<lparr>bc_cursor := view_invalidate_from (bc_cursor c) 0\<rparr>"
  have g: "blk_height g = 0" "\<forall>b \<in> set rest. blk_height b \<noteq> 0"
  proof -
    show "blk_height g = 0" using assms(1) bs by (auto simp: linked_blocks_def unat_eq_zero)
    show "\<forall>b \<in> set rest. blk_height b \<noteq> 0"
      using assms(1) bs by (auto simp: linked_blocks_def in_set_conv_nth) (metis Suc_less_eq nat.distinct(1) nth_Cons_Suc unat_0)
  qed
  have z: "block_count ?c = 0" by (simp add: block_count_def view_invalidate_from_def word_gt_0)
  have "frame (push_block_internal ?c g) = (g, bc_block_tree c, bc_finality_tracker c, bc_pending_transactions c)"
    using g(1) z by (simp add: push_block_internal_def view_append_def frame_def genesis_block_def block_count_def)
  moreover have "frame (fold (\<lambda>b c. push_block_internal c b) rest d) = frame d" for d
    using g(2) by (induction rest arbitrary: d) (simp_all add: push_frame)
  ultimately show ?thesis by (simp add: replace_all_blocks_def bs)
qed

lemma reorg_frame:
  assumes "reorg_to_canonical_tip X now c = (r, c')" "tree_ok gen (bc_block_tree c)" "genesis_block c = gen"
  shows "frame c' = frame c"
proof (cases "check_reorg c")
  case (Inr u)
  have "frame (replace_all_blocks c (canonical_chain (bc_block_tree c))) = frame c"
    using canonical_chain_genesis [OF assms(2)] replace_all_frame [of "canonical_chain (bc_block_tree c)" c] assms(3) by (simp add: frame_def [of c])
  then show ?thesis using assms(1) Inr rebuild_frame by (simp add: reorg_to_canonical_tip_def)
qed (use assms(1) in \<open>simp add: reorg_to_canonical_tip_def\<close>)

lemma fork_choice_cases:
  assumes "add_block_with_fork_choice X now c b = Some (r, c')"
  shows "c' = c \<or> (\<exists>r'. add_block X now c b = (r', c')) \<or> (\<exists>st tc t. tree_insert (bc_block_tree c) b st = Inr (tc, t)
    \<and> (c' = c\<lparr>bc_block_tree := t\<rparr> \<or> (\<exists>r'. reorg_to_canonical_tip X now (c\<lparr>bc_block_tree := t\<rparr>) = (r', c'))))"
proof (rule ccontr)
  assume n: "\<not> ?thesis"
  then have 1: "c' \<noteq> c" "\<And>r'. add_block X now c b \<noteq> (r', c')"
    and 2: "\<And>st tc t. tree_insert (bc_block_tree c) b st = Inr (tc, t) \<Longrightarrow> c' \<noteq> c\<lparr>bc_block_tree := t\<rparr>"
    and 3: "\<And>st tc t r'. tree_insert (bc_block_tree c) b st = Inr (tc, t) \<Longrightarrow> reorg_to_canonical_tip X now (c\<lparr>bc_block_tree := t\<rparr>) \<noteq> (r', c')"
    by blast+
  show False using assms 1 2 3
    by (auto simp: add_block_with_fork_choice_def Let_def split: if_splits option.splits sum.splits prod.splits)
qed

lemma fork_choice_runs:
  assumes inv: "chain_inv gen c" and fork: "add_block_with_fork_choice X now c b = Some (r, c')"
  shows "runs_to gen c c'"
proof -
  consider (same) "c' = c" | (extend) r' where "add_block X now c b = (r', c')"
    | (insert) st tc t c1 where "tree_insert (bc_block_tree c) b st = Inr (tc, t)" "c1 = c\<lparr>bc_block_tree := t\<rparr>"
        "c' = c1 \<or> (\<exists>r'. reorg_to_canonical_tip X now c1 = (r', c'))"
    using fork_choice_cases [OF fork] by blast
  then show ?thesis
  proof cases
    case same
    then show ?thesis using runs_to_frame [OF inv] by simp
  next
    case extend
    then show ?thesis by (rule add_block_runs [OF inv])
  next
    case insert
    have ok: "tree_ok gen t" "agree (bc_finality_tracker c) t"
      using inv tree_ok_insert [OF _ insert(1)] agree_insert [OF _ _ insert(1), of "bc_finality_tracker c" "blk_hash gen"] by (simp_all add: chain_inv_def tree_ok_def)
    have c1: "chain_inv gen c1" using inv ok insert(2) by (simp add: chain_inv_def genesis_block_def)
    then have "frame c' = frame c1" using insert(3) reorg_frame [of X now c1 _ c' gen] by (auto simp: chain_inv_def)
    then show ?thesis using c1 chain_inv_frame [of c' c1 gen] tree_step_insert [OF insert(1)] insert(2)
      by (auto simp: runs_to_def frame_def)
  qed
qed

lemma vote_cases:
  assumes "add_finality_vote X c v = (r, c')"
  obtains "c' = c" | s tr where "add_vote X (bc_finality_tracker c) v s = (None, tr)" "c' = c\<lparr>bc_finality_tracker := tr\<rparr>"
  | s tr f b where "add_vote X (bc_finality_tracker c) v s = (Some f, tr)" "tree_get (bc_block_tree c) (fv_block_hash v) = Some b"
      "blk_height b = fv_block_height v" "is_on_canonical_chain (bc_block_tree c) (fv_block_hash v)"
      "c' = maybe_prune_finalized (c\<lparr>bc_finality_tracker := tr, bc_block_tree := set_finalized (bc_block_tree c) (fb_hash f) (fb_height f)\<rparr>) (fb_height f)"
proof (cases "c' = c")
  case False
  let ?ep = "epoch_for_height c (fv_block_height v)"
  obtain b s where b: "tree_get (bc_block_tree c) (fv_block_hash v) = Some b" "blk_height b = fv_block_height v" "fv_epoch v = ?ep"
    "is_on_canonical_chain (bc_block_tree c) (fv_block_hash v)" and s: "bc_epoch_snapshots c ?ep = Some s"
    using assms False by (auto simp: add_finality_vote_def Let_def split: if_splits option.splits)
  obtain res tr where a: "add_vote X (bc_finality_tracker c) v s = (res, tr)" by fastforce
  show thesis using assms b s a that(2) [of s tr] that(3) [of s _ tr b]
    by (cases res) (auto simp: add_finality_vote_def)
qed

lemma vote_runs:
  assumes inv: "chain_inv gen c" and vote: "add_finality_vote X c v = (r, c')"
  shows "runs_to gen c c'"
proof -
  let ?t = "bc_block_tree c" and ?tr = "bc_finality_tracker c"
  have pr: "frame (maybe_prune_finalized d h) = frame d" for d h
    by (auto simp: maybe_prune_finalized_def frame_def genesis_block_def view_prune_below_def Let_def split: option.split)
  consider (same) "c' = c" | (counted) s tr where "add_vote X ?tr v s = (None, tr)" "c' = c\<lparr>bc_finality_tracker := tr\<rparr>"
    | (final) s tr f b where "add_vote X ?tr v s = (Some f, tr)" "tree_get ?t (fv_block_hash v) = Some b" "blk_height b = fv_block_height v"
        "is_on_canonical_chain ?t (fv_block_hash v)"
        "frame c' = frame (c\<lparr>bc_finality_tracker := tr, bc_block_tree := set_finalized ?t (fb_hash f) (fb_height f)\<rparr>)"
    using vote by (cases rule: vote_cases) (metis pr)+
  then show ?thesis
  proof cases
    case same
    then show ?thesis using runs_to_frame [OF inv] by simp
  next
    case counted
    have "ft_finalized_height tr = ft_finalized_height ?tr \<and> ft_finalized_hash tr = ft_finalized_hash ?tr"
      by (rule add_vote_None [OF counted(1)])
    then show ?thesis using inv counted(2) by (simp add: runs_to_def chain_inv_def agree_def genesis_block_def)
  next
    case final
    note a = add_vote_Some [OF final(1)]
    have may: "may_finalize ?t (fb_hash f) (fb_height f)"
      using a(1,2) final inv by (auto simp: may_finalize_def counted_def chain_inv_def agree_def)
    then have "tree_ok gen (set_finalized ?t (fb_hash f) (fb_height f))" using inv tree_ok_finalize by (simp add: chain_inv_def)
    then have "chain_inv gen (c\<lparr>bc_finality_tracker := tr, bc_block_tree := set_finalized ?t (fb_hash f) (fb_height f)\<rparr>)"
      using inv a by (simp add: chain_inv_def agree_def genesis_block_def)
    then have "chain_inv gen c'" using chain_inv_frame [OF final(5), of gen] by simp
    then show ?thesis using final(5) tree_step_finalize [OF may] by (simp add: runs_to_def frame_def r_into_rtranclp)
  qed
qed

lemma transaction_runs:
  assumes "chain_inv gen c" "add_transaction X srt now c tx = (r, c')" "sort_keeps srt"
  shows "runs_to gen c c'"
proof -
  have "pool_step X srt c c'" using pool_add [of X srt c now tx] assms(2) by simp
  then have "pool_inv (bc_pending_transactions c')" using pool_step_inv [OF assms(3)] assms(1) unfolding chain_inv_def by blast
  moreover have "bc_block_tree c' = bc_block_tree c" "bc_finality_tracker c' = bc_finality_tracker c" "genesis_block c' = genesis_block c"
    using assms(2) by (cases rule: add_transaction_cases; simp add: prune_pending_transactions_def Let_def genesis_block_def)+
  ultimately show ?thesis using assms(1) by (simp add: runs_to_def chain_inv_def)
qed

lemma chain_step_runs:
  assumes "sort_keeps srt" "chain_inv gen c" "chain_step X srt c c'"
  shows "runs_to gen c c'"
  using assms(3)
proof cases
  case step_block
  then show ?thesis by (rule add_block_runs [OF assms(2)])
next
  case step_fork
  then show ?thesis by (rule fork_choice_runs [OF assms(2)])
next
  case step_vote
  then show ?thesis by (rule vote_runs [OF assms(2)])
next
  case step_transaction
  then show ?thesis using transaction_runs [OF assms(2)] assms(1) by blast
next
  case (step_slash ev p)
  then have "frame c' = frame c" by (auto simp: process_equivocation_def split: sum.splits)
  then show ?thesis by (rule runs_to_frame [OF assms(2)])
qed

interpretation chain_system: transition_system "\<lambda>c. chain_init X c \<and> genesis_block c = gen"
  "\<lambda>c c'. sort_keeps srt \<and> chain_step X srt c c'" "chain_inv gen" for X srt gen
  using chain_inv_init chain_step_runs by unfold_locales (auto simp: runs_to_def)

text \<open>What every reachable chain satisfies, and how its tree moves.\<close>
lemma reachable_chain:
  assumes "chain_init X c0" "sort_keeps srt" "(chain_step X srt)\<^sup>*\<^sup>* c0 c"
  shows "chain_inv (genesis_block c0) c"
proof -
  have "(\<lambda>c c'. sort_keeps srt \<and> chain_step X srt c c') = chain_step X srt" using assms(2) by simp
  then show ?thesis using chain_system.reachable_inv [of X c0 "genesis_block c0" srt c] assms by simp
qed

lemma chain_run_tree:
  assumes "(chain_step X srt)\<^sup>*\<^sup>* c c'" "sort_keeps srt" "chain_inv gen c"
  shows "runs_to gen c c'"
  using assms(1)
proof (induction rule: rtranclp_induct)
  case (step d d')
  then show ?case using chain_step_runs [OF assms(2), of gen d X d'] by (auto simp: runs_to_def)
qed (use assms(3) in \<open>simp add: runs_to_def\<close>)

section \<open>Properties of the running chain\<close>

text \<open>C1. Finality of the node. Whatever blocks, forks, votes, transactions and slashings a chain processes after genesis, in any order and also
  when they are refused: the finalized block stays on the canonical branch of the block tree for ever, every later finalized block descends from it, the
  finalized height never goes down, and the finality tracker and the block tree always name the same finalized block.\<close>
theorem node_finality:
  assumes "chain_init X c0" "sort_keeps srt" "(chain_step X srt)\<^sup>*\<^sup>* c0 c" "(chain_step X srt)\<^sup>*\<^sup>* c c'"
  shows "is_on_canonical_chain (bc_block_tree c') (bt_finalized_hash (bc_block_tree c))
    \<and> is_descendant_of (bc_block_tree c') (bt_finalized_hash (bc_block_tree c')) (bt_finalized_hash (bc_block_tree c))
    \<and> ft_finalized_height (bc_finality_tracker c) \<le> ft_finalized_height (bc_finality_tracker c')
    \<and> ft_finalized_height (bc_finality_tracker c') = bt_finalized_height (bc_block_tree c')
    \<and> (0 < ft_finalized_height (bc_finality_tracker c') \<longrightarrow> ft_finalized_hash (bc_finality_tracker c') = bt_finalized_hash (bc_block_tree c'))"
proof -
  let ?g = "genesis_block c0"
  have inv: "chain_inv ?g c" by (rule reachable_chain [OF assms(1-3)])
  have run: "runs_to ?g c c'" by (rule chain_run_tree [OF assms(4,2) inv])
  have t: "tree_inv (blk_hash ?g) (bc_block_tree c)" "tree_step\<^sup>*\<^sup>* (bc_block_tree c) (bc_block_tree c')" "tree_inv (blk_hash ?g) (bc_block_tree c')"
    using inv run by (simp_all add: chain_inv_def runs_to_def tree_ok_def)
  have le: "unat (bt_finalized_height (bc_block_tree c)) \<le> unat (bt_finalized_height (bc_block_tree c'))"
    by (rule tree_system.run_rank [OF t(2,1)])
  have a: "agree (bc_finality_tracker c) (bc_block_tree c)" "agree (bc_finality_tracker c') (bc_block_tree c')"
    using inv run by (simp_all add: chain_inv_def runs_to_def)
  have "bt_finalized_hash (bc_block_tree c) \<in> set (walk (bt_entries (bc_block_tree c')) (bt_finalized_hash (bc_block_tree c')))"
    using tree_finality.reachable_inv [OF _ t(2)] t(1) by blast
  moreover have "bt_finalized_hash (bc_block_tree c') \<in> set (walk (bt_entries (bc_block_tree c')) (bt_canonical_tip (bc_block_tree c')))" "linked (bt_entries (bc_block_tree c'))"
    using t(3) by (simp_all add: tree_inv_def)
  ultimately show ?thesis using walk_trans a le
    by (auto simp: is_on_canonical_chain_def is_descendant_of_def agree_def word_le_nat_alt)
qed

text \<open>C16. Fork choice always answers. On every chain that the operations can produce from genesis, \<open>add_block_with_fork_choice\<close> returns for every block: its
  replay follows parent hashes up to the genesis block and never runs forever.\<close>
theorem fork_choice_terminates:
  assumes "chain_init X c0" "sort_keeps srt" "(chain_step X srt)\<^sup>*\<^sup>* c0 c"
  shows "\<exists>r. add_block_with_fork_choice X now c b = Some r"
  using reachable_chain [OF assms] fork_choice_total by (auto simp: chain_inv_def tree_ok_def)

text \<open>C18. One pending transaction per nonce. In the pool of every chain that the operations can produce from genesis, no two transactions have the same
  sender and nonce, and no sender has more than 64.\<close>
theorem mempool_one_per_nonce:
  assumes "chain_init X c0" "sort_keeps srt" "(chain_step X srt)\<^sup>*\<^sup>* c0 c"
  shows "distinct (map (\<lambda>tx. (tx_from tx, tx_nonce tx)) (bc_pending_transactions c))
    \<and> (\<forall>a. length (filter (\<lambda>p. tx_from p = a) (bc_pending_transactions c)) \<le> 64)"
  using reachable_chain [OF assms] by (simp add: chain_inv_def pool_inv_def MAX_PENDING_TRANSACTIONS_PER_ACCOUNT_def)

section \<open>A concrete run\<close>

text \<open>The demo chain is the one that the demo transfer, offered right after genesis, leads to.\<close>
lemma demo_start_eq: "demo_start_chain = demo_chain\<lparr>bc_pending_transactions := []\<rparr>"
proof -
  have "bc_pending_transactions demo_start_chain = []"
    by (simp add: demo_start_chain_def from_genesis_def demo_genesis_accounts Let_def)
  then show ?thesis by (simp add: demo_chain_def)
qed

lemma demo_start_reads:
  "latest_block demo_start_chain = Some demo_gen" "next_base_fee_per_gas demo_start_chain demo_gen = 1" "height demo_start_chain = 0"
proof -
  show "latest_block demo_start_chain = Some demo_gen"
    using demo_chain_fields(3) by (simp add: demo_chain_def latest_block_def height_def block_count_def block_at_height_def)
  show "next_base_fee_per_gas demo_start_chain demo_gen = 1"
  proof -
    have f: "bc_initial_base_fee_per_gas (c\<lparr>bc_pending_transactions := p\<rparr>) = bc_initial_base_fee_per_gas c"
      "bc_block_gas_limit (c\<lparr>bc_pending_transactions := p\<rparr>) = bc_block_gas_limit c"
      "bc_base_fee_change_denominator (c\<lparr>bc_pending_transactions := p\<rparr>) = bc_base_fee_change_denominator c" for c :: blockchain and p by simp_all
    have "next_base_fee_per_gas (c\<lparr>bc_pending_transactions := p\<rparr>) b = next_base_fee_per_gas c b" for c p b
      unfolding next_base_fee_per_gas_def parent_base_fee_def f by (rule refl)
    then show ?thesis using demo_base_fee by (simp add: demo_start_eq)
  qed
  show "height demo_start_chain = 0"
    by (simp add: demo_start_chain_def from_genesis_def demo_genesis_accounts Let_def height_def block_count_def sat_sub_def)
qed

lemma demo_start_fields:
  "bc_pending_transactions demo_start_chain = []" "bc_unstake_delay_blocks demo_start_chain = 10" "bc_epoch_length demo_start_chain = 4"
  "bc_minimum_stake demo_start_chain = 100" "bc_accounts demo_start_chain = lg_accounts demo_ledger"
  "gc_chain_id (bc_genesis_config demo_start_chain) = ''c''" "bc_block_gas_limit demo_start_chain = DEFAULT_BLOCK_GAS_LIMIT"
  by (simp_all add: demo_start_eq demo_chain_fields)

lemma demo_transfer_fees:
  "max_fee_per_gas demo_transfer = 1" "effective_gas_limit demo_transfer = 21000" "estimated_gas_for_admission demo_transfer = 21000" "total_fee_cap demo_transfer = 21000"
  by (simp_all add: max_fee_per_gas_def total_fee_cap_def effective_gas_limit_def estimated_gas_for_admission_def intrinsic_gas_def kind_gas_def
        payload_bytes_def len64_def gas_defs sat_add_def sat_mul_def)

lemma demo_admitted: "add_transaction demo_externs insertion_sort 0 demo_start_chain demo_transfer = (Inr (), demo_chain)"
proof -
  let ?c = "demo_chain\<lparr>bc_pending_transactions := []\<rparr>"
  have prune: "prune_pending_transactions insertion_sort 0 1 demo_start_chain = demo_start_chain"
    by (simp add: prune_pending_transactions_def sort_pending_transactions_def insertion_sort_def demo_start_eq)
  have "priority_fee_per_gas demo_transfer 1 = Some 0"
    by (simp add: priority_fee_per_gas_def effective_gas_price_def demo_transfer_fees sat_sub_def)
  moreover have "pending_gas_usage demo_start_chain = 0" by (simp add: pending_gas_usage_def gas_usage_def demo_start_eq)
  moreover have "pending_gas_budget demo_start_chain \<noteq> 0"
    by (simp add: pending_gas_budget_def demo_start_eq demo_chain_fields DEFAULT_BLOCK_GAS_LIMIT_def MAX_PENDING_GAS_BUDGET_MULTIPLIER_def sat_mul_def)
  ultimately have fees: "priority_or_zero demo_transfer 1 = 0" "minimum_priority_fee_per_gas demo_start_chain demo_transfer = 0"
    "minimum_admission_fee demo_start_chain demo_transfer 1 = 21000"
    by (simp_all add: minimum_priority_fee_per_gas_def minimum_priority_fee_per_gas_for_usage_def minimum_admission_fee_def Let_def sat_mul_def sat_add_def
        demo_transfer_fees word_le_nat_alt)
  have app: "fst (apply_user_transaction demo_externs demo_ledger demo_transfer 1 10 4 100 1) = Inr 21000" by (rule demo_transfer_applies)
  have led: "\<lparr>lg_accounts = bc_accounts demo_start_chain, lg_contracts = bc_contracts demo_start_chain, lg_receipts = Map.empty,
      lg_tokens = bc_token_registry demo_start_chain, lg_governance = bc_governance demo_start_chain\<rparr> = demo_ledger"
    by (simp add: demo_start_eq demo_chain_fields) (simp add: demo_ledger_def)
  have tx: "(case lg_accounts demo_ledger demo_sender of None \<Rightarrow> 0 | Some a \<Rightarrow> acc_nonce a) = 0" "tx_timestamp demo_transfer = 0" "tx_mempool_class demo_transfer = User"
    by (simp_all add: demo_ledger_def default_account_def demo_transfer_def demo_signed_def tx_new_def native_tx_def tx_mempool_class_def)
  have "admission_check demo_externs 0 1 demo_start_chain demo_transfer = Inr ()"
    using app unfolding admission_check_def led
    by (simp add: Let_def tx demo_start_reads demo_start_fields fees demo_transfer_fees is_coinbase_def replacement_index_def count_pending_by_class_def gas_usage_def
        MAX_FUTURE_TX_TIME_SECS_def DEFAULT_BLOCK_GAS_LIMIT_def MAX_PENDING_NONCE_GAP_def RESERVED_SYSTEM_SLOTS_def MAX_PENDING_TRANSACTIONS_USER_def
        MAX_PENDING_TRANSACTIONS_def MAX_PENDING_TRANSACTIONS_PER_ACCOUNT_def MAX_PENDING_GAS_PER_ACCOUNT_MULTIPLIER_def sat_add_def sat_mul_def split: mempool_class.split)
  moreover have "enforce_mempool_limits demo_externs 1 (pending_gas_budget demo_start_chain) h [demo_transfer] = (Inr (), [demo_transfer])" for h
    by (subst enforce_step) (simp add: within_limits_def tx pending_gas_budget_def demo_start_fields gas_usage_def demo_transfer_fees MAX_PENDING_TRANSACTIONS_USER_def
        MAX_PENDING_TRANSACTIONS_def RESERVED_SYSTEM_SLOTS_def DEFAULT_BLOCK_GAS_LIMIT_def MAX_PENDING_GAS_BUDGET_MULTIPLIER_def sat_mul_def)
  ultimately show ?thesis
    by (simp add: add_transaction_def demo_start_reads prune Let_def insert_pending_def replacement_index_def demo_start_fields
        sort_pending_transactions_def insertion_sort_def demo_chain_def [symmetric])
qed

lemma demo_run:
  "chain_init demo_externs demo_start_chain" "(chain_step demo_externs insertion_sort)\<^sup>*\<^sup>* demo_start_chain demo_chain"
  "add_block demo_externs now demo_chain b = (r, c) \<Longrightarrow> (chain_step demo_externs insertion_sort)\<^sup>*\<^sup>* demo_chain c"
proof -
  have "bc_prune_keep_blocks demo_start_chain = None"
    by (simp add: demo_start_chain_def from_genesis_def demo_genesis_accounts Let_def)
  then have "demo_start_chain = demo_start_chain\<lparr>bc_prune_keep_blocks := None\<rparr>" by simp
  then show "chain_init demo_externs demo_start_chain" using demo_start_chain_from_genesis unfolding chain_init_def by blast
qed (use step_transaction [OF demo_admitted] step_block [of demo_externs now demo_chain b r c insertion_sort] in blast)+

theorem mempool_limits_witness:
  "add_transaction demo_externs insertion_sort 0 demo_start_chain demo_transfer = (Inr (), demo_chain)
     \<and> length (filter (\<lambda>t. tx_mempool_class t = User) (bc_pending_transactions demo_chain)) \<le> 9500"
  using mempool_limits [OF insertion_sort_keeps demo_admitted] demo_admitted
  by (simp add: within_limits_def MAX_PENDING_TRANSACTIONS_USER_def MAX_PENDING_TRANSACTIONS_def RESERVED_SYSTEM_SLOTS_def)

theorem mempool_one_per_nonce_witness:
  "bc_pending_transactions demo_chain = [demo_transfer]
     \<and> distinct (map (\<lambda>tx. (tx_from tx, tx_nonce tx)) (bc_pending_transactions demo_chain))"
  using mempool_one_per_nonce [OF demo_run(1) insertion_sort_keeps demo_run(2)] demo_chain_fields(2) by simp

theorem fork_choice_terminates_witness:
  "\<exists>r. add_block_with_fork_choice demo_externs 0 demo_chain demo_gen = Some r"
  using fork_choice_terminates [OF demo_run(1) insertion_sort_keeps demo_run(2)] by simp

theorem node_finality_witness:
  "\<exists>b c. add_block demo_externs 1700000009 demo_chain b = (Inr (), c)
     \<and> is_on_canonical_chain (bc_block_tree c) (bt_finalized_hash (bc_block_tree demo_chain))"
proof -
  obtain b c where "add_block demo_externs 1700000009 demo_chain b = (Inr (), c)" by (rule demo_block_accepted)
  then show ?thesis using node_finality [OF demo_run(1) insertion_sort_keeps demo_run(2) demo_run(3)] by blast
qed

end
