(* ===== verification/Storage.thy ===== *)
theory Storage
  imports Chain_State
begin

text \<open>
  The redb storage (\<^verbatim>\<open>src/src/storage/mod.rs\<close>): ten tables of byte strings, the values being \<^verbatim>\<open>bincode\<close> encodings.

  A database is the record \<open>storage_db\<close> of its tables. \<^verbatim>\<open>bincode\<close> is the parameter \<open>bincode\<close>, a record with an encoder and a decoder per stored type and
  the decoders of the legacy formats; what the node relies on is the contract of the locale \<open>serializer\<close>: what was encoded decodes to itself. The
  locale also holds what a table gives back after writes, and is interpreted on the encoding the storage does by hand, the
  big-endian keys. A write is one redb transaction: it commits as a whole or, when an encoder fails, changes nothing; failures of
  redb itself are not modelled.
\<close>

section \<open>Encodings\<close>

record 'a codec =
  cd_enc :: "'a \<Rightarrow> string + bytes"
  cd_dec :: "bytes \<Rightarrow> string + 'a"

datatype storage_error = Redb string | Io string | Serialize string

record legacy_genesis_config =
  lgc_chain_name :: string
  lgc_block_reward :: u64
  lgc_minimum_stake :: u64
  lgc_allocations :: "genesis_allocation list"

record legacy_account_state =
  las_balance :: u64
  las_nonce :: u64
  las_staked_balance :: u64
  las_public_key :: "bytes option"

record legacy_transaction =
  ltx_kind :: transaction_kind
  ltx_from :: bytes
  ltx_sender_public_key :: bytes
  ltx_to :: bytes
  ltx_amount :: u64
  ltx_fee :: u64
  ltx_nonce :: u64
  ltx_timestamp :: i64
  ltx_signature :: "bytes option"

record legacy_block =
  lbk_header :: block_header
  lbk_transactions :: "legacy_transaction list"
  lbk_hash :: bytes
  lbk_signature :: "bytes option"

text \<open>The other fields of a legacy evidence are read and dropped.\<close>
record legacy_evidence =
  lev_validator_public_key :: bytes

record state_chunk =
  ch_index :: nat
  ch_data :: bytes
  ch_hash :: bytes
  ch_proof :: "bytes list"

record snapshot_state =
  ss_blocks :: "block list"
  ss_accounts :: "(bytes \<times> account_state) list"
  ss_contracts :: "(bytes \<times> contract_state) list"
  ss_receipts :: "(bytes \<times> receipt) list"
  ss_pending_transactions :: "transaction list"
  ss_slashed_validators :: "bytes list"
  ss_epoch_snapshots :: "(u64 \<times> epoch_snapshot) list"
  ss_finalized_height :: u64
  ss_finalized_hash :: bytes

record bincode =
  bin_block :: "block codec"
  bin_account :: "account_state codec"
  bin_transaction :: "transaction codec"
  bin_contract :: "contract_state codec"
  bin_receipt :: "receipt codec"
  bin_evidence :: "equivocation_evidence codec"
  bin_epoch :: "epoch_snapshot codec"
  bin_config :: "genesis_config codec"
  bin_u64 :: "u64 codec"
  bin_tokens :: "token_registry codec"
  bin_governance :: "governance_state codec"
  bin_manifest :: "snapshot_manifest codec"
  bin_chunk :: "state_chunk codec"
  bin_snapshot :: "snapshot_state codec"
  bin_legacy_config :: "bytes \<Rightarrow> string + legacy_genesis_config"
  bin_legacy_account :: "bytes \<Rightarrow> string + legacy_account_state"
  bin_legacy_transaction :: "bytes \<Rightarrow> string + legacy_transaction"
  bin_legacy_block :: "bytes \<Rightarrow> string + legacy_block"
  bin_legacy_evidence :: "bytes \<Rightarrow> string + legacy_evidence"

section \<open>Legacy formats\<close>

definition config_from_legacy :: "legacy_genesis_config \<Rightarrow> genesis_config" where
  "config_from_legacy v = default_genesis_config\<lparr>gc_chain_id := lgc_chain_name v, gc_chain_name := lgc_chain_name v,
     gc_block_reward := lgc_block_reward v, gc_minimum_stake := lgc_minimum_stake v,
     gc_unstake_delay_blocks := DEFAULT_UNSTAKE_DELAY_BLOCKS, gc_epoch_length := DEFAULT_EPOCH_LENGTH,
     gc_jail_duration_blocks := DEFAULT_JAIL_DURATION_BLOCKS, gc_allocations := lgc_allocations v\<rparr>"

definition account_from_legacy :: "legacy_account_state \<Rightarrow> account_state" where
  "account_from_legacy v = \<lparr>acc_balance = las_balance v, acc_nonce = las_nonce v, acc_staked_balance = las_staked_balance v,
     acc_pending_unstakes = [], acc_validator_active_from_height = 0, acc_jailed_until_height = 0,
     acc_public_key = las_public_key v\<rparr>"

definition tx_into_current :: "string \<Rightarrow> legacy_transaction \<Rightarrow> transaction" where
  "tx_into_current chain_id v = \<lparr>tx_chain_id = chain_id, tx_kind = ltx_kind v, tx_from = ltx_from v,
     tx_sender_public_key = ltx_sender_public_key v, tx_to = ltx_to v, tx_amount = ltx_amount v, tx_fee = ltx_fee v,
     tx_max_fee_per_gas = ltx_fee v, tx_max_priority_fee_per_gas = ltx_fee v, tx_nonce = ltx_nonce v,
     tx_timestamp = ltx_timestamp v, tx_signature = ltx_signature v, tx_gas_limit = 0, tx_data = [], tx_evm_raw_tx = []\<rparr>"

definition block_into_current :: "string \<Rightarrow> legacy_block \<Rightarrow> block" where
  "block_into_current chain_id v = \<lparr>blk_header = lbk_header v,
     blk_transactions = map (tx_into_current chain_id) (lbk_transactions v), blk_hash = lbk_hash v,
     blk_signature = lbk_signature v\<rparr>"

text \<open>The current format first, the legacy one when it does not decode.\<close>
definition decode_compat :: "'a codec \<Rightarrow> (bytes \<Rightarrow> string + 'b) \<Rightarrow> ('b \<Rightarrow> 'a) \<Rightarrow> bytes \<Rightarrow> string + 'a" where
  "decode_compat C legacy conv data = (case cd_dec C data of
     Inr v \<Rightarrow> Inr v
   | Inl _ \<Rightarrow> (case legacy data of Inl e \<Rightarrow> Inl e | Inr v \<Rightarrow> Inr (conv v)))"

section \<open>Tables\<close>

type_synonym table = "bytes \<rightharpoonup> bytes"

record storage_db =
  tb_blocks :: table
  tb_accounts :: table
  tb_meta :: table
  tb_pending :: table
  tb_evidence :: table
  tb_epochs :: table
  tb_contracts :: table
  tb_receipts :: table
  tb_manifests :: table
  tb_chunks :: table

text \<open>\<open>initialize_tables\<close> of a new database.\<close>
definition empty_db :: storage_db where
  "empty_db = \<lparr>tb_blocks = Map.empty, tb_accounts = Map.empty, tb_meta = Map.empty, tb_pending = Map.empty,
     tb_evidence = Map.empty, tb_epochs = Map.empty, tb_contracts = Map.empty, tb_receipts = Map.empty,
     tb_manifests = Map.empty, tb_chunks = Map.empty\<rparr>"

definition table_insert :: "'a codec \<Rightarrow> bytes \<Rightarrow> 'a \<Rightarrow> table \<Rightarrow> storage_error + table" where
  "table_insert C k v t = (case cd_enc C v of Inl e \<Rightarrow> Inl (Serialize e) | Inr d \<Rightarrow> Inr (t(k \<mapsto> d)))"

fun table_insert_all :: "'a codec \<Rightarrow> (bytes \<times> 'a) list \<Rightarrow> table \<Rightarrow> storage_error + table" where
  "table_insert_all C [] t = Inr t"
| "table_insert_all C ((k, v) # rest) t = (case table_insert C k v t of Inl e \<Rightarrow> Inl e | Inr t' \<Rightarrow> table_insert_all C rest t')"

text \<open>\<open>retain(false)\<close>, then one insert per entry.\<close>
definition table_replace :: "'a codec \<Rightarrow> (bytes \<times> 'a) list \<Rightarrow> storage_error + table" where
  "table_replace C kvs = table_insert_all C kvs Map.empty"

definition table_get :: "(bytes \<Rightarrow> string + 'a) \<Rightarrow> table \<Rightarrow> bytes \<Rightarrow> storage_error + 'a option" where
  "table_get dec t k = (case t k of
     None \<Rightarrow> Inr None
   | Some d \<Rightarrow> (case dec d of Inl e \<Rightarrow> Inl (Serialize e) | Inr v \<Rightarrow> Inr (Some v)))"

fun decode_entries :: "(bytes \<Rightarrow> string + 'a) \<Rightarrow> (bytes \<times> bytes) list \<Rightarrow> storage_error + (bytes \<times> 'a) list" where
  "decode_entries dec [] = Inr []"
| "decode_entries dec ((k, d) # rest) = (case dec d of
     Inl e \<Rightarrow> Inl (Serialize e)
   | Inr v \<Rightarrow> (case decode_entries dec rest of Inl e \<Rightarrow> Inl e | Inr kvs \<Rightarrow> Inr ((k, v) # kvs)))"

text \<open>An iteration over a table, in key order, that stops at the first value that does not decode.\<close>
definition table_all :: "(bytes \<Rightarrow> string + 'a) \<Rightarrow> table \<Rightarrow> storage_error + (bytes \<times> 'a) list" where
  "table_all dec t = decode_entries dec (entries t)"

section \<open>Blocks\<close>

definition SCHEMA_VERSION_KEY :: bytes where "SCHEMA_VERSION_KEY = ascii ''schema_version''"
definition CURRENT_SCHEMA_VERSION :: u64 where "CURRENT_SCHEMA_VERSION = 4"
definition TOKEN_REGISTRY_KEY :: bytes where "TOKEN_REGISTRY_KEY = ascii ''token_registry''"
definition GOVERNANCE_STATE_KEY :: bytes where "GOVERNANCE_STATE_KEY = ascii ''governance_state''"

definition put_block :: "bincode \<Rightarrow> storage_db \<Rightarrow> block \<Rightarrow> storage_error + storage_db" where
  "put_block Bc db b =
     (let key = u64_be (blk_height b)
      in case table_insert (bin_block Bc) key b (tb_blocks db) of
           Inl e \<Rightarrow> Inl e
         | Inr t \<Rightarrow> Inr (db\<lparr>tb_blocks := t, tb_meta := (tb_meta db)(HEIGHT_KEY \<mapsto> key)\<rparr>))"

definition get_block :: "bincode \<Rightarrow> storage_db \<Rightarrow> u64 \<Rightarrow> storage_error + block option" where
  "get_block Bc db h = table_get (cd_dec (bin_block Bc)) (tb_blocks db) (u64_be h)"

definition get_block_compat :: "bincode \<Rightarrow> storage_db \<Rightarrow> u64 \<Rightarrow> string \<Rightarrow> storage_error + block option" where
  "get_block_compat Bc db h chain_id =
     table_get (decode_compat (bin_block Bc) (bin_legacy_block Bc) (block_into_current chain_id)) (tb_blocks db) (u64_be h)"

text \<open>The one encoding written by hand: \<open>to_be_bytes\<close> and \<open>from_be_bytes\<close> after a length check.\<close>
definition be_codec :: "string \<Rightarrow> u64 codec" where
  "be_codec msg = \<lparr>cd_enc = (\<lambda>h. Inr (u64_be h)),
     cd_dec = (\<lambda>d. if length d = 8 then Inr (from_le (rev d)) else Inl msg)\<rparr>"

definition get_height :: "storage_db \<Rightarrow> storage_error + u64 option" where
  "get_height db = table_get (cd_dec (be_codec ''invalid height bytes'')) (tb_meta db) HEIGHT_KEY"

definition replace_blocks :: "bincode \<Rightarrow> storage_db \<Rightarrow> block list \<Rightarrow> storage_error + storage_db" where
  "replace_blocks Bc db blocks =
     (case table_replace (bin_block Bc) (map (\<lambda>b. (u64_be (blk_height b), b)) blocks) of
        Inl e \<Rightarrow> Inl e
      | Inr t \<Rightarrow> Inr (db\<lparr>tb_blocks := t,
          tb_meta := (tb_meta db)(HEIGHT_KEY := (if blocks = [] then None else Some (u64_be (blk_height (last blocks)))))\<rparr>))"

section \<open>Accounts, contracts, receipts, pending transactions\<close>

definition put_account :: "bincode \<Rightarrow> storage_db \<Rightarrow> bytes \<Rightarrow> account_state \<Rightarrow> storage_error + storage_db" where
  "put_account Bc db address state = (case table_insert (bin_account Bc) address state (tb_accounts db) of
     Inl e \<Rightarrow> Inl e | Inr t \<Rightarrow> Inr (db\<lparr>tb_accounts := t\<rparr>))"

definition replace_accounts :: "bincode \<Rightarrow> storage_db \<Rightarrow> accounts \<Rightarrow> storage_error + storage_db" where
  "replace_accounts Bc db accs = (case table_replace (bin_account Bc) (entries accs) of
     Inl e \<Rightarrow> Inl e | Inr t \<Rightarrow> Inr (db\<lparr>tb_accounts := t\<rparr>))"

definition storage_get_account :: "bincode \<Rightarrow> storage_db \<Rightarrow> bytes \<Rightarrow> storage_error + account_state option" where
  "storage_get_account Bc db address = table_get (cd_dec (bin_account Bc)) (tb_accounts db) address"

definition get_account_compat :: "bincode \<Rightarrow> storage_db \<Rightarrow> bytes \<Rightarrow> storage_error + account_state option" where
  "get_account_compat Bc db address =
     table_get (decode_compat (bin_account Bc) (bin_legacy_account Bc) account_from_legacy) (tb_accounts db) address"

definition get_all_accounts :: "bincode \<Rightarrow> storage_db \<Rightarrow> storage_error + (bytes \<times> account_state) list" where
  "get_all_accounts Bc db = table_all (cd_dec (bin_account Bc)) (tb_accounts db)"

definition get_all_accounts_compat :: "bincode \<Rightarrow> storage_db \<Rightarrow> storage_error + (bytes \<times> account_state) list" where
  "get_all_accounts_compat Bc db =
     table_all (decode_compat (bin_account Bc) (bin_legacy_account Bc) account_from_legacy) (tb_accounts db)"

definition replace_pending_transactions :: "externs \<Rightarrow> bincode \<Rightarrow> storage_db \<Rightarrow> transaction list \<Rightarrow> storage_error + storage_db" where
  "replace_pending_transactions X Bc db txs = (case table_replace (bin_transaction Bc) (map (\<lambda>tx. (tx_hash X tx, tx)) txs) of
     Inl e \<Rightarrow> Inl e | Inr t \<Rightarrow> Inr (db\<lparr>tb_pending := t\<rparr>))"

text \<open>Pending transactions are read back in the order of time and nonce.\<close>
definition pending_from :: "(bytes \<Rightarrow> string + transaction) \<Rightarrow> table \<Rightarrow> storage_error + transaction list" where
  "pending_from dec t = (case table_all dec t of
     Inl e \<Rightarrow> Inl e | Inr kvs \<Rightarrow> Inr (sort_key (\<lambda>tx. (tx_timestamp tx, tx_nonce tx)) (map snd kvs)))"

definition get_all_pending_transactions :: "bincode \<Rightarrow> storage_db \<Rightarrow> storage_error + transaction list" where
  "get_all_pending_transactions Bc db = pending_from (cd_dec (bin_transaction Bc)) (tb_pending db)"

definition get_all_pending_transactions_compat :: "bincode \<Rightarrow> storage_db \<Rightarrow> string \<Rightarrow> storage_error + transaction list" where
  "get_all_pending_transactions_compat Bc db chain_id =
     pending_from (decode_compat (bin_transaction Bc) (bin_legacy_transaction Bc) (tx_into_current chain_id)) (tb_pending db)"

definition replace_contracts :: "bincode \<Rightarrow> storage_db \<Rightarrow> contracts \<Rightarrow> storage_error + storage_db" where
  "replace_contracts Bc db cs = (case table_replace (bin_contract Bc) (entries cs) of
     Inl e \<Rightarrow> Inl e | Inr t \<Rightarrow> Inr (db\<lparr>tb_contracts := t\<rparr>))"

definition get_all_contracts :: "bincode \<Rightarrow> storage_db \<Rightarrow> storage_error + (bytes \<times> contract_state) list" where
  "get_all_contracts Bc db = table_all (cd_dec (bin_contract Bc)) (tb_contracts db)"

definition replace_receipts :: "bincode \<Rightarrow> storage_db \<Rightarrow> (bytes \<rightharpoonup> receipt) \<Rightarrow> storage_error + storage_db" where
  "replace_receipts Bc db rs = (case table_replace (bin_receipt Bc) (entries rs) of
     Inl e \<Rightarrow> Inl e | Inr t \<Rightarrow> Inr (db\<lparr>tb_receipts := t\<rparr>))"

definition get_all_receipts :: "bincode \<Rightarrow> storage_db \<Rightarrow> storage_error + (bytes \<times> receipt) list" where
  "get_all_receipts Bc db = table_all (cd_dec (bin_receipt Bc)) (tb_receipts db)"

section \<open>Slashing evidence and metadata\<close>

definition put_evidence :: "bincode \<Rightarrow> storage_db \<Rightarrow> equivocation_evidence \<Rightarrow> storage_error + storage_db" where
  "put_evidence Bc db ev = (case table_insert (bin_evidence Bc) (evidence_key ev) ev (tb_evidence db) of
     Inl e \<Rightarrow> Inl e | Inr t \<Rightarrow> Inr (db\<lparr>tb_evidence := t\<rparr>))"

definition get_all_evidence :: "bincode \<Rightarrow> storage_db \<Rightarrow> storage_error + equivocation_evidence list" where
  "get_all_evidence Bc db = (case table_all (cd_dec (bin_evidence Bc)) (tb_evidence db) of
     Inl e \<Rightarrow> Inl e | Inr kvs \<Rightarrow> Inr (map snd kvs))"

text \<open>The key of the validator an entry of the evidence table accuses, in either format.\<close>
definition accused_key :: "bincode \<Rightarrow> bytes \<Rightarrow> string + bytes" where
  "accused_key Bc data = (case cd_dec (bin_evidence Bc) data of
     Inr ev \<Rightarrow> Inr (ev_validator_public_key ev)
   | Inl _ \<Rightarrow> (case bin_legacy_evidence Bc data of Inl e \<Rightarrow> Inl e | Inr ev \<Rightarrow> Inr (lev_validator_public_key ev)))"

definition get_slashed_addresses :: "externs \<Rightarrow> bincode \<Rightarrow> storage_db \<Rightarrow> storage_error + bytes set" where
  "get_slashed_addresses X Bc db = (case table_all (accused_key Bc) (tb_evidence db) of
     Inl e \<Rightarrow> Inl e | Inr kvs \<Rightarrow> Inr (set (map (address_bytes_from_public_key X \<circ> snd) kvs)))"

definition put_meta :: "'a codec \<Rightarrow> storage_db \<Rightarrow> bytes \<Rightarrow> 'a \<Rightarrow> storage_error + storage_db" where
  "put_meta C db key v = (case table_insert C key v (tb_meta db) of Inl e \<Rightarrow> Inl e | Inr t \<Rightarrow> Inr (db\<lparr>tb_meta := t\<rparr>))"

definition get_meta :: "'a codec \<Rightarrow> storage_db \<Rightarrow> bytes \<Rightarrow> storage_error + 'a option" where
  "get_meta C db key = table_get (cd_dec C) (tb_meta db) key"

definition get_schema_version :: "bincode \<Rightarrow> storage_db \<Rightarrow> storage_error + u64 option" where
  "get_schema_version Bc db = get_meta (bin_u64 Bc) db SCHEMA_VERSION_KEY"

definition get_genesis_config_compat :: "bincode \<Rightarrow> storage_db \<Rightarrow> bytes \<Rightarrow> storage_error + genesis_config option" where
  "get_genesis_config_compat Bc db key =
     table_get (decode_compat (bin_config Bc) (bin_legacy_config Bc) config_from_legacy) (tb_meta db) key"

section \<open>Epochs and snapshots\<close>

definition put_epoch_snapshot :: "bincode \<Rightarrow> storage_db \<Rightarrow> u64 \<Rightarrow> epoch_snapshot \<Rightarrow> storage_error + storage_db" where
  "put_epoch_snapshot Bc db epoch snapshot = (case table_insert (bin_epoch Bc) (u64_be epoch) snapshot (tb_epochs db) of
     Inl e \<Rightarrow> Inl e | Inr t \<Rightarrow> Inr (db\<lparr>tb_epochs := t\<rparr>))"

definition replace_epoch_snapshots :: "bincode \<Rightarrow> storage_db \<Rightarrow> (u64 \<rightharpoonup> epoch_snapshot) \<Rightarrow> storage_error + storage_db" where
  "replace_epoch_snapshots Bc db snapshots =
     (case table_replace (bin_epoch Bc) (map (\<lambda>(epoch, s). (u64_be epoch, s)) (entries snapshots)) of
        Inl e \<Rightarrow> Inl e | Inr t \<Rightarrow> Inr (db\<lparr>tb_epochs := t\<rparr>))"

definition get_epoch_snapshot :: "bincode \<Rightarrow> storage_db \<Rightarrow> u64 \<Rightarrow> storage_error + epoch_snapshot option" where
  "get_epoch_snapshot Bc db epoch = table_get (cd_dec (bin_epoch Bc)) (tb_epochs db) (u64_be epoch)"

fun epochs_of :: "bincode \<Rightarrow> (bytes \<times> bytes) list \<Rightarrow> storage_error + (u64 \<times> epoch_snapshot) list" where
  "epochs_of Bc [] = Inr []"
| "epochs_of Bc ((k, d) # rest) = (case cd_dec (be_codec ''invalid epoch key'') k of
     Inl e \<Rightarrow> Inl (Serialize e)
   | Inr epoch \<Rightarrow> (case cd_dec (bin_epoch Bc) d of
       Inl e \<Rightarrow> Inl (Serialize e)
     | Inr s \<Rightarrow> (case epochs_of Bc rest of Inl e \<Rightarrow> Inl e | Inr es \<Rightarrow> Inr ((epoch, s) # es))))"

definition get_all_epoch_snapshots :: "bincode \<Rightarrow> storage_db \<Rightarrow> storage_error + (u64 \<times> epoch_snapshot) list" where
  "get_all_epoch_snapshots Bc db = epochs_of Bc (entries (tb_epochs db))"

definition put_snapshot_manifest :: "bincode \<Rightarrow> storage_db \<Rightarrow> u64 \<Rightarrow> snapshot_manifest \<Rightarrow> storage_error + storage_db" where
  "put_snapshot_manifest Bc db h manifest = (case table_insert (bin_manifest Bc) (u64_be h) manifest (tb_manifests db) of
     Inl e \<Rightarrow> Inl e | Inr t \<Rightarrow> Inr (db\<lparr>tb_manifests := t\<rparr>))"

definition get_latest_snapshot_manifest :: "bincode \<Rightarrow> storage_db \<Rightarrow> storage_error + snapshot_manifest option" where
  "get_latest_snapshot_manifest Bc db =
     (if entries (tb_manifests db) = [] then Inr None
      else case cd_dec (bin_manifest Bc) (snd (last (entries (tb_manifests db)))) of
        Inl e \<Rightarrow> Inl (Serialize e) | Inr m \<Rightarrow> Inr (Some m))"

definition chunk_key :: "u64 \<Rightarrow> nat \<Rightarrow> bytes" where
  "chunk_key h index = u64_be h @ u64_be (of_nat index)"

definition put_snapshot_chunk :: "bincode \<Rightarrow> storage_db \<Rightarrow> u64 \<Rightarrow> state_chunk \<Rightarrow> nat option \<Rightarrow> storage_error + storage_db" where
  "put_snapshot_chunk Bc db h chunk expected_chunk_count =
     (if case expected_chunk_count of Some n \<Rightarrow> ch_index chunk \<ge> n | None \<Rightarrow> False
      then Inl (Serialize ''chunk index exceeds expected count'')
      else case table_insert (bin_chunk Bc) (chunk_key h (ch_index chunk)) chunk (tb_chunks db) of
        Inl e \<Rightarrow> Inl e | Inr t \<Rightarrow> Inr (db\<lparr>tb_chunks := t\<rparr>))"

definition storage_snapshot_chunks :: "bincode \<Rightarrow> storage_db \<Rightarrow> u64 \<Rightarrow> storage_error + state_chunk list" where
  "storage_snapshot_chunks Bc db h =
     (case decode_entries (cd_dec (bin_chunk Bc)) (filter (\<lambda>(k, _). take 8 k = u64_be h) (entries (tb_chunks db))) of
        Inl e \<Rightarrow> Inl e | Inr kvs \<Rightarrow> Inr (sort_key ch_index (map snd kvs)))"

definition get_snapshot_chunk :: "bincode \<Rightarrow> storage_db \<Rightarrow> u64 \<Rightarrow> nat \<Rightarrow> storage_error + state_chunk option" where
  "get_snapshot_chunk Bc db h index = table_get (cd_dec (bin_chunk Bc)) (tb_chunks db) (chunk_key h index)"

section \<open>The contract of an encoding\<close>

definition enc_of :: "'a codec \<Rightarrow> 'a \<Rightarrow> bytes" where
  "enc_of C v = (case cd_enc C v of Inr d \<Rightarrow> d)"

text \<open>A table that holds the encoded values of a map.\<close>
abbreviation table_of :: "'a codec \<Rightarrow> (bytes \<rightharpoonup> 'a) \<Rightarrow> table" where
  "table_of C m \<equiv> (\<lambda>k. map_option (enc_of C) (m k))"

lemma entries_enc: "entries (table_of C m) = map (\<lambda>(k, v). (k, enc_of C v)) (entries m)"
proof -
  have "dom (table_of C m) = dom m" by (auto simp: dom_def)
  moreover have "set (sorted_list_of_set S) \<subseteq> S" for S :: "bytes set" by (cases "finite S") auto
  ultimately show ?thesis by (fastforce simp: entries_def)
qed

lemma entries_ran: "snd ` set (entries m) \<subseteq> ran m"
  by (cases "finite (dom m)") (auto simp: in_entries_iff ran_def entries_def)

text \<open>An encoding that gives back the values \<open>V\<close>.\<close>
locale serializer =
  fixes C :: "'a codec" and V :: "'a set"
  assumes roundtrip: "v \<in> V \<Longrightarrow> \<exists>d. cd_enc C v = Inr d \<and> cd_dec C d = Inr v"
begin

lemma enc_dec [simp]: "v \<in> V \<Longrightarrow> cd_enc C v = Inr (enc_of C v)" "v \<in> V \<Longrightarrow> cd_dec C (enc_of C v) = Inr v"
  using roundtrip [of v] by (auto simp: enc_of_def)

lemma compat [simp]: "v \<in> V \<Longrightarrow> decode_compat C legacy conv (enc_of C v) = Inr v"
  by (simp add: decode_compat_def)

lemma insert_Inr [simp]: "v \<in> V \<Longrightarrow> table_insert C k v t = Inr (t(k \<mapsto> enc_of C v))"
  by (simp add: table_insert_def)

lemma insert_all: "snd ` set kvs \<subseteq> V \<Longrightarrow> table_insert_all C kvs t = Inr (t ++ table_of C (map_of (rev kvs)))"
  by (induction kvs arbitrary: t) (auto simp: fun_eq_iff map_add_def split: option.split)

lemma replace:
  assumes "distinct (map fst kvs)" "snd ` set kvs \<subseteq> V"
  shows "table_replace C kvs = Inr (table_of C (map_of kvs))"
proof -
  have "map_of (rev kvs) = map_of kvs" using assms(1) by (simp add: map_of_inject_set rev_map [symmetric])
  then show ?thesis by (simp add: table_replace_def insert_all assms(2))
qed

lemma get:
  "ran m \<subseteq> V \<Longrightarrow> table_get (cd_dec C) (table_of C m) k = Inr (m k)"
  "t k = Some (enc_of C v) \<Longrightarrow> v \<in> V \<Longrightarrow> table_get (cd_dec C) t k = Inr (Some v)"
  "t k = Some (enc_of C v) \<Longrightarrow> v \<in> V \<Longrightarrow> table_get (decode_compat C legacy conv) t k = Inr (Some v)"
  by (auto simp: table_get_def ranI subset_iff split: option.split)

lemma decode_list:
  "snd ` set kvs \<subseteq> V \<Longrightarrow> decode_entries (cd_dec C) (map (\<lambda>(k, v). (k, enc_of C v)) kvs) = Inr kvs"
  "snd ` set kvs \<subseteq> V \<Longrightarrow> decode_entries (decode_compat C legacy conv) (map (\<lambda>(k, v). (k, enc_of C v)) kvs) = Inr kvs"
  by (induction kvs) auto

lemma all:
  assumes "ran m \<subseteq> V"
  shows "table_all (cd_dec C) (table_of C m) = Inr (entries m)"
    "table_all (decode_compat C legacy conv) (table_of C m) = Inr (entries m)"
  unfolding table_all_def entries_enc using entries_ran [of m] assms by (auto intro!: decode_list)

end

interpretation be_key: serializer "be_codec msg" UNIV for msg
  by unfold_locales (simp add: be_codec_def u64_be_def from_le_le_bytes take_bit_word_eq_self)

lemma serializer_mono: "serializer C V \<Longrightarrow> W \<subseteq> V \<Longrightarrow> serializer C W"
  by (auto simp: serializer_def)

text \<open>A table, and an entry of a table, that can be read back.\<close>
definition readable :: "'a codec \<Rightarrow> table \<Rightarrow> bool" where
  "readable C t \<longleftrightarrow> (\<exists>m. t = table_of C m \<and> serializer C (ran m))"

definition holds_value :: "'a codec \<Rightarrow> table \<Rightarrow> bytes \<Rightarrow> bool" where
  "holds_value C t k \<longleftrightarrow> (\<exists>v. t k = Some (enc_of C v) \<and> serializer C {v})"

lemma readable_all:
  assumes "readable C t"
  shows "\<exists>kvs. table_all (cd_dec C) t = Inr kvs" "\<exists>kvs. table_all (decode_compat C legacy conv) t = Inr kvs"
  using assms serializer.all [OF _ subset_refl] by (fastforce simp: readable_def)+

lemma readable_get: "holds_value C t k \<Longrightarrow> \<exists>v. table_get (cd_dec C) t k = Inr (Some v)"
  by (auto simp: holds_value_def dest: serializer.get(2))

lemma holds_value_upd [simp]:
  "serializer C {v} \<Longrightarrow> holds_value C (t(k \<mapsto> enc_of C v)) k" "k \<noteq> k' \<Longrightarrow> holds_value C (t(k' := x)) k = holds_value C t k"
  by (auto simp: holds_value_def)

lemma replace_readable:
  assumes "serializer C (snd ` set kvs)"
  shows "\<exists>t. table_replace C kvs = Inr t \<and> readable C t"
proof -
  have "ran (map_of (rev kvs)) \<subseteq> snd ` set kvs" by (auto simp: ran_def dest!: map_of_SomeD intro: rev_image_eqI)
  then show ?thesis
    using serializer.insert_all [OF assms subset_refl, of Map.empty] serializer_mono [OF assms]
    by (auto simp: table_replace_def readable_def)
qed

end
