(* ===== verification/Finite_State.thy ===== *)
theory Finite_State
  imports Replay
begin

text \<open>
  The maps of a chain are finite: the \<^verbatim>\<open>HashMap\<close>s of the node are modelled as maps, and every operation that builds a chain from genesis
  keeps their domains finite, given that an EVM transaction touches finitely many accounts.
\<close>

definition evm_finite :: "externs \<Rightarrow> bool" where
  "evm_finite X \<longleftrightarrow> (\<forall>env st tx r st'. x_revm_transact X env st tx = Inr (r, st') \<longrightarrow> finite (dom st'))"

definition finite_ledger :: "ledger \<Rightarrow> bool" where
  "finite_ledger L \<longleftrightarrow> finite (dom (lg_accounts L)) \<and> finite (dom (lg_contracts L)) \<and> finite (dom (lg_receipts L))"

lemma finite_ledger_upd [simp]:
  "finite_ledger L \<Longrightarrow> finite (dom a) \<Longrightarrow> finite_ledger (L\<lparr>lg_accounts := a\<rparr>)"
  "finite_ledger L \<Longrightarrow> finite (dom k) \<Longrightarrow> finite_ledger (L\<lparr>lg_contracts := k\<rparr>)"
  "finite_ledger L \<Longrightarrow> finite (dom r) \<Longrightarrow> finite_ledger (L\<lparr>lg_receipts := r\<rparr>)"
  "finite_ledger L \<Longrightarrow> finite_ledger (L\<lparr>lg_tokens := tk\<rparr>)" "finite_ledger L \<Longrightarrow> finite_ledger (L\<lparr>lg_governance := gv\<rparr>)"
  by (simp_all add: finite_ledger_def)

lemma finite_ledger_dom [simp]:
  "finite_ledger L \<Longrightarrow> finite (dom (lg_accounts L))" "finite_ledger L \<Longrightarrow> finite (dom (lg_contracts L))"
  "finite_ledger L \<Longrightarrow> finite (dom (lg_receipts L))"
  by (simp_all add: finite_ledger_def)

lemma on_accounts_finite: "finite (dom st) \<Longrightarrow> finite (dom (on_accounts f st))"
  by (rule finite_subset [of _ "dom st"]) (auto simp: on_accounts_def split: option.splits)

lemma finish_execution_finite:
  assumes "finish_execution X r st seed cr = Inr out" "finite (dom st)"
  shows "finite (dom (eo_account_updates out))" "finite (dom (eo_contracts_created out))"
  using assms on_accounts_finite [OF assms(2)]
  by (auto simp: finish_execution_def Let_def split: evm_result.splits evm_output.splits)

lemma merge_finite:
  assumes "finish_execution X r st seed cr = Inr out" "finite (dom st)" "finite (dom accs)" "finite (dom cons)"
  shows "finite (dom (merge_accounts out accs))" "finite (dom (merge_contracts out cons))"
proof -
  note f = finish_execution_finite [OF assms(1,2)]
  have "dom (merge_accounts out accs) \<subseteq> dom (eo_account_updates out) \<union> dom accs"
    "dom (merge_contracts out cons) \<subseteq> dom (eo_contracts_created out) \<union> dom cons"
    by (auto simp: merge_accounts_def merge_contracts_def split: option.splits)
  then show "finite (dom (merge_accounts out accs))" "finite (dom (merge_contracts out cons))"
    using f assms(3,4) by (meson finite_Un finite_subset)+
qed

lemma evm_apply_finite:
  assumes "evm_finite X" "finite (dom accs)" "finite (dom cons)"
    and "apply_evm_deploy X accs cons tx h base = Inr (out, accs', cons') \<or> apply_evm_call X accs cons tx h base = Inr (out, accs', cons')"
  shows "finite (dom accs')" "finite (dom cons')"
proof -
  obtain r st seed cr where "finish_execution X r st seed cr = Inr out" "finite (dom st)"
    "(accs', cons') = merge_evm_outcome accs cons out"
    using assms(1,4)
    by (auto simp: apply_evm_deploy_def apply_evm_call_def evm_deploy_def evm_call_def evm_transact_def Let_def evm_finite_def
        split: sum.splits if_splits prod.splits)
  then show "finite (dom accs')" "finite (dom cons')" using merge_finite assms(2,3) by (auto simp: merge_evm_outcome_def)
qed

lemma execute_kind_finite:
  assumes "evm_finite X" "finite_ledger L" "execute_kind X L tx h el ms base = Inr (g, rc, L')"
  shows "finite_ledger L'"
proof -
  have "finite_ledger (L\<lparr>lg_accounts := a, lg_contracts := k\<rparr>)"
    if "apply_evm_deploy X (lg_accounts L) (lg_contracts L) tx h base = Inr (out, a, k)
      \<or> apply_evm_call X (lg_accounts L) (lg_contracts L) tx h base = Inr (out, a, k)" for out a k
    using evm_apply_finite [OF assms(1) _ _ that] assms(2) by simp
  then show ?thesis
    using assms(2,3) by (auto simp: execute_kind_def split: transaction_kind.splits sum.splits option.splits prod.splits if_splits)
qed

lemma settle_fees_finite: "finite_ledger L \<Longrightarrow> finite_ledger (snd (settle_fees X L tx g rc base))"
  by (auto simp: settle_fees_def Let_def split: sum.splits option.splits)

lemma user_transaction_finite:
  assumes "evm_finite X" "finite_ledger L"
  shows "finite_ledger (snd (apply_user_transaction X L tx h d el ms base))"
proof -
  have acc: "finite_ledger (L\<lparr>lg_accounts := (lg_accounts L)(a \<mapsto> s)\<rparr>)" for a s using assms(2) by simp
  have run: "finite_ledger (snd (case execute_kind X L1 tx h el ms base of Inl e \<Rightarrow> (Inl e, L1)
      | Inr (g, rc, L2) \<Rightarrow> settle_fees X L2 tx g rc base))" if "finite_ledger L1" for L1
    using execute_kind_finite [OF assms(1) that, of tx h el ms base] that by (auto simp: settle_fees_finite split: sum.split)
  obtain err s where c: "charge_sender tx (account_of (lg_accounts L) (tx_from tx)) h d el ms = (err, s)" by fastforce
  show ?thesis
  proof (cases err)
    case None
    show ?thesis
      unfolding apply_user_transaction_def Let_def c None using run [OF acc [of "tx_from tx" s]] assms(2)
      by (auto split: sum.splits)
  next
    case (Some e)
    then show ?thesis unfolding apply_user_transaction_def Let_def c using acc assms(2) by (auto split: sum.splits)
  qed
qed

lemma validate_transactions_finite:
  assumes "evm_finite X" "validate_transactions X c h base i txs st = Inr st'" "finite_ledger (bp_ledger st)"
  shows "finite_ledger (bp_ledger st')"
  using assms(2,3)
proof (induction txs arbitrary: i st)
  case (Cons tx txs)
  note step = Cons.prems(1) [unfolded validate_transactions_Cons_iff]
  show ?case
  proof (cases "is_coinbase tx")
    case True
    then show ?thesis using step Cons.IH [of "Suc i" "opened X tx st"] Cons.prems(2) by (auto simp: opened_def)
  next
    case False
    then obtain g L where a: "apply_in_block X c (bp_ledger st) tx h base = (Inr g, L)"
      and v: "validate_transactions X c h base (Suc i) txs (executed X base tx g L st) = Inr st'"
      using step by auto
    have "finite_ledger L" using user_transaction_finite [OF assms(1) Cons.prems(2)] a by (metis snd_conv)
    then show ?thesis using Cons.IH [OF v] by (simp add: executed_def)
  qed
qed simp

lemma validated_finite:
  assumes "evm_finite X" "validate_block_against_state X c now b parent accs cons tok gov = Inr ex"
    and "finite (dom accs)" "finite (dom cons)"
  shows "finite_ledger ex"
proof -
  obtain st where st: "validate_transactions X c (blk_height b) (hdr_base_fee_per_gas (blk_header b)) 0 (blk_transactions b)
       (block_start b accs cons tok gov) = Inr st" "finish_block X c b st = Inr ex"
    using validate_block_ok [OF assms(2)] by blast
  have "dom (apply_unstake_unlocks accs h) = dom accs" for h by (auto simp: apply_unstake_unlocks_def)
  then have "finite_ledger (bp_ledger (block_start b accs cons tok gov))"
    using assms(3,4) by (simp add: block_start_def finite_ledger_def)
  then have "finite_ledger (bp_ledger st)" using validate_transactions_finite [OF assms(1) st(1)] by simp
  then show ?thesis
    using st(2) by (auto simp: finish_block_def apply_coinbase_transaction_def Let_def split: option.splits sum.splits if_splits prod.splits)
qed

text \<open>The maps of a chain.\<close>
definition finite_chain :: "blockchain \<Rightarrow> bool" where
  "finite_chain c \<longleftrightarrow> finite (dom (bc_accounts c)) \<and> finite (dom (bc_contracts c)) \<and> finite (dom (bc_receipts c))
     \<and> finite (dom (bc_epoch_snapshots c)) \<and> finite (dom (bc_validator_missed_epochs c))"

lemma fold_dom_finite:
  "(\<And>x m. x \<in> set xs \<Longrightarrow> finite (dom m) \<Longrightarrow> finite (dom (f x m))) \<Longrightarrow> finite (dom m) \<Longrightarrow> finite (dom (fold f xs m))"
  by (induction xs arbitrary: m) auto

lemma settlement_finite:
  assumes "finite (dom accs)" "finite (dom missed)" "apply_epoch_settlement_for_block h el snaps prods accs missed = (accs', missed')"
  shows "finite (dom accs')" "finite (dom missed')"
proof -
  have "finite (dom (apply_epoch_settlement s accs))" for s
    unfolding apply_epoch_settlement_def using assms(1)
    by (intro fold_dom_finite) (auto simp: apply_reward_def apply_penalty_def Let_def split: option.splits)
  moreover have "finite (dom (update_missed pr vs missed))" for pr vs
    unfolding update_missed_def using assms(2) by (intro fold_dom_finite) auto
  ultimately show "finite (dom accs')" "finite (dom missed')"
    using assms by (auto simp: apply_epoch_settlement_for_block_def Let_def split: if_splits option.splits)
qed

lemma settle_finite:
  assumes "finite_chain c"
  shows "finite_chain (settle_before_block X c h)"
proof -
  let ?c1 = "ensure_epoch_snapshot c h (bc_accounts c)"
  have c1: "finite_chain ?c1" using assms by (simp add: finite_chain_def ensure_epoch_snapshot_def create_epoch_snapshot_from_accounts_def)
  obtain accs missed where s: "apply_epoch_settlement_for_block h (bc_epoch_length ?c1) (bc_epoch_snapshots ?c1)
      (proposer_addresses_for_settling_epoch X ?c1 h) (bc_accounts ?c1) (bc_validator_missed_epochs ?c1) = (accs, missed)" by fastforce
  show ?thesis
    using c1 settlement_finite [OF _ _ s] s by (simp add: settle_before_block_def Let_def finite_chain_def)
qed

lemma add_block_finite:
  assumes "evm_finite X" "add_block X now c b = (Inr (), c')" "finite_chain c"
  shows "finite_chain c'"
proof -
  let ?c1 = "settle_before_block X c (blk_height b)"
  obtain prev ex where v: "validate_block_against_state X ?c1 now b prev (bc_accounts ?c1) (bc_contracts ?c1) (bc_token_registry ?c1) (bc_governance ?c1) = Inr ex"
    and c': "c' = commit_block X ?c1 b ex"
    using add_block_ok [OF assms(2)] by (auto simp: Let_def)
  have f: "finite_chain ?c1" by (rule settle_finite [OF assms(3)])
  then have "finite_ledger ex" using validated_finite [OF assms(1) v] by (simp add: finite_chain_def)
  then show ?thesis using f unfolding c' by (simp add: finite_chain_def commit_block_rest)
qed

lemma genesis_accounts_finite:
  assumes "accounts_from_genesis X gc = Inr accs"
  shows "finite (dom accs)"
proof -
  have "finite (dom accs')" if "genesis_accounts_loop X ms allocs accs = Inr accs'" "finite (dom accs)" for ms allocs accs accs'
    using that by (induction X ms allocs accs rule: genesis_accounts_loop.induct) (auto simp: Let_def split: sum.splits if_splits option.splits)
  then show ?thesis using assms by (simp add: accounts_from_genesis_def)
qed

lemma genesis_finite: "from_genesis X gc = Inr c \<Longrightarrow> finite_chain c"
  using genesis_accounts_finite by (auto simp: from_genesis_def finite_chain_def Let_def split: sum.splits)

lemma adopts_finite:
  assumes "from_genesis X gc = Inr c0" "adopts X T c0 bs c" "evm_finite X"
  shows "finite_chain c"
  using assms(2)
proof induction
  case adopts_start
  then show ?case by (rule genesis_finite [OF assms(1)])
next
  case (adopts_block bs c now b c')
  then show ?case using add_block_finite [OF assms(3)] by blast
next
  case (adopts_other bs c pool tr t)
  then show ?case by (simp add: finite_chain_def)
qed

lemma demo_evm_finite: "evm_finite demo_externs"
  by (simp add: evm_finite_def demo_externs_def)

end
