(* ===== verification/Persistence.thy ===== *)
theory Persistence
  imports Storage Chain_Run Finite_State
begin

text \<open>
  Persistence of the chain (\<^verbatim>\<open>src/src/core/chain/persistence.rs\<close> and \<^verbatim>\<open>with_storage_mode\<close>, \<^verbatim>\<open>PersistenceHandle\<close> of \<^verbatim>\<open>src/src/core/chain/mod.rs\<close>): the writes of
  a full state, opening a database, and the background worker with its one-place slot and bounded channel.

  A full state is written by eleven redb transactions, one after the other; \<open>run_writes\<close> stops at the first that fails, so its
  database is also what a crash in between leaves behind. \<open>open_view\<close> is the block view of a cursor opened over the database.
\<close>

section \<open>Writing the full state\<close>

definition CHAIN_CONFIG_KEY :: bytes where "CHAIN_CONFIG_KEY = ascii ''chain_config''"

text \<open>The literal key of the finalized height.\<close>
definition FINALIZED_KEY :: bytes where "FINALIZED_KEY = ascii ''finalized_height''"

record persisted_chain_state =
  ps_genesis_config :: genesis_config
  ps_finalized_height :: u64
  ps_blocks :: "block list"
  ps_accounts :: accounts
  ps_contracts :: contracts
  ps_receipts :: "bytes \<rightharpoonup> receipt"
  ps_epoch_snapshots :: "u64 \<rightharpoonup> epoch_snapshot"
  ps_pending_transactions :: "transaction list"
  ps_token_registry :: token_registry
  ps_governance :: governance_state

definition from_chain :: "blockchain \<Rightarrow> persisted_chain_state" where
  "from_chain c = \<lparr>ps_genesis_config = bc_genesis_config c,
     ps_finalized_height = ft_finalized_height (bc_finality_tracker c),
     ps_blocks = List.map_filter (\<lambda>h. block_at_height c (of_nat h)) [0..<unat (block_count c)],
     ps_accounts = bc_accounts c, ps_contracts = bc_contracts c, ps_receipts = bc_receipts c,
     ps_epoch_snapshots = bc_epoch_snapshots c, ps_pending_transactions = bc_pending_transactions c,
     ps_token_registry = bc_token_registry c, ps_governance = bc_governance c\<rparr>"

type_synonym db_write = "storage_db \<Rightarrow> storage_error + storage_db"

fun run_writes :: "db_write list \<Rightarrow> storage_db \<Rightarrow> (storage_error + unit) \<times> storage_db" where
  "run_writes [] db = (Inr (), db)"
| "run_writes (w # ws) db = (case w db of Inl e \<Rightarrow> (Inl e, db) | Inr db' \<Rightarrow> run_writes ws db')"

text \<open>The transactions of \<open>write_full_state_to_storage\<close>, in their order.\<close>
definition full_state_writes :: "externs \<Rightarrow> bincode \<Rightarrow> persisted_chain_state \<Rightarrow> db_write list" where
  "full_state_writes X Bc st =
     [\<lambda>db. put_meta (bin_config Bc) db CHAIN_CONFIG_KEY (ps_genesis_config st),
      \<lambda>db. put_meta (bin_u64 Bc) db FINALIZED_KEY (ps_finalized_height st),
      \<lambda>db. put_meta (bin_u64 Bc) db SCHEMA_VERSION_KEY CURRENT_SCHEMA_VERSION,
      \<lambda>db. put_meta (bin_tokens Bc) db TOKEN_REGISTRY_KEY (ps_token_registry st),
      \<lambda>db. put_meta (bin_governance Bc) db GOVERNANCE_STATE_KEY (ps_governance st),
      \<lambda>db. replace_blocks Bc db (ps_blocks st),
      \<lambda>db. replace_accounts Bc db (ps_accounts st),
      \<lambda>db. replace_contracts Bc db (ps_contracts st),
      \<lambda>db. replace_receipts Bc db (ps_receipts st),
      \<lambda>db. replace_epoch_snapshots Bc db (ps_epoch_snapshots st),
      \<lambda>db. replace_pending_transactions X Bc db (ps_pending_transactions st)]"

definition write_full_state_to_storage :: "externs \<Rightarrow> bincode \<Rightarrow> storage_db \<Rightarrow> persisted_chain_state \<Rightarrow>
    (storage_error + unit) \<times> storage_db" where
  "write_full_state_to_storage X Bc db st = run_writes (full_state_writes X Bc st) db"

section \<open>Opening a database\<close>

definition storage_failure :: "storage_error \<Rightarrow> chain_error" where
  "storage_failure e = StorageError (case e of Redb s \<Rightarrow> s | Io s \<Rightarrow> s | Serialize s \<Rightarrow> s)"

abbreviation or_fail :: "storage_error + 'a \<Rightarrow> ('a \<Rightarrow> chain_error + 'b) \<Rightarrow> chain_error + 'b" where
  "or_fail r f \<equiv> (case r of Inl e \<Rightarrow> Inl (storage_failure e) | Inr v \<Rightarrow> f v)"

text \<open>The prune watermark: the first height above genesis that has a block.\<close>
fun view_base :: "bincode \<Rightarrow> storage_db \<Rightarrow> nat list \<Rightarrow> storage_error + u64" where
  "view_base Bc db [] = Inr 0"
| "view_base Bc db (candidate # rest) = (case get_block Bc db (of_nat candidate) of
     Inl e \<Rightarrow> Inl e
   | Inr (Some _) \<Rightarrow> Inr (of_nat candidate)
   | Inr None \<Rightarrow> view_base Bc db rest)"

text \<open>\<open>BlockStoreCursor::new\<close> over the database: what its cursor shows.\<close>
definition open_view :: "bincode \<Rightarrow> storage_db \<Rightarrow> chain_error + chain_view" where
  "open_view Bc db =
     or_fail (get_block Bc db 0) (\<lambda>g. case g of
       None \<Rightarrow> Inl (BlockStoreError ''missing genesis'')
     | Some gen \<Rightarrow> or_fail (get_height db) (\<lambda>head.
         let cnt = (case head of None \<Rightarrow> 1 | Some h \<Rightarrow> h + 1) in
         or_fail (if cnt > 1 then view_base Bc db [1..<unat cnt] else Inr 0) (\<lambda>base.
           Inr \<lparr>cv_genesis = gen, cv_blocks = (\<lambda>h. case get_block Bc db h of Inr (Some b) \<Rightarrow> Some b | _ \<Rightarrow> None),
                cv_count = cnt, cv_base = base\<rparr>)))"

text \<open>\<open>block_at\<close> of that cursor, with the errors of the storage.\<close>
definition view_read :: "bincode \<Rightarrow> storage_db \<Rightarrow> chain_view \<Rightarrow> u64 \<Rightarrow> storage_error + block option" where
  "view_read Bc db v h =
     (if h = 0 then Inr (Some (cv_genesis v)) else if h \<ge> cv_count v \<or> h < cv_base v then Inr None else get_block Bc db h)"

fun load_tree :: "externs \<Rightarrow> bincode \<Rightarrow> storage_db \<Rightarrow> chain_view \<Rightarrow> accounts \<Rightarrow> nat list \<Rightarrow> block_tree \<Rightarrow> chain_error + block_tree" where
  "load_tree X Bc db v accs [] t = Inr t"
| "load_tree X Bc db v accs (h # hs) t =
     or_fail (view_read Bc db v (of_nat h)) (\<lambda>r. case r of
       None \<Rightarrow> Inr t
     | Some b \<Rightarrow>
         let proposer_stake = (case accs (address_bytes_from_public_key X (hdr_validator_public_key (blk_header b))) of
               Some a \<Rightarrow> acc_staked_balance a | None \<Rightarrow> 0)
         in load_tree X Bc db v accs hs (case tree_insert t b proposer_stake of Inl _ \<Rightarrow> t | Inr (_, t') \<Rightarrow> t'))"

text \<open>The chain object as \<open>with_storage_mode\<close> assembles it before the rebuild.\<close>
definition load_chain :: "externs \<Rightarrow> bincode \<Rightarrow> storage_db \<Rightarrow> u64 \<Rightarrow> genesis_config option \<Rightarrow> chain_error + u64 \<times> blockchain" where
  "load_chain X Bc db stored_height genesis_cfg =
     or_fail (get_schema_version Bc db) (\<lambda>sv.
     or_fail (get_genesis_config_compat Bc db CHAIN_CONFIG_KEY) (\<lambda>cfg.
     let gc = (case cfg of None \<Rightarrow> default_genesis_config | Some g \<Rightarrow> g) in
     if genesis_cfg \<noteq> None \<and> genesis_cfg \<noteq> Some gc then Inl GenesisMismatch
     else case accounts_from_genesis X gc of
       Inl e \<Rightarrow> Inl e
     | Inr expected_accounts \<Rightarrow>
     (case open_view Bc db of
       Inl e \<Rightarrow> Inl e
     | Inr view \<Rightarrow>
     if blk_hash (cv_genesis view) \<noteq> blk_hash (genesis_with_state_root X (compute_full X expected_accounts Map.empty)
         (gc_chain_id gc) (gc_initial_base_fee_per_gas gc)) then Inl GenesisMismatch
     else
     or_fail (get_all_pending_transactions_compat Bc db (gc_chain_id gc)) (\<lambda>pending.
     or_fail (get_slashed_addresses X Bc db) (\<lambda>slashed.
     or_fail (get_all_accounts_compat Bc db) (\<lambda>weights.
     (case load_tree X Bc db view (map_of weights) [1..<Suc (unat stored_height)] (tree_from_genesis (cv_genesis view)) of
       Inl e \<Rightarrow> Inl e
     | Inr tree \<Rightarrow>
     or_fail (get_meta (bin_u64 Bc) db FINALIZED_KEY) (\<lambda>fh.
     let finalized_height = (case fh of None \<Rightarrow> 0 | Some h \<Rightarrow> h) in
     or_fail (view_read Bc db view finalized_height) (\<lambda>fb.
     or_fail (get_meta (bin_tokens Bc) db TOKEN_REGISTRY_KEY) (\<lambda>tokens.
     or_fail (get_meta (bin_governance Bc) db GOVERNANCE_STATE_KEY) (\<lambda>gov.
       Inr ((case sv of None \<Rightarrow> 1 | Some v \<Rightarrow> v),
         \<lparr>bc_accounts = Map.empty, bc_pending_transactions = pending, bc_block_reward = gc_block_reward gc,
          bc_minimum_stake = gc_minimum_stake gc, bc_unstake_delay_blocks = gc_unstake_delay_blocks gc,
          bc_epoch_length = gc_epoch_length gc, bc_jail_duration_blocks = gc_jail_duration_blocks gc,
          bc_genesis_config = gc, bc_block_tree = tree,
          bc_finality_tracker = tracker_with_finalized finalized_height
            (case fb of Some b \<Rightarrow> blk_hash b | None \<Rightarrow> []),
          bc_slashed_validators = slashed, bc_epoch_snapshots = Map.empty,
          bc_block_gas_limit = gc_block_gas_limit gc,
          bc_initial_base_fee_per_gas = gc_initial_base_fee_per_gas gc,
          bc_base_fee_change_denominator = gc_base_fee_change_denominator gc,
          bc_contracts = Map.empty, bc_receipts = Map.empty, bc_receipt_locations = Map.empty, bc_log_index = [],
          bc_token_registry = (case tokens of None \<Rightarrow> token_registry_new | Some r \<Rightarrow> r),
          bc_governance = (case gov of None \<Rightarrow> governance_new | Some g \<Rightarrow> g),
          bc_validator_missed_epochs = Map.empty, bc_block_hash_to_height = Map.empty,
          bc_tx_hash_index = Map.empty, bc_evm_tx_hash_index = Map.empty, bc_cursor = view,
          bc_prune_keep_blocks = None\<rparr>))))))))))))"

definition persist_full_state :: "externs \<Rightarrow> bincode \<Rightarrow> storage_db \<Rightarrow> blockchain \<Rightarrow> (chain_error + unit) \<times> storage_db" where
  "persist_full_state X Bc db c = (case write_full_state_to_storage X Bc db (from_chain c) of
     (Inl e, db') \<Rightarrow> (Inl (storage_failure e), db') | (Inr _, db') \<Rightarrow> (Inr (), db'))"

text \<open>\<open>with_storage_mode\<close> with synchronous persistence: the opened chain, and the database after a possible migration or
  initialisation.\<close>
definition with_storage :: "externs \<Rightarrow> bincode \<Rightarrow> i64 \<Rightarrow> storage_db \<Rightarrow> genesis_config option \<Rightarrow>
    (chain_error + blockchain) \<times> storage_db" where
  "with_storage X Bc now db genesis_cfg =
     (case get_height db of
        Inl e \<Rightarrow> (Inl (storage_failure e), db)
      | Inr (Some stored_height) \<Rightarrow>
          (case load_chain X Bc db stored_height genesis_cfg of
             Inl e \<Rightarrow> (Inl e, db)
           | Inr (schema_version, c) \<Rightarrow>
               (case rebuild_canonical_state X now c of
                  (Inl e, _) \<Rightarrow> (Inl e, db)
                | (Inr _, c1) \<Rightarrow>
                    if schema_version < CURRENT_SCHEMA_VERSION
                    then (case persist_full_state X Bc db c1 of
                            (Inl e, db1) \<Rightarrow> (Inl e, db1) | (Inr _, db1) \<Rightarrow> (Inr c1, db1))
                    else (Inr c1, db)))
      | Inr None \<Rightarrow>
          (case from_genesis X (case genesis_cfg of None \<Rightarrow> default_genesis_config | Some g \<Rightarrow> g) of
             Inl e \<Rightarrow> (Inl e, db)
           | Inr c \<Rightarrow>
               (case persist_full_state X Bc db c of
                  (Inl e, db1) \<Rightarrow> (Inl e, db1)
                | (Inr _, db1) \<Rightarrow>
                    (case open_view Bc db1 of
                       Inl e \<Rightarrow> (Inl e, db1)
                     | Inr view \<Rightarrow> (Inr (c\<lparr>bc_cursor := view\<rparr>), db1)))))"

section \<open>What a database holds\<close>

text \<open>The block and metadata tables of a chain \<open>gen # bs\<close>, the other tables being readable.\<close>
definition stores_chain :: "bincode \<Rightarrow> storage_db \<Rightarrow> genesis_config \<Rightarrow> block \<Rightarrow> block list \<Rightarrow> bool" where
  "stores_chain Bc db gc gen bs \<longleftrightarrow> tb_evidence db = Map.empty \<and> serializer (bin_block Bc) (set (gen # bs))
     \<and> tb_blocks db = table_of (bin_block Bc) (map_of (map (\<lambda>b. (u64_be (blk_height b), b)) (gen # bs)))
     \<and> tb_meta db HEIGHT_KEY = Some (u64_be (blk_height (last (gen # bs))))
     \<and> tb_meta db CHAIN_CONFIG_KEY = Some (enc_of (bin_config Bc) gc) \<and> serializer (bin_config Bc) {gc}
     \<and> tb_meta db SCHEMA_VERSION_KEY = Some (enc_of (bin_u64 Bc) CURRENT_SCHEMA_VERSION) \<and> serializer (bin_u64 Bc) UNIV
     \<and> holds_value (bin_u64 Bc) (tb_meta db) FINALIZED_KEY \<and> holds_value (bin_tokens Bc) (tb_meta db) TOKEN_REGISTRY_KEY
     \<and> holds_value (bin_governance Bc) (tb_meta db) GOVERNANCE_STATE_KEY
     \<and> readable (bin_account Bc) (tb_accounts db) \<and> readable (bin_transaction Bc) (tb_pending db)"

definition stores_finalized :: "bincode \<Rightarrow> storage_db \<Rightarrow> u64 \<Rightarrow> bool" where
  "stores_finalized Bc db h \<longleftrightarrow> get_meta (bin_u64 Bc) db FINALIZED_KEY = Inr (Some h)"

text \<open>What the node relies on of \<^verbatim>\<open>bincode\<close>: the values it writes decode to themselves.\<close>
definition bincode_ok :: "bincode \<Rightarrow> persisted_chain_state \<Rightarrow> bool" where
  "bincode_ok Bc st \<longleftrightarrow> serializer (bin_config Bc) {ps_genesis_config st} \<and> serializer (bin_u64 Bc) UNIV
     \<and> serializer (bin_tokens Bc) {ps_token_registry st} \<and> serializer (bin_governance Bc) {ps_governance st}
     \<and> serializer (bin_block Bc) (set (ps_blocks st)) \<and> serializer (bin_account Bc) (ran (ps_accounts st))
     \<and> serializer (bin_contract Bc) (ran (ps_contracts st)) \<and> serializer (bin_receipt Bc) (ran (ps_receipts st))
     \<and> serializer (bin_epoch Bc) (ran (ps_epoch_snapshots st)) \<and> serializer (bin_transaction Bc) (set (ps_pending_transactions st))"

text \<open>Heights that count up from genesis.\<close>
definition counted_up :: "block \<Rightarrow> block list \<Rightarrow> bool" where
  "counted_up gen bs \<longleftrightarrow> Suc (length bs) < 2 ^ 64 \<and> blk_height gen = 0 \<and> (\<forall>i < length bs. unat (blk_height (bs ! i)) = Suc i)"

lemma counted_up_nth: "counted_up gen bs \<Longrightarrow> i \<le> length bs \<Longrightarrow> blk_height ((gen # bs) ! i) = of_nat i"
  by (cases i) (auto simp: counted_up_def word_unat_eq_iff unat_of_nat_small simp del: of_nat_Suc)

text \<open>The keys of the block table are the heights.\<close>
lemma block_keys:
  assumes "counted_up gen bs"
  shows "map (\<lambda>b. (u64_be (blk_height b), b)) (gen # bs) = map (\<lambda>i. (u64_be (of_nat i), (gen # bs) ! i)) [0..<Suc (length bs)]"
    (is "?kvs = ?ivs")
proof (rule nth_equalityI)
  fix i
  assume "i < length ?kvs"
  then have i: "i < length (gen # bs)" by simp
  have "?kvs ! i = (u64_be (blk_height ((gen # bs) ! i)), (gen # bs) ! i)" by (rule nth_map [OF i])
  also have "\<dots> = ?ivs ! i" using i counted_up_nth [OF assms, of i] by (simp del: upt_Suc)
  finally show "?kvs ! i = ?ivs ! i" .
qed simp

lemma height_key_inj:
  assumes "counted_up gen bs" "i \<le> length bs" "j \<le> length bs" "u64_be (of_nat i) = u64_be (of_nat j)"
  shows "i = j"
proof -
  have "unat (of_nat i :: u64) = unat (of_nat j :: u64)" using assms(4) by (simp add: u64_be_inj)
  then show ?thesis using assms(1-3) by (simp add: unat_of_nat_small counted_up_def)
qed

lemma counted_up_distinct:
  assumes "counted_up gen bs"
  shows "distinct (map fst (map (\<lambda>b. (u64_be (blk_height b), b)) (gen # bs)))"
  unfolding block_keys [OF assms] using height_key_inj [OF assms]
  by (simp add: distinct_map inj_on_def comp_def del: upt_Suc)

lemma stored_block:
  assumes "stores_chain Bc db gc gen bs" "counted_up gen bs"
  shows "get_block Bc db h = Inr (if unat h \<le> length bs then Some ((gen # bs) ! unat h) else None)"
proof -
  let ?kvs = "map (\<lambda>i. (u64_be (of_nat i), (gen # bs) ! i)) [0..<Suc (length bs)]"
  have ser: "serializer (bin_block Bc) (set (gen # bs))" and tb: "tb_blocks db = table_of (bin_block Bc) (map_of ?kvs)"
    using assms(1) unfolding stores_chain_def block_keys [OF assms(2)] by simp_all
  have "ran (map_of ?kvs) \<subseteq> (!) (gen # bs) ` set [0..<length (gen # bs)]" by (auto simp: ran_def dest!: map_of_SomeD simp del: upt_Suc)
  also have "\<dots> = set (gen # bs)" by (metis map_nth set_map)
  finally have g: "get_block Bc db h = Inr (map_of ?kvs (u64_be h))"
    unfolding get_block_def tb by (rule serializer.get(1) [OF ser])
  have "map_of ?kvs (u64_be h) = Some ((gen # bs) ! unat h)" if "unat h \<le> length bs"
  proof (rule map_of_is_SomeI)
    show "distinct (map fst ?kvs)" using counted_up_distinct [OF assms(2)] unfolding block_keys [OF assms(2)] .
    have "(u64_be (of_nat (unat h)), (gen # bs) ! unat h) \<in> set ?kvs" using that unfolding set_map by (intro imageI) auto
    then show "(u64_be h, (gen # bs) ! unat h) \<in> set ?kvs" by simp
  qed
  moreover have "map_of ?kvs (u64_be h) = None" if "\<not> unat h \<le> length bs"
  proof -
    have "u64_be h \<noteq> u64_be (of_nat i)" if "i < Suc (length bs)" for i
    proof
      assume "u64_be h = u64_be (of_nat i)"
      then have "unat h = unat (of_nat i :: u64)" by (simp add: u64_be_inj)
      then show False using that \<open>\<not> unat h \<le> length bs\<close> assms(2) by (simp add: unat_of_nat_small counted_up_def)
    qed
    then have "u64_be h \<notin> (\<lambda>i. u64_be (of_nat i)) ` {..<Suc (length bs)}" by blast
    then show ?thesis by (simp add: map_of_eq_None_iff image_image atLeast0LessThan del: upt_Suc image_iff)
  qed
  ultimately show ?thesis using g by simp
qed


section \<open>Opening what was written\<close>

text \<open>The cursor over a stored chain.\<close>
definition stored_view :: "block \<Rightarrow> block list \<Rightarrow> chain_view" where
  "stored_view gen bs = \<lparr>cv_genesis = gen, cv_blocks = (\<lambda>h. if unat h \<le> length bs then Some ((gen # bs) ! unat h) else None),
     cv_count = of_nat (Suc (length bs)), cv_base = (if bs = [] then 0 else 1)\<rparr>"

lemma stored_height:
  assumes "stores_chain Bc db gc gen bs" "counted_up gen bs"
  shows "get_height db = Inr (Some (of_nat (length bs)))"
proof -
  have "last (gen # bs) = (gen # bs) ! length bs" by (simp add: last_conv_nth)
  then have "blk_height (last (gen # bs)) = of_nat (length bs)" using counted_up_nth [OF assms(2), of "length bs"] by simp
  then show ?thesis
    using assms(1) be_key.get(2) [of "tb_meta db" HEIGHT_KEY] unfolding get_height_def stores_chain_def
    by (simp add: enc_of_def be_codec_def)
qed

lemma open_stored:
  assumes "stores_chain Bc db gc gen bs" "counted_up gen bs"
  shows "open_view Bc db = Inr (stored_view gen bs)"
proof -
  have len: "Suc (length bs) < 2 ^ 64" using assms(2) by (simp add: counted_up_def)
  have of: "of_nat (Suc (length bs)) = (of_nat (length bs) + 1 :: u64)" by simp
  have n: "unat (of_nat (length bs) + 1 :: u64) = Suc (length bs)"
    unfolding of [symmetric] by (rule unat_of_nat_small) (use len in simp)
  then have cnt: "(of_nat (length bs) + 1 :: u64) > 1 \<longleftrightarrow> bs \<noteq> []" by (simp add: word_less_nat_alt)
  have "view_base Bc db [1..<Suc (length bs)] = Inr 1" if "bs \<noteq> []"
    using that stored_block [OF assms, of 1] by (simp add: upt_conv_Cons Suc_le_eq del: upt_Suc)
  then show ?thesis
    using stored_block [OF assms] stored_height [OF assms] n cnt unfolding open_view_def stored_view_def of
    by (auto simp: Let_def fun_eq_iff simp del: upt_Suc)
qed

lemma stored_view_holds:
  assumes "counted_up gen bs" "bc_cursor d = stored_view gen bs"
  shows "holds_blocks d gen bs"
  unfolding holds_blocks_def block_count_def assms(2) stored_view_def
  using assms(1) by (auto simp: counted_up_def unat_of_nat_small simp del: of_nat_Suc)

lemma load_tree_Inr:
  assumes "\<And>h. \<exists>r. view_read Bc db v h = Inr r"
  shows "\<exists>t'. load_tree X Bc db v accs hs t = Inr t'"
proof (induction hs arbitrary: t)
  case (Cons h hs)
  then show ?case using assms [of "of_nat h"] by (auto split: option.split)
qed simp

lemma load_stored:
  assumes "stores_chain Bc db gc gen bs" "counted_up gen bs" "accounts_from_genesis X gc = Inr accs"
    and "gen = genesis_with_state_root X (compute_full X accs Map.empty) (gc_chain_id gc) (gc_initial_base_fee_per_gas gc)"
  shows "\<exists>d. load_chain X Bc db h (Some gc) = Inr (CURRENT_SCHEMA_VERSION, d) \<and> holds_blocks d gen bs
    \<and> rules d = (gc, gc_block_gas_limit gc, gc_initial_base_fee_per_gas gc, gc_base_fee_change_denominator gc,
     gc_epoch_length gc, gc_minimum_stake gc, gc_unstake_delay_blocks gc, gc_block_reward gc, {})
    \<and> stores_finalized Bc db (ft_finalized_height (bc_finality_tracker d))"
proof -
  note st = assms(1) [unfolded stores_chain_def]
  have sv: "get_schema_version Bc db = Inr (Some CURRENT_SCHEMA_VERSION)"
    unfolding get_schema_version_def get_meta_def using st serializer.get(2) [of "bin_u64 Bc" UNIV] by blast
  have cfg: "get_genesis_config_compat Bc db CHAIN_CONFIG_KEY = Inr (Some gc)"
    unfolding get_genesis_config_compat_def using st serializer.get(3) [of "bin_config Bc" "{gc}"] by blast
  have rd: "\<exists>r. view_read Bc db (stored_view gen bs) k = Inr r" for k
    using stored_block [OF assms(1,2)] by (simp add: view_read_def)
  obtain txs where p: "get_all_pending_transactions_compat Bc db (gc_chain_id gc) = Inr txs"
  proof -
    have "\<exists>kvs. table_all (decode_compat (bin_transaction Bc) (bin_legacy_transaction Bc) (tx_into_current (gc_chain_id gc))) (tb_pending db) = Inr kvs"
      using st by (blast intro: readable_all(2))
    then show ?thesis using that by (auto simp: get_all_pending_transactions_compat_def pending_from_def)
  qed
  have s: "get_slashed_addresses X Bc db = Inr {}" using st by (simp add: get_slashed_addresses_def table_all_def)
  obtain ws where w: "get_all_accounts_compat Bc db = Inr ws"
    using st readable_all(2) unfolding get_all_accounts_compat_def by blast
  obtain t where t: "load_tree X Bc db (stored_view gen bs) (map_of ws) [1..<Suc (unat h)] (tree_from_genesis gen) = Inr t"
    using load_tree_Inr [OF rd] by blast
  obtain fh r g where m: "get_meta (bin_u64 Bc) db FINALIZED_KEY = Inr (Some fh)" "get_meta (bin_tokens Bc) db TOKEN_REGISTRY_KEY = Inr (Some r)"
    "get_meta (bin_governance Bc) db GOVERNANCE_STATE_KEY = Inr (Some g)"
    using st readable_get [of "bin_u64 Bc"] readable_get [of "bin_tokens Bc"] readable_get [of "bin_governance Bc"]
    unfolding get_meta_def by blast
  obtain fb where fb: "view_read Bc db (stored_view gen bs) fh = Inr fb" using rd by blast
  have gen: "cv_genesis (stored_view gen bs) = gen" by (simp add: stored_view_def)
  show ?thesis
    unfolding load_chain_def
    by (simp add: sv cfg p s w m fb assms(3) open_stored [OF assms(1,2)] gen assms(4) [symmetric] t rules_def
        stored_view_holds [OF assms(2)] stores_finalized_def tracker_with_finalized_def del: upt_Suc One_nat_def)
qed

section \<open>Crash consistency\<close>

lemma add_block_tracker:
  assumes "add_block X now c b = (Inr (), c')" "block_count c \<noteq> 0"
  shows "bc_finality_tracker c' = bc_finality_tracker c"
proof -
  let ?c = "settle_before_block X c (blk_height b)"
  obtain ex where c': "c' = commit_block X ?c b ex" using add_block_ok [OF assms(1)] unfolding Let_def by blast
  have f: "frame ?c = frame c" by simp
  have "block_count ?c \<noteq> 0" using assms(2) by (simp add: block_count_def)
  then show ?thesis using commit_frame [of b ?c X ex] f unfolding c' frame_def by auto
qed

text \<open>Two chains with the same blocks and the same derived state.\<close>
definition same_ledger :: "blockchain \<Rightarrow> blockchain \<Rightarrow> bool" where
  "same_ledger d c \<longleftrightarrow> iter_blocks d = iter_blocks c \<and> bc_accounts d = bc_accounts c \<and> bc_contracts d = bc_contracts c
     \<and> bc_receipts d = bc_receipts c \<and> bc_token_registry d = bc_token_registry c \<and> bc_governance d = bc_governance c
     \<and> bc_epoch_snapshots d = bc_epoch_snapshots c \<and> bc_validator_missed_epochs d = bc_validator_missed_epochs c"

lemma from_genesis_start:
  assumes "from_genesis X gc = Inr c0"
  obtains accs where "accounts_from_genesis X gc = Inr accs"
    "genesis_block c0 = genesis_with_state_root X (compute_full X accs Map.empty) (gc_chain_id gc) (gc_initial_base_fee_per_gas gc)"
    "holds_blocks c0 (genesis_block c0) []" "blk_height (genesis_block c0) = 0"
    "rules c0 = (gc, gc_block_gas_limit gc, gc_initial_base_fee_per_gas gc, gc_base_fee_change_denominator gc,
     gc_epoch_length gc, gc_minimum_stake gc, gc_unstake_delay_blocks gc, gc_block_reward gc, {})"
  using assms by (auto simp: from_genesis_def Let_def holds_blocks_def block_count_def genesis_block_def rules_def split: sum.splits)

lemma adopts_counted:
  assumes "from_genesis X gc = Inr c0" "adopts X T c0 bs c" "Suc (length bs) < 2 ^ 64"
  shows "counted_up (genesis_block c0) bs" "holds_blocks c (genesis_block c0) bs" "rules c = rules c0"
proof -
  obtain accs where start: "holds_blocks c0 (genesis_block c0) []" "blk_height (genesis_block c0) = 0"
    using from_genesis_start [OF assms(1)] by metis
  show "holds_blocks c (genesis_block c0) bs" "rules c = rules c0" using adopts_history [OF assms(2) start assms(3)] by simp_all
  then show "counted_up (genesis_block c0) bs" using start(2) assms(3) by (simp add: counted_up_def holds_blocks_def)
qed

text \<open>Opening a database that stores the blocks of a chain gives that chain back, at the finalized height of the database.\<close>
lemma reopen:
  assumes "from_genesis X gc = Inr c0" "adopts X T c0 bs c" "Suc (length bs) < 2 ^ 64" "T \<le> now"
    and "stores_chain Bc db gc (genesis_block c0) bs"
  shows "\<exists>d. with_storage X Bc now db (Some gc) = (Inr d, db) \<and> same_ledger d c
    \<and> stores_finalized Bc db (ft_finalized_height (bc_finality_tracker d))"
proof -
  note hist = adopts_counted [OF assms(1-3)]
  obtain accs where a: "accounts_from_genesis X gc = Inr accs"
    "genesis_block c0 = genesis_with_state_root X (compute_full X accs Map.empty) (gc_chain_id gc) (gc_initial_base_fee_per_gas gc)"
    "rules c0 = (gc, gc_block_gas_limit gc, gc_initial_base_fee_per_gas gc, gc_base_fee_change_denominator gc,
     gc_epoch_length gc, gc_minimum_stake gc, gc_unstake_delay_blocks gc, gc_block_reward gc, {})"
    using from_genesis_start [OF assms(1)] by metis
  obtain d where d: "load_chain X Bc db (of_nat (length bs)) (Some gc) = Inr (CURRENT_SCHEMA_VERSION, d)"
    "holds_blocks d (genesis_block c0) bs" "rules d = rules c" "stores_finalized Bc db (ft_finalized_height (bc_finality_tracker d))"
    using load_stored [OF assms(5) hist(1) a(1,2)] a(3) hist(3) by metis
  obtain d' where d': "rebuild_canonical_state X now d = (Inr (), d')"
    "bc_accounts d' = bc_accounts c" "bc_contracts d' = bc_contracts c" "bc_receipts d' = bc_receipts c"
    "bc_token_registry d' = bc_token_registry c" "bc_governance d' = bc_governance c"
    "bc_epoch_snapshots d' = bc_epoch_snapshots c" "bc_validator_missed_epochs d' = bc_validator_missed_epochs c"
    using rebuild_from_blocks [OF assms(1,2,4,3) d(3,2)] by blast
  have "iter_blocks d' = iter_blocks c"
    using rebuild_canonical_ok [OF d'(1)] holds_blocks_iter [OF d(2)] holds_blocks_iter [OF hist(2)]
    by (simp add: iter_blocks_def block_at_height_def block_count_def)
  then have "same_ledger d' c" using d' by (simp add: same_ledger_def)
  then show ?thesis using d(1,4) d'(1) rebuild_frame [OF d'(1)] stored_height [OF assms(5) hist(1)] by (simp add: with_storage_def frame_def)
qed

lemma run_writes_append:
  "run_writes (ws @ vs) db = (case run_writes ws db of (Inl e, d) \<Rightarrow> (Inl e, d) | (Inr _, d) \<Rightarrow> run_writes vs d)"
  by (induction ws arbitrary: db) (auto split: sum.split)

lemma run_writes_keep:
  assumes "\<And>w db. w \<in> set ws \<Longrightarrow> P db \<Longrightarrow> \<exists>db'. w db = Inr db' \<and> P db'" "P db"
  shows "\<exists>db'. run_writes ws db = (Inr (), db') \<and> P db'"
  using assms
proof (induction ws arbitrary: db)
  case (Cons w ws)
  then obtain db' where "w db = Inr db'" "P db'" by force
  then show ?case using Cons.IH [of db'] Cons.prems(1) by simp
qed simp

lemma db_keys: "distinct [HEIGHT_KEY, CHAIN_CONFIG_KEY, FINALIZED_KEY, SCHEMA_VERSION_KEY, TOKEN_REGISTRY_KEY, GOVERNANCE_STATE_KEY]"
  by code_simp

lemmas db_key_neq [simp] = db_keys [simplified] db_keys [THEN distinct_rev [THEN iffD2], simplified]

lemmas db_write_defs = put_meta_def replace_blocks_def replace_accounts_def replace_contracts_def replace_receipts_def
  replace_epoch_snapshots_def replace_pending_transactions_def

text \<open>The encoders succeed on the state, and give readable tables.\<close>
lemma state_tables:
  assumes "bincode_ok Bc st"
  shows "\<exists>t. table_replace (bin_account Bc) (entries (ps_accounts st)) = Inr t \<and> readable (bin_account Bc) t"
    "\<exists>t. table_replace (bin_contract Bc) (entries (ps_contracts st)) = Inr t"
    "\<exists>t. table_replace (bin_receipt Bc) (entries (ps_receipts st)) = Inr t"
    "\<exists>t. table_replace (bin_epoch Bc) (map (\<lambda>(epoch, s). (u64_be epoch, s)) (entries (ps_epoch_snapshots st))) = Inr t"
    "\<exists>t. table_replace (bin_transaction Bc) (map (\<lambda>tx. (tx_hash X tx, tx)) (ps_pending_transactions st)) = Inr t \<and> readable (bin_transaction Bc) t"
    "\<And>t k. table_insert (bin_config Bc) k (ps_genesis_config st) t = Inr (t(k \<mapsto> enc_of (bin_config Bc) (ps_genesis_config st)))"
    "\<And>t k v. table_insert (bin_u64 Bc) k v t = Inr (t(k \<mapsto> enc_of (bin_u64 Bc) v))"
    "\<And>t k. table_insert (bin_tokens Bc) k (ps_token_registry st) t = Inr (t(k \<mapsto> enc_of (bin_tokens Bc) (ps_token_registry st)))"
    "\<And>t k. table_insert (bin_governance Bc) k (ps_governance st) t = Inr (t(k \<mapsto> enc_of (bin_governance Bc) (ps_governance st)))"
proof -
  note ok = assms [unfolded bincode_ok_def]
  have "snd ` set (map (\<lambda>(epoch, s). (u64_be epoch, s)) (entries (ps_epoch_snapshots st))) \<subseteq> ran (ps_epoch_snapshots st)"
    using entries_ran by (auto simp: image_subset_iff split_beta)
  then show "\<exists>t. table_replace (bin_epoch Bc) (map (\<lambda>(epoch, s). (u64_be epoch, s)) (entries (ps_epoch_snapshots st))) = Inr t"
    using ok by (meson replace_readable serializer_mono)
  show "\<exists>t. table_replace (bin_account Bc) (entries (ps_accounts st)) = Inr t \<and> readable (bin_account Bc) t"
    "\<exists>t. table_replace (bin_contract Bc) (entries (ps_contracts st)) = Inr t"
    "\<exists>t. table_replace (bin_receipt Bc) (entries (ps_receipts st)) = Inr t"
    using ok entries_ran by (meson replace_readable serializer_mono)+
  show "\<exists>t. table_replace (bin_transaction Bc) (map (\<lambda>tx. (tx_hash X tx, tx)) (ps_pending_transactions st)) = Inr t \<and> readable (bin_transaction Bc) t"
    using ok by (intro replace_readable) (simp add: image_image)
qed (use assms in \<open>auto simp: bincode_ok_def intro!: serializer.insert_Inr\<close>)

lemma state_blocks:
  assumes "bincode_ok Bc st" "ps_blocks st = gen # bs" "counted_up gen bs"
  shows "table_replace (bin_block Bc) (map (\<lambda>b. (u64_be (blk_height b), b)) (ps_blocks st))
    = Inr (table_of (bin_block Bc) (map_of (map (\<lambda>b. (u64_be (blk_height b), b)) (gen # bs))))"
  unfolding assms(2) using assms(1,2) counted_up_distinct [OF assms(3)]
  by (intro serializer.replace) (auto simp: bincode_ok_def)

text \<open>A write other than that of the blocks keeps the stored chain; the write of the blocks switches to the new one.\<close>
lemma block_write:
  assumes "bincode_ok Bc st" "ps_blocks st = gen # bs'" "counted_up gen bs'" "stores_chain Bc db gc gen bs"
  shows "\<exists>db'. replace_blocks Bc db (ps_blocks st) = Inr db' \<and> stores_chain Bc db' gc gen bs'"
  using assms(4,1,2) unfolding replace_blocks_def state_blocks [OF assms(1-3)]
  by (simp add: stores_chain_def bincode_ok_def)

lemma meta_writes:
  assumes "bincode_ok Bc st" "ps_genesis_config st = gc" "w \<in> set (take 5 (full_state_writes X Bc st))" "stores_chain Bc db gc gen bs"
  shows "\<exists>db'. w db = Inr db' \<and> stores_chain Bc db' gc gen bs"
proof -
  note t = state_tables [OF assms(1)]
  show ?thesis
    using assms serializer_mono [of "bin_u64 Bc" UNIV "{ps_finalized_height st}"]
    by (auto simp: full_state_writes_def put_meta_def t stores_chain_def bincode_ok_def)
qed

lemma table_writes:
  assumes "bincode_ok Bc st" "w \<in> set (drop 6 (full_state_writes X Bc st))" "stores_chain Bc db gc gen bs"
  shows "\<exists>db'. w db = Inr db' \<and> stores_chain Bc db' gc gen bs"
  using state_tables(1-4) [OF assms(1)] state_tables(5) [OF assms(1), of X] assms(2,3)
  by (auto simp: full_state_writes_def db_write_defs stores_chain_def)

text \<open>A full write over any database without slashing evidence stores the chain.\<close>
lemma full_write:
  assumes "bincode_ok Bc st" "ps_blocks st = gen # bs" "counted_up gen bs" "tb_evidence db = Map.empty"
  shows "\<exists>db'. run_writes (full_state_writes X Bc st) db = (Inr (), db') \<and> stores_chain Bc db' (ps_genesis_config st) gen bs"
proof -
  note t = state_tables [OF assms(1)] and t5 = state_tables(5) [OF assms(1), of X]
  have u: "serializer (bin_u64 Bc) {ps_finalized_height st}" "serializer (bin_block Bc) (set (gen # bs))"
    using assms(1,2) serializer_mono [of "bin_u64 Bc" UNIV] by (auto simp: bincode_ok_def)
  obtain ta tc tr te tp where r: "table_replace (bin_account Bc) (entries (ps_accounts st)) = Inr ta" "readable (bin_account Bc) ta"
    "table_replace (bin_contract Bc) (entries (ps_contracts st)) = Inr tc" "table_replace (bin_receipt Bc) (entries (ps_receipts st)) = Inr tr"
    "table_replace (bin_epoch Bc) (map (\<lambda>(epoch, s). (u64_be epoch, s)) (entries (ps_epoch_snapshots st))) = Inr te"
    "table_replace (bin_transaction Bc) (map (\<lambda>tx. (tx_hash X tx, tx)) (ps_pending_transactions st)) = Inr tp" "readable (bin_transaction Bc) tp"
    using t(1-4) t5 by blast
  show ?thesis
    unfolding full_state_writes_def db_write_defs state_blocks [OF assms(1-3)]
    using assms(1,4) u by (simp add: t(6-9) r stores_chain_def bincode_ok_def assms(2))
qed

text \<open>A write that stops after \<open>k\<close> of its transactions stores the old chain or the new one.\<close>
lemma interrupted_write:
  assumes "bincode_ok Bc st" "ps_genesis_config st = gc" "ps_blocks st = gen # bs'" "counted_up gen bs'" "stores_chain Bc db gc gen bs"
  shows "\<exists>db'. run_writes (take k (full_state_writes X Bc st)) db = (Inr (), db') \<and> stores_chain Bc db' gc gen (if k \<le> 5 then bs else bs')"
proof (cases "k \<le> 5")
  case True
  then have "set (take k (full_state_writes X Bc st)) \<subseteq> set (take 5 (full_state_writes X Bc st))" by (rule set_take_subset_set_take)
  then have "\<exists>db'. run_writes (take k (full_state_writes X Bc st)) db = (Inr (), db') \<and> stores_chain Bc db' gc gen bs"
    using meta_writes [OF assms(1,2)] assms(5) by (intro run_writes_keep) blast+
  then show ?thesis using True by simp
next
  case False
  let ?ws = "full_state_writes X Bc st"
  have split: "take k ?ws = take 5 ?ws @ [\<lambda>db. replace_blocks Bc db (ps_blocks st)] @ take (k - 6) (drop 6 ?ws)"
    using False by (auto simp: full_state_writes_def numeral_eq_Suc take_Cons' not_le)
  obtain db1 where 1: "run_writes (take 5 ?ws) db = (Inr (), db1)" "stores_chain Bc db1 gc gen bs"
    using run_writes_keep [of "take 5 ?ws" "\<lambda>db. stores_chain Bc db gc gen bs" db] meta_writes [OF assms(1,2)] assms(5) by blast
  obtain db2 where 2: "replace_blocks Bc db1 (ps_blocks st) = Inr db2" "stores_chain Bc db2 gc gen bs'"
    using block_write [OF assms(1,3,4) 1(2)] by blast
  have "set (take (k - 6) (drop 6 ?ws)) \<subseteq> set (drop 6 ?ws)" by (rule set_take_subset)
  then have "\<exists>db'. run_writes (take (k - 6) (drop 6 ?ws)) db2 = (Inr (), db') \<and> stores_chain Bc db' gc gen bs'"
    using table_writes [OF assms(1)] 2(2) by (intro run_writes_keep) blast+
  then show ?thesis using 1(1) 2(1) False unfolding split run_writes_append by simp
qed

text \<open>The second of the writes, and no other, moves the finalized height.\<close>
lemma table_insert_Inr: "table_insert C k v t = Inr t' \<Longrightarrow> j \<noteq> k \<Longrightarrow> t' j = t j"
  by (auto simp: table_insert_def split: sum.splits)

lemma keeps_finalized:
  assumes "w \<in> set (take 1 (full_state_writes X Bc st) @ drop 2 (full_state_writes X Bc st))" "w db = Inr db'" "stores_finalized Bc db h"
  shows "stores_finalized Bc db' h"
proof -
  have "tb_meta db' FINALIZED_KEY = tb_meta db FINALIZED_KEY"
    using assms(1,2) by (auto simp: full_state_writes_def db_write_defs table_insert_Inr split: sum.splits)
  then show ?thesis using assms(3) by (simp add: stores_finalized_def get_meta_def table_get_def)
qed

lemma run_writes_inv:
  "run_writes ws db = (Inr (), db') \<Longrightarrow> P db \<Longrightarrow> (\<And>w d d'. w \<in> set ws \<Longrightarrow> w d = Inr d' \<Longrightarrow> P d \<Longrightarrow> P d') \<Longrightarrow> P db'"
proof (induction ws arbitrary: db)
  case (Cons w ws)
  then show ?case by (cases "w db") (simp_all, blast)
qed simp

lemma write_finalized:
  assumes "run_writes (take k (full_state_writes X Bc st)) db = (Inr (), db')" "serializer (bin_u64 Bc) UNIV"
    and "k \<le> 1 \<Longrightarrow> stores_finalized Bc db h"
  shows "stores_finalized Bc db' (if k \<le> 1 then h else ps_finalized_height st)"
proof -
  let ?ws = "full_state_writes X Bc st"
  show ?thesis
  proof (cases "k \<le> 1")
    case True
    then have "set (take k ?ws) \<subseteq> set (take 1 ?ws @ drop 2 ?ws)" using set_take_subset_set_take [of k 1 ?ws] by auto
    then have "stores_finalized Bc db' h"
      using run_writes_inv [where P = "\<lambda>d. stores_finalized Bc d h", OF assms(1) assms(3) [OF True]] keeps_finalized by blast
    then show ?thesis using True by simp
  next
    case False
    then obtain n where n: "k = Suc (Suc n)" by (metis One_nat_def Suc_le_mono le0 not0_implies_Suc old.nat.exhaust)
    have split: "take k ?ws = take 1 ?ws @ (?ws ! 1) # take n (drop 2 ?ws)"
      by (simp add: n full_state_writes_def)
    obtain d1 d2 where d: "(?ws ! 1) d1 = Inr d2" "run_writes (take n (drop 2 ?ws)) d2 = (Inr (), db')"
      using assms(1) unfolding split run_writes_append by (auto split: prod.splits sum.splits)
    have "stores_finalized Bc d2 (ps_finalized_height st)"
      using d(1) serializer.insert_Inr [OF assms(2)] serializer.get(2) [OF assms(2)]
      by (auto simp: full_state_writes_def put_meta_def stores_finalized_def get_meta_def)
    moreover have "set (take n (drop 2 ?ws)) \<subseteq> set (take 1 ?ws @ drop 2 ?ws)" using set_take_subset [of n "drop 2 ?ws"] by auto
    ultimately have "stores_finalized Bc db' (ps_finalized_height st)"
      using run_writes_inv [where P = "\<lambda>d. stores_finalized Bc d (ps_finalized_height st)", OF d(2)] keeps_finalized by blast
    then show ?thesis using False by simp
  qed
qed

lemma from_chain_blocks:
  assumes "holds_blocks c gen bs"
  shows "ps_blocks (from_chain c) = gen # bs"
  using holds_blocks_iter [OF assms] by (simp add: from_chain_def iter_blocks_def)

text \<open>C3. Crash-consistent restarts. A node wrote the full state of a chain \<open>c\<close> that adopted the blocks \<open>bs\<close> to a database without slashing
  evidence, and is writing that of a chain \<open>c'\<close> of the same genesis over it. However many of the eleven transactions of this write commit
  before the process dies, the database opens without an error or a migration. The opened chain has the blocks, accounts, contracts, receipts, tokens,
  governance, epoch snapshots and missed epochs of \<open>c\<close> when at most five committed, and those of \<open>c'\<close> from the sixth on, which is that of the block
  table. Its finalized height is that of \<open>c\<close> when at most one committed and that of \<open>c'\<close> from the second on: between the second and the
  sixth the new finalized height stands over the old blocks.\<close>
theorem crash_consistent_restart:
  assumes "from_genesis X gc = Inr c0" "adopts X T c0 bs c" "adopts X T c0 bs' c'" "T \<le> now"
    and "Suc (length bs) < 2 ^ 64" "Suc (length bs') < 2 ^ 64"
    and "bincode_ok Bc (from_chain c)" "bincode_ok Bc (from_chain c')"
    and "tb_evidence db0 = Map.empty" "persist_full_state X Bc db0 c = (Inr (), db)"
  shows "\<exists>db' d. run_writes (take k (full_state_writes X Bc (from_chain c'))) db = (Inr (), db')
    \<and> with_storage X Bc now db' (Some gc) = (Inr d, db') \<and> same_ledger d (if k \<le> 5 then c else c')
    \<and> ft_finalized_height (bc_finality_tracker d) = ft_finalized_height (bc_finality_tracker (if k \<le> 1 then c else c'))"
proof -
  note old = adopts_counted [OF assms(1,2,5)] and new = adopts_counted [OF assms(1,3,6)]
  have "bc_genesis_config c0 = gc" using from_genesis_start [OF assms(1)] by (metis rules_fields(1) fst_conv rules_def)
  then have g: "ps_genesis_config (from_chain c) = gc" "ps_genesis_config (from_chain c') = gc"
    using old(3) new(3) by (simp_all add: from_chain_def rules_def)
  have w: "run_writes (full_state_writes X Bc (from_chain c)) db0 = (Inr (), db)"
    using assms(10) by (auto simp: persist_full_state_def write_full_state_to_storage_def split: prod.splits sum.splits)
  have u: "serializer (bin_u64 Bc) UNIV" using assms(7) by (simp add: bincode_ok_def)
  have st: "stores_chain Bc db gc (genesis_block c0) bs" "stores_finalized Bc db (ps_finalized_height (from_chain c))"
    using full_write [OF assms(7) from_chain_blocks [OF old(2)] old(1) assms(9), of X] w g(1)
      write_finalized [of 11 X Bc "from_chain c" db0 db, OF _ u] by (auto simp: full_state_writes_def)
  obtain db' where db': "run_writes (take k (full_state_writes X Bc (from_chain c'))) db = (Inr (), db')"
    "stores_chain Bc db' gc (genesis_block c0) (if k \<le> 5 then bs else bs')"
    using interrupted_write [OF assms(8) g(2) from_chain_blocks [OF new(2)] new(1) st(1)] by blast
  obtain d where d: "with_storage X Bc now db' (Some gc) = (Inr d, db')" "same_ledger d (if k \<le> 5 then c else c')"
    "stores_finalized Bc db' (ft_finalized_height (bc_finality_tracker d))"
    using db'(2) reopen [OF assms(1,2,5,4)] reopen [OF assms(1,3,6,4)] by (metis (full_types))
  moreover have "ft_finalized_height (bc_finality_tracker d) = ps_finalized_height (from_chain (if k \<le> 1 then c else c'))"
    using write_finalized [OF db'(1) u st(2)] d(3) by (simp add: stores_finalized_def split: if_splits)
  ultimately show ?thesis using db'(1) by (auto simp: from_chain_def)
qed

section \<open>Witnesses\<close>

text \<open>An encoding of the values of a list by their position.\<close>
definition lookup_codec :: "'a list \<Rightarrow> 'a codec" where
  "lookup_codec vs = \<lparr>cd_enc = (\<lambda>v. Inr (replicate (Suc (length (takeWhile (\<lambda>x. x \<noteq> v) vs))) 0)),
     cd_dec = (\<lambda>d. if d \<noteq> [] \<and> length d \<le> length vs then Inr (vs ! (length d - 1)) else Inl ''unknown'')\<rparr>"

lemma lookup_serializer: "V \<subseteq> set vs \<Longrightarrow> serializer (lookup_codec vs) V"
proof
  fix v
  assume "V \<subseteq> set vs" "v \<in> V"
  then have "length (takeWhile (\<lambda>x. x \<noteq> v) vs) < length vs" using takeWhile_eq_all_conv [of "\<lambda>x. x \<noteq> v" vs]
    by (metis length_takeWhile_le order_le_less subset_iff takeWhile_eq_take take_all_iff order_refl)
  then show "\<exists>d. cd_enc (lookup_codec vs) v = Inr d \<and> cd_dec (lookup_codec vs) d = Inr v"
    using nth_length_takeWhile [of "\<lambda>x. x \<noteq> v" vs] by (auto simp: lookup_codec_def)
qed

text \<open>Encodings for the values of two states.\<close>
definition demo_bincode :: "persisted_chain_state \<Rightarrow> persisted_chain_state \<Rightarrow> bincode" where
  "demo_bincode s t = \<lparr>bin_block = lookup_codec (ps_blocks s @ ps_blocks t),
     bin_account = lookup_codec (map snd (entries (ps_accounts s) @ entries (ps_accounts t))),
     bin_transaction = lookup_codec (ps_pending_transactions s @ ps_pending_transactions t),
     bin_contract = lookup_codec (map snd (entries (ps_contracts s) @ entries (ps_contracts t))),
     bin_receipt = lookup_codec (map snd (entries (ps_receipts s) @ entries (ps_receipts t))), bin_evidence = lookup_codec [],
     bin_epoch = lookup_codec (map snd (entries (ps_epoch_snapshots s) @ entries (ps_epoch_snapshots t))),
     bin_config = lookup_codec [ps_genesis_config s, ps_genesis_config t], bin_u64 = be_codec ''u64'',
     bin_tokens = lookup_codec [ps_token_registry s, ps_token_registry t],
     bin_governance = lookup_codec [ps_governance s, ps_governance t], bin_manifest = lookup_codec [], bin_chunk = lookup_codec [],
     bin_snapshot = lookup_codec [], bin_legacy_config = (\<lambda>_. Inl ''unknown''), bin_legacy_account = (\<lambda>_. Inl ''unknown''), bin_legacy_transaction = (\<lambda>_. Inl ''unknown''),
     bin_legacy_block = (\<lambda>_. Inl ''unknown''), bin_legacy_evidence = (\<lambda>_. Inl ''unknown'')\<rparr>"

lemma ran_entries:
  assumes "finite (dom m)"
  shows "ran m \<subseteq> snd ` set (entries m)"
proof
  fix v assume "v \<in> ran m"
  then obtain k where "m k = Some v" by (auto simp: ran_def)
  then have "(k, v) \<in> set (entries m)" using assms by (simp add: in_entries_iff)
  then show "v \<in> snd ` set (entries m)" by (rule rev_image_eqI) simp
qed

lemma demo_bincode_ok:
  assumes "finite_chain c" "finite_chain d"
  shows "bincode_ok (demo_bincode (from_chain c) (from_chain d)) (from_chain c)"
    "bincode_ok (demo_bincode (from_chain c) (from_chain d)) (from_chain d)"
proof -
  have l: "serializer (lookup_codec (map snd (entries m @ entries n))) (ran m)" "serializer (lookup_codec (map snd (entries m @ entries n))) (ran n)"
    if "finite (dom m)" "finite (dom n)" for m n :: "'k :: linorder \<rightharpoonup> 'v"
    using ran_entries [OF that(1)] ran_entries [OF that(2)] by (auto intro!: lookup_serializer)
  show "bincode_ok (demo_bincode (from_chain c) (from_chain d)) (from_chain c)"
    "bincode_ok (demo_bincode (from_chain c) (from_chain d)) (from_chain d)"
    using assms be_key.serializer_axioms
    by (simp_all add: bincode_ok_def demo_bincode_def finite_chain_def from_chain_def l [unfolded map_append] lookup_serializer)
qed

text \<open>A chain with one block is written over its genesis state.\<close>
theorem crash_consistent_restart_witness:
  "\<exists>Bc b c db. adopts demo_externs 1700000009 demo_start_chain [b] c \<and> persist_full_state demo_externs Bc empty_db demo_start_chain = (Inr (), db)
     \<and> (\<exists>db' d. run_writes (take 5 (full_state_writes demo_externs Bc (from_chain c))) db = (Inr (), db')
          \<and> with_storage demo_externs Bc 1700000500 db' (Some demo_config) = (Inr d, db') \<and> same_ledger d demo_start_chain)
     \<and> (\<exists>db' d. run_writes (take 6 (full_state_writes demo_externs Bc (from_chain c))) db = (Inr (), db')
          \<and> with_storage demo_externs Bc 1700000500 db' (Some demo_config) = (Inr d, db') \<and> same_ledger d c)"
proof -
  obtain b c where b: "add_block demo_externs 1700000009 demo_chain b = (Inr (), c)" by (rule demo_block_accepted)
  note gen = demo_start_chain_from_genesis and new = demo_block_adopts [OF b]
    and old = adopts_start [of demo_externs 1700000009 demo_start_chain]
  let ?Bc = "demo_bincode (from_chain demo_start_chain) (from_chain c)"
  have ok: "bincode_ok ?Bc (from_chain demo_start_chain)" "bincode_ok ?Bc (from_chain c)"
    using demo_bincode_ok adopts_finite [OF gen old demo_evm_finite] adopts_finite [OF gen new demo_evm_finite] by blast+
  note hist = adopts_counted [OF gen old]
  obtain db where db: "persist_full_state demo_externs ?Bc empty_db demo_start_chain = (Inr (), db)"
    using full_write [OF ok(1) from_chain_blocks [OF hist(2)] hist(1), of empty_db demo_externs]
    by (auto simp: persist_full_state_def write_full_state_to_storage_def empty_db_def)
  have e: "tb_evidence empty_db = Map.empty" by (simp add: empty_db_def)
  note crash = crash_consistent_restart [OF gen old new _ _ _ ok e db, of 1700000500]
  show ?thesis using new db crash [of 5] crash [of 6] by (intro exI [of _ ?Bc] exI [of _ b] exI [of _ c] exI [of _ db]) auto
qed

end
