(* ===== verification/Persist_Worker.thy ===== *)
theory Persist_Worker
  imports Persistence
begin

text \<open>
  Asynchronous persistence (\<^verbatim>\<open>PersistenceHandle\<close> of \<^verbatim>\<open>src/src/core/chain/mod.rs\<close>): a worker thread behind a one-place slot for full states and a bounded channel
  of jobs. The node and the worker interleave at the granularity of one operation of the handle (\<open>enqueue_full_state\<close>, which fills the slot and signals, is one step) and
  of one look into the slot or channel or one write of the worker: \<open>persist_step\<close> is the step relation,
  \<open>worker_step\<close> the next step of the worker alone, \<open>run_worker\<close> its loop when nothing more arrives. A failing job is logged and
  leaves what its transactions had committed.
\<close>

section \<open>The handle and the worker\<close>

datatype persist_job = FullStateSignal | PendingTransactions "transaction list" | FinalizedHeight u64
  | EquivocationEvidence equivocation_evidence bytes "account_state option" | Shutdown

text \<open>Where the worker is: in \<open>recv\<close>; before looking into the slot with a job in hand; writing a full state it took; before the job
  itself; writing the full state it found at shutdown; returned.\<close>
datatype worker_phase = Waiting | Draining persist_job | Writing persisted_chain_state persist_job | Running persist_job
  | FinalWriting persisted_chain_state | Stopped

record persistence_handle =
  ph_slot :: "persisted_chain_state option"
  ph_queue :: "persist_job list"
  ph_closed :: bool
  ph_worker :: worker_phase
  ph_db :: storage_db

definition PERSISTENCE_QUEUE_CAPACITY :: nat where "PERSISTENCE_QUEUE_CAPACITY = 8"

datatype send_result = Sent | Full | Disconnected

definition try_send :: "persist_job \<Rightarrow> persistence_handle \<Rightarrow> send_result \<times> persistence_handle" where
  "try_send job w =
     (if ph_worker w = Stopped then (Disconnected, w)
      else if length (ph_queue w) \<ge> PERSISTENCE_QUEUE_CAPACITY then (Full, w)
      else (Sent, w\<lparr>ph_queue := ph_queue w @ [job]\<rparr>))"

lemma try_send_rest [simp]:
  "ph_slot (snd (try_send job w)) = ph_slot w" "ph_closed (snd (try_send job w)) = ph_closed w"
  "ph_worker (snd (try_send job w)) = ph_worker w" "ph_db (snd (try_send job w)) = ph_db w"
  "ph_queue (snd (try_send job w)) = (if ph_worker w = Stopped \<or> length (ph_queue w) \<ge> PERSISTENCE_QUEUE_CAPACITY
     then ph_queue w else ph_queue w @ [job])"
  by (simp_all add: try_send_def)

definition spawn :: "storage_db \<Rightarrow> persistence_handle" where
  "spawn db = \<lparr>ph_slot = None, ph_queue = [], ph_closed = False, ph_worker = Waiting, ph_db = db\<rparr>"

definition enqueue_full_state :: "persisted_chain_state \<Rightarrow> persistence_handle \<Rightarrow> persistence_handle" where
  "enqueue_full_state st w = snd (try_send FullStateSignal (w\<lparr>ph_slot := Some st\<rparr>))"

definition try_enqueue :: "persist_job \<Rightarrow> persistence_handle \<Rightarrow> persistence_handle" where
  "try_enqueue job w = snd (try_send job w)"

text \<open>\<open>drop\<close>: the last attempt to send \<open>Shutdown\<close> has room or times out; then the sender is gone.\<close>
definition drop_handle :: "persistence_handle \<Rightarrow> persistence_handle" where
  "drop_handle w = (snd (try_send Shutdown w))\<lparr>ph_closed := True\<rparr>"

definition execute_job :: "externs \<Rightarrow> bincode \<Rightarrow> persist_job \<Rightarrow> storage_db \<Rightarrow> storage_db" where
  "execute_job X Bc job db = (case job of
     FullStateSignal \<Rightarrow> db
   | PendingTransactions txs \<Rightarrow> (case replace_pending_transactions X Bc db txs of Inl _ \<Rightarrow> db | Inr db' \<Rightarrow> db')
   | FinalizedHeight h \<Rightarrow> (case put_meta (bin_u64 Bc) db FINALIZED_KEY h of Inl _ \<Rightarrow> db | Inr db' \<Rightarrow> db')
   | EquivocationEvidence ev address account \<Rightarrow>
       (case put_evidence Bc db ev of
          Inl _ \<Rightarrow> db
        | Inr db1 \<Rightarrow> (case account of
            None \<Rightarrow> db1
          | Some a \<Rightarrow> (case put_account Bc db1 address a of Inl _ \<Rightarrow> db1 | Inr db2 \<Rightarrow> db2)))
   | Shutdown \<Rightarrow> db)"

text \<open>The next step of \<open>run_worker\<close>: None when it blocks in \<open>recv\<close> or has returned.\<close>
definition worker_step :: "externs \<Rightarrow> bincode \<Rightarrow> persistence_handle \<Rightarrow> persistence_handle option" where
  "worker_step X Bc w = (case ph_worker w of
     Waiting \<Rightarrow> (case ph_queue w of
         job # rest \<Rightarrow> Some (w\<lparr>ph_queue := rest, ph_worker := Draining job\<rparr>)
       | [] \<Rightarrow> if ph_closed w then Some (w\<lparr>ph_worker := Stopped\<rparr>) else None)
   | Draining job \<Rightarrow> (case ph_slot w of
         Some st \<Rightarrow> Some (w\<lparr>ph_slot := None, ph_worker := Writing st job\<rparr>)
       | None \<Rightarrow> Some (w\<lparr>ph_worker := Running job\<rparr>))
   | Writing st job \<Rightarrow> Some (w\<lparr>ph_db := snd (write_full_state_to_storage X Bc (ph_db w) st), ph_worker := Draining job\<rparr>)
   | Running job \<Rightarrow>
       if job = Shutdown then (case ph_slot w of
         Some st \<Rightarrow> Some (w\<lparr>ph_slot := None, ph_worker := FinalWriting st\<rparr>)
       | None \<Rightarrow> Some (w\<lparr>ph_worker := Stopped\<rparr>))
       else Some (w\<lparr>ph_db := execute_job X Bc job (ph_db w), ph_worker := Waiting\<rparr>)
   | FinalWriting st \<Rightarrow> Some (w\<lparr>ph_db := snd (write_full_state_to_storage X Bc (ph_db w) st), ph_worker := Stopped\<rparr>)
   | Stopped \<Rightarrow> None)"

fun phase_rank :: "worker_phase \<Rightarrow> nat" where
  "phase_rank Stopped = 0" | "phase_rank Waiting = 1" | "phase_rank (Running _) = 2" | "phase_rank (FinalWriting _) = 3"
| "phase_rank (Draining _) = 3" | "phase_rank (Writing _ _) = 4"

definition work_left :: "persistence_handle \<Rightarrow> nat" where
  "work_left w = 8 * length (ph_queue w) + (if ph_slot w = None then 0 else 2) + phase_rank (ph_worker w)"

lemma worker_step_decreases: "worker_step X Bc w = Some w' \<Longrightarrow> work_left w' < work_left w"
  by (auto simp: worker_step_def work_left_def split: worker_phase.splits list.splits option.splits if_splits)

text \<open>The worker left alone.\<close>
function run_worker :: "externs \<Rightarrow> bincode \<Rightarrow> persistence_handle \<Rightarrow> persistence_handle" where
  "run_worker X Bc w = (case worker_step X Bc w of None \<Rightarrow> w | Some w' \<Rightarrow> run_worker X Bc w')"
  by auto

termination
  by (relation "measure (\<lambda>(X, Bc, w). work_left w)") (auto dest: worker_step_decreases)

declare run_worker.simps [simp del]

section \<open>The persistence of a chain\<close>

text \<open>No storage, a storage written under the chain lock, or the handle of the worker.\<close>
datatype persistence = NoStorage | SyncStorage storage_db | AsyncStorage persistence_handle

definition persist_chain :: "externs \<Rightarrow> bincode \<Rightarrow> persistence \<Rightarrow> blockchain \<Rightarrow> (chain_error + unit) \<times> persistence" where
  "persist_chain X Bc p c = (case p of
     NoStorage \<Rightarrow> (Inr (), p)
   | SyncStorage db \<Rightarrow> (case persist_full_state X Bc db c of (r, db') \<Rightarrow> (r, SyncStorage db'))
   | AsyncStorage w \<Rightarrow> (Inr (), AsyncStorage (enqueue_full_state (from_chain c) w)))"

definition persist_pending_transactions :: "externs \<Rightarrow> bincode \<Rightarrow> persistence \<Rightarrow> blockchain \<Rightarrow> (chain_error + unit) \<times> persistence" where
  "persist_pending_transactions X Bc p c = (case p of
     NoStorage \<Rightarrow> (Inr (), p)
   | SyncStorage db \<Rightarrow> (case replace_pending_transactions X Bc db (bc_pending_transactions c) of
       Inl e \<Rightarrow> (Inl (storage_failure e), p) | Inr db' \<Rightarrow> (Inr (), SyncStorage db'))
   | AsyncStorage w \<Rightarrow> (Inr (), AsyncStorage (try_enqueue (PendingTransactions (bc_pending_transactions c)) w)))"

definition persist_added_block :: "bincode \<Rightarrow> persistence \<Rightarrow> block \<Rightarrow> (chain_error + unit) \<times> persistence" where
  "persist_added_block Bc p b = (case p of
     SyncStorage db \<Rightarrow> (case put_block Bc db b of Inl e \<Rightarrow> (Inl (storage_failure e), p) | Inr db' \<Rightarrow> (Inr (), SyncStorage db'))
   | _ \<Rightarrow> (Inr (), p))"

text \<open>The errors of the next two are ignored.\<close>
definition persist_finalized_height :: "bincode \<Rightarrow> persistence \<Rightarrow> u64 \<Rightarrow> persistence" where
  "persist_finalized_height Bc p h = (case p of
     NoStorage \<Rightarrow> p
   | SyncStorage db \<Rightarrow> (case put_meta (bin_u64 Bc) db FINALIZED_KEY h of Inl _ \<Rightarrow> p | Inr db' \<Rightarrow> SyncStorage db')
   | AsyncStorage w \<Rightarrow> AsyncStorage (try_enqueue (FinalizedHeight h) w))"

definition persist_equivocation :: "externs \<Rightarrow> bincode \<Rightarrow> persistence \<Rightarrow> blockchain \<Rightarrow> equivocation_evidence \<Rightarrow> persistence" where
  "persist_equivocation X Bc p c ev =
     (let address = address_bytes_from_public_key X (ev_validator_public_key ev); account = bc_accounts c address
      in case p of
           NoStorage \<Rightarrow> p
         | SyncStorage db \<Rightarrow>
             let db1 = (case put_evidence Bc db ev of Inl _ \<Rightarrow> db | Inr d \<Rightarrow> d) in
             SyncStorage (case account of
               None \<Rightarrow> db1
             | Some a \<Rightarrow> (case put_account Bc db1 address a of Inl _ \<Rightarrow> db1 | Inr d \<Rightarrow> d))
         | AsyncStorage w \<Rightarrow> AsyncStorage (try_enqueue (EquivocationEvidence ev address account) w))"

section \<open>Runs\<close>

datatype persist_event = EnqueueFull persisted_chain_state | TryEnqueue persist_job | DropHandle | Work

text \<open>The node enqueues while it owns the handle; the worker steps at any time.\<close>
inductive persist_step :: "externs \<Rightarrow> bincode \<Rightarrow> persistence_handle \<Rightarrow> persist_event \<Rightarrow> persistence_handle \<Rightarrow> bool" for X Bc where
  step_full: "\<not> ph_closed w \<Longrightarrow> persist_step X Bc w (EnqueueFull st) (enqueue_full_state st w)"
| step_job: "\<not> ph_closed w \<Longrightarrow> job \<noteq> Shutdown \<Longrightarrow> persist_step X Bc w (TryEnqueue job) (try_enqueue job w)"
| step_drop: "\<not> ph_closed w \<Longrightarrow> persist_step X Bc w DropHandle (drop_handle w)"
| step_work: "worker_step X Bc w = Some w' \<Longrightarrow> persist_step X Bc w Work w'"

inductive persist_run :: "externs \<Rightarrow> bincode \<Rightarrow> storage_db \<Rightarrow> persist_event list \<Rightarrow> persistence_handle \<Rightarrow> bool" for X Bc db where
  run_start: "persist_run X Bc db [] (spawn db)"
| run_step: "persist_run X Bc db evs w \<Longrightarrow> persist_step X Bc w ev w' \<Longrightarrow> persist_run X Bc db (evs @ [ev]) w'"

inductive_cases persist_stepE: "persist_step X Bc w ev w'"

text \<open>The full state enqueued last.\<close>
definition latest_full :: "persist_event list \<Rightarrow> persisted_chain_state option" where
  "latest_full evs = fold (\<lambda>ev l. case ev of EnqueueFull st \<Rightarrow> Some st | _ \<Rightarrow> l) evs None"

lemma latest_full_snoc [simp]:
  "latest_full (evs @ [ev]) = (case ev of EnqueueFull st \<Rightarrow> Some st | _ \<Rightarrow> latest_full evs)" "latest_full [] = None"
  by (simp_all add: latest_full_def split: persist_event.split)

section \<open>No full state is lost\<close>

text \<open>A filled slot is looked at again: there is a job to wake up for, or the worker is before its look into the slot.\<close>
definition wakeful :: "persistence_handle \<Rightarrow> bool" where
  "wakeful w \<longleftrightarrow> (Shutdown \<in> set (ph_queue w) \<or> ph_worker w \<in> {Draining Shutdown, Running Shutdown, Stopped}
        \<or> (\<exists>st. ph_worker w \<in> {Writing st Shutdown, FinalWriting st}) \<longrightarrow> ph_closed w)
     \<and> (ph_slot w \<noteq> None \<longrightarrow> ph_queue w \<noteq> [] \<or> (\<exists>job. ph_worker w = Draining job) \<or> (\<exists>st job. ph_worker w = Writing st job)
        \<or> ph_worker w = Running Shutdown)
     \<and> (ph_worker w = Stopped \<or> (\<exists>st. ph_worker w = FinalWriting st) \<longrightarrow> ph_slot w = None)"

lemma wakeful_work:
  assumes "worker_step X Bc w = Some w'" "wakeful w"
  shows "wakeful w'"
proof (cases "ph_worker w")
  case Waiting
  then show ?thesis using assms by (auto simp: wakeful_def worker_step_def split: list.splits if_splits)
next
  case (Running job)
  then show ?thesis using assms by (auto simp: wakeful_def worker_step_def split: option.splits if_splits)
qed (use assms in \<open>auto simp: wakeful_def worker_step_def split: option.splits\<close>)

lemma wakeful_step: "persist_step X Bc w ev w' \<Longrightarrow> wakeful w \<Longrightarrow> wakeful w'"
proof (induction rule: persist_step.induct)
  case (step_work w w')
  then show ?case by (rule wakeful_work)
qed (auto simp: wakeful_def enqueue_full_state_def try_enqueue_def drop_handle_def PERSISTENCE_QUEUE_CAPACITY_def)

lemma wakeful_run: "persist_run X Bc db evs w \<Longrightarrow> wakeful w"
proof (induction rule: persist_run.induct)
  case run_start
  then show ?case by (simp add: wakeful_def spawn_def)
next
  case (run_step evs w ev w')
  then show ?case using wakeful_step by blast
qed

text \<open>A store on which full writes succeed and which the small jobs do not disturb.\<close>
locale durable_store =
  fixes X :: externs and Bc :: bincode
    and state_ok :: "persisted_chain_state \<Rightarrow> bool" and job_ok :: "persist_job \<Rightarrow> bool"
    and clean :: "storage_db \<Rightarrow> bool" and stored :: "persisted_chain_state \<Rightarrow> storage_db \<Rightarrow> bool"
  assumes full_stored: "clean db \<Longrightarrow> state_ok st \<Longrightarrow> stored st (snd (write_full_state_to_storage X Bc db st))"
    and full_clean: "clean db \<Longrightarrow> state_ok st \<Longrightarrow> clean (snd (write_full_state_to_storage X Bc db st))"
    and job_stored: "job_ok job \<Longrightarrow> stored st db \<Longrightarrow> stored st (execute_job X Bc job db)"
    and job_clean: "job_ok job \<Longrightarrow> clean db \<Longrightarrow> clean (execute_job X Bc job db)"
    and signals_ok: "job_ok FullStateSignal" "job_ok Shutdown"
begin

definition event_ok :: "persist_event \<Rightarrow> bool" where
  "event_ok ev \<longleftrightarrow> (case ev of EnqueueFull st \<Rightarrow> state_ok st | TryEnqueue job \<Rightarrow> job_ok job | _ \<Rightarrow> True)"

text \<open>What the worker holds is fit to be written.\<close>
definition cargo_ok :: "persistence_handle \<Rightarrow> bool" where
  "cargo_ok w \<longleftrightarrow> clean (ph_db w) \<and> (\<forall>st. ph_slot w = Some st \<longrightarrow> state_ok st) \<and> list_all job_ok (ph_queue w)
     \<and> (case ph_worker w of Draining job \<Rightarrow> job_ok job | Writing st job \<Rightarrow> state_ok st \<and> job_ok job | Running job \<Rightarrow> job_ok job
        | FinalWriting st \<Rightarrow> state_ok st | _ \<Rightarrow> True)"

text \<open>The latest full state is in the slot, in the hands of the worker, or on disk.\<close>
definition tracked :: "persisted_chain_state option \<Rightarrow> persistence_handle \<Rightarrow> bool" where
  "tracked latest w \<longleftrightarrow> (\<forall>st. latest = Some st \<longrightarrow> ph_slot w = Some st \<or> ph_slot w = None \<and> (case ph_worker w of
     Writing s _ \<Rightarrow> s = st | FinalWriting s \<Rightarrow> s = st | _ \<Rightarrow> stored st (ph_db w)))"

lemma cargo_step: "persist_step X Bc w ev w' \<Longrightarrow> event_ok ev \<Longrightarrow> cargo_ok w \<Longrightarrow> cargo_ok w'"
proof (induction rule: persist_step.induct)
  case (step_work w w')
  then show ?case
    by (cases "ph_worker w") (auto simp: worker_step_def cargo_ok_def full_clean job_clean split: list.splits option.splits if_splits)
qed (auto simp: cargo_ok_def event_ok_def signals_ok enqueue_full_state_def try_enqueue_def drop_handle_def
    split: worker_phase.splits)

lemma tracked_step:
  assumes "persist_step X Bc w ev w'" "cargo_ok w" "wakeful w" "tracked latest w"
  shows "tracked (case ev of EnqueueFull st \<Rightarrow> Some st | _ \<Rightarrow> latest) w'"
  using assms
proof (induction rule: persist_step.induct)
  case (step_work w w')
  then show ?case
    by (cases "ph_worker w")
      (auto simp: worker_step_def tracked_def cargo_ok_def full_stored job_stored split: list.splits option.splits if_splits)
qed (auto simp: tracked_def enqueue_full_state_def try_enqueue_def drop_handle_def cong: worker_phase.case_cong)

lemma run_tracked:
  assumes "persist_run X Bc db evs w" "list_all event_ok evs" "clean db"
  shows "cargo_ok w \<and> tracked (latest_full evs) w"
  using assms
proof (induction rule: persist_run.induct)
  case run_start
  then show ?case by (simp add: cargo_ok_def tracked_def spawn_def)
next
  case (run_step evs w ev w')
  then show ?case using cargo_step tracked_step [OF run_step.hyps(2) _ wakeful_run [OF run_step.hyps(1)]] by auto
qed

text \<open>Left alone, the worker gets the latest full state to disk.\<close>
lemma worker_delivers:
  assumes "cargo_ok w" "wakeful w" "tracked (Some st) w"
  shows "stored st (ph_db (run_worker X Bc w))" "worker_step X Bc (run_worker X Bc w) = None"
proof -
  have "stored st (ph_db (run_worker X Bc w)) \<and> worker_step X Bc (run_worker X Bc w) = None"
    using assms
  proof (induction "work_left w" arbitrary: w rule: less_induct)
    case less
    show ?case
    proof (cases "worker_step X Bc w")
      case None
      then have "ph_slot w = None" "ph_worker w \<in> {Waiting, Stopped}"
        using less.prems(2) by (auto simp: worker_step_def wakeful_def split: worker_phase.splits list.splits option.splits if_splits)
      then have "stored st (ph_db w)" using less.prems(3) by (auto simp: tracked_def)
      then show ?thesis using None by (simp add: run_worker.simps [of X Bc w])
    next
      case (Some w')
      note step = step_work [OF Some]
      have "cargo_ok w'" "wakeful w'" "tracked (Some st) w'"
        using cargo_step [OF step] wakeful_step [OF step less.prems(2)] tracked_step [OF step less.prems] less.prems(1) by (simp_all add: event_ok_def)
      then show ?thesis using less.hyps [OF worker_step_decreases [OF Some]] Some by (simp add: run_worker.simps [of X Bc w])
    qed
  qed
  then show "stored st (ph_db (run_worker X Bc w))" "worker_step X Bc (run_worker X Bc w) = None" by simp_all
qed

end

section \<open>The redb store\<close>

text \<open>A full state of a chain that starts with \<open>gen\<close>, a small job whose values can be encoded, and the stored blocks of a state.\<close>
definition state_fits :: "bincode \<Rightarrow> genesis_config \<Rightarrow> block \<Rightarrow> persisted_chain_state \<Rightarrow> bool" where
  "state_fits Bc gc gen st \<longleftrightarrow> bincode_ok Bc st \<and> ps_genesis_config st = gc \<and> (\<exists>bs. ps_blocks st = gen # bs \<and> counted_up gen bs)"

fun job_fits :: "bincode \<Rightarrow> persist_job \<Rightarrow> bool" where
  "job_fits Bc (PendingTransactions txs) = serializer (bin_transaction Bc) (set txs)"
| "job_fits Bc (EquivocationEvidence ev address account) = False"
| "job_fits Bc job = True"

text \<open>Jobs whose finalized heights are among \<open>H\<close>.\<close>
definition job_within :: "bincode \<Rightarrow> u64 set \<Rightarrow> persist_job \<Rightarrow> bool" where
  "job_within Bc H job \<longleftrightarrow> job_fits Bc job \<and> (\<forall>h. job = FinalizedHeight h \<longrightarrow> h \<in> H)"

text \<open>The blocks of the state are stored, with its finalized height or one of \<open>H\<close>.\<close>
definition stored_state :: "bincode \<Rightarrow> u64 set \<Rightarrow> genesis_config \<Rightarrow> block \<Rightarrow> persisted_chain_state \<Rightarrow> storage_db \<Rightarrow> bool" where
  "stored_state Bc H gc gen st db \<longleftrightarrow> (\<exists>bs. ps_blocks st = gen # bs \<and> stores_chain Bc db gc gen bs)
     \<and> (\<exists>h \<in> insert (ps_finalized_height st) H. stores_finalized Bc db h)"

lemma pending_write:
  assumes "serializer (bin_transaction Bc) (set txs)" "stores_chain Bc db gc gen bs"
  shows "\<exists>db'. replace_pending_transactions X Bc db txs = Inr db' \<and> stores_chain Bc db' gc gen bs"
proof -
  have "\<exists>t. table_replace (bin_transaction Bc) (map (\<lambda>tx. (tx_hash X tx, tx)) txs) = Inr t \<and> readable (bin_transaction Bc) t"
    using assms(1) by (intro replace_readable) (simp add: image_image)
  then show ?thesis using assms(2) by (auto simp: replace_pending_transactions_def stores_chain_def)
qed

lemma finalized_write:
  assumes "stores_chain Bc db gc gen bs"
  shows "\<exists>db'. put_meta (bin_u64 Bc) db FINALIZED_KEY h = Inr db' \<and> stores_chain Bc db' gc gen bs"
proof -
  have "serializer (bin_u64 Bc) UNIV" using assms by (simp add: stores_chain_def)
  then have "table_insert (bin_u64 Bc) FINALIZED_KEY h (tb_meta db) = Inr ((tb_meta db)(FINALIZED_KEY \<mapsto> enc_of (bin_u64 Bc) h))"
    "serializer (bin_u64 Bc) {h}" by (auto intro: serializer.insert_Inr serializer_mono)
  then show ?thesis using assms by (simp add: put_meta_def stores_chain_def)
qed

lemma job_keeps_evidence: "job_fits Bc job \<Longrightarrow> tb_evidence (execute_job X Bc job db) = tb_evidence db"
  by (cases job) (auto simp: execute_job_def replace_pending_transactions_def put_meta_def split: sum.split)

lemma job_keeps_chain:
  assumes "job_fits Bc job" "stores_chain Bc db gc gen bs"
  shows "stores_chain Bc (execute_job X Bc job db) gc gen bs"
proof (cases job)
  case (PendingTransactions txs)
  then obtain db' where "replace_pending_transactions X Bc db txs = Inr db'" "stores_chain Bc db' gc gen bs"
    using pending_write [OF _ assms(2)] assms(1) by auto
  then show ?thesis by (simp add: execute_job_def PendingTransactions)
next
  case (FinalizedHeight h)
  obtain db' where "put_meta (bin_u64 Bc) db FINALIZED_KEY h = Inr db'" "stores_chain Bc db' gc gen bs"
    using finalized_write [OF assms(2)] by blast
  then show ?thesis by (simp add: execute_job_def FinalizedHeight)
qed (use assms in \<open>simp_all add: execute_job_def\<close>)

text \<open>A small job leaves the stored finalized height or writes its own.\<close>
lemma job_finalized:
  assumes "job_within Bc H job" "serializer (bin_u64 Bc) UNIV" "stores_finalized Bc db h"
  shows "\<exists>h' \<in> insert h H. stores_finalized Bc (execute_job X Bc job db) h'"
proof (cases job)
  case (PendingTransactions txs)
  then show ?thesis using assms(3)
    by (auto simp: execute_job_def replace_pending_transactions_def stores_finalized_def get_meta_def split: sum.split)
next
  case (FinalizedHeight f)
  then have "stores_finalized Bc (execute_job X Bc job db) f"
    using serializer.insert_Inr [OF assms(2)] serializer.get(2) [OF assms(2)]
    by (simp add: execute_job_def put_meta_def stores_finalized_def get_meta_def)
  then show ?thesis using assms(1) FinalizedHeight by (auto simp: job_within_def)
next
  case (EquivocationEvidence ev address account)
  then show ?thesis using assms(1) by (simp add: job_within_def)
qed (use assms(3) in \<open>simp_all add: execute_job_def\<close>)

interpretation redb: durable_store X Bc "state_fits Bc gc gen" "job_within Bc H" "\<lambda>db. tb_evidence db = Map.empty" "stored_state Bc H gc gen"
  for X Bc H gc gen
proof
  fix db :: storage_db and st
  assume "tb_evidence db = Map.empty" "state_fits Bc gc gen st"
  then obtain bs db' where w: "ps_blocks st = gen # bs" "run_writes (full_state_writes X Bc st) db = (Inr (), db')" "stores_chain Bc db' gc gen bs"
    using full_write unfolding state_fits_def by metis
  have "stores_finalized Bc db' (ps_finalized_height st)"
    using write_finalized [of 11 X Bc st db db'] w(2,3) by (simp add: full_state_writes_def stores_chain_def)
  with w show "stored_state Bc H gc gen st (snd (write_full_state_to_storage X Bc db st))"
    "tb_evidence (snd (write_full_state_to_storage X Bc db st)) = Map.empty"
    by (auto simp: write_full_state_to_storage_def stored_state_def stores_chain_def)
next
  fix job st and db :: storage_db
  assume job: "job_within Bc H job" "stored_state Bc H gc gen st db"
  then have "serializer (bin_u64 Bc) UNIV" by (auto simp: stored_state_def stores_chain_def)
  then show "stored_state Bc H gc gen st (execute_job X Bc job db)"
    using job_keeps_chain job_finalized [OF job(1)] job unfolding stored_state_def job_within_def by blast
qed (simp_all add: job_keeps_evidence job_within_def)

text \<open>What the node enqueues: full states of chains of one genesis, and small jobs other than slashing evidence.\<close>
definition event_fits :: "externs \<Rightarrow> bincode \<Rightarrow> i64 \<Rightarrow> blockchain \<Rightarrow> persist_event \<Rightarrow> bool" where
  "event_fits X Bc T c0 ev \<longleftrightarrow> (case ev of
     EnqueueFull st \<Rightarrow> \<exists>bs c. adopts X T c0 bs c \<and> Suc (length bs) < 2 ^ 64 \<and> st = from_chain c \<and> bincode_ok Bc st
   | TryEnqueue job \<Rightarrow> job_fits Bc job | _ \<Rightarrow> True)"

lemma event_fits_ok:
  assumes "from_genesis X gc = Inr c0" "event_fits X Bc T c0 ev" "\<And>h. ev = TryEnqueue (FinalizedHeight h) \<Longrightarrow> h \<in> H"
  shows "redb.event_ok Bc gc (genesis_block c0) H ev"
proof -
  have "state_fits Bc gc (genesis_block c0) (from_chain c)"
    if "adopts X T c0 bs c" "Suc (length bs) < 2 ^ 64" "bincode_ok Bc (from_chain c)" for bs c
  proof -
    note h = adopts_counted [OF assms(1) that(1,2)]
    have "bc_genesis_config c0 = gc" using assms(1) by (auto simp: from_genesis_def Let_def split: sum.splits)
    then have "ps_genesis_config (from_chain c) = gc" using h(3) by (simp add: from_chain_def rules_def)
    then show ?thesis using that(3) h(1) from_chain_blocks [OF h(2)] by (simp add: state_fits_def)
  qed
  then show ?thesis using assms(2,3) by (auto simp: event_fits_def redb.event_ok_def job_within_def split: persist_event.splits)
qed

text \<open>C4. No full state is lost by the persistence thread. The node enqueues full states of chains of one genesis, pending transactions and finalized
  heights, but no slashing evidence, and may drop the handle; the worker interleaves with it in any way. Once the worker has caught up,
  which it does in finitely many steps, opening the database gives a chain with the blocks, accounts, contracts, receipts, tokens, governance,
  epoch snapshots and missed epochs of the chain whose full state was enqueued last, although the channel is bounded, its signals are dropped when it
  is full, and older states in the slot are overwritten. The finalized height of the opened chain is that of the last full state, or one that was enqueued by itself,
  possibly an older one.\<close>
theorem async_full_state_not_lost:
  assumes "from_genesis X gc = Inr c0" "tb_evidence db = Map.empty" "persist_run X Bc db evs w" "list_all (event_fits X Bc T c0) evs"
    and "latest_full evs = Some (from_chain c)" "adopts X T c0 bs c" "Suc (length bs) < 2 ^ 64" "T \<le> now"
  shows "worker_step X Bc (run_worker X Bc w) = None
    \<and> (\<exists>d. with_storage X Bc now (ph_db (run_worker X Bc w)) (Some gc) = (Inr d, ph_db (run_worker X Bc w)) \<and> same_ledger d c
         \<and> (ft_finalized_height (bc_finality_tracker d) = ft_finalized_height (bc_finality_tracker c)
            \<or> TryEnqueue (FinalizedHeight (ft_finalized_height (bc_finality_tracker d))) \<in> set evs))"
proof -
  let ?H = "{h. TryEnqueue (FinalizedHeight h) \<in> set evs}" and ?db = "ph_db (run_worker X Bc w)"
  have "list_all (redb.event_ok Bc gc (genesis_block c0) ?H) evs"
    unfolding list_all_iff using assms(4) by (auto simp: list_all_iff intro!: event_fits_ok [OF assms(1)])
  note run = redb.run_tracked [OF assms(3) this assms(2), unfolded assms(5)]
  note delivered = redb.worker_delivers [OF conjunct1 [OF run] wakeful_run [OF assms(3)] conjunct2 [OF run]]
  have st: "stores_chain Bc ?db gc (genesis_block c0) bs" "\<exists>h \<in> insert (ps_finalized_height (from_chain c)) ?H. stores_finalized Bc ?db h"
    using delivered(1) from_chain_blocks [OF adopts_counted(2) [OF assms(1,6,7)]] by (auto simp: stored_state_def)
  obtain d where d: "with_storage X Bc now ?db (Some gc) = (Inr d, ?db)" "same_ledger d c"
    "stores_finalized Bc ?db (ft_finalized_height (bc_finality_tracker d))"
    using reopen [OF assms(1,6,7,8) st(1)] by blast
  then have "ft_finalized_height (bc_finality_tracker d) \<in> insert (ps_finalized_height (from_chain c)) ?H"
    using st(2) unfolding stores_finalized_def by force
  then show ?thesis using d(1,2) delivered(2) by (auto simp: from_chain_def)
qed

text \<open>The genesis state and that of the next block are enqueued before the worker runs.\<close>
theorem async_full_state_not_lost_witness:
  "\<exists>Bc b c evs w d. persist_run demo_externs Bc empty_db evs w \<and> latest_full evs = Some (from_chain c)
     \<and> adopts demo_externs 1700000009 demo_start_chain [b] c
     \<and> with_storage demo_externs Bc 1700000500 (ph_db (run_worker demo_externs Bc w)) (Some demo_config)
         = (Inr d, ph_db (run_worker demo_externs Bc w)) \<and> same_ledger d c"
proof -
  obtain b c where b: "add_block demo_externs 1700000009 demo_chain b = (Inr (), c)" by (rule demo_block_accepted)
  note gen = demo_start_chain_from_genesis and new = demo_block_adopts [OF b]
    and old = adopts_start [of demo_externs 1700000009 demo_start_chain]
  let ?Bc = "demo_bincode (from_chain demo_start_chain) (from_chain c)"
  have ok: "bincode_ok ?Bc (from_chain demo_start_chain)" "bincode_ok ?Bc (from_chain c)"
    using demo_bincode_ok adopts_finite [OF gen old demo_evm_finite] adopts_finite [OF gen new demo_evm_finite] by blast+
  let ?evs = "[] @ [EnqueueFull (from_chain demo_start_chain)] @ [EnqueueFull (from_chain c)]"
  obtain w where w: "persist_run demo_externs ?Bc empty_db ?evs w"
    using run_step [OF run_step [OF run_start step_full] step_full]
    by (fastforce simp: spawn_def enqueue_full_state_def)
  have l: "latest_full ?evs = Some (from_chain c)" by (simp add: latest_full_def)
  have "list_all (event_fits demo_externs ?Bc 1700000009 demo_start_chain) ?evs"
    using old new ok by (force simp: event_fits_def)
  moreover have "tb_evidence empty_db = Map.empty" by (simp add: empty_db_def)
  ultimately obtain d where "with_storage demo_externs ?Bc 1700000500 (ph_db (run_worker demo_externs ?Bc w)) (Some demo_config)
      = (Inr d, ph_db (run_worker demo_externs ?Bc w))" "same_ledger d c"
    using async_full_state_not_lost [OF gen _ w _ l new, of 1700000500] by auto
  then show ?thesis using w l new by blast
qed

text \<open>The worker writes the full state before the job that woke it. A finalized height enqueued before a full state is therefore written after
  it, and replaces the newer finalized height of that state on disk.\<close>
lemma stale_finalized_height:
  assumes "serializer (bin_u64 Bc) UNIV" "bincode_ok Bc st" "ps_blocks st = gen # bs" "counted_up gen bs" "tb_evidence db = Map.empty"
  shows "get_meta (bin_u64 Bc) (ph_db (run_worker X Bc (enqueue_full_state st (try_enqueue (FinalizedHeight h) (spawn db))))) FINALIZED_KEY
    = Inr (Some h)"
proof -
  obtain db' where db': "write_full_state_to_storage X Bc db st = (Inr (), db')"
    using full_write [OF assms(2-5), of X] by (auto simp: write_full_state_to_storage_def)
  have i: "table_insert (bin_u64 Bc) FINALIZED_KEY h t = Inr (t(FINALIZED_KEY \<mapsto> enc_of (bin_u64 Bc) h))" for t
    by (rule serializer.insert_Inr [OF assms(1)]) simp
  have "get_meta (bin_u64 Bc) (d\<lparr>tb_meta := t(FINALIZED_KEY \<mapsto> enc_of (bin_u64 Bc) h)\<rparr>) FINALIZED_KEY = Inr (Some h)" for d :: storage_db and t
    by (simp add: get_meta_def serializer.get(2) [OF assms(1)])
  then show ?thesis
    by (simp add: run_worker.simps worker_step_def enqueue_full_state_def try_enqueue_def try_send_def spawn_def PERSISTENCE_QUEUE_CAPACITY_def
        db' execute_job_def put_meta_def i)
qed

section \<open>Synchronous persistence\<close>

lemma put_block_stores:
  assumes "stores_chain Bc db gc gen bs" "counted_up gen (bs @ [b])" "serializer (bin_block Bc) (set (gen # bs @ [b]))"
  shows "\<exists>db'. put_block Bc db b = Inr db' \<and> stores_chain Bc db' gc gen (bs @ [b])"
proof -
  let ?kv = "\<lambda>b. (u64_be (blk_height b), b)" and ?C = "bin_block Bc"
  have i: "table_insert ?C (u64_be (blk_height b)) b t = Inr (t(u64_be (blk_height b) \<mapsto> enc_of ?C b))" for t
    by (rule serializer.insert_Inr [OF assms(3)]) simp
  have "distinct (map fst (map ?kv (gen # bs) @ [?kv b]))" using counted_up_distinct [OF assms(2)] by simp
  then have "map_of (map ?kv (gen # bs)) (u64_be (blk_height b)) = None" by (auto simp: map_of_eq_None_iff)
  then have "map_of (map ?kv (gen # bs @ [b])) = (map_of (map ?kv (gen # bs)))(u64_be (blk_height b) \<mapsto> b)"
    by (auto simp: fun_eq_iff map_add_def split: option.split)
  then have "table_of ?C (map_of (map ?kv (gen # bs @ [b]))) = (table_of ?C (map_of (map ?kv (gen # bs))))(u64_be (blk_height b) \<mapsto> enc_of ?C b)"
    by (auto simp: fun_eq_iff)
  then show ?thesis
    using assms(1,3) unfolding put_block_def Let_def i stores_chain_def by simp
qed

end
