(* ===== verification/Snapshot.thy ===== *)
theory Snapshot
  imports Persist_Worker
begin

text \<open>
  State-sync snapshots (\<^verbatim>\<open>src/src/core/chain/snapshot.rs\<close>): building one, serving its chunks, checking and applying it on another node.

  A snapshot is the serialised state at a finalized height, cut into chunks whose hashes form a Merkle tree; the manifest
  describes it. The round trip of an honest snapshot and the protection of the history that is final on both sides are shown, and
  that the accounts of a snapshot are not bound to its blocks.
\<close>

section \<open>Building a snapshot\<close>

definition SNAPSHOT_CHUNK_SIZE :: nat where "SNAPSHOT_CHUNK_SIZE = 256 * 1024"

text \<open>\<open>slice::chunks\<close>.\<close>
function chunks_of :: "nat \<Rightarrow> 'a list \<Rightarrow> 'a list list" where
  "chunks_of n xs = (if xs = [] \<or> n = 0 then [] else take n xs # chunks_of n (drop n xs))"
  by auto

termination
  by (relation "measure (\<lambda>(n, xs). length xs)") auto

declare chunks_of.simps [simp del]

definition snapshot_height :: "blockchain \<Rightarrow> u64" where
  "snapshot_height c = (if ft_finalized_height (bc_finality_tracker c) > 0
     then min (ft_finalized_height (bc_finality_tracker c)) (height c) else height c)"

text \<open>The state a snapshot holds.\<close>
definition snapshot_state_of :: "blockchain \<Rightarrow> u64 \<Rightarrow> bytes \<Rightarrow> ledger \<Rightarrow> snapshot_state" where
  "snapshot_state_of c h hash L = \<lparr>ss_blocks = take (unat h + 1) (iter_blocks c), ss_accounts = entries (lg_accounts L),
     ss_contracts = entries (lg_contracts L), ss_receipts = entries (lg_receipts L), ss_pending_transactions = [],
     ss_slashed_validators = sorted_list_of_set (bc_slashed_validators c),
     ss_epoch_snapshots = filter (\<lambda>(epoch, _). epoch \<le> epoch_for_height c h) (entries (bc_epoch_snapshots c)),
     ss_finalized_height = h, ss_finalized_hash = hash\<rparr>"

definition snapshot_chunks :: "externs \<Rightarrow> bytes list \<Rightarrow> state_chunk list" where
  "snapshot_chunks X pieces =
     (let hashes = map (sha3_hash X) pieces;
          chunks = map (\<lambda>i. \<lparr>ch_index = i, ch_data = pieces ! i, ch_hash = hashes ! i, ch_proof = merkle_proof X hashes i\<rparr>) [0..<length pieces]
      in if chunks = [] then [\<lparr>ch_index = 0, ch_data = [], ch_hash = sha3_hash X [], ch_proof = []\<rparr>] else chunks)"

definition snapshot_manifest_of :: "externs \<Rightarrow> blockchain \<Rightarrow> u64 \<Rightarrow> bytes \<Rightarrow> ledger \<Rightarrow> bytes list \<Rightarrow> snapshot_manifest" where
  "snapshot_manifest_of X c h hash L pieces =
     (let hashes = map (sha3_hash X) pieces in
      \<lparr>mf_height = h, mf_epoch = epoch_for_height c h, mf_chain_id = gc_chain_id (bc_genesis_config c),
       mf_genesis_hash = blk_hash (genesis_block c), mf_latest_hash = hash, mf_tip_height = height c,
       mf_tip_hash = (case latest_block c of Some b \<Rightarrow> blk_hash b | None \<Rightarrow> []), mf_finalized_height = h, mf_finalized_hash = hash,
       mf_state_root = compute_full X (lg_accounts L) (lg_contracts L), mf_chunk_root = merkle_root X hashes,
       mf_chunk_count = length (snapshot_chunks X pieces), mf_chunk_hashes = hashes\<rparr>)"

definition build_snapshot :: "externs \<Rightarrow> bincode \<Rightarrow> i64 \<Rightarrow> blockchain \<Rightarrow> (chain_error + snapshot_manifest \<times> state_chunk list) option" where
  "build_snapshot X Bc now c =
     (let h = snapshot_height c in
      case block_at_height c h of
        None \<Rightarrow> Some (Inl (SnapshotError ''snapshot height missing''))
      | Some b \<Rightarrow>
          (case replay_state_to_canonical_height X now c h of
             None \<Rightarrow> None
           | Some (Inl e) \<Rightarrow> Some (Inl e)
           | Some (Inr L) \<Rightarrow>
               (case cd_enc (bin_snapshot Bc) (snapshot_state_of c h (blk_hash b) L) of
                  Inl e \<Rightarrow> Some (Inl (SnapshotError e))
                | Inr data \<Rightarrow>
                    let pieces = chunks_of SNAPSHOT_CHUNK_SIZE data
                    in Some (Inr (snapshot_manifest_of X c h (blk_hash b) L pieces, snapshot_chunks X pieces)))))"

text \<open>The writes of the chunks; a failure keeps the chunks written before.\<close>
fun put_chunks :: "bincode \<Rightarrow> u64 \<Rightarrow> nat \<Rightarrow> state_chunk list \<Rightarrow> storage_db \<Rightarrow> (chain_error + unit) \<times> storage_db" where
  "put_chunks Bc h n [] db = (Inr (), db)"
| "put_chunks Bc h n (ch # chs) db = (case put_snapshot_chunk Bc db h ch (Some n) of
     Inl _ \<Rightarrow> (Inl (SnapshotError ''put_snapshot_chunk failed''), db)
   | Inr db' \<Rightarrow> put_chunks Bc h n chs db')"

definition create_snapshot :: "externs \<Rightarrow> bincode \<Rightarrow> i64 \<Rightarrow> storage_db option \<Rightarrow> blockchain \<Rightarrow>
    ((chain_error + snapshot_manifest) \<times> storage_db option) option" where
  "create_snapshot X Bc now storage c =
     (case build_snapshot X Bc now c of
        None \<Rightarrow> None
      | Some (Inl e) \<Rightarrow> Some (Inl e, storage)
      | Some (Inr (manifest, chunks)) \<Rightarrow>
          (case storage of
             None \<Rightarrow> Some (Inr manifest, None)
           | Some db \<Rightarrow>
               (case put_chunks Bc (mf_height manifest) (length chunks) chunks db of
                  (Inl e, db') \<Rightarrow> Some (Inl e, Some db')
                | (Inr _, db') \<Rightarrow>
                    (case put_snapshot_manifest Bc db' (mf_height manifest) manifest of
                       Inl _ \<Rightarrow> Some (Inl (SnapshotError ''put_snapshot_manifest failed''), Some db')
                     | Inr db'' \<Rightarrow> Some (Inr manifest, Some db'')))))"

definition get_snapshot_chunks :: "bincode \<Rightarrow> storage_db option \<Rightarrow> u64 \<Rightarrow> chain_error + state_chunk list" where
  "get_snapshot_chunks Bc storage h = (case storage of
     None \<Rightarrow> Inl (SnapshotError ''snapshot chunks unavailable without storage backend'')
   | Some db \<Rightarrow> (case storage_snapshot_chunks Bc db h of Inl e \<Rightarrow> Inl (storage_failure e) | Inr chs \<Rightarrow> Inr chs))"

section \<open>Checking and applying a snapshot\<close>

fun check_chunks :: "externs \<Rightarrow> snapshot_manifest \<Rightarrow> nat \<Rightarrow> state_chunk list \<Rightarrow> chain_error + unit" where
  "check_chunks X m i [] = Inr ()"
| "check_chunks X m i (ch # chs) =
     (if ch_index ch \<noteq> i then Inl (SnapshotError ''unexpected chunk order'')
      else if i \<ge> length (mf_chunk_hashes m) \<or> sha3_hash X (ch_data ch) \<noteq> mf_chunk_hashes m ! i
        then Inl (SnapshotError ''chunk hash mismatch'')
      else if \<not> verify_merkle_proof X (sha3_hash X (ch_data ch)) (ch_proof ch) i (mf_chunk_root m)
        then Inl (SnapshotError ''chunk proof mismatch'')
      else check_chunks X m (Suc i) chs)"

text \<open>Collecting pairs into a \<^verbatim>\<open>HashMap\<close>: the last entry of a key wins.\<close>
definition collect :: "('k \<times> 'v) list \<Rightarrow> 'k \<rightharpoonup> 'v" where
  "collect kvs = map_of (rev kvs)"

definition decode_snapshot_state :: "externs \<Rightarrow> bincode \<Rightarrow> snapshot_manifest \<Rightarrow> state_chunk list \<Rightarrow> chain_error + snapshot_state" where
  "decode_snapshot_state X Bc m chunks =
     (if length chunks \<noteq> mf_chunk_count m then Inl (SnapshotError ''unexpected number of chunks'')
      else case check_chunks X m 0 chunks of
        Inl e \<Rightarrow> Inl e
      | Inr _ \<Rightarrow>
          (case cd_dec (bin_snapshot Bc) (concat (map ch_data chunks)) of
             Inl e \<Rightarrow> Inl (SnapshotError e)
           | Inr S \<Rightarrow>
               if compute_full X (collect (ss_accounts S)) (collect (ss_contracts S)) \<noteq> mf_state_root m
                 then Inl (SnapshotError ''state root mismatch'')
               else if ss_blocks S = [] then Inl (SnapshotError ''snapshot does not contain canonical blocks'')
               else if blk_hash (ss_blocks S ! 0) \<noteq> mf_genesis_hash m then Inl (SnapshotError ''snapshot genesis hash mismatch'')
               else if blk_hash (last (ss_blocks S)) \<noteq> mf_latest_hash m then Inl (SnapshotError ''snapshot latest hash mismatch'')
               else Inr S))"

text \<open>A block of the snapshot that disagrees with the local block at a protected height.\<close>
definition conflicts :: "blockchain \<Rightarrow> u64 \<Rightarrow> block \<Rightarrow> bool" where
  "conflicts c protected b = (case block_at_height c (blk_height b) of
     None \<Rightarrow> False
   | Some l \<Rightarrow> blk_hash l \<noteq> blk_hash b \<and> (blk_height b = 0 \<or> blk_height b \<le> protected))"

definition insert_weighed :: "externs \<Rightarrow> accounts \<Rightarrow> block \<Rightarrow> block_tree \<Rightarrow> block_tree" where
  "insert_weighed X accs b t =
     (let stake = (case accs (address_bytes_from_public_key X (hdr_validator_public_key (blk_header b))) of
            Some a \<Rightarrow> acc_staked_balance a | None \<Rightarrow> 0)
      in case tree_insert t b stake of Inl _ \<Rightarrow> t | Inr (_, t') \<Rightarrow> t')"

text \<open>The state of a checked snapshot replaces that of the chain.\<close>
definition install_snapshot :: "externs \<Rightarrow> blockchain \<Rightarrow> snapshot_manifest \<Rightarrow> snapshot_state \<Rightarrow> blockchain" where
  "install_snapshot X c m S =
     (let c1 = replace_all_blocks c (ss_blocks S);
          c2 = rebuild_receipt_indexes X (c1\<lparr>bc_accounts := collect (ss_accounts S), bc_contracts := collect (ss_contracts S),
            bc_receipts := collect (ss_receipts S)\<rparr>);
          c3 = c2\<lparr>bc_pending_transactions := ss_pending_transactions S, bc_slashed_validators := set (ss_slashed_validators S),
            bc_epoch_snapshots := collect (ss_epoch_snapshots S)\<rparr>;
          tree = fold (insert_weighed X (bc_accounts c3)) (drop 1 (iter_blocks c3)) (tree_from_genesis (genesis_block c3))
      in c3\<lparr>bc_block_tree := set_finalized tree (mf_finalized_hash m) (mf_finalized_height m),
            bc_finality_tracker := tracker_with_finalized (mf_finalized_height m) (mf_finalized_hash m)\<rparr>)"

definition apply_snapshot :: "externs \<Rightarrow> bincode \<Rightarrow> persistence \<Rightarrow> blockchain \<Rightarrow> snapshot_manifest \<Rightarrow> state_chunk list \<Rightarrow>
    (chain_error + unit) \<times> blockchain \<times> persistence" where
  "apply_snapshot X Bc p c m chunks =
     (let tracker = bc_finality_tracker c; fh = ft_finalized_height tracker; protected = min fh (mf_finalized_height m) in
      if mf_chain_id m \<noteq> gc_chain_id (bc_genesis_config c) then (Inl (SnapshotError ''snapshot chain_id mismatch''), c, p)
      else case verify_snapshot_against_known (gc_chain_id (bc_genesis_config c)) m of
        Inl e \<Rightarrow> (Inl e, c, p)
      | Inr _ \<Rightarrow>
          if fh \<ge> mf_height m \<and> ft_finalized_hash tracker \<noteq> [] \<and> fh = mf_finalized_height m \<and> ft_finalized_hash tracker \<noteq> mf_finalized_hash m
            then (Inl (SnapshotError ''snapshot finalized hash conflicts with local finalized checkpoint''), c, p)
          else if (case block_at_height c (mf_height m) of
              Some l \<Rightarrow> blk_hash l \<noteq> mf_latest_hash m \<and> mf_height m \<le> protected | None \<Rightarrow> False)
            then (Inl (SnapshotError ''snapshot latest hash conflicts with local canonical block''), c, p)
          else case decode_snapshot_state X Bc m chunks of
            Inl e \<Rightarrow> (Inl e, c, p)
          | Inr S \<Rightarrow>
              if \<exists>b \<in> set (ss_blocks S). conflicts c protected b
                then (Inl (SnapshotError ''snapshot block at protected height disagrees with local canonical block''), c, p)
              else let c' = install_snapshot X c m S
                in case persist_chain X Bc p c' of (r, p') \<Rightarrow> (r, c', p'))"

section \<open>Chunks\<close>

lemma concat_chunks: "n \<noteq> 0 \<Longrightarrow> concat (chunks_of n xs) = xs"
proof (induction n xs rule: chunks_of.induct)
  case (1 n xs)
  then show ?case by (subst chunks_of.simps) simp
qed

lemma chunks_of_empty: "n \<noteq> 0 \<Longrightarrow> chunks_of n xs = [] \<longleftrightarrow> xs = []"
  by (subst chunks_of.simps) simp

text \<open>The manifest describes the chunks.\<close>
definition describes :: "externs \<Rightarrow> bytes list \<Rightarrow> snapshot_manifest \<Rightarrow> bool" where
  "describes X pieces m \<longleftrightarrow> mf_chunk_count m = length (snapshot_chunks X pieces) \<and> mf_chunk_hashes m = map (sha3_hash X) pieces
     \<and> mf_chunk_root m = merkle_root X (map (sha3_hash X) pieces)"

lemma snapshot_chunks_nth:
  assumes "i < length pieces"
  shows "snapshot_chunks X pieces ! i = \<lparr>ch_index = i, ch_data = pieces ! i, ch_hash = sha3_hash X (pieces ! i),
     ch_proof = merkle_proof X (map (sha3_hash X) pieces) i\<rparr>" "length (snapshot_chunks X pieces) = length pieces"
  using assms by (auto simp: snapshot_chunks_def Let_def)

lemma check_honest_chunks:
  assumes "sha3_digest_size X" "describes X pieces m" "pieces \<noteq> []" "i \<le> length pieces"
  shows "check_chunks X m i (drop i (snapshot_chunks X pieces)) = Inr ()"
  using assms(4)
proof (induction "length pieces - i" arbitrary: i)
  case 0
  have "length (snapshot_chunks X pieces) = length pieces" using assms(3) snapshot_chunks_nth(2) by (metis length_greater_0_conv)
  then show ?case using 0 by simp
next
  case (Suc k)
  then have i: "i < length pieces" by simp
  have "drop i (snapshot_chunks X pieces) = snapshot_chunks X pieces ! i # drop (Suc i) (snapshot_chunks X pieces)"
    using i snapshot_chunks_nth(2) [OF i] by (simp add: Cons_nth_drop_Suc)
  moreover have "verify_merkle_proof X (sha3_hash X (pieces ! i)) (merkle_proof X (map (sha3_hash X) pieces) i) i (merkle_root X (map (sha3_hash X) pieces))"
    using verify_generated_proof [OF assms(1), of i "map (sha3_hash X) pieces"] i by simp
  ultimately show ?case using Suc.hyps(1) [of "Suc i"] Suc.hyps(2) i assms(2) snapshot_chunks_nth(1) [OF i] by (simp add: describes_def)
qed

text \<open>Well-formed chunks of a state decode to the state; nothing but the state root of the manifest ties its accounts to anything.\<close>
lemma decode_honest:
  assumes "sha3_digest_size X" "serializer (bin_snapshot Bc) {S}" "enc_of (bin_snapshot Bc) S \<noteq> []"
    and "pieces = chunks_of SNAPSHOT_CHUNK_SIZE (enc_of (bin_snapshot Bc) S)" "describes X pieces m"
    and "mf_state_root m = compute_full X (collect (ss_accounts S)) (collect (ss_contracts S))" "ss_blocks S \<noteq> []"
    and "mf_genesis_hash m = blk_hash (ss_blocks S ! 0)" "mf_latest_hash m = blk_hash (last (ss_blocks S))"
  shows "decode_snapshot_state X Bc m (snapshot_chunks X pieces) = Inr S"
proof -
  have n: "SNAPSHOT_CHUNK_SIZE \<noteq> 0" by (simp add: SNAPSHOT_CHUNK_SIZE_def)
  have ne: "pieces \<noteq> []" using assms(3,4) by (simp add: chunks_of_empty [OF n])
  have len: "length (snapshot_chunks X pieces) = length pieces" using snapshot_chunks_nth(2) [of 0 pieces X] ne by simp
  then have "map ch_data (snapshot_chunks X pieces) = pieces"
    by (intro nth_equalityI) (simp_all add: snapshot_chunks_nth)
  then have "cd_dec (bin_snapshot Bc) (concat (map ch_data (snapshot_chunks X pieces))) = Inr S"
    using assms(4) serializer.enc_dec(2) [OF assms(2)] by (simp add: concat_chunks [OF n])
  moreover have "check_chunks X m 0 (snapshot_chunks X pieces) = Inr ()" using check_honest_chunks [OF assms(1,5) ne, of 0] by simp
  ultimately show ?thesis using assms(5-9) by (simp add: decode_snapshot_state_def describes_def)
qed

lemma collect_entries: "finite (dom m) \<Longrightarrow> collect (entries m) = m"
proof -
  assume "finite (dom m)"
  then have "map_of (rev (entries m)) = map_of (entries m)"
    by (simp add: map_of_inject_set rev_map [symmetric] map_fst_entries keys_def)
  then show ?thesis using \<open>finite (dom m)\<close> by (simp add: collect_def map_of_entries fun_eq_iff)
qed

lemma collect_filtered:
  assumes "finite (dom m)"
  shows "collect (filter (\<lambda>(k, _). P k) (entries m)) = m |` {k. P k}"
proof -
  have d: "distinct (map fst (entries m))" by (simp add: map_fst_entries keys_def)
  have "map_of (filter (\<lambda>(k, _). P k) xs) k = (if P k then map_of xs k else None)" for xs :: "('a \<times> 'b) list" and k
    by (induction xs) auto
  moreover have "map_of (rev (filter (\<lambda>(k, _). P k) (entries m))) = map_of (filter (\<lambda>(k, _). P k) (entries m))"
    by (rule map_of_inject_set [THEN iffD2]) (use d in \<open>auto simp: rev_map [symmetric] distinct_map intro: inj_on_subset\<close>)
  ultimately show ?thesis
    using map_of_entries [OF assms] by (simp add: collect_def fun_eq_iff restrict_map_def)
qed

section \<open>Installing\<close>

lemma replace_all_keeps [simp]:
  "bc_genesis_config (replace_all_blocks c bs) = bc_genesis_config c" "bc_finality_tracker (replace_all_blocks c bs) = bc_finality_tracker c"
proof -
  have "bc_genesis_config (fold (\<lambda>b c. push_block_internal c b) bs c) = bc_genesis_config c
    \<and> bc_finality_tracker (fold (\<lambda>b c. push_block_internal c b) bs c) = bc_finality_tracker c" for c
    by (induction bs arbitrary: c) (simp_all add: push_block_internal_def split: sum.split)
  then show "bc_genesis_config (replace_all_blocks c bs) = bc_genesis_config c" "bc_finality_tracker (replace_all_blocks c bs) = bc_finality_tracker c"
    by (simp_all add: replace_all_blocks_def)
qed

lemma install_snapshot_state [simp]:
  "bc_accounts (install_snapshot X c m S) = collect (ss_accounts S)" "bc_contracts (install_snapshot X c m S) = collect (ss_contracts S)"
  "bc_receipts (install_snapshot X c m S) = collect (ss_receipts S)" "bc_cursor (install_snapshot X c m S) = bc_cursor (replace_all_blocks c (ss_blocks S))"
  "bc_finality_tracker (install_snapshot X c m S) = tracker_with_finalized (mf_finalized_height m) (mf_finalized_hash m)"
  "bc_epoch_snapshots (install_snapshot X c m S) = collect (ss_epoch_snapshots S)" "bc_pending_transactions (install_snapshot X c m S) = ss_pending_transactions S"
  "bc_slashed_validators (install_snapshot X c m S) = set (ss_slashed_validators S)"
  "bc_token_registry (install_snapshot X c m S) = bc_token_registry (replace_all_blocks c (ss_blocks S))"
  by (simp_all add: install_snapshot_def Let_def)

text \<open>An accepted snapshot decodes, conflicts with no protected block, and is installed.\<close>
lemma apply_snapshot_ok:
  assumes "apply_snapshot X Bc p c m chunks = (Inr (), c', p')"
  obtains S where "decode_snapshot_state X Bc m chunks = Inr S" "c' = install_snapshot X c m S"
    "\<And>b. b \<in> set (ss_blocks S) \<Longrightarrow> \<not> conflicts c (min (ft_finalized_height (bc_finality_tracker c)) (mf_finalized_height m)) b"
  using assms by (auto simp: apply_snapshot_def Let_def split: sum.splits if_splits prod.splits)

lemma decode_blocks:
  assumes "decode_snapshot_state X Bc m chunks = Inr S"
  shows "ss_blocks S \<noteq> []" "mf_state_root m = compute_full X (collect (ss_accounts S)) (collect (ss_contracts S))"
  using assms by (auto simp: decode_snapshot_state_def split: sum.splits if_splits)

text \<open>The blocks of a view are those of a list, under their heights.\<close>
definition view_within :: "block \<Rightarrow> block set \<Rightarrow> chain_view \<Rightarrow> bool" where
  "view_within g B v \<longleftrightarrow> (cv_genesis v = g \<or> cv_genesis v \<in> B \<and> blk_height (cv_genesis v) = 0)
     \<and> (\<forall>h b. h < cv_count v \<longrightarrow> h \<noteq> 0 \<longrightarrow> cv_blocks v h = Some b \<longrightarrow> b \<in> B \<and> blk_height b = h)"

lemma view_append_within:
  assumes "view_within g B v" "b \<in> B" "view_append v b = Inr v'"
  shows "view_within g B v'"
proof -
  have lt: "h < n" if "h < n + 1" "h \<noteq> n" for h n :: u64
  proof (cases "1 + n = 0")
    case False
    then have "unat h < Suc (unat n)" using that(1) unatSuc [of n] by (simp add: word_less_nat_alt add.commute)
    moreover have "unat h \<noteq> unat n" using that(2) by (simp add: word_unat_eq_iff)
    ultimately show ?thesis by (simp add: word_less_nat_alt)
  qed (use that(1) in \<open>simp add: add.commute\<close>)
  show ?thesis
    using assms by (auto simp: view_within_def view_append_def Let_def split: if_splits) (metis lt)+
qed

lemma push_all_within:
  "view_within g B (bc_cursor c) \<Longrightarrow> set bs \<subseteq> B \<Longrightarrow> view_within g B (bc_cursor (fold (\<lambda>b c. push_block_internal c b) bs c))"
proof (induction bs arbitrary: c)
  case (Cons b bs)
  then show ?case by (auto simp: push_block_internal_def view_append_within split: sum.split)
qed simp

lemma replace_all_within: "view_within (genesis_block c) (set bs) (bc_cursor (replace_all_blocks c bs))"
  unfolding replace_all_blocks_def
  by (rule push_all_within) (auto simp: view_within_def view_invalidate_from_def genesis_block_def word_gt_0)

lemma within_block_at:
  assumes "view_within (genesis_block c) B (bc_cursor d)" "block_at_height d h = Some l"
  shows "l = genesis_block c \<and> h = 0 \<or> l \<in> B \<and> blk_height l = h"
  using assms by (auto simp: view_within_def block_at_height_def view_block_at_def not_le split: if_splits)

text \<open>What state sync protects. Whatever manifest and chunks a peer sends: if \<open>apply_snapshot\<close> accepts them, the genesis block of the new chain
  and its block at every height that is final both locally and in the manifest have the hash of the local block at that height. The peer chooses the finalized
  height of the manifest, so that a local block that is final above it may be replaced.\<close>
lemma snapshot_keeps_finalized:
  assumes "apply_snapshot X Bc p c m chunks = (Inr (), c', p')"
    and "h = 0 \<or> h \<le> min (ft_finalized_height (bc_finality_tracker c)) (mf_finalized_height m)"
    and "block_at_height c h = Some l" "block_at_height c' h = Some l'"
  shows "blk_hash l' = blk_hash l"
proof -
  obtain S where S: "c' = install_snapshot X c m S"
    "\<And>b. b \<in> set (ss_blocks S) \<Longrightarrow> \<not> conflicts c (min (ft_finalized_height (bc_finality_tracker c)) (mf_finalized_height m)) b"
    using apply_snapshot_ok [OF assms(1)] by metis
  have "view_within (genesis_block c) (set (ss_blocks S)) (bc_cursor c')" using replace_all_within by (simp add: S(1))
  then have "l' = genesis_block c \<and> h = 0 \<or> l' \<in> set (ss_blocks S) \<and> blk_height l' = h" using within_block_at assms(4) by blast
  moreover have "block_at_height c 0 = Some (genesis_block c)" by (simp add: block_at_height_def view_block_at_def genesis_block_def)
  ultimately show ?thesis using S(2) [of l'] assms(2,3) by (auto simp: conflicts_def)
qed

section \<open>Serving chunks\<close>

lemma chunk_key_inj: "chunk_key h i = chunk_key h j \<Longrightarrow> i < 2 ^ 64 \<Longrightarrow> j < 2 ^ 64 \<Longrightarrow> i = j"
proof -
  assume "chunk_key h i = chunk_key h j" "i < 2 ^ 64" "j < 2 ^ 64"
  then have "(of_nat i :: u64) = of_nat j" by (simp add: chunk_key_def u64_be_inj)
  then have "unat (of_nat i :: u64) = unat (of_nat j :: u64)" by simp
  then show "i = j" using \<open>i < 2 ^ 64\<close> \<open>j < 2 ^ 64\<close> by (simp add: unat_of_nat_small)
qed

lemma put_chunks_get:
  assumes "put_chunks Bc h n chs db = (Inr (), db')" "serializer (bin_chunk Bc) (set chs)" "distinct (map ch_index chs)"
    and "\<And>ch. ch \<in> set chs \<Longrightarrow> ch_index ch < 2 ^ 64"
  shows "ch \<in> set chs \<Longrightarrow> get_snapshot_chunk Bc db' h (ch_index ch) = Inr (Some ch)"
    "k < 2 ^ 64 \<Longrightarrow> k \<notin> ch_index ` set chs \<Longrightarrow> get_snapshot_chunk Bc db' h k = get_snapshot_chunk Bc db h k"
proof -
  have "(\<forall>ch \<in> set chs. get_snapshot_chunk Bc db' h (ch_index ch) = Inr (Some ch))
    \<and> (\<forall>k < 2 ^ 64. k \<notin> ch_index ` set chs \<longrightarrow> get_snapshot_chunk Bc db' h k = get_snapshot_chunk Bc db h k)"
    using assms
  proof (induction chs arbitrary: db)
    case (Cons a chs)
    have ser: "serializer (bin_chunk Bc) {a}" "serializer (bin_chunk Bc) (set chs)" using Cons.prems(2) serializer_mono by fastforce+
    have i: "table_insert (bin_chunk Bc) k a t = Inr (t(k \<mapsto> enc_of (bin_chunk Bc) a))" for k t
      by (rule serializer.insert_Inr [OF ser(1)]) simp
    define db1 where "db1 = db\<lparr>tb_chunks := (tb_chunks db)(chunk_key h (ch_index a) \<mapsto> enc_of (bin_chunk Bc) a)\<rparr>"
    have run: "put_chunks Bc h n chs db1 = (Inr (), db')" using Cons.prems(1) by (auto simp: put_snapshot_chunk_def i db1_def split: if_splits)
    note IH = Cons.IH [OF run ser(2)]
    have a: "get_snapshot_chunk Bc db1 h (ch_index a) = Inr (Some a)"
      using serializer.get(2) [OF ser(1)] by (simp add: get_snapshot_chunk_def db1_def)
    have other: "get_snapshot_chunk Bc db1 h k = get_snapshot_chunk Bc db h k" if "k < 2 ^ 64" "k \<noteq> ch_index a" for k
      using chunk_key_inj [of h k "ch_index a"] that Cons.prems(4) [of a] by (auto simp: get_snapshot_chunk_def db1_def table_get_def)
    show ?case using IH Cons.prems(3,4) a other by auto
  qed simp
  then show "ch \<in> set chs \<Longrightarrow> get_snapshot_chunk Bc db' h (ch_index ch) = Inr (Some ch)"
    "k < 2 ^ 64 \<Longrightarrow> k \<notin> ch_index ` set chs \<Longrightarrow> get_snapshot_chunk Bc db' h k = get_snapshot_chunk Bc db h k" by blast+
qed

lemma created_snapshot:
  assumes "create_snapshot X Bc now (Some db) c = Some (Inr m, Some db')"
  obtains chunks db1 where "build_snapshot X Bc now c = Some (Inr (m, chunks))"
    "put_chunks Bc (mf_height m) (length chunks) chunks db = (Inr (), db1)" "tb_chunks db' = tb_chunks db1"
  using assms by (auto simp: create_snapshot_def put_snapshot_manifest_def table_insert_def split: option.splits sum.splits prod.splits)

lemma built_snapshot:
  assumes "build_snapshot X Bc now c = Some (Inr (m, chunks))"
  obtains b L data where "block_at_height c (snapshot_height c) = Some b" "replay_state_to_canonical_height X now c (snapshot_height c) = Some (Inr L)"
    "cd_enc (bin_snapshot Bc) (snapshot_state_of c (snapshot_height c) (blk_hash b) L) = Inr data"
    "m = snapshot_manifest_of X c (snapshot_height c) (blk_hash b) L (chunks_of SNAPSHOT_CHUNK_SIZE data)"
    "chunks = snapshot_chunks X (chunks_of SNAPSHOT_CHUNK_SIZE data)"
  using assms by (auto simp: build_snapshot_def Let_def split: option.splits sum.splits)

section \<open>Replayed ledgers\<close>

lemma replay_loop_finite:
  assumes "evm_finite X" "replay_loop X now c prev bs L missed = Inr L'" "finite_ledger L" "finite (dom missed)"
  shows "finite_ledger L'"
  using assms(2-4)
proof (induction bs arbitrary: prev L missed)
  case (Cons b bs)
  obtain L1 missed1 where r: "replay_block X now c prev b L missed = Inr (L1, missed1)" "replay_loop X now c b bs L1 missed1 = Inr L'"
    using Cons.prems(1) by (cases "replay_block X now c prev b L missed") auto
  obtain accs m1 where s: "apply_epoch_settlement_for_block (blk_height b) (bc_epoch_length c) (bc_epoch_snapshots c)
      (proposer_addresses_for_settling_epoch X c (blk_height b)) (lg_accounts L) missed = (accs, m1)" by fastforce
  note fin = settlement_finite [OF finite_ledger_dom(1) [OF Cons.prems(2)] Cons.prems(3) s]
  obtain ex where ex: "validate_block_against_state X c now b prev accs (lg_contracts L) (lg_tokens L) (lg_governance L) = Inr ex"
    "L1 = ex\<lparr>lg_receipts := lg_receipts L ++ lg_receipts ex\<rparr>" "missed1 = m1"
    using r(1) by (auto simp: replay_block_def Let_def s split: sum.splits)
  have "finite_ledger ex" by (rule validated_finite [OF assms(1) ex(1) fin(1) finite_ledger_dom(2) [OF Cons.prems(2)]])
  then have "finite_ledger L1" unfolding ex(2) using Cons.prems(2) by simp
  then show ?case using Cons.IH [OF r(2)] fin(2) ex(3) by simp
qed simp

lemma replay_finite:
  assumes "evm_finite X" "replay_state_to_canonical_height X now c h = Some (Inr L)"
  shows "finite_ledger L"
proof -
  obtain accs first rest where "accounts_from_genesis X (bc_genesis_config c) = Inr accs"
    "replay_loop X now c first rest (empty_ledger accs) Map.empty = Inr L"
    using assms(2) by (auto simp: replay_state_to_canonical_height_def replay_state_to_tip_def split: option.splits sum.splits list.splits)
  moreover have "finite_ledger (empty_ledger accs)"
    using genesis_accounts_finite [OF calculation(1)] by (simp add: finite_ledger_def empty_ledger_def)
  ultimately show ?thesis using replay_loop_finite [OF assms(1)] by (metis dom_empty finite.emptyI)
qed

section \<open>The round trip of a snapshot\<close>

lemma snapshot_blocks:
  assumes "holds_blocks c gen bs" "block_at_height c (snapshot_height c) = Some b"
  shows "unat (snapshot_height c) \<le> length bs" "take (unat (snapshot_height c) + 1) (iter_blocks c) = gen # take (unat (snapshot_height c)) bs"
    "b = last (gen # take (unat (snapshot_height c)) bs)"
proof -
  have "unat (height c) = length bs" using assms(1) by (simp add: height_def unat_sat_sub holds_blocks_def)
  then show n: "unat (snapshot_height c) \<le> length bs"
    by (auto simp: snapshot_height_def min_def word_le_nat_alt not_le)
  show "take (unat (snapshot_height c) + 1) (iter_blocks c) = gen # take (unat (snapshot_height c)) bs"
    using holds_blocks_iter [OF assms(1)] by simp
  have "b = (gen # bs) ! unat (snapshot_height c)" using holds_blocks_at [OF assms(1) n] assms(2) by simp
  then show "b = last (gen # take (unat (snapshot_height c)) bs)"
    using n by (cases "unat (snapshot_height c)") (auto simp: last_conv_nth min_def)
qed

text \<open>The blocks of a chain up to a height, installed on another chain.\<close>
lemma install_holds:
  assumes "holds_blocks c gen bs" "n \<le> length bs" "blk_height gen = 0" "cv_base (bc_cursor d) \<le> 1" "ss_blocks S = gen # take n bs"
  shows "iter_blocks (install_snapshot X d m S) = gen # take n bs"
proof -
  have "Suc (length bs) < 2 ^ 64" using assms(1) unat_lt_u64 [of "block_count c"] by (simp add: holds_blocks_def)
  moreover have "unat (blk_height ((gen # take n bs) ! i)) = i" if "i < length (gen # take n bs)" for i
    using that assms(1,3) by (cases i) (auto simp: holds_blocks_def)
  ultimately have "holds_blocks (replace_all_blocks d (gen # take n bs)) gen (take n bs)"
    using replace_all_heights [of "gen # take n bs" d] assms(4) by simp
  then have "holds_blocks (install_snapshot X d m S) gen (take n bs)" by (simp add: holds_blocks_def block_count_def assms(5))
  then show ?thesis by (rule holds_blocks_iter)
qed

text \<open>A chain with nothing final takes any well-formed snapshot of its genesis.\<close>
lemma fresh_accepts:
  assumes "ft_finalized_height (bc_finality_tracker d) = 0" "ft_finalized_hash (bc_finality_tracker d) = []"
    and "mf_chain_id m = gc_chain_id (bc_genesis_config d)" "decode_snapshot_state X Bc m chunks = Inr S"
    and "mf_genesis_hash m = blk_hash (genesis_block d)" "mf_height m = 0 \<Longrightarrow> mf_latest_hash m = blk_hash (genesis_block d)"
    and "\<And>b. b \<in> set (ss_blocks S) \<Longrightarrow> blk_height b = 0 \<Longrightarrow> blk_hash b = blk_hash (genesis_block d)"
  shows "apply_snapshot X Bc NoStorage d m chunks = (Inr (), install_snapshot X d m S, NoStorage)"
proof -
  have g: "block_at_height d 0 = Some (genesis_block d)" by (simp add: block_at_height_def view_block_at_def genesis_block_def)
  have k: "verify_snapshot_against_known cid m = Inr ()" for cid by (simp add: verify_snapshot_against_known_def checkpoints_for_def)
  have "\<not> (\<exists>b \<in> set (ss_blocks S). conflicts d 0 b)" using assms(7) g by (auto simp: conflicts_def split: option.splits)
  then show ?thesis using assms(1-6) g by (auto simp: apply_snapshot_def Let_def k persist_chain_def split: option.split)
qed

lemma manifest_fields [simp]:
  "mf_height (snapshot_manifest_of X c h hash L pieces) = h" "mf_chain_id (snapshot_manifest_of X c h hash L pieces) = gc_chain_id (bc_genesis_config c)"
  "mf_genesis_hash (snapshot_manifest_of X c h hash L pieces) = blk_hash (genesis_block c)" "mf_latest_hash (snapshot_manifest_of X c h hash L pieces) = hash"
  "mf_finalized_height (snapshot_manifest_of X c h hash L pieces) = h" "mf_finalized_hash (snapshot_manifest_of X c h hash L pieces) = hash"
  "mf_state_root (snapshot_manifest_of X c h hash L pieces) = compute_full X (lg_accounts L) (lg_contracts L)"
  "mf_chunk_count (snapshot_manifest_of X c h hash L pieces) = length (snapshot_chunks X pieces)"
  "describes X pieces (snapshot_manifest_of X c h hash L pieces)"
  by (simp_all add: snapshot_manifest_of_def Let_def describes_def)

text \<open>The chunks served from the database are those of the snapshot.\<close>
lemma served_chunks:
  assumes "put_chunks Bc h n (snapshot_chunks X pieces) db = (Inr (), db1)" "tb_chunks db' = tb_chunks db1" "pieces \<noteq> []"
    and "serializer (bin_chunk Bc) (set (snapshot_chunks X pieces))" "length chunks = length pieces" "length pieces < 2 ^ 64"
    and "\<And>i. i < length chunks \<Longrightarrow> get_snapshot_chunk Bc db' h i = Inr (Some (chunks ! i))"
  shows "chunks = snapshot_chunks X pieces"
proof (rule nth_equalityI)
  let ?chs = "snapshot_chunks X pieces"
  have len: "length ?chs = length pieces" using snapshot_chunks_nth(2) [of 0 pieces X] assms(3) by simp
  then show "length chunks = length ?chs" using assms(5) by simp
  have idx: "map ch_index ?chs = [0..<length pieces]" by (rule nth_equalityI) (simp_all add: len snapshot_chunks_nth(1))
  then have "ch_index ` set ?chs = {0..<length pieces}" by (metis set_map set_upt)
  then have small: "ch_index ch < 2 ^ 64" if "ch \<in> set ?chs" for ch
    using imageI [OF that, of ch_index] assms(6) by (metis atLeastLessThan_iff less_trans)
  fix i assume i: "i < length chunks"
  have c: "?chs ! i \<in> set ?chs" using i len assms(5) by (intro nth_mem) simp
  have ci: "ch_index (?chs ! i) = i" using i assms(5) by (simp add: snapshot_chunks_nth(1))
  have "get_snapshot_chunk Bc db1 h i = Inr (Some (?chs ! i))"
    using put_chunks_get(1) [OF assms(1,4) _ _ c] small ci idx by simp
  then show "chunks ! i = ?chs ! i" using assms(7) [OF i] assms(2) by (simp add: get_snapshot_chunk_def)
qed

text \<open>C23. State sync reproduces the state. A node holding the chain \<open>gen # bs\<close> creates a snapshot and stores its chunks; another node of the same genesis,
  with nothing final yet, fetches the chunks one by one from that database and applies them. The application succeeds; the second
  node then holds the blocks of the first up to the snapshot height (the finalized height, or the tip when nothing is final), the accounts,
  contracts and receipts that replaying them gives, the slashed validators and, up to the epoch of that height, the epoch snapshots of
  the first, an empty pool, and has the snapshot block final.\<close>
theorem snapshot_roundtrip:
  assumes "sha3_digest_size X" "evm_finite X" "holds_blocks c gen bs" "blk_height gen = 0"
    and "create_snapshot X Bc now (Some db) c = Some (Inr m, Some db')"
    and "replay_state_to_canonical_height X now c (snapshot_height c) = Some (Inr L)" "block_at_height c (snapshot_height c) = Some b"
    and "S = snapshot_state_of c (snapshot_height c) (blk_hash b) L" "serializer (bin_snapshot Bc) {S}" "enc_of (bin_snapshot Bc) S \<noteq> []"
    and "serializer (bin_chunk Bc) (set (snapshot_chunks X (chunks_of SNAPSHOT_CHUNK_SIZE (enc_of (bin_snapshot Bc) S))))" "mf_chunk_count m < 2 ^ 64"
    and "length chunks = mf_chunk_count m" "\<And>i. i < length chunks \<Longrightarrow> get_snapshot_chunk Bc db' (mf_height m) i = Inr (Some (chunks ! i))"
    and "genesis_block d = gen" "bc_genesis_config d = bc_genesis_config c" "cv_base (bc_cursor d) \<le> 1"
    and "ft_finalized_height (bc_finality_tracker d) = 0" "ft_finalized_hash (bc_finality_tracker d) = []" "finite (bc_slashed_validators c)"
  shows "\<exists>d'. apply_snapshot X Bc NoStorage d m chunks = (Inr (), d', NoStorage)
    \<and> iter_blocks d' = take (unat (snapshot_height c) + 1) (iter_blocks c)
    \<and> bc_accounts d' = lg_accounts L \<and> bc_contracts d' = lg_contracts L \<and> bc_receipts d' = lg_receipts L
    \<and> bc_epoch_snapshots d' = bc_epoch_snapshots c |` {..epoch_for_height c (snapshot_height c)}
    \<and> bc_slashed_validators d' = bc_slashed_validators c \<and> bc_pending_transactions d' = []
    \<and> ft_finalized_height (bc_finality_tracker d') = snapshot_height c \<and> ft_finalized_hash (bc_finality_tracker d') = blk_hash b"
proof -
  let ?h = "snapshot_height c"
  define pieces where "pieces = chunks_of SNAPSHOT_CHUNK_SIZE (enc_of (bin_snapshot Bc) S)"
  obtain chs db1 where b: "build_snapshot X Bc now c = Some (Inr (m, chs))" "put_chunks Bc (mf_height m) (length chs) chs db = (Inr (), db1)"
    "tb_chunks db' = tb_chunks db1"
    using created_snapshot [OF assms(5)] by blast
  have m: "m = snapshot_manifest_of X c ?h (blk_hash b) L pieces" and chs: "chs = snapshot_chunks X pieces"
    using built_snapshot [OF b(1)] assms(6-9) serializer.enc_dec(1) [OF assms(9)] by (auto simp: pieces_def)
  have ne: "pieces \<noteq> []" unfolding pieces_def using assms(10) by (simp add: chunks_of_empty SNAPSHOT_CHUNK_SIZE_def)
  then have "length (snapshot_chunks X pieces) = length pieces" using snapshot_chunks_nth(2) [of 0 pieces X] by simp
  then have chunks: "chunks = snapshot_chunks X pieces"
    using served_chunks [OF b(2) [unfolded chs] b(3) ne assms(11) [folded pieces_def]] assms(12-14) by (simp add: m)
  note blocks = snapshot_blocks [OF assms(3,7)]
  have S: "ss_blocks S = gen # take (unat ?h) bs" "collect (ss_accounts S) = lg_accounts L" "collect (ss_contracts S) = lg_contracts L"
    "collect (ss_receipts S) = lg_receipts L"
    "collect (ss_epoch_snapshots S) = bc_epoch_snapshots c |` {..epoch_for_height c ?h}" "set (ss_slashed_validators S) = bc_slashed_validators c"
    "ss_pending_transactions S = []"
    using replay_finite [OF assms(2,6)] blocks(2) assms(20)
    by (simp_all add: assms(8) snapshot_state_of_def collect_entries collect_filtered atMost_def)
  have gen: "genesis_block c = gen" using assms(3) by (simp add: genesis_block_def holds_blocks_def)
  have dec: "decode_snapshot_state X Bc m chunks = Inr S"
    unfolding chunks by (intro decode_honest [OF assms(1,9,10) pieces_def]) (simp_all add: S blocks(3) m gen)
  have h0: "blk_height b' = 0 \<longrightarrow> b' = gen" if "b' \<in> set (gen # take (unat ?h) bs)" for b'
    using that assms(3) by (auto simp: in_set_conv_nth holds_blocks_def)
  have "apply_snapshot X Bc NoStorage d m chunks = (Inr (), install_snapshot X d m S, NoStorage)"
  proof (rule fresh_accepts [OF assms(18,19) _ dec])
    show "blk_hash b' = blk_hash (genesis_block d)" if "b' \<in> set (ss_blocks S)" "blk_height b' = 0" for b'
      using h0 [of b'] that S(1) assms(15) by auto
  qed (use blocks(3) in \<open>simp_all add: m assms(15,16) gen\<close>)
  moreover have "iter_blocks (install_snapshot X d m S) = gen # take (unat ?h) bs"
    by (rule install_holds [OF assms(3) blocks(1) assms(4,17) S(1)])
  ultimately show ?thesis using S blocks(2) by (simp add: m tracker_with_finalized_def)
qed

section \<open>The accounts of a snapshot are not bound to its blocks\<close>

text \<open>The snapshot state and manifest of a peer that replaces the accounts.\<close>
definition forged_state :: "snapshot_state \<Rightarrow> accounts \<Rightarrow> snapshot_state" where
  "forged_state S accs = S\<lparr>ss_accounts := entries accs\<rparr>"

definition forged_manifest :: "externs \<Rightarrow> snapshot_manifest \<Rightarrow> snapshot_state \<Rightarrow> accounts \<Rightarrow> bytes list \<Rightarrow> snapshot_manifest" where
  "forged_manifest X m S accs pieces = m\<lparr>mf_state_root := compute_full X accs (collect (ss_contracts S)),
     mf_chunk_root := merkle_root X (map (sha3_hash X) pieces), mf_chunk_count := length (snapshot_chunks X pieces),
     mf_chunk_hashes := map (sha3_hash X) pieces\<rparr>"

text \<open>C38. A snapshot can carry any accounts. Take a snapshot that a chain with nothing final accepts, and any finite map of accounts. The
  peer that serves it can exchange the accounts and recompute the roots of the manifest: the chain accepts the result, with the
  same blocks and those accounts, although the state root in the header of its last block is that of the original ones.\<close>
theorem snapshot_accounts_forgeable:
  assumes "sha3_digest_size X" "decode_snapshot_state X Bc m chunks = Inr S" "apply_snapshot X Bc NoStorage d m chunks = (Inr (), d', p)"
    and "ft_finalized_height (bc_finality_tracker d) = 0" "ft_finalized_hash (bc_finality_tracker d) = []"
    and "mf_genesis_hash m = blk_hash (genesis_block d)" "finite (dom accs)"
    and "serializer (bin_snapshot Bc) {forged_state S accs}" "enc_of (bin_snapshot Bc) (forged_state S accs) \<noteq> []"
    and "pieces = chunks_of SNAPSHOT_CHUNK_SIZE (enc_of (bin_snapshot Bc) (forged_state S accs))"
  shows "\<exists>d''. apply_snapshot X Bc NoStorage d (forged_manifest X m S accs pieces) (snapshot_chunks X pieces) = (Inr (), d'', NoStorage)
    \<and> iter_blocks d'' = iter_blocks d' \<and> bc_accounts d'' = accs"
proof -
  let ?m = "forged_manifest X m S accs pieces" and ?S = "forged_state S accs"
  obtain S' where S': "decode_snapshot_state X Bc m chunks = Inr S'" "d' = install_snapshot X d m S'"
    "\<And>b. b \<in> set (ss_blocks S') \<Longrightarrow> \<not> conflicts d (min (ft_finalized_height (bc_finality_tracker d)) (mf_finalized_height m)) b"
    using apply_snapshot_ok [OF assms(3)] by blast
  have "S' = S" using S'(1) assms(2) by simp
  have old: "mf_chain_id m = gc_chain_id (bc_genesis_config d)" "mf_height m = 0 \<Longrightarrow> mf_latest_hash m = blk_hash (genesis_block d)"
    using assms(3,4) by (auto simp: apply_snapshot_def Let_def block_at_height_def view_block_at_def genesis_block_def split: sum.splits if_splits prod.splits)
  have S: "ss_blocks S \<noteq> []" "blk_hash (ss_blocks S ! 0) = mf_genesis_hash m" "blk_hash (last (ss_blocks S)) = mf_latest_hash m"
    using assms(2) by (auto simp: decode_snapshot_state_def split: sum.splits if_splits)
  have dec: "decode_snapshot_state X Bc ?m (snapshot_chunks X pieces) = Inr ?S"
    by (rule decode_honest [OF assms(1,8,9,10)])
      (use S in \<open>simp_all add: forged_manifest_def forged_state_def describes_def collect_entries assms(7)\<close>)
  have g: "block_at_height d 0 = Some (genesis_block d)" by (simp add: block_at_height_def view_block_at_def genesis_block_def)
  have "apply_snapshot X Bc NoStorage d ?m (snapshot_chunks X pieces) = (Inr (), install_snapshot X d ?m ?S, NoStorage)"
  proof (rule fresh_accepts [OF assms(4,5) _ dec])
    show "blk_hash b = blk_hash (genesis_block d)" if "b \<in> set (ss_blocks ?S)" "blk_height b = 0" for b
      using S'(3) [of b] that g assms(4) \<open>S' = S\<close> by (auto simp: conflicts_def forged_state_def)
  qed (use old assms(6) in \<open>simp_all add: forged_manifest_def\<close>)
  moreover have "iter_blocks (install_snapshot X d ?m ?S) = iter_blocks d'"
    by (simp add: iter_blocks_def block_at_height_def block_count_def S'(2) \<open>S' = S\<close> forged_state_def)
  ultimately show ?thesis using collect_entries [OF assms(7)] by (simp add: forged_state_def)
qed

section \<open>Witnesses\<close>

text \<open>The demo chain takes a snapshot of its genesis state.\<close>
definition demo_snapshot :: snapshot_state where
  "demo_snapshot = snapshot_state_of demo_start_chain 0 (blk_hash demo_gen) (empty_ledger (lg_accounts demo_ledger))"

definition demo_pieces :: "snapshot_state \<Rightarrow> snapshot_state \<Rightarrow> bytes list" where
  "demo_pieces S T = chunks_of SNAPSHOT_CHUNK_SIZE (enc_of (lookup_codec [S, T]) S)"

definition demo_manifest :: snapshot_manifest where
  "demo_manifest = snapshot_manifest_of demo_externs demo_start_chain 0 (blk_hash demo_gen) (empty_ledger (lg_accounts demo_ledger))
     (demo_pieces demo_snapshot demo_snapshot)"

lemma demo_start_snapshot:
  "snapshot_height demo_start_chain = 0" "block_at_height demo_start_chain 0 = Some demo_gen" "holds_blocks demo_start_chain demo_gen []"
  "ft_finalized_height (bc_finality_tracker demo_start_chain) = 0" "ft_finalized_hash (bc_finality_tracker demo_start_chain) = []"
  "cv_base (bc_cursor demo_start_chain) = 0" "genesis_block demo_start_chain = demo_gen"
  "bc_block_tree demo_start_chain = tree_from_genesis demo_gen" "accounts_from_genesis demo_externs (bc_genesis_config demo_start_chain) = Inr (lg_accounts demo_ledger)"
proof -
  note ev = demo_start_chain_def from_genesis_def demo_genesis_accounts Let_def demo_gen_def demo_config_fields
  show t: "ft_finalized_height (bc_finality_tracker demo_start_chain) = 0" "ft_finalized_hash (bc_finality_tracker demo_start_chain) = []"
    by (simp_all add: ev tracker_new_def)
  show "snapshot_height demo_start_chain = 0" using demo_start_reads(3) t by (simp add: snapshot_height_def)
  show "genesis_block demo_start_chain = demo_gen" by (rule demo_fork_chain_facts(9))
  show "block_at_height demo_start_chain 0 = Some demo_gen" "cv_base (bc_cursor demo_start_chain) = 0" "holds_blocks demo_start_chain demo_gen []"
    "bc_block_tree demo_start_chain = tree_from_genesis demo_gen" "accounts_from_genesis demo_externs (bc_genesis_config demo_start_chain) = Inr (lg_accounts demo_ledger)"
    by (simp_all add: ev block_at_height_def view_block_at_def holds_blocks_def block_count_def)
qed

text \<open>Encodings of the snapshots \<open>S\<close> and \<open>T\<close>, the manifest \<open>m\<close> and the chunks of \<open>S\<close>.\<close>
definition sync_bincode :: "snapshot_state \<Rightarrow> snapshot_state \<Rightarrow> snapshot_manifest \<Rightarrow> bincode" where
  "sync_bincode S T m = (demo_bincode (from_chain demo_start_chain) (from_chain demo_start_chain))\<lparr>bin_snapshot := lookup_codec [S, T],
     bin_manifest := lookup_codec [m], bin_chunk := lookup_codec (snapshot_chunks demo_externs (demo_pieces S T))\<rparr>"

lemma lookup_enc: "enc_of (lookup_codec vs) v \<noteq> []"
  by (simp add: enc_of_def lookup_codec_def)

lemma sync_bincode_ok:
  "serializer (bin_snapshot (sync_bincode S T m)) {S}" "serializer (bin_snapshot (sync_bincode S T m)) {T}"
  "enc_of (bin_snapshot (sync_bincode S T m)) U \<noteq> []" "serializer (bin_manifest (sync_bincode S T m)) {m}"
  "serializer (bin_chunk (sync_bincode S T m)) (set (snapshot_chunks demo_externs (demo_pieces S T)))"
  "chunks_of SNAPSHOT_CHUNK_SIZE (enc_of (bin_snapshot (sync_bincode S T m)) S) = demo_pieces S T"
  by (simp_all add: sync_bincode_def lookup_serializer lookup_enc demo_pieces_def)

text \<open>One chunk suffices.\<close>
lemma demo_pieces_one: "\<exists>d. demo_pieces S T = [d]"
proof -
  have "length (enc_of (lookup_codec [S, T]) S) \<le> 1" by (simp add: enc_of_def lookup_codec_def)
  then show ?thesis unfolding demo_pieces_def
    by (subst chunks_of.simps, subst chunks_of.simps) (simp add: SNAPSHOT_CHUNK_SIZE_def lookup_enc)
qed

text \<open>A snapshot of one chunk is created and stored.\<close>
lemma one_chunk_created:
  assumes "Bc = sync_bincode S S m" "S = snapshot_state_of c h (blk_hash b) L" "m = snapshot_manifest_of demo_externs c h (blk_hash b) L (demo_pieces S S)"
    and "snapshot_height c = h" "block_at_height c h = Some b" "replay_state_to_canonical_height demo_externs now c h = Some (Inr L)"
  shows "\<exists>db' ch. create_snapshot demo_externs Bc now (Some empty_db) c = Some (Inr m, Some db')
    \<and> mf_chunk_count m = 1 \<and> get_snapshot_chunk Bc db' h 0 = Inr (Some ch)"
proof -
  note ok = sync_bincode_ok [of S S m, folded assms(1)]
  obtain d where d: "demo_pieces S S = [d]" using demo_pieces_one by blast
  define ch where "ch = \<lparr>ch_index = 0, ch_data = d, ch_hash = sha3_hash demo_externs d, ch_proof = merkle_proof demo_externs [sha3_hash demo_externs d] 0\<rparr>"
  have chs: "snapshot_chunks demo_externs [d] = [ch]" by (simp add: snapshot_chunks_def ch_def)
  have b: "build_snapshot demo_externs Bc now c = Some (Inr (m, [ch]))"
    using assms(4-6) serializer.enc_dec(1) [OF ok(1)] ok(6) d
    by (simp add: build_snapshot_def Let_def assms(2,3) [symmetric] chs) (simp add: assms(3) d)
  have i: "table_insert (bin_chunk Bc) k ch t = Inr (t(k \<mapsto> enc_of (bin_chunk Bc) ch))"
    "table_insert (bin_manifest Bc) k m t = Inr (t(k \<mapsto> enc_of (bin_manifest Bc) m))" for k t
    using ok(4,5) by (auto simp: d chs intro!: serializer.insert_Inr)
  have h: "mf_height m = h" "mf_chunk_count m = 1" "ch_index ch = 0"
    by (simp_all add: assms(3) d chs) (simp add: ch_def)
  show ?thesis
    using serializer.get(2) [OF ok(5), of _ _ ch]
    by (simp add: create_snapshot_def b h put_snapshot_chunk_def put_snapshot_manifest_def i get_snapshot_chunk_def d chs)
qed

lemma demo_hashes:
  assumes "blk_height b = 1" "verify_hash demo_externs b"
  shows "blk_hash b \<noteq> blk_hash demo_gen"
proof -
  have h: "compute_hash demo_externs hdr = replicate 24 0 @ u64_le (hdr_height hdr)" for hdr
    by (simp add: compute_hash_def double_hash_def sha3_hash_def demo_sha3_def)
  have "blk_hash demo_gen = compute_hash demo_externs (blk_header demo_gen)" "hdr_height (blk_header demo_gen) = 0"
    by (simp_all add: demo_gen_def genesis_with_state_root_def Let_def)
  then show ?thesis using assms by (simp add: verify_hash_def h le_bytes_def)
qed

text \<open>The tree of the demo chain with one block.\<close>
lemma demo_tree_reads:
  assumes "add_block demo_externs 1700000009 demo_chain b = (Inr (), c)" "blk_height b = 1"
  shows "tree_get (bc_block_tree c) (blk_hash b) = Some b" "tree_get (bc_block_tree c) (blk_hash demo_gen) = Some demo_gen"
    "blk_prev_hash b = blk_hash demo_gen" "blk_hash b \<noteq> blk_hash demo_gen"
proof -
  note gen = demo_start_snapshot(8) demo_gen_facts(3)
  obtain ex where c: "c = commit_block demo_externs demo_chain b ex"
    and v: "validate_block_against_state demo_externs demo_chain 1700000009 b demo_gen (bc_accounts demo_chain) (bc_contracts demo_chain)
      (bc_token_registry demo_chain) (bc_governance demo_chain) = Inr ex"
    using add_block_ok [OF assms(1)] settle_inside_epoch(1) demo_facts(3) assms(2) by (auto simp: Let_def demo_chain_fields(3))
  obtain h: "check_header demo_externs demo_chain 1700000009 b demo_gen (bc_accounts demo_chain) = Inr ()"
    using validate_block_ok [OF v] by blast
  then show p: "blk_prev_hash b = blk_hash demo_gen" and ne: "blk_hash b \<noteq> blk_hash demo_gen"
    using check_header_ok [OF h] demo_hashes [OF assms(2)] by simp_all
  obtain st where f: "bc_block_tree c = (case tree_insert (bc_block_tree demo_chain) b st of Inl _ \<Rightarrow> bc_block_tree demo_chain | Inr (_, t) \<Rightarrow> t)"
    using commit_frame [of b demo_chain demo_externs ex] assms(2) unfolding c by (auto simp: frame_def)
  have "tree_insert (tree_from_genesis demo_gen) b st
      = Inr (tree_attach (tree_from_genesis demo_gen) b \<lparr>be_block = demo_gen, be_cumulative_stake_weight = 0, be_children = []\<rparr> st)"
    using p ne assms(2) gen(2) by (simp add: tree_insert_Inr) (simp add: tree_from_genesis_def word_le_nat_alt)
  moreover have "bc_block_tree demo_chain = tree_from_genesis demo_gen" using gen(1) by (simp add: demo_chain_def)
  ultimately show "tree_get (bc_block_tree c) (blk_hash b) = Some b" "tree_get (bc_block_tree c) (blk_hash demo_gen) = Some demo_gen"
    using f p ne by (simp_all add: tree_attach_def tree_get_def Let_def tree_from_genesis_def split: prod.split)
qed

text \<open>Replaying the one-block demo chain gives its live ledger.\<close>
lemma demo_replay:
  assumes "add_block demo_externs 1700000009 demo_chain b = (Inr (), c)" "blk_height b = 1"
  shows "replay_state_to_canonical_height demo_externs 1700000009 c 1 = Some (Inr \<lparr>lg_accounts = bc_accounts c, lg_contracts = bc_contracts c,
      lg_receipts = bc_receipts c, lg_tokens = bc_token_registry c, lg_governance = bc_governance c\<rparr>)"
proof -
  note gen = demo_start_chain_from_genesis and tree = demo_tree_reads [OF assms]
  note hist = adopts_counted(2) [OF gen demo_block_adopts [OF assms(1)]]
  have g: "genesis_block c = demo_gen" using hist demo_start_snapshot(7) by (simp add: holds_blocks_def genesis_block_def)
  have at: "block_at_height c 1 = Some b" using holds_blocks_at [OF hist, of 1] by simp
  have r: "rules c = rules demo_chain" by (rule add_block_rules [OF assms(1)])
  have e: "bc_epoch_snapshots c = bc_epoch_snapshots demo_chain"
    using add_block_ok [OF assms(1)] settle_inside_epoch(1) demo_facts(3) assms(2) by (auto simp: Let_def)
  have lin: "lineage_loop (bc_block_tree c) (blk_hash demo_gen) (blk_hash b) [] = Some (Inr [demo_gen, b])"
    using tree by (subst lineage_loop.simps, simp, subst lineage_loop.simps, simp)
  have "mirrors c (empty_ledger (lg_accounts demo_ledger)) Map.empty demo_chain"
    using r e unfolding mirrors_def
    by (simp add: empty_ledger_def demo_chain_def demo_start_chain_def from_genesis_def demo_genesis_accounts Let_def)
  moreover have "block_at_height c k = block_at_height demo_chain k" if "unat k < unat (blk_height b)" for k
  proof -
    have "k = 0" using that assms(2) by (simp add: unat_eq_zero)
    then show ?thesis using g demo_start_snapshot(7) by (simp add: block_at_height_def view_block_at_def genesis_block_def demo_chain_def)
  qed
  ultimately obtain L m e' where l: "rebuild_loop demo_externs 1700000009 c demo_gen [b] (empty_ledger (lg_accounts demo_ledger)) Map.empty
      = (Inr (L, m), c\<lparr>bc_epoch_snapshots := e'\<rparr>)" "mirrors (c\<lparr>bc_epoch_snapshots := e'\<rparr>) L m c"
    using rebuild_step [OF _ assms(1) demo_chain_fields(3)] by blast
  have "ensure_epoch_snapshot c (blk_height b) A = c" for A
    using demo_facts(3) rules_fields(5) [OF r] assms(2) by (simp add: ensure_epoch_snapshot_def)
  then have "replay_loop demo_externs 1700000009 c demo_gen [b] (empty_ledger (lg_accounts demo_ledger)) Map.empty = Inr L"
    using l(1) by (auto simp: Let_def split: sum.splits)
  moreover have "accounts_from_genesis demo_externs (bc_genesis_config c) = Inr (lg_accounts demo_ledger)"
    using demo_start_snapshot(9) rules_fields(1) [OF r] by (simp add: demo_chain_def)
  ultimately show ?thesis
    using l(2) lin g at by (simp add: replay_state_to_canonical_height_def replay_state_to_tip_def mirrors_def)
qed

text \<open>A second node at genesis fetches the snapshot of the demo chain with one block.\<close>
theorem snapshot_roundtrip_witness:
  "\<exists>Bc b c m db' ch d'. adopts demo_externs 1700000009 demo_start_chain [b] c
     \<and> create_snapshot demo_externs Bc 1700000009 (Some empty_db) c = Some (Inr m, Some db') \<and> get_snapshot_chunk Bc db' 1 0 = Inr (Some ch)
     \<and> apply_snapshot demo_externs Bc NoStorage demo_start_chain m [ch] = (Inr (), d', NoStorage)
     \<and> iter_blocks d' = [demo_gen, b] \<and> bc_accounts d' = bc_accounts c"
proof -
  obtain b c where b: "add_block demo_externs 1700000009 demo_chain b = (Inr (), c)" "blk_height b = 1" by (rule demo_block_accepted)
  note start = demo_start_snapshot and new = demo_block_adopts [OF b(1)]
  have hist: "holds_blocks c demo_gen [b]" using adopts_counted(2) [OF demo_start_chain_from_genesis new] start(7) by simp
  have at: "block_at_height c 1 = Some b" using holds_blocks_at [OF hist, of 1] by simp
  have "bc_finality_tracker c = bc_finality_tracker demo_start_chain"
    using add_block_tracker [OF b(1)] start(3) by (fastforce simp: demo_chain_def holds_blocks_def block_count_def)
  moreover have "height c = 1" using hist by (simp add: word_unat_eq_iff height_def unat_sat_sub holds_blocks_def)
  ultimately have h: "snapshot_height c = 1" using start(4) by (simp add: snapshot_height_def)
  define L where "L = \<lparr>lg_accounts = bc_accounts c, lg_contracts = bc_contracts c, lg_receipts = bc_receipts c, lg_tokens = bc_token_registry c,
    lg_governance = bc_governance c\<rparr>"
  define S where "S = snapshot_state_of c 1 (blk_hash b) L"
  define m where "m = snapshot_manifest_of demo_externs c 1 (blk_hash b) L (demo_pieces S S)"
  let ?Bc = "sync_bincode S S m"
  note ok = sync_bincode_ok [of S S m] and rp = demo_replay [OF b, folded L_def]
  obtain db' ch where cr: "create_snapshot demo_externs ?Bc 1700000009 (Some empty_db) c = Some (Inr m, Some db')"
    "mf_chunk_count m = 1" "get_snapshot_chunk ?Bc db' 1 0 = Inr (Some ch)"
    using one_chunk_created [OF refl S_def m_def h at rp] by blast
  have it: "iter_blocks c = [demo_gen, b]" using holds_blocks_iter [OF hist] by simp
  have "bc_genesis_config c = bc_genesis_config demo_start_chain" "bc_slashed_validators c = {}"
    using rules_fields(1,9) [OF add_block_rules [OF b(1)]] demo_chain_fields(9) by (simp_all add: demo_chain_def)
  then obtain d' where "apply_snapshot demo_externs ?Bc NoStorage demo_start_chain m [ch] = (Inr (), d', NoStorage)"
    "iter_blocks d' = [demo_gen, b]" "bc_accounts d' = bc_accounts c"
    using snapshot_roundtrip [OF demo_sha3_digest_size demo_evm_finite hist demo_gen_facts(3) cr(1) rp [folded h] at [folded h]
        S_def [folded h] ok(1,3) ok(5) [folded ok(6)], of "[ch]" demo_start_chain] cr start it h
    by (auto simp: m_def L_def)
  then show ?thesis using cr new by blast
qed

lemma demo_applied:
  assumes "Bc = sync_bincode demo_snapshot T demo_manifest" "chs = snapshot_chunks demo_externs (demo_pieces demo_snapshot T)"
    and "d' = install_snapshot demo_externs demo_start_chain demo_manifest demo_snapshot"
  shows "decode_snapshot_state demo_externs Bc demo_manifest chs = Inr demo_snapshot"
    "apply_snapshot demo_externs Bc NoStorage demo_start_chain demo_manifest chs = (Inr (), d', NoStorage)" "iter_blocks d' = [demo_gen]"
proof -
  note start = demo_start_snapshot and ok = sync_bincode_ok [of demo_snapshot T demo_manifest, folded assms(1)]
  have same: "demo_pieces demo_snapshot demo_snapshot = demo_pieces demo_snapshot T" by (simp add: demo_pieces_def enc_of_def lookup_codec_def)
  have it: "iter_blocks demo_start_chain = [demo_gen]" using holds_blocks_iter [OF start(3)] by simp
  have S: "ss_blocks demo_snapshot = [demo_gen]" "collect (ss_accounts demo_snapshot) = lg_accounts demo_ledger" "collect (ss_contracts demo_snapshot) = Map.empty"
    using it demo_ledger_accounts(1) by (simp_all add: demo_snapshot_def snapshot_state_of_def empty_ledger_def collect_entries) (simp add: collect_def)
  show dec: "decode_snapshot_state demo_externs Bc demo_manifest chs = Inr demo_snapshot"
    unfolding assms(2) by (rule decode_honest [OF demo_sha3_digest_size ok(1,3)])
      (use ok(6) in \<open>simp_all add: S same demo_manifest_def start(7) empty_ledger_def\<close>)
  show "apply_snapshot demo_externs Bc NoStorage demo_start_chain demo_manifest chs = (Inr (), d', NoStorage)"
    unfolding assms(3) by (rule fresh_accepts [OF start(4,5) _ dec]) (use start(7) S(1) in \<open>simp_all add: demo_manifest_def\<close>)
  show "iter_blocks d' = [demo_gen]"
    using install_holds [OF start(3) _ demo_gen_facts(3), of 0 demo_start_chain demo_snapshot] start(6) S(1) assms(3) by simp
qed

text \<open>The snapshot with one rich account is accepted as well.\<close>
theorem snapshot_accounts_forgeable_witness:
  "\<exists>Bc m chunks d''. apply_snapshot demo_externs Bc NoStorage demo_start_chain m chunks = (Inr (), d'', NoStorage)
     \<and> iter_blocks d'' = [demo_gen] \<and> bc_accounts d'' = [[7] \<mapsto> default_account\<lparr>acc_balance := 1000000000\<rparr>]"
proof -
  let ?T = "forged_state demo_snapshot [[7] \<mapsto> default_account\<lparr>acc_balance := 1000000000\<rparr>]"
  note app = demo_applied(1,2) [OF refl refl refl, of ?T] and it = demo_applied(3) [OF refl refl refl] and ok = sync_bincode_ok [of demo_snapshot ?T demo_manifest]
  have "mf_genesis_hash demo_manifest = blk_hash (genesis_block demo_start_chain)" by (simp add: demo_manifest_def)
  then show ?thesis
    using snapshot_accounts_forgeable [OF demo_sha3_digest_size app(1,2) demo_start_snapshot(4,5) _ _ ok(2,3) refl] it by fastforce
qed

end
