(* ===== verification/Light.thy ===== *)
theory Light
  imports Finite_State "HOL-Library.Sublist"
begin

text \<open>
  The light client (\<^verbatim>\<open>src/src/light/mod.rs\<close>): it follows the headers of a chain and checks Merkle proofs of accounts and storage against
  their state roots.
\<close>

record signed_header =
  sh_chain_id :: string
  sh_header :: block_header
  sh_block_hash :: bytes
  sh_signature :: "bytes option"

record light_client =
  lc_chain_id :: string
  lc_genesis_hash :: bytes
  lc_headers :: "signed_header list"
  lc_finalized_height :: u64

datatype light_client_error = LightInvalidHash | LightInvalidChainId | LightInvalidPrevHash | LightInvalidHeight
  | LightInvalidSignature | LightMissingParent | LightInvalidProof | LightEmptyHeaders

definition light_client_new :: "string \<Rightarrow> bytes \<Rightarrow> light_client" where
  "light_client_new chain_id genesis_hash =
     \<lparr>lc_chain_id = chain_id, lc_genesis_hash = genesis_hash, lc_headers = [], lc_finalized_height = 0\<rparr>"

definition light_height :: "light_client \<Rightarrow> u64" where
  "light_height lc = (if lc_headers lc = [] then 0 else hdr_height (sh_header (last (lc_headers lc))))"

definition verify_block_signature :: "externs \<Rightarrow> block_header \<Rightarrow> bytes \<Rightarrow> bytes \<Rightarrow> bool" where
  "verify_block_signature X header block_hash signature =
     dilithium_verify X (signable_block_hash block_hash) signature (hdr_validator_public_key header)"

definition verify_header :: "externs \<Rightarrow> light_client \<Rightarrow> signed_header \<Rightarrow> light_client_error + unit" where
  "verify_header X lc sh =
     (if sh_chain_id sh \<noteq> lc_chain_id lc then Inl LightInvalidChainId
      else let header = sh_header sh;
        expected_height = (if lc_headers lc = [] then 0 else hdr_height (sh_header (last (lc_headers lc))) + 1)
      in if hdr_height header \<noteq> expected_height then Inl LightInvalidHeight
      else if compute_hash X header \<noteq> sh_block_hash sh then Inl LightInvalidHash
      else if hdr_height header = 0 then
        if sh_block_hash sh \<noteq> lc_genesis_hash lc \<or> sh_signature sh \<noteq> None then Inl LightInvalidHash else Inr ()
      else if lc_headers lc = [] then Inl LightMissingParent
      else if hdr_prev_hash header \<noteq> sh_block_hash (last (lc_headers lc)) then Inl LightInvalidPrevHash
      else case sh_signature sh of
        None \<Rightarrow> Inl LightInvalidSignature
      | Some signature \<Rightarrow> if \<not> verify_block_signature X header (sh_block_hash sh) signature then Inl LightInvalidSignature else Inr ())"

text \<open>The headers before the first bad one stay in the client.\<close>
fun sync_loop :: "externs \<Rightarrow> signed_header list \<Rightarrow> light_client \<Rightarrow> (light_client_error + unit) \<times> light_client" where
  "sync_loop X [] lc = (Inr (), lc)"
| "sync_loop X (sh # shs) lc = (case verify_header X lc sh of
     Inl e \<Rightarrow> (Inl e, lc)
   | Inr _ \<Rightarrow> sync_loop X shs (lc\<lparr>lc_headers := lc_headers lc @ [sh]\<rparr>))"

definition sync_headers :: "externs \<Rightarrow> light_client \<Rightarrow> signed_header list \<Rightarrow> (light_client_error + u64) \<times> light_client" where
  "sync_headers X lc headers =
     (if headers = [] then (Inl LightEmptyHeaders, lc)
      else case sync_loop X headers lc of
        (Inl e, lc') \<Rightarrow> (Inl e, lc')
      | (Inr _, lc') \<Rightarrow> (Inr (light_height lc'), lc'))"

definition light_verify_account_proof :: "externs \<Rightarrow> account_proof \<Rightarrow> bool" where
  "light_verify_account_proof X p \<longleftrightarrow> sha3_hash X (x_bin_account_leaf X (ap_address p) (ap_state p)) = ap_leaf_hash p
     \<and> verify_merkle_proof X (ap_leaf_hash p) (ap_proof p) (ap_leaf_index p) (ap_state_root p)"

definition light_verify_storage_proof :: "externs \<Rightarrow> storage_proof \<Rightarrow> bool" where
  "light_verify_storage_proof X p =
     (if sha3_hash X (x_bin_storage_leaf X (stp_key p) (stp_value p)) \<noteq> stp_storage_leaf_hash p then False
      else let storage_valid = verify_merkle_proof X (stp_storage_leaf_hash p) (stp_storage_proof p) (stp_storage_leaf_index p) (stp_storage_root p);
          contract_valid = verify_merkle_proof X (stp_contract_leaf_hash p) (stp_contract_proof p) (stp_contract_leaf_index p) (stp_state_root p);
          contract_leaf = sha3_hash X (x_bin_contract_leaf X (stp_contract_address p) (stp_contract_code_hash p) (stp_contract_owner p) (stp_storage_root p))
        in storage_valid \<and> contract_leaf = stp_contract_leaf_hash p \<and> contract_valid)"

definition state_root_at :: "light_client \<Rightarrow> u64 \<Rightarrow> bytes option" where
  "state_root_at lc h = (if unat h < length (lc_headers lc) then Some (hdr_state_root (sh_header (lc_headers lc ! unat h))) else None)"

text \<open>The header a full node serves for a block.\<close>
definition signed_header_of :: "string \<Rightarrow> block \<Rightarrow> signed_header" where
  "signed_header_of chain_id b = \<lparr>sh_chain_id = chain_id, sh_header = blk_header b, sh_block_hash = blk_hash b, sh_signature = blk_signature b\<rparr>"

section \<open>What a client holds\<close>

text \<open>A header that continues the headers before it.\<close>
definition continues :: "externs \<Rightarrow> bytes \<Rightarrow> signed_header list \<Rightarrow> signed_header \<Rightarrow> bool" where
  "continues X genesis_hash prev sh \<longleftrightarrow> compute_hash X (sh_header sh) = sh_block_hash sh
     \<and> (if prev = [] then hdr_height (sh_header sh) = 0 \<and> sh_block_hash sh = genesis_hash
        else unat (hdr_height (sh_header sh)) = length prev \<and> hdr_prev_hash (sh_header sh) = sh_block_hash (last prev)
          \<and> (\<exists>signature. sh_signature sh = Some signature \<and> verify_block_signature X (sh_header sh) (sh_block_hash sh) signature))"

definition header_chain :: "externs \<Rightarrow> bytes \<Rightarrow> signed_header list \<Rightarrow> bool" where
  "header_chain X genesis_hash shs \<longleftrightarrow> (\<forall>i < length shs. continues X genesis_hash (take i shs) (shs ! i))"

lemma header_chain_snoc: "header_chain X g (shs @ [sh]) \<longleftrightarrow> header_chain X g shs \<and> continues X g shs sh"
  by (auto simp: header_chain_def nth_append less_Suc_eq)

lemma header_chain_height:
  assumes "header_chain X g shs" "i < length shs"
  shows "unat (hdr_height (sh_header (shs ! i))) = i"
proof -
  have c: "continues X g (take i shs) (shs ! i)" using assms by (simp add: header_chain_def)
  show ?thesis
  proof (cases i)
    case 0
    then show ?thesis using c by (simp add: continues_def)
  next
    case (Suc n)
    then have "take i shs \<noteq> []" using assms(2) by auto
    then show ?thesis using c assms(2) by (simp add: continues_def)
  qed
qed

lemma verified_continues:
  assumes "verify_header X lc sh = Inr ()" "header_chain X (lc_genesis_hash lc) (lc_headers lc)" "length (lc_headers lc) < 2 ^ 64"
  shows "continues X (lc_genesis_hash lc) (lc_headers lc) sh"
proof (cases "lc_headers lc = []")
  case True
  then show ?thesis using assms(1) by (auto simp: verify_header_def continues_def Let_def split: if_splits)
next
  case False
  have "last (lc_headers lc) = lc_headers lc ! (length (lc_headers lc) - 1)" using False by (rule last_conv_nth)
  then have h: "unat (hdr_height (sh_header (last (lc_headers lc)))) = length (lc_headers lc) - 1"
    using header_chain_height [OF assms(2), of "length (lc_headers lc) - 1"] False by simp
  then have n: "unat (hdr_height (sh_header (last (lc_headers lc))) + 1) = length (lc_headers lc)"
    using False assms(3) by (simp add: unat_add_exact Suc_leI)
  then have "hdr_height (sh_header (last (lc_headers lc))) + 1 \<noteq> 0" using False by (metis length_0_conv unat_0)
  then show ?thesis
    using assms(1) False n by (auto simp: verify_header_def continues_def Let_def split: if_splits option.splits)
qed

lemma sync_loop_keeps:
  assumes "header_chain X (lc_genesis_hash lc) (lc_headers lc)" "sync_loop X shs lc = (r, lc')" "length (lc_headers lc') \<le> 2 ^ 64"
  shows "header_chain X (lc_genesis_hash lc) (lc_headers lc') \<and> lc_genesis_hash lc' = lc_genesis_hash lc \<and> prefix (lc_headers lc) (lc_headers lc')"
  using assms
proof (induction shs arbitrary: lc)
  case (Cons sh shs)
  show ?case
  proof (cases "verify_header X lc sh")
    case (Inr u)
    let ?lc = "lc\<lparr>lc_headers := lc_headers lc @ [sh]\<rparr>"
    have run: "sync_loop X shs ?lc = (r, lc')" using Cons.prems(2) Inr by simp
    have grow: "length (lc_headers lc) \<le> length (lc_headers lc')" if "sync_loop X shs lc = (r, lc')" for shs lc
      using that by (induction shs arbitrary: lc) (fastforce split: sum.splits)+
    then have "length (lc_headers lc) < 2 ^ 64" using grow [OF run] Cons.prems(3) by simp
    then have "continues X (lc_genesis_hash lc) (lc_headers lc) sh" using verified_continues [OF _ Cons.prems(1)] Inr by simp
    then have "header_chain X (lc_genesis_hash ?lc) (lc_headers ?lc)" using Cons.prems(1) by (simp add: header_chain_snoc)
    from Cons.IH [OF this run Cons.prems(3)] show ?thesis by (auto simp: prefix_def)
  qed (use Cons.prems in auto)
qed simp

text \<open>One call of the client, whatever it is given and whatever it returns.\<close>
definition light_step :: "externs \<Rightarrow> light_client \<Rightarrow> light_client \<Rightarrow> bool" where
  "light_step X lc lc' \<longleftrightarrow> (\<exists>shs. lc' = snd (sync_headers X lc shs)) \<and> length (lc_headers lc') \<le> 2 ^ 64"

interpretation light: transition_system "\<lambda>lc. lc_headers lc = [] \<and> lc_genesis_hash lc = g" "light_step X"
  "\<lambda>lc. header_chain X g (lc_headers lc) \<and> lc_genesis_hash lc = g" for X g
proof
  fix lc lc'
  assume inv: "header_chain X g (lc_headers lc) \<and> lc_genesis_hash lc = g" and "light_step X lc lc'"
  then obtain shs where s: "lc' = snd (sync_headers X lc shs)" "length (lc_headers lc') \<le> 2 ^ 64" by (auto simp: light_step_def)
  obtain r l where r: "sync_loop X shs lc = (r, l)" by fastforce
  then have "lc' = l \<or> lc' = lc" using s(1) by (auto simp: sync_headers_def split: sum.splits if_splits)
  then show "header_chain X g (lc_headers lc') \<and> lc_genesis_hash lc' = g"
    using inv sync_loop_keeps [OF _ r] s(2) by auto
qed (simp add: header_chain_def)

lemma header_hash: "header_chain X g shs \<Longrightarrow> i < length shs \<Longrightarrow> sh_block_hash (shs ! i) = compute_hash X (sh_header (shs ! i))"
  by (simp add: header_chain_def continues_def)

lemma header_link:
  assumes "header_chain X g shs" "Suc i < length shs"
  shows "hdr_prev_hash (sh_header (shs ! Suc i)) = sh_block_hash (shs ! i)"
proof -
  have "continues X g (take (Suc i) shs) (shs ! Suc i)" using assms by (simp add: header_chain_def)
  moreover have "take (Suc i) shs = take i shs @ [shs ! i]" using assms(2) by (simp add: take_Suc_conv_app_nth)
  ultimately show ?thesis by (simp add: continues_def)
qed

text \<open>C25. One hash fixes the history. Two light clients may have synchronised with any peers. If they hold the same block hash at some height,
  they hold the same headers at that height and at every height below, or the two histories contain two different headers with
  the same hash.\<close>
theorem light_history_binding:
  assumes "(light_step X)\<^sup>*\<^sup>* (light_client_new cid g) lc" "(light_step X)\<^sup>*\<^sup>* (light_client_new cid' g') lc'"
    and "i < length (lc_headers lc)" "i < length (lc_headers lc')" "sh_block_hash (lc_headers lc ! i) = sh_block_hash (lc_headers lc' ! i)"
  shows "(\<forall>j \<le> i. sh_header (lc_headers lc ! j) = sh_header (lc_headers lc' ! j))
    \<or> (\<exists>j \<le> i. sh_header (lc_headers lc ! j) \<noteq> sh_header (lc_headers lc' ! j)
        \<and> compute_hash X (sh_header (lc_headers lc ! j)) = compute_hash X (sh_header (lc_headers lc' ! j)))"
proof -
  let ?a = "lc_headers lc" and ?b = "lc_headers lc'"
  have a: "header_chain X g ?a" using light.reachable_inv [OF _ assms(1)] by (simp add: light_client_new_def)
  have b: "header_chain X g' ?b" using light.reachable_inv [OF _ assms(2)] by (simp add: light_client_new_def)
  show ?thesis
    using assms(3-5)
  proof (induction i)
    case 0
    then show ?case using header_hash [OF a, of 0] header_hash [OF b, of 0] by fastforce
  next
    case (Suc i)
    have h: "compute_hash X (sh_header (?a ! Suc i)) = compute_hash X (sh_header (?b ! Suc i))"
      using Suc.prems header_hash [OF a] header_hash [OF b] by simp
    show ?case
    proof (cases "sh_header (?a ! Suc i) = sh_header (?b ! Suc i)")
      case True
      then have "sh_block_hash (?a ! i) = sh_block_hash (?b ! i)"
        using header_link [OF a Suc.prems(1)] header_link [OF b Suc.prems(2)] by simp
      then show ?thesis using Suc True by (auto simp: le_Suc_eq)
    qed (use h in auto)
  qed
qed

section \<open>Following a full node\<close>

text \<open>Each adopted block continues the chain before it.\<close>
definition block_links :: "externs \<Rightarrow> block \<Rightarrow> block list \<Rightarrow> bool" where
  "block_links X gen bs \<longleftrightarrow> (\<forall>i < length bs. verify_hash X (bs ! i) \<and> blk_verify_signature X (bs ! i)
     \<and> blk_prev_hash (bs ! i) = blk_hash ((gen # bs) ! i) \<and> unat (blk_height (bs ! i)) = Suc i)"

lemma adopted_links:
  assumes "from_genesis X gc = Inr c0" "adopts X T c0 bs c" "Suc (length bs) < 2 ^ 64"
  shows "block_links X (genesis_block c0) bs"
  using assms(2,3)
proof induction
  case (adopts_block bs c now b c')
  let ?gen = "genesis_block c0" and ?c = "settle_before_block X c (blk_height b)"
  have start: "holds_blocks c0 ?gen []" "blk_height ?gen = 0"
    using assms(1) by (auto simp: from_genesis_def Let_def holds_blocks_def block_count_def genesis_block_def split: sum.splits)
  have holds: "holds_blocks c ?gen bs" using adopts_history [OF adopts_block.hyps(1) start] adopts_block.prems by simp
  obtain prev ex where v: "latest_block c = Some prev"
    "validate_block_against_state X ?c now b prev (bc_accounts ?c) (bc_contracts ?c) (bc_token_registry ?c) (bc_governance ?c) = Inr ex"
    using add_block_ok [OF adopts_block.hyps(3)] by (auto simp: Let_def)
  have "check_header X ?c now b prev (bc_accounts ?c) = Inr ()" using validate_block_ok [OF v(2)] by blast
  note ok = check_header_ok [OF this]
  have "unat (blk_height b) = Suc (length bs)" using holds_blocks_add(2) [OF holds start(2) adopts_block.hyps(3)] adopts_block.prems by simp
  moreover have "last (?gen # bs) = (?gen # bs) ! length bs" by (simp add: last_conv_nth)
  then have "prev = (?gen # bs) ! length bs" using v(1) holds_blocks_latest [OF holds] by (metis option.inject)
  ultimately show ?case
    using adopts_block.IH adopts_block.prems ok by (auto simp: block_links_def nth_append less_Suc_eq nth_Cons' split: if_splits)
qed (simp_all add: block_links_def)

lemma sync_loop_all:
  assumes "\<And>i. i < length shs \<Longrightarrow> verify_header X (lc\<lparr>lc_headers := lc_headers lc @ take i shs\<rparr>) (shs ! i) = Inr ()"
  shows "sync_loop X shs lc = (Inr (), lc\<lparr>lc_headers := lc_headers lc @ shs\<rparr>)"
  using assms
proof (induction shs arbitrary: lc)
  case (Cons sh shs)
  have "verify_header X (lc\<lparr>lc_headers := (lc_headers lc @ [sh]) @ take i shs\<rparr>) (shs ! i) = Inr ()" if "i < length shs" for i
    using Cons.prems [of "Suc i"] that by simp
  then show ?case using Cons.IH [of "lc\<lparr>lc_headers := lc_headers lc @ [sh]\<rparr>"] Cons.prems [of 0] by simp
qed simp

text \<open>The live state has the root of the last adopted block.\<close>
lemma adopted_root:
  assumes "adopts X T c0 bs c" "bs \<noteq> []"
  shows "compute_at_protocol X (bc_accounts c) (bc_contracts c) (hdr_version (blk_header (last bs))) = Some (hdr_state_root (blk_header (last bs)))"
  using assms
proof induction
  case (adopts_block bs c now b c')
  let ?c = "settle_before_block X c (blk_height b)"
  obtain prev ex where v: "validate_block_against_state X ?c now b prev (bc_accounts ?c) (bc_contracts ?c) (bc_token_registry ?c) (bc_governance ?c) = Inr ex"
    and c': "c' = commit_block X ?c b ex"
    using add_block_ok [OF adopts_block.hyps(3)] by (auto simp: Let_def)
  have "check_header X ?c now b prev (bc_accounts ?c) = Inr ()"
    "compute_at_protocol X (lg_accounts ex) (lg_contracts ex) (protocol_version_at_height ?c (blk_height b)) = Some (hdr_state_root (blk_header b))"
    using validate_block_ok [OF v] by blast+
  then show ?case using check_header_ok(8) by (simp add: c')
qed simp_all

lemma served_header_verifies:
  assumes "block_links X gen bs" "verify_hash X gen" "blk_signature gen = None" "blk_height gen = 0" "i \<le> length bs" "Suc (length bs) < 2 ^ 64"
    and "lc_chain_id lc = cid" "lc_genesis_hash lc = blk_hash gen" "lc_headers lc = map (signed_header_of cid) (take i (gen # bs))"
  shows "verify_header X lc (signed_header_of cid ((gen # bs) ! i)) = Inr ()"
proof (cases i)
  case 0
  then show ?thesis using assms(2-4,7-9) by (simp add: verify_header_def signed_header_of_def verify_hash_def)
next
  case (Suc n)
  then have n: "n < length bs" using assms(5) by simp
  have b: "verify_hash X (bs ! n)" "blk_verify_signature X (bs ! n)" "blk_prev_hash (bs ! n) = blk_hash ((gen # bs) ! n)" "unat (blk_height (bs ! n)) = Suc n"
    using assms(1) n by (simp_all add: block_links_def)
  have last: "lc_headers lc = map (signed_header_of cid) (take n (gen # bs)) @ [signed_header_of cid ((gen # bs) ! n)]"
    unfolding assms(9) Suc using n by (subst take_Suc_conv_app_nth) simp_all
  have "unat (blk_height ((gen # bs) ! n)) = n" using assms(1,4) n by (cases n) (simp_all add: block_links_def)
  then have h: "blk_height (bs ! n) = blk_height ((gen # bs) ! n) + 1" "blk_height (bs ! n) \<noteq> 0"
    using b(4) n assms(6) by (auto simp: word_unat_eq_iff unat_add_exact)
  obtain signature where "blk_signature (bs ! n) = Some signature" "dilithium_verify X (signable_block_hash (blk_hash (bs ! n))) signature
      (hdr_validator_public_key (blk_header (bs ! n)))"
    using b(2) h(2) by (auto simp: blk_verify_signature_def split: option.splits)
  then show ?thesis
    using b h assms(7) by (simp add: Suc verify_header_def last signed_header_of_def verify_hash_def verify_block_signature_def)
qed

lemma served_sync:
  assumes "block_links X gen bs" "verify_hash X gen" "blk_signature gen = None" "blk_height gen = 0" "Suc (length bs) < 2 ^ 64"
  shows "\<exists>lc. sync_headers X (light_client_new cid (blk_hash gen)) (map (signed_header_of cid) (gen # bs)) = (Inr (of_nat (length bs)), lc)
    \<and> lc_headers lc = map (signed_header_of cid) (gen # bs)"
proof -
  let ?lc = "light_client_new cid (blk_hash gen)" and ?shs = "map (signed_header_of cid) (gen # bs)"
  have "sync_loop X ?shs ?lc = (Inr (), ?lc\<lparr>lc_headers := lc_headers ?lc @ ?shs\<rparr>)"
  proof (rule sync_loop_all)
    fix i assume "i < length ?shs"
    then have i: "i \<le> length bs" "?shs ! i = signed_header_of cid ((gen # bs) ! i)" by (auto simp: nth_Cons')
    show "verify_header X (?lc\<lparr>lc_headers := lc_headers ?lc @ take i ?shs\<rparr>) (?shs ! i) = Inr ()"
      unfolding i(2)
      by (rule served_header_verifies [OF assms(1-4) i(1) assms(5)]) (simp_all add: light_client_new_def take_map del: list.map)
  qed
  moreover have "light_height (?lc\<lparr>lc_headers := lc_headers ?lc @ ?shs\<rparr>) = of_nat (length bs)"
  proof -
    have "last (gen # bs) = (gen # bs) ! length bs" by (simp add: last_conv_nth)
    moreover have "unat (blk_height ((gen # bs) ! length bs)) = length bs"
      using assms(1,4) by (cases "length bs") (auto simp: block_links_def)
    ultimately have "blk_height (last (gen # bs)) = of_nat (length bs)" by (metis unat_of_nat_id)
    then show ?thesis by (simp add: light_height_def light_client_new_def signed_header_of_def last_map split: if_splits)
  qed
  ultimately show ?thesis by (simp add: sync_headers_def light_client_new_def)
qed

text \<open>C24. A light client can follow every full node. The headers of the blocks of any chain that grew from genesis by adopting blocks are accepted by a light
  client that knows the genesis hash only; it reaches the height of the chain, knows the state root of every block, and at the tip
  the root of the accounts and contracts the full node holds.\<close>
theorem light_follows_chain:
  assumes "from_genesis X gc = Inr c0" "adopts X T c0 bs c" "Suc (length bs) < 2 ^ 64"
    and "sync_headers X (light_client_new cid (blk_hash (genesis_block c0))) (map (signed_header_of cid) (iter_blocks c)) = (r, lc)"
  shows "r = Inr (height c) \<and> (\<forall>h b. block_at_height c h = Some b \<longrightarrow> state_root_at lc h = Some (hdr_state_root (blk_header b)))
    \<and> (bs \<noteq> [] \<longrightarrow> state_root_at lc (height c) = compute_at_protocol X (bc_accounts c) (bc_contracts c) (hdr_version (blk_header (last bs))))"
proof -
  let ?gen = "genesis_block c0"
  have gen: "holds_blocks c0 ?gen []" "blk_height ?gen = 0" "verify_hash X ?gen" "blk_signature ?gen = None"
    using assms(1) by (auto simp: from_genesis_def Let_def holds_blocks_def block_count_def genesis_block_def verify_hash_def
        genesis_with_state_root_def split: sum.splits)
  have holds: "holds_blocks c ?gen bs" using adopts_history [OF assms(2) gen(1,2) assms(3)] by simp
  have it: "iter_blocks c = ?gen # bs" by (rule holds_blocks_iter [OF holds])
  have n: "unat (height c) = length bs" using holds by (simp add: height_def unat_sat_sub holds_blocks_def)
  then have hc: "height c = of_nat (length bs)" by (metis unat_of_nat_id)
  have r: "r = Inr (height c)" and lc: "lc_headers lc = map (signed_header_of cid) (?gen # bs)"
    using served_sync [OF adopted_links [OF assms(1-3)] gen(3,4,2) assms(3), of cid] assms(4) unfolding it hc by auto
  have root: "state_root_at lc h = Some (hdr_state_root (blk_header ((?gen # bs) ! unat h)))" if "unat h \<le> length bs" for h
    using that unfolding state_root_at_def lc by (auto simp: nth_Cons' signed_header_of_def)
  have at: "unat h \<le> length bs \<and> b = (?gen # bs) ! unat h" if "block_at_height c h = Some b" for h b
  proof -
    have "unat h \<le> length bs"
      using that holds by (auto simp: block_at_height_def view_block_at_def block_count_def holds_blocks_def word_le_nat_alt split: if_splits)
    then show ?thesis using holds_blocks_at [OF holds, of "unat h"] that by simp
  qed
  have "state_root_at lc (height c) = compute_at_protocol X (bc_accounts c) (bc_contracts c) (hdr_version (blk_header (last bs)))" if "bs \<noteq> []"
  proof -
    have "last bs = (?gen # bs) ! length bs" using that by (simp add: last_conv_nth nth_Cons')
    then show ?thesis using root [of "height c"] n adopted_root [OF assms(2) that] by simp
  qed
  then show ?thesis using r root at by blast
qed

theorem light_follows_chain_witness:
  "\<exists>b c lc. adopts demo_externs 1700000009 demo_start_chain [b] c
     \<and> sync_headers demo_externs (light_client_new ''c'' (blk_hash demo_gen)) (map (signed_header_of ''c'') (iter_blocks c)) = (Inr (height c), lc)
     \<and> state_root_at lc (height c) = compute_at_protocol demo_externs (bc_accounts c) (bc_contracts c) (hdr_version (blk_header b))"
proof -
  obtain b c where b: "add_block demo_externs 1700000009 demo_chain b = (Inr (), c)" by (rule demo_block_accepted)
  obtain r lc where s: "sync_headers demo_externs (light_client_new ''c'' (blk_hash demo_gen)) (map (signed_header_of ''c'') (iter_blocks c)) = (r, lc)"
    by fastforce
  have g: "genesis_block demo_start_chain = demo_gen"
    by (simp add: demo_start_chain_def from_genesis_def demo_genesis_accounts Let_def genesis_block_def demo_gen_def demo_config_fields)
  show ?thesis
    using light_follows_chain [OF demo_start_chain_from_genesis demo_block_adopts [OF b] _ s [folded g]] demo_block_adopts [OF b] s by auto
qed

text \<open>Two clients, under different chain names, that got the genesis header of the demo chain.\<close>
theorem light_history_binding_witness:
  "\<exists>lc lc'. (light_step demo_externs)\<^sup>*\<^sup>* (light_client_new ''c'' (blk_hash demo_gen)) lc
     \<and> (light_step demo_externs)\<^sup>*\<^sup>* (light_client_new ''d'' (blk_hash demo_gen)) lc' \<and> length (lc_headers lc) = 1 \<and> length (lc_headers lc') = 1
     \<and> (sh_header (lc_headers lc ! 0) = sh_header (lc_headers lc' ! 0) \<or> sh_header (lc_headers lc ! 0) \<noteq> sh_header (lc_headers lc' ! 0)
        \<and> compute_hash demo_externs (sh_header (lc_headers lc ! 0)) = compute_hash demo_externs (sh_header (lc_headers lc' ! 0)))"
proof -
  have gen: "verify_hash demo_externs demo_gen" "blk_signature demo_gen = None" "blk_height demo_gen = 0"
    by (simp_all add: demo_gen_def verify_hash_def) (simp add: genesis_with_state_root_def Let_def)
  have "\<exists>lc. (light_step demo_externs)\<^sup>*\<^sup>* (light_client_new cid (blk_hash demo_gen)) lc \<and> lc_headers lc = [signed_header_of cid demo_gen]" for cid
  proof -
    have "block_links demo_externs demo_gen []" by (simp add: block_links_def)
    from served_sync [OF this gen, of cid] obtain lc where
      "sync_headers demo_externs (light_client_new cid (blk_hash demo_gen)) [signed_header_of cid demo_gen] = (Inr 0, lc)"
      "lc_headers lc = [signed_header_of cid demo_gen]" by auto
    then show ?thesis by (intro exI [of _ lc]) (auto simp: light_step_def intro!: r_into_rtranclp exI [of _ "[signed_header_of cid demo_gen]"])
  qed
  then obtain lc lc' where lc: "(light_step demo_externs)\<^sup>*\<^sup>* (light_client_new ''c'' (blk_hash demo_gen)) lc" "lc_headers lc = [signed_header_of ''c'' demo_gen]"
    "(light_step demo_externs)\<^sup>*\<^sup>* (light_client_new ''d'' (blk_hash demo_gen)) lc'" "lc_headers lc' = [signed_header_of ''d'' demo_gen]" by meson
  show ?thesis
    using light_history_binding [OF lc(1,3), of 0] lc by (intro exI [of _ lc] exI [of _ lc']) (auto simp: signed_header_of_def)
qed

text \<open>The proof checks of the client are those of the full node.\<close>
lemma light_proofs: "light_verify_account_proof X = verify_account_proof X" "light_verify_storage_proof X = verify_storage_proof X"
  by (auto simp: fun_eq_iff light_verify_account_proof_def verify_account_proof_def account_leaf_hash_def light_verify_storage_proof_def
      verify_storage_proof_def Let_def)

end
