(* ===== verification/Peers.thy ===== *)
theory Peers
  imports Prelude "HOL-Library.Char_ord"
begin

text \<open>
  Peer bookkeeping of the network node (\<^verbatim>\<open>src/src/network/mod.rs\<close>): the per-peer rate limiter with its bans, the peer scores, the
  address book and the queue of messages gossipsub did not take.

  \<^item> An \<^verbatim>\<open>Instant\<close> is a number of nanoseconds; subtraction of instants saturates, as \<^verbatim>\<open>duration_since\<close> does.
  \<^item> A \<^verbatim>\<open>PeerId\<close> is its printed form. The order in which the hard cap of \<open>limiter_cleanup\<close> meets the peers is the order of the hash map:
    an argument.
  \<^item> The limiter is shown to let at most 500 messages of a peer through in any ten seconds, the scores to stay between their bounds,
    the address book sorted, and the queue within its capacity.
\<close>

type_synonym peer_id = string
type_synonym instant = nat

definition secs :: "nat \<Rightarrow> nat" where "secs n = n * 1000000000"

section \<open>Rate limiter\<close>

definition PEER_RATE_LIMIT_WINDOW_SECS :: nat where "PEER_RATE_LIMIT_WINDOW_SECS = 10"
definition PEER_MAX_MESSAGES_PER_WINDOW :: nat where "PEER_MAX_MESSAGES_PER_WINDOW = 500"
definition PEER_BAN_DURATION_SECS :: nat where "PEER_BAN_DURATION_SECS = 300"
definition PEER_MAX_TRACKED :: nat where "PEER_MAX_TRACKED = 2000"

record peer_rate_state =
  pr_message_timestamps :: "instant list"
  pr_banned_until :: "instant option"
  pr_total_violations :: u32

definition peer_rate_state_new :: peer_rate_state where
  "peer_rate_state_new = \<lparr>pr_message_timestamps = [], pr_banned_until = None, pr_total_violations = 0\<rparr>"

type_synonym peer_rate_limiter = "peer_id \<rightharpoonup> peer_rate_state"

definition peer_rate_limiter_new :: peer_rate_limiter where
  "peer_rate_limiter_new = (\<lambda>_. None)"

text \<open>\<open>check\<close>: the eviction of old timestamps and the count.\<close>
definition rate_count :: "instant \<Rightarrow> peer_rate_state \<Rightarrow> bool \<times> peer_rate_state" where
  "rate_count now state =
     (let timestamps = dropWhile (\<lambda>ts. now - ts > secs PEER_RATE_LIMIT_WINDOW_SECS) (pr_message_timestamps state)
      in if length timestamps \<ge> PEER_MAX_MESSAGES_PER_WINDOW then
           let violations = pr_total_violations state + 1
           in (False, state\<lparr>pr_message_timestamps := timestamps, pr_total_violations := violations,
                pr_banned_until := Some (now + secs (PEER_BAN_DURATION_SECS * unat violations))\<rparr>)
         else (True, state\<lparr>pr_message_timestamps := timestamps @ [now]\<rparr>))"

text \<open>\<open>check\<close> on the entry of the peer: an active ban, an expired ban, no ban.\<close>
definition rate_check :: "instant \<Rightarrow> peer_rate_state \<Rightarrow> bool \<times> peer_rate_state" where
  "rate_check now state =
     (case pr_banned_until state of
        Some ban_until \<Rightarrow> if now < ban_until then (False, state) else rate_count now (state\<lparr>pr_banned_until := None\<rparr>)
      | None \<Rightarrow> rate_count now state)"

definition limiter_check :: "peer_rate_limiter \<Rightarrow> peer_id \<Rightarrow> instant \<Rightarrow> bool \<times> peer_rate_limiter" where
  "limiter_check rl p now =
     (let state = (case rl p of None \<Rightarrow> peer_rate_state_new | Some s \<Rightarrow> s)
      in case rate_check now state of (allowed, state') \<Rightarrow> (allowed, rl(p \<mapsto> state')))"

definition is_banned :: "peer_rate_limiter \<Rightarrow> peer_id \<Rightarrow> instant \<Rightarrow> bool" where
  "is_banned rl p now = (case rl p of
     None \<Rightarrow> False
   | Some state \<Rightarrow> (case pr_banned_until state of None \<Rightarrow> False | Some ban_until \<Rightarrow> now < ban_until))"

text \<open>What \<open>cleanup\<close> retains.\<close>
definition retained :: "instant \<Rightarrow> peer_rate_state \<Rightarrow> bool" where
  "retained now state \<longleftrightarrow> (case pr_banned_until state of Some t \<Rightarrow> now < t | None \<Rightarrow> False)
     \<or> pr_message_timestamps state \<noteq> [] \<and> now - last (pr_message_timestamps state) < secs (PEER_RATE_LIMIT_WINDOW_SECS * 6)"

definition limiter_cleanup :: "peer_id list \<Rightarrow> instant \<Rightarrow> peer_rate_limiter \<Rightarrow> peer_rate_limiter" where
  "limiter_cleanup order now rl =
     (let kept = (\<lambda>p. case rl p of Some state \<Rightarrow> if retained now state then Some state else None | None \<Rightarrow> None)
      in if card (dom kept) > PEER_MAX_TRACKED then
           let excess = card (dom kept) - PEER_MAX_TRACKED;
               keys_to_remove = take excess (filter (\<lambda>p. case kept p of Some state \<Rightarrow> pr_banned_until state = None | None \<Rightarrow> False) order)
           in (\<lambda>p. if p \<in> set keys_to_remove then None else kept p)
         else kept)"

section \<open>Peer scores\<close>

definition PEER_SCORE_INITIAL :: i64 where "PEER_SCORE_INITIAL = 100"
definition PEER_SCORE_MAX :: i64 where "PEER_SCORE_MAX = 200"
definition PEER_SCORE_MIN :: i64 where "PEER_SCORE_MIN = - 100"
definition PEER_SCORE_BAN_THRESHOLD :: i64 where "PEER_SCORE_BAN_THRESHOLD = - 50"
definition PEER_SCORE_DECAY_PER_TICK :: i64 where "PEER_SCORE_DECAY_PER_TICK = 1"
definition SCORE_VALID_BLOCK :: i64 where "SCORE_VALID_BLOCK = 5"
definition SCORE_VALID_TX :: i64 where "SCORE_VALID_TX = 1"
definition SCORE_INVALID_BLOCK :: i64 where "SCORE_INVALID_BLOCK = - 20"
definition SCORE_INVALID_TX :: i64 where "SCORE_INVALID_TX = - 5"
definition SCORE_RATE_LIMITED :: i64 where "SCORE_RATE_LIMITED = - 15"

record peer_score =
  ps_score :: i64
  ps_valid_messages :: u64
  ps_invalid_messages :: u64
  ps_last_updated :: instant

definition peer_score_new :: "instant \<Rightarrow> peer_score" where
  "peer_score_new now = \<lparr>ps_score = PEER_SCORE_INITIAL, ps_valid_messages = 0, ps_invalid_messages = 0, ps_last_updated = now\<rparr>"

type_synonym peer_scorer = "peer_id \<rightharpoonup> peer_score"

definition score_entry :: "peer_scorer \<Rightarrow> peer_id \<Rightarrow> instant \<Rightarrow> peer_score" where
  "score_entry sc p now = (case sc p of None \<Rightarrow> peer_score_new now | Some e \<Rightarrow> e)"

definition record_good :: "peer_scorer \<Rightarrow> peer_id \<Rightarrow> i64 \<Rightarrow> instant \<Rightarrow> peer_scorer" where
  "record_good sc p points now = (let e = score_entry sc p now in
     sc(p \<mapsto> e\<lparr>ps_score := min (ps_score e + points) PEER_SCORE_MAX, ps_valid_messages := ps_valid_messages e + 1, ps_last_updated := now\<rparr>))"

definition record_bad :: "peer_scorer \<Rightarrow> peer_id \<Rightarrow> i64 \<Rightarrow> instant \<Rightarrow> peer_scorer" where
  "record_bad sc p points now = (let e = score_entry sc p now in
     sc(p \<mapsto> e\<lparr>ps_score := max (ps_score e + points) PEER_SCORE_MIN, ps_invalid_messages := ps_invalid_messages e + 1, ps_last_updated := now\<rparr>))"

definition should_ban :: "peer_scorer \<Rightarrow> peer_id \<Rightarrow> bool" where
  "should_ban sc p = (case sc p of None \<Rightarrow> False | Some e \<Rightarrow> ps_score e \<le> PEER_SCORE_BAN_THRESHOLD)"

definition get_score :: "peer_scorer \<Rightarrow> peer_id \<Rightarrow> i64" where
  "get_score sc p = (case sc p of None \<Rightarrow> PEER_SCORE_INITIAL | Some e \<Rightarrow> ps_score e)"

definition decay :: "i64 \<Rightarrow> i64" where
  "decay s = (if s > PEER_SCORE_INITIAL then max (s - PEER_SCORE_DECAY_PER_TICK) PEER_SCORE_INITIAL
     else if s < PEER_SCORE_INITIAL then min (s + PEER_SCORE_DECAY_PER_TICK) PEER_SCORE_INITIAL else s)"

definition decay_scores :: "peer_scorer \<Rightarrow> peer_scorer" where
  "decay_scores sc = (\<lambda>p. map_option (\<lambda>e. e\<lparr>ps_score := decay (ps_score e)\<rparr>) (sc p))"

definition scorer_cleanup :: "instant \<Rightarrow> peer_scorer \<Rightarrow> peer_scorer" where
  "scorer_cleanup now sc = (\<lambda>p. case sc p of
     None \<Rightarrow> None
   | Some e \<Rightarrow> if now - ps_last_updated e < secs 600 \<or> ps_score e \<le> PEER_SCORE_BAN_THRESHOLD then Some e else None)"

section \<open>Address book\<close>

definition PEERSTORE_MAX_PEERS :: nat where "PEERSTORE_MAX_PEERS = 512"

record peer_record =
  pd_peer_id :: string
  pd_addrs :: "string list"
  pd_last_seen_unix :: i64
  pd_source :: string
  pd_score :: int

type_synonym address_book = "string \<rightharpoonup> peer_record"

text \<open>\<open>str::rsplit_once\<close>: the split at the last occurrence of the pattern.\<close>
fun rsplit_once :: "string \<Rightarrow> string \<Rightarrow> (string \<times> string) option" where
  "rsplit_once pat [] = (if pat = [] then Some ([], []) else None)"
| "rsplit_once pat (c # cs) = (case rsplit_once pat cs of
     Some (a, b) \<Rightarrow> Some (c # a, b)
   | None \<Rightarrow> if take (length pat) (c # cs) = pat then Some ([], drop (length pat) (c # cs)) else None)"

definition peer_id_from_addr_string :: "string \<Rightarrow> string" where
  "peer_id_from_addr_string addr = (case rsplit_once ''/p2p/'' addr of Some (_, peer_id) \<Rightarrow> peer_id | None \<Rightarrow> addr)"

text \<open>The parsed file, \<open>None\<close> when there is no path, no file or no JSON.\<close>
definition load_peerstore :: "(string \<Rightarrow> bool) \<Rightarrow> peer_record list option \<Rightarrow> address_book" where
  "load_peerstore is_multiaddr store = (case store of
     None \<Rightarrow> (\<lambda>_. None)
   | Some peers \<Rightarrow> map_of (rev (map (\<lambda>r. (pd_peer_id r, r)) (take PEERSTORE_MAX_PEERS
       (filter (\<lambda>r. pd_peer_id r \<noteq> [] \<and> (\<exists>a \<in> set (pd_addrs r). is_multiaddr a)) peers)))))"

text \<open>The records written, from the values of the book in the order of the hash map.\<close>
definition persist_peerstore :: "peer_record list \<Rightarrow> peer_record list" where
  "persist_peerstore records = take PEERSTORE_MAX_PEERS (sort_key (\<lambda>r. - pd_last_seen_unix r) records)"

fun add_addrs :: "string list \<Rightarrow> string list \<times> bool \<Rightarrow> string list \<times> bool" where
  "add_addrs [] st = st"
| "add_addrs (a # as) (addrs, changed) = add_addrs as (if a \<in> set addrs then (addrs, changed) else (addrs @ [a], True))"

text \<open>The flag tells whether the book is written to disk.\<close>
definition record_peer_addrs_from_strings ::
    "(string \<Rightarrow> bool) \<Rightarrow> peer_id \<Rightarrow> i64 \<Rightarrow> address_book \<Rightarrow> string \<Rightarrow> string list \<Rightarrow> string \<Rightarrow> bool \<times> address_book" where
  "record_peer_addrs_from_strings is_multiaddr self now_unix book peer addrs source =
     (if peer = [] \<or> peer = self then (False, book)
      else let valid_addrs = filter is_multiaddr addrs in
        if valid_addrs = [] then (False, book)
        else let (new, rec) = (case book peer of
                 Some r \<Rightarrow> (False, r)
               | None \<Rightarrow> (True, \<lparr>pd_peer_id = peer, pd_addrs = [], pd_last_seen_unix = 0, pd_source = source, pd_score = 0\<rparr>));
               (all_addrs, changed) = add_addrs (remdups_adj (sort valid_addrs)) (pd_addrs rec, new)
             in (changed, book(peer \<mapsto> rec\<lparr>pd_addrs := remdups_adj (sort all_addrs), pd_last_seen_unix := now_unix, pd_source := source\<rparr>)))"

definition dial_known_peers :: "peer_id \<Rightarrow> peer_record list \<Rightarrow> string list" where
  "dial_known_peers self records = concat (map pd_addrs (filter (\<lambda>r. pd_peer_id r \<noteq> self) records))"

section \<open>Pending broadcasts\<close>

definition MAX_PENDING_BROADCASTS :: nat where "MAX_PENDING_BROADCASTS = 256"

definition enqueue_pending_broadcast :: "'m list \<Rightarrow> 'm \<Rightarrow> 'm list" where
  "enqueue_pending_broadcast pending message =
     (if length pending \<ge> MAX_PENDING_BROADCASTS then tl pending else pending) @ [message]"

text \<open>The queue and the messages gossipsub took; \<open>publish\<close> tells whether it takes a message.\<close>
definition broadcast_or_queue :: "('m \<Rightarrow> bool) \<Rightarrow> 'm \<Rightarrow> 'm list \<times> 'm list \<Rightarrow> 'm list \<times> 'm list" where
  "broadcast_or_queue publish message st = (case st of (pending, sent) \<Rightarrow>
     if publish message then (pending, sent @ [message]) else (enqueue_pending_broadcast pending message, sent))"

fun flush_loop :: "('m \<Rightarrow> bool) \<Rightarrow> 'm list \<Rightarrow> 'm list \<Rightarrow> 'm list \<Rightarrow> 'm list \<times> 'm list" where
  "flush_loop publish [] remaining sent = (remaining, sent)"
| "flush_loop publish (message # pending) remaining sent =
     (if publish message then flush_loop publish pending remaining (sent @ [message])
      else flush_loop publish pending (remaining @ [message]) sent)"

definition flush_pending_broadcasts :: "('m \<Rightarrow> bool) \<Rightarrow> 'm list \<times> 'm list \<Rightarrow> 'm list \<times> 'm list" where
  "flush_pending_broadcasts publish st = (case st of (pending, sent) \<Rightarrow>
     if pending = [] then st else flush_loop publish pending [] sent)"

section \<open>The limiter bounds the traffic\<close>

abbreviation rate_window :: nat where "rate_window \<equiv> secs PEER_RATE_LIMIT_WINDOW_SECS"

definition in_window :: "instant \<Rightarrow> instant \<Rightarrow> bool" where
  "in_window t x \<longleftrightarrow> t \<le> x \<and> x \<le> t + rate_window"

text \<open>\<open>A\<close> are the instants at which messages of a peer were let through, \<open>S\<close> the timestamps kept, at time \<open>T\<close>.\<close>
definition follows_traffic :: "instant list \<Rightarrow> instant list \<Rightarrow> instant \<Rightarrow> bool" where
  "follows_traffic A S T \<longleftrightarrow> (\<exists>D. A = D @ S \<and> (\<forall>x \<in> set D. rate_window < T - x)) \<and> sorted A \<and> (\<forall>x \<in> set A. x \<le> T)
     \<and> (\<forall>t. length (filter (in_window t) A) \<le> PEER_MAX_MESSAGES_PER_WINDOW)"

lemma follows_later: "follows_traffic A S T \<Longrightarrow> T \<le> T' \<Longrightarrow> follows_traffic A S T'"
  unfolding follows_traffic_def by (fastforce intro: order_trans)

lemma follows_forget:
  assumes "follows_traffic A (E @ S) T" "T \<le> T'" "\<forall>x \<in> set E. rate_window < T' - x"
  shows "follows_traffic A S T'"
proof -
  obtain D where "A = D @ E @ S" "\<forall>x \<in> set D. rate_window < T' - x"
    using follows_later [OF assms(1,2)] by (auto simp: follows_traffic_def)
  then have "\<exists>D. A = D @ S \<and> (\<forall>x \<in> set D. rate_window < T' - x)" using assms(3) by (intro exI [of _ "D @ E"]) auto
  then show ?thesis using follows_later [OF assms(1,2)] by (simp add: follows_traffic_def)
qed

lemma follows_admit:
  assumes "follows_traffic A S T" "length S < PEER_MAX_MESSAGES_PER_WINDOW"
  shows "follows_traffic (A @ [T]) (S @ [T]) T"
proof -
  obtain D where D: "A = D @ S" "\<forall>x \<in> set D. rate_window < T - x" using assms(1) by (auto simp: follows_traffic_def)
  have "length (filter (in_window t) (A @ [T])) \<le> PEER_MAX_MESSAGES_PER_WINDOW" for t
  proof (cases "in_window t T")
    case True
    then have "\<forall>x \<in> set D. \<not> in_window t x" using D(2) by (fastforce simp: in_window_def)
    then have "filter (in_window t) (A @ [T]) = filter (in_window t) S @ [T]" using D(1) True by (simp add: filter_empty_conv)
    then show ?thesis using le_less_trans [OF length_filter_le [of "in_window t" S] assms(2)] by (simp only: length_append) simp
  qed (use assms(1) in \<open>simp add: follows_traffic_def\<close>)
  then show ?thesis using assms(1) D by (auto simp: follows_traffic_def sorted_append)
qed

lemma count_follows:
  assumes "follows_traffic A (pr_message_timestamps s) T" "T \<le> now" "rate_count now s = (allowed, s')"
  shows "follows_traffic (if allowed then A @ [now] else A) (pr_message_timestamps s') now"
proof -
  let ?old = "\<lambda>ts. now - ts > rate_window"
  have "follows_traffic A (takeWhile ?old (pr_message_timestamps s) @ dropWhile ?old (pr_message_timestamps s)) T" using assms(1) by simp
  from follows_forget [OF this assms(2)] have "follows_traffic A (dropWhile ?old (pr_message_timestamps s)) now"
    by (auto dest: set_takeWhileD)
  then show ?thesis using assms(3) follows_admit by (auto simp: rate_count_def Let_def split: if_splits)
qed

lemma check_follows:
  assumes "follows_traffic A (pr_message_timestamps s) T" "T \<le> now" "rate_check now s = (allowed, s')"
  shows "follows_traffic (if allowed then A @ [now] else A) (pr_message_timestamps s') now"
proof (cases "case pr_banned_until s of Some ban_until \<Rightarrow> now < ban_until | None \<Rightarrow> False")
  case True
  then have "allowed = False" "s' = s" using assms(3) by (auto simp: rate_check_def split: option.splits)
  then show ?thesis using follows_later [OF assms(1,2)] by simp
next
  case False
  then have "rate_count now (s\<lparr>pr_banned_until := None\<rparr>) = (allowed, s')"
    using assms(3) by (cases s) (auto simp: rate_check_def split: option.splits)
  then show ?thesis using count_follows [of A "s\<lparr>pr_banned_until := None\<rparr>"] assms(1,2) by simp
qed

datatype limiter_event = Arrive peer_id instant | Tidy "peer_id list" instant

fun event_time :: "limiter_event \<Rightarrow> instant" where
  "event_time (Arrive p t) = t"
| "event_time (Tidy order t) = t"

fun event_peers :: "limiter_event \<Rightarrow> peer_id set" where
  "event_peers (Arrive p t) = {p}"
| "event_peers (Tidy order t) = {}"

lemma finite_event_peers [simp]: "finite (event_peers e)"
  by (cases e) simp_all

text \<open>A step of the limiter, with the log of the messages let through.\<close>
fun limiter_step :: "limiter_event \<Rightarrow> peer_rate_limiter \<times> (peer_id \<times> instant) list \<Rightarrow> peer_rate_limiter \<times> (peer_id \<times> instant) list" where
  "limiter_step (Arrive p t) (rl, log) = (case limiter_check rl p t of (allowed, rl') \<Rightarrow> (rl', if allowed then log @ [(p, t)] else log))"
| "limiter_step (Tidy order t) (rl, log) = (limiter_cleanup order t rl, log)"

abbreviation traffic :: "peer_id \<Rightarrow> (peer_id \<times> instant) list \<Rightarrow> instant list" where
  "traffic p log \<equiv> map snd (filter (\<lambda>e. fst e = p) log)"

abbreviation stamps :: "peer_rate_limiter \<Rightarrow> peer_id \<Rightarrow> instant list" where
  "stamps rl p \<equiv> (case rl p of None \<Rightarrow> [] | Some s \<Rightarrow> pr_message_timestamps s)"

lemma cleanup_kept:
  assumes "card (dom rl) \<le> PEER_MAX_TRACKED" "finite (dom rl)"
  shows "limiter_cleanup order now rl p = (case rl p of Some state \<Rightarrow> if retained now state then Some state else None | None \<Rightarrow> None)"
proof -
  let ?kept = "\<lambda>p. case rl p of Some state \<Rightarrow> if retained now state then Some state else None | None \<Rightarrow> None"
  have "dom ?kept \<subseteq> dom rl" by (auto split: option.splits if_splits)
  then have "card (dom ?kept) \<le> PEER_MAX_TRACKED" using card_mono [OF assms(2)] assms(1) le_trans by blast
  then show ?thesis by (simp add: limiter_cleanup_def Let_def)
qed

lemma cleanup_follows:
  assumes "follows_traffic A (stamps rl p) T" "T \<le> now" "card (dom rl) \<le> PEER_MAX_TRACKED" "finite (dom rl)"
  shows "follows_traffic A (stamps (limiter_cleanup order now rl) p) now"
proof (cases "rl p")
  case (Some s)
  show ?thesis
  proof (cases "retained now s")
    case False
    let ?S = "pr_message_timestamps s"
    have "sorted ?S" using assms(1) Some by (auto simp: follows_traffic_def sorted_append)
    then have "x \<le> last ?S" if "x \<in> set ?S" for x
      using that by (cases ?S rule: rev_cases) (auto simp: sorted_append)
    then have "\<forall>x \<in> set ?S. rate_window < now - x"
      using False by (fastforce simp: retained_def secs_def PEER_RATE_LIMIT_WINDOW_SECS_def)
    then have "follows_traffic A [] now" using follows_forget [of A ?S "[]" T now] assms(1,2) Some by simp
    then show ?thesis using False Some by (simp add: cleanup_kept [OF assms(3,4)])
  qed (use assms Some follows_later in \<open>auto simp: cleanup_kept [OF assms(3,4)]\<close>)
qed (use assms(1,2) follows_later in \<open>auto simp: cleanup_kept [OF assms(3,4)]\<close>)

lemma limiter_run_follows:
  assumes "sorted (map event_time evs)" "card (\<Union>e \<in> set evs. event_peers e) \<le> PEER_MAX_TRACKED"
    and "fold limiter_step evs (peer_rate_limiter_new, []) = (rl, log)"
  shows "dom rl \<subseteq> (\<Union>e \<in> set evs. event_peers e) \<and> follows_traffic (traffic p log) (stamps rl p) (if evs = [] then 0 else event_time (last evs))"
  using assms
proof (induction evs arbitrary: rl log rule: rev_induct)
  case Nil
  then show ?case by (auto simp: peer_rate_limiter_new_def follows_traffic_def)
next
  case (snoc e evs)
  obtain rl0 log0 where run: "fold limiter_step evs (peer_rate_limiter_new, []) = (rl0, log0)" by fastforce
  have fin: "finite (\<Union>e \<in> set (evs @ [e]). event_peers e)" by simp
  have sub: "(\<Union>e \<in> set evs. event_peers e) \<subseteq> (\<Union>e \<in> set (evs @ [e]). event_peers e)" by auto
  then have few: "card (\<Union>e \<in> set evs. event_peers e) \<le> PEER_MAX_TRACKED" using card_mono [OF fin] snoc.prems(2) le_trans by blast
  have s: "sorted (map event_time evs)" using snoc.prems(1) by (simp add: sorted_append)
  note IH = snoc.IH [OF s few run]
  have T: "(if evs = [] then 0 else event_time (last evs)) \<le> event_time e"
    using snoc.prems(1) by (auto simp: sorted_append)
  have dom: "finite (dom rl0)" "card (dom rl0) \<le> PEER_MAX_TRACKED"
    using IH few card_mono [of "\<Union>e \<in> set evs. event_peers e" "dom rl0"] finite_subset [of "dom rl0" "\<Union>e \<in> set evs. event_peers e"] by auto
  show ?case
  proof (cases e)
    case (Arrive q t)
    obtain allowed rl1 where c: "limiter_check rl0 q t = (allowed, rl1)" by fastforce
    then have rl: "rl = rl1" "log = (if allowed then log0 @ [(q, t)] else log0)" using snoc.prems(3) run Arrive by auto
    obtain st where st: "rate_check t (case rl0 q of None \<Rightarrow> peer_rate_state_new | Some s \<Rightarrow> s) = (allowed, st)" "rl1 = rl0(q \<mapsto> st)"
      using c by (auto simp: limiter_check_def Let_def split: prod.splits)
    have "pr_message_timestamps (case rl0 q of None \<Rightarrow> peer_rate_state_new | Some s \<Rightarrow> s) = stamps rl0 q"
      by (simp add: peer_rate_state_new_def split: option.split)
    then have "follows_traffic (traffic p log) (stamps rl p) t"
      using IH T Arrive rl st follows_later [of "traffic p log0" "stamps rl0 p"] check_follows [OF _ _ st(1)] by (cases "p = q") auto
    moreover have "dom rl \<subseteq> insert q (dom rl0)" by (auto simp: rl(1) st(2) split: if_splits)
    ultimately show ?thesis using IH Arrive by auto
  next
    case (Tidy order t)
    then have rl: "rl = limiter_cleanup order t rl0" "log = log0" using snoc.prems(3) run by auto
    have "dom rl \<subseteq> dom rl0" by (auto simp: rl(1) cleanup_kept [OF dom(2,1)] split: option.splits)
    then have "dom rl \<subseteq> (\<Union>e \<in> set evs. event_peers e)" using IH by blast
    moreover have "follows_traffic (traffic p log) (stamps rl p) t"
      unfolding rl by (rule cleanup_follows [OF conjunct2 [OF IH] _ dom(2,1)]) (use T Tidy in simp)
    ultimately show ?thesis using Tidy by simp
  qed
qed

text \<open>C27. The rate limit holds. Whatever the traffic of at most 2000 peers, and whenever the limiter is tidied: of the messages of one peer, at most 500
  are let through in any ten seconds.\<close>
theorem rate_limit_window:
  assumes "sorted (map event_time evs)" "card (\<Union>e \<in> set evs. event_peers e) \<le> PEER_MAX_TRACKED"
    and "fold limiter_step evs (peer_rate_limiter_new, []) = (rl, log)"
  shows "length (filter (\<lambda>(q, x). q = p \<and> t \<le> x \<and> x \<le> t + secs PEER_RATE_LIMIT_WINDOW_SECS) log) \<le> PEER_MAX_MESSAGES_PER_WINDOW"
proof -
  have "filter (in_window t) (traffic p log) = map snd (filter (\<lambda>(q, x). q = p \<and> in_window t x) log)"
    by (induction log) auto
  then have "length (filter (\<lambda>(q, x). q = p \<and> in_window t x) log) \<le> PEER_MAX_MESSAGES_PER_WINDOW"
    using limiter_run_follows [OF assms, of p] by (metis follows_traffic_def length_map)
  then show ?thesis by (simp add: in_window_def)
qed

theorem rate_limit_window_witness:
  "\<exists>rl. fold limiter_step [Arrive ''a'' 0, Arrive ''b'' 1, Arrive ''a'' 2, Tidy [] 3] (peer_rate_limiter_new, []) = (rl, [(''a'', 0), (''b'', 1), (''a'', 2)])
     \<and> length (filter (\<lambda>(q, x). q = ''a'' \<and> 0 \<le> x \<and> x \<le> 0 + secs PEER_RATE_LIMIT_WINDOW_SECS) [(''a'', 0), (''b'', 1), (''a'', 2)]) \<le> PEER_MAX_MESSAGES_PER_WINDOW"
proof -
  let ?evs = "[Arrive ''a'' 0, Arrive ''b'' 1, Arrive ''a'' 2, Tidy [] 3]"
  obtain rl where run: "fold limiter_step ?evs (peer_rate_limiter_new, []) = (rl, [(''a'', 0), (''b'', 1), (''a'', 2)])"
    by (simp add: limiter_check_def rate_check_def rate_count_def peer_rate_limiter_new_def peer_rate_state_new_def secs_def
        PEER_RATE_LIMIT_WINDOW_SECS_def PEER_MAX_MESSAGES_PER_WINDOW_def)
  have "card (\<Union>e \<in> set ?evs. event_peers e) \<le> PEER_MAX_TRACKED" by (simp add: PEER_MAX_TRACKED_def card_insert_if)
  from rate_limit_window [OF _ this run, of "''a''" 0] run show ?thesis by auto
qed

text \<open>A peer over the limit is banned, the longer the more often; while the ban lasts every message is refused and the ban stays.\<close>
lemma rate_violation_bans:
  assumes "rl p = Some s" "pr_banned_until s = None \<or> (\<exists>u. pr_banned_until s = Some u \<and> u \<le> now)" "limiter_check rl p now = (False, rl')"
    and "t < now + secs (PEER_BAN_DURATION_SECS * unat (pr_total_violations s + 1))"
  shows "is_banned rl' p t \<and> limiter_check rl' p t = (False, rl')"
  using assms by (auto simp: limiter_check_def rate_check_def rate_count_def is_banned_def Let_def fun_upd_idem split: option.splits if_splits)

section \<open>Scores, addresses and the queue\<close>

text \<open>The operations of the scorer, as the event loop calls them.\<close>
inductive scorer_step :: "peer_scorer \<Rightarrow> peer_scorer \<Rightarrow> bool" where
  "0 \<le> points \<Longrightarrow> scorer_step sc (record_good sc p points now)"
| "points \<le> 0 \<Longrightarrow> scorer_step sc (record_bad sc p points now)"
| "scorer_step sc (decay_scores sc)"
| "scorer_step sc (scorer_cleanup now sc)"

lemma recorded_score:
  "get_score (record_good sc p points now) q = (if q = p then min (get_score sc p + points) PEER_SCORE_MAX else get_score sc q)"
  "get_score (record_bad sc p points now) q = (if q = p then max (get_score sc p + points) PEER_SCORE_MIN else get_score sc q)"
  "get_score (decay_scores sc) q = decay (get_score sc q)"
  by (simp_all add: record_good_def record_bad_def score_entry_def peer_score_new_def get_score_def decay_scores_def decay_def Let_def split: option.split)

lemma should_ban_score: "should_ban sc p \<longleftrightarrow> get_score sc p \<le> PEER_SCORE_BAN_THRESHOLD"
  by (simp add: should_ban_def get_score_def PEER_SCORE_INITIAL_def PEER_SCORE_BAN_THRESHOLD_def split: option.split)

lemmas score_bounds = PEER_SCORE_MAX_def PEER_SCORE_MIN_def PEER_SCORE_INITIAL_def PEER_SCORE_DECAY_PER_TICK_def PEER_SCORE_BAN_THRESHOLD_def

interpretation scores: transition_system "\<lambda>sc. sc = (\<lambda>_. None)" scorer_step
  "\<lambda>sc. \<forall>p. PEER_SCORE_MIN \<le> get_score sc p \<and> get_score sc p \<le> PEER_SCORE_MAX"
proof
  fix sc sc'
  assume inv: "\<forall>p. PEER_SCORE_MIN \<le> get_score sc p \<and> get_score sc p \<le> PEER_SCORE_MAX" and "scorer_step sc sc'"
  have b: "PEER_SCORE_MIN \<le> get_score sc p" "get_score sc p \<le> PEER_SCORE_MAX" for p using inv by auto
  from \<open>scorer_step sc sc'\<close> show "\<forall>p. PEER_SCORE_MIN \<le> get_score sc' p \<and> get_score sc' p \<le> PEER_SCORE_MAX"
  proof cases
    case (1 points p now)
    moreover have "- 100 \<le> get_score sc p + points" using b(1) [of p] 1(2) by (simp add: score_bounds)
    ultimately show ?thesis using b by (simp add: recorded_score score_bounds)
  next
    case (2 points p now)
    moreover have "get_score sc p + points \<le> 200" using b(2) [of p] 2(2) by (simp add: score_bounds)
    ultimately show ?thesis using b by (simp add: recorded_score score_bounds)
  next
    case 3
    have "PEER_SCORE_MIN \<le> decay (get_score sc p) \<and> decay (get_score sc p) \<le> PEER_SCORE_MAX" for p
      using b(1,2) [of p] by (auto simp: decay_def score_bounds)
    then show ?thesis using 3 by (simp add: recorded_score)
  next
    case (4 now)
    then have "get_score sc' q = get_score sc q \<or> get_score sc' q = PEER_SCORE_INITIAL" for q
      by (simp add: scorer_cleanup_def get_score_def split: option.split)
    moreover have "PEER_SCORE_MIN \<le> PEER_SCORE_INITIAL" "PEER_SCORE_INITIAL \<le> PEER_SCORE_MAX" by (simp_all add: score_bounds)
    ultimately show ?thesis using b by metis
  qed
qed (simp add: get_score_def score_bounds)

text \<open>Eight blocks that are not adopted ban a new peer.\<close>
lemma eight_blocks_ban:
  "sc p = None \<Longrightarrow> should_ban (((\<lambda>sc. record_bad sc p SCORE_INVALID_BLOCK now) ^^ 8) sc) p"
proof -
  assume "sc p = None"
  then have "get_score sc p = 100" by (simp add: get_score_def score_bounds)
  then have "get_score (((\<lambda>sc. record_bad sc p SCORE_INVALID_BLOCK now) ^^ n) sc) p = max (100 - 20 * int n) PEER_SCORE_MIN" for n
    by (induction n) (simp_all add: recorded_score SCORE_INVALID_BLOCK_def score_bounds)
  then show ?thesis by (simp add: should_ban_score score_bounds)
qed

lemma distinct_dedup: "sorted xs \<Longrightarrow> distinct (remdups_adj xs)" for xs :: "'a::linorder list"
  by (induction xs rule: remdups_adj.induct) auto

lemma set_add_addrs: "add_addrs as (addrs, ch) = (all_addrs, ch') \<Longrightarrow> set all_addrs = set addrs \<union> set as"
  by (induction as arbitrary: addrs ch) (fastforce split: if_splits)+

text \<open>The addresses of a peer stay sorted without duplicates, and only valid ones are added.\<close>
lemma recorded_addrs:
  assumes "record_peer_addrs_from_strings is_multiaddr self now_unix book peer addrs source = (changed, book')" "book' peer = Some r" "book' \<noteq> book"
  shows "sorted (pd_addrs r) \<and> distinct (pd_addrs r)
    \<and> set (pd_addrs r) = (case book peer of None \<Rightarrow> {} | Some r0 \<Rightarrow> set (pd_addrs r0)) \<union> {a \<in> set addrs. is_multiaddr a}"
proof -
  obtain ch known all_addrs ch' where "add_addrs (remdups_adj (sort (filter is_multiaddr addrs))) (known, ch) = (all_addrs, ch')"
    "pd_addrs r = remdups_adj (sort all_addrs)" "set known = (case book peer of None \<Rightarrow> {} | Some r0 \<Rightarrow> set (pd_addrs r0))"
    using assms by (auto simp: record_peer_addrs_from_strings_def Let_def split: if_splits option.splits prod.splits)
  then show ?thesis using set_add_addrs by (auto simp: distinct_dedup)
qed

lemma flush_loop_spec: "flush_loop publish pending remaining sent = (remaining @ filter (\<lambda>m. \<not> publish m) pending, sent @ filter publish pending)"
  by (induction pending arbitrary: remaining sent) simp_all

text \<open>Flushing sends what gossipsub takes, in order, and keeps the rest, in order.\<close>
lemma flush_spec: "flush_pending_broadcasts publish (pending, sent) = (filter (\<lambda>m. \<not> publish m) pending, sent @ filter publish pending)"
  by (simp add: flush_pending_broadcasts_def flush_loop_spec)

text \<open>The queue stays within its capacity.\<close>
lemma queue_bounded:
  "length pending \<le> MAX_PENDING_BROADCASTS \<Longrightarrow> length (fst (broadcast_or_queue publish m (pending, sent))) \<le> MAX_PENDING_BROADCASTS"
  "length pending \<le> MAX_PENDING_BROADCASTS \<Longrightarrow> length (fst (flush_pending_broadcasts publish (pending, sent))) \<le> MAX_PENDING_BROADCASTS"
  by (auto simp: broadcast_or_queue_def enqueue_pending_broadcast_def MAX_PENDING_BROADCASTS_def flush_spec intro: order_trans [OF length_filter_le])

end
