(* ===== verification/Node.thy ===== *)
theory Node
  imports Peers Light Snapshot Chain_Run "HOL-Library.Monad_Syntax"
begin

text \<open>
  The network node (\<^verbatim>\<open>src/src/network/mod.rs\<close>): the state of its event loop, the handlers of every message, timer and connection event, and
  the loop iteration itself.

  \<^item> A node is a record of the local variables of \<^verbatim>\<open>run_with_chain\<close>, with the chain and its persistence. libp2p is outside: \<open>net_env\<close> holds what one
    iteration reads of the world, the two clocks, whether gossipsub takes a message or a subscription, the number of connected peers,
    the multiaddress parser and the serialiser of votes. Messages are values; the JSON around them is not modelled. \<open>nd_sent\<close> lists what was published.
  \<^item> A handler returns \<open>None\<close> when it panics or does not return.
  \<^item> Events for WebSocket clients, metrics and log lines are left out.
\<close>

section \<open>The chain of a running node\<close>

type_synonym live_chain = "blockchain \<times> persistence"

text \<open>\<open>add_block\<close> with its writes: the block, and the full state at epoch boundaries.\<close>
definition live_add_block :: "externs \<Rightarrow> bincode \<Rightarrow> i64 \<Rightarrow> live_chain \<Rightarrow> block \<Rightarrow> (chain_error + unit) \<times> live_chain" where
  "live_add_block X Bc now live b = (case live of (c, p) \<Rightarrow>
     case add_block X now c b of
       (Inl e, c') \<Rightarrow> (Inl e, c', p)
     | (Inr _, c') \<Rightarrow>
         (case persist_added_block Bc p b of
            (Inl e, p') \<Rightarrow> (Inl e, c', p')
          | (Inr _, p') \<Rightarrow>
              if bc_epoch_length c' > 0 \<and> blk_height b mod bc_epoch_length c' = 0
              then (case persist_chain X Bc p' c' of (r, p'') \<Rightarrow> (r, c', p''))
              else (Inr (), c', p')))"

definition live_fork_choice :: "externs \<Rightarrow> bincode \<Rightarrow> i64 \<Rightarrow> live_chain \<Rightarrow> block \<Rightarrow> ((chain_error + bool) \<times> live_chain) option" where
  "live_fork_choice X Bc now live b = (case live of (c, p) \<Rightarrow>
     case add_block_with_fork_choice X now c b of
       None \<Rightarrow> None
     | Some (Inr True, c') \<Rightarrow>
         (case persist_chain X Bc p c' of (Inl e, p') \<Rightarrow> Some (Inl e, c', p') | (Inr _, p') \<Rightarrow> Some (Inr True, c', p'))
     | Some (r, c') \<Rightarrow> Some (r, c', p))"

definition live_vote :: "externs \<Rightarrow> bincode \<Rightarrow> live_chain \<Rightarrow> finality_vote \<Rightarrow> live_chain" where
  "live_vote X Bc live vote = (case live of (c, p) \<Rightarrow>
     case add_finality_vote X c vote of
       (None, c') \<Rightarrow> (c', p)
     | (Some finalized, c') \<Rightarrow> (c', persist_finalized_height Bc p (fb_height finalized)))"

definition live_equivocation :: "externs \<Rightarrow> bincode \<Rightarrow> live_chain \<Rightarrow> equivocation_evidence \<Rightarrow> live_chain" where
  "live_equivocation X Bc live evidence = (case live of (c, p) \<Rightarrow>
     case process_equivocation X c evidence of
       Inl _ \<Rightarrow> live
     | Inr (penalty, c') \<Rightarrow> (c', persist_equivocation X Bc p c' evidence))"

definition live_transaction :: "externs \<Rightarrow> bincode \<Rightarrow> tx_sorter \<Rightarrow> i64 \<Rightarrow> live_chain \<Rightarrow> transaction \<Rightarrow> (chain_error + unit) \<times> live_chain" where
  "live_transaction X Bc srt now live tx = (case live of (c, p) \<Rightarrow>
     case add_transaction X srt now c tx of
       (Inl e, c') \<Rightarrow> (Inl e, c', p)
     | (Inr _, c') \<Rightarrow> (case persist_pending_transactions X Bc p c' of (r, p') \<Rightarrow> (r, c', p')))"

text \<open>The database snapshots are kept in; the worker writes to the same one.\<close>
definition storage_of :: "persistence \<Rightarrow> storage_db option" where
  "storage_of p = (case p of NoStorage \<Rightarrow> None | SyncStorage db \<Rightarrow> Some db | AsyncStorage w \<Rightarrow> Some (ph_db w))"

definition put_storage :: "storage_db option \<Rightarrow> persistence \<Rightarrow> persistence" where
  "put_storage s p = (case (p, s) of
     (SyncStorage _, Some db) \<Rightarrow> SyncStorage db
   | (AsyncStorage w, Some db) \<Rightarrow> AsyncStorage (w\<lparr>ph_db := db\<rparr>)
   | _ \<Rightarrow> p)"

definition live_snapshot :: "externs \<Rightarrow> bincode \<Rightarrow> i64 \<Rightarrow> live_chain \<Rightarrow> ((chain_error + snapshot_manifest) \<times> live_chain) option" where
  "live_snapshot X Bc now live = (case live of (c, p) \<Rightarrow>
     map_option (\<lambda>(r, s). (r, c, put_storage s p)) (create_snapshot X Bc now (storage_of p) c))"

definition live_snapshot_chunks :: "bincode \<Rightarrow> live_chain \<Rightarrow> u64 \<Rightarrow> chain_error + state_chunk list" where
  "live_snapshot_chunks Bc live h = get_snapshot_chunks Bc (storage_of (snd live)) h"

definition latest_hash :: "blockchain \<Rightarrow> bytes" where
  "latest_hash c = (case latest_block c of Some b \<Rightarrow> blk_hash b | None \<Rightarrow> [])"

definition genesis_hash :: "blockchain \<Rightarrow> bytes" where
  "genesis_hash c = blk_hash (genesis_block c)"

section \<open>Messages\<close>

definition MAX_DESERIALIZE_SIZE :: nat where "MAX_DESERIALIZE_SIZE = 16 * 1024 * 1024"

definition bounded_deserialize :: "'a codec \<Rightarrow> bytes \<Rightarrow> string + 'a" where
  "bounded_deserialize C data = (if length data > MAX_DESERIALIZE_SIZE then Inl ''payload too large'' else cd_dec C data)"

datatype network_message =
    NewBlock bytes
  | NewTransaction bytes
  | RequestBlocks (rb_from_height: u64) (rb_requester: peer_id) (rb_expected_prev_hash: bytes) (rb_genesis_hash: bytes)
  | BlockResponse (br_from_height: u64) (br_target: peer_id) (br_responder: peer_id) (br_genesis_hash: bytes) (br_blocks: "bytes list")
  | HeightAnnounce (ha_height: u64) (ha_latest_hash: bytes) (ha_genesis_hash: bytes) (ha_peer_id: peer_id) (ha_public_addrs: "string list")
      (ha_public_key: "bytes option") (ha_signature: "bytes option") (ha_protocol_version: u32)
  | SlashingEvidence bytes
  | FinalityVote bytes
  | RequestSnapshot (rs_requester: peer_id) (rs_preferred_height: "u64 option") (rs_start_chunk: nat)
      (rs_known_finalized_height: u64) (rs_known_finalized_hash: bytes)
  | SnapshotManifest (sm_target: peer_id) (sm_data: bytes)
  | SnapshotChunk (sc_target: peer_id) (sc_height: u64) (sc_data: bytes)

definition default_protocol_version :: u32 where "default_protocol_version = 1"

definition topic_name :: "string \<Rightarrow> u32 \<Rightarrow> string" where
  "topic_name chain_id protocol_version = ''curs3d-'' @ chain_id @ ''-v'' @ show_nat (unat protocol_version)"

section \<open>The state of the event loop\<close>

record net_env =
  ne_instant :: instant
  ne_unix :: i64
  ne_publish :: "network_message \<Rightarrow> bool"
  ne_subscribe :: "string \<Rightarrow> bool"
  ne_connected_peers :: nat
  ne_multiaddr :: "string \<Rightarrow> bool"
  ne_vote :: "finality_vote codec"
  ne_sort :: tx_sorter

record node =
  nd_peer_id :: peer_id
  nd_live :: live_chain
  nd_validator_key :: "key_pair option"
  nd_topic :: string
  nd_advertised_addrs :: "string list"
  nd_known_peers :: address_book
  nd_discovered :: "peer_id set"
  nd_rate_limiter :: peer_rate_limiter
  nd_peer_scorer :: peer_scorer
  nd_sync_requested :: bool
  nd_sync_deadline :: "instant option"
  nd_sync_retries :: u32
  nd_sync_target_height :: "u64 option"
  nd_sync_stable_ticks :: u8
  nd_peer_heights :: "peer_id \<rightharpoonup> u64 \<times> bytes"
  nd_verified_tips :: "peer_id \<rightharpoonup> u64 \<times> bytes \<times> instant"
  nd_manifest :: "snapshot_manifest option"
  nd_chunks :: "nat \<rightharpoonup> state_chunk"
  nd_early_chunks :: "u64 \<times> nat \<rightharpoonup> state_chunk"
  nd_pending :: "network_message list"
  nd_seen :: "bytes set"
  nd_started_at :: instant
  nd_last_peer_change_at :: instant
  nd_sent :: "network_message list"

abbreviation nd_chain :: "node \<Rightarrow> blockchain" where "nd_chain n \<equiv> fst (nd_live n)"

definition SYNC_TIMEOUT_SECS :: nat where "SYNC_TIMEOUT_SECS = 30"
definition MAX_SYNC_RETRIES :: u32 where "MAX_SYNC_RETRIES = 3"
definition MAX_SEEN_BLOCKS :: nat where "MAX_SEEN_BLOCKS = 1000"
definition SYNC_BATCH_SIZE :: u64 where "SYNC_BATCH_SIZE = 50"
definition STARTUP_GRACE_SECS :: nat where "STARTUP_GRACE_SECS = 20"
definition PEERLESS_PRODUCTION_AFTER_SECS :: nat where "PEERLESS_PRODUCTION_AFTER_SECS = 120"
definition PEER_MESH_SETTLE_SECS :: nat where "PEER_MESH_SETTLE_SECS = 15"
definition VERIFIED_TIP_TTL_SECS :: nat where "VERIFIED_TIP_TTL_SECS = 120"
definition SYNC_STABLE_TICKS_BEFORE_PRODUCTION :: u8 where "SYNC_STABLE_TICKS_BEFORE_PRODUCTION = 3"
definition MAX_BUFFERED_PRE_MANIFEST_CHUNKS :: nat where "MAX_BUFFERED_PRE_MANIFEST_CHUNKS = 2048"
definition MAX_BUFFERED_PRE_MANIFEST_BYTES :: nat where "MAX_BUFFERED_PRE_MANIFEST_BYTES = 128 * 1024 * 1024"

text \<open>\<open>broadcast_or_queue\<close> on the node.\<close>
definition send :: "net_env \<Rightarrow> network_message \<Rightarrow> node \<Rightarrow> node" where
  "send E m n = (case broadcast_or_queue (ne_publish E) m (nd_pending n, nd_sent n) of
     (pending, sent) \<Rightarrow> n\<lparr>nd_pending := pending, nd_sent := sent\<rparr>)"

definition flush :: "net_env \<Rightarrow> node \<Rightarrow> node" where
  "flush E n = (case flush_pending_broadcasts (ne_publish E) (nd_pending n, nd_sent n) of
     (pending, sent) \<Rightarrow> n\<lparr>nd_pending := pending, nd_sent := sent\<rparr>)"

definition switch_topic :: "net_env \<Rightarrow> string \<Rightarrow> node \<Rightarrow> node" where
  "switch_topic E t n = (if nd_topic n = t then n else if ne_subscribe E t then n\<lparr>nd_topic := t\<rparr> else n)"

definition request_snapshot :: "node \<Rightarrow> u64 option \<Rightarrow> nat \<Rightarrow> network_message" where
  "request_snapshot n preferred start = RequestSnapshot (nd_peer_id n) preferred start
     (ft_finalized_height (bc_finality_tracker (nd_chain n))) (ft_finalized_hash (bc_finality_tracker (nd_chain n)))"

definition request_blocks :: "node \<Rightarrow> u64 \<Rightarrow> network_message" where
  "request_blocks n from = RequestBlocks from (nd_peer_id n) (latest_hash (nd_chain n)) (genesis_hash (nd_chain n))"

text \<open>A request goes out and its deadline starts.\<close>
definition start_sync :: "net_env \<Rightarrow> network_message \<Rightarrow> node \<Rightarrow> node" where
  "start_sync E m n = (send E m n)\<lparr>nd_sync_requested := True, nd_sync_deadline := Some (ne_instant E + secs SYNC_TIMEOUT_SECS)\<rparr>"

definition end_sync :: "node \<Rightarrow> node" where
  "end_sync n = n\<lparr>nd_sync_requested := False, nd_sync_deadline := None, nd_sync_retries := 0\<rparr>"

section \<open>Sync timeout\<close>

definition next_missing_chunk_index :: "snapshot_manifest \<Rightarrow> (nat \<rightharpoonup> state_chunk) \<Rightarrow> nat" where
  "next_missing_chunk_index m chunks = (case find (\<lambda>i. chunks i = None) [0..<mf_chunk_count m] of Some i \<Rightarrow> i | None \<Rightarrow> mf_chunk_count m)"

definition check_sync_timeout :: "net_env \<Rightarrow> node \<Rightarrow> node" where
  "check_sync_timeout E n = (case nd_sync_deadline n of
     None \<Rightarrow> n
   | Some deadline \<Rightarrow>
       if ne_instant E < deadline then n
       else let n1 = n\<lparr>nd_sync_retries := nd_sync_retries n + 1\<rparr> in
         if nd_sync_retries n1 \<ge> MAX_SYNC_RETRIES then
           let start_chunk = (case nd_manifest n1 of Some m \<Rightarrow> next_missing_chunk_index m (nd_chunks n1) | None \<Rightarrow> 0)
           in (start_sync E (request_snapshot n1 None start_chunk) n1)\<lparr>nd_sync_retries := 0\<rparr>
         else let msg = (case nd_manifest n1 of
                Some m \<Rightarrow> request_snapshot n1 (Some (mf_height m)) (next_missing_chunk_index m (nd_chunks n1))
              | None \<Rightarrow> request_blocks n1 (height (nd_chain n1) + 1))
           in (send E msg n1)\<lparr>nd_sync_deadline := Some (ne_instant E + secs SYNC_TIMEOUT_SECS)\<rparr>)"

section \<open>Block production\<close>

definition should_delay_initial_production :: "instant \<Rightarrow> nat \<Rightarrow> instant \<Rightarrow> bool" where
  "should_delay_initial_production started_at connected_peers now =
     (let elapsed = now - started_at in
      if elapsed < secs STARTUP_GRACE_SECS then True
      else connected_peers = 0 \<and> elapsed < secs PEERLESS_PRODUCTION_AFTER_SECS)"

definition allowed_rank_for_slot :: "u64 \<Rightarrow> i64 \<Rightarrow> i64 \<Rightarrow> nat \<Rightarrow> u32" where
  "allowed_rank_for_slot next_height parent_timestamp now_unix snap_size =
     (if next_height \<le> 1 then 0 else allowed_backup_rank parent_timestamp now_unix snap_size)"

definition prune_verified_peer_tips :: "instant \<Rightarrow> (peer_id \<rightharpoonup> u64 \<times> bytes \<times> instant) \<Rightarrow> peer_id \<rightharpoonup> u64 \<times> bytes \<times> instant" where
  "prune_verified_peer_tips now tips = (\<lambda>p. case tips p of
     Some (h, hash, seen_at) \<Rightarrow> if now - seen_at < secs VERIFIED_TIP_TTL_SECS then Some (h, hash, seen_at) else None
   | None \<Rightarrow> None)"

text \<open>One round of the loop over the tips: the best higher tip and the first divergent one.\<close>
fun weigh_tip :: "u64 \<Rightarrow> bytes \<Rightarrow> u64 \<times> bytes \<times> instant \<Rightarrow> (u64 \<times> bytes) option \<times> (u64 \<times> bytes) option
    \<Rightarrow> (u64 \<times> bytes) option \<times> (u64 \<times> bytes) option" where
  "weigh_tip our_height our_hash (h, hash, _) (best_higher, divergent) =
     (if h > our_height then
        (if (case best_higher of None \<Rightarrow> True | Some (best_height, _) \<Rightarrow> h > best_height) then Some (h, hash) else best_higher, divergent)
      else if h = our_height \<and> hash \<noteq> our_hash \<and> divergent = None then (best_higher, Some (h, hash))
      else (best_higher, divergent))"

text \<open>The tips in the order of the hash map.\<close>
definition sync_needed_from_verified_tips :: "(u64 \<times> bytes \<times> instant) list \<Rightarrow> u64 \<Rightarrow> bytes \<Rightarrow> (u64 \<times> bytes \<times> bool) option" where
  "sync_needed_from_verified_tips tips our_height our_hash =
     (case fold (weigh_tip our_height our_hash) tips (None, None) of
        (Some (h, hash), _) \<Rightarrow> Some (h, hash, False)
      | (None, Some (h, hash)) \<Rightarrow> Some (h, hash, True)
      | (None, None) \<Rightarrow> None)"

definition tips_of :: "node \<Rightarrow> (u64 \<times> bytes \<times> instant) list" where
  "tips_of n = map snd (entries (nd_verified_tips n))"

text \<open>The catch-up message for a peer that is ahead.\<close>
definition catch_up :: "node \<Rightarrow> u64 \<Rightarrow> bool \<Rightarrow> network_message" where
  "catch_up n target divergent = (let h = height (nd_chain n) in
     if divergent \<or> sat_sub target h > SYNC_BATCH_SIZE then request_snapshot n None 0 else request_blocks n (h + 1))"

text \<open>Old tips are dropped; a tip above the sync target raises it.\<close>
definition raise_target :: "net_env \<Rightarrow> node \<Rightarrow> node" where
  "raise_target E n0 =
     (let n = n0\<lparr>nd_verified_tips := prune_verified_peer_tips (ne_instant E) (nd_verified_tips n0)\<rparr>
      in case sync_needed_from_verified_tips (tips_of n) (height (nd_chain n)) (latest_hash (nd_chain n)) of
           Some (peer_height, _, _) \<Rightarrow>
             if (case nd_sync_target_height n of None \<Rightarrow> True | Some target \<Rightarrow> peer_height > target)
             then n\<lparr>nd_sync_target_height := Some peer_height, nd_sync_stable_ticks := 0\<rparr> else n
         | None \<Rightarrow> n)"

text \<open>The sync gate, up to the end of the \<open>if let Some(target_height)\<close>; the flag tells whether production goes on.\<close>
definition sync_gate :: "net_env \<Rightarrow> node \<Rightarrow> bool \<times> node" where
  "sync_gate E n0 =
     (let n = raise_target E n0; h = height (nd_chain n)
      in case nd_sync_target_height n of
           None \<Rightarrow> (True, n)
         | Some target \<Rightarrow>
             if h < target then (False, start_sync E (catch_up n target False) n)
             else let highest = (case tips_of n of [] \<Rightarrow> h | tips \<Rightarrow> Max (set (map fst tips))) in
               if highest > h then (False, n\<lparr>nd_sync_target_height := Some highest, nd_sync_stable_ticks := 0\<rparr>)
               else let ticks = sat_add (nd_sync_stable_ticks n) 1 in
                 if ticks < SYNC_STABLE_TICKS_BEFORE_PRODUCTION then (False, n\<lparr>nd_sync_stable_ticks := ticks\<rparr>)
                 else (True, n\<lparr>nd_sync_target_height := None, nd_sync_stable_ticks := 0\<rparr>))"

text \<open>The lowest rank up to \<open>last_rank\<close> that elects us; an unknown leader ends the search.\<close>
fun find_rank :: "externs \<Rightarrow> blockchain \<Rightarrow> u64 \<Rightarrow> bytes \<Rightarrow> bytes \<Rightarrow> nat list \<Rightarrow> nat option" where
  "find_rank X c h prev my_address [] = None"
| "find_rank X c h prev my_address (r # rs) = (case slot_leader_address X c h prev (of_nat r) of
     None \<Rightarrow> None
   | Some a \<Rightarrow> if a = my_address then Some r else find_rank X c h prev my_address rs)"

text \<open>\<open>FinalityVote::new\<close>, applied locally and published.\<close>
definition publish_vote :: "externs \<Rightarrow> bincode \<Rightarrow> net_env \<Rightarrow> node \<Rightarrow> key_pair \<Rightarrow> block \<Rightarrow> node option" where
  "publish_vote X Bc E n kp b = do {
     vote \<leftarrow> finality_vote_new X (blk_hash b) (blk_height b) (epoch_for_height (nd_chain n) (blk_height b)) kp;
     Some (case cd_enc (ne_vote E) vote of
       Inl _ \<Rightarrow> n
     | Inr data \<Rightarrow> send E (FinalityVote data) (n\<lparr>nd_live := live_vote X Bc (nd_live n) vote\<rparr>))}"

text \<open>\<open>create_block\<close>, adoption and publication of the own block.\<close>
definition produce_block :: "externs \<Rightarrow> bincode \<Rightarrow> net_env \<Rightarrow> node \<Rightarrow> key_pair \<Rightarrow> node option" where
  "produce_block X Bc E n kp =
     (case create_block X (ne_unix E) (ne_unix E) (ne_unix E) (nd_chain n) kp of
        Inl Panicked \<Rightarrow> None
      | Inl _ \<Rightarrow> Some n
      | Inr b \<Rightarrow>
          (case cd_enc (bin_block Bc) b of
             Inl _ \<Rightarrow> Some n
           | Inr serialized \<Rightarrow>
               (case live_add_block X Bc (ne_unix E) (nd_live n) b of
                  (Inl Panicked, _) \<Rightarrow> None
                | (Inl _, live) \<Rightarrow> Some (n\<lparr>nd_live := live\<rparr>)
                | (Inr _, live) \<Rightarrow> do {
                    n2 \<leftarrow> publish_vote X Bc E (send E (NewBlock serialized) (n\<lparr>nd_live := live\<rparr>)) kp b;
                    Some (n2\<lparr>nd_seen := insert (blk_hash b) (nd_seen n2)\<rparr>)})))"

text \<open>The body of the tick after the gates: the rank search and the refusal of isolated backups.\<close>
definition try_produce :: "externs \<Rightarrow> bincode \<Rightarrow> net_env \<Rightarrow> node \<Rightarrow> key_pair \<Rightarrow> block \<Rightarrow> node option" where
  "try_produce X Bc E n kp parent =
     (let c = nd_chain n; next_height = blk_height parent + 1;
          snap_size = (case bc_epoch_snapshots c (epoch_for_height c next_height) of Some s \<Rightarrow> length (es_validators s) | None \<Rightarrow> 0);
          allowed_rank = allowed_rank_for_slot next_height (hdr_timestamp (blk_header parent)) (ne_unix E) snap_size;
          my_address = address_bytes_from_public_key X (kp_public_key kp)
      in case find_rank X c next_height (blk_hash parent) my_address [0..<Suc (unat allowed_rank)] of
           None \<Rightarrow> Some n
         | Some rank \<Rightarrow> if rank > 0 \<and> ne_connected_peers E = 0 then Some n else produce_block X Bc E n kp)"

definition block_tick :: "externs \<Rightarrow> bincode \<Rightarrow> net_env \<Rightarrow> node \<Rightarrow> node option" where
  "block_tick X Bc E n0 =
     (let c = nd_chain n0;
          n = switch_topic E (topic_name (gc_chain_id (bc_genesis_config c)) (protocol_version_at_height c (height c))) n0
      in case nd_validator_key n of
           None \<Rightarrow> Some n
         | Some kp \<Rightarrow>
             if nd_sync_requested n then Some n
             else (case latest_block c of
                None \<Rightarrow> None
              | Some parent \<Rightarrow>
                  if ne_instant E - nd_last_peer_change_at n < secs PEER_MESH_SETTLE_SECS then Some n
                  else if should_delay_initial_production (nd_started_at n) (ne_connected_peers E) (ne_instant E) then Some n
                  else (case sync_gate E n of
                     (False, n1) \<Rightarrow> Some n1
                   | (True, n1) \<Rightarrow>
                       (case sync_needed_from_verified_tips (tips_of n1) (height c) (blk_hash parent) of
                          Some (peer_height, _, divergent) \<Rightarrow>
                            Some ((start_sync E (catch_up n1 peer_height divergent) n1)
                              \<lparr>nd_sync_target_height := Some peer_height, nd_sync_stable_ticks := 0\<rparr>)
                        | None \<Rightarrow> try_produce X Bc E n1 kp parent))))"

section \<open>Height announcements\<close>

definition announce_data :: "u64 \<Rightarrow> bytes \<Rightarrow> bytes \<Rightarrow> bytes" where
  "announce_data h latest gen_hash = u64_le h @ latest @ gen_hash"

definition announce_tick :: "externs \<Rightarrow> net_env \<Rightarrow> node \<Rightarrow> node option" where
  "announce_tick X E n0 =
     (let c = nd_chain n0; h = height c; version = protocol_version_at_height c h;
          n = switch_topic E (topic_name (gc_chain_id (bc_genesis_config c)) version) n0;
          announce = (\<lambda>pk sig. HeightAnnounce h (latest_hash c) (genesis_hash c) (nd_peer_id n) (nd_advertised_addrs n) pk sig version)
      in case nd_validator_key n of
           None \<Rightarrow> Some (send E (announce None None) n)
         | Some kp \<Rightarrow> do {
             sig \<leftarrow> dilithium_sign X kp (announce_data h (latest_hash c) (genesis_hash c));
             Some (send E (announce (Some (kp_public_key kp)) (Some sig)) n)})"

text \<open>Dialling the known peers is the business of libp2p.\<close>
definition on_height_announce :: "externs \<Rightarrow> net_env \<Rightarrow> node \<Rightarrow> u64 \<Rightarrow> bytes \<Rightarrow> bytes \<Rightarrow> peer_id \<Rightarrow> string list \<Rightarrow> bytes option \<Rightarrow> bytes option
    \<Rightarrow> u32 \<Rightarrow> node" where
  "on_height_announce X E n0 h latest gen_hash peer addrs public_key signature version =
     (let verified = (case (public_key, signature) of
            (Some pk, Some sig) \<Rightarrow> dilithium_verify X (announce_data h latest gen_hash) sig pk | _ \<Rightarrow> False);
          n1 = n0\<lparr>nd_peer_heights := (nd_peer_heights n0)(peer \<mapsto> (h, latest))\<rparr>;
          c = nd_chain n1; our_height = height c
      in if gen_hash \<noteq> genesis_hash c then n1
         else if version \<noteq> protocol_version_at_height c our_height then n1
         else let n = (if verified then n1\<lparr>
                  nd_known_peers := snd (record_peer_addrs_from_strings (ne_multiaddr E) (nd_peer_id n1) (ne_unix E) (nd_known_peers n1)
                    peer addrs ''verified-height-announce''),
                  nd_verified_tips := (nd_verified_tips n1)(peer \<mapsto> (h, latest, ne_instant E))\<rparr> else n1)
           in if h > our_height \<and> \<not> nd_sync_requested n \<and> verified then start_sync E (catch_up n h False) n
              else if h = our_height \<and> latest \<noteq> latest_hash c \<and> \<not> nd_sync_requested n \<and> verified
                then start_sync E (request_snapshot n None 0) n
              else n)"

section \<open>Blocks and transactions from the network\<close>

text \<open>The equivocation check after fork choice refused a block.\<close>
definition report_equivocation :: "externs \<Rightarrow> bincode \<Rightarrow> net_env \<Rightarrow> node \<Rightarrow> block \<Rightarrow> node" where
  "report_equivocation X Bc E n b =
     (case block_at_height (nd_chain n) (blk_height b) of
        None \<Rightarrow> n
      | Some our_block \<Rightarrow>
          (case evidence_of_blocks our_block b of
             None \<Rightarrow> n
           | Some evidence \<Rightarrow>
               if evidence_verify X evidence then
                 let n1 = n\<lparr>nd_live := live_equivocation X Bc (nd_live n) evidence\<rparr>
                 in (case cd_enc (bin_evidence Bc) evidence of Inl _ \<Rightarrow> n1 | Inr data \<Rightarrow> send E (SlashingEvidence data) n1)
               else n))"

text \<open>The result tells whether the block was adopted.\<close>
definition handle_new_block :: "externs \<Rightarrow> bincode \<Rightarrow> net_env \<Rightarrow> node \<Rightarrow> bytes \<Rightarrow> (bool \<times> node) option" where
  "handle_new_block X Bc E n data =
     (let data_hash = sha3_hash X data in
      if data_hash \<in> nd_seen n then Some (False, n)
      else let n1 = n\<lparr>nd_seen := insert data_hash (if card (nd_seen n) \<ge> MAX_SEEN_BLOCKS then {} else nd_seen n)\<rparr> in
        case bounded_deserialize (bin_block Bc) data of
          Inl _ \<Rightarrow> Some (False, n1)
        | Inr b \<Rightarrow>
            (case live_add_block X Bc (ne_unix E) (nd_live n1) b of
               (Inr _, live) \<Rightarrow>
                 let n2 = n1\<lparr>nd_live := live\<rparr> in
                 (case nd_validator_key n2 of
                    None \<Rightarrow> Some (True, n2)
                  | Some kp \<Rightarrow> map_option (Pair True) (publish_vote X Bc E n2 kp b))
             | (Inl e, live) \<Rightarrow>
                 let n2 = n1\<lparr>nd_live := live\<rparr> in
                 if e = Panicked then None
                 else if (case e of InvalidHeight _ _ \<Rightarrow> True | InvalidPrevHash \<Rightarrow> True | _ \<Rightarrow> False) then
                   (case live_fork_choice X Bc (ne_unix E) (nd_live n2) b of
                      None \<Rightarrow> None
                    | Some (Inl Panicked, _) \<Rightarrow> None
                    | Some (Inr reorged, live2) \<Rightarrow> Some (False, n2\<lparr>nd_live := live2\<rparr>)
                    | Some (Inl _, live2) \<Rightarrow> Some (False, report_equivocation X Bc E (n2\<lparr>nd_live := live2\<rparr>) b))
                 else Some (False, n2)))"

definition handle_new_transaction :: "externs \<Rightarrow> bincode \<Rightarrow> net_env \<Rightarrow> node \<Rightarrow> bytes \<Rightarrow> (bool \<times> node) option" where
  "handle_new_transaction X Bc E n data =
     (case bounded_deserialize (bin_transaction Bc) data of
        Inl _ \<Rightarrow> Some (False, n)
      | Inr tx \<Rightarrow>
          (case live_transaction X Bc (ne_sort E) (ne_unix E) (nd_live n) tx of
             (Inl Panicked, _) \<Rightarrow> None
           | (r, live) \<Rightarrow> Some (r = Inr (), n\<lparr>nd_live := live\<rparr>)))"

section \<open>Block requests and responses\<close>

text \<open>The manifest and the chunks, those that serialise.\<close>
definition send_manifest :: "bincode \<Rightarrow> net_env \<Rightarrow> peer_id \<Rightarrow> snapshot_manifest \<Rightarrow> node \<Rightarrow> node" where
  "send_manifest Bc E target m n = (case cd_enc (bin_manifest Bc) m of Inl _ \<Rightarrow> n | Inr data \<Rightarrow> send E (SnapshotManifest target data) n)"

definition send_chunk :: "bincode \<Rightarrow> net_env \<Rightarrow> peer_id \<Rightarrow> u64 \<Rightarrow> state_chunk \<Rightarrow> node \<Rightarrow> node" where
  "send_chunk Bc E target h ch n = (case cd_enc (bin_chunk Bc) ch of Inl _ \<Rightarrow> n | Inr data \<Rightarrow> send E (SnapshotChunk target h data) n)"

definition offer_snapshot :: "externs \<Rightarrow> bincode \<Rightarrow> net_env \<Rightarrow> node \<Rightarrow> peer_id \<Rightarrow> node option" where
  "offer_snapshot X Bc E n requester = do {
     (r, live) \<leftarrow> live_snapshot X Bc (ne_unix E) (nd_live n);
     let n1 = n\<lparr>nd_live := live\<rparr>;
     Some (case r of
       Inl _ \<Rightarrow> n1
     | Inr m \<Rightarrow> (case live_snapshot_chunks Bc live (mf_height m) of
         Inl _ \<Rightarrow> n1
       | Inr chunks \<Rightarrow> fold (send_chunk Bc E requester (mf_height m)) chunks (send_manifest Bc E requester m n1)))}"

text \<open>The serialised blocks from \<open>from\<close> up to \<open>end_height\<close>; missing ones and those that do not serialise are left out.\<close>
definition block_batch :: "bincode \<Rightarrow> blockchain \<Rightarrow> u64 \<Rightarrow> u64 \<Rightarrow> bytes list" where
  "block_batch Bc c from end_height = List.map_filter (\<lambda>h. case block_at_height c (of_nat h) of
       None \<Rightarrow> None
     | Some b \<Rightarrow> (case cd_enc (bin_block Bc) b of Inl _ \<Rightarrow> None | Inr data \<Rightarrow> Some data)) [unat from..<Suc (unat end_height)]"

definition handle_block_request :: "externs \<Rightarrow> bincode \<Rightarrow> net_env \<Rightarrow> node \<Rightarrow> u64 \<Rightarrow> peer_id \<Rightarrow> bytes \<Rightarrow> bytes \<Rightarrow> node option" where
  "handle_block_request X Bc E n from requester expected_prev_hash request_genesis =
     (let c = nd_chain n; our_height = height c in
      if request_genesis \<noteq> genesis_hash c then Some n
      else if from > our_height then Some n
      else if from > 0 \<and> (case block_at_height c (from - 1) of Some prev \<Rightarrow> blk_hash prev \<noteq> expected_prev_hash | None \<Rightarrow> False)
        then offer_snapshot X Bc E n requester
      else let batch = block_batch Bc c from (min (from + SYNC_BATCH_SIZE - 1) our_height) in
        if batch = [] then Some n
        else Some (send E (BlockResponse from requester (nd_peer_id n) (genesis_hash c) batch) n))"

text \<open>The loop over the blocks of a response, with the numbers of adopted and of known blocks.\<close>
fun response_loop :: "externs \<Rightarrow> bincode \<Rightarrow> i64 \<Rightarrow> bytes list \<Rightarrow> live_chain \<times> nat \<times> nat \<Rightarrow> (live_chain \<times> nat \<times> nat) option" where
  "response_loop X Bc now [] st = Some st"
| "response_loop X Bc now (data # rest) (live, accepted, skipped) =
     (case bounded_deserialize (bin_block Bc) data of
        Inl _ \<Rightarrow> Some (live, accepted, skipped)
      | Inr b \<Rightarrow>
          if blk_height b \<le> height (fst live) then response_loop X Bc now rest (live, accepted, Suc skipped)
          else if blk_height b \<noteq> height (fst live) + 1 then Some (live, accepted, skipped)
          else (case live_add_block X Bc now live b of
             (Inr _, live') \<Rightarrow> response_loop X Bc now rest (live', Suc accepted, skipped)
           | (Inl Panicked, _) \<Rightarrow> None
           | (Inl _, live') \<Rightarrow> Some (live', accepted, skipped)))"

definition handle_block_response :: "externs \<Rightarrow> bincode \<Rightarrow> net_env \<Rightarrow> node \<Rightarrow> u64 \<Rightarrow> bytes \<Rightarrow> bytes list \<Rightarrow> node option" where
  "handle_block_response X Bc E n from response_genesis blocks_data =
     (if response_genesis \<noteq> genesis_hash (nd_chain n) then Some n
      else if from > sat_add (height (nd_chain n)) 1 then Some n
      else do {
        (live, accepted, skipped) \<leftarrow> response_loop X Bc (ne_unix E) blocks_data (nd_live n, 0, 0);
        let n1 = n\<lparr>nd_live := live\<rparr>;
        Some (if accepted > 0 \<or> skipped = length blocks_data \<and> blocks_data \<noteq> [] then end_sync n1 else n1)})"

section \<open>Snapshots over the network\<close>

text \<open>A snapshot, taken again when its height is not the preferred one.\<close>
definition preferred_snapshot :: "externs \<Rightarrow> bincode \<Rightarrow> i64 \<Rightarrow> live_chain \<Rightarrow> u64 option \<Rightarrow> ((chain_error + snapshot_manifest) \<times> live_chain) option" where
  "preferred_snapshot X Bc now live preferred =
     (case live_snapshot X Bc now live of
        None \<Rightarrow> None
      | Some (Inl e, live') \<Rightarrow> Some (Inl e, live')
      | Some (Inr m, live') \<Rightarrow>
          if (case preferred of None \<Rightarrow> True | Some h \<Rightarrow> mf_height m = h) then Some (Inr m, live') else live_snapshot X Bc now live')"

definition serve_snapshot :: "bincode \<Rightarrow> net_env \<Rightarrow> peer_id \<Rightarrow> nat \<Rightarrow> snapshot_manifest \<Rightarrow> node \<Rightarrow> node" where
  "serve_snapshot Bc E requester start_chunk m n =
     (case (cd_enc (bin_manifest Bc) m, live_snapshot_chunks Bc (nd_live n) (mf_height m)) of
        (Inr data, Inr chunks) \<Rightarrow>
          fold (send_chunk Bc E requester (mf_height m)) (drop start_chunk chunks) (send E (SnapshotManifest requester data) n)
      | _ \<Rightarrow> n)"

definition on_snapshot_request :: "externs \<Rightarrow> bincode \<Rightarrow> net_env \<Rightarrow> node \<Rightarrow> peer_id \<Rightarrow> u64 option \<Rightarrow> nat \<Rightarrow> u64 \<Rightarrow> bytes \<Rightarrow> node option" where
  "on_snapshot_request X Bc E n requester preferred start_chunk known_height known_hash =
     (let c = nd_chain n in
      if height c = 0 then Some n
      else if known_height > 0 \<and> (case block_at_height c known_height of Some b \<Rightarrow> blk_hash b \<noteq> known_hash | None \<Rightarrow> True) then Some n
      else (case preferred_snapshot X Bc (ne_unix E) (nd_live n) preferred of
              None \<Rightarrow> None
            | Some (Inl _, live) \<Rightarrow> Some (n\<lparr>nd_live := live\<rparr>)
            | Some (Inr m, live) \<Rightarrow> Some (serve_snapshot Bc E requester start_chunk m (n\<lparr>nd_live := live\<rparr>))))"

text \<open>The chunks \<open>0..<count\<close> are taken out of the map; a missing one ends the loop.\<close>
fun take_chunks :: "nat list \<Rightarrow> (nat \<rightharpoonup> state_chunk) \<Rightarrow> state_chunk list \<Rightarrow> state_chunk list option \<times> (nat \<rightharpoonup> state_chunk)" where
  "take_chunks [] chunks ordered = (Some ordered, chunks)"
| "take_chunks (i # is) chunks ordered = (case chunks i of
     Some ch \<Rightarrow> take_chunks is (chunks(i := None)) (ordered @ [ch])
   | None \<Rightarrow> (None, chunks))"

text \<open>The path shared by the last chunk and by a manifest that finds all its chunks buffered.\<close>
definition try_apply_snapshot :: "externs \<Rightarrow> bincode \<Rightarrow> net_env \<Rightarrow> node \<Rightarrow> snapshot_manifest \<Rightarrow> node" where
  "try_apply_snapshot X Bc E n m =
     (if card (dom (nd_chunks n)) \<noteq> mf_chunk_count m then n
      else case take_chunks [0..<mf_chunk_count m] (nd_chunks n) [] of
        (None, chunks) \<Rightarrow> n\<lparr>nd_chunks := chunks\<rparr>
      | (Some ordered, chunks) \<Rightarrow>
          (case apply_snapshot X Bc (snd (nd_live n)) (nd_chain n) m ordered of
             (Inl _, c, p) \<Rightarrow> n\<lparr>nd_live := (c, p), nd_chunks := \<lambda>_. None, nd_manifest := None\<rparr>
           | (Inr _, c, p) \<Rightarrow>
               let n1 = n\<lparr>nd_live := (c, p), nd_chunks := chunks, nd_manifest := None\<rparr>
               in if mf_tip_height m > mf_height m then start_sync E (request_blocks n1 (sat_add (mf_height m) 1)) n1 else end_sync n1))"

text \<open>The checks of a manifest before it becomes the pending one.\<close>
definition manifest_ok :: "blockchain \<Rightarrow> snapshot_manifest \<Rightarrow> bool" where
  "manifest_ok c m \<longleftrightarrow> mf_height m > height c \<and> mf_chain_id m = gc_chain_id (bc_genesis_config c) \<and> mf_genesis_hash m = genesis_hash c
     \<and> mf_chunk_root m \<noteq> [] \<and> mf_chunk_count m \<noteq> 0 \<and> length (mf_chunk_hashes m) = mf_chunk_count m
     \<and> \<not> (mf_height m > mf_tip_height m \<and> mf_tip_height m \<noteq> 0)
     \<and> \<not> (ft_finalized_hash (bc_finality_tracker c) \<noteq> [] \<and> ft_finalized_height (bc_finality_tracker c) = mf_finalized_height m
         \<and> ft_finalized_hash (bc_finality_tracker c) \<noteq> mf_finalized_hash m)"

text \<open>The buffered chunks of the height of the manifest, under their own indices.\<close>
definition drain_early :: "u64 \<Rightarrow> (u64 \<times> nat \<rightharpoonup> state_chunk) \<Rightarrow> (nat \<rightharpoonup> state_chunk) \<Rightarrow> nat \<rightharpoonup> state_chunk" where
  "drain_early h early chunks = chunks ++ (\<lambda>i. early (h, i))"

definition on_snapshot_manifest :: "externs \<Rightarrow> bincode \<Rightarrow> net_env \<Rightarrow> node \<Rightarrow> peer_id \<Rightarrow> bytes \<Rightarrow> node" where
  "on_snapshot_manifest X Bc E n target data =
     (if target \<noteq> nd_peer_id n then n
      else case bounded_deserialize (bin_manifest Bc) data of
        Inl _ \<Rightarrow> n
      | Inr m \<Rightarrow>
          if \<not> manifest_ok (nd_chain n) m then n
          else let same_session = (case nd_manifest n of Some cur \<Rightarrow> mf_height cur = mf_height m \<and> mf_chunk_root cur = mf_chunk_root m | None \<Rightarrow> False);
                   chunks = (if same_session then nd_chunks n else (\<lambda>_. None));
                   n1 = n\<lparr>nd_manifest := Some m, nd_chunks := drain_early (mf_height m) (nd_early_chunks n) chunks,
                     nd_early_chunks := (\<lambda>(h, i). if h > mf_height m then nd_early_chunks n (h, i) else None)\<rparr>
               in try_apply_snapshot X Bc E n1 m)"

text \<open>Bytes held in the buffer of chunks that came before their manifest.\<close>
definition buffered_bytes :: "(u64 \<times> nat \<rightharpoonup> state_chunk) \<Rightarrow> nat" where
  "buffered_bytes early = total (\<lambda>ch. length (ch_data ch)) early"

definition buffer_chunk :: "node \<Rightarrow> u64 \<Rightarrow> state_chunk \<Rightarrow> node" where
  "buffer_chunk n h ch =
     (if card (dom (nd_early_chunks n)) < MAX_BUFFERED_PRE_MANIFEST_CHUNKS
        \<and> buffered_bytes (nd_early_chunks n) + length (ch_data ch) \<le> MAX_BUFFERED_PRE_MANIFEST_BYTES
      then n\<lparr>nd_early_chunks := (nd_early_chunks n)((h, ch_index ch) \<mapsto> ch)\<rparr> else n)"

definition on_snapshot_chunk :: "externs \<Rightarrow> bincode \<Rightarrow> net_env \<Rightarrow> node \<Rightarrow> peer_id \<Rightarrow> u64 \<Rightarrow> bytes \<Rightarrow> node" where
  "on_snapshot_chunk X Bc E n target h data =
     (if target \<noteq> nd_peer_id n then n
      else case bounded_deserialize (bin_chunk Bc) data of
        Inl _ \<Rightarrow> n
      | Inr ch \<Rightarrow>
          (case nd_manifest n of
             Some m \<Rightarrow>
               if mf_height m = h then try_apply_snapshot X Bc E (n\<lparr>nd_chunks := (nd_chunks n)(ch_index ch \<mapsto> ch)\<rparr>) m
               else buffer_chunk n h ch
           | None \<Rightarrow> buffer_chunk n h ch))"

section \<open>The event loop\<close>

text \<open>A message that passed the limiter and the score check; blocks and transactions score their sender.\<close>
definition on_message :: "externs \<Rightarrow> bincode \<Rightarrow> net_env \<Rightarrow> node \<Rightarrow> peer_id option \<Rightarrow> network_message \<Rightarrow> node option" where
  "on_message X Bc E n source msg = (case msg of
     NewBlock data \<Rightarrow> do {
       (accepted, n1) \<leftarrow> handle_new_block X Bc E n data;
       Some (case source of None \<Rightarrow> n1 | Some p \<Rightarrow> n1\<lparr>nd_peer_scorer :=
         if accepted then record_good (nd_peer_scorer n1) p SCORE_VALID_BLOCK (ne_instant E)
         else record_bad (nd_peer_scorer n1) p SCORE_INVALID_BLOCK (ne_instant E)\<rparr>)}
   | NewTransaction data \<Rightarrow> do {
       (tx_ok, n1) \<leftarrow> handle_new_transaction X Bc E n data;
       Some (case source of None \<Rightarrow> n1 | Some p \<Rightarrow> n1\<lparr>nd_peer_scorer :=
         if tx_ok then record_good (nd_peer_scorer n1) p SCORE_VALID_TX (ne_instant E)
         else record_bad (nd_peer_scorer n1) p SCORE_INVALID_TX (ne_instant E)\<rparr>)}
   | RequestBlocks from requester prev gen_hash \<Rightarrow> handle_block_request X Bc E n from requester prev gen_hash
   | BlockResponse from target responder gen_hash blocks \<Rightarrow>
       if target = nd_peer_id n then handle_block_response X Bc E n from gen_hash blocks else Some n
   | HeightAnnounce h latest gen_hash peer addrs public_key signature version \<Rightarrow>
       Some (on_height_announce X E n h latest gen_hash peer addrs public_key signature version)
   | SlashingEvidence data \<Rightarrow> (case bounded_deserialize (bin_evidence Bc) data of
       Inl _ \<Rightarrow> Some n | Inr evidence \<Rightarrow> Some (n\<lparr>nd_live := live_equivocation X Bc (nd_live n) evidence\<rparr>))
   | FinalityVote data \<Rightarrow> (case bounded_deserialize (ne_vote E) data of
       Inl _ \<Rightarrow> Some n | Inr vote \<Rightarrow> Some (n\<lparr>nd_live := live_vote X Bc (nd_live n) vote\<rparr>))
   | RequestSnapshot requester preferred start known_height known_hash \<Rightarrow> on_snapshot_request X Bc E n requester preferred start known_height known_hash
   | SnapshotManifest target data \<Rightarrow> Some (on_snapshot_manifest X Bc E n target data)
   | SnapshotChunk target h data \<Rightarrow> Some (on_snapshot_chunk X Bc E n target h data))"

definition on_gossip :: "externs \<Rightarrow> bincode \<Rightarrow> net_env \<Rightarrow> node \<Rightarrow> peer_id option \<Rightarrow> network_message \<Rightarrow> node option" where
  "on_gossip X Bc E n source msg = (case source of
     None \<Rightarrow> on_message X Bc E n source msg
   | Some p \<Rightarrow>
       (case limiter_check (nd_rate_limiter n) p (ne_instant E) of
          (allowed, rl) \<Rightarrow>
            let n1 = n\<lparr>nd_rate_limiter := rl\<rparr> in
            if \<not> allowed then Some (n1\<lparr>nd_peer_scorer := record_bad (nd_peer_scorer n1) p SCORE_RATE_LIMITED (ne_instant E)\<rparr>)
            else if should_ban (nd_peer_scorer n1) p then Some n1
            else on_message X Bc E n1 source msg))"

definition cleanup_tick :: "net_env \<Rightarrow> peer_id list \<Rightarrow> node \<Rightarrow> node" where
  "cleanup_tick E order n = n\<lparr>nd_rate_limiter := limiter_cleanup order (ne_instant E) (nd_rate_limiter n),
     nd_peer_scorer := scorer_cleanup (ne_instant E) (decay_scores (nd_peer_scorer n))\<rparr>"

text \<open>A peer found by mDNS; banned peers are skipped.\<close>
definition discover_peer :: "net_env \<Rightarrow> peer_id \<times> string \<Rightarrow> node \<Rightarrow> node" where
  "discover_peer E pa n = (case pa of (p, addr) \<Rightarrow>
     if is_banned (nd_rate_limiter n) p (ne_instant E) then n
     else n\<lparr>nd_known_peers := snd (record_peer_addrs_from_strings (ne_multiaddr E) (nd_peer_id n) (ne_unix E) (nd_known_peers n) p [addr] ''mdns''),
            nd_discovered := insert p (nd_discovered n)\<rparr>)"

definition on_discovered :: "net_env \<Rightarrow> (peer_id \<times> string) list \<Rightarrow> node \<Rightarrow> node" where
  "on_discovered E peers n = flush E ((fold (discover_peer E) peers n)\<lparr>nd_last_peer_change_at := ne_instant E\<rparr>)"

definition on_expired :: "net_env \<Rightarrow> (peer_id \<times> string) list \<Rightarrow> node \<Rightarrow> node" where
  "on_expired E peers n = n\<lparr>nd_discovered := nd_discovered n - set (map fst peers),
     nd_verified_tips := nd_verified_tips n |` (- set (map fst peers)), nd_last_peer_change_at := ne_instant E\<rparr>"

definition on_connected :: "net_env \<Rightarrow> node \<Rightarrow> node" where
  "on_connected E n = flush E (n\<lparr>nd_last_peer_change_at := ne_instant E\<rparr>)"

definition on_disconnected :: "net_env \<Rightarrow> peer_id \<Rightarrow> node \<Rightarrow> node" where
  "on_disconnected E p n = n\<lparr>nd_last_peer_change_at := ne_instant E, nd_verified_tips := (nd_verified_tips n)(p := None),
     nd_peer_heights := (nd_peer_heights n)(p := None)\<rparr>"

datatype node_event = Outbound network_message | BlockTick | AnnounceTick | RebroadcastTick | CleanupTick "peer_id list"
  | Gossip "peer_id option" network_message | Discovered "(peer_id \<times> string) list" | Expired "(peer_id \<times> string) list"
  | Connected peer_id | Disconnected_from peer_id

definition on_event :: "externs \<Rightarrow> bincode \<Rightarrow> net_env \<Rightarrow> node \<Rightarrow> node_event \<Rightarrow> node option" where
  "on_event X Bc E n ev = (case ev of
     Outbound m \<Rightarrow> Some (send E m n)
   | BlockTick \<Rightarrow> block_tick X Bc E n
   | AnnounceTick \<Rightarrow> announce_tick X E n
   | RebroadcastTick \<Rightarrow> Some (flush E n)
   | CleanupTick order \<Rightarrow> Some (cleanup_tick E order n)
   | Gossip source m \<Rightarrow> on_gossip X Bc E n source m
   | Discovered peers \<Rightarrow> Some (on_discovered E peers n)
   | Expired peers \<Rightarrow> Some (on_expired E peers n)
   | Connected p \<Rightarrow> Some (on_connected E n)
   | Disconnected_from p \<Rightarrow> Some (on_disconnected E p n))"

text \<open>One iteration of \<open>run_with_chain\<close>.\<close>
definition node_iteration :: "externs \<Rightarrow> bincode \<Rightarrow> net_env \<Rightarrow> node \<Rightarrow> node_event \<Rightarrow> node option" where
  "node_iteration X Bc E n ev = on_event X Bc E (check_sync_timeout E n) ev"

end
