(* ===== verification/Node_Sync.thy ===== *)
theory Node_Sync
  imports Node
begin

text \<open>
  Block synchronisation between two nodes: the requests of one and the responses of the other, over the handlers of \<open>Node\<close>.

  Chains that adopted the same blocks agree on everything the validation of the next block reads (\<open>twin\<close>), so a block one of them
  adopted is adopted by the other at any later time. Rounds of request and response therefore bring a node that is behind to the state of the
  other one, fifty blocks per round.
\<close>

section \<open>Chains with the same blocks\<close>

definition twin :: "blockchain \<Rightarrow> blockchain \<Rightarrow> bool" where
  "twin c d \<longleftrightarrow> rules c = rules d \<and> bc_cursor c = bc_cursor d \<and> bc_epoch_snapshots c = bc_epoch_snapshots d
     \<and> bc_validator_missed_epochs c = bc_validator_missed_epochs d \<and> bc_accounts c = bc_accounts d \<and> bc_contracts c = bc_contracts d
     \<and> bc_receipts c = bc_receipts d \<and> bc_token_registry c = bc_token_registry d \<and> bc_governance c = bc_governance d"

lemma twin_refl [simp]: "twin c c" and twin_sym: "twin c d \<Longrightarrow> twin d c" and twin_trans: "twin c d \<Longrightarrow> twin d e \<Longrightarrow> twin c e"
  by (simp_all add: twin_def)

lemma twin_other [simp]: "twin c (c\<lparr>bc_pending_transactions := pool, bc_finality_tracker := tr, bc_block_tree := t\<rparr>)"
  by (simp add: twin_def rules_def)

lemma twin_settle:
  assumes "twin c d"
  shows "twin (settle_before_block X c h) (settle_before_block X d h)"
proof -
  note r = rules_fields [OF assms [unfolded twin_def, THEN conjunct1]]
  have t: "bc_cursor c = bc_cursor d" "bc_epoch_snapshots c = bc_epoch_snapshots d" "bc_validator_missed_epochs c = bc_validator_missed_epochs d"
    "bc_accounts c = bc_accounts d" using assms by (simp_all add: twin_def)
  define e where "e = bc_epoch_snapshots (ensure_epoch_snapshot d h (bc_accounts d))"
  have ens: "ensure_epoch_snapshot c h (bc_accounts c) = c\<lparr>bc_epoch_snapshots := e\<rparr>" "ensure_epoch_snapshot d h (bc_accounts d) = d\<lparr>bc_epoch_snapshots := e\<rparr>"
    using r t by (simp_all add: e_def ensure_epoch_snapshot_def create_epoch_snapshot_from_accounts_def epoch_for_height_def snapshot_for_accounts_def)
  have "proposer_addresses_for_settling_epoch X (c\<lparr>bc_epoch_snapshots := e\<rparr>) h = proposer_addresses_for_settling_epoch X (d\<lparr>bc_epoch_snapshots := e\<rparr>) h"
    using r t by (intro proposer_addresses_cong) (simp_all add: block_at_height_def)
  then show ?thesis
    using assms r t unfolding settle_before_block_def ens Let_def by (auto simp: twin_def rules_def split: prod.split)
qed

lemma push_block_cursor: "bc_cursor (push_block_internal c b) = (case view_append (bc_cursor c) b of Inl _ \<Rightarrow> bc_cursor c | Inr v \<Rightarrow> v)"
  by (simp add: push_block_internal_def split: sum.split)

lemma twin_commit:
  assumes "twin c d"
  shows "twin (commit_block X c b ex) (commit_block X d b ex)"
  using assms by (auto simp: twin_def split: sum.split)

text \<open>A twin of a chain that adopted a block adopts it too, now or later.\<close>
lemma twin_add:
  assumes "twin c d" "add_block X now c b = (Inr (), c')" "now \<le> now'"
  shows "\<exists>d'. add_block X now' d b = (Inr (), d') \<and> twin c' d'"
proof -
  let ?c = "settle_before_block X c (blk_height b)" and ?d = "settle_before_block X d (blk_height b)"
  have t: "twin ?c ?d" by (rule twin_settle [OF assms(1)])
  obtain prev ex where v: "latest_block ?c = Some prev"
      "validate_block_against_state X ?c now b prev (bc_accounts ?c) (bc_contracts ?c) (bc_token_registry ?c) (bc_governance ?c) = Inr ex"
      "verify_block_against_known (gc_chain_id (bc_genesis_config ?c)) (blk_height b) (blk_hash b) = Inr ()" "c' = commit_block X ?c b ex"
    using assms(2) by (auto simp: add_block_def Let_def split: option.splits sum.splits)
  have "validate_block_against_state X ?c = validate_block_against_state X ?d" using t by (intro validate_cong) (simp_all add: twin_def)
  then have "validate_block_against_state X ?d now' b prev (bc_accounts ?d) (bc_contracts ?d) (bc_token_registry ?d) (bc_governance ?d) = Inr ex"
    using validate_later [OF v(2) assms(3)] t by (simp add: twin_def)
  moreover have "latest_block ?d = Some prev" "bc_genesis_config ?c = bc_genesis_config ?d"
    using v(1) t rules_fields(1) [of ?c ?d] by (simp_all add: twin_def latest_block_def block_at_height_def height_def block_count_def)
  ultimately have "add_block X now' d b = (Inr (), commit_block X ?d b ex)" using v(3) by (simp add: add_block_def Let_def)
  then show ?thesis using twin_commit [OF t] v(4) by blast
qed

lemma adopts_split_last:
  assumes "adopts X T c0 bs c"
  shows "bs = [] \<and> twin c0 c \<or> (\<exists>cs b c1 now c2. bs = cs @ [b] \<and> adopts X T c0 cs c1 \<and> now \<le> T \<and> add_block X now c1 b = (Inr (), c2) \<and> twin c2 c)"
  using assms
proof induction
  case (adopts_block bs c now b c')
  then show ?case using twin_refl by blast
next
  case (adopts_other bs c t tr pool)
  have "twin e (c\<lparr>bc_pending_transactions := pool, bc_finality_tracker := tr, bc_block_tree := t\<rparr>)" if "twin e c" for e
    using twin_trans [OF that twin_other] .
  then show ?case using adopts_other.IH by blast
qed simp

lemma adopts_twin: "adopts X T c0 bs c \<Longrightarrow> adopts X T' c0 bs d \<Longrightarrow> twin c d"
proof (induction bs arbitrary: c d rule: rev_induct)
  case Nil
  then show ?case using adopts_split_last [OF Nil(1)] adopts_split_last [OF Nil(2)] by (auto intro: twin_trans twin_sym)
next
  case (snoc b bs)
  obtain c1 now c2 where c: "adopts X T c0 bs c1" "add_block X now c1 b = (Inr (), c2)" "twin c2 c" using adopts_split_last [OF snoc.prems(1)] by auto
  obtain d1 now' d2 where d: "adopts X T' c0 bs d1" "add_block X now' d1 b = (Inr (), d2)" "twin d2 d" using adopts_split_last [OF snoc.prems(2)] by auto
  have t: "twin c1 d1" by (rule snoc.IH [OF c(1) d(1)])
  have "twin c2 d2"
  proof (cases "now \<le> now'")
    case True
    then show ?thesis using twin_add [OF t c(2) True] d(2) by auto
  next
    case False
    then show ?thesis using twin_add [OF twin_sym [OF t] d(2), of now] c(2) by (auto intro: twin_sym)
  qed
  then show ?case using c(3) d(3) by (meson twin_sym twin_trans)
qed

text \<open>The state before each block of a history.\<close>
lemma adopts_before:
  assumes "adopts X T c0 bs c" "i < length bs"
  shows "\<exists>ci now ci'. adopts X T c0 (take i bs) ci \<and> now \<le> T \<and> add_block X now ci (bs ! i) = (Inr (), ci')"
  using assms
proof induction
  case (adopts_block bs c now b c')
  show ?case
  proof (cases "i < length bs")
    case True
    then show ?thesis using adopts_block.IH by (simp add: nth_append)
  next
    case False
    then have "i = length bs" using adopts_block.prems by simp
    then show ?thesis using adopts_block.hyps by auto
  qed
qed simp_all

lemma adopts_later: "adopts X T c0 bs c \<Longrightarrow> T \<le> T' \<Longrightarrow> adopts X T' c0 bs c"
  by (induction rule: adopts.induct) (blast intro: adopts.intros order_trans)+

text \<open>A chain with a prefix of an adopted history adopts its next block.\<close>
lemma adopts_next:
  assumes "adopts X T c0 bs c" "i < length bs" "adopts X T' c0 (take i bs) d" "T \<le> now"
  shows "\<exists>d'. add_block X now d (bs ! i) = (Inr (), d')"
proof -
  obtain ci t ci' where ci: "adopts X T c0 (take i bs) ci" "t \<le> T" "add_block X t ci (bs ! i) = (Inr (), ci')"
    using adopts_before [OF assms(1,2)] by blast
  have "twin ci d" by (rule adopts_twin [OF ci(1) assms(3)])
  from twin_add [OF this ci(3), of now] show ?thesis using ci(2) assms(4) by auto
qed

section \<open>A response\<close>

text \<open>Live nodes write in the background.\<close>
definition background :: "persistence \<Rightarrow> bool" where
  "background p = (case p of SyncStorage _ \<Rightarrow> False | _ \<Rightarrow> True)"

lemma live_add_background:
  assumes "background p" "add_block X now c b = (Inr (), c')"
  shows "\<exists>p'. live_add_block X Bc now (c, p) b = (Inr (), c', p') \<and> background p'"
  using assms by (cases p) (auto simp: live_add_block_def persist_added_block_def persist_chain_def background_def)

text \<open>The blocks of a history can be sent: they serialise and fit into a message.\<close>
definition sendable :: "bincode \<Rightarrow> block list \<Rightarrow> bool" where
  "sendable Bc bs \<longleftrightarrow> serializer (bin_block Bc) (set bs) \<and> (\<forall>b \<in> set bs. length (enc_of (bin_block Bc) b) \<le> MAX_DESERIALIZE_SIZE)"

lemma sendable_decodes: "sendable Bc bs \<Longrightarrow> b \<in> set bs \<Longrightarrow> bounded_deserialize (bin_block Bc) (enc_of (bin_block Bc) b) = Inr b"
  using serializer.enc_dec(2) by (fastforce simp: sendable_def bounded_deserialize_def)

lemma genesis_holds:
  assumes "from_genesis X gc = Inr c0"
  shows "holds_blocks c0 (genesis_block c0) []" "blk_height (genesis_block c0) = 0"
  using assms by (auto simp: from_genesis_def Let_def holds_blocks_def block_count_def genesis_block_def split: sum.splits)

lemma holds_height: "holds_blocks c gen bs \<Longrightarrow> height c = of_nat (length bs)"
proof -
  assume "holds_blocks c gen bs"
  then have "unat (height c) = length bs" by (simp add: height_def unat_sat_sub holds_blocks_def)
  then show ?thesis by (metis unat_of_nat_id)
qed

lemma response_adopted:
  assumes "from_genesis X gc = Inr c0" "adopts X T c0 bs cs" "T \<le> now" "Suc (length bs) < 2 ^ 64" "sendable Bc bs"
    and "adopts X now c0 (take k bs) c" "background p" "k + m \<le> length bs"
  shows "\<exists>c' p'. response_loop X Bc now (map (enc_of (bin_block Bc)) (take m (drop k bs))) ((c, p), a, s) = Some ((c', p'), a + m, s)
    \<and> adopts X now c0 (take (k + m) bs) c' \<and> background p'"
  using assms(6-8)
proof (induction m arbitrary: k c p a)
  case (Suc m)
  let ?gen = "genesis_block c0"
  note gen = genesis_holds [OF assms(1)]
  have k: "k < length bs" "take (Suc m) (drop k bs) = bs ! k # take m (drop (Suc k) bs)"
    using Suc.prems(3) by (simp_all add: Cons_nth_drop_Suc [symmetric])
  obtain c1 where add: "add_block X now c (bs ! k) = (Inr (), c1)" using adopts_next [OF assms(2) k(1) Suc.prems(1) assms(3)] by blast
  have "adopts X now c0 (take k bs @ [bs ! k]) c1" by (rule adopts_block [OF Suc.prems(1) order_refl add])
  then have nxt: "adopts X now c0 (take (Suc k) bs) c1" using k(1) by (simp add: take_Suc_conv_app_nth)
  obtain p1 where live: "live_add_block X Bc now (c, p) (bs ! k) = (Inr (), c1, p1)" "background p1"
    using live_add_background [OF Suc.prems(2) add] by blast
  have "holds_blocks c ?gen (take k bs)" using adopts_history [OF Suc.prems(1) gen] assms(4) k(1) by simp
  then have h: "height c = of_nat k" and count: "unat (block_count c) = Suc k" using holds_height k(1) by (fastforce simp: holds_blocks_def)+
  have "unat (blk_height (bs ! k)) = Suc k"
    using adopts_history [OF assms(2) gen assms(4)] k(1) by (simp add: holds_blocks_def)
  moreover have "unat (of_nat k :: u64) = k" using assms(4) k(1) by (intro unat_of_nat_small) simp
  ultimately have b: "\<not> blk_height (bs ! k) \<le> height c" "blk_height (bs ! k) = height c + 1"
    using h assms(4) k(1) by (auto simp: word_le_nat_alt word_unat_eq_iff unat_add_exact)
  from Suc.IH [OF nxt live(2), of "Suc a"] obtain c' p' where
    "response_loop X Bc now (map (enc_of (bin_block Bc)) (take m (drop (Suc k) bs))) ((c1, p1), Suc a, s) = Some ((c', p'), Suc a + m, s)"
    "adopts X now c0 (take (Suc k + m) bs) c'" "background p'" using Suc.prems(3) by auto
  then show ?case
    using k(2) b live(1) sendable_decodes [OF assms(5), of "bs ! k"] k(1) by simp
qed simp

section \<open>A request\<close>

lemma map_filter_all: "(\<And>x. x \<in> set xs \<Longrightarrow> f x = Some (g x)) \<Longrightarrow> List.map_filter f xs = map g xs"
  by (induction xs) (simp_all add: List.map_filter_simps)

lemma take_drop_nth: "take m (drop k xs) = map ((!) xs) [k..<min (k + m) (length xs)]"
proof (rule nth_equalityI)
  show "length (take m (drop k xs)) = length (map ((!) xs) [k..<min (k + m) (length xs)])" by (simp add: min_def) arith
qed (simp add: less_diff_conv2 min_less_iff_conj, auto simp: min_def)

lemma batch_of_history:
  assumes "holds_blocks cs gen bs" "sendable Bc bs" "k < length bs" "length bs + 51 < 2 ^ 64"
  shows "block_batch Bc cs (of_nat k + 1) (min (of_nat k + 1 + SYNC_BATCH_SIZE - 1) (height cs)) = map (enc_of (bin_block Bc)) (take 50 (drop k bs))"
proof -
  have small: "unat (of_nat i :: u64) = i" if "i \<le> length bs + 51" for i using that assms(4) by (intro unat_of_nat_small) simp
  have req: "of_nat k + 1 = (of_nat (Suc k) :: u64)" "of_nat k + 1 + SYNC_BATCH_SIZE - 1 = (of_nat (k + 50) :: u64)"
    by (simp_all add: SYNC_BATCH_SIZE_def)
  have e: "unat (min (of_nat (k + 50)) (height cs)) = min (k + 50) (length bs)"
  proof -
    have "unat (of_nat (k + 50) :: u64) = k + 50" "unat (of_nat (length bs) :: u64) = length bs" using small assms(3) by (simp_all del: of_nat_add)
    then show ?thesis by (simp only: unat_min_u holds_height [OF assms(1)])
  qed
  have enc: "cd_enc (bin_block Bc) b = Inr (enc_of (bin_block Bc) b)" if "b \<in> set bs" for b
    using serializer.enc_dec(1) [OF _ that] assms(2) by (simp add: sendable_def)
  have "block_batch Bc cs (of_nat (Suc k)) (min (of_nat (k + 50)) (height cs))
      = map (\<lambda>h. enc_of (bin_block Bc) (bs ! (h - 1))) [Suc k..<Suc (min (k + 50) (length bs))]"
    unfolding block_batch_def e small [OF Suc_leI [OF trans_less_add1 [OF assms(3)]]]
  proof (rule map_filter_all)
    fix h assume "h \<in> set [Suc k..<Suc (min (k + 50) (length bs))]"
    then have h: "0 < h" "h \<le> length bs" by auto
    then have "(gen # bs) ! h = bs ! (h - 1)" by (simp add: nth_Cons')
    then show "(case block_at_height cs (of_nat h) of None \<Rightarrow> None
        | Some b \<Rightarrow> (case cd_enc (bin_block Bc) b of Inl _ \<Rightarrow> None | Inr data \<Rightarrow> Some data)) = Some (enc_of (bin_block Bc) (bs ! (h - 1)))"
      using holds_blocks_at [OF assms(1) h(2)] enc [of "bs ! (h - 1)"] h by simp
  qed
  also have "\<dots> = map (enc_of (bin_block Bc)) (take 50 (drop k bs))"
    unfolding map_Suc_upt [symmetric] take_drop_nth by simp
  finally show ?thesis unfolding req(2) unfolding req(1) .
qed


section \<open>Rounds\<close>

lemma send_rest [simp]:
  "nd_live (send E m n) = nd_live n" "nd_peer_id (send E m n) = nd_peer_id n" "nd_sync_requested (send E m n) = nd_sync_requested n"
  "nd_sync_target_height (send E m n) = nd_sync_target_height n" "nd_manifest (send E m n) = nd_manifest n" "nd_chunks (send E m n) = nd_chunks n"
  "nd_early_chunks (send E m n) = nd_early_chunks n" "nd_peer_scorer (send E m n) = nd_peer_scorer n" "nd_validator_key (send E m n) = nd_validator_key n"
  by (simp_all add: send_def split: prod.split)

text \<open>The messages reach the other node one after the other, past its limiter.\<close>
fun deliver :: "externs \<Rightarrow> bincode \<Rightarrow> net_env \<Rightarrow> network_message list \<Rightarrow> node \<Rightarrow> node option" where
  "deliver X Bc E [] n = Some n"
| "deliver X Bc E (m # ms) n = do { n' \<leftarrow> on_message X Bc E n None m; deliver X Bc E ms n' }"

text \<open>The client asks for the blocks after its tip; what the server publishes in return reaches the client.\<close>
definition sync_round :: "externs \<Rightarrow> bincode \<Rightarrow> net_env \<Rightarrow> net_env \<Rightarrow> node \<times> node \<Rightarrow> (node \<times> node) option" where
  "sync_round X Bc Es Ec st = (case st of (server, client) \<Rightarrow> do {
     server' \<leftarrow> on_message X Bc Es server None (request_blocks client (height (nd_chain client) + 1));
     client' \<leftarrow> deliver X Bc Ec (drop (length (nd_sent server)) (nd_sent server')) client;
     Some (server', client')})"

fun sync_rounds :: "nat \<Rightarrow> externs \<Rightarrow> bincode \<Rightarrow> net_env \<Rightarrow> net_env \<Rightarrow> node \<times> node \<Rightarrow> (node \<times> node) option" where
  "sync_rounds 0 X Bc Es Ec st = Some st"
| "sync_rounds (Suc j) X Bc Es Ec st = do { st' \<leftarrow> sync_round X Bc Es Ec st; sync_rounds j X Bc Es Ec st' }"

text \<open>The server adopted \<open>bs\<close>, the client its first \<open>k\<close> blocks.\<close>
definition behind :: "externs \<Rightarrow> blockchain \<Rightarrow> i64 \<Rightarrow> i64 \<Rightarrow> block list \<Rightarrow> nat \<Rightarrow> node \<times> node \<Rightarrow> bool" where
  "behind X c0 T now bs k st \<longleftrightarrow> k \<le> length bs \<and> adopts X T c0 bs (nd_chain (fst st)) \<and> adopts X now c0 (take k bs) (nd_chain (snd st))
     \<and> background (snd (nd_live (snd st)))"

lemma round_advances:
  assumes "from_genesis X gc = Inr c0" "T \<le> ne_unix Ec" "length bs + 51 < 2 ^ 64" "sendable Bc bs" "\<And>m. ne_publish Es m"
    and "behind X c0 T (ne_unix Ec) bs k st"
  shows "\<exists>st'. sync_round X Bc Es Ec st = Some st' \<and> behind X c0 T (ne_unix Ec) bs (min (k + 50) (length bs)) st'"
proof -
  obtain server client where st: "st = (server, client)" by fastforce
  let ?gen = "genesis_block c0" and ?n = "length bs" and ?now = "ne_unix Ec"
  note gen = genesis_holds [OF assms(1)]
  have k: "k \<le> ?n" and srv: "adopts X T c0 bs (nd_chain server)" and cli: "adopts X ?now c0 (take k bs) (nd_chain client)"
    and bg: "background (snd (nd_live client))" using assms(6) by (simp_all add: behind_def st)
  have hs: "holds_blocks (nd_chain server) ?gen bs" and hc: "holds_blocks (nd_chain client) ?gen (take k bs)"
    using adopts_history [OF srv gen] adopts_history [OF cli gen] assms(3) k by simp_all
  have g: "genesis_hash (nd_chain server) = blk_hash ?gen" "genesis_hash (nd_chain client) = blk_hash ?gen"
    using hs hc by (simp_all add: genesis_hash_def genesis_block_def holds_blocks_def)
  have h: "height (nd_chain client) = of_nat k" "height (nd_chain server) = of_nat ?n" using holds_height [OF hc] holds_height [OF hs] k by simp_all
  have small: "unat (of_nat i :: u64) = i" if "i \<le> ?n + 51" for i using that assms(3) by (intro unat_of_nat_small) simp
  have req: "unat (of_nat k + 1 :: u64) = Suc k" using small [of "Suc k"] k by (simp add: add.commute)
  show ?thesis
  proof (cases "k < ?n")
    case False
    then have "k = ?n" using k by simp
    moreover from this have "of_nat k + 1 > height (nd_chain server)" using req small [of ?n] h(2) by (simp add: word_less_nat_alt)
    ultimately have "sync_round X Bc Es Ec st = Some st"
      using g by (simp add: sync_round_def st on_message_def request_blocks_def handle_block_request_def h(1))
    then show ?thesis using assms(6) \<open>k = ?n\<close> by simp
  next
    case True
    have "last (?gen # take k bs) = (?gen # bs) ! k" using True by (cases k) (auto simp: last_conv_nth)
    then have prev: "latest_hash (nd_chain client) = blk_hash ((?gen # bs) ! k)" using holds_blocks_latest [OF hc] by (simp add: latest_hash_def)
    have at: "block_at_height (nd_chain server) (of_nat k) = Some ((?gen # bs) ! k)" using holds_blocks_at [OF hs k] .
    have le: "\<not> height (nd_chain server) < of_nat k + 1" using req small [of ?n] h(2) True by (simp add: word_less_nat_alt)
    let ?batch = "map (enc_of (bin_block Bc)) (take 50 (drop k bs))"
    have batch: "block_batch Bc (nd_chain server) (of_nat k + 1) (min (of_nat k + 1 + SYNC_BATCH_SIZE - 1) (height (nd_chain server))) = ?batch" "?batch \<noteq> []"
      using batch_of_history [OF hs assms(4) True assms(3)] True by simp_all
    let ?resp = "BlockResponse (of_nat k + 1) (nd_peer_id client) (nd_peer_id server) (blk_hash ?gen) ?batch"
    have sent: "on_message X Bc Es server None (request_blocks client (of_nat k + 1)) = Some (send Es ?resp server)"
      using batch le at prev g by (simp add: on_message_def request_blocks_def handle_block_request_def Let_def)
    have out: "drop (length (nd_sent server)) (nd_sent (send Es ?resp server)) = [?resp]"
      using assms(5) by (simp add: send_def broadcast_or_queue_def)
    define m where "m = min 50 (?n - k)"
    have tk: "take 50 (drop k bs) = take m (drop k bs)" "k + m \<le> ?n" "min (k + 50) ?n = k + m" "0 < m" using True by (auto simp: m_def min_def)
    obtain c p where live: "nd_live client = (c, p)" by fastforce
    obtain c' p' where loop: "response_loop X Bc ?now ?batch ((c, p), 0, 0) = Some ((c', p'), m, 0)"
      "adopts X ?now c0 (take (k + m) bs) c'" "background p'"
      using response_adopted [OF assms(1) srv assms(2) _ assms(4) _ _ tk(2), of c p 0 0] cli bg live assms(3) unfolding tk(1) by auto
    have "\<not> sat_add (height (nd_chain client)) 1 < of_nat k + 1"
      using req small [of k] k assms(3) unfolding h(1) by (simp add: word_less_nat_alt unat_sat_add)
    then have "on_message X Bc Ec client None ?resp = Some (end_sync (client\<lparr>nd_live := (c', p')\<rparr>))"
      using loop(1) tk(4) g(2) live by (simp add: on_message_def handle_block_response_def)
    then have "sync_round X Bc Es Ec st = Some (send Es ?resp server, end_sync (client\<lparr>nd_live := (c', p')\<rparr>))"
      using sent out by (simp add: sync_round_def st h(1))
    then show ?thesis using loop srv tk(2,3) by (simp add: behind_def end_sync_def)
  qed
qed

text \<open>C5. Block synchronisation converges. The server and the client start from the same genesis; the server adopted some blocks, the client a prefix of them.
  When blocks serialise, fit into messages and gossip takes them, each round of \<open>RequestBlocks\<close> and \<open>BlockResponse\<close> advances the client by up to fifty blocks, so
  after enough rounds it has adopted all of them and its accounts, contracts, receipts, tokens, governance, epoch snapshots and latest block are those of
  the server.\<close>
theorem block_sync_converges:
  assumes "from_genesis X gc = Inr c0" "adopts X T c0 bs (nd_chain server)" "adopts X (ne_unix Ec) c0 (take k bs) (nd_chain client)"
    and "T \<le> ne_unix Ec" "length bs + 51 < 2 ^ 64" "sendable Bc bs" "\<And>m. ne_publish Es m" "background (snd (nd_live client))"
    and "k \<le> length bs" "length bs \<le> k + 50 * j"
  shows "\<exists>server' client'. sync_rounds j X Bc Es Ec (server, client) = Some (server', client') \<and> adopts X (ne_unix Ec) c0 bs (nd_chain client')
    \<and> latest_block (nd_chain client') = latest_block (nd_chain server)
    \<and> bc_accounts (nd_chain client') = bc_accounts (nd_chain server) \<and> bc_contracts (nd_chain client') = bc_contracts (nd_chain server)
    \<and> bc_receipts (nd_chain client') = bc_receipts (nd_chain server) \<and> bc_token_registry (nd_chain client') = bc_token_registry (nd_chain server)
    \<and> bc_governance (nd_chain client') = bc_governance (nd_chain server) \<and> bc_epoch_snapshots (nd_chain client') = bc_epoch_snapshots (nd_chain server)"
proof -
  let ?now = "ne_unix Ec"
  have "\<exists>st'. sync_rounds j X Bc Es Ec st = Some st' \<and> behind X c0 T ?now bs (min (k + 50 * j) (length bs)) st'" if "behind X c0 T ?now bs k st" for j k st
    using that
  proof (induction j arbitrary: k st)
    case 0
    then show ?case by (simp add: behind_def min_absorb1)
  next
    case (Suc j)
    obtain st' where r: "sync_round X Bc Es Ec st = Some st'" "behind X c0 T ?now bs (min (k + 50) (length bs)) st'"
      using round_advances [OF assms(1,4,5,6,7) Suc.prems] by blast
    have "min (min (k + 50) (length bs) + 50 * j) (length bs) = min (k + 50 * Suc j) (length bs)" by (simp add: min_def)
    then show ?case using Suc.IH [OF r(2)] r(1) by auto
  qed
  moreover have "behind X c0 T ?now bs k (server, client)" using assms by (simp add: behind_def)
  moreover have "min (k + 50 * j) (length bs) = length bs" using assms(10) by simp
  ultimately obtain server' client' where r: "sync_rounds j X Bc Es Ec (server, client) = Some (server', client')"
    "adopts X ?now c0 bs (nd_chain client')" by (fastforce simp: behind_def)
  have "twin (nd_chain client') (nd_chain server)" by (rule adopts_twin [OF r(2) assms(2)])
  then show ?thesis using r by (auto simp: twin_def latest_block_def block_at_height_def height_def block_count_def)
qed

section \<open>Two nodes\<close>

definition demo_env :: "nat \<Rightarrow> i64 \<Rightarrow> net_env" where
  "demo_env i t = \<lparr>ne_instant = i, ne_unix = t, ne_publish = (\<lambda>_. True), ne_subscribe = (\<lambda>_. True), ne_connected_peers = 1,
     ne_multiaddr = (\<lambda>_. True), ne_vote = lookup_codec [], ne_sort = insertion_sort\<rparr>"

text \<open>The state before the first iteration of the loop.\<close>
definition start_node :: "peer_id \<Rightarrow> live_chain \<Rightarrow> key_pair option \<Rightarrow> node" where
  "start_node p live key = \<lparr>nd_peer_id = p, nd_live = live, nd_validator_key = key, nd_topic = [], nd_advertised_addrs = [],
     nd_known_peers = (\<lambda>_. None), nd_discovered = {}, nd_rate_limiter = peer_rate_limiter_new, nd_peer_scorer = (\<lambda>_. None), nd_sync_requested = False,
     nd_sync_deadline = None, nd_sync_retries = 0, nd_sync_target_height = None, nd_sync_stable_ticks = 0, nd_peer_heights = (\<lambda>_. None),
     nd_verified_tips = (\<lambda>_. None), nd_manifest = None, nd_chunks = (\<lambda>_. None), nd_early_chunks = (\<lambda>_. None), nd_pending = [], nd_seen = {},
     nd_started_at = 0, nd_last_peer_change_at = 0, nd_sent = []\<rparr>"

text \<open>One round brings a node at genesis to the block of the other.\<close>
theorem block_sync_converges_witness:
  "\<exists>Bc b c server' client'. adopts demo_externs 1700000009 demo_start_chain [b] c
     \<and> sync_rounds 1 demo_externs Bc (demo_env 0 1700000009) (demo_env 0 1700000009)
         (start_node ''s'' (c, NoStorage) None, start_node ''c'' (demo_start_chain, NoStorage) None) = Some (server', client')
     \<and> adopts demo_externs 1700000009 demo_start_chain [b] (nd_chain client') \<and> bc_accounts (nd_chain client') = bc_accounts c"
proof -
  obtain b c where b: "add_block demo_externs 1700000009 demo_chain b = (Inr (), c)" by (rule demo_block_accepted)
  let ?Bc = "(demo_bincode (from_chain c) (from_chain c))\<lparr>bin_block := lookup_codec [b]\<rparr>"
  have "sendable ?Bc [b]"
    by (simp add: sendable_def lookup_serializer MAX_DESERIALIZE_SIZE_def) (simp add: enc_of_def lookup_codec_def)
  then obtain server' client' where "sync_rounds 1 demo_externs ?Bc (demo_env 0 1700000009) (demo_env 0 1700000009)
         (start_node ''s'' (c, NoStorage) None, start_node ''c'' (demo_start_chain, NoStorage) None) = Some (server', client')"
     "adopts demo_externs 1700000009 demo_start_chain [b] (nd_chain client')" "bc_accounts (nd_chain client') = bc_accounts c"
    using block_sync_converges [OF demo_start_chain_from_genesis, of 1700000009 "[b]" "start_node ''s'' (c, NoStorage) None" "demo_env 0 1700000009" 0
        "start_node ''c'' (demo_start_chain, NoStorage) None" ?Bc "demo_env 0 1700000009" 1] demo_block_adopts [OF b]
      adopts_start [of demo_externs 1700000009 demo_start_chain]
    by (auto simp: start_node_def demo_env_def background_def)
  then show ?thesis using demo_block_adopts [OF b] by blast
qed

end
