(* ===== verification/Node_Run.thy ===== *)
theory Node_Run
  imports Node_Sync
begin

text \<open>
  Properties of the event loop of \<open>Node\<close> over whole runs.

  \<^item> Every iteration acts on the chain through the operations of the chain state machine, or applies one snapshot (\<open>node_loop_refines_chain\<close>).
  \<^item> The queue of pending messages, the buffer of early chunks and the peer scores stay within their bounds (\<open>node_buffers_bounded\<close>).
  \<^item> A sync target above the height of the chain stops block production for good (\<open>sync_target_halts_production\<close>), and a single chunk with an index
    out of range blocks a snapshot (\<open>stray_chunk_blocks_snapshot\<close>).
\<close>

section \<open>The chain of a node\<close>


lemma live_add_step: "live_add_block X Bc now live b = (r, live') \<Longrightarrow> chain_step X srt (fst live) (fst live')"
  by (cases live) (auto simp: live_add_block_def split: prod.splits sum.splits if_splits intro: step_block)

lemma live_fork_step: "live_fork_choice X Bc now live b = Some (r, live') \<Longrightarrow> chain_step X srt (fst live) (fst live')"
  by (cases live) (auto simp: live_fork_choice_def split: prod.splits sum.splits if_splits option.splits bool.splits intro: step_fork)

lemma live_vote_step: "chain_step X srt (fst live) (fst (live_vote X Bc live vote))"
  by (cases live) (auto simp: live_vote_def split: prod.splits option.splits intro: step_vote)

lemma live_equivocation_step: "(chain_step X srt)\<^sup>*\<^sup>* (fst live) (fst (live_equivocation X Bc live ev))"
  by (cases live) (auto simp: live_equivocation_def split: prod.splits sum.splits intro: step_slash)

lemma live_transaction_step: "live_transaction X Bc srt now live tx = (r, live') \<Longrightarrow> chain_step X srt (fst live) (fst live')"
  by (cases live) (auto simp: live_transaction_def split: prod.splits sum.splits intro: step_transaction)

lemma live_snapshot_same: "live_snapshot X Bc now live = Some (r, live') \<Longrightarrow> fst live' = fst live"
  by (cases live) (auto simp: live_snapshot_def)

lemma start_sync_rest [simp]:
  "nd_live (start_sync E m n) = nd_live n" "nd_peer_id (start_sync E m n) = nd_peer_id n" "nd_sync_target_height (start_sync E m n) = nd_sync_target_height n"
  "nd_manifest (start_sync E m n) = nd_manifest n" "nd_chunks (start_sync E m n) = nd_chunks n" "nd_pending (start_sync E m n) = nd_pending (send E m n)"
  "nd_early_chunks (start_sync E m n) = nd_early_chunks n" "nd_peer_scorer (start_sync E m n) = nd_peer_scorer n"
  by (simp_all add: start_sync_def)

lemma end_sync_rest [simp]:
  "nd_live (end_sync n) = nd_live n" "nd_peer_id (end_sync n) = nd_peer_id n" "nd_sync_target_height (end_sync n) = nd_sync_target_height n"
  "nd_manifest (end_sync n) = nd_manifest n" "nd_chunks (end_sync n) = nd_chunks n" "nd_pending (end_sync n) = nd_pending n"
  "nd_early_chunks (end_sync n) = nd_early_chunks n" "nd_peer_scorer (end_sync n) = nd_peer_scorer n"
  by (simp_all add: end_sync_def)

lemma flush_rest [simp]:
  "nd_live (flush E n) = nd_live n" "nd_sync_target_height (flush E n) = nd_sync_target_height n"
  "nd_early_chunks (flush E n) = nd_early_chunks n" "nd_peer_scorer (flush E n) = nd_peer_scorer n"
  by (simp_all add: flush_def split: prod.split)

lemma switch_topic_rest [simp]:
  "nd_live (switch_topic E t n) = nd_live n" "nd_sync_target_height (switch_topic E t n) = nd_sync_target_height n" "nd_pending (switch_topic E t n) = nd_pending n"
  "nd_early_chunks (switch_topic E t n) = nd_early_chunks n" "nd_peer_scorer (switch_topic E t n) = nd_peer_scorer n"
  "nd_validator_key (switch_topic E t n) = nd_validator_key n" "nd_sync_requested (switch_topic E t n) = nd_sync_requested n"
  by (simp_all add: switch_topic_def)

section \<open>Bounds of the buffers\<close>

definition scores_ok :: "peer_scorer \<Rightarrow> bool" where
  "scores_ok sc \<longleftrightarrow> (\<forall>p. PEER_SCORE_MIN \<le> get_score sc p \<and> get_score sc p \<le> PEER_SCORE_MAX)"

definition early_ok :: "(u64 \<times> nat \<rightharpoonup> state_chunk) \<Rightarrow> bool" where
  "early_ok early \<longleftrightarrow> finite (dom early) \<and> card (dom early) \<le> MAX_BUFFERED_PRE_MANIFEST_CHUNKS \<and> buffered_bytes early \<le> MAX_BUFFERED_PRE_MANIFEST_BYTES"

definition bounded :: "node \<Rightarrow> bool" where
  "bounded n \<longleftrightarrow> length (nd_pending n) \<le> MAX_PENDING_BROADCASTS \<and> early_ok (nd_early_chunks n) \<and> scores_ok (nd_peer_scorer n)"

lemma scores_ok_step: "scores_ok sc \<Longrightarrow> scorer_step sc sc' \<Longrightarrow> scores_ok sc'"
  using scores.step_inv unfolding scores_ok_def by blast

lemma scores_ok_recorded [intro]:
  assumes "scores_ok sc"
  shows "0 \<le> points \<Longrightarrow> scores_ok (record_good sc p points now)" "points \<le> 0 \<Longrightarrow> scores_ok (record_bad sc p points now)"
    "scores_ok (scorer_cleanup now (decay_scores sc))"
  using assms scores_ok_step scorer_step.intros by meson+

lemma bounded_send [simp]: "bounded n \<Longrightarrow> bounded (send E m n)"
  using queue_bounded(1) [of "nd_pending n" "ne_publish E" m "nd_sent n"] by (auto simp: bounded_def send_def split: prod.splits)

lemma bounded_flush [simp]: "bounded n \<Longrightarrow> bounded (flush E n)"
  using queue_bounded(2) [of "nd_pending n" "ne_publish E" "nd_sent n"] by (auto simp: bounded_def flush_def split: prod.splits)

lemma bounded_start_sync [simp]: "bounded n \<Longrightarrow> bounded (start_sync E m n)"
  using bounded_send [of n E m] by (simp add: bounded_def)

lemma total_mono:
  assumes "finite (dom m)" "m' \<subseteq>\<^sub>m m"
  shows "total f m' \<le> total f m"
proof -
  have "total f m' = (\<Sum>k \<in> dom m'. f (the (m k)))" using assms(2) by (auto simp: total_def map_le_def intro!: sum.cong)
  also have "\<dots> \<le> total f m" unfolding total_def by (rule sum_mono2) (use assms(1) map_le_implies_dom_le [OF assms(2)] in simp_all)
  finally show ?thesis .
qed

lemma early_ok_mono:
  assumes "early_ok m" "m' \<subseteq>\<^sub>m m"
  shows "early_ok m'"
proof -
  have "dom m' \<subseteq> dom m" using assms(2) by (rule map_le_implies_dom_le)
  then have "finite (dom m')" "card (dom m') \<le> card (dom m)" using assms(1) finite_subset card_mono by (auto simp: early_ok_def)
  moreover have "buffered_bytes m' \<le> buffered_bytes m" using assms total_mono by (auto simp: buffered_bytes_def early_ok_def)
  ultimately show ?thesis using assms(1) by (auto simp: early_ok_def)
qed

lemma bounded_buffer: "bounded n \<Longrightarrow> bounded (buffer_chunk n h ch)"
proof -
  assume b: "bounded n"
  have fin: "finite (dom (nd_early_chunks n))" using b by (simp add: bounded_def early_ok_def)
  have "card (insert (h, ch_index ch) (dom (nd_early_chunks n))) \<le> Suc (card (dom (nd_early_chunks n)))" by (rule card_insert_le_m1) simp_all
  moreover have "buffered_bytes ((nd_early_chunks n)((h, ch_index ch) \<mapsto> ch)) \<le> buffered_bytes (nd_early_chunks n) + length (ch_data ch)"
    using total_upd [OF fin, of "\<lambda>ch. length (ch_data ch)" "(h, ch_index ch)" ch] by (simp add: buffered_bytes_def)
  ultimately show ?thesis using b by (auto simp: buffer_chunk_def bounded_def early_ok_def)
qed

section \<open>What the handlers do\<close>

text \<open>The chain moves by its own operations, the sync target stays, the buffers keep their bounds.\<close>
definition tame :: "externs \<Rightarrow> tx_sorter \<Rightarrow> node \<Rightarrow> node \<Rightarrow> bool" where
  "tame X srt n n' \<longleftrightarrow> (chain_step X srt)\<^sup>*\<^sup>* (nd_chain n) (nd_chain n') \<and> nd_sync_target_height n' = nd_sync_target_height n \<and> (bounded n \<longrightarrow> bounded n')"

lemma tame_refl [simp]: "tame X srt n n"
  by (simp add: tame_def)

lemma tame_trans: "tame X srt n n1 \<Longrightarrow> tame X srt n1 n2 \<Longrightarrow> tame X srt n n2"
  by (auto simp: tame_def)

lemma tame_send [simp]: "tame X srt n (send E m n)" "tame X srt n (start_sync E m n)" "tame X srt n (flush E n)"
  by (simp_all add: tame_def)

lemma tame_live: "(chain_step X srt)\<^sup>*\<^sup>* (nd_chain n) (fst live) \<Longrightarrow> tame X srt n (n\<lparr>nd_live := live\<rparr>)"
  by (simp add: tame_def bounded_def)

lemma tame_step: "chain_step X srt (nd_chain n) (fst live) \<Longrightarrow> tame X srt n (n\<lparr>nd_live := live\<rparr>)"
  by (simp add: tame_live r_into_rtranclp)

lemma tame_same:
  assumes "nd_live n' = nd_live n" "nd_sync_target_height n' = nd_sync_target_height n" "nd_pending n' = nd_pending n"
    "nd_early_chunks n' = nd_early_chunks n" "nd_peer_scorer n' = nd_peer_scorer n"
  shows "tame X srt n n'" "tame X srt n1 n \<Longrightarrow> tame X srt n1 n'"
  using assms by (simp_all add: tame_def bounded_def)

lemma tame_fold: "(\<And>x n. tame X srt n (f x n)) \<Longrightarrow> tame X srt n (fold f xs n)"
  by (induction xs arbitrary: n) (auto intro: tame_trans)

lemma tame_publish_vote: "publish_vote X Bc E n kp b = Some n' \<Longrightarrow> tame X srt n n'"
proof -
  have v: "tame X srt n (send E m (n\<lparr>nd_live := live_vote X Bc (nd_live n) vote\<rparr>))" for m vote
    by (rule tame_trans [OF tame_live tame_send(1)]) (simp add: live_vote_step r_into_rtranclp)
  show "publish_vote X Bc E n kp b = Some n' \<Longrightarrow> tame X srt n n'"
    by (cases "finality_vote_new X (blk_hash b) (blk_height b) (epoch_for_height (nd_chain n) (blk_height b)) kp")
      (auto simp: publish_vote_def v split: sum.splits)
qed

lemma tame_report: "tame X srt n (report_equivocation X Bc E n b)"
proof -
  have l: "tame X srt n (n\<lparr>nd_live := live_equivocation X Bc (nd_live n) ev\<rparr>)" for ev by (rule tame_live) (rule live_equivocation_step)
  then have "tame X srt n (send E m (n\<lparr>nd_live := live_equivocation X Bc (nd_live n) ev\<rparr>))" for m ev using tame_trans tame_send(1) by blast
  then show ?thesis using l by (auto simp: report_equivocation_def Let_def split: option.split sum.split)
qed

lemma tame_new_block:
  assumes "handle_new_block X Bc E n data = Some (r, n')"
  shows "tame X srt n n'"
proof -
  define n1 where "n1 = n\<lparr>nd_seen := insert (sha3_hash X data) (if card (nd_seen n) \<ge> MAX_SEEN_BLOCKS then {} else nd_seen n)\<rparr>"
  have n1: "tame X srt n n1" by (rule tame_same) (simp_all add: n1_def)
  show ?thesis
  proof (cases "bounded_deserialize (bin_block Bc) data")
    case (Inl e)
    then show ?thesis using assms n1 by (auto simp: handle_new_block_def Let_def n1_def split: if_splits)
  next
    case (Inr b)
    obtain q live where add: "live_add_block X Bc (ne_unix E) (nd_live n1) b = (q, live)" by (rule prod.exhaust)
    define n2 where "n2 = n1\<lparr>nd_live := live\<rparr>"
    have "tame X srt n1 n2" unfolding n2_def by (rule tame_live) (use live_add_step [OF add] in blast)
    then have n2: "tame X srt n n2" using n1 tame_trans by blast
    have fork: "tame X srt n (n2\<lparr>nd_live := live2\<rparr>)" if "live_fork_choice X Bc (ne_unix E) (nd_live n2) b = Some (q2, live2)" for q2 live2
      using tame_trans [OF n2 tame_step [OF live_fork_step [OF that]]] .
    consider "n' = n" | "n' = n2" | kp where "publish_vote X Bc E n2 kp b = Some n'"
      | q2 live2 where "live_fork_choice X Bc (ne_unix E) (nd_live n2) b = Some (q2, live2)"
          "n' = n2\<lparr>nd_live := live2\<rparr> \<or> n' = report_equivocation X Bc E (n2\<lparr>nd_live := live2\<rparr>) b"
      using assms Inr add by (fastforce simp: handle_new_block_def Let_def n1_def [symmetric] n2_def [symmetric]
          split: if_splits sum.splits option.splits prod.splits chain_error.splits)
    then show ?thesis
    proof cases
      case 3
      then show ?thesis using tame_trans [OF n2 tame_publish_vote] by blast
    next
      case (4 q2 live2)
      then show ?thesis using fork [OF 4(1)] tame_trans [OF fork [OF 4(1)] tame_report] by auto
    qed (use n2 in simp_all)
  qed
qed

lemma tame_new_transaction:
  assumes "handle_new_transaction X Bc E n data = Some (r, n')"
  shows "tame X (ne_sort E) n n'"
proof (cases "bounded_deserialize (bin_transaction Bc) data")
  case (Inr tx)
  obtain q live where t: "live_transaction X Bc (ne_sort E) (ne_unix E) (nd_live n) tx = (q, live)" by (rule prod.exhaust)
  then have "n' = n\<lparr>nd_live := live\<rparr>" using assms Inr by (auto simp: handle_new_transaction_def split: sum.splits chain_error.splits)
  then show ?thesis using tame_step [OF live_transaction_step [OF t]] by simp
qed (use assms in \<open>simp add: handle_new_transaction_def\<close>)

lemma tame_chunks: "tame X srt n (send_manifest Bc E p m n)" "tame X srt n (fold (send_chunk Bc E p h) chs n)"
  by (auto simp: send_manifest_def send_chunk_def intro!: tame_fold split: sum.split)

lemma tame_offer: "offer_snapshot X Bc E n p = Some n' \<Longrightarrow> tame X srt n n'"
proof -
  assume "offer_snapshot X Bc E n p = Some n'"
  then obtain r live where l: "live_snapshot X Bc (ne_unix E) (nd_live n) = Some (r, live)"
    "n' = n\<lparr>nd_live := live\<rparr> \<or> (\<exists>m chs. n' = fold (send_chunk Bc E p (mf_height m)) chs (send_manifest Bc E p m (n\<lparr>nd_live := live\<rparr>)))"
    by (cases "live_snapshot X Bc (ne_unix E) (nd_live n)") (auto simp: offer_snapshot_def Let_def split: sum.splits prod.splits)
  have a: "tame X srt n (n\<lparr>nd_live := live\<rparr>)" by (rule tame_live) (simp add: live_snapshot_same [OF l(1)])
  show ?thesis using l(2) a tame_trans [OF tame_trans [OF a tame_chunks(1)] tame_chunks(2)] by auto
qed

lemma tame_block_request: "handle_block_request X Bc E n from p prev g = Some n' \<Longrightarrow> tame X srt n n'"
  by (auto simp: handle_block_request_def Let_def tame_offer split: if_splits)

lemma response_loop_steps:
  "response_loop X Bc now ds (live, a, k) = Some (live', a', k') \<Longrightarrow> (chain_step X srt)\<^sup>*\<^sup>* (fst live) (fst live')"
proof (induction ds arbitrary: live a k)
  case (Cons d ds)
  show ?case
  proof (cases "bounded_deserialize (bin_block Bc) d")
    case (Inr b)
    obtain q live1 where add: "live_add_block X Bc now live b = (q, live1)" by (rule prod.exhaust)
    have "chain_step X srt (fst live) (fst live1)" by (rule live_add_step [OF add])
    moreover have "live' = live \<or> live' = live1 \<or> (\<exists>a k. response_loop X Bc now ds (live, a, k) = Some (live', a', k'))
        \<or> (\<exists>a k. response_loop X Bc now ds (live1, a, k) = Some (live', a', k'))"
      using Cons.prems Inr add by (auto split: if_splits sum.splits chain_error.splits)
    ultimately show ?thesis using Cons.IH [of live] Cons.IH [of live1] by (auto intro: converse_rtranclp_into_rtranclp)
  qed (use Cons.prems in simp)
qed simp

lemma tame_block_response: "handle_block_response X Bc E n from g ds = Some n' \<Longrightarrow> tame X srt n n'"
proof -
  assume h: "handle_block_response X Bc E n from g ds = Some n'"
  have l: "tame X srt n (n\<lparr>nd_live := live\<rparr>)" "tame X srt n (end_sync (n\<lparr>nd_live := live\<rparr>))"
    if "response_loop X Bc (ne_unix E) ds (nd_live n, 0, 0) = Some (live, a, k)" for live a k
    using tame_live [OF response_loop_steps [OF that]] tame_same(2) [of "end_sync (n\<lparr>nd_live := live\<rparr>)" "n\<lparr>nd_live := live\<rparr>"] by simp_all
  show ?thesis using h by (auto simp: handle_block_response_def Option.bind_eq_Some_conv Let_def l split: if_splits)
qed

lemma preferred_same: "preferred_snapshot X Bc now live pref = Some (r, live') \<Longrightarrow> fst live' = fst live"
  by (auto simp: preferred_snapshot_def dest!: live_snapshot_same split: option.splits sum.splits if_splits)

lemma tame_serve: "tame X srt n (serve_snapshot Bc E p k m n)"
  using tame_trans [OF tame_send(1) tame_chunks(2)] by (auto simp: serve_snapshot_def split: sum.split)

lemma tame_snapshot_request:
  assumes "on_snapshot_request X Bc E n p pref k h hash = Some n'"
  shows "tame X srt n n'"
proof (cases "preferred_snapshot X Bc (ne_unix E) (nd_live n) pref")
  case (Some rl)
  obtain r live where rl: "rl = (r, live)" by (rule prod.exhaust)
  have "tame X srt n (n\<lparr>nd_live := live\<rparr>)" by (rule tame_live) (use preferred_same Some rl in simp)
  then show ?thesis using assms Some rl tame_trans [OF _ tame_serve] by (auto simp: on_snapshot_request_def Let_def split: if_splits sum.splits)
qed (use assms in \<open>auto simp: on_snapshot_request_def Let_def split: if_splits\<close>)

lemma tame_announce: "tame X srt n (on_height_announce X' E n h l g p as pk sig v)"
proof -
  have a: "tame X srt n (n\<lparr>nd_peer_heights := ph\<rparr>)" "tame X srt n (n\<lparr>nd_peer_heights := ph, nd_known_peers := kp, nd_verified_tips := vt\<rparr>)" for ph kp vt
    by (rule tame_same; simp)+
  have s: "tame X srt n (start_sync E m n1)" if "tame X srt n n1" for m n1 using that tame_trans tame_send(2) by blast
  show ?thesis by (simp add: on_height_announce_def Let_def a s)
qed

lemma tame_timeout: "tame X srt n (check_sync_timeout E n)"
proof -
  let ?n = "n\<lparr>nd_sync_retries := nd_sync_retries n + 1\<rparr>"
  have a: "tame X srt n ?n" by (rule tame_same) simp_all
  have "tame X srt n ((send E m ?n)\<lparr>nd_sync_deadline := d\<rparr>)" "tame X srt n ((start_sync E m ?n)\<lparr>nd_sync_retries := 0\<rparr>)" for m d
    by (rule tame_same(2) [OF _ _ _ _ _ tame_trans [OF a tame_send(1)]]; simp) (rule tame_same(2) [OF _ _ _ _ _ tame_trans [OF a tame_send(2)]]; simp)
  then show ?thesis by (simp add: check_sync_timeout_def Let_def split: option.split)
qed

lemma tame_produce: "produce_block X Bc E n kp = Some n' \<Longrightarrow> tame X srt n n'"
proof -
  assume h: "produce_block X Bc E n kp = Some n'"
  have v: "tame X srt n (n2\<lparr>nd_seen := s\<rparr>)"
    if "live_add_block X Bc (ne_unix E) (nd_live n) b = (q, live)" "publish_vote X Bc E (send E m (n\<lparr>nd_live := live\<rparr>)) kp b = Some n2" for b q live m n2 s
    by (rule tame_same(2) [OF _ _ _ _ _ tame_trans [OF tame_trans [OF tame_step [OF live_add_step [OF that(1)]] tame_send(1)] tame_publish_vote [OF that(2)]]]) simp_all
  show ?thesis using h v tame_step [OF live_add_step]
    by (auto simp: produce_block_def Option.bind_eq_Some_conv split: sum.splits chain_error.splits prod.splits)
qed

lemma tame_try_produce: "try_produce X Bc E n kp parent = Some n' \<Longrightarrow> tame X srt n n'"
  by (auto simp: try_produce_def Let_def tame_produce split: option.splits if_splits)

lemma tame_announce_tick: "announce_tick X' E n = Some n' \<Longrightarrow> tame X srt n n'"
proof -
  have "tame X srt n (switch_topic E t n)" for t by (rule tame_same) simp_all
  then have "tame X srt n (send E m (switch_topic E t n))" for t m using tame_trans tame_send(1) by blast
  then show "announce_tick X' E n = Some n' \<Longrightarrow> tame X srt n n'"
    by (auto simp: announce_tick_def Let_def Option.bind_eq_Some_conv split: option.splits)
qed

section \<open>Snapshots\<close>

lemma take_chunks_dom:
  "take_chunks is chunks acc = (r, chunks') \<Longrightarrow> (\<forall>k. k \<notin> set is \<longrightarrow> chunks' k = chunks k) \<and> (r \<noteq> None \<longrightarrow> set is \<subseteq> dom chunks)"
proof (induction "is" arbitrary: chunks acc)
  case (Cons i "is")
  then show ?case by (fastforce split: option.splits if_splits)
qed simp

lemma take_chunks_shrinks: "take_chunks is chunks acc = (r, chunks') \<Longrightarrow> dom chunks' \<subseteq> dom chunks"
proof (induction "is" arbitrary: chunks acc)
  case (Cons i "is")
  then show ?case by (fastforce split: option.splits)
qed simp

text \<open>What an attempt to apply the pending snapshot may change.\<close>
lemma try_apply_cases:
  "nd_chain (try_apply_snapshot X Bc E n m) = nd_chain n
     \<or> (\<exists>r p chunks. apply_snapshot X Bc (snd (nd_live n)) (nd_chain n) m chunks = (r, nd_chain (try_apply_snapshot X Bc E n m), p))"
  "nd_sync_target_height (try_apply_snapshot X Bc E n m) = nd_sync_target_height n" "bounded n \<Longrightarrow> bounded (try_apply_snapshot X Bc E n m)"
  by (auto simp: try_apply_snapshot_def Let_def bounded_def split: prod.split option.split sum.split intro: bounded_start_sync [unfolded bounded_def start_sync_rest, THEN conjunct1])

text \<open>One snapshot was applied to the chain of the node, with or without success.\<close>
definition snapshot_applied :: "externs \<Rightarrow> bincode \<Rightarrow> blockchain \<Rightarrow> blockchain \<Rightarrow> bool" where
  "snapshot_applied X Bc c c' \<longleftrightarrow> (\<exists>p m chunks r p'. apply_snapshot X Bc p c m chunks = (r, c', p'))"

text \<open>The chain stays or a snapshot is applied, the sync target stays, the buffers keep their bounds.\<close>
definition snapshot_step :: "externs \<Rightarrow> bincode \<Rightarrow> node \<Rightarrow> node \<Rightarrow> bool" where
  "snapshot_step X Bc n n' \<longleftrightarrow> (nd_chain n' = nd_chain n \<or> snapshot_applied X Bc (nd_chain n) (nd_chain n'))
     \<and> nd_sync_target_height n' = nd_sync_target_height n \<and> (bounded n \<longrightarrow> bounded n')"

lemma snapshot_step_refl [simp]: "snapshot_step X Bc n n"
  by (simp add: snapshot_step_def)

lemma try_apply_step:
  assumes "nd_live n1 = nd_live n" "nd_sync_target_height n1 = nd_sync_target_height n" "bounded n \<Longrightarrow> bounded n1"
  shows "snapshot_step X Bc n (try_apply_snapshot X Bc E n1 m)"
  using try_apply_cases [where X = X and Bc = Bc and E = E and n = n1 and m = m] assms unfolding snapshot_step_def snapshot_applied_def by metis

lemma manifest_step: "snapshot_step X Bc n (on_snapshot_manifest X Bc E n target data)"
proof -
  have e: "(\<lambda>(h, i). if h > lim then nd_early_chunks n (h, i) else None) \<subseteq>\<^sub>m nd_early_chunks n" for lim
    by (auto simp: map_le_def split: if_splits)
  have "snapshot_step X Bc n (try_apply_snapshot X Bc E (n\<lparr>nd_manifest := mm, nd_chunks := chs,
      nd_early_chunks := (\<lambda>(h, i). if h > lim then nd_early_chunks n (h, i) else None)\<rparr>) m)" for mm chs lim m
    by (rule try_apply_step) (use e early_ok_mono in \<open>auto simp: bounded_def\<close>)
  then show ?thesis by (simp add: on_snapshot_manifest_def Let_def split: sum.split)
qed

lemma chunk_step: "snapshot_step X Bc n (on_snapshot_chunk X Bc E n target h data)"
proof -
  have "snapshot_step X Bc n (try_apply_snapshot X Bc E (n\<lparr>nd_chunks := chs\<rparr>) m)" for chs m
    by (rule try_apply_step) (simp_all add: bounded_def)
  moreover have "snapshot_step X Bc n (buffer_chunk n h ch)" for ch
    using bounded_buffer by (simp add: snapshot_step_def) (simp add: buffer_chunk_def)
  ultimately show ?thesis by (simp add: on_snapshot_chunk_def split: sum.split option.split)
qed

section \<open>The sync gate\<close>

lemma raise_target_rest [simp]: "nd_live (raise_target E n) = nd_live n" "bounded (raise_target E n) = bounded n"
  by (simp_all add: raise_target_def Let_def bounded_def split: option.split)

lemma raise_target_up: "nd_sync_target_height n = Some t \<Longrightarrow> \<exists>t' \<ge> t. nd_sync_target_height (raise_target E n) = Some t'"
  by (simp add: raise_target_def Let_def less_imp_le split: option.split)

lemma sync_gate_rest: "nd_live (snd (sync_gate E n)) = nd_live n" "bounded n \<Longrightarrow> bounded (snd (sync_gate E n))"
proof -
  let ?n = "raise_target E n"
  have cases: "snd (sync_gate E n) = ?n \<or> (\<exists>m. snd (sync_gate E n) = start_sync E m ?n)
      \<or> (\<exists>t k. snd (sync_gate E n) = ?n\<lparr>nd_sync_target_height := t, nd_sync_stable_ticks := k\<rparr>) \<or> (\<exists>k. snd (sync_gate E n) = ?n\<lparr>nd_sync_stable_ticks := k\<rparr>)"
    unfolding sync_gate_def Let_def by (cases "nd_sync_target_height ?n") auto
  then show "nd_live (snd (sync_gate E n)) = nd_live n" by auto
  have "bounded (start_sync E m ?n)" "bounded (?n\<lparr>nd_sync_target_height := t, nd_sync_stable_ticks := k\<rparr>)" "bounded (?n\<lparr>nd_sync_stable_ticks := k\<rparr>)"
    if "bounded n" for m t k
    using that bounded_start_sync [of ?n E m] raise_target_rest(2) [of E n] by (simp_all add: bounded_def)
  then show "bounded n \<Longrightarrow> bounded (snd (sync_gate E n))" using cases raise_target_rest(2) [of E n] by auto
qed

lemma gate_target:
  assumes "nd_sync_target_height n = Some t" "height (nd_chain n) < t"
  shows "\<exists>t' \<ge> t. fst (sync_gate E n) = False \<and> nd_sync_target_height (snd (sync_gate E n)) = Some t'"
proof -
  obtain t' where "nd_sync_target_height (raise_target E n) = Some t'" "t \<le> t'" using raise_target_up [OF assms(1)] by blast
  then show ?thesis using assms(2) by (auto simp: sync_gate_def Let_def)
qed

lemma block_tick_cases:
  assumes "block_tick X Bc E n = Some n'" "n1 = switch_topic E (topic_name (gc_chain_id (bc_genesis_config (nd_chain n)))
      (protocol_version_at_height (nd_chain n) (height (nd_chain n)))) n" "sync_gate E n1 = (go, n2)"
  shows "n' = n1 \<or> n' = n2 \<or> go \<and> ((\<exists>msg tgt k. n' = (start_sync E msg n2)\<lparr>nd_sync_target_height := tgt, nd_sync_stable_ticks := k\<rparr>)
      \<or> (\<exists>kp parent. try_produce X Bc E n2 kp parent = Some n'))"
  using assms(1) unfolding block_tick_def Let_def assms(2) [symmetric] assms(3)
  by (cases go) (auto split: option.splits if_splits)

lemma block_tick_steps:
  assumes "block_tick X Bc E n = Some n'"
  shows "(chain_step X srt)\<^sup>*\<^sup>* (nd_chain n) (nd_chain n') \<and> (bounded n \<longrightarrow> bounded n')"
proof -
  define n1 where "n1 = switch_topic E (topic_name (gc_chain_id (bc_genesis_config (nd_chain n))) (protocol_version_at_height (nd_chain n) (height (nd_chain n)))) n"
  obtain go n2 where g: "sync_gate E n1 = (go, n2)" by (rule prod.exhaust)
  have n1: "nd_chain n1 = nd_chain n" "bounded n1 = bounded n" by (simp_all add: n1_def bounded_def)
  have n2: "nd_chain n2 = nd_chain n" "bounded n \<Longrightarrow> bounded n2" using sync_gate_rest [where E = E and n = n1] n1 g by auto
  have st: "bounded n \<Longrightarrow> bounded ((start_sync E msg n2)\<lparr>nd_sync_target_height := t, nd_sync_stable_ticks := k\<rparr>)" for msg t k
    using bounded_start_sync [of n2 E msg] n2(2) by (simp add: bounded_def)
  have tp: "(chain_step X srt)\<^sup>*\<^sup>* (nd_chain n) (nd_chain n') \<and> (bounded n \<longrightarrow> bounded n')" if "try_produce X Bc E n2 kp parent = Some n'" for kp parent
    using tame_try_produce [OF that, of srt] n2 by (auto simp: tame_def)
  from block_tick_cases [OF assms n1_def g] show ?thesis using n1 n2 st tp by (elim disjE conjE exE) auto
qed

text \<open>With a target above the chain, a tick neither produces nor lowers the target.\<close>
lemma block_tick_halted:
  assumes "block_tick X Bc E n = Some n'" "nd_sync_target_height n = Some t" "height (nd_chain n) < t"
  shows "nd_live n' = nd_live n \<and> (\<exists>t' \<ge> t. nd_sync_target_height n' = Some t')"
proof -
  define n1 where "n1 = switch_topic E (topic_name (gc_chain_id (bc_genesis_config (nd_chain n))) (protocol_version_at_height (nd_chain n) (height (nd_chain n)))) n"
  obtain go n2 where g: "sync_gate E n1 = (go, n2)" by (rule prod.exhaust)
  have n1: "nd_live n1 = nd_live n" "nd_sync_target_height n1 = Some t" using assms(2) by (simp_all add: n1_def)
  obtain t' where "\<not> go" "nd_sync_target_height n2 = Some t'" "t \<le> t'" using gate_target [OF n1(2), of E] g n1(1) assms(3) by auto
  moreover have "nd_live n2 = nd_live n" using sync_gate_rest(1) [of E n1] g n1(1) by simp
  ultimately show ?thesis using block_tick_cases [OF assms(1) n1_def g] n1 by auto
qed

section \<open>The event loop\<close>

lemma tame_scored:
  assumes "tame X srt n n1" "scores_ok (nd_peer_scorer n1) \<Longrightarrow> scores_ok sc"
  shows "tame X srt n (n1\<lparr>nd_peer_scorer := sc\<rparr>)"
  using assms by (simp add: tame_def bounded_def)

fun is_snapshot_message :: "network_message \<Rightarrow> bool" where
  "is_snapshot_message (SnapshotManifest t d) = True"
| "is_snapshot_message (SnapshotChunk t h d) = True"
| "is_snapshot_message _ = False"

lemmas score_points = SCORE_VALID_BLOCK_def SCORE_INVALID_BLOCK_def SCORE_VALID_TX_def SCORE_INVALID_TX_def SCORE_RATE_LIMITED_def

lemma on_message_steps:
  assumes "on_message X Bc E n source msg = Some n'"
  shows "tame X (ne_sort E) n n' \<or> is_snapshot_message msg \<and> snapshot_step X Bc n n'"
proof (cases msg)
  case (NewBlock data)
  then show ?thesis using assms
    by (auto simp: on_message_def Option.bind_eq_Some_conv score_points scores_ok_recorded dest!: tame_new_block [where srt = "ne_sort E"] intro!: tame_scored split: option.splits)
next
  case (NewTransaction data)
  then show ?thesis using assms
    by (auto simp: on_message_def Option.bind_eq_Some_conv score_points scores_ok_recorded dest!: tame_new_transaction intro!: tame_scored split: option.splits)
next
  case (SlashingEvidence data)
  then show ?thesis using assms tame_live [OF live_equivocation_step] by (auto simp: on_message_def split: sum.splits)
next
  case (FinalityVote data)
  then show ?thesis using assms tame_step [OF live_vote_step] by (auto simp: on_message_def split: sum.splits)
qed (use assms in \<open>auto simp: on_message_def tame_block_request tame_block_response tame_announce tame_snapshot_request manifest_step chunk_step split: if_splits\<close>)

lemma on_gossip_steps:
  assumes "on_gossip X Bc E n source msg = Some n'"
  shows "tame X (ne_sort E) n n' \<or> is_snapshot_message msg \<and> snapshot_step X Bc n n'"
proof (cases source)
  case None
  then show ?thesis using assms on_message_steps by (simp add: on_gossip_def)
next
  case (Some p)
  obtain ok rl where l: "limiter_check (nd_rate_limiter n) p (ne_instant E) = (ok, rl)" by (rule prod.exhaust)
  let ?n = "n\<lparr>nd_rate_limiter := rl\<rparr>"
  have t: "tame X srt n ?n" for srt by (rule tame_same) simp_all
  have bad: "tame X srt n (?n\<lparr>nd_peer_scorer := record_bad (nd_peer_scorer ?n) p SCORE_RATE_LIMITED (ne_instant E)\<rparr>)" for srt
    by (rule tame_scored [OF t]) (simp add: score_points scores_ok_recorded)
  have "n' = ?n\<lparr>nd_peer_scorer := record_bad (nd_peer_scorer ?n) p SCORE_RATE_LIMITED (ne_instant E)\<rparr> \<or> n' = ?n \<or> on_message X Bc E ?n source msg = Some n'"
    using assms Some l by (auto simp: on_gossip_def Let_def split: if_splits)
  moreover have "snapshot_step X Bc n n'" if "snapshot_step X Bc ?n n'" using that by (simp add: snapshot_step_def bounded_def)
  ultimately show ?thesis using t bad on_message_steps tame_trans by metis
qed

lemma tame_discover: "tame X srt n (discover_peer E pa n)"
  by (rule tame_same) (auto simp: discover_peer_def split: prod.split)

lemma tame_events:
  "tame X srt n (cleanup_tick E order n)" "tame X srt n (on_discovered E peers n)" "tame X srt n (on_expired E peers n)"
  "tame X srt n (on_connected E n)" "tame X srt n (on_disconnected E p n)"
proof -
  show "tame X srt n (cleanup_tick E order n)" by (auto simp: tame_def cleanup_tick_def bounded_def)
  have "tame X srt n ((fold (discover_peer E) peers n)\<lparr>nd_last_peer_change_at := i\<rparr>)" for i
    by (rule tame_same(2) [OF _ _ _ _ _ tame_fold [OF tame_discover]]) simp_all
  then show "tame X srt n (on_discovered E peers n)" using tame_trans tame_send(3) unfolding on_discovered_def by blast
  have "tame X srt n (n\<lparr>nd_last_peer_change_at := i\<rparr>)" for i by (rule tame_same) simp_all
  then show "tame X srt n (on_connected E n)" using tame_trans tame_send(3) unfolding on_connected_def by blast
qed (rule tame_same; simp add: on_expired_def on_disconnected_def)+

text \<open>What an iteration may do to the chain, the buffers and the target.\<close>
lemma iteration_steps:
  assumes "node_iteration X Bc E n ev = Some n'"
  shows "((chain_step X (ne_sort E))\<^sup>*\<^sup>* (nd_chain n) (nd_chain n')
      \<or> (\<exists>source msg. ev = Gossip source msg \<and> is_snapshot_message msg \<and> snapshot_applied X Bc (nd_chain n) (nd_chain n')))
    \<and> (bounded n \<longrightarrow> bounded n') \<and> (ev \<noteq> BlockTick \<longrightarrow> nd_sync_target_height n' = nd_sync_target_height n)"
proof -
  let ?n = "check_sync_timeout E n"
  have live: "nd_live ?n = nd_live n" by (simp add: check_sync_timeout_def Let_def split: option.split)
  have t: "tame X (ne_sort E) n ?n" by (rule tame_timeout)
  have ev: "on_event X Bc E ?n ev = Some n'" using assms by (simp add: node_iteration_def)
  show ?thesis
  proof (cases ev)
    case BlockTick
    then show ?thesis using ev block_tick_steps [of X Bc E ?n n' "ne_sort E"] t live by (auto simp: on_event_def tame_def)
  next
    case (Gossip source msg)
    then have "tame X (ne_sort E) ?n n' \<or> is_snapshot_message msg \<and> snapshot_step X Bc ?n n'" using ev on_gossip_steps by (simp add: on_event_def)
    then show ?thesis using t live Gossip by (auto simp: tame_def snapshot_step_def)
  next
    case AnnounceTick
    then show ?thesis using ev tame_announce_tick [of X E ?n n' X "ne_sort E"] t by (auto simp: on_event_def tame_def)
  qed (use ev t tame_trans [OF t tame_events(1)] tame_trans [OF t tame_events(2)] tame_trans [OF t tame_events(3)] tame_trans [OF t tame_events(4)]
      tame_trans [OF t tame_events(5)] tame_trans [OF t tame_send(1)] tame_trans [OF t tame_send(3)] in \<open>auto simp: on_event_def tame_def\<close>)
qed

text \<open>C6. The event loop refines the chain. Whatever event an iteration handles, timers, gossip and connections alike, the chain of the node afterwards is reached from
  the chain before by steps of the chain state machine, that is by blocks, fork choice, votes, transactions and slashings, so that what holds of all its runs holds of the node.
  The one exception is a snapshot message, which can apply one snapshot.\<close>
theorem node_loop_refines_chain:
  assumes "node_iteration X Bc E n ev = Some n'"
  shows "(chain_step X (ne_sort E))\<^sup>*\<^sup>* (nd_chain n) (nd_chain n')
    \<or> (\<exists>source msg. ev = Gossip source msg \<and> is_snapshot_message msg \<and> snapshot_applied X Bc (nd_chain n) (nd_chain n'))"
  using iteration_steps [OF assms] by blast

text \<open>The variables of the loop before the first iteration.\<close>
definition loop_start :: "node \<Rightarrow> bool" where
  "loop_start n \<longleftrightarrow> nd_discovered n = {} \<and> nd_rate_limiter n = peer_rate_limiter_new \<and> nd_peer_scorer n = (\<lambda>_. None)
     \<and> \<not> nd_sync_requested n \<and> nd_sync_deadline n = None \<and> nd_sync_retries n = 0 \<and> nd_sync_target_height n = None \<and> nd_sync_stable_ticks n = 0
     \<and> nd_peer_heights n = (\<lambda>_. None) \<and> nd_verified_tips n = (\<lambda>_. None) \<and> nd_manifest n = None \<and> nd_chunks n = (\<lambda>_. None)
     \<and> nd_early_chunks n = (\<lambda>_. None) \<and> nd_pending n = [] \<and> nd_seen n = {} \<and> nd_last_peer_change_at n = nd_started_at n"

definition loop_step :: "externs \<Rightarrow> bincode \<Rightarrow> node \<Rightarrow> node \<Rightarrow> bool" where
  "loop_step X Bc n n' \<longleftrightarrow> (\<exists>E ev. node_iteration X Bc E n ev = Some n')"

interpretation node_loop: transition_system loop_start "loop_step X Bc" bounded for X Bc
proof
  show "loop_start n \<Longrightarrow> bounded n" for n
    by (simp add: loop_start_def bounded_def early_ok_def buffered_bytes_def total_def scores_ok_def scores.init_inv MAX_PENDING_BROADCASTS_def)
  show "bounded n \<Longrightarrow> loop_step X Bc n n' \<Longrightarrow> bounded n'" for n n' using iteration_steps by (auto simp: loop_step_def)
qed

text \<open>C26. Peers cannot grow the buffers of a node. After any run of the event loop, whatever the peers sent: at most 256 messages wait for gossip, at most 2048 chunks of at most
  128 MiB in total wait for their manifest, and every peer score is between -100 and 200.\<close>
theorem node_buffers_bounded:
  assumes "loop_start n0" "(loop_step X Bc)\<^sup>*\<^sup>* n0 n"
  shows "length (nd_pending n) \<le> 256 \<and> card (dom (nd_early_chunks n)) \<le> 2048 \<and> total (\<lambda>ch. length (ch_data ch)) (nd_early_chunks n) \<le> 128 * 1024 * 1024
    \<and> (\<forall>p. - 100 \<le> get_score (nd_peer_scorer n) p \<and> get_score (nd_peer_scorer n) p \<le> 200)"
  using node_loop.reachable_inv [OF assms]
  by (simp add: bounded_def early_ok_def scores_ok_def buffered_bytes_def MAX_PENDING_BROADCASTS_def MAX_BUFFERED_PRE_MANIFEST_CHUNKS_def
      MAX_BUFFERED_PRE_MANIFEST_BYTES_def PEER_SCORE_MIN_def PEER_SCORE_MAX_def)

section \<open>A sync target nobody can reach\<close>

lemma iteration_halted:
  assumes "node_iteration X Bc E n BlockTick = Some n'" "nd_sync_target_height n = Some t" "height (nd_chain n) < t"
  shows "nd_live n' = nd_live n \<and> (\<exists>t' \<ge> t. nd_sync_target_height n' = Some t')"
proof -
  have "nd_live (check_sync_timeout E n) = nd_live n" "nd_sync_target_height (check_sync_timeout E n) = nd_sync_target_height n"
    by (simp_all add: check_sync_timeout_def Let_def split: option.split)
  then show ?thesis using block_tick_halted [of X Bc E "check_sync_timeout E n" n' t] assms by (simp add: node_iteration_def on_event_def)
qed

text \<open>An iteration of a node whose chain is below height \<open>t\<close>.\<close>
definition low_step :: "externs \<Rightarrow> bincode \<Rightarrow> u64 \<Rightarrow> node \<Rightarrow> node \<Rightarrow> bool" where
  "low_step X Bc t n n' \<longleftrightarrow> height (nd_chain n) < t \<and> loop_step X Bc n n'"

interpretation halted: transition_system "\<lambda>n. nd_sync_target_height n = Some t" "low_step X Bc t" "\<lambda>n. \<exists>t' \<ge> t. nd_sync_target_height n = Some t'" for X Bc t
proof
  fix n n'
  assume i: "\<exists>t' \<ge> t. nd_sync_target_height n = Some t'" and "low_step X Bc t n n'"
  then obtain E ev where s: "height (nd_chain n) < t" "node_iteration X Bc E n ev = Some n'" by (auto simp: low_step_def loop_step_def)
  show "\<exists>t' \<ge> t. nd_sync_target_height n' = Some t'"
  proof (cases "ev = BlockTick")
    case True
    then show ?thesis using iteration_halted i s by (meson order_less_le_trans order_trans)
  next
    case False
    then show ?thesis using iteration_steps [OF s(2)] i by simp
  qed
qed auto

lemma fold_weigh_best:
  assumes "(h, hash, i) \<in> set tips" "h > ours \<or> (\<exists>b hb. best = Some (b, hb) \<and> h \<le> b)"
  shows "\<exists>b hb. fst (fold (weigh_tip ours our_hash) tips (best, dv)) = Some (b, hb) \<and> h \<le> b"
proof -
  have keep: "\<exists>b hb. fst (fold (weigh_tip ours our_hash) tips (best, dv)) = Some (b, hb) \<and> h \<le> b" if "best = Some (b0, hb0)" "h \<le> b0" for tips best dv b0 hb0
    using that
  proof (induction tips arbitrary: best dv b0 hb0)
    case (Cons tip tips)
    obtain h1 hash1 i1 where tip: "tip = (h1, hash1, i1)" by (cases tip)
    obtain best1 dv1 where w: "weigh_tip ours our_hash tip (best, dv) = (best1, dv1)" by (rule prod.exhaust)
    have "\<exists>b1 hb1. best1 = Some (b1, hb1) \<and> h \<le> b1" using w Cons.prems tip by (auto split: if_splits)
    then show ?case using Cons.IH [of best1] w by auto
  qed simp
  show ?thesis using assms
  proof (induction tips arbitrary: best dv)
    case (Cons tip tips)
    obtain best1 dv1 where w: "weigh_tip ours our_hash tip (best, dv) = (best1, dv1)" by (rule prod.exhaust)
    have best: "(\<exists>b hb. best1 = Some (b, hb) \<and> h \<le> b) \<or> tip \<noteq> (h, hash, i) \<and> h > ours"
      using w Cons.prems(2) by (cases tip) (auto split: if_splits option.splits)
    then show ?case
    proof
      assume "\<exists>b hb. best1 = Some (b, hb) \<and> h \<le> b"
      then show ?thesis using keep [of best1] w by auto
    next
      assume "tip \<noteq> (h, hash, i) \<and> h > ours"
      then show ?thesis using Cons.IH [of best1 dv1] Cons.prems(1) w by auto
    qed
  qed simp
qed

text \<open>One tip above the chain, fresh at the next tick, becomes the target, whoever announced it.\<close>
lemma tip_raises_target:
  assumes "nd_verified_tips n p = Some (h, hash, seen)" "finite (dom (nd_verified_tips n))" "ne_instant E - seen < secs VERIFIED_TIP_TTL_SECS"
    and "height (nd_chain n) < h"
  shows "\<exists>t \<ge> h. nd_sync_target_height (raise_target E n) = Some t"
proof -
  define n1 where "n1 = n\<lparr>nd_verified_tips := prune_verified_peer_tips (ne_instant E) (nd_verified_tips n)\<rparr>"
  have p: "nd_verified_tips n1 p = Some (h, hash, seen)" using assms(1,3) by (simp add: n1_def prune_verified_peer_tips_def)
  have "dom (nd_verified_tips n1) \<subseteq> dom (nd_verified_tips n)" by (auto simp: n1_def prune_verified_peer_tips_def split: option.splits)
  then have "finite (dom (nd_verified_tips n1))" using assms(2) finite_subset by blast
  then have "(h, hash, seen) \<in> set (tips_of n1)" using p in_entries_iff unfolding tips_of_def set_map by (metis imageI snd_conv)
  from fold_weigh_best [OF this, of "height (nd_chain n)" None "latest_hash (nd_chain n)" None]
  obtain b hb d where f: "fold (weigh_tip (height (nd_chain n)) (latest_hash (nd_chain n))) (tips_of n1) (None, None) = (Some (b, hb), d)" "h \<le> b"
    using assms(4) by (metis prod.collapse)
  have "nd_chain n1 = nd_chain n" "nd_sync_target_height n1 = nd_sync_target_height n" by (simp_all add: n1_def)
  then show ?thesis using f
    by (auto simp: raise_target_def n1_def [symmetric] Let_def sync_needed_from_verified_tips_def split: option.splits)
qed

text \<open>A signature of any key pair makes a tip verified.\<close>
lemma any_key_verifies:
  assumes "dilithium_verify X (announce_data h latest (genesis_hash (nd_chain n))) sig pk" "v = protocol_version_at_height (nd_chain n) (height (nd_chain n))"
  shows "nd_verified_tips (on_height_announce X E n h latest (genesis_hash (nd_chain n)) p as (Some pk) (Some sig) v) p = Some (h, latest, ne_instant E)"
proof -
  have t: "nd_verified_tips (start_sync E m n) = nd_verified_tips n" for m n by (simp add: start_sync_def send_def split: prod.split)
  show ?thesis using assms by (simp add: on_height_announce_def Let_def t)
qed

text \<open>C39. A sync target above the chain halts block production for good. Once the target height of the sync gate is set, no event lowers it or clears it while
  the chain is below it: tips that expire, timeouts and connections do not, and no tick produces a block. A single announcement of an unreachable height, signed with any
  key, therefore stops a validator from producing until it is restarted.\<close>
theorem sync_target_halts_production:
  assumes "nd_sync_target_height n = Some t" "(low_step X Bc t)\<^sup>*\<^sup>* n n1" "height (nd_chain n1) < t" "node_iteration X Bc E n1 BlockTick = Some n2"
  shows "nd_live n2 = nd_live n1 \<and> (\<exists>t' \<ge> t. nd_sync_target_height n2 = Some t')"
proof -
  obtain t' where "nd_sync_target_height n1 = Some t'" "t \<le> t'" using halted.reachable_inv [OF assms(1,2)] by blast
  moreover from this have "height (nd_chain n1) < t'" using assms(3) by (simp add: order_less_le_trans)
  ultimately show ?thesis using iteration_halted [OF assms(4)] order_trans by metis
qed

section \<open>A stray chunk\<close>

lemma try_apply_stray:
  assumes "k \<in> dom (nd_chunks n)" "k \<ge> mf_chunk_count m" "finite (dom (nd_chunks n))"
  shows "nd_live (try_apply_snapshot X Bc E n m) = nd_live n" "nd_manifest (try_apply_snapshot X Bc E n m) = nd_manifest n"
    "k \<in> dom (nd_chunks (try_apply_snapshot X Bc E n m))" "finite (dom (nd_chunks (try_apply_snapshot X Bc E n m)))"
    "nd_peer_id (try_apply_snapshot X Bc E n m) = nd_peer_id n" "nd_early_chunks (try_apply_snapshot X Bc E n m) = nd_early_chunks n"
proof -
  obtain r chunks where t: "take_chunks [0..<mf_chunk_count m] (nd_chunks n) [] = (r, chunks)" by (rule prod.exhaust)
  note d = take_chunks_dom [OF t]
  have "r = None" if "card (dom (nd_chunks n)) = mf_chunk_count m"
  proof (rule ccontr)
    assume "r \<noteq> None"
    then have "insert k {0..<mf_chunk_count m} \<subseteq> dom (nd_chunks n)" using d assms(1) by auto
    from card_mono [OF assms(3) this] show False using that assms(2) by simp
  qed
  moreover have "k \<in> dom chunks" using d assms(1,2) by (auto simp: domIff)
  moreover have "dom chunks \<subseteq> dom (nd_chunks n)" using take_chunks_shrinks [OF t] by blast
  ultimately show "nd_live (try_apply_snapshot X Bc E n m) = nd_live n" "nd_manifest (try_apply_snapshot X Bc E n m) = nd_manifest n"
    "k \<in> dom (nd_chunks (try_apply_snapshot X Bc E n m))" "finite (dom (nd_chunks (try_apply_snapshot X Bc E n m)))"
    "nd_peer_id (try_apply_snapshot X Bc E n m) = nd_peer_id n" "nd_early_chunks (try_apply_snapshot X Bc E n m) = nd_early_chunks n"
    using t assms by (auto simp: try_apply_snapshot_def intro: finite_subset)
qed

text \<open>C40. One stray chunk blocks a snapshot. If a chunk with an index out of range was accepted for the pending manifest, then no sequence of chunk messages, also not all the genuine
  chunks in any order, and no repetition of the manifest ever completes the snapshot: the chain stays and the manifest stays pending. (Another manifest starts a new session.)\<close>
theorem stray_chunk_blocks_snapshot:
  assumes "nd_manifest n = Some m" "k \<in> dom (nd_chunks n)" "k \<ge> mf_chunk_count m" "finite (dom (nd_chunks n))" "finite (dom (nd_early_chunks n))"
    and "\<forall>msg \<in> set msgs. (\<exists>h d. msg = SnapshotChunk (nd_peer_id n) h d)
      \<or> (\<exists>d. msg = SnapshotManifest (nd_peer_id n) d \<and> bounded_deserialize (bin_manifest Bc) d = Inr m)"
  shows "\<exists>n'. deliver X Bc E msgs n = Some n' \<and> nd_live n' = nd_live n \<and> nd_manifest n' = Some m"
  using assms
proof (induction msgs arbitrary: n)
  case (Cons msg msgs)
  define early where "early = (\<lambda>(h, i). if h > mf_height m then nd_early_chunks n (h, i) else None)"
  have fin: "finite (dom early)"
    by (rule finite_subset [OF _ Cons.prems(5)]) (auto simp: early_def split: if_splits)
  have drained: "finite (dom (\<lambda>i. nd_early_chunks n (h, i)))" for h
    by (rule finite_subset [OF _ finite_imageI [OF Cons.prems(5), of snd]]) force
  define good where "good n1 \<longleftrightarrow> nd_live n1 = nd_live n \<and> nd_manifest n1 = Some m \<and> k \<in> dom (nd_chunks n1) \<and> finite (dom (nd_chunks n1))
    \<and> finite (dom (nd_early_chunks n1)) \<and> nd_peer_id n1 = nd_peer_id n" for n1 :: node
  have att: "good (try_apply_snapshot X Bc E n1 m)" if "good n1" for n1
    using that try_apply_stray [of k n1 m X Bc E] Cons.prems(3) unfolding good_def by simp
  have start: "good n" using Cons.prems by (simp add: good_def)
  have buf: "good (buffer_chunk n h ch)" for h ch using start by (simp add: good_def buffer_chunk_def)
  have put: "good (n\<lparr>nd_chunks := (nd_chunks n)(i \<mapsto> ch)\<rparr>)" for i ch using start by (simp add: good_def)
  have man: "good (n\<lparr>nd_manifest := Some m, nd_chunks := drain_early h (nd_early_chunks n) (nd_chunks n), nd_early_chunks := early\<rparr>)" for h
    using start drained fin by (auto simp: good_def drain_early_def)
  have "good (on_snapshot_chunk X Bc E n (nd_peer_id n) h d)" for h d
    using start buf att [OF put] Cons.prems(1) by (simp add: on_snapshot_chunk_def split: sum.split)
  moreover have "good (on_snapshot_manifest X Bc E n (nd_peer_id n) d)" if "bounded_deserialize (bin_manifest Bc) d = Inr m" for d
    using start att [OF man] Cons.prems(1) that by (simp add: on_snapshot_manifest_def Let_def early_def [symmetric])
  ultimately obtain n1 where n1: "on_message X Bc E n None msg = Some n1" "good n1" using Cons.prems(6) by (auto simp: on_message_def)
  then show ?case using Cons.IH [of n1] Cons.prems(3,6) by (simp add: good_def)
qed simp

section \<open>Concrete runs\<close>

lemma start_node_starts: "loop_start (start_node p live key)"
  by (simp add: loop_start_def start_node_def)

text \<open>A node receives the block of the demo chain.\<close>
lemma demo_receives:
  assumes "add_block demo_externs 1700000009 demo_chain b = (Inr (), c)" "Bc = (demo_bincode (from_chain c) (from_chain c))\<lparr>bin_block := lookup_codec [b]\<rparr>"
  shows "\<exists>n. node_iteration demo_externs Bc (demo_env 0 1700000009) (start_node ''c'' (demo_chain, NoStorage) None)
      (Gossip None (NewBlock [0])) = Some n \<and> nd_chain n = c"
proof -
  obtain p where "live_add_block demo_externs Bc 1700000009 (demo_chain, NoStorage) b = (Inr (), c, p)"
    using live_add_background [OF _ assms(1), of NoStorage Bc] by (auto simp: background_def)
  moreover have "bounded_deserialize (bin_block Bc) [0] = Inr b"
    by (simp add: bounded_deserialize_def assms(2) lookup_codec_def MAX_DESERIALIZE_SIZE_def)
  ultimately show ?thesis
    by (simp add: node_iteration_def check_sync_timeout_def start_node_def on_event_def on_gossip_def on_message_def handle_new_block_def demo_env_def Let_def
        MAX_SEEN_BLOCKS_def)
qed

theorem node_loop_refines_chain_witness:
  "\<exists>Bc b c n. add_block demo_externs 1700000009 demo_chain b = (Inr (), c)
     \<and> node_iteration demo_externs Bc (demo_env 0 1700000009) (start_node ''c'' (demo_chain, NoStorage) None) (Gossip None (NewBlock [0])) = Some n
     \<and> nd_chain n = c \<and> (chain_step demo_externs insertion_sort)\<^sup>*\<^sup>* demo_chain (nd_chain n)"
proof -
  obtain b c where b: "add_block demo_externs 1700000009 demo_chain b = (Inr (), c)" by (rule demo_block_accepted)
  obtain Bc n where n: "node_iteration demo_externs Bc (demo_env 0 1700000009) (start_node ''c'' (demo_chain, NoStorage) None) (Gossip None (NewBlock [0])) = Some n"
    "nd_chain n = c" using demo_receives [OF b refl] by blast
  have "(chain_step demo_externs insertion_sort)\<^sup>*\<^sup>* demo_chain (nd_chain n)"
    using node_loop_refines_chain [OF n(1)] by (auto simp: demo_env_def start_node_def)
  then show ?thesis using b n by blast
qed

theorem node_buffers_bounded_witness:
  "\<exists>Bc n. (loop_step demo_externs Bc)\<^sup>*\<^sup>* (start_node ''c'' (demo_chain, NoStorage) None) n \<and> nd_chain n \<noteq> demo_chain
     \<and> length (nd_pending n) \<le> 256 \<and> card (dom (nd_early_chunks n)) \<le> 2048"
proof -
  obtain b c where b: "add_block demo_externs 1700000009 demo_chain b = (Inr (), c)" by (rule demo_block_accepted)
  obtain Bc n where n: "node_iteration demo_externs Bc (demo_env 0 1700000009) (start_node ''c'' (demo_chain, NoStorage) None) (Gossip None (NewBlock [0])) = Some n"
    "nd_chain n = c" using demo_receives [OF b refl] by blast
  have run: "(loop_step demo_externs Bc)\<^sup>*\<^sup>* (start_node ''c'' (demo_chain, NoStorage) None) n"
    using n(1) unfolding loop_step_def by (intro r_into_rtranclp) blast
  have "holds_blocks c demo_gen [b]" "holds_blocks demo_chain demo_gen []"
    using adopts_history [OF demo_block_adopts [OF b] demo_start_snapshot(3)] adopts_history [OF demo_pool_adopts demo_start_snapshot(3)]
    by (simp_all add: demo_gen_def)
  then have "c \<noteq> demo_chain" by (auto simp: holds_blocks_def)
  then show ?thesis using node_buffers_bounded [OF start_node_starts run] run n(2) by blast
qed

text \<open>A validator whose target is the largest height ticks after two minutes.\<close>
theorem sync_target_halts_production_witness:
  "\<exists>n n2. nd_sync_target_height n = Some (- 1) \<and> node_iteration demo_externs (demo_bincode (from_chain demo_start_chain) (from_chain demo_start_chain))
      (demo_env (secs 120) 1700000009) n BlockTick = Some n2 \<and> nd_validator_key n \<noteq> None \<and> nd_live n2 = nd_live n"
proof -
  let ?Bc = "demo_bincode (from_chain demo_start_chain) (from_chain demo_start_chain)" and ?E = "demo_env (secs 120) 1700000009"
  define n where "n = (start_node ''v'' (demo_start_chain, NoStorage) (Some \<lparr>kp_public_key = [], kp_secret_key = []\<rparr>))\<lparr>nd_sync_target_height := Some (- 1)\<rparr>"
  have n: "nd_sync_target_height n = Some (- 1)" "nd_chain n = demo_start_chain" "nd_validator_key n \<noteq> None" by (simp_all add: n_def start_node_def)
  have h: "height demo_start_chain = 0" using holds_height [OF demo_start_snapshot(3)] by simp
  have l: "latest_block demo_start_chain = Some demo_gen" using h demo_start_snapshot(2) by (simp add: latest_block_def)
  define n1 where "n1 = switch_topic ?E (topic_name (gc_chain_id (bc_genesis_config (nd_chain n))) (protocol_version_at_height (nd_chain n) (height (nd_chain n)))) n"
  obtain go n2 where g: "sync_gate ?E n1 = (go, n2)" by (rule prod.exhaust)
  have top: "(0 :: u64) < - 1" by (simp add: word_gt_0)
  have "\<not> go" using gate_target [of n1 "- 1" ?E] g n h top by (auto simp: n1_def)
  then have "block_tick demo_externs ?Bc ?E n = Some n2 \<or> block_tick demo_externs ?Bc ?E n = Some n1"
    using l n(2) unfolding block_tick_def Let_def n1_def [symmetric] g by (auto split: option.split)
  moreover have "check_sync_timeout ?E n = n" by (simp add: check_sync_timeout_def n_def start_node_def)
  ultimately obtain n2 where n2: "node_iteration demo_externs ?Bc ?E n BlockTick = Some n2" by (auto simp: node_iteration_def on_event_def)
  have "nd_live n2 = nd_live n" using sync_target_halts_production [OF n(1) rtranclp.rtrancl_refl _ n2] n(2) h top by simp
  then show ?thesis using n n2 by blast
qed

text \<open>Chunk 7 of a snapshot with one chunk, and then a genuine index.\<close>
theorem stray_chunk_blocks_snapshot_witness:
  "\<exists>n n'. nd_manifest n = Some demo_manifest \<and> mf_chunk_count demo_manifest \<le> 7 \<and> nd_chunks n 7 \<noteq> None
     \<and> deliver demo_externs (sync_bincode demo_snapshot demo_snapshot demo_manifest) (demo_env 0 0) [SnapshotChunk ''c'' 0 [0]] n = Some n'
     \<and> nd_live n' = nd_live n \<and> nd_manifest n' = Some demo_manifest"
proof -
  define n where "n = (start_node ''c'' (demo_start_chain, NoStorage) None)\<lparr>nd_manifest := Some demo_manifest,
    nd_chunks := [7 \<mapsto> \<lparr>ch_index = 7, ch_data = [], ch_hash = [], ch_proof = []\<rparr>]\<rparr>"
  obtain d where "demo_pieces demo_snapshot demo_snapshot = [d]" using demo_pieces_one by blast
  then have "mf_chunk_count demo_manifest \<le> 7" by (simp add: demo_manifest_def snapshot_manifest_of_def snapshot_chunks_def Let_def)
  moreover have "nd_manifest n = Some demo_manifest" "nd_peer_id n = ''c''" "nd_chunks n 7 \<noteq> None" "finite (dom (nd_chunks n))" "finite (dom (nd_early_chunks n))"
    by (simp_all add: n_def start_node_def)
  ultimately show ?thesis
    using stray_chunk_blocks_snapshot [of n demo_manifest 7 "[SnapshotChunk ''c'' 0 [0]]" "sync_bincode demo_snapshot demo_snapshot demo_manifest"
        demo_externs "demo_env 0 0"] by auto
qed

end
