(* ===== verification/Sync_Restart.thy ===== *)
theory Sync_Restart
  imports Node
begin

text \<open>
  Restarts of a node with synchronous persistence: the writes that \<open>add_block\<close>, \<open>add_transaction\<close> and \<open>add_finality_vote\<close> make
  (\<^verbatim>\<open>src/src/core/chain/apply.rs\<close>, \<^verbatim>\<open>mempool.rs\<close>, \<^verbatim>\<open>finality.rs\<close>, \<^verbatim>\<open>persistence.rs\<close>) keep the database at a state that opens as the chain.
\<close>

text \<open>A run of a node that writes to its database: accepted blocks, transactions, accepted or not, and finality votes. Every state can be encoded;
  a vote may finalize, and the node keeps its history.\<close>
inductive sync_run :: "externs \<Rightarrow> bincode \<Rightarrow> i64 \<Rightarrow> live_chain \<Rightarrow> block list \<Rightarrow> live_chain \<Rightarrow> bool" for X Bc T live0 where
  sync_start: "sync_run X Bc T live0 [] live0"
| sync_block: "sync_run X Bc T live0 bs live \<Longrightarrow> now \<le> T \<Longrightarrow> add_block X now (fst live) b = (Inr (), c') \<Longrightarrow> bincode_ok Bc (from_chain c') \<Longrightarrow>
    sync_run X Bc T live0 (bs @ [b]) (snd (live_add_block X Bc now live b))"
| sync_transaction: "sync_run X Bc T live0 bs live \<Longrightarrow> live_transaction X Bc srt now live tx = (r, live') \<Longrightarrow> bincode_ok Bc (from_chain (fst live')) \<Longrightarrow>
    sync_run X Bc T live0 bs live'"
| sync_vote: "sync_run X Bc T live0 bs live \<Longrightarrow> bc_prune_keep_blocks (fst live) = None \<Longrightarrow> sync_run X Bc T live0 bs (live_vote X Bc live vote)"

section \<open>What the operations change\<close>

lemma add_transaction_pool:
  obtains pool where "snd (add_transaction X srt now c tx) = c\<lparr>bc_pending_transactions := pool\<rparr>"
proof (cases "latest_block c")
  case None
  then show thesis using that [of "bc_pending_transactions c"] by (simp add: add_transaction_def)
next
  case (Some latest)
  obtain kept where p: "prune_pending_transactions srt now (next_base_fee_per_gas c latest) c = c\<lparr>bc_pending_transactions := kept\<rparr>"
    by (simp add: prune_pending_transactions_def Let_def)
  have "\<exists>pool. snd (add_transaction X srt now c tx) = c\<lparr>bc_pending_transactions := pool\<rparr>"
    by (auto simp: add_transaction_def Some p Let_def split: sum.split prod.split)
  then show thesis using that by blast
qed

lemma add_finality_vote_ok:
  assumes "bc_prune_keep_blocks c = None" "add_finality_vote X c vote = (r, c')"
  shows "\<exists>tr t. c' = c\<lparr>bc_finality_tracker := tr, bc_block_tree := t\<rparr>
    \<and> ft_finalized_height tr = (case r of None \<Rightarrow> ft_finalized_height (bc_finality_tracker c) | Some f \<Rightarrow> fb_height f)"
proof -
  have same: "c = c\<lparr>bc_finality_tracker := bc_finality_tracker c, bc_block_tree := bc_block_tree c\<rparr>" by simp
  show ?thesis
  proof (cases "c' = c \<and> r = None")
    case True
    then show ?thesis using same by (intro exI [of _ "bc_finality_tracker c"] exI [of _ "bc_block_tree c"]) simp
  next
    case False
    then obtain snapshot res tr where a: "add_vote X (bc_finality_tracker c) vote snapshot = (res, tr)"
      and c': "(r, c') = (case res of None \<Rightarrow> (None, c\<lparr>bc_finality_tracker := tr\<rparr>)
        | Some f \<Rightarrow> (Some f, c\<lparr>bc_finality_tracker := tr, bc_block_tree := set_finalized (bc_block_tree c) (fb_hash f) (fb_height f)\<rparr>))"
      using assms by (auto simp: add_finality_vote_def maybe_prune_finalized_def Let_def split: option.splits if_splits prod.splits)
    show ?thesis
    proof (cases res)
      case None
      then have "c' = c\<lparr>bc_finality_tracker := tr, bc_block_tree := bc_block_tree c\<rparr>" "r = None" using c' by simp_all
      moreover have "ft_finalized_height tr = ft_finalized_height (bc_finality_tracker c)" using add_vote_None a None by metis
      ultimately show ?thesis by (intro exI [of _ tr] exI [of _ "bc_block_tree c"]) simp
    next
      case (Some f)
      then have "r = Some f" "c' = c\<lparr>bc_finality_tracker := tr, bc_block_tree := set_finalized (bc_block_tree c) (fb_hash f) (fb_height f)\<rparr>"
        using c' by simp_all
      moreover have "ft_finalized_height tr = fb_height f" using add_vote_Some(2,5) a Some by (metis finalized_block.select_convs(2))
      ultimately show ?thesis by auto
    qed
  qed
qed

section \<open>What the writes keep\<close>

lemma put_block_finalized:
  assumes "put_block Bc db b = Inr db'" "stores_finalized Bc db h"
  shows "stores_finalized Bc db' h"
  using assms by (auto simp: put_block_def Let_def stores_finalized_def get_meta_def table_get_def split: sum.splits)

lemma pending_finalized:
  assumes "replace_pending_transactions X Bc db txs = Inr db'" "stores_finalized Bc db h"
  shows "stores_finalized Bc db' h"
  using assms by (auto simp: replace_pending_transactions_def stores_finalized_def get_meta_def split: sum.splits)

lemma put_finalized:
  assumes "serializer (bin_u64 Bc) UNIV" "put_meta (bin_u64 Bc) db FINALIZED_KEY h = Inr db'"
  shows "stores_finalized Bc db' h"
  using assms serializer.insert_Inr [OF assms(1)] serializer.get(2) [OF assms(1)]
  by (auto simp: put_meta_def stores_finalized_def get_meta_def)

text \<open>The database of a live chain opens as the chain.\<close>
definition in_step :: "externs \<Rightarrow> bincode \<Rightarrow> i64 \<Rightarrow> genesis_config \<Rightarrow> blockchain \<Rightarrow> block list \<Rightarrow> live_chain \<Rightarrow> bool" where
  "in_step X Bc T gc c0 bs live \<longleftrightarrow> (\<exists>db. snd live = SyncStorage db \<and> adopts X T c0 bs (fst live)
     \<and> stores_chain Bc db gc (genesis_block c0) bs \<and> stores_finalized Bc db (ft_finalized_height (bc_finality_tracker (fst live))))"

lemma full_write_in_step:
  assumes "from_genesis X gc = Inr c0" "adopts X T c0 bs c" "Suc (length bs) < 2 ^ 64" "bincode_ok Bc (from_chain c)" "tb_evidence db = Map.empty"
  shows "\<exists>db'. persist_full_state X Bc db c = (Inr (), db') \<and> in_step X Bc T gc c0 bs (c, SyncStorage db')"
proof -
  note h = adopts_counted [OF assms(1-3)]
  have "bc_genesis_config c0 = gc" using assms(1) by (auto simp: from_genesis_def Let_def split: sum.splits)
  then have gc: "ps_genesis_config (from_chain c) = gc" using h(3) by (simp add: from_chain_def rules_def)
  obtain db' where w: "run_writes (full_state_writes X Bc (from_chain c)) db = (Inr (), db')" "stores_chain Bc db' gc (genesis_block c0) bs"
    using full_write [OF assms(4) from_chain_blocks [OF h(2)] h(1) assms(5), of X] gc by auto
  have "stores_finalized Bc db' (ps_finalized_height (from_chain c))"
    using write_finalized [of 11 X Bc "from_chain c" db db'] w assms(4) by (simp add: full_state_writes_def bincode_ok_def)
  then show ?thesis using w assms(2) by (simp add: persist_full_state_def write_full_state_to_storage_def in_step_def from_chain_def)
qed

lemma block_in_step:
  assumes "from_genesis X gc = Inr c0" "in_step X Bc T gc c0 bs live" "Suc (length (bs @ [b])) < 2 ^ 64" "now \<le> T"
    and "add_block X now (fst live) b = (Inr (), c')" "bincode_ok Bc (from_chain c')"
  shows "\<exists>live'. live_add_block X Bc now live b = (Inr (), live') \<and> in_step X Bc T gc c0 (bs @ [b]) live'"
proof -
  obtain c db where live: "live = (c, SyncStorage db)" and a: "adopts X T c0 bs c" and st: "stores_chain Bc db gc (genesis_block c0) bs"
    "stores_finalized Bc db (ft_finalized_height (bc_finality_tracker c))" using assms(2) by (cases live) (auto simp: in_step_def)
  have add: "add_block X now c b = (Inr (), c')" and len: "Suc (length bs) < 2 ^ 64" using assms(3,5) live by simp_all
  note new = adopts_block [OF a assms(4) add]
  note h = adopts_counted [OF assms(1) a len] and h' = adopts_counted [OF assms(1) new assms(3)]
  have "block_count c \<noteq> 0" using h(2) by (auto simp: holds_blocks_def)
  then have tr: "bc_finality_tracker c' = bc_finality_tracker c" by (rule add_block_tracker [OF add])
  have "serializer (bin_block Bc) (set (genesis_block c0 # bs @ [b]))"
    using assms(6) from_chain_blocks [OF h'(2)] by (simp add: bincode_ok_def)
  then obtain db' where db': "put_block Bc db b = Inr db'" "stores_chain Bc db' gc (genesis_block c0) (bs @ [b])"
    using put_block_stores [OF st(1) h'(1)] by blast
  have "in_step X Bc T gc c0 (bs @ [b]) (c', SyncStorage db')"
    using db' new put_block_finalized [OF db'(1) st(2)] tr by (simp add: in_step_def)
  moreover obtain db'' where "persist_full_state X Bc db' c' = (Inr (), db'')" "in_step X Bc T gc c0 (bs @ [b]) (c', SyncStorage db'')"
    using full_write_in_step [OF assms(1) new assms(3,6)] db'(2) by (auto simp: stores_chain_def)
  ultimately show ?thesis using add db'(1) by (simp add: live live_add_block_def persist_added_block_def persist_chain_def)
qed

lemma transaction_in_step:
  assumes "in_step X Bc T gc c0 bs live" "live_transaction X Bc srt now live tx = (r, live')" "bincode_ok Bc (from_chain (fst live'))"
  shows "in_step X Bc T gc c0 bs live'"
proof -
  obtain c db where live: "live = (c, SyncStorage db)" and a: "adopts X T c0 bs c" and st: "stores_chain Bc db gc (genesis_block c0) bs"
    "stores_finalized Bc db (ft_finalized_height (bc_finality_tracker c))" using assms(1) by (cases live) (auto simp: in_step_def)
  obtain pool where pool: "snd (add_transaction X srt now c tx) = c\<lparr>bc_pending_transactions := pool\<rparr>" by (rule add_transaction_pool)
  let ?c = "c\<lparr>bc_pending_transactions := pool\<rparr>"
  have new: "adopts X T c0 bs ?c" using adopts_other [OF a, where pool = pool and tr = "bc_finality_tracker c" and t = "bc_block_tree c"] by simp
  have c': "fst live' = ?c" using assms(2) pool by (auto simp: live live_transaction_def split: prod.splits sum.splits)
  then have "serializer (bin_transaction Bc) (set pool)" using assms(3) by (simp add: bincode_ok_def from_chain_def)
  then obtain db' where db': "replace_pending_transactions X Bc db pool = Inr db'" "stores_chain Bc db' gc (genesis_block c0) bs"
    using pending_write [OF _ st(1)] by blast
  have "live' = (?c, SyncStorage db) \<or> live' = (?c, SyncStorage db')"
    using assms(2) pool db'(1) by (auto simp: live live_transaction_def persist_pending_transactions_def split: prod.splits sum.splits)
  then show ?thesis using new st db'(2) pending_finalized [OF db'(1) st(2)] by (auto simp: in_step_def)
qed

lemma vote_in_step:
  assumes "in_step X Bc T gc c0 bs live" "bc_prune_keep_blocks (fst live) = None"
  shows "in_step X Bc T gc c0 bs (live_vote X Bc live vote)"
proof -
  obtain c db where live: "live = (c, SyncStorage db)" and a: "adopts X T c0 bs c" and st: "stores_chain Bc db gc (genesis_block c0) bs"
    "stores_finalized Bc db (ft_finalized_height (bc_finality_tracker c))" using assms(1) by (cases live) (auto simp: in_step_def)
  obtain r c' where v: "add_finality_vote X c vote = (r, c')" by (rule prod.exhaust)
  obtain tr t where c': "c' = c\<lparr>bc_finality_tracker := tr, bc_block_tree := t\<rparr>"
    and fh: "ft_finalized_height tr = (case r of None \<Rightarrow> ft_finalized_height (bc_finality_tracker c) | Some f \<Rightarrow> fb_height f)"
    using add_finality_vote_ok [OF _ v] assms(2) live by auto
  have new: "adopts X T c0 bs c'" using adopts_other [OF a, where pool = "bc_pending_transactions c" and tr = tr and t = t] by (simp add: c')
  obtain db' where db': "put_meta (bin_u64 Bc) db FINALIZED_KEY (ft_finalized_height tr) = Inr db'" "stores_chain Bc db' gc (genesis_block c0) bs"
    using finalized_write [OF st(1)] by blast
  have u: "serializer (bin_u64 Bc) UNIV" using st(1) by (simp add: stores_chain_def)
  show ?thesis
  proof (cases r)
    case None
    then show ?thesis using new st v fh by (simp add: live live_vote_def in_step_def c')
  next
    case (Some f)
    then show ?thesis using new v fh db' put_finalized [OF u db'(1)] by (simp add: live live_vote_def in_step_def c' persist_finalized_height_def)
  qed
qed

lemma sync_run_in_step:
  assumes "from_genesis X gc = Inr c0" "in_step X Bc T gc c0 [] live0"
  shows "sync_run X Bc T live0 bs live \<Longrightarrow> Suc (length bs) < 2 ^ 64 \<Longrightarrow> in_step X Bc T gc c0 bs live"
proof (induction rule: sync_run.induct)
  case sync_start
  show ?case by (rule assms(2))
next
  case (sync_block bs live now b c')
  then have "Suc (length bs) < 2 ^ 64" by simp
  then show ?case using block_in_step [OF assms(1) sync_block.IH sync_block.prems sync_block.hyps(2-4)] by auto
next
  case (sync_transaction bs live srt now tx r live')
  then show ?case using transaction_in_step by blast
next
  case (sync_vote bs live vote)
  then show ?case using vote_in_step by blast
qed

text \<open>C22. Synchronous persistence. A node writes its genesis state to a database without slashing evidence and then processes any number of
  accepted blocks, transactions and finality votes, each with the writes the code makes for it. Whenever it is stopped between two of these, opening the database
  gives a chain with its blocks, accounts, contracts, receipts, tokens, governance, epoch snapshots and missed epochs, and its finalized height. The serialiser
  encodes the states of the run, and the node prunes no history.\<close>
theorem sync_restart:
  assumes "from_genesis X gc = Inr c0" "tb_evidence db0 = Map.empty" "bincode_ok Bc (from_chain c0)"
    and "persist_chain X Bc (SyncStorage db0) c0 = (Inr (), p0)" "sync_run X Bc T (c0, p0) bs (c, p)" "Suc (length bs) < 2 ^ 64" "T \<le> later"
  shows "\<exists>db d. p = SyncStorage db \<and> with_storage X Bc later db (Some gc) = (Inr d, db) \<and> same_ledger d c
    \<and> ft_finalized_height (bc_finality_tracker d) = ft_finalized_height (bc_finality_tracker c)"
proof -
  have "in_step X Bc T gc c0 [] (c0, p0)"
    using full_write_in_step [OF assms(1) adopts_start _ assms(3,2), of T] assms(4) by (auto simp: persist_chain_def)
  from sync_run_in_step [OF assms(1) this assms(5,6)] obtain db where p: "p = SyncStorage db" and a: "adopts X T c0 bs c"
    and st: "stores_chain Bc db gc (genesis_block c0) bs" "stores_finalized Bc db (ft_finalized_height (bc_finality_tracker c))"
    by (auto simp: in_step_def)
  show ?thesis using reopen [OF assms(1) a assms(6,7) st(1)] st(2) p unfolding stores_finalized_def by fastforce
qed

text \<open>A transaction is admitted, then the block with it is adopted.\<close>
theorem sync_restart_witness:
  "\<exists>Bc p0 b c p db d. persist_chain demo_externs Bc (SyncStorage empty_db) demo_start_chain = (Inr (), p0)
     \<and> sync_run demo_externs Bc 1700000009 (demo_start_chain, p0) [b] (c, p) \<and> p = SyncStorage db
     \<and> with_storage demo_externs Bc 1700000500 db (Some demo_config) = (Inr d, db) \<and> same_ledger d c \<and> iter_blocks c \<noteq> iter_blocks demo_start_chain"
proof -
  obtain b c where b: "add_block demo_externs 1700000009 demo_chain b = (Inr (), c)" by (rule demo_block_accepted)
  note gen = demo_start_chain_from_genesis and new = demo_block_adopts [OF b] and old = demo_pool_adopts
  let ?Bc = "demo_bincode (from_chain demo_chain) (from_chain c)"
  have ok: "bincode_ok ?Bc (from_chain demo_chain)" "bincode_ok ?Bc (from_chain c)"
    using demo_bincode_ok adopts_finite [OF gen old demo_evm_finite] adopts_finite [OF gen new demo_evm_finite] by blast+
  have ok0: "bincode_ok ?Bc (from_chain demo_start_chain)"
  proof -
    have "from_chain demo_start_chain = (from_chain demo_chain)\<lparr>ps_pending_transactions := []\<rparr>"
      by (simp add: from_chain_def demo_chain_def demo_start_fields block_at_height_def block_count_def)
    then show ?thesis using ok(1) serializer_mono [of "bin_transaction ?Bc" "set (ps_pending_transactions (from_chain demo_chain))" "{}"] by (simp add: bincode_ok_def)
  qed
  have e: "tb_evidence empty_db = Map.empty" by (simp add: empty_db_def)
  obtain db0 where p0: "persist_full_state demo_externs ?Bc empty_db demo_start_chain = (Inr (), db0)"
    "in_step demo_externs ?Bc 1700000009 demo_config demo_start_chain [] (demo_start_chain, SyncStorage db0)"
    using full_write_in_step [OF gen adopts_start _ ok0 e] by auto
  obtain r live1 where t: "live_transaction demo_externs ?Bc insertion_sort 0 (demo_start_chain, SyncStorage db0) demo_transfer = (r, live1)" by (rule prod.exhaust)
  then have live1: "fst live1 = demo_chain" using demo_admitted by (auto simp: live_transaction_def split: prod.splits)
  have "sync_run demo_externs ?Bc 1700000009 (demo_start_chain, SyncStorage db0) [] live1"
    using sync_transaction [OF sync_start t] ok(1) live1 by simp
  then have run: "sync_run demo_externs ?Bc 1700000009 (demo_start_chain, SyncStorage db0) [b] (snd (live_add_block demo_externs ?Bc 1700000009 live1 b))"
    using sync_block [of demo_externs ?Bc 1700000009 _ "[]" live1 1700000009 b c] b live1 ok(2) by simp
  obtain c' p where l: "snd (live_add_block demo_externs ?Bc 1700000009 live1 b) = (c', p)" by (rule prod.exhaust)
  have c': "c' = c" using l b live1 by (cases live1) (auto simp: live_add_block_def split: prod.splits sum.splits if_splits)
  have pc: "persist_chain demo_externs ?Bc (SyncStorage empty_db) demo_start_chain = (Inr (), SyncStorage db0)"
    using p0(1) by (simp add: persist_chain_def)
  obtain db d where "p = SyncStorage db" "with_storage demo_externs ?Bc 1700000500 db (Some demo_config) = (Inr d, db)" "same_ledger d c"
    using sync_restart [OF gen e ok0 pc run [unfolded l c'], of 1700000500] by auto
  moreover have "iter_blocks c \<noteq> iter_blocks demo_start_chain"
    using holds_blocks_iter [OF adopts_counted(2) [OF gen new]] holds_blocks_iter [OF adopts_counted(2) [OF gen adopts_start]] by simp
  ultimately show ?thesis using pc run [unfolded l c'] by blast
qed

end
