(* ===== verification/Addresses.thy ===== *)
theory Addresses
  imports Crypto_Hash
begin

text \<open>
  Addresses as text. The checksum form of \<^verbatim>\<open>src/src/crypto/hash.rs\<close>, the typed wrappers of \<^verbatim>\<open>src/src/core/types.rs\<close>, and the four parsers of
  addresses: of the HTTP API (\<^verbatim>\<open>api/mod.rs\<close>), of the Ethereum RPC (\<^verbatim>\<open>api/eth_rpc.rs\<close>), of the command line (\<^verbatim>\<open>main.rs\<close>) and of the browser
  SDK (\<^verbatim>\<open>sdk/wasm\<close>). All of them read what \<open>checksum_address\<close> prints, and an accepted checksum is the one of the address.
\<close>

section \<open>Hexadecimal text\<close>

text \<open>What the \<^verbatim>\<open>hex\<close> crate documents: encoding gives two lower-case digits per byte, and decoding accepts exactly the encodings, in
  either case.\<close>
definition hex_crate :: "externs \<Rightarrow> bool" where
  "hex_crate X \<longleftrightarrow> (\<forall>b. set (x_hex_encode X b) \<subseteq> hex_digits \<and> length (x_hex_encode X b) = 2 * length b)
     \<and> (\<forall>s b. x_hex_decode X s = Some b \<longleftrightarrow> map to_ascii_lowercase s = x_hex_encode X b)"

text \<open>A SHA-3 digest has 32 bytes.\<close>
definition sha3_digest :: "externs \<Rightarrow> bool" where
  "sha3_digest X \<longleftrightarrow> (\<forall>d. length (x_sha3 X d) = 32)"

lemma lower_encoded [simp]: "hex_crate X \<Longrightarrow> map to_ascii_lowercase (x_hex_encode X b) = x_hex_encode X b"
  by (rule map_idI) (metis hex_crate_def lower_hex(1) subsetD)

lemma hex_decode_encode [simp]: "hex_crate X \<Longrightarrow> x_hex_decode X (x_hex_encode X b) = Some b"
  using lower_encoded [of X b] by (auto simp: hex_crate_def)

lemma hex_decode_case: "hex_crate X \<Longrightarrow> map to_ascii_lowercase s = x_hex_encode X b \<Longrightarrow> x_hex_decode X s = Some b"
  by (simp add: hex_crate_def)

section \<open>The checksum\<close>

definition hash_nibble :: "bytes \<Rightarrow> nat \<Rightarrow> u8" where
  "hash_nibble h i = (if i mod 2 = 0 then drop_bit 4 (h ! (i div 2)) else and (h ! (i div 2)) 15)"

definition checksum_char :: "bytes \<Rightarrow> nat \<times> char \<Rightarrow> char" where
  "checksum_char h = (\<lambda>(i, c). if hash_nibble h i \<ge> 8 \<and> is_ascii_alphabetic c then to_ascii_uppercase c else c)"

text \<open>An index past the end of the digest panics, which is \<open>None\<close>.\<close>
definition checksum_address :: "externs \<Rightarrow> bytes \<Rightarrow> string option" where
  "checksum_address X addr_bytes =
     (let hex_lower = x_hex_encode X addr_bytes; h = sha3_hash X (ascii hex_lower)
      in if length hex_lower > 2 * length h then None
         else Some (''CUR'' @ map (checksum_char h) (List.enumerate 0 hex_lower)))"

definition address_string_from_public_key :: "externs \<Rightarrow> bytes \<Rightarrow> string option" where
  "address_string_from_public_key X public_key = checksum_address X (address_bytes_from_public_key X public_key)"

definition verify_checksum_address :: "externs \<Rightarrow> string \<Rightarrow> bool option" where
  "verify_checksum_address X address =
     (let hex_part = strip_or ''CUR'' address; lower = map to_ascii_lowercase hex_part in
      if length hex_part \<noteq> ADDRESS_LEN * 2 then Some False
      else if hex_part = lower then Some True
      else case x_hex_decode X lower of
             None \<Rightarrow> Some False
           | Some addr_bytes \<Rightarrow>
               if length addr_bytes \<noteq> ADDRESS_LEN then Some False
               else (case checksum_address X addr_bytes of
                       None \<Rightarrow> None
                     | Some expected \<Rightarrow> Some (hex_part = strip_or ''CUR'' expected)))"

section \<open>Parsers\<close>

text \<open>\<^verbatim>\<open>hex::decode(s)\<close> and the check of the length.\<close>
definition decode_address_hex :: "externs \<Rightarrow> string \<Rightarrow> bytes option" where
  "decode_address_hex X s = (case x_hex_decode X s of
     None \<Rightarrow> None | Some b \<Rightarrow> if length b = ADDRESS_LEN then Some b else None)"

definition api_parse_address :: "externs \<Rightarrow> string \<Rightarrow> bytes option" where
  "api_parse_address X addr_hex = decode_address_hex X (strip_or ''CUR'' addr_hex)"

definition parse_hex_address :: "externs \<Rightarrow> string \<Rightarrow> bytes option" where
  "parse_hex_address X s =
     (let v = trim s
      in decode_address_hex X (case strip_prefix ''0x'' v of Some r \<Rightarrow> r | None \<Rightarrow> strip_or ''CUR'' v))"

definition cli_decode_address :: "externs \<Rightarrow> string \<Rightarrow> string + bytes" where
  "cli_decode_address X v =
     (case x_hex_decode X (strip_or ''CUR'' v) of
        None \<Rightarrow> Inl ''Invalid recipient address''
      | Some b \<Rightarrow> if length b \<noteq> ADDRESS_LEN
          then Inl (''Invalid recipient address length: expected '' @ show_nat ADDRESS_LEN @ '' bytes'') else Inr b)"

text \<open>The message of a failing \<^verbatim>\<open>hex::decode\<close> is left out.\<close>
definition sdk_parse_address :: "externs \<Rightarrow> string \<Rightarrow> string + bytes" where
  "sdk_parse_address X s =
     (let core = (case strip_prefix ''CUR'' s of Some r \<Rightarrow> r | None \<Rightarrow>
                   (case strip_prefix ''cur'' s of Some r \<Rightarrow> r | None \<Rightarrow>
                   (case strip_prefix ''0x'' s of Some r \<Rightarrow> r | None \<Rightarrow> strip_or ''0X'' s)))
      in if length core \<noteq> ADDRESS_LEN * 2
         then Inl (''address must be CUR + 40 hex chars (got '' @ show_nat (length core) @ '' chars)'')
         else case x_hex_decode X core of None \<Rightarrow> Inl ''invalid address hex'' | Some b \<Rightarrow> Inr b)"

section \<open>Typed wrappers\<close>

datatype address = Address (addr_as_bytes: bytes)
datatype block_hash = BlockHash (block_hash_as_bytes: bytes)
datatype tx_hash_t = TxHash (tx_hash_as_bytes: bytes)
datatype type_error = WrongAddressLength (expected: nat) (got: nat) | WrongHashLength nat

definition address_from_bytes :: "bytes \<Rightarrow> address option" where
  "address_from_bytes b = (if length b \<noteq> ADDRESS_LEN then None else Some (Address b))"

text \<open>\<^verbatim>\<open>copy_from_slice\<close> panics on a source of another length.\<close>
definition address_from_public_key :: "externs \<Rightarrow> bytes \<Rightarrow> address option" where
  "address_from_public_key X public_key =
     (let raw = address_bytes_from_public_key X public_key in if length raw = ADDRESS_LEN then Some (Address raw) else None)"

definition to_checksum_string :: "externs \<Rightarrow> address \<Rightarrow> string option" where
  "to_checksum_string X a = checksum_address X (addr_as_bytes a)"

definition address_try_from :: "bytes \<Rightarrow> type_error + address" where
  "address_try_from v = (case address_from_bytes v of Some a \<Rightarrow> Inr a | None \<Rightarrow> Inl (WrongAddressLength ADDRESS_LEN (length v)))"

definition block_hash_from_bytes :: "bytes \<Rightarrow> block_hash option" where
  "block_hash_from_bytes b = (if length b \<noteq> 32 then None else Some (BlockHash b))"

definition block_hash_to_hex :: "externs \<Rightarrow> block_hash \<Rightarrow> string" where
  "block_hash_to_hex X h = x_hex_encode X (block_hash_as_bytes h)"

definition block_hash_is_zero :: "block_hash \<Rightarrow> bool" where
  "block_hash_is_zero h \<longleftrightarrow> block_hash_as_bytes h = replicate 32 0"

definition block_hash_try_from :: "bytes \<Rightarrow> type_error + block_hash" where
  "block_hash_try_from v = (case block_hash_from_bytes v of Some h \<Rightarrow> Inr h | None \<Rightarrow> Inl (WrongHashLength (length v)))"

definition tx_hash_from_bytes :: "bytes \<Rightarrow> tx_hash_t option" where
  "tx_hash_from_bytes b = (if length b \<noteq> 32 then None else Some (TxHash b))"

definition tx_hash_to_hex :: "externs \<Rightarrow> tx_hash_t \<Rightarrow> string" where
  "tx_hash_to_hex X h = x_hex_encode X (tx_hash_as_bytes h)"

definition tx_hash_try_from :: "bytes \<Rightarrow> type_error + tx_hash_t" where
  "tx_hash_try_from v = (case tx_hash_from_bytes v of Some h \<Rightarrow> Inr h | None \<Rightarrow> Inl (WrongHashLength (length v)))"

section \<open>Properties\<close>

lemma lower_checksum: "set s \<subseteq> hex_digits \<Longrightarrow> map to_ascii_lowercase (map (checksum_char h) (List.enumerate n s)) = s"
  by (induction s arbitrary: n) (auto simp: checksum_char_def)

text \<open>The text of an address, without its prefix.\<close>
lemma checksum_text:
  assumes "hex_crate X" "sha3_digest X" "length a \<le> 32"
  obtains s where "checksum_address X a = Some (''CUR'' @ s)" "map to_ascii_lowercase s = x_hex_encode X a" "length s = 2 * length a"
proof
  let ?e = "x_hex_encode X a"
  let ?s = "map (checksum_char (sha3_hash X (ascii ?e))) (List.enumerate 0 ?e)"
  have e: "set ?e \<subseteq> hex_digits" "length ?e = 2 * length a" using assms(1) by (simp_all add: hex_crate_def)
  show "checksum_address X a = Some (''CUR'' @ ?s)"
    using assms(2,3) e(2) by (simp add: checksum_address_def Let_def sha3_hash_def sha3_digest_def)
  show "map to_ascii_lowercase ?s = ?e" by (rule lower_checksum [OF e(1)])
  show "length ?s = 2 * length a" using e(2) by simp
qed

lemma lower_graphic: "to_ascii_lowercase c \<in> hex_digits \<Longrightarrow> graphic c"
  using hex_graphic [of "to_ascii_lowercase c"] by (auto simp: to_ascii_lowercase_def graphic_def split: if_splits)

lemma trim_checksum:
  assumes "set (map to_ascii_lowercase s) \<subseteq> hex_digits"
  shows "trim (''CUR'' @ s) = ''CUR'' @ s"
proof (rule trim_graphic)
  have "graphic (last s)" if "s \<noteq> []" using assms that lower_graphic [of "last s"] last_in_set [OF that] by (simp add: image_subset_iff)
  then show "''CUR'' @ s = [] \<or> graphic (hd (''CUR'' @ s)) \<and> graphic (last (''CUR'' @ s))"
    by (cases "s = []") (auto simp: graphic_def)
qed

text \<open>Addresses survive printing. The text \<open>checksum_address\<close> prints for a 20-byte address is \<open>CUR\<close> and 40 digits, passes the checksum test, and is read back to the
  same bytes by the HTTP API, the Ethereum RPC, the command line and the browser SDK alike.\<close>
theorem address_text_roundtrip:
  assumes "hex_crate X" "sha3_digest X" "length a = 20"
  shows "\<exists>s. checksum_address X a = Some s \<and> length s = 43 \<and> verify_checksum_address X s = Some True
    \<and> api_parse_address X s = Some a \<and> parse_hex_address X s = Some a \<and> cli_decode_address X s = Inr a \<and> sdk_parse_address X s = Inr a"
proof -
  obtain s where s: "checksum_address X a = Some (''CUR'' @ s)" "map to_ascii_lowercase s = x_hex_encode X a" "length s = 40"
    using checksum_text [OF assms(1,2), of a] assms(3) by auto
  have d: "x_hex_decode X s = Some a" "x_hex_decode X (map to_ascii_lowercase s) = Some a"
    using hex_decode_case [OF assms(1) s(2)] assms(1) s(2) by simp_all
  have h: "set (map to_ascii_lowercase s) \<subseteq> hex_digits" using assms(1) s(2) by (simp add: hex_crate_def)
  have "strip_prefix ''0x'' (''CUR'' @ s) = None" by (simp add: strip_prefix_def)
  then have "parse_hex_address X (''CUR'' @ s) = Some a"
    using trim_checksum [OF h] d(1) assms(3) strip_or_append [of "''CUR''" s] by (simp add: parse_hex_address_def decode_address_hex_def ADDRESS_LEN_def Let_def)
  moreover have "verify_checksum_address X (''CUR'' @ s) = Some True"
    using s d(2) assms(3) strip_or_append [of "''CUR''" s] by (auto simp: verify_checksum_address_def Let_def ADDRESS_LEN_def)
  moreover have "api_parse_address X (''CUR'' @ s) = Some a" "cli_decode_address X (''CUR'' @ s) = Inr a"
    using d(1) assms(3) strip_or_append [of "''CUR''" s] by (simp_all add: api_parse_address_def cli_decode_address_def decode_address_hex_def ADDRESS_LEN_def)
  moreover have "sdk_parse_address X (''CUR'' @ s) = Inr a"
    using d(1) s(3) strip_prefix_append [of "''CUR''" s] by (simp add: sdk_parse_address_def ADDRESS_LEN_def)
  ultimately show ?thesis using s(1,3) by (intro exI [of _ "''CUR'' @ s"]) simp
qed

text \<open>The checksum detects a changed case. An accepted address text with an upper-case letter in its digits is the one text \<open>checksum_address\<close> prints for its
  bytes, so of all its variants with upper-case letters exactly one is accepted.\<close>
theorem checksum_detects_case:
  assumes "hex_crate X" "verify_checksum_address X t = Some True" "map to_ascii_lowercase (strip_or ''CUR'' t) \<noteq> strip_or ''CUR'' t"
  shows "\<exists>a. api_parse_address X t = Some a \<and> checksum_address X a = Some (''CUR'' @ strip_or ''CUR'' t)"
proof -
  let ?h = "strip_or ''CUR'' t" and ?l = "map to_ascii_lowercase (strip_or ''CUR'' t)"
  obtain a e where a: "x_hex_decode X ?l = Some a" "length a = 20" "checksum_address X a = Some e" "?h = strip_or ''CUR'' e"
    using assms(2,3) by (auto simp: verify_checksum_address_def Let_def ADDRESS_LEN_def split: if_splits option.splits)
  have "x_hex_encode X a = map to_ascii_lowercase ?l" using a(1) assms(1) unfolding hex_crate_def by metis
  also have "\<dots> = ?l" by (simp add: to_ascii_lowercase_def)
  finally have "x_hex_decode X ?h = Some a" using hex_decode_case [OF assms(1)] by metis
  moreover obtain s where "e = ''CUR'' @ s" using a(3) by (auto simp: checksum_address_def Let_def split: if_splits)
  ultimately show ?thesis using a(2-4) strip_or_append [of "''CUR''" s] by (simp add: api_parse_address_def decode_address_hex_def ADDRESS_LEN_def)
qed

section \<open>Concrete addresses\<close>

lemma demo_hex_crate [simp]: "hex_crate demo_externs"
  using demo_hex_digits demo_hex_decode_iff by (simp add: hex_crate_def)

lemma demo_sha3_digest [simp]: "sha3_digest demo_externs"
  by (simp add: sha3_digest_def)

theorem address_text_roundtrip_witness:
  "\<exists>s. checksum_address demo_externs (replicate 20 7) = Some s \<and> length s = 43 \<and> sdk_parse_address demo_externs s = Inr (replicate 20 7)"
  using address_text_roundtrip [OF demo_hex_crate demo_sha3_digest, of "replicate 20 7"] by auto

definition demo_address_text :: string where
  "demo_address_text = ''CUR0A000000000000000000000000000000000000'' @ ''09''"

theorem checksum_detects_case_witness:
  "\<exists>a. api_parse_address demo_externs demo_address_text = Some a \<and> checksum_address demo_externs a = Some demo_address_text"
proof -
  have t: "strip_or ''CUR'' demo_address_text = drop 3 demo_address_text" "demo_address_text = ''CUR'' @ drop 3 demo_address_text"
    by (simp_all add: strip_or_def strip_prefix_def demo_address_text_def)
  have "verify_checksum_address demo_externs demo_address_text = Some True" by code_simp
  moreover have "map to_ascii_lowercase (drop 3 demo_address_text) \<noteq> drop 3 demo_address_text" by code_simp
  ultimately show ?thesis using checksum_detects_case [OF demo_hex_crate, of demo_address_text] t by simp
qed

end
