(* ===== verification/Json.thy ===== *)
theory Json
  imports Rust_Text
begin

text \<open>
  \<^verbatim>\<open>serde_json::Value\<close> and the accessors the RPC code uses. An object is a list of fields; a parsed object has no key twice. A floating point number
  is kept as its text.
\<close>

datatype json_number = PosInt u64 | NegInt int | Float string

datatype json = JNull | JBool bool | JNumber json_number | JString string | JArray "json list" | JObject "(string \<times> json) list"

fun as_str :: "json \<Rightarrow> string option" where
  "as_str (JString s) = Some s"
| "as_str _ = None"

fun as_bool :: "json \<Rightarrow> bool option" where
  "as_bool (JBool b) = Some b"
| "as_bool _ = None"

fun as_u64 :: "json \<Rightarrow> u64 option" where
  "as_u64 (JNumber (PosInt n)) = Some n"
| "as_u64 _ = None"

fun as_array :: "json \<Rightarrow> json list option" where
  "as_array (JArray xs) = Some xs"
| "as_array _ = None"

fun as_object :: "json \<Rightarrow> (string \<times> json) list option" where
  "as_object (JObject fs) = Some fs"
| "as_object _ = None"

text \<open>\<^verbatim>\<open>Value::get(key)\<close>.\<close>
definition field :: "json \<Rightarrow> string \<Rightarrow> json option" where
  "field v k = (case as_object v of None \<Rightarrow> None | Some fs \<Rightarrow> map_of fs k)"

text \<open>\<^verbatim>\<open>json!(n)\<close> of a signed number, and of a \<^verbatim>\<open>usize\<close>.\<close>
definition json_int :: "int \<Rightarrow> json" where
  "json_int n = JNumber (if 0 \<le> n then PosInt (of_int n) else NegInt n)"

abbreviation json_u64 :: "u64 \<Rightarrow> json" where
  "json_u64 n \<equiv> JNumber (PosInt n)"

abbreviation json_usize :: "nat \<Rightarrow> json" where
  "json_usize n \<equiv> JNumber (PosInt (of_nat n))"

lemma field_object [simp]: "field (JObject fs) k = map_of fs k"
  by (simp add: field_def)

end
