(* ===== verification/Tx_Index.thy ===== *)
theory Tx_Index
  imports Replay
begin

text \<open>
  The lookup tables of the chain object (\<^verbatim>\<open>core/chain/apply.rs\<close>, \<^verbatim>\<open>core/chain/mod.rs\<close>): by block hash, by transaction hash and by Ethereum hash. On every
  chain that adopted blocks from genesis they are sound, an entry leads to a block or transaction with that hash, and complete, every
  adopted block and transaction is found.
\<close>

text \<open>The hash an Ethereum client knows a transaction by.\<close>
definition evm_hash :: "externs \<Rightarrow> transaction \<Rightarrow> bytes option" where
  "evm_hash X tx = (if is_evm tx then (case decode_raw_eth_tx X (tx_evm_raw_tx tx) of Inl _ \<Rightarrow> None | Inr d \<Rightarrow> Some (dr_tx_hash d)) else None)"

text \<open>Entering the transactions of one block into a table; \<open>f\<close> is the key of a transaction.\<close>
fun enter :: "(transaction \<Rightarrow> bytes option) \<Rightarrow> u64 \<Rightarrow> nat \<Rightarrow> transaction list \<Rightarrow> (bytes \<rightharpoonup> u64 \<times> nat) \<Rightarrow> (bytes \<rightharpoonup> u64 \<times> nat)" where
  "enter f h k [] m = m"
| "enter f h k (tx # txs) m = enter f h (Suc k) txs (case f tx of None \<Rightarrow> m | Some x \<Rightarrow> m(x \<mapsto> (h, k)))"

lemma enter_sound:
  "enter f h k txs m x = Some loc \<Longrightarrow> m x = Some loc \<or> (\<exists>i < length txs. loc = (h, k + i) \<and> f (txs ! i) = Some x)"
proof (induction txs arbitrary: k m)
  case (Cons tx txs)
  consider "(case f tx of None \<Rightarrow> m | Some y \<Rightarrow> m(y \<mapsto> (h, k))) x = Some loc" | i where "i < length txs" "loc = (h, Suc k + i)" "f (txs ! i) = Some x"
    using Cons.IH [of "Suc k"] Cons.prems by force
  then show ?case
  proof cases
    case 1
    then show ?thesis by (auto split: option.splits if_splits intro: exI [of _ 0])
  next
    case (2 i)
    then have "Suc i < length (tx # txs) \<and> loc = (h, k + Suc i) \<and> f ((tx # txs) ! Suc i) = Some x" by simp
    then show ?thesis by blast
  qed
qed simp

lemma enter_keeps: "m x \<noteq> None \<Longrightarrow> enter f h k txs m x \<noteq> None"
proof (induction txs arbitrary: k m)
  case (Cons tx txs)
  have "(case f tx of None \<Rightarrow> m | Some y \<Rightarrow> m(y \<mapsto> (h, k))) x \<noteq> None" using Cons.prems by (simp split: option.split)
  then show ?case using Cons.IH by simp
qed simp

lemma enter_complete: "tx \<in> set txs \<Longrightarrow> f tx = Some x \<Longrightarrow> enter f h k txs m x \<noteq> None"
proof (induction txs arbitrary: k m)
  case (Cons t txs)
  show ?case
  proof (cases "t = tx")
    case True
    then show ?thesis using enter_keeps [of "m(x \<mapsto> (h, k))" x] Cons.prems(2) by simp
  next
    case False
    then show ?thesis using Cons.IH Cons.prems by simp
  qed
qed simp

lemma fold_index:
  "bc_tx_hash_index (fold (index_transaction X h) (List.enumerate k txs) c) = enter (Some \<circ> tx_hash X) h k txs (bc_tx_hash_index c)"
  "bc_evm_tx_hash_index (fold (index_transaction X h) (List.enumerate k txs) c) = enter (evm_hash X) h k txs (bc_evm_tx_hash_index c)"
  "bc_block_hash_to_height (fold (index_transaction X h) (List.enumerate k txs) c) = bc_block_hash_to_height c"
proof (induction txs arbitrary: k c)
  case (Cons tx txs)
  have t: "bc_tx_hash_index (index_transaction X h (k, tx) c) = (bc_tx_hash_index c)(tx_hash X tx \<mapsto> (h, k))"
    "bc_evm_tx_hash_index (index_transaction X h (k, tx) c)
       = (case evm_hash X tx of None \<Rightarrow> bc_evm_tx_hash_index c | Some e \<Rightarrow> (bc_evm_tx_hash_index c)(e \<mapsto> (h, k)))"
    "bc_block_hash_to_height (index_transaction X h (k, tx) c) = bc_block_hash_to_height c" for k c
    by (simp_all add: index_transaction_def evm_hash_def Let_def split: sum.split)
  { case 1 show ?case by (simp add: Cons.IH(1) t fun_upd_def) }
  { case 2 show ?case by (simp add: Cons.IH(2) t) }
  { case 3 show ?case by (simp add: Cons.IH(3) t) }
qed simp_all

text \<open>What adopting a block does to the tables.\<close>
lemma add_block_index:
  assumes "add_block X now c b = (Inr (), c')"
  shows "bc_tx_hash_index c' = enter (Some \<circ> tx_hash X) (blk_height b) 0 (blk_transactions b) (bc_tx_hash_index c)"
    "bc_evm_tx_hash_index c' = enter (evm_hash X) (blk_height b) 0 (blk_transactions b) (bc_evm_tx_hash_index c)"
    "bc_block_hash_to_height c' = (bc_block_hash_to_height c)(blk_hash b \<mapsto> blk_height b)"
proof -
  let ?c1 = "settle_before_block X c (blk_height b)"
  obtain ex where c': "c' = commit_block X ?c1 b ex" using add_block_ok [OF assms] by (auto simp: Let_def)
  have s: "bc_tx_hash_index ?c1 = bc_tx_hash_index c" "bc_evm_tx_hash_index ?c1 = bc_evm_tx_hash_index c"
    "bc_block_hash_to_height ?c1 = bc_block_hash_to_height c"
    by (simp_all add: settle_before_block_def Let_def ensure_epoch_snapshot_def create_epoch_snapshot_from_accounts_def split: prod.split)
  have p: "bc_tx_hash_index (push_block_internal d b) = bc_tx_hash_index d" "bc_evm_tx_hash_index (push_block_internal d b) = bc_evm_tx_hash_index d"
    "bc_block_hash_to_height (push_block_internal d b) = bc_block_hash_to_height d" for d
    by (simp_all add: push_block_internal_def split: sum.split)
  have r: "bc_tx_hash_index (rebuild_receipt_indexes X d) = bc_tx_hash_index d" "bc_evm_tx_hash_index (rebuild_receipt_indexes X d) = bc_evm_tx_hash_index d"
    "bc_block_hash_to_height (rebuild_receipt_indexes X d) = bc_block_hash_to_height d" for d
    by (simp_all add: rebuild_receipt_indexes_def Let_def split: prod.split)
  show "bc_tx_hash_index c' = enter (Some \<circ> tx_hash X) (blk_height b) 0 (blk_transactions b) (bc_tx_hash_index c)"
    "bc_evm_tx_hash_index c' = enter (evm_hash X) (blk_height b) 0 (blk_transactions b) (bc_evm_tx_hash_index c)"
    "bc_block_hash_to_height c' = (bc_block_hash_to_height c)(blk_hash b \<mapsto> blk_height b)"
    by (simp_all add: c' commit_block_def Let_def remove_block_transactions_from_mempool_def fold_index s p r)
qed

section \<open>Soundness and completeness\<close>

text \<open>A location in the adopted blocks, whose heights start at 1.\<close>
definition located :: "block list \<Rightarrow> (transaction \<Rightarrow> bool) \<Rightarrow> u64 \<times> nat \<Rightarrow> bool" where
  "located bs P loc \<longleftrightarrow> (\<exists>n < length bs. unat (fst loc) = Suc n \<and> snd loc < length (blk_transactions (bs ! n)) \<and> P (blk_transactions (bs ! n) ! snd loc))"

lemma located_append: "located bs P loc \<Longrightarrow> located (bs @ cs) P loc"
  unfolding located_def by (metis (no_types, lifting) length_append nth_append trans_less_add1)

definition tables_ok :: "externs \<Rightarrow> block list \<Rightarrow> blockchain \<Rightarrow> bool" where
  "tables_ok X bs c \<longleftrightarrow>
     (\<forall>x loc. bc_tx_hash_index c x = Some loc \<longrightarrow> located bs (\<lambda>tx. tx_hash X tx = x) loc)
   \<and> (\<forall>x loc. bc_evm_tx_hash_index c x = Some loc \<longrightarrow> located bs (\<lambda>tx. evm_hash X tx = Some x) loc)
   \<and> (\<forall>x h. bc_block_hash_to_height c x = Some h \<longrightarrow> (\<exists>n < length bs. unat h = Suc n \<and> blk_hash (bs ! n) = x))
   \<and> (\<forall>b \<in> set bs. bc_block_hash_to_height c (blk_hash b) \<noteq> None
       \<and> (\<forall>tx \<in> set (blk_transactions b). bc_tx_hash_index c (tx_hash X tx) \<noteq> None
           \<and> (\<forall>x. evm_hash X tx = Some x \<longrightarrow> bc_evm_tx_hash_index c x \<noteq> None)))"

lemma tables_sound:
  assumes "tables_ok X bs c"
  shows "bc_tx_hash_index c x = Some loc \<Longrightarrow> located bs (\<lambda>tx. tx_hash X tx = x) loc"
    and "bc_evm_tx_hash_index c x = Some loc \<Longrightarrow> located bs (\<lambda>tx. evm_hash X tx = Some x) loc"
    and "bc_block_hash_to_height c x = Some h \<Longrightarrow> \<exists>n < length bs. unat h = Suc n \<and> blk_hash (bs ! n) = x"
  using assms unfolding tables_ok_def by blast+

lemma tables_complete:
  assumes "tables_ok X bs c" "b \<in> set bs"
  shows "bc_block_hash_to_height c (blk_hash b) \<noteq> None"
    and "tx \<in> set (blk_transactions b) \<Longrightarrow> bc_tx_hash_index c (tx_hash X tx) \<noteq> None"
    and "tx \<in> set (blk_transactions b) \<Longrightarrow> evm_hash X tx = Some x \<Longrightarrow> bc_evm_tx_hash_index c x \<noteq> None"
  using assms unfolding tables_ok_def by blast+

lemma located_snoc:
  assumes "unat h = Suc (length bs)" "i < length (blk_transactions b)" "P (blk_transactions b ! i)"
  shows "located (bs @ [b]) P (h, i)"
  using assms by (auto simp: located_def intro!: exI [of _ "length bs"])

lemma tables_add:
  assumes "tables_ok X bs c" "add_block X now c b = (Inr (), c')" "unat (blk_height b) = Suc (length bs)"
  shows "tables_ok X (bs @ [b]) c'"
proof -
  note new = add_block_index [OF assms(2)]
  have s1: "located (bs @ [b]) (\<lambda>tx. tx_hash X tx = x) loc" if idx: "bc_tx_hash_index c' x = Some loc" for x loc
  proof -
    consider "bc_tx_hash_index c x = Some loc" | i where "i < length (blk_transactions b)" "loc = (blk_height b, i)" "tx_hash X (blk_transactions b ! i) = x"
      using enter_sound [OF idx [unfolded new]] by auto
    then show ?thesis using assms(1,3) unfolding tables_ok_def by cases (blast intro: located_append, simp add: located_snoc)
  qed
  have s2: "located (bs @ [b]) (\<lambda>tx. evm_hash X tx = Some x) loc" if idx: "bc_evm_tx_hash_index c' x = Some loc" for x loc
  proof -
    consider "bc_evm_tx_hash_index c x = Some loc" | i where "i < length (blk_transactions b)" "loc = (blk_height b, i)" "evm_hash X (blk_transactions b ! i) = Some x"
      using enter_sound [OF idx [unfolded new]] by auto
    then show ?thesis using assms(1,3) unfolding tables_ok_def by cases (blast intro: located_append, simp add: located_snoc)
  qed
  have s3: "\<exists>n < length (bs @ [b]). unat h = Suc n \<and> blk_hash ((bs @ [b]) ! n) = x" if idx: "bc_block_hash_to_height c' x = Some h" for x h
  proof (cases "x = blk_hash b")
    case True
    then show ?thesis using idx assms(3) by (auto simp: new intro!: exI [of _ "length bs"])
  next
    case False
    then obtain n where "n < length bs" "unat h = Suc n" "blk_hash (bs ! n) = x" using idx assms(1) unfolding new tables_ok_def by (metis fun_upd_other)
    then show ?thesis by (auto simp: nth_append intro!: exI [of _ n])
  qed
  have "bc_block_hash_to_height c' (blk_hash d) \<noteq> None" if "d \<in> set (bs @ [b])" for d
    using that assms(1) by (auto simp: new tables_ok_def)
  moreover have "bc_tx_hash_index c' (tx_hash X tx) \<noteq> None" if "d \<in> set (bs @ [b])" "tx \<in> set (blk_transactions d)" for d tx
    using that assms(1) enter_keeps [of "bc_tx_hash_index c"] enter_complete [of tx "blk_transactions b" "Some \<circ> tx_hash X"]
    unfolding new by (fastforce simp: tables_ok_def)
  moreover have "bc_evm_tx_hash_index c' x \<noteq> None" if "d \<in> set (bs @ [b])" "tx \<in> set (blk_transactions d)" "evm_hash X tx = Some x" for d tx x
    using that assms(1) enter_keeps [of "bc_evm_tx_hash_index c"] enter_complete [of tx "blk_transactions b" "evm_hash X"]
    unfolding new by (fastforce simp: tables_ok_def)
  ultimately show ?thesis using s1 s2 s3 unfolding tables_ok_def by blast
qed

lemma genesis_tables: "from_genesis X gc = Inr c \<Longrightarrow> tables_ok X [] c"
  by (auto simp: from_genesis_def tables_ok_def Let_def split: sum.splits)

text \<open>The tables of a chain that adopted blocks.\<close>
lemma adopts_tables:
  assumes "adopts X T c0 bs c" "from_genesis X gc = Inr c0" "holds_blocks c0 gen []" "blk_height gen = 0" "Suc (length bs) < 2 ^ 64"
  shows "tables_ok X bs c"
  using assms(1,5)
proof induction
  case adopts_start
  show ?case by (rule genesis_tables [OF assms(2)])
next
  case (adopts_block bs c now b c')
  have "holds_blocks c gen bs" using adopts_history [OF adopts_block.hyps(1) assms(3,4)] adopts_block.prems by simp
  then show ?case
    using adopts_block holds_blocks_add(2) [of c gen bs X now b c'] assms(4) tables_add by simp
qed (simp add: tables_ok_def)

end
