(* ===== verification/Eth_Rpc.thy ===== *)
theory Eth_Rpc
  imports Node_Sync Addresses Json Tx_Index
begin

text \<open>
  \<^verbatim>\<open>src/src/api/eth_rpc.rs\<close>: the Ethereum-compatible JSON-RPC of the node. A request is a JSON value; \<open>dispatch\<close> answers one and \<open>handle\<close> a body with one request or
  a batch. The only method that changes the chain is \<open>eth_sendRawTransaction\<close>. \<open>None\<close> is a panic. Parsing JSON and the \<^verbatim>\<open>Display\<close> texts of
  errors are parameters.
\<close>

record rpc_env =
  re_unix :: i64
  re_sort :: tx_sorter
  re_json :: "bytes \<Rightarrow> json option"
  re_chain_error :: "chain_error \<Rightarrow> string"
  re_evm_error :: "evm_error \<Rightarrow> string"

section \<open>Text\<close>

definition CLIENT_VERSION :: string where "CLIENT_VERSION = ''curs3d/v0.3.5/rust''"
definition MAX_LOG_RANGE :: u64 where "MAX_LOG_RANGE = 10000"
definition MAX_JSONRPC_BATCH_SIZE :: nat where "MAX_JSONRPC_BATCH_SIZE = 1024"

definition numeric_chain_id :: "externs \<Rightarrow> string \<Rightarrow> u64" where
  "numeric_chain_id X chain_id =
     (let raw = (from_le (rev (take 4 (sha3_hash X (ascii chain_id)))) :: u32) in ucast (and raw 0x7FFFFFFF))"

definition hex_u64 :: "u64 \<Rightarrow> string" where
  "hex_u64 v = ''0x'' @ show_hex (unat v)"

definition hex_bytes :: "externs \<Rightarrow> bytes \<Rightarrow> string" where
  "hex_bytes X b = (if b = [] then ''0x'' else ''0x'' @ x_hex_encode X b)"

definition hex_storage_word :: "externs \<Rightarrow> bytes \<Rightarrow> string" where
  "hex_storage_word X b = ''0x'' @ x_hex_encode X
     (if length b \<ge> 32 then drop (length b - 32) b else replicate (32 - length b) 0 @ b)"

definition parse_hex_hash :: "externs \<Rightarrow> string \<Rightarrow> bytes option" where
  "parse_hex_hash X s = x_hex_decode X (strip_or ''0x'' (trim s))"

definition parse_hex_quantity :: "string \<Rightarrow> u64 option" where
  "parse_hex_quantity s = (let stripped = strip_or ''0x'' s in if stripped = [] then Some 0 else from_str_radix 16 stripped)"

definition parse_storage_slot :: "externs \<Rightarrow> string \<Rightarrow> bytes option" where
  "parse_storage_slot X s =
     (let stripped = strip_or ''0x'' (trim s) in
      if stripped = [] then Some (replicate 32 0)
      else case x_hex_decode X (if length stripped mod 2 = 1 then CHR ''0'' # stripped else stripped) of
             None \<Rightarrow> None
           | Some b \<Rightarrow> if length b > 32 then None else Some (replicate (32 - length b) 0 @ b))"

fun resolve_block_tag :: "blockchain \<Rightarrow> json \<Rightarrow> u64 option" where
  "resolve_block_tag c (JString s) =
     (if s = ''latest'' \<or> s = ''pending'' then Some (height c)
      else if s = ''earliest'' then Some 0
      else if s = ''finalized'' \<or> s = ''safe'' then Some (ft_finalized_height (bc_finality_tracker c))
      else parse_hex_quantity s)"
| "resolve_block_tag c JNull = Some (height c)"
| "resolve_block_tag c _ = None"

definition rpc_error :: "json \<Rightarrow> int \<Rightarrow> string \<Rightarrow> json" where
  "rpc_error id' code message = JObject [(''jsonrpc'', JString ''2.0''), (''id'', id'),
     (''error'', JObject [(''code'', json_int code), (''message'', JString message)])]"

definition rpc_success :: "json \<Rightarrow> json \<Rightarrow> json" where
  "rpc_success id' result = JObject [(''jsonrpc'', JString ''2.0''), (''id'', id'), (''result'', result)]"

section \<open>Blocks, transactions, receipts, logs\<close>

definition hash_hex :: "externs \<Rightarrow> transaction \<Rightarrow> string" where
  "hash_hex X tx = x_hex_encode X (tx_hash X tx)"

definition eth_wire_hash :: "externs \<Rightarrow> transaction \<Rightarrow> string" where
  "eth_wire_hash X tx =
     (if is_evm tx then (case decode_raw_eth_tx X (tx_evm_raw_tx tx) of
        Inr decoded \<Rightarrow> ''0x'' @ x_hex_encode X (dr_tx_hash decoded) | Inl _ \<Rightarrow> ''0x'' @ hash_hex X tx)
      else ''0x'' @ hash_hex X tx)"

definition resolve_eth_tx_lookup :: "blockchain \<Rightarrow> bytes \<Rightarrow> (u64 \<times> nat) option" where
  "resolve_eth_tx_lookup c h = (case bc_evm_tx_hash_index c h of Some loc \<Rightarrow> Some loc | None \<Rightarrow> bc_tx_hash_index c h)"

definition eth_to_field :: "externs \<Rightarrow> transaction \<Rightarrow> json" where
  "eth_to_field X tx = (if tx_kind tx = DeployEvmContract then JNull else JString (hex_bytes X (tx_to tx)))"

definition tx_to_eth :: "externs \<Rightarrow> blockchain \<Rightarrow> transaction \<Rightarrow> (u64 \<times> nat) option \<Rightarrow> json" where
  "tx_to_eth X c tx location =
     (let (block_number, block_hash, tx_index) = (case location of
            Some (h, i) \<Rightarrow> (JString (hex_u64 h),
              (case block_at_height c h of Some b \<Rightarrow> JString (hex_bytes X (blk_hash b)) | None \<Rightarrow> JNull), JString (hex_u64 (of_nat i)))
          | None \<Rightarrow> (JNull, JNull, JNull))
      in JObject
       [(''hash'', JString (eth_wire_hash X tx)), (''from'', JString (hex_bytes X (tx_from tx))), (''to'', eth_to_field X tx),
        (''value'', JString (hex_u64 (tx_amount tx))), (''nonce'', JString (hex_u64 (tx_nonce tx))), (''gas'', JString (hex_u64 (tx_gas_limit tx))),
        (''gasPrice'', JString (hex_u64 (max (tx_max_fee_per_gas tx) (tx_fee tx)))), (''maxFeePerGas'', JString (hex_u64 (tx_max_fee_per_gas tx))),
        (''maxPriorityFeePerGas'', JString (hex_u64 (tx_max_priority_fee_per_gas tx))), (''input'', JString (hex_bytes X (tx_data tx))),
        (''blockNumber'', block_number), (''blockHash'', block_hash), (''transactionIndex'', tx_index), (''type'', JString ''0x2''),
        (''chainId'', JString (hex_u64 (numeric_chain_id X (tx_chain_id tx))))])"

definition EMPTY_UNCLE_HASH :: string where
  "EMPTY_UNCLE_HASH = ''0x1dcc4de8dec75d7aab85b567b6ccd41ad312451b948a7413f0a142fd40d49347''"

definition LOGS_BLOOM :: string where "LOGS_BLOOM = ''0x'' @ replicate 512 CHR ''0''"

definition block_to_eth :: "externs \<Rightarrow> blockchain \<Rightarrow> block \<Rightarrow> bool \<Rightarrow> json" where
  "block_to_eth X c b full_tx =
     (let txs = (if full_tx
            then JArray (map (\<lambda>(idx, tx). tx_to_eth X c tx (Some (blk_height b, idx))) (List.enumerate 0 (blk_transactions b)))
            else JArray (map (\<lambda>tx. JString (eth_wire_hash X tx)) (blk_transactions b)));
          h = blk_header b
      in JObject
       [(''number'', JString (hex_u64 (blk_height b))), (''hash'', JString (hex_bytes X (blk_hash b))),
        (''parentHash'', JString (hex_bytes X (hdr_prev_hash h))), (''sha3Uncles'', JString EMPTY_UNCLE_HASH),
        (''mixHash'', JString (''0x'' @ replicate 64 CHR ''0'')), (''timestamp'', JString (hex_u64 (of_int (max (hdr_timestamp h) 0)))),
        (''miner'', JString (hex_bytes X (address_bytes_from_public_key X (hdr_validator_public_key h)))),
        (''validator'', JString (hex_bytes X (hdr_validator_public_key h))), (''stateRoot'', JString (hex_bytes X (hdr_state_root h))),
        (''transactionsRoot'', JString (hex_bytes X (hdr_merkle_root h))), (''receiptsRoot'', JString (hex_bytes X (hdr_merkle_root h))),
        (''logsBloom'', JString LOGS_BLOOM), (''difficulty'', JString ''0x0''), (''totalDifficulty'', JString ''0x0''),
        (''size'', JString (hex_u64 (len64 (blk_transactions b)))), (''gasLimit'', JString (hex_u64 (gc_block_gas_limit (bc_genesis_config c)))),
        (''gasUsed'', JString ''0x0''), (''extraData'', JString ''0x''), (''nonce'', JString ''0x0000000000000000''), (''uncles'', JArray []),
        (''baseFeePerGas'', JString (hex_u64 (next_base_fee_per_gas c b))), (''transactions'', txs)])"

text \<open>The hash of the block at a height as the receipts and logs print it, and the transaction at a location.\<close>
definition block_hash_text :: "externs \<Rightarrow> block option \<Rightarrow> string" where
  "block_hash_text X b = (case b of Some b \<Rightarrow> hex_bytes X (blk_hash b) | None \<Rightarrow> ''0x'')"

definition tx_at :: "block option \<Rightarrow> nat \<Rightarrow> transaction option" where
  "tx_at b i = (case b of Some b \<Rightarrow> if i < length (blk_transactions b) then Some (blk_transactions b ! i) else None | None \<Rightarrow> None)"

definition eth_log :: "externs \<Rightarrow> bytes \<Rightarrow> bytes list \<Rightarrow> bytes \<Rightarrow> u64 \<Rightarrow> string \<Rightarrow> string \<Rightarrow> nat \<Rightarrow> nat \<Rightarrow> json" where
  "eth_log X contract topics data block_height block_hash tx_hash_text tx_index log_index = JObject
     [(''address'', JString (hex_bytes X contract)), (''topics'', JArray (map (JString \<circ> hex_bytes X) topics)), (''data'', JString (hex_bytes X data)),
      (''blockNumber'', JString (hex_u64 block_height)), (''blockHash'', JString block_hash), (''transactionHash'', JString tx_hash_text),
      (''transactionIndex'', JString (hex_u64 (of_nat tx_index))), (''logIndex'', JString (hex_u64 (of_nat log_index))), (''removed'', JBool False)]"

definition receipt_to_eth :: "externs \<Rightarrow> blockchain \<Rightarrow> indexed_receipt \<Rightarrow> json" where
  "receipt_to_eth X c indexed =
     (let b = block_at_height c (ir_block_height indexed); block_hash = block_hash_text X b; tx = tx_at b (ir_tx_index indexed);
          tx_hash_text = (case tx of Some t \<Rightarrow> eth_wire_hash X t | None \<Rightarrow> ''0x'' @ x_hex_encode X (ir_tx_hash indexed));
          from' = (case tx of Some t \<Rightarrow> JString (hex_bytes X (tx_from t)) | None \<Rightarrow> JNull);
          to' = (case tx of Some t \<Rightarrow> eth_to_field X t | None \<Rightarrow> JNull); rc = ir_receipt indexed;
          logs = map (\<lambda>(log_index, l). eth_log X (log_contract l) (log_topics l) (log_data l) (ir_block_height indexed) block_hash tx_hash_text
            (ir_tx_index indexed) log_index) (List.enumerate 0 (rc_logs rc))
      in JObject
       [(''transactionHash'', JString tx_hash_text), (''transactionIndex'', JString (hex_u64 (of_nat (ir_tx_index indexed)))),
        (''blockHash'', JString block_hash), (''blockNumber'', JString (hex_u64 (ir_block_height indexed))), (''from'', from'), (''to'', to'),
        (''cumulativeGasUsed'', JString (hex_u64 (rc_gas_used rc))), (''gasUsed'', JString (hex_u64 (rc_gas_used rc))),
        (''effectiveGasPrice'', JString (hex_u64 (rc_effective_gas_price rc))),
        (''contractAddress'', (case rc_contract_address rc of Some a \<Rightarrow> JString (hex_bytes X a) | None \<Rightarrow> JNull)), (''logs'', JArray logs),
        (''logsBloom'', JString LOGS_BLOOM), (''status'', JString (if rc_success rc then ''0x1'' else ''0x0'')), (''type'', JString ''0x2'')])"

definition log_to_eth :: "externs \<Rightarrow> blockchain \<Rightarrow> indexed_log_entry \<Rightarrow> json" where
  "log_to_eth X c l =
     (let b = block_at_height c (il_block_height l);
          tx_hash_text = (case tx_at b (il_tx_index l) of Some t \<Rightarrow> eth_wire_hash X t | None \<Rightarrow> hex_bytes X (il_tx_hash l))
      in eth_log X (il_contract l) (il_topics l) (il_data l) (il_block_height l) (block_hash_text X b) tx_hash_text (il_tx_index l) (il_log_index l))"

section \<open>Methods\<close>

text \<open>\<^verbatim>\<open>obj.get(k).and_then(as_str).and_then(p)\<close>, and the same for a positional parameter.\<close>
definition text_field :: "(string \<times> json) list \<Rightarrow> string \<Rightarrow> (string \<Rightarrow> 'a option) \<Rightarrow> 'a option" where
  "text_field obj k p = Option.bind (Option.bind (map_of obj k) as_str) p"

definition param :: "json list \<Rightarrow> nat \<Rightarrow> json option" where
  "param ps i = (if i < length ps then Some (ps ! i) else None)"

definition text_param :: "json list \<Rightarrow> nat \<Rightarrow> (string \<Rightarrow> 'a option) \<Rightarrow> 'a option" where
  "text_param ps i p = Option.bind (Option.bind (param ps i) as_str) p"

definition or_default :: "'a option \<Rightarrow> 'a \<Rightarrow> 'a" where
  "or_default v d = (case v of Some x \<Rightarrow> x | None \<Rightarrow> d)"

text \<open>The field \<open>data\<close>, or else \<open>input\<close>.\<close>
definition call_data_text :: "(string \<times> json) list \<Rightarrow> string option" where
  "call_data_text obj = Option.bind (case map_of obj ''data'' of Some v \<Rightarrow> Some v | None \<Rightarrow> map_of obj ''input'') as_str"

definition estimate_eth_gas :: "externs \<Rightarrow> json list \<Rightarrow> u64" where
  "estimate_eth_gas X params =
     (case Option.bind (param params 0) as_object of
        None \<Rightarrow> 21000
      | Some call_obj \<Rightarrow>
          let is_deploy = (text_field call_obj ''to'' (parse_hex_address X) = None);
              data_len = (case Option.bind (call_data_text call_obj) (parse_hex_hash X) of Some b \<Rightarrow> len64 b | None \<Rightarrow> 0);
              intrinsic = sat_add 21000 (sat_mul data_len 16);
              estimated = (if is_deploy then max (sat_add intrinsic 5000000) 8000000
                           else if data_len = 0 then intrinsic
                           else max (sat_add intrinsic 500000) 750000)
          in min estimated DEFAULT_BLOCK_GAS_LIMIT)"

text \<open>Outer \<open>None\<close>: the panic of \<open>latest_block\<close> on an empty chain.\<close>
definition dispatch_eth_call :: "externs \<Rightarrow> rpc_env \<Rightarrow> blockchain \<Rightarrow> json list \<Rightarrow> (string + bytes) option" where
  "dispatch_eth_call X E c params =
     (case Option.bind (param params 0) as_object of
        None \<Rightarrow> Some (Inl ''missing call object'')
      | Some obj \<Rightarrow>
          let from' = or_default (text_field obj ''from'' (parse_hex_address X)) (replicate 20 0) in
          (case text_field obj ''to'' (parse_hex_address X) of
             None \<Rightarrow> Some (Inl (''missing '' @ [CHR 0x27] @ ''to'' @ [CHR 0x27]))
           | Some to' \<Rightarrow>
               let value = or_default (text_field obj ''value'' parse_hex_quantity) 0;
                   gas_limit = or_default (text_field obj ''gas'' parse_hex_quantity) 30000000;
                   gas_price = or_default (text_field obj ''gasPrice'' parse_hex_quantity) 0;
                   data = or_default (parse_hex_hash X (or_default (call_data_text obj) ''0x'')) []
               in (case latest_block c of
                     None \<Rightarrow> None
                   | Some latest \<Rightarrow>
                       let base_fee = next_base_fee_per_gas c latest
                       in Some (case evm_call X (evm_state_view (bc_accounts c) (bc_contracts c)) (address20 from') (address20 to') data value gas_limit
                              (max gas_price base_fee) (height c) base_fee DEFAULT_BLOCK_GAS_LIMIT of
                            Inl e \<Rightarrow> Inl (''evm error: '' @ re_evm_error E e)
                          | Inr outcome \<Rightarrow> if \<not> eo_success outcome
                              then Inl (''eth_call reverted: '' @ x_hex_encode X (eo_return_data outcome))
                              else Inr (eo_return_data outcome)))))"

fun log_topic :: "externs \<Rightarrow> json \<Rightarrow> bytes option" where
  "log_topic X JNull = None"
| "log_topic X (JString s) = parse_hex_hash X s"
| "log_topic X (JArray (JString s # _)) = parse_hex_hash X s"
| "log_topic X _ = None"

definition filter_contract :: "externs \<Rightarrow> json option \<Rightarrow> bytes option" where
  "filter_contract X v =
     (let address = (case v of
            Some (JString a) \<Rightarrow> map_option (\<lambda>a. [a]) (parse_hex_address X a)
          | Some (JArray arr) \<Rightarrow>
              (let out = List.map_filter (\<lambda>item. Option.bind (as_str item) (parse_hex_address X)) arr in if out = [] then None else Some out)
          | _ \<Rightarrow> None)
      in case address of None \<Rightarrow> None | Some v \<Rightarrow> if v = [] then None else Some (last v))"

definition default_log_filter :: log_filter where
  "default_log_filter = \<lparr>lf_contract = None, lf_topic = None, lf_topics = None, lf_from_block = None, lf_to_block = None, lf_limit = None\<rparr>"

definition parse_eth_log_filter :: "externs \<Rightarrow> blockchain \<Rightarrow> json \<Rightarrow> log_filter" where
  "parse_eth_log_filter X c v =
     (case as_object v of
        None \<Rightarrow> default_log_filter
      | Some obj \<Rightarrow>
          \<lparr>lf_contract = filter_contract X (map_of obj ''address''), lf_topic = None,
           lf_topics = (case map_of obj ''topics'' of
             Some (JArray arr) \<Rightarrow> if arr = [] then None else Some (map (log_topic X) arr)
           | _ \<Rightarrow> None),
           lf_from_block = Option.bind (map_of obj ''fromBlock'') (resolve_block_tag c),
           lf_to_block = Option.bind (map_of obj ''toBlock'') (resolve_block_tag c),
           lf_limit = map_option unat (Option.bind (map_of obj ''limit'') as_u64)\<rparr>)"

definition eth_get_logs :: "externs \<Rightarrow> blockchain \<Rightarrow> json \<Rightarrow> json list \<Rightarrow> json" where
  "eth_get_logs X c id' ps =
     (let parsed = parse_eth_log_filter X c (or_default (param ps 0) JNull);
          from' = or_default (lf_from_block parsed) 0; to' = or_default (lf_to_block parsed) (height c)
      in if to' \<ge> from' \<and> sat_sub to' from' > MAX_LOG_RANGE
         then rpc_error id' (- 32602) (''log range too wide: '' @ show_nat (unat (sat_add (sat_sub to' from') 1)) @ '' blocks (max ''
           @ show_nat (unat MAX_LOG_RANGE) @ '')'')
         else rpc_success id' (JArray (map (log_to_eth X c) (query_logs c parsed))))"

definition eth_fee_history :: "blockchain \<Rightarrow> json \<Rightarrow> json list \<Rightarrow> json" where
  "eth_fee_history c id' ps =
     (let blocks_count = min (or_default (text_param ps 0 parse_hex_quantity) 1) 256 in
      case (case param ps 1 of Some t \<Rightarrow> resolve_block_tag c t | None \<Rightarrow> Some (height c)) of
        None \<Rightarrow> rpc_error id' (- 32602) ''invalid newestBlock''
      | Some newest \<Rightarrow>
          let oldest = sat_sub newest (sat_sub blocks_count 1);
              blocks = List.map_filter (\<lambda>h. block_at_height c (of_nat h)) [unat oldest..<Suc (unat newest)];
              fee = (\<lambda>b. JString (hex_u64 (next_base_fee_per_gas c b)));
              base_fees = map fee blocks @ (if iter_blocks c = [] then [] else [fee (last (iter_blocks c))])
          in rpc_success id' (JObject [(''oldestBlock'', JString (hex_u64 oldest)), (''baseFeePerGas'', JArray base_fees),
               (''gasUsedRatio'', JArray (map (\<lambda>_. JNumber (Float ''0.5'')) blocks))]))"

definition eth_get_transaction :: "externs \<Rightarrow> blockchain \<Rightarrow> json \<Rightarrow> bytes \<Rightarrow> json" where
  "eth_get_transaction X c id' target =
     (case resolve_eth_tx_lookup c target of
        None \<Rightarrow> rpc_success id' JNull
      | Some (h, idx) \<Rightarrow> (case tx_at (block_at_height c h) idx of
          None \<Rightarrow> rpc_success id' JNull
        | Some tx \<Rightarrow> rpc_success id' (tx_to_eth X c tx (Some (h, idx)))))"

definition eth_get_receipt :: "externs \<Rightarrow> blockchain \<Rightarrow> json \<Rightarrow> bytes \<Rightarrow> json" where
  "eth_get_receipt X c id' target =
     (let internal_hash = (case resolve_eth_tx_lookup c target of
            Some (h, idx) \<Rightarrow> (case tx_at (block_at_height c h) idx of Some tx \<Rightarrow> tx_hash X tx | None \<Rightarrow> target)
          | None \<Rightarrow> target)
      in case get_receipt c internal_hash of
           Some indexed \<Rightarrow> rpc_success id' (receipt_to_eth X c indexed)
         | None \<Rightarrow> rpc_success id' JNull)"

definition eth_get_storage :: "externs \<Rightarrow> blockchain \<Rightarrow> json \<Rightarrow> json list \<Rightarrow> json" where
  "eth_get_storage X c id' ps =
     (case text_param ps 0 (parse_hex_address X) of
        None \<Rightarrow> rpc_error id' (- 32602) ''invalid address''
      | Some addr \<Rightarrow>
          (case Option.bind (param ps 1) as_str of
             None \<Rightarrow> rpc_error id' (- 32602) ''invalid storage slot''
           | Some slot_str \<Rightarrow>
               (case parse_storage_slot X slot_str of
                  None \<Rightarrow> rpc_error id' (- 32602) ''invalid storage slot (expected 32-byte hex)''
                | Some slot \<Rightarrow> rpc_success id' (JString (hex_storage_word X
                    (or_default (Option.bind (bc_contracts c addr) (\<lambda>ct. con_storage ct slot)) []))))))"

text \<open>The methods that take an address, a hash or a block tag.\<close>
definition with_address :: "externs \<Rightarrow> json \<Rightarrow> json list \<Rightarrow> (bytes \<Rightarrow> json) \<Rightarrow> json" where
  "with_address X id' ps f = (case text_param ps 0 (parse_hex_address X) of
     None \<Rightarrow> rpc_error id' (- 32602) ''invalid address'' | Some a \<Rightarrow> rpc_success id' (f a))"

definition with_hash :: "externs \<Rightarrow> json \<Rightarrow> json list \<Rightarrow> string \<Rightarrow> string \<Rightarrow> (bytes \<Rightarrow> json) \<Rightarrow> json" where
  "with_hash X id' ps missing invalid f = (case Option.bind (param ps 0) as_str of
     None \<Rightarrow> rpc_error id' (- 32602) missing
   | Some s \<Rightarrow> (case parse_hex_hash X s of None \<Rightarrow> rpc_error id' (- 32602) invalid | Some h \<Rightarrow> f h))"

definition with_tag :: "blockchain \<Rightarrow> json \<Rightarrow> json list \<Rightarrow> (block \<Rightarrow> json) \<Rightarrow> json" where
  "with_tag c id' ps f = (case param ps 0 of
     None \<Rightarrow> rpc_error id' (- 32602) ''missing block tag''
   | Some tag \<Rightarrow> (case resolve_block_tag c tag of
       None \<Rightarrow> rpc_error id' (- 32602) ''invalid block tag''
     | Some h \<Rightarrow> (case block_at_height c h of Some b \<Rightarrow> rpc_success id' (f b) | None \<Rightarrow> rpc_success id' JNull)))"

definition full_tx_flag :: "json list \<Rightarrow> bool" where
  "full_tx_flag ps = or_default (Option.bind (param ps 1) as_bool) False"

text \<open>The dash of the message is the three bytes of U+2014.\<close>
definition send_transaction_hint :: string where
  "send_transaction_hint = ''eth_sendTransaction requires a node-side wallet '' @ [CHR 0xE2, CHR 0x80, CHR 0x94]
     @ '' use eth_sendRawTransaction with a MetaMask-signed payload, or POST /api/tx/submit for native Dilithium-signed txs.''"

text \<open>Every method but \<open>eth_sendRawTransaction\<close>.\<close>
definition dispatch_read :: "externs \<Rightarrow> rpc_env \<Rightarrow> blockchain \<Rightarrow> json \<Rightarrow> string \<Rightarrow> json list \<Rightarrow> json option" where
  "dispatch_read X E c id' m ps =
     (let ok = (\<lambda>s. Some (rpc_success id' (JString s))); chain_no = numeric_chain_id X (gc_chain_id (bc_genesis_config c)) in
      if m = ''web3_clientVersion'' then ok CLIENT_VERSION
      else if m = ''web3_sha3'' then Some (with_hash X id' ps ''expected hex string parameter'' ''invalid hex input''
        (\<lambda>b. rpc_success id' (JString (hex_bytes X (sha3_hash X b)))))
      else if m = ''net_version'' then ok (show_nat (unat chain_no))
      else if m = ''net_listening'' then Some (rpc_success id' (JBool True))
      else if m = ''net_peerCount'' then ok ''0x0''
      else if m = ''eth_chainId'' then ok (hex_u64 chain_no)
      else if m = ''eth_protocolVersion'' then ok ''0x41''
      else if m = ''eth_syncing'' \<or> m = ''eth_mining'' then Some (rpc_success id' (JBool False))
      else if m = ''eth_hashrate'' then ok ''0x0''
      else if m = ''eth_accounts'' then Some (rpc_success id' (JArray []))
      else if m = ''eth_blockNumber'' then ok (hex_u64 (height c))
      else if m = ''eth_gasPrice'' then (case latest_block c of None \<Rightarrow> None | Some b \<Rightarrow> ok (hex_u64 (next_base_fee_per_gas c b)))
      else if m = ''eth_maxPriorityFeePerGas'' then ok ''0x3b9aca00''
      else if m = ''eth_feeHistory'' then Some (eth_fee_history c id' ps)
      else if m = ''eth_getBalance'' then Some (with_address X id' ps (\<lambda>a. JString (hex_u64 (acc_balance (get_account c a)))))
      else if m = ''eth_getTransactionCount'' then Some (with_address X id' ps (\<lambda>a. JString (hex_u64 (acc_nonce (get_account c a)))))
      else if m = ''eth_getCode'' then Some (with_address X id' ps
        (\<lambda>a. JString (case bc_contracts c a of Some ct \<Rightarrow> hex_bytes X (con_code ct) | None \<Rightarrow> ''0x'')))
      else if m = ''eth_getStorageAt'' then Some (eth_get_storage X c id' ps)
      else if m = ''eth_getBlockByNumber'' then Some (with_tag c id' ps (\<lambda>b. block_to_eth X c b (full_tx_flag ps)))
      else if m = ''eth_getBlockByHash'' then Some (with_hash X id' ps ''missing hash'' ''invalid block hash''
        (\<lambda>target. rpc_success id' (case Option.bind (bc_block_hash_to_height c target) (block_at_height c) of
           Some b \<Rightarrow> block_to_eth X c b (full_tx_flag ps) | None \<Rightarrow> JNull)))
      else if m = ''eth_getTransactionByHash'' then Some (with_hash X id' ps ''missing tx hash'' ''invalid tx hash'' (eth_get_transaction X c id'))
      else if m = ''eth_getTransactionReceipt'' then Some (with_hash X id' ps ''missing tx hash'' ''invalid tx hash'' (eth_get_receipt X c id'))
      else if m = ''eth_getBlockTransactionCountByNumber'' then Some (with_tag c id' ps (\<lambda>b. JString (hex_u64 (len64 (blk_transactions b)))))
      else if m = ''eth_getLogs'' then Some (eth_get_logs X c id' ps)
      else if m = ''eth_estimateGas'' then ok (hex_u64 (estimate_eth_gas X ps))
      else if m = ''eth_call'' then (case dispatch_eth_call X E c ps of
        None \<Rightarrow> None | Some (Inr b) \<Rightarrow> ok (hex_bytes X b) | Some (Inl msg) \<Rightarrow> Some (rpc_error id' (- 32603) msg))
      else if m = ''eth_sendTransaction'' then Some (rpc_error id' (- 32004) send_transaction_hint)
      else Some (rpc_error id' (- 32601) (''method '' @ m @ '' not supported'')))"

definition eth_send_raw :: "externs \<Rightarrow> bincode \<Rightarrow> rpc_env \<Rightarrow> live_chain \<Rightarrow> json \<Rightarrow> json list \<Rightarrow> (json \<times> live_chain) option" where
  "eth_send_raw X Bc E live id' ps =
     (case Option.bind (param ps 0) as_str of
        None \<Rightarrow> Some (rpc_error id' (- 32602) ''expected hex-encoded raw tx'', live)
      | Some raw_hex \<Rightarrow>
          (case x_hex_decode X (strip_or ''0x'' raw_hex) of
             None \<Rightarrow> Some (rpc_error id' (- 32602) ''invalid hex'', live)
           | Some raw \<Rightarrow>
               (case decode_raw_eth_tx X raw of
                  Inl e \<Rightarrow> Some (rpc_error id' (- 32602) (''rlp decode: '' @ re_evm_error E e), live)
                | Inr decoded \<Rightarrow>
                    let kind = (if dr_to decoded \<noteq> None then CallEvmContract else DeployEvmContract);
                        tx = from_evm_raw (re_unix E) (gc_chain_id (bc_genesis_config (fst live))) kind (dr_from decoded) (or_default (dr_to decoded) [])
                          (dr_value decoded) (dr_nonce decoded) (dr_gas_limit decoded) (dr_max_fee_per_gas decoded)
                          (dr_max_priority_fee_per_gas decoded) (dr_data decoded) raw
                    in (case live_transaction X Bc (re_sort E) (re_unix E) live tx of
                          (Inr _, live') \<Rightarrow> Some (rpc_success id' (JString (''0x'' @ x_hex_encode X (dr_tx_hash decoded))), live')
                        | (Inl e, live') \<Rightarrow> if e = Panicked then None
                            else Some (rpc_error id' (- 32003) (''tx rejected: '' @ re_chain_error E e), live')))))"

definition dispatch :: "externs \<Rightarrow> bincode \<Rightarrow> rpc_env \<Rightarrow> live_chain \<Rightarrow> json \<Rightarrow> (json \<times> live_chain) option" where
  "dispatch X Bc E live request =
     (let id' = or_default (field request ''id'') JNull in
      case Option.bind (field request ''method'') as_str of
        None \<Rightarrow> Some (rpc_error id' (- 32600) ''Invalid Request: missing method'', live)
      | Some m \<Rightarrow>
          let ps = or_default (as_array (or_default (field request ''params'') (JArray []))) []
          in if m = ''eth_sendRawTransaction'' then eth_send_raw X Bc E live id' ps
             else map_option (\<lambda>response. (response, live)) (dispatch_read X E (fst live) id' m ps))"

text \<open>The loop over a batch; every entry has its own clock.\<close>
fun dispatch_batch :: "externs \<Rightarrow> bincode \<Rightarrow> (rpc_env \<times> json) list \<Rightarrow> live_chain \<Rightarrow> (json list \<times> live_chain) option" where
  "dispatch_batch X Bc [] live = Some ([], live)"
| "dispatch_batch X Bc ((E, entry) # rest) live =
     (case dispatch X Bc E live entry of
        None \<Rightarrow> None
      | Some (response, live1) \<Rightarrow> map_option (\<lambda>(responses, live2). (response # responses, live2)) (dispatch_batch X Bc rest live1))"

definition handle :: "externs \<Rightarrow> bincode \<Rightarrow> rpc_env \<Rightarrow> (nat \<Rightarrow> rpc_env) \<Rightarrow> live_chain \<Rightarrow> bytes \<Rightarrow> (json \<times> live_chain) option" where
  "handle X Bc E Es live body =
     (case re_json E body of
        None \<Rightarrow> Some (rpc_error JNull (- 32700) ''Parse error'', live)
      | Some parsed \<Rightarrow>
          (case as_array parsed of
             Some batch \<Rightarrow>
               if length batch > MAX_JSONRPC_BATCH_SIZE
               then Some (rpc_error JNull (- 32600) (''batch too large: '' @ show_nat (length batch) @ '' entries (max ''
                 @ show_nat MAX_JSONRPC_BATCH_SIZE @ '')''), live)
               else map_option (\<lambda>(responses, live'). (JArray responses, live'))
                 (dispatch_batch X Bc (zip (map Es [0..<length batch]) batch) live)
           | None \<Rightarrow> dispatch X Bc E live parsed))"

section \<open>Text round trips\<close>

lemma encoded_hex: "hex_crate X \<Longrightarrow> set (x_hex_encode X b) \<subseteq> hex_digits" "hex_crate X \<Longrightarrow> length (x_hex_encode X b) = 2 * length b"
  by (simp_all add: hex_crate_def)

lemma trim_0x:
  assumes "set s \<subseteq> hex_digits"
  shows "trim (''0x'' @ s) = ''0x'' @ s"
proof (rule trim_graphic)
  have "graphic (last s)" if "s \<noteq> []" using assms last_in_set [OF that] hex_graphic by blast
  then show "''0x'' @ s = [] \<or> graphic (hd (''0x'' @ s)) \<and> graphic (last (''0x'' @ s))"
    by (cases "s = []") (auto simp: graphic_def)
qed

lemma strip_0x [simp]: "strip_or ''0x'' (CHR ''0'' # CHR ''x'' # s) = s" "strip_prefix ''0x'' (CHR ''0'' # CHR ''x'' # s) = Some s"
  using strip_or_append [of "''0x''" s] strip_prefix_append [of "''0x''" s] by simp_all

lemma trim_0x_Cons [simp]: "set s \<subseteq> hex_digits \<Longrightarrow> trim (CHR ''0'' # CHR ''x'' # s) = CHR ''0'' # CHR ''x'' # s"
  using trim_0x [of s] by simp

lemma parse_0x_encoded [simp]: "hex_crate X \<Longrightarrow> parse_hex_hash X (CHR ''0'' # CHR ''x'' # x_hex_encode X b) = Some b"
  by (simp add: parse_hex_hash_def encoded_hex)

lemma parse_hex_bytes: "hex_crate X \<Longrightarrow> parse_hex_hash X (hex_bytes X b) = Some b"
  using parse_0x_encoded [of X b] encoded_hex(2) [of X "[]"]
  by (cases "b = []") (simp_all add: hex_bytes_def, metis length_0_conv list.size(3) mult_0_right parse_0x_encoded)

text \<open>What the RPC prints it also reads: quantities, hashes and byte strings, addresses, and 32-byte storage slots and words come back unchanged.\<close>
theorem rpc_text_roundtrip:
  assumes "hex_crate X" "length a = 20" "length slot = 32" "length w \<le> 32"
  shows "parse_hex_quantity (hex_u64 v) = Some v \<and> parse_hex_hash X (hex_bytes X b) = Some b \<and> parse_hex_address X (hex_bytes X a) = Some a
    \<and> parse_storage_slot X (hex_bytes X slot) = Some slot \<and> parse_hex_hash X (hex_storage_word X w) = Some (replicate (32 - length w) 0 @ w)"
proof (intro conjI)
  show "parse_hex_quantity (hex_u64 v) = Some v"
    using show_hex_digits [of "unat v"] by (simp add: parse_hex_quantity_def hex_u64_def Let_def)
  show "parse_hex_hash X (hex_bytes X b) = Some b" by (rule parse_hex_bytes [OF assms(1)])
  show "parse_hex_address X (hex_bytes X a) = Some a"
    using assms(1,2) by (auto simp: parse_hex_address_def hex_bytes_def decode_address_hex_def ADDRESS_LEN_def encoded_hex Let_def)
  have "x_hex_encode X slot \<noteq> []" "length (x_hex_encode X slot) mod 2 = 0" using assms(1,3) encoded_hex(2) [of X slot] by auto
  then show "parse_storage_slot X (hex_bytes X slot) = Some slot"
    using assms(1,3) by (auto simp: parse_storage_slot_def hex_bytes_def encoded_hex Let_def)
  show "parse_hex_hash X (hex_storage_word X w) = Some (replicate (32 - length w) 0 @ w)"
    using assms(1,4) by (simp add: hex_storage_word_def)
qed

section \<open>What a request can change\<close>

definition request_id :: "json \<Rightarrow> json" where
  "request_id request = or_default (field request ''id'') JNull"

definition answers :: "json \<Rightarrow> json \<Rightarrow> bool" where
  "answers request response \<longleftrightarrow> field response ''jsonrpc'' = Some (JString ''2.0'') \<and> field response ''id'' = Some (request_id request)
     \<and> (field response ''result'' \<noteq> None) \<noteq> (field response ''error'' \<noteq> None)"

definition same_but_pool :: "blockchain \<Rightarrow> blockchain \<Rightarrow> bool" where
  "same_but_pool c c' \<longleftrightarrow> (\<exists>pool. c' = c\<lparr>bc_pending_transactions := pool\<rparr>)"

lemma same_but_pool_refl [simp]: "same_but_pool c c"
  by (auto simp: same_but_pool_def intro: exI [of _ "bc_pending_transactions c"])

lemma same_but_pool_trans: "same_but_pool a b \<Longrightarrow> same_but_pool b c \<Longrightarrow> same_but_pool a c"
  by (auto simp: same_but_pool_def)

lemma same_but_pool_latest: "same_but_pool c c' \<Longrightarrow> latest_block c' = latest_block c"
  by (auto simp: same_but_pool_def latest_block_def block_at_height_def height_def block_count_def)

lemma prune_same: "same_but_pool c (prune_pending_transactions srt now base c)"
  by (auto simp: same_but_pool_def prune_pending_transactions_def Let_def)

lemma add_transaction_same:
  assumes "add_transaction X srt now c tx = (r, c')"
  shows "same_but_pool c c'"
  using assms
proof (cases rule: add_transaction_cases)
  case (refused e base)
  then show ?thesis by (simp add: prune_same)
next
  case (admitted base pool c1 h)
  then show ?thesis using prune_same [of c srt now base] by (auto simp: same_but_pool_def)
qed simp

lemma live_transaction_same: "live_transaction X Bc srt now live tx = (r, live') \<Longrightarrow> same_but_pool (fst live) (fst live')"
  by (cases live) (auto simp: live_transaction_def split: prod.splits sum.splits dest: add_transaction_same)

lemma answers_simps [simp]: "answers request (rpc_success (request_id request) r)" "answers request (rpc_error (request_id request) code m)"
  by (simp_all add: answers_def rpc_success_def rpc_error_def)

text \<open>A method answers the request and does not panic.\<close>
definition good :: "json \<Rightarrow> json option \<Rightarrow> bool" where
  "good request r \<longleftrightarrow> (\<exists>response. r = Some response \<and> answers request response)"

lemma good_if: "good request a \<Longrightarrow> good request b \<Longrightarrow> good request (if P then a else b)"
  by simp

lemma good_Some [simp]: "good request (Some r) \<longleftrightarrow> answers request r"
  by (simp add: good_def)

lemma with_answers [simp]:
  "(\<And>h. answers request (f h)) \<Longrightarrow> answers request (with_hash X (request_id request) ps a b f)"
  "answers request (with_address X (request_id request) ps g)" "answers request (with_tag c (request_id request) ps k)"
  by (simp_all add: with_hash_def with_address_def with_tag_def split: option.split)

lemma method_answers [simp]:
  "answers request (eth_get_logs X c (request_id request) ps)" "answers request (eth_fee_history c (request_id request) ps)"
  "answers request (eth_get_transaction X c (request_id request) h)" "answers request (eth_get_receipt X c (request_id request) h)"
  "answers request (eth_get_storage X c (request_id request) ps)"
  by (simp_all add: eth_get_logs_def eth_fee_history_def eth_get_transaction_def eth_get_receipt_def eth_get_storage_def Let_def split: option.split prod.split)

lemma eth_call_returns: "latest_block c \<noteq> None \<Longrightarrow> dispatch_eth_call X E c ps \<noteq> None"
  by (auto simp: dispatch_eth_call_def Let_def split: option.split)

lemma dispatch_read_good: "latest_block c \<noteq> None \<Longrightarrow> good request (dispatch_read X E c (request_id request) m ps)"
  using eth_call_returns [of c X E ps] unfolding dispatch_read_def Let_def
  by (intro good_if) (auto split: option.split sum.split)

subsection \<open>Submitting a transaction does not panic\<close>

definition calm :: "chain_error + 'a \<Rightarrow> bool" where
  "calm r \<longleftrightarrow> r \<noteq> Inl Panicked"

lemma calm_simps [simp]: "calm (Inr x)" "calm (Inl e) \<longleftrightarrow> e \<noteq> Panicked"
  by (simp_all add: calm_def)

lemma calm_if: "calm a \<Longrightarrow> calm b \<Longrightarrow> calm (if P then a else b)"
  by simp

lemma calm_option: "calm a \<Longrightarrow> (\<And>x. calm (f x)) \<Longrightarrow> calm (case v of None \<Rightarrow> a | Some x \<Rightarrow> f x)"
  by (simp split: option.split)

lemma calm_try: "calm v \<Longrightarrow> (\<And>x. calm (g x)) \<Longrightarrow> calm (case v of Inl e \<Rightarrow> Inl e | Inr x \<Rightarrow> g x)"
  by (auto simp: calm_def split: sum.split)

lemma calm_sum: "(\<And>e. calm (f e)) \<Longrightarrow> (\<And>x. calm (g x)) \<Longrightarrow> calm (case v of Inl e \<Rightarrow> f e | Inr x \<Rightarrow> g x)"
  by (simp split: sum.split)

lemma calm_pair: "(\<And>x y. calm (f x y)) \<Longrightarrow> calm (case p of (x, y) \<Rightarrow> f x y)"
  by (simp split: prod.split)

lemmas calm_intros = calm_if calm_option calm_try calm_sum calm_pair

lemma calm_InlD: "calm v \<Longrightarrow> v = Inl e \<Longrightarrow> e \<noteq> Panicked"
  by simp

lemma shape_calm: "calm (validate_transaction_shape tx)"
  unfolding validate_transaction_shape_def check_data_kind_def by (cases "tx_kind tx") (auto intro!: calm_intros)

lemma token_calm: "calm (apply_token_or_governance_tx X tk g a m el tx h)"
  unfolding apply_token_or_governance_tx_def Let_def by (cases "tx_kind tx") (auto intro!: calm_intros)

lemma evm_calm: "calm (apply_evm_deploy X a cs tx h b)" "calm (apply_evm_call X a cs tx h b)"
  unfolding apply_evm_deploy_def apply_evm_call_def Let_def by (intro calm_intros; simp)+

lemma kind_calm: "calm (execute_kind X L tx h el ms base)"
  unfolding execute_kind_def by (cases "tx_kind tx") (auto split: sum.split option.split dest: calm_InlD [OF token_calm] calm_InlD [OF evm_calm(1)] calm_InlD [OF evm_calm(2)])

lemma charge_calm: "charge_sender tx a h d el ms = (Some e, s) \<Longrightarrow> e \<noteq> Panicked"
  by (auto simp: charge_sender_def Let_def split: if_splits)

lemma settle_calm: "calm (fst (settle_fees X L tx g rc base))"
  by (auto simp: settle_fees_def ensure_transaction_fee_covers_base_def Let_def split: option.split)

lemma apply_calm: "calm (fst (apply_user_transaction X L tx h d el ms base))"
proof (cases "validate_transaction_shape tx")
  case (Inl e)
  then show ?thesis using shape_calm [of tx] by (simp add: apply_user_transaction_def)
next
  case (Inr u)
  obtain err s where c: "charge_sender tx (account_of (lg_accounts L) (tx_from tx)) h d el ms = (err, s)" by fastforce
  let ?L = "L\<lparr>lg_accounts := (lg_accounts L)(tx_from tx \<mapsto> s)\<rparr>"
  have "calm (fst (case err of Some e \<Rightarrow> (Inl e, ?L) | None \<Rightarrow> (case execute_kind X ?L tx h el ms base of
      Inl e \<Rightarrow> (Inl e, ?L) | Inr (g, rc, L2) \<Rightarrow> settle_fees X L2 tx g rc base)))"
    using charge_calm [of tx _ h d el ms] c kind_calm [of X ?L tx h el ms base] settle_calm
    by (auto split: option.split sum.split prod.split)
  then show ?thesis using Inr c by (simp add: apply_user_transaction_def Let_def)
qed

lemma project_calm: "calm (project_pending X c base ri ps seen L)"
proof (induction ps arbitrary: seen L)
  case (Cons ip ps)
  obtain i p where ip: "ip = (i, p)" by fastforce
  obtain r L' where a: "apply_user_transaction X L p (height c + 1) (bc_unstake_delay_blocks c) (bc_epoch_length c) (bc_minimum_stake c) base = (r, L')"
    by fastforce
  then have "calm r" using apply_calm [of X L p "height c + 1" "bc_unstake_delay_blocks c" "bc_epoch_length c" "bc_minimum_stake c" base] by simp
  then show ?case using Cons.IH by (cases r) (auto simp: ip a)
qed simp

lemma admission_calm: "calm (admission_check X now base c tx)"
  unfolding admission_check_def Let_def by (intro calm_pair calm_if calm_try project_calm apply_calm) simp_all

lemma enforce_calm: "calm (fst (enforce_mempool_limits X base budget h txs))"
proof (induction txs rule: length_induct)
  case (1 txs)
  have "calm (fst (enforce_mempool_limits X base budget h (evict_transaction_and_dependents i txs)))" if "eviction_candidate base txs = Some i" for i
    using 1 evict_shorter eviction_candidate_bound [OF that] by blast
  then show ?case by (subst enforce_mempool_limits.simps) (simp add: Let_def split: option.split prod.split)
qed

lemma add_transaction_calm:
  assumes "latest_block c \<noteq> None"
  shows "calm (fst (add_transaction X srt now c tx))"
proof -
  obtain l where l: "latest_block c = Some l" using assms by blast
  let ?base = "next_base_fee_per_gas c l"
  let ?c1 = "prune_pending_transactions srt now ?base c"
  show ?thesis
  proof (cases "admission_check X now ?base ?c1 tx")
    case (Inl e)
    then show ?thesis using admission_calm [of X now ?base ?c1 tx] l by (simp add: add_transaction_def Let_def)
  next
    case (Inr u)
    let ?pool = "insert_pending tx (bc_pending_transactions ?c1)"
    let ?h = "case find (\<lambda>p. tx_from p = tx_from tx \<and> tx_nonce p = tx_nonce tx) ?pool of Some p \<Rightarrow> tx_hash X p | None \<Rightarrow> []"
    obtain r pool where e: "enforce_mempool_limits X ?base (pending_gas_budget ?c1) ?h ?pool = (r, pool)" by fastforce
    have "calm r" using enforce_calm [of X ?base "pending_gas_budget ?c1" ?h ?pool] e by simp
    then show ?thesis using l Inr e by (cases r) (simp_all add: add_transaction_def Let_def)
  qed
qed

lemma live_transaction_calm:
  assumes "latest_block (fst live) \<noteq> None"
  shows "calm (fst (live_transaction X Bc srt now live tx))"
proof -
  obtain c p where live: "live = (c, p)" by fastforce
  obtain r c' where a: "add_transaction X srt now c tx = (r, c')" by fastforce
  have "storage_failure e \<noteq> Panicked" for e by (cases e) (simp_all add: storage_failure_def)
  then have "calm (fst (persist_pending_transactions X Bc p c'))"
    by (simp add: persist_pending_transactions_def split: persistence.split sum.split)
  then show ?thesis using add_transaction_calm [OF assms, of X srt now tx] live a
    by (auto simp: live_transaction_def split: sum.split prod.split)
qed

lemma eth_send_raw_good:
  assumes "latest_block (fst live) \<noteq> None"
  shows "\<exists>r live'. eth_send_raw X Bc E live (request_id request) ps = Some (r, live') \<and> answers request r \<and> same_but_pool (fst live) (fst live')"
proof -
  define submit where "submit ok tx = (case live_transaction X Bc (re_sort E) (re_unix E) live tx of
      (Inr _, live') \<Rightarrow> Some (rpc_success (request_id request) ok, live')
    | (Inl e, live') \<Rightarrow> if e = Panicked then None else Some (rpc_error (request_id request) (- 32003) (''tx rejected: '' @ re_chain_error E e), live'))" for ok tx
  have sub: "\<exists>r live'. submit ok tx = Some (r, live') \<and> answers request r \<and> same_but_pool (fst live) (fst live')" for ok tx
  proof -
    obtain r live' where l: "live_transaction X Bc (re_sort E) (re_unix E) live tx = (r, live')" by (rule prod.exhaust)
    then have "same_but_pool (fst live) (fst live')" "calm r"
      using live_transaction_same live_transaction_calm [OF assms, of X Bc "re_sort E" "re_unix E" tx] by auto
    then show ?thesis using l unfolding submit_def by (cases r) (cases live', simp)+
  qed
  show ?thesis
    unfolding eth_send_raw_def Let_def submit_def [symmetric] using sub by (cases live) (auto split: option.split sum.split)
qed

text \<open>One request is answered, and changes at most the pool.\<close>
lemma dispatch_good:
  assumes "latest_block (fst live) \<noteq> None"
  shows "\<exists>r live'. dispatch X Bc E live request = Some (r, live') \<and> answers request r \<and> same_but_pool (fst live) (fst live')"
proof (cases "Option.bind (field request ''method'') as_str")
  case (Some m)
  let ?ps = "or_default (as_array (or_default (field request ''params'') (JArray []))) []"
  obtain r where r: "dispatch_read X E (fst live) (request_id request) m ?ps = Some r" "answers request r"
    using dispatch_read_good [OF assms, of request X E m ?ps] by (auto simp: good_def)
  show ?thesis
  proof (cases "m = ''eth_sendRawTransaction''")
    case True
    then show ?thesis using eth_send_raw_good [OF assms, of X Bc E request ?ps] Some by (simp add: dispatch_def request_id_def)
  next
    case False
    then have "dispatch X Bc E live request = Some (r, live)" using r(1) Some by (simp add: dispatch_def request_id_def)
    then show ?thesis using r(2) same_but_pool_refl by blast
  qed
next
  case None
  then have "dispatch X Bc E live request = Some (rpc_error (request_id request) (- 32600) ''Invalid Request: missing method'', live)"
    by (simp add: dispatch_def request_id_def)
  then show ?thesis using answers_simps(2) same_but_pool_refl by blast
qed

lemma dispatch_batch_good:
  assumes "latest_block (fst live) \<noteq> None"
  shows "\<exists>rs live'. dispatch_batch X Bc es live = Some (rs, live') \<and> list_all2 answers (map snd es) rs \<and> same_but_pool (fst live) (fst live')"
  using assms
proof (induction es arbitrary: live)
  case (Cons e es)
  obtain E request where e: "e = (E, request)" by (rule prod.exhaust)
  obtain r live1 where r: "dispatch X Bc E live request = Some (r, live1)" "answers request r" "same_but_pool (fst live) (fst live1)"
    using dispatch_good [OF Cons.prems] by blast
  have "latest_block (fst live1) \<noteq> None" using same_but_pool_latest [OF r(3)] Cons.prems by simp
  then obtain rs live2 where "dispatch_batch X Bc es live1 = Some (rs, live2)" "list_all2 answers (map snd es) rs" "same_but_pool (fst live1) (fst live2)"
    using Cons.IH by blast
  then show ?case using r e same_but_pool_trans by auto
qed simp

text \<open>A batch of up to 1024 requests is answered request by request: every answer carries the id of its request and either a result or an error, whatever the
  requests are; no request panics the node; and all they can change of the chain is the pool of pending transactions.\<close>
theorem rpc_batch_answered:
  assumes "latest_block (fst live) \<noteq> None" "re_json E body = Some (JArray batch)" "length batch \<le> 1024"
  shows "\<exists>responses live'. handle X Bc E Es live body = Some (JArray responses, live') \<and> list_all2 answers batch responses
    \<and> (\<exists>pool. fst live' = (fst live)\<lparr>bc_pending_transactions := pool\<rparr>)"
proof -
  have "map snd (zip (map Es [0..<length batch]) batch) = batch" by simp
  then show ?thesis
    using dispatch_batch_good [OF assms(1), of X Bc "zip (map Es [0..<length batch]) batch"] assms(2,3)
    by (auto simp: handle_def MAX_JSONRPC_BATCH_SIZE_def same_but_pool_def)
qed

section \<open>Finding what was adopted\<close>

lemma wire_hash_evm: "eth_wire_hash X tx = ''0x'' @ x_hex_encode X (case evm_hash X tx of Some h \<Rightarrow> h | None \<Rightarrow> tx_hash X tx)"
  by (simp add: eth_wire_hash_def evm_hash_def hash_hex_def split: sum.split)

lemma located_at:
  assumes "holds_blocks c gen bs" "located bs P (h, i)"
  shows "\<exists>b tx. b \<in> set bs \<and> block_at_height c h = Some b \<and> tx_at (Some b) i = Some tx \<and> tx \<in> set (blk_transactions b) \<and> P tx"
proof -
  obtain n where n: "n < length bs" "unat h = Suc n" "i < length (blk_transactions (bs ! n))" "P (blk_transactions (bs ! n) ! i)"
    using assms(2) by (auto simp: located_def)
  have "h = of_nat (Suc n)" using n(2) by (metis unat_of_nat_id)
  then have "block_at_height c h = Some (bs ! n)" using holds_blocks_at [OF assms(1), of "Suc n"] n(1) by simp
  then show ?thesis using n by (intro exI [of _ "bs ! n"] exI [of _ "blk_transactions (bs ! n) ! i"]) (simp add: tx_at_def)
qed

text \<open>Looking a hash up in the tables of a chain.\<close>
lemma lookup_located:
  assumes "tables_ok X bs c" "resolve_eth_tx_lookup c t = Some loc"
  shows "located bs (\<lambda>tx. evm_hash X tx = Some t \<or> tx_hash X tx = t \<and> bc_evm_tx_hash_index c t = None) loc"
proof (cases "bc_evm_tx_hash_index c t")
  case (Some l)
  then have "located bs (\<lambda>tx. evm_hash X tx = Some t) loc" using tables_sound(2) [OF assms(1)] assms(2) by (simp add: resolve_eth_tx_lookup_def)
  then show ?thesis by (auto simp: located_def)
next
  case None
  then have "located bs (\<lambda>tx. tx_hash X tx = t) loc" using tables_sound(1) [OF assms(1)] assms(2) by (simp add: resolve_eth_tx_lookup_def)
  then show ?thesis using None by (auto simp: located_def)
qed

text \<open>Adopted transactions are found. On a chain that adopted blocks from genesis, \<open>eth_getTransactionByHash\<close> with the hash the RPC shows for a transaction of an adopted
  block answers with a transaction of the chain that shows the same hash; otherwise two different transactions of the chain have the same internal hash.\<close>
theorem adopted_tx_found:
  assumes "from_genesis X gc = Inr c0" "adopts X T c0 bs c" "Suc (length bs) < 2 ^ 64" "hex_crate X" "b \<in> set bs" "tx \<in> set (blk_transactions b)"
  shows "\<exists>h i b' tx'. block_at_height c h = Some b' \<and> i < length (blk_transactions b') \<and> tx' = blk_transactions b' ! i
    \<and> dispatch_read X E c id' ''eth_getTransactionByHash'' [JString (eth_wire_hash X tx)] = Some (rpc_success id' (tx_to_eth X c tx' (Some (h, i))))
    \<and> (eth_wire_hash X tx' = eth_wire_hash X tx \<or> tx' \<noteq> tx \<and> tx_hash X tx' = tx_hash X tx)"
proof -
  let ?gen = "genesis_block c0" and ?t = "case evm_hash X tx of Some h \<Rightarrow> h | None \<Rightarrow> tx_hash X tx"
  note gen = genesis_holds [OF assms(1)]
  have holds: "holds_blocks c ?gen bs" using adopts_history [OF assms(2) gen assms(3)] by simp
  have idx: "tables_ok X bs c" by (rule adopts_tables [OF assms(2,1) gen assms(3)])
  have "resolve_eth_tx_lookup c ?t \<noteq> None"
    using tables_complete(2,3) [OF idx assms(5,6)] by (auto simp: resolve_eth_tx_lookup_def split: option.split)
  then obtain h i where loc: "resolve_eth_tx_lookup c ?t = Some (h, i)" by auto
  then obtain b' tx' where f: "block_at_height c h = Some b'" "tx_at (Some b') i = Some tx'"
      "evm_hash X tx' = Some ?t \<or> tx_hash X tx' = ?t \<and> bc_evm_tx_hash_index c ?t = None"
    using located_at [OF holds lookup_located [OF idx loc]] by blast
  have same: "eth_wire_hash X tx' = eth_wire_hash X tx \<or> tx' \<noteq> tx \<and> tx_hash X tx' = tx_hash X tx"
  proof (cases "evm_hash X tx' = Some ?t")
    case False
    then have "tx_hash X tx' = ?t" "bc_evm_tx_hash_index c ?t = None" using f(3) by auto
    moreover from this have "evm_hash X tx = None" using tables_complete(3) [OF idx assms(5,6)] by (cases "evm_hash X tx") auto
    ultimately show ?thesis by auto
  qed (simp add: wire_hash_evm)
  have "dispatch_read X E c id' ''eth_getTransactionByHash'' [JString (eth_wire_hash X tx)] = Some (rpc_success id' (tx_to_eth X c tx' (Some (h, i))))"
    using assms(4) loc f(1,2) by (simp add: dispatch_read_def with_hash_def param_def eth_get_transaction_def wire_hash_evm)
  moreover have "i < length (blk_transactions b')" "tx' = blk_transactions b' ! i" using f(2) by (auto simp: tx_at_def split: if_splits)
  ultimately show ?thesis using f(1) same by blast
qed

text \<open>Adopted blocks are found by their hash.\<close>
lemma adopted_block_found:
  assumes "from_genesis X gc = Inr c0" "adopts X T c0 bs c" "Suc (length bs) < 2 ^ 64" "hex_crate X" "b \<in> set bs"
  shows "\<exists>b' \<in> set bs. blk_hash b' = blk_hash b
    \<and> dispatch_read X E c id' ''eth_getBlockByHash'' [JString (hex_bytes X (blk_hash b))] = Some (rpc_success id' (block_to_eth X c b' False))"
proof -
  note gen = genesis_holds [OF assms(1)]
  have holds: "holds_blocks c (genesis_block c0) bs" using adopts_history [OF assms(2) gen assms(3)] by simp
  have idx: "tables_ok X bs c" by (rule adopts_tables [OF assms(2,1) gen assms(3)])
  obtain h where h: "bc_block_hash_to_height c (blk_hash b) = Some h" using tables_complete(1) [OF idx assms(5)] by auto
  then obtain n where n: "n < length bs" "unat h = Suc n" "blk_hash (bs ! n) = blk_hash b" using tables_sound(3) [OF idx] by blast
  have "h = of_nat (Suc n)" using n(2) by (metis unat_of_nat_id)
  then have "block_at_height c h = Some (bs ! n)" using holds_blocks_at [OF holds, of "Suc n"] n(1) by simp
  then show ?thesis
    using h n parse_hex_bytes [OF assms(4)]
    by (intro bexI [of _ "bs ! n"]) (simp_all add: dispatch_read_def with_hash_def param_def full_tx_flag_def or_default_def)
qed

section \<open>Concrete requests\<close>

definition demo_rpc :: rpc_env where
  "demo_rpc = \<lparr>re_unix = 1700000009, re_sort = insertion_sort,
     re_json = (\<lambda>_. Some (JArray [JObject [(''id'', json_int 7), (''method'', JString ''eth_blockNumber'')], JNull])),
     re_chain_error = (\<lambda>_. []), re_evm_error = (\<lambda>_. [])\<rparr>"

theorem rpc_text_roundtrip_witness:
  "parse_hex_quantity (hex_u64 255) = Some 255 \<and> parse_hex_address demo_externs (hex_bytes demo_externs (replicate 20 9)) = Some (replicate 20 9)
   \<and> parse_hex_hash demo_externs (hex_storage_word demo_externs [1, 2]) = Some (replicate 30 0 @ [1, 2])"
  using rpc_text_roundtrip [OF demo_hex_crate, of "replicate 20 9" "replicate 32 0" "[1, 2]" 255 "[]"] by simp

theorem rpc_batch_answered_witness:
  "\<exists>r1 r2 live'. handle demo_externs (demo_bincode (from_chain demo_start_chain) (from_chain demo_start_chain)) demo_rpc (\<lambda>_. demo_rpc) (demo_start_chain, NoStorage) [] = Some (JArray [r1, r2], live')
     \<and> field r1 ''id'' = Some (json_int 7) \<and> field r2 ''id'' = Some JNull"
proof -
  have h: "height demo_start_chain = 0" using holds_height [OF demo_start_snapshot(3)] by simp
  have l: "latest_block (fst (demo_start_chain, NoStorage)) \<noteq> None" using h demo_start_snapshot(2) by (simp add: latest_block_def)
  have j: "re_json demo_rpc [] = Some (JArray [JObject [(''id'', json_int 7), (''method'', JString ''eth_blockNumber'')], JNull])"
    by (simp add: demo_rpc_def)
  obtain rs live' where "handle demo_externs (demo_bincode (from_chain demo_start_chain) (from_chain demo_start_chain)) demo_rpc (\<lambda>_. demo_rpc) (demo_start_chain, NoStorage) [] = Some (JArray rs, live')"
    "list_all2 answers [JObject [(''id'', json_int 7), (''method'', JString ''eth_blockNumber'')], JNull] rs"
    using rpc_batch_answered [OF l j, of demo_externs "demo_bincode (from_chain demo_start_chain) (from_chain demo_start_chain)" "\<lambda>_. demo_rpc"] by auto
  then show ?thesis by (auto simp: list_all2_Cons1 answers_def request_id_def or_default_def field_def)
qed

theorem adopted_tx_found_witness:
  "\<exists>b c h i tx'. adopts demo_externs 1700000009 demo_start_chain [b] c \<and> demo_transfer \<in> set (blk_transactions b)
     \<and> dispatch_read demo_externs demo_rpc c JNull ''eth_getTransactionByHash'' [JString (eth_wire_hash demo_externs demo_transfer)]
         = Some (rpc_success JNull (tx_to_eth demo_externs c tx' (Some (h, i))))"
proof -
  obtain b c where b: "add_block demo_externs 1700000009 demo_chain b = (Inr (), c)" "tl (blk_transactions b) = [demo_transfer]"
    by (rule demo_block_accepted)
  then have tx: "demo_transfer \<in> set (blk_transactions b)" by (cases "blk_transactions b") auto
  then obtain h i tx' where "dispatch_read demo_externs demo_rpc c JNull ''eth_getTransactionByHash'' [JString (eth_wire_hash demo_externs demo_transfer)]
         = Some (rpc_success JNull (tx_to_eth demo_externs c tx' (Some (h, i))))"
    using adopted_tx_found [OF demo_start_chain_from_genesis demo_block_adopts [OF b(1)] _ demo_hex_crate, of b demo_transfer demo_rpc JNull] by auto
  then show ?thesis using tx demo_block_adopts [OF b(1)] by blast
qed

end
