(* ===== verification/Rpc.thy ===== *)
theory Rpc
  imports Eth_Rpc
begin

text \<open>
  The command-line RPC of the node, \<^verbatim>\<open>src/src/rpc/mod.rs\<close>, and the dry run behind its estimates, \<^verbatim>\<open>src/src/core/chain/estimate.rs\<close>. A client sends
  one line with a request, the node answers with one line. The JSON of these two types, the texts of errors and the value of the environment
  variable with the token are parameters. Messages given to the network queue are listed; whether the queue has room is not part of the model. \<open>None\<close> is a
  panic. The properties: an estimate is what execution charges, a call returns what the server computed, and no request without the
  token is served.
\<close>

section \<open>Estimates\<close>

record transaction_estimate =
  te_next_block_height :: u64
  te_base_fee_per_gas :: u64
  te_gas_used :: u64
  te_effective_gas_price :: u64
  te_priority_fee_paid :: u64
  te_base_fee_burned :: u64
  te_total_fee_charged :: u64
  te_gas_refunded :: u64
  te_max_total_fee :: u64
  te_would_replace_pending :: bool

text \<open>The loop over the pool; unlike admission it skips a transaction it has seen.\<close>
fun estimate_pending :: "externs \<Rightarrow> blockchain \<Rightarrow> u64 \<Rightarrow> nat option \<Rightarrow> (nat \<times> transaction) list \<Rightarrow> bytes set \<Rightarrow> ledger \<Rightarrow> chain_error + ledger" where
  "estimate_pending X c base ri [] seen L = Inr L"
| "estimate_pending X c base ri ((index, p) # rest) seen L =
     (if ri = Some index then estimate_pending X c base ri rest seen L
      else if tx_hash X p \<in> seen then estimate_pending X c base ri rest seen L
      else case apply_user_transaction X L p (height c + 1) (bc_unstake_delay_blocks c) (bc_epoch_length c) (bc_minimum_stake c) base of
        (Inl e, _) \<Rightarrow> Inl e
      | (Inr _, L') \<Rightarrow> estimate_pending X c base ri rest (insert (tx_hash X p) seen) L')"

definition ledger_of :: "blockchain \<Rightarrow> ledger" where
  "ledger_of c = \<lparr>lg_accounts = bc_accounts c, lg_contracts = bc_contracts c, lg_receipts = Map.empty,
     lg_tokens = bc_token_registry c, lg_governance = bc_governance c\<rparr>"

definition estimate_transaction :: "externs \<Rightarrow> blockchain \<Rightarrow> transaction \<Rightarrow> chain_error + transaction_estimate" where
  "estimate_transaction X c tx =
     (if is_coinbase tx then Inl (InvalidTransactionFormat ''coinbase transactions cannot be estimated'')
      else if tx_chain_id tx \<noteq> gc_chain_id (bc_genesis_config c) then Inl (InvalidChainId (gc_chain_id (bc_genesis_config c)) (tx_chain_id tx))
      else case latest_block c of
        None \<Rightarrow> Inl Panicked
      | Some latest \<Rightarrow>
          let pending_base_fee = next_base_fee_per_gas c latest; ri = replacement_index tx (bc_pending_transactions c) in
          (case estimate_pending X c pending_base_fee ri (List.enumerate 0 (bc_pending_transactions c)) {} (ledger_of c) of
             Inl e \<Rightarrow> Inl e
           | Inr L \<Rightarrow>
               (case fst (apply_user_transaction X L tx (height c + 1) (bc_unstake_delay_blocks c) (bc_epoch_length c) (bc_minimum_stake c) pending_base_fee) of
                  Inl e \<Rightarrow> Inl e
                | Inr gas_used \<Rightarrow>
                    (case effective_gas_price tx pending_base_fee of
                       None \<Rightarrow> Inl FeeTooLow
                     | Some price \<Rightarrow>
                         let total_fee_charged = sat_mul gas_used price
                         in Inr \<lparr>te_next_block_height = height c + 1, te_base_fee_per_gas = pending_base_fee, te_gas_used = gas_used,
                              te_effective_gas_price = price, te_priority_fee_paid = priority_fee_for_transaction tx gas_used pending_base_fee,
                              te_base_fee_burned = sat_mul gas_used pending_base_fee, te_total_fee_charged = total_fee_charged,
                              te_gas_refunded = sat_sub (total_fee_cap tx) total_fee_charged, te_max_total_fee = total_fee_cap tx,
                              te_would_replace_pending = (ri \<noteq> None)\<rparr>))))"

section \<open>Requests\<close>

datatype rpc_request =
    SubmitTransaction transaction
  | EstimateTransaction transaction
  | GetAccount bytes
  | GetReceipt bytes
  | QueryLogs log_filter
  | GetAccountProof bytes
  | GetStorageProof bytes bytes
  | GetStatus

record rpc_envelope =
  en_token :: "string option"
  en_request :: rpc_request

record node_status =
  ns_chain_id :: string
  ns_chain_name :: string
  ns_epoch :: u64
  ns_epoch_start_height :: u64
  ns_height :: u64
  ns_finalized_height :: u64
  ns_latest_hash :: string
  ns_genesis_hash :: string
  ns_pending_transactions :: nat
  ns_active_validators :: nat
  ns_protocol_version :: u32

datatype rpc_response =
    Submitted string
  | Estimated transaction_estimate
  | AccountState account_state
  | ReceiptFound indexed_receipt
  | Logs "indexed_log_entry list"
  | AccountProofFound account_proof
  | StorageProofFound storage_proof
  | Status node_status
  | RpcFailure string

text \<open>\<^verbatim>\<open>RpcError\<close>.\<close>
datatype rpc_err = RpcIo | RpcJson | RpcRemote string

record tcp_env = rpc_env +
  tc_envelope_text :: "rpc_envelope \<Rightarrow> string option"
  tc_envelope :: "string \<Rightarrow> rpc_envelope option"
  tc_request :: "string \<Rightarrow> rpc_request option"
  tc_response_text :: "rpc_response \<Rightarrow> string option"
  tc_response :: "string \<Rightarrow> rpc_response option"

text \<open>From the value of \<^verbatim>\<open>CURS3D_RPC_TOKEN\<close>.\<close>
definition rpc_token :: "string option \<Rightarrow> string option" where
  "rpc_token var = (case var of Some v \<Rightarrow> if v = [] then None else Some v | None \<Rightarrow> None)"

definition parse_request :: "tcp_env \<Rightarrow> string option \<Rightarrow> string \<Rightarrow> rpc_err + rpc_request" where
  "parse_request E var payload =
     (case tc_envelope E payload of
        Some envelope \<Rightarrow>
          (case rpc_token var of
             Some wanted \<Rightarrow> if en_token envelope \<noteq> Some wanted then Inl (RpcRemote ''missing or invalid RPC token'') else Inr (en_request envelope)
           | None \<Rightarrow> Inr (en_request envelope))
      | None \<Rightarrow>
          if rpc_token var \<noteq> None then Inl (RpcRemote ''missing or invalid RPC token'')
          else case tc_request E payload of Some r \<Rightarrow> Inr r | None \<Rightarrow> Inl RpcJson)"

text \<open>The transaction that is announced after a submission: the last one of the pool.\<close>
definition announce_last :: "bincode \<Rightarrow> blockchain \<Rightarrow> network_message list" where
  "announce_last Bc c =
     (if bc_pending_transactions c = [] then []
      else case cd_enc (bin_transaction Bc) (last (bc_pending_transactions c)) of Inr data \<Rightarrow> [NewTransaction data] | Inl _ \<Rightarrow> [])"

definition status_of :: "externs \<Rightarrow> blockchain \<Rightarrow> node_status option" where
  "status_of X c = map_option (\<lambda>latest.
     \<lparr>ns_chain_id = gc_chain_id (bc_genesis_config c), ns_chain_name = gc_chain_name (bc_genesis_config c), ns_epoch = current_epoch c,
      ns_epoch_start_height = current_epoch_start_height c, ns_height = height c, ns_finalized_height = ft_finalized_height (bc_finality_tracker c),
      ns_latest_hash = x_hex_encode X (blk_hash latest), ns_genesis_hash = x_hex_encode X (genesis_hash c),
      ns_pending_transactions = length (bc_pending_transactions c), ns_active_validators = active_validator_count c,
      ns_protocol_version = protocol_version_at_height c (height c)\<rparr>) (latest_block c)"

definition handle_request :: "externs \<Rightarrow> bincode \<Rightarrow> tcp_env \<Rightarrow> live_chain \<Rightarrow> rpc_request \<Rightarrow> (rpc_response \<times> network_message list \<times> live_chain) option" where
  "handle_request X Bc E live request =
     (let c = fst live; answer = (\<lambda>r. Some (r, [], live)) in
      case request of
        SubmitTransaction tx \<Rightarrow>
          (case live_transaction X Bc (re_sort E) (re_unix E) live tx of
             (Inr _, live') \<Rightarrow> Some (Submitted (hash_hex X tx), announce_last Bc (fst live'), live')
           | (Inl e, live') \<Rightarrow> if e = Panicked then None else Some (RpcFailure (re_chain_error E e), [], live'))
      | EstimateTransaction tx \<Rightarrow>
          (case estimate_transaction X c tx of
             Inr e \<Rightarrow> answer (Estimated e)
           | Inl e \<Rightarrow> if e = Panicked then None else answer (RpcFailure (re_chain_error E e)))
      | GetAccount address \<Rightarrow> answer (AccountState (get_account c address))
      | GetReceipt h \<Rightarrow> answer (case get_receipt c h of Some r \<Rightarrow> ReceiptFound r | None \<Rightarrow> RpcFailure ''receipt not found'')
      | QueryLogs f \<Rightarrow> answer (Logs (query_logs c f))
      | GetAccountProof address \<Rightarrow>
          answer (case get_account_proof X c address of Some p \<Rightarrow> AccountProofFound p | None \<Rightarrow> RpcFailure ''account proof not found'')
      | GetStorageProof address key \<Rightarrow>
          answer (case get_storage_proof X c address key of Some p \<Rightarrow> StorageProofFound p | None \<Rightarrow> RpcFailure ''storage proof not found'')
      | GetStatus \<Rightarrow> Option.bind (status_of X c) (\<lambda>s. answer (Status s)))"

text \<open>\<^verbatim>\<open>read_line\<close>: up to and with the first newline, or all there is.\<close>
definition read_line :: "string \<Rightarrow> string" where
  "read_line s = (let l = takeWhile (\<lambda>ch. ch \<noteq> CHR 0x0A) s in if length l < length s then l @ [CHR 0x0A] else l)"

text \<open>One connection: what is written back for what was received.\<close>
definition handle_connection :: "externs \<Rightarrow> bincode \<Rightarrow> tcp_env \<Rightarrow> string option \<Rightarrow> live_chain \<Rightarrow> string
    \<Rightarrow> ((rpc_err + string) \<times> network_message list \<times> live_chain) option" where
  "handle_connection X Bc E var live received =
     (let line = read_line received in
      if line = [] then Some (Inr [], [], live)
      else case parse_request E var (trim_end line) of
        Inl e \<Rightarrow> Some (Inl e, [], live)
      | Inr request \<Rightarrow>
          (case handle_request X Bc E live request of
             None \<Rightarrow> None
           | Some (response, out, live') \<Rightarrow>
               Some (case tc_response_text E response of None \<Rightarrow> Inl RpcJson | Some json \<Rightarrow> Inr (json @ [CHR 0x0A]), out, live')))"

text \<open>The two halves of the client.\<close>
definition request_line :: "tcp_env \<Rightarrow> string option \<Rightarrow> rpc_request \<Rightarrow> rpc_err + string" where
  "request_line E var request = (case tc_envelope_text E \<lparr>en_token = rpc_token var, en_request = request\<rparr> of
     None \<Rightarrow> Inl RpcJson | Some payload \<Rightarrow> Inr (payload @ [CHR 0x0A]))"

definition read_response :: "tcp_env \<Rightarrow> string \<Rightarrow> rpc_err + rpc_response" where
  "read_response E received =
     (let line = read_line received in
      if line = [] then Inl (RpcRemote ''empty response from node'')
      else case tc_response E (trim_end line) of None \<Rightarrow> Inl RpcJson | Some r \<Rightarrow> Inr r)"

text \<open>\<open>send_request\<close> against a node; the connection is closed without an answer when the node reports an error.\<close>
definition send_request :: "externs \<Rightarrow> bincode \<Rightarrow> tcp_env \<Rightarrow> string option \<Rightarrow> string option \<Rightarrow> live_chain \<Rightarrow> rpc_request
    \<Rightarrow> ((rpc_err + rpc_response) \<times> network_message list \<times> live_chain) option" where
  "send_request X Bc E var node_var live request =
     (case request_line E var request of
        Inl e \<Rightarrow> Some (Inl e, [], live)
      | Inr line \<Rightarrow>
          (case handle_connection X Bc E node_var live line of
             None \<Rightarrow> None
           | Some (Inl _, out, live') \<Rightarrow> Some (read_response E [], out, live')
           | Some (Inr written, out, live') \<Rightarrow> Some (read_response E written, out, live')))"

section \<open>Properties\<close>

subsection \<open>Estimates\<close>

text \<open>A pool of native transactions can only lower the wealth of the ledger.\<close>
lemma estimate_pending_wealth:
  assumes "estimate_pending X c base ri ps seen L = Inr L'" "\<forall>p \<in> set ps. \<not> is_evm (snd p)"
    and "finite (dom (lg_accounts L))" "total wealth (lg_accounts L) < 2 ^ 64 - 1"
  shows "finite (dom (lg_accounts L')) \<and> total wealth (lg_accounts L') < 2 ^ 64 - 1"
  using assms
proof (induction ps arbitrary: seen L)
  case (Cons ip ps)
  obtain index p where ip: "ip = (index, p)" by (rule prod.exhaust)
  have skip: ?case if "estimate_pending X c base ri ps seen L = Inr L'" using Cons that by auto
  show ?case
  proof (cases "ri = Some index \<or> tx_hash X p \<in> seen")
    case False
    then obtain g L1 where a: "apply_user_transaction X L p (height c + 1) (bc_unstake_delay_blocks c) (bc_epoch_length c) (bc_minimum_stake c) base = (Inr g, L1)"
        "estimate_pending X c base ri ps (insert (tx_hash X p) seen) L1 = Inr L'"
      using Cons.prems(1) ip by (auto split: prod.splits sum.splits)
    then show ?thesis using Cons.IH [OF a(2)] native_tx_wealth [OF a(1) _ Cons.prems(3,4)] Cons.prems(2-4) ip by fastforce
  next
    case True
    then have "estimate_pending X c base ri ps seen L = Inr L'" using Cons.prems(1) ip by (auto split: if_splits)
    then show ?thesis by (rule skip)
  qed
qed simp

text \<open>C28. An estimate is exact. When the node estimates a native transaction over a pool of native transactions, executing it after the pool uses the estimated gas and takes
  exactly the estimated fee from the total wealth (beside the amount for the kinds that lose it); fee and refund add up to the fee cap of the
  transaction, and the fee is the burned base fee plus the priority fee.\<close>
theorem estimate_exact:
  assumes "estimate_transaction X c tx = Inr e" "\<not> is_evm tx" "\<forall>p \<in> set (bc_pending_transactions c). \<not> is_evm p"
    and "finite (dom (bc_accounts c))" "total wealth (bc_accounts c) < 2 ^ 64 - 1"
  shows "\<exists>L L'. estimate_pending X c (te_base_fee_per_gas e) (replacement_index tx (bc_pending_transactions c)) (List.enumerate 0 (bc_pending_transactions c)) {} (ledger_of c) = Inr L
    \<and> apply_user_transaction X L tx (te_next_block_height e) (bc_unstake_delay_blocks c) (bc_epoch_length c) (bc_minimum_stake c) (te_base_fee_per_gas e)
        = (Inr (te_gas_used e), L')
    \<and> total wealth (lg_accounts L') + unat (te_total_fee_charged e) + lost_amount tx = total wealth (lg_accounts L)
    \<and> unat (te_total_fee_charged e) + unat (te_gas_refunded e) = unat (te_max_total_fee e)
    \<and> unat (te_base_fee_burned e) + unat (te_priority_fee_paid e) = unat (te_total_fee_charged e)"
proof -
  let ?b = "te_base_fee_per_gas e"
  obtain L price where l: "estimate_pending X c ?b (replacement_index tx (bc_pending_transactions c)) (List.enumerate 0 (bc_pending_transactions c)) {} (ledger_of c) = Inr L"
    and a: "fst (apply_user_transaction X L tx (te_next_block_height e) (bc_unstake_delay_blocks c) (bc_epoch_length c) (bc_minimum_stake c) ?b) = Inr (te_gas_used e)"
    and p: "effective_gas_price tx ?b = Some price"
    and e: "te_total_fee_charged e = sat_mul (te_gas_used e) price" "te_gas_refunded e = sat_sub (total_fee_cap tx) (te_total_fee_charged e)"
      "te_max_total_fee e = total_fee_cap tx" "te_base_fee_burned e = sat_mul (te_gas_used e) ?b"
      "te_priority_fee_paid e = priority_fee_for_transaction tx (te_gas_used e) ?b"
    using assms(1) by (auto simp: estimate_transaction_def Let_def split: if_splits option.splits sum.splits)
  obtain L' where x: "apply_user_transaction X L tx (te_next_block_height e) (bc_unstake_delay_blocks c) (bc_epoch_length c) (bc_minimum_stake c) ?b = (Inr (te_gas_used e), L')"
    using a by (metis prod.collapse)
  have native: "\<forall>p \<in> set (List.enumerate 0 (bc_pending_transactions c)). \<not> is_evm (snd p)" using assms(3) by (auto simp: in_set_enumerate_eq)
  have L: "finite (dom (lg_accounts L))" "total wealth (lg_accounts L) < 2 ^ 64 - 1"
    using estimate_pending_wealth [OF l native] assms(4,5) by (simp_all add: ledger_of_def)
  have w: "te_gas_used e \<le> effective_gas_limit tx" "total wealth (lg_accounts L') + unat (te_gas_used e) * unat price + lost_amount tx = total wealth (lg_accounts L)"
    using native_tx_wealth [OF x assms(2) L] p by auto
  have fit: "unat (te_gas_used e) * unat price < 2 ^ 64" using w(2) L(2) by linarith
  obtain s where "charge_sender tx (account_of (lg_accounts L) (tx_from tx)) (te_next_block_height e) (bc_unstake_delay_blocks c) (bc_epoch_length c) (bc_minimum_stake c) = (None, s)"
    using apply_user_transaction_ok [OF x] by metis
  then have "unat (total_fee_cap tx) < 2 ^ 64 - 1"
    using charge_sender_wealth(2) account_wealth_le [OF L(1), of "tx_from tx"] L(2) by fastforce
  then have cap: "unat (te_gas_used e) * unat price \<le> unat (total_fee_cap tx)" by (rule fee_within_cap [OF p w(1)])
  have charged: "unat (te_total_fee_charged e) = unat (te_gas_used e) * unat price" using fit by (simp add: e(1) unat_sat_mul)
  have split: "unat (te_gas_used e) * unat price = unat (te_gas_used e) * unat ?b + unat (te_priority_fee_paid e)"
    unfolding e(5) by (rule fee_split [OF p fit])
  have burned: "unat (te_base_fee_burned e) = unat (te_gas_used e) * unat ?b" using split fit by (simp add: e(4) unat_sat_mul)
  have refund: "unat (te_gas_refunded e) = unat (total_fee_cap tx) - unat (te_total_fee_charged e)" by (simp add: e(2) unat_sat_sub)
  show ?thesis using l x w(2) charged refund cap split burned e(3) by auto
qed

subsection \<open>Calls\<close>

text \<open>What the client and the node rely on: the serialiser reads back what it prints, and prints one line without a white space at its end.\<close>
definition one_line :: "string \<Rightarrow> bool" where
  "one_line t \<longleftrightarrow> t \<noteq> [] \<and> graphic (last t) \<and> CHR 0x0A \<notin> set t"

definition tcp_laws :: "tcp_env \<Rightarrow> bool" where
  "tcp_laws E \<longleftrightarrow> (\<forall>v t. tc_envelope_text E v = Some t \<longrightarrow> one_line t \<and> tc_envelope E t = Some v)
     \<and> (\<forall>r t. tc_response_text E r = Some t \<longrightarrow> one_line t \<and> tc_response E t = Some r)"

lemma read_one_line: "one_line t \<Longrightarrow> read_line (t @ [CHR 0x0A]) = t @ [CHR 0x0A]"
  by (auto simp: read_line_def one_line_def Let_def takeWhile_append)

lemma trim_newline:
  assumes "one_line t"
  shows "trim_end (t @ [CHR 0x0A]) = t"
proof -
  have "find (\<lambda>w. w \<noteq> [] \<and> take (length w) (CHR 0x0A # rev t) = w) (map rev white_space) = Some [CHR 0x0A]" by (simp add: white_space_def)
  moreover have "drop_all (map rev white_space) (rev t) = rev t"
    using assms by (intro drop_all_none [OF white_space_ends(2)]) (simp add: one_line_def hd_rev)
  ultimately show ?thesis unfolding trim_end_def by (subst drop_all.simps) simp
qed

text \<open>A remote call is a call. When client and node have the same token, what \<open>send_request\<close> returns is what \<open>handle_request\<close> computed on the chain of
  the node, and the chain and the network queue are changed as it changed them.\<close>
theorem rpc_call_roundtrip:
  assumes "tcp_laws E" "rpc_token var = rpc_token node_var" "request_line E var request = Inr line"
    and "handle_request X Bc E live request = Some (response, out, live')" "tc_response_text E response \<noteq> None"
  shows "send_request X Bc E var node_var live request = Some (Inr response, out, live')"
proof -
  let ?v = "\<lparr>en_token = rpc_token var, en_request = request\<rparr>"
  obtain t where t: "tc_envelope_text E ?v = Some t" "line = t @ [CHR 0x0A]"
    using assms(3) by (auto simp: request_line_def split: option.splits)
  obtain r where r: "tc_response_text E response = Some r" using assms(5) by blast
  have l: "one_line t" "tc_envelope E t = Some ?v" "one_line r" "tc_response E r = Some response" using assms(1) t(1) r by (auto simp: tcp_laws_def)
  have "parse_request E node_var t = Inr request" using l(2) assms(2) by (simp add: parse_request_def split: option.split)
  then have "handle_connection X Bc E node_var live line = Some (Inr (r @ [CHR 0x0A]), out, live')"
    using assms(4) r l(1) by (simp add: handle_connection_def read_one_line trim_newline t(2))
  then show ?thesis using assms(3) l(3,4) by (simp add: send_request_def read_response_def read_one_line trim_newline)
qed

text \<open>With a token configured the node serves nobody else. What a connection without the token sends changes nothing, queues no message and gets an error.\<close>
theorem rpc_token_required:
  assumes "rpc_token var = Some token" "read_line received \<noteq> []"
    and "\<And>v. tc_envelope E (trim_end (read_line received)) = Some v \<Longrightarrow> en_token v \<noteq> Some token"
  shows "handle_connection X Bc E var live received = Some (Inl (RpcRemote ''missing or invalid RPC token''), [], live)"
  using assms by (auto simp: handle_connection_def parse_request_def Let_def split: option.split)

lemma estimate_pending_calm: "calm (estimate_pending X c base ri ps seen L)"
proof (induction ps arbitrary: seen L)
  case (Cons ip ps)
  obtain i p where ip: "ip = (i, p)" by fastforce
  obtain r L' where a: "apply_user_transaction X L p (height c + 1) (bc_unstake_delay_blocks c) (bc_epoch_length c) (bc_minimum_stake c) base = (r, L')"
    by fastforce
  then have "calm r" using apply_calm [of X L p "height c + 1" "bc_unstake_delay_blocks c" "bc_epoch_length c" "bc_minimum_stake c" base] by simp
  then show ?case using Cons.IH by (cases r) (auto simp: ip a)
qed simp

lemma estimate_calm:
  assumes "latest_block c \<noteq> None"
  shows "calm (estimate_transaction X c tx)"
proof -
  obtain latest where l: "latest_block c = Some latest" using assms by blast
  show ?thesis
    unfolding estimate_transaction_def l option.case Let_def by (intro calm_if calm_try calm_option estimate_pending_calm apply_calm) simp_all
qed

text \<open>Reads leave the chain alone, and a request never panics a node that holds a block.\<close>
lemma handle_request_answers:
  assumes "latest_block (fst live) \<noteq> None"
  shows "\<exists>response out live'. handle_request X Bc E live request = Some (response, out, live') \<and> same_but_pool (fst live) (fst live')
    \<and> ((\<forall>tx. request \<noteq> SubmitTransaction tx) \<longrightarrow> live' = live \<and> out = [])"
proof (cases request)
  case (SubmitTransaction tx)
  obtain r live' where l: "live_transaction X Bc (re_sort E) (re_unix E) live tx = (r, live')" by (rule prod.exhaust)
  then have "same_but_pool (fst live) (fst live')" "calm r"
    using live_transaction_same live_transaction_calm [OF assms, of X Bc "re_sort E" "re_unix E" tx] by auto
  then show ?thesis using l SubmitTransaction by (cases r) (auto simp: handle_request_def)
next
  case (EstimateTransaction tx)
  have "calm (estimate_transaction X (fst live) tx)" by (rule estimate_calm [OF assms])
  then show ?thesis using EstimateTransaction by (cases "estimate_transaction X (fst live) tx") (auto simp: handle_request_def)
qed (use assms in \<open>cases live, auto simp: handle_request_def status_of_def Let_def\<close>)+

section \<open>Witnesses\<close>

text \<open>The demo transfer over an empty pool.\<close>
theorem estimate_exact_witness:
  "\<exists>e. estimate_transaction demo_externs demo_start_chain demo_transfer = Inr e \<and> te_gas_used e = 21000
     \<and> unat (te_total_fee_charged e) + unat (te_gas_refunded e) = unat (te_max_total_fee e)"
proof -
  have tx: "\<not> is_coinbase demo_transfer" "tx_chain_id demo_transfer = ''c''" "\<not> is_evm demo_transfer" "max_fee_per_gas demo_transfer = 1"
    using demo_facts(4) by (simp_all add: is_coinbase_def is_evm_def demo_chain_fields max_fee_per_gas_def)
  have "ledger_of demo_start_chain = demo_ledger"
    using demo_chain_fields(12-14) demo_start_fields(5) by (simp add: ledger_of_def demo_chain_def) (simp add: demo_ledger_def)
  moreover obtain price where "effective_gas_price demo_transfer 1 = Some price" using tx(4) by (auto simp: effective_gas_price_def Let_def)
  ultimately obtain e where e: "estimate_transaction demo_externs demo_start_chain demo_transfer = Inr e" "te_gas_used e = 21000"
    using tx demo_transfer_applies by (simp add: estimate_transaction_def Let_def demo_start_reads demo_start_fields)
  have "total wealth (bc_accounts demo_start_chain) < 2 ^ 64 - 1" "finite (dom (bc_accounts demo_start_chain))"
    using demo_ledger_accounts by (simp_all add: demo_start_fields)
  then show ?thesis using estimate_exact [OF e(1) tx(3)] e by (auto simp: demo_start_fields)
qed

text \<open>Texts for one request and its answer.\<close>
definition demo_tcp :: "rpc_response \<Rightarrow> tcp_env" where
  "demo_tcp r = \<lparr>re_unix = re_unix demo_rpc, re_sort = re_sort demo_rpc, re_json = re_json demo_rpc, re_chain_error = re_chain_error demo_rpc,
     re_evm_error = re_evm_error demo_rpc,
     tc_envelope_text = (\<lambda>v. if v = \<lparr>en_token = Some ''t'', en_request = GetStatus\<rparr> then Some ''q'' else None),
     tc_envelope = (\<lambda>t. if t = ''q'' then Some \<lparr>en_token = Some ''t'', en_request = GetStatus\<rparr> else None), tc_request = (\<lambda>_. None),
     tc_response_text = (\<lambda>a. if a = r then Some ''a'' else None), tc_response = (\<lambda>t. if t = ''a'' then Some r else None)\<rparr>"

lemma demo_tcp_laws: "tcp_laws (demo_tcp r)"
  by (simp add: tcp_laws_def demo_tcp_def one_line_def graphic_def)

text \<open>A status request with the token of the node.\<close>
theorem rpc_call_roundtrip_witness:
  "\<exists>Bc E r. status_of demo_externs demo_start_chain = Some r \<and> ns_height r = 0
     \<and> send_request demo_externs Bc E (Some ''t'') (Some ''t'') (demo_start_chain, NoStorage) GetStatus = Some (Inr (Status r), [], demo_start_chain, NoStorage)"
proof -
  let ?Bc = "demo_bincode (from_chain demo_start_chain) (from_chain demo_start_chain)"
  obtain r where r: "status_of demo_externs demo_start_chain = Some r" "ns_height r = 0"
    by (simp add: status_of_def demo_start_reads)
  let ?E = "demo_tcp (Status r)"
  have q: "request_line ?E (Some ''t'') GetStatus = Inr (''q'' @ [CHR 0x0A])" by (simp add: request_line_def rpc_token_def demo_tcp_def)
  have h: "handle_request demo_externs ?Bc ?E (demo_start_chain, NoStorage) GetStatus = Some (Status r, [], demo_start_chain, NoStorage)"
    using r(1) by (simp add: handle_request_def)
  have "tc_response_text ?E (Status r) \<noteq> None" by (simp add: demo_tcp_def)
  from rpc_call_roundtrip [OF demo_tcp_laws refl q h this] show ?thesis using r by blast
qed

text \<open>The same request to a node with another token.\<close>
theorem rpc_token_required_witness:
  "\<exists>Bc. handle_connection demo_externs Bc (demo_tcp (Submitted [])) (Some ''secret'') (demo_start_chain, NoStorage) (''q'' @ [CHR 0x0A])
     = Some (Inl (RpcRemote ''missing or invalid RPC token''), [], demo_start_chain, NoStorage)"
proof -
  let ?Bc = "demo_bincode (from_chain demo_start_chain) (from_chain demo_start_chain)"
  have o: "one_line ''q''" by (simp add: one_line_def graphic_def)
  have "rpc_token (Some ''secret'') = Some ''secret''" by (simp add: rpc_token_def)
  then have "handle_connection demo_externs ?Bc (demo_tcp (Submitted [])) (Some ''secret'') (demo_start_chain, NoStorage) (''q'' @ [CHR 0x0A])
     = Some (Inl (RpcRemote ''missing or invalid RPC token''), [], demo_start_chain, NoStorage)"
    by (rule rpc_token_required) (use read_one_line [OF o] trim_newline [OF o] in \<open>auto simp: demo_tcp_def\<close>)
  then show ?thesis by blast
qed

end
