(* ===== verification/Wallet.thy ===== *)
theory Wallet
  imports Transactions Addresses
begin

text \<open>
  Key files. \<^verbatim>\<open>src/src/wallet/mod.rs\<close>, the wallet of the node, and \<^verbatim>\<open>src/sdk/wasm/src/lib.rs\<close>, the wallet of the browser: generating keys, encrypting and decrypting wallets,
  migrating plain wallet files, building and signing transfers. Argon2, AES-GCM, the JSON serialiser and the file system are parameters; the texts of their errors
  are left out. Random bytes are arguments. \<open>None\<close> is a panic. The properties: a saved wallet loads again, in the node as well as in the browser; a
  wrong password is reported and changes nothing; and a transfer built in the browser is the one the node would build and accepts.
\<close>

record wallet =
  w_keypair :: key_pair
  w_address :: string

record encrypted_wallet =
  ew_salt :: string
  ew_nonce :: string
  ew_ciphertext :: string
  ew_version :: u32

text \<open>The transaction as the browser prints it.\<close>
record transaction_json =
  tj_chain_id :: string
  tj_kind :: transaction_kind
  tj_from :: bytes
  tj_sender_public_key :: bytes
  tj_to :: bytes
  tj_amount :: u64
  tj_fee :: u64
  tj_max_fee_per_gas :: u64
  tj_max_priority_fee_per_gas :: u64
  tj_nonce :: u64
  tj_timestamp :: i64
  tj_signature :: "bytes option"
  tj_gas_limit :: u64
  tj_data :: bytes

type_synonym files = "string \<rightharpoonup> string"

record wallet_crates =
  wc_argon2 :: "string \<Rightarrow> bytes \<Rightarrow> bytes option" \<comment> \<open>password, salt\<close>
  wc_aes_encrypt :: "bytes \<Rightarrow> bytes \<Rightarrow> bytes \<Rightarrow> bytes option" \<comment> \<open>key, nonce, text\<close>
  wc_aes_decrypt :: "bytes \<Rightarrow> bytes \<Rightarrow> bytes \<Rightarrow> bytes option"
  wc_wallet_to_vec :: "wallet \<Rightarrow> bytes option"
  wc_wallet_pretty :: "wallet \<Rightarrow> string option"
  wc_wallet_from :: "bytes \<Rightarrow> wallet option"
  wc_encrypted_pretty :: "encrypted_wallet \<Rightarrow> string option"
  wc_encrypted_from :: "string \<Rightarrow> encrypted_wallet option"
  wc_sdk_encrypted_from :: "string \<Rightarrow> encrypted_wallet option" \<comment> \<open>with a default for the version\<close>
  wc_write :: "files \<Rightarrow> string \<Rightarrow> string \<Rightarrow> bool \<times> files" \<comment> \<open>whether the write succeeded\<close>
  wc_tx_json :: "transaction_json \<Rightarrow> string option"
  wc_tx_from :: "bytes \<Rightarrow> transaction option" \<comment> \<open>the node reading a transaction\<close>

datatype wallet_error = WalletIo | WalletSerialize | WalletEncryption | WrongPassword

section \<open>The wallet of the node\<close>

definition keypair_generate :: "externs \<Rightarrow> bytes \<Rightarrow> key_pair" where
  "keypair_generate X seed = \<lparr>kp_public_key = x_mldsa_public X seed, kp_secret_key = seed\<rparr>"

definition wallet_new :: "externs \<Rightarrow> bytes \<Rightarrow> wallet option" where
  "wallet_new X seed =
     (let keypair = keypair_generate X seed
      in map_option (\<lambda>a. \<lparr>w_keypair = keypair, w_address = a\<rparr>) (address_string_from_public_key X (kp_public_key keypair)))"

text \<open>\<^verbatim>\<open>Aes256Gcm::new_from_slice\<close> accepts keys of 32 bytes.\<close>
definition save_encrypted :: "externs \<Rightarrow> wallet_crates \<Rightarrow> bytes \<Rightarrow> bytes \<Rightarrow> files \<Rightarrow> wallet \<Rightarrow> string \<Rightarrow> string \<Rightarrow> (wallet_error + unit) \<times> files" where
  "save_encrypted X W salt nonce fs w path password =
     (case wc_wallet_to_vec W w of
        None \<Rightarrow> (Inl WalletSerialize, fs)
      | Some plaintext \<Rightarrow>
          (case wc_argon2 W password salt of
             None \<Rightarrow> (Inl WalletEncryption, fs)
           | Some key \<Rightarrow>
               if length key \<noteq> 32 then (Inl WalletEncryption, fs)
               else (case wc_aes_encrypt W key nonce plaintext of
                       None \<Rightarrow> (Inl WalletEncryption, fs)
                     | Some ciphertext \<Rightarrow>
                         (case wc_encrypted_pretty W \<lparr>ew_salt = x_hex_encode X salt, ew_nonce = x_hex_encode X nonce,
                              ew_ciphertext = x_hex_encode X ciphertext, ew_version = 1\<rparr> of
                            None \<Rightarrow> (Inl WalletSerialize, fs)
                          | Some text \<Rightarrow> (case wc_write W fs path text of
                              (ok, fs') \<Rightarrow> (if ok then Inr () else Inl WalletIo, fs'))))))"

text \<open>\<^verbatim>\<open>Nonce::from_slice\<close> panics on a slice that is not 12 bytes long.\<close>
definition load_encrypted :: "externs \<Rightarrow> wallet_crates \<Rightarrow> files \<Rightarrow> string \<Rightarrow> string \<Rightarrow> (wallet_error + wallet) option" where
  "load_encrypted X W fs path password =
     (case fs path of
        None \<Rightarrow> Some (Inl WalletIo)
      | Some data \<Rightarrow>
          (case wc_encrypted_from W data of
             None \<Rightarrow> Some (Inl WalletSerialize)
           | Some encrypted \<Rightarrow>
               (case (x_hex_decode X (ew_salt encrypted), x_hex_decode X (ew_nonce encrypted), x_hex_decode X (ew_ciphertext encrypted)) of
                  (Some salt, Some nonce_bytes, Some ciphertext) \<Rightarrow>
                    (case wc_argon2 W password salt of
                       None \<Rightarrow> Some (Inl WalletEncryption)
                     | Some key \<Rightarrow>
                         if length key \<noteq> 32 then Some (Inl WalletEncryption)
                         else if length nonce_bytes \<noteq> 12 then None
                         else Some (case wc_aes_decrypt W key nonce_bytes ciphertext of
                                None \<Rightarrow> Inl WrongPassword
                              | Some plaintext \<Rightarrow> (case wc_wallet_from W plaintext of None \<Rightarrow> Inl WalletSerialize | Some w \<Rightarrow> Inr w)))
                | _ \<Rightarrow> Some (Inl WalletSerialize))))"

text \<open>The plain files of older versions. Printing is expected to succeed.\<close>
definition wallet_save :: "wallet_crates \<Rightarrow> files \<Rightarrow> wallet \<Rightarrow> string \<Rightarrow> ((wallet_error + unit) \<times> files) option" where
  "wallet_save W fs w path = (case wc_wallet_pretty W w of
     None \<Rightarrow> None | Some text \<Rightarrow> (case wc_write W fs path text of (ok, fs') \<Rightarrow> Some (if ok then Inr () else Inl WalletIo, fs')))"

definition wallet_load :: "wallet_crates \<Rightarrow> files \<Rightarrow> string \<Rightarrow> wallet_error + wallet" where
  "wallet_load W fs path = (case fs path of
     None \<Rightarrow> Inl WalletIo | Some data \<Rightarrow> (case wc_wallet_from W (ascii data) of None \<Rightarrow> Inl WalletSerialize | Some w \<Rightarrow> Inr w))"

definition load_auto :: "externs \<Rightarrow> wallet_crates \<Rightarrow> bytes \<Rightarrow> bytes \<Rightarrow> files \<Rightarrow> string \<Rightarrow> string \<Rightarrow> ((wallet_error + wallet) \<times> files) option" where
  "load_auto X W salt nonce fs path password =
     (case load_encrypted X W fs path password of
        None \<Rightarrow> None
      | Some (Inr w) \<Rightarrow> Some (Inr w, fs)
      | Some (Inl e) \<Rightarrow>
          if e = WrongPassword then Some (Inl WrongPassword, fs)
          else case wallet_load W fs path of
                 Inl _ \<Rightarrow> Some (Inl WalletIo, fs)
               | Inr w \<Rightarrow> (case save_encrypted X W salt nonce fs w path password of
                   (Inl e, fs') \<Rightarrow> Some (Inl e, fs') | (Inr _, fs') \<Rightarrow> Some (Inr w, fs')))"

section \<open>The wallet of the browser\<close>

definition sdk_signing_key :: "key_pair \<Rightarrow> string + bytes" where
  "sdk_signing_key kp = (if length (kp_secret_key kp) \<noteq> 32
     then Inl (''secret key must be 32 bytes (was '' @ show_nat (length (kp_secret_key kp)) @ '')'') else Inr (kp_secret_key kp))"

definition sdk_sign_raw :: "externs \<Rightarrow> key_pair \<Rightarrow> bytes \<Rightarrow> string + bytes" where
  "sdk_sign_raw X kp message = (case sdk_signing_key kp of Inl e \<Rightarrow> Inl e | Inr seed \<Rightarrow> Inr (x_mldsa_sign X seed message))"

definition sdk_sign :: "externs \<Rightarrow> key_pair \<Rightarrow> bytes \<Rightarrow> string + string" where
  "sdk_sign X kp message = (case sdk_sign_raw X kp message of Inl e \<Rightarrow> Inl e | Inr sig \<Rightarrow> Inr (x_hex_encode X sig))"

definition sdk_from_bytes :: "externs \<Rightarrow> bytes \<Rightarrow> bytes \<Rightarrow> string + key_pair" where
  "sdk_from_bytes X public_key secret_key =
     (let kp = \<lparr>kp_public_key = public_key, kp_secret_key = secret_key\<rparr> in
      case sdk_signing_key kp of
        Inl e \<Rightarrow> Inl e
      | Inr seed \<Rightarrow>
          if length public_key \<noteq> MLDSA_PK_LEN then Inl ''invalid public key length''
          else if x_mldsa_public X seed \<noteq> public_key then Inl ''public key does not match secret key seed''
          else Inr kp)"

definition sdk_address :: "externs \<Rightarrow> key_pair \<Rightarrow> string option" where
  "sdk_address X kp = checksum_address X (address_bytes_from_public_key X (kp_public_key kp))"

definition sdk_verify_signature :: "externs \<Rightarrow> string \<Rightarrow> bytes \<Rightarrow> string \<Rightarrow> bool" where
  "sdk_verify_signature X public_key_hex message signature_hex =
     (case x_hex_decode X public_key_hex of
        None \<Rightarrow> False
      | Some pk_bytes \<Rightarrow>
          (case x_hex_decode X signature_hex of
             None \<Rightarrow> False
           | Some sig_bytes \<Rightarrow>
               if length pk_bytes \<noteq> MLDSA_PK_LEN then False
               else if length sig_bytes \<noteq> MLDSA_SIG_LEN then False
               else case x_mldsa_sig_decode X sig_bytes of None \<Rightarrow> False | Some sig \<Rightarrow> x_mldsa_verify X pk_bytes message sig))"

definition encrypt_wallet :: "externs \<Rightarrow> wallet_crates \<Rightarrow> bytes \<Rightarrow> bytes \<Rightarrow> key_pair \<Rightarrow> string \<Rightarrow> (string + string) option" where
  "encrypt_wallet X W salt nonce kp password =
     (case sdk_address X kp of
        None \<Rightarrow> None
      | Some a \<Rightarrow>
          Some (case wc_wallet_to_vec W \<lparr>w_keypair = kp, w_address = a\<rparr> of
             None \<Rightarrow> Inl ''serialize: ''
           | Some plaintext \<Rightarrow>
               (case wc_argon2 W password salt of
                  None \<Rightarrow> Inl ''argon2: ''
                | Some key \<Rightarrow>
                    if length key \<noteq> 32 then Inl ''aes-gcm key: ''
                    else (case wc_aes_encrypt W key nonce plaintext of
                            None \<Rightarrow> Inl ''aes-gcm encrypt: ''
                          | Some ciphertext \<Rightarrow>
                              (case wc_encrypted_pretty W \<lparr>ew_salt = x_hex_encode X salt, ew_nonce = x_hex_encode X nonce,
                                   ew_ciphertext = x_hex_encode X ciphertext, ew_version = 1\<rparr> of
                                 None \<Rightarrow> Inl ''serialize-out: '' | Some text \<Rightarrow> Inr text)))))"

definition decrypt_wallet :: "externs \<Rightarrow> wallet_crates \<Rightarrow> string \<Rightarrow> string \<Rightarrow> string + key_pair" where
  "decrypt_wallet X W json password =
     (case wc_sdk_encrypted_from W json of
        None \<Rightarrow> Inl ''parse json: ''
      | Some blob \<Rightarrow>
          (case x_hex_decode X (ew_salt blob) of None \<Rightarrow> Inl ''salt hex: '' | Some salt \<Rightarrow>
          (case x_hex_decode X (ew_nonce blob) of None \<Rightarrow> Inl ''nonce hex: '' | Some nonce_bytes \<Rightarrow>
          (case x_hex_decode X (ew_ciphertext blob) of None \<Rightarrow> Inl ''ciphertext hex: '' | Some ciphertext \<Rightarrow>
             if length nonce_bytes \<noteq> 12 then Inl (''nonce must be 12 bytes (was '' @ show_nat (length nonce_bytes) @ '')'')
             else (case wc_argon2 W password salt of
                     None \<Rightarrow> Inl ''argon2: ''
                   | Some key \<Rightarrow>
                       if length key \<noteq> 32 then Inl ''aes-gcm key: ''
                       else (case wc_aes_decrypt W key nonce_bytes ciphertext of
                               None \<Rightarrow> Inl ''wrong password''
                             | Some plaintext \<Rightarrow>
                                 (case wc_wallet_from W plaintext of
                                    None \<Rightarrow> Inl ''decode wallet: ''
                                  | Some w \<Rightarrow> sdk_from_bytes X (kp_public_key (w_keypair w)) (kp_secret_key (w_keypair w)))))))))"

text \<open>The payload that is signed has the fields of the payload of the node in the same order, so it serialises alike.\<close>
definition build_transfer_tx_inner :: "externs \<Rightarrow> wallet_crates \<Rightarrow> key_pair \<Rightarrow> bytes \<Rightarrow> u64 \<Rightarrow> u64 \<Rightarrow> u64 \<Rightarrow> i64 \<Rightarrow> string \<Rightarrow> string + string" where
  "build_transfer_tx_inner X W kp to' amount fee nonce timestamp chain_id =
     (let from' = address_bytes_from_public_key X (kp_public_key kp);
          prefixed = ascii ''curs3d-tx-v1:'' @ x_bin_tx X
            \<lparr>st_chain_id = chain_id, st_kind = Transfer, st_from = from', st_sender_public_key = kp_public_key kp, st_to = to', st_amount = amount,
             st_fee = fee, st_max_fee_per_gas = fee, st_max_priority_fee_per_gas = fee, st_nonce = nonce, st_timestamp = timestamp,
             st_gas_limit = 0, st_data = []\<rparr>
      in case sdk_sign_raw X kp prefixed of
           Inl e \<Rightarrow> Inl e
         | Inr sig \<Rightarrow>
             (case wc_tx_json W \<lparr>tj_chain_id = chain_id, tj_kind = Transfer, tj_from = from', tj_sender_public_key = kp_public_key kp, tj_to = to',
                  tj_amount = amount, tj_fee = fee, tj_max_fee_per_gas = fee, tj_max_priority_fee_per_gas = fee, tj_nonce = nonce,
                  tj_timestamp = timestamp, tj_signature = Some sig, tj_gas_limit = 0, tj_data = []\<rparr> of
                None \<Rightarrow> Inl ''serialize tx: '' | Some text \<Rightarrow> Inr text))"

definition build_transfer_tx_advanced :: "externs \<Rightarrow> wallet_crates \<Rightarrow> key_pair \<Rightarrow> string \<Rightarrow> u64 \<Rightarrow> u64 \<Rightarrow> u64 \<Rightarrow> i64 \<Rightarrow> string \<Rightarrow> string + string" where
  "build_transfer_tx_advanced X W kp to_address amount fee nonce timestamp chain_id =
     (case sdk_parse_address X to_address of
        Inl e \<Rightarrow> Inl e | Inr to' \<Rightarrow> build_transfer_tx_inner X W kp to' amount fee nonce timestamp chain_id)"

definition build_transfer_tx :: "externs \<Rightarrow> wallet_crates \<Rightarrow> i64 \<Rightarrow> key_pair \<Rightarrow> string \<Rightarrow> u64 \<Rightarrow> u64 \<Rightarrow> u64 \<Rightarrow> string + string" where
  "build_transfer_tx X W now kp to_address amount fee nonce =
     build_transfer_tx_advanced X W kp to_address amount fee nonce now ''curs3d-public-testnet''"

section \<open>Properties\<close>

text \<open>What the code relies on: the serialisers read back what they print, decryption inverts encryption, a successful write replaces the file.\<close>
definition wallet_laws :: "wallet_crates \<Rightarrow> bool" where
  "wallet_laws W \<longleftrightarrow> (\<forall>w b. wc_wallet_to_vec W w = Some b \<longrightarrow> wc_wallet_from W b = Some w)
     \<and> (\<forall>e t. wc_encrypted_pretty W e = Some t \<longrightarrow> wc_encrypted_from W t = Some e \<and> wc_sdk_encrypted_from W t = Some e)
     \<and> (\<forall>k n p c. wc_aes_encrypt W k n p = Some c \<longrightarrow> wc_aes_decrypt W k n c = Some p)
     \<and> (\<forall>fs path t fs'. wc_write W fs path t = (True, fs') \<longrightarrow> fs' = fs(path \<mapsto> t))"

text \<open>Authenticated encryption: a ciphertext does not decrypt under another key.\<close>
definition aead_authentic :: "wallet_crates \<Rightarrow> bool" where
  "aead_authentic W \<longleftrightarrow> (\<forall>k k' n p c. wc_aes_encrypt W k n p = Some c \<longrightarrow> k' \<noteq> k \<longrightarrow> wc_aes_decrypt W k' n c = None)"

text \<open>A text that holds a wallet encrypted under a password.\<close>
definition sealed :: "externs \<Rightarrow> wallet_crates \<Rightarrow> bytes \<Rightarrow> bytes \<Rightarrow> wallet \<Rightarrow> string \<Rightarrow> string \<Rightarrow> bool" where
  "sealed X W salt nonce w password content \<longleftrightarrow> (\<exists>plaintext key ciphertext. wc_wallet_to_vec W w = Some plaintext \<and> wc_argon2 W password salt = Some key
     \<and> length key = 32 \<and> wc_aes_encrypt W key nonce plaintext = Some ciphertext
     \<and> wc_encrypted_pretty W \<lparr>ew_salt = x_hex_encode X salt, ew_nonce = x_hex_encode X nonce, ew_ciphertext = x_hex_encode X ciphertext, ew_version = 1\<rparr>
         = Some content)"

lemma save_sealed:
  assumes "wallet_laws W" "save_encrypted X W salt nonce fs w path password = (Inr (), fs')"
  shows "\<exists>content. sealed X W salt nonce w password content \<and> fs' = fs(path \<mapsto> content)"
  using assms by (auto simp: save_encrypted_def sealed_def wallet_laws_def split: option.splits if_splits prod.splits)

lemma encrypt_sealed:
  assumes "encrypt_wallet X W salt nonce kp password = Some (Inr content)"
  shows "\<exists>a. sdk_address X kp = Some a \<and> sealed X W salt nonce \<lparr>w_keypair = kp, w_address = a\<rparr> password content"
  using assms by (auto simp: encrypt_wallet_def sealed_def split: option.splits if_splits)

lemma sealed_loads:
  assumes "wallet_laws W" "hex_crate X" "length nonce = 12" "sealed X W salt nonce w password content" "fs path = Some content"
  shows "load_encrypted X W fs path password = Some (Inr w)"
  using assms by (auto simp: sealed_def load_encrypted_def wallet_laws_def)

lemma sealed_stays_closed:
  assumes "wallet_laws W" "aead_authentic W" "hex_crate X" "length nonce = 12" "sealed X W salt nonce w password content" "fs path = Some content"
    and "wc_argon2 W other salt = Some key" "length key = 32" "wc_argon2 W password salt \<noteq> Some key"
  shows "load_encrypted X W fs path other = Some (Inl WrongPassword)"
proof -
  obtain plaintext k c where s: "wc_argon2 W password salt = Some k" "wc_aes_encrypt W k nonce plaintext = Some c"
    "wc_encrypted_pretty W \<lparr>ew_salt = x_hex_encode X salt, ew_nonce = x_hex_encode X nonce, ew_ciphertext = x_hex_encode X c, ew_version = 1\<rparr> = Some content"
    using assms(5) by (auto simp: sealed_def)
  have "wc_aes_decrypt W key nonce c = None" using assms(2,9) s(1,2) unfolding aead_authentic_def by metis
  moreover have "wc_encrypted_from W content
      = Some \<lparr>ew_salt = x_hex_encode X salt, ew_nonce = x_hex_encode X nonce, ew_ciphertext = x_hex_encode X c, ew_version = 1\<rparr>"
    using assms(1) s(3) by (simp add: wallet_laws_def)
  ultimately show ?thesis using assms(3,4,6-8) by (simp add: load_encrypted_def)
qed

text \<open>A wallet file opens with its password and with no other. After \<open>save_encrypted\<close>, \<open>load_auto\<close> with the same password returns the wallet; with a password
  that derives another key it reports a wrong password. In both cases the file stays as it is.\<close>
theorem wallet_opens_with_its_password:
  assumes "wallet_laws W" "aead_authentic W" "hex_crate X" "length nonce = 12" "save_encrypted X W salt nonce fs w path password = (Inr (), fs')"
    and "wc_argon2 W other salt = Some key" "length key = 32" "wc_argon2 W password salt \<noteq> Some key"
  shows "load_auto X W salt' nonce' fs' path password = Some (Inr w, fs') \<and> load_auto X W salt' nonce' fs' path other = Some (Inl WrongPassword, fs')"
proof -
  obtain content where t: "sealed X W salt nonce w password content" "fs' path = Some content" using save_sealed [OF assms(1,5)] by auto
  show ?thesis
    using sealed_loads [OF assms(1,3,4) t(1), of fs' path] sealed_stays_closed [OF assms(1-4) t(1), of fs' path other key] t(2) assms(6-8) by (simp add: load_auto_def)
qed

text \<open>Migration of a plain wallet file. When \<open>load_auto\<close> returns a wallet from a file in the old format, it is the wallet of that file, and the file now holds it
  encrypted under the password given.\<close>
theorem wallet_migration:
  assumes "wallet_laws W" "hex_crate X" "length nonce = 12" "wc_encrypted_from W data = None" "fs path = Some data"
    and "load_auto X W salt nonce fs path password = Some (Inr w, fs')"
  shows "wc_wallet_from W (ascii data) = Some w \<and> (\<exists>content. fs' = fs(path \<mapsto> content) \<and> sealed X W salt nonce w password content)
    \<and> load_encrypted X W fs' path password = Some (Inr w)"
proof -
  have "load_encrypted X W fs path password = Some (Inl WalletSerialize)" using assms(4,5) by (simp add: load_encrypted_def)
  then have w: "wc_wallet_from W (ascii data) = Some w" "save_encrypted X W salt nonce fs w path password = (Inr (), fs')"
    using assms(5,6) by (auto simp: load_auto_def wallet_load_def split: option.splits prod.splits sum.splits)
  obtain content where t: "sealed X W salt nonce w password content" "fs' = fs(path \<mapsto> content)" using save_sealed [OF assms(1) w(2)] by auto
  then show ?thesis using w(1) sealed_loads [OF assms(1-3) t(1), of fs' path] by auto
qed

text \<open>The wallets of node and browser are interchangeable. A file the node saved decrypts in the browser to the same key pair, and what the browser encrypts
  loads in the node as a wallet with that key pair and its address.\<close>
theorem wallet_interchange:
  assumes "wallet_laws W" "hex_crate X" "length nonce = 12" "kp = keypair_generate X seed" "length seed = 32" "length (kp_public_key kp) = MLDSA_PK_LEN"
  shows "(save_encrypted X W salt nonce fs w path password = (Inr (), fs') \<and> w_keypair w = kp
      \<longrightarrow> (\<exists>content. fs' path = Some content \<and> decrypt_wallet X W content password = Inr kp))
    \<and> (encrypt_wallet X W salt nonce kp password = Some (Inr content) \<and> fs path = Some content
      \<longrightarrow> (\<exists>a. address_string_from_public_key X (kp_public_key kp) = Some a \<and> load_encrypted X W fs path password = Some (Inr \<lparr>w_keypair = kp, w_address = a\<rparr>)))"
proof (intro conjI impI)
  have kp: "sdk_from_bytes X (kp_public_key kp) (kp_secret_key kp) = Inr kp"
    using assms(4-6) by (simp add: sdk_from_bytes_def sdk_signing_key_def keypair_generate_def)
  assume "save_encrypted X W salt nonce fs w path password = (Inr (), fs') \<and> w_keypair w = kp"
  then obtain content where t: "sealed X W salt nonce w password content" "fs' path = Some content" "w_keypair w = kp"
    using save_sealed [OF assms(1)] by fastforce
  then have "decrypt_wallet X W content password = Inr kp" using assms(1-3) kp by (auto simp: sealed_def decrypt_wallet_def wallet_laws_def)
  then show "\<exists>content. fs' path = Some content \<and> decrypt_wallet X W content password = Inr kp" using t(2) by blast
next
  assume e: "encrypt_wallet X W salt nonce kp password = Some (Inr content) \<and> fs path = Some content"
  then obtain a where a: "sdk_address X kp = Some a" "sealed X W salt nonce \<lparr>w_keypair = kp, w_address = a\<rparr> password content"
    using encrypt_sealed by blast
  then have "load_encrypted X W fs path password = Some (Inr \<lparr>w_keypair = kp, w_address = a\<rparr>)"
    using sealed_loads [OF assms(1-3) a(2)] e by blast
  then show "\<exists>a. address_string_from_public_key X (kp_public_key kp) = Some a \<and> load_encrypted X W fs path password = Some (Inr \<lparr>w_keypair = kp, w_address = a\<rparr>)"
    using a(1) by (simp add: sdk_address_def address_string_from_public_key_def)
qed

text \<open>The browser checks the length of a nonce, the node does not: a file with another length panics it.\<close>
lemma short_nonce_panics:
  assumes "wc_encrypted_from W data = Some e" "fs path = Some data" "x_hex_decode X (ew_salt e) = Some salt" "x_hex_decode X (ew_nonce e) = Some nonce"
    and "x_hex_decode X (ew_ciphertext e) = Some c" "wc_argon2 W password salt = Some key" "length key = 32" "length nonce \<noteq> 12"
  shows "load_auto X W s n fs path password = None"
  using assms by (simp add: load_auto_def load_encrypted_def)

section \<open>Transfers built in the browser\<close>

text \<open>How the node reads the transaction of the browser; the missing field gets its default.\<close>
definition tx_of_json :: "transaction_json \<Rightarrow> transaction" where
  "tx_of_json t = \<lparr>tx_chain_id = tj_chain_id t, tx_kind = tj_kind t, tx_from = tj_from t, tx_sender_public_key = tj_sender_public_key t, tx_to = tj_to t,
     tx_amount = tj_amount t, tx_fee = tj_fee t, tx_max_fee_per_gas = tj_max_fee_per_gas t, tx_max_priority_fee_per_gas = tj_max_priority_fee_per_gas t,
     tx_nonce = tj_nonce t, tx_timestamp = tj_timestamp t, tx_signature = tj_signature t, tx_gas_limit = tj_gas_limit t, tx_data = tj_data t, tx_evm_raw_tx = []\<rparr>"

definition tx_json_law :: "wallet_crates \<Rightarrow> bool" where
  "tx_json_law W \<longleftrightarrow> (\<forall>t s. wc_tx_json W t = Some s \<longrightarrow> wc_tx_from W (ascii s) = Some (tx_of_json t))"

text \<open>C33. A transfer built in the browser is the transfer of the node. What \<open>buildTransferTx\<close> returns reads on the node as the very transaction the node builds with
  \<open>Transaction::new\<close> for the parsed recipient and signs with the same key, so its signature verifies there.\<close>
theorem sdk_transfer_is_node_transfer:
  assumes "tx_json_law W" "mldsa_correct X kp" "build_transfer_tx_advanced X W kp to_address amount fee nonce timestamp chain_id = Inr content"
  shows "\<exists>to' tx. sdk_parse_address X to_address = Inr to' \<and> wc_tx_from W (ascii content) = Some tx
    \<and> tx_sign X (tx_new X timestamp chain_id (kp_public_key kp) to' amount fee nonce) kp = Some tx \<and> tx_verify_signature X tx"
proof -
  let ?from = "address_bytes_from_public_key X (kp_public_key kp)"
  obtain to' where to': "sdk_parse_address X to_address = Inr to'" "build_transfer_tx_inner X W kp to' amount fee nonce timestamp chain_id = Inr content"
    using assms(3) by (auto simp: build_transfer_tx_advanced_def split: sum.splits)
  let ?tx = "tx_new X timestamp chain_id (kp_public_key kp) to' amount fee nonce"
  obtain tx where tx: "tx_sign X ?tx kp = Some tx" "tx_verify_signature X tx"
    using sign_verify_roundtrip [OF assms(2), of ?tx] by (auto simp: tx_new_def native_tx_def is_evm_def)
  have len: "length (kp_secret_key kp) = 32" using assms(2) by (simp add: mldsa_correct_def)
  have "tx = tx_of_json \<lparr>tj_chain_id = chain_id, tj_kind = Transfer, tj_from = ?from, tj_sender_public_key = kp_public_key kp, tj_to = to',
      tj_amount = amount, tj_fee = fee, tj_max_fee_per_gas = fee, tj_max_priority_fee_per_gas = fee, tj_nonce = nonce,
      tj_timestamp = timestamp, tj_signature = Some (x_mldsa_sign X (kp_secret_key kp) (signable_bytes X ?tx)), tj_gas_limit = 0, tj_data = []\<rparr>"
    using tx(1) len by (simp add: tx_sign_def dilithium_sign_def is_coinbase_def tx_new_def native_tx_def tx_of_json_def)
  moreover have "signable_bytes X ?tx = ascii ''curs3d-tx-v1:'' @ x_bin_tx X
            \<lparr>st_chain_id = chain_id, st_kind = Transfer, st_from = ?from, st_sender_public_key = kp_public_key kp, st_to = to', st_amount = amount,
             st_fee = fee, st_max_fee_per_gas = fee, st_max_priority_fee_per_gas = fee, st_nonce = nonce, st_timestamp = timestamp,
             st_gas_limit = 0, st_data = []\<rparr>"
    by (simp add: signable_bytes_def tx_new_def native_tx_def max_fee_per_gas_def max_priority_fee_per_gas_def Let_def)
  ultimately have "wc_tx_from W (ascii content) = Some tx"
    using to'(2) assms(1) len by (auto simp: build_transfer_tx_inner_def sdk_sign_raw_def sdk_signing_key_def tx_json_law_def Let_def split: option.splits)
  then show ?thesis using to'(1) tx by blast
qed

section \<open>Instances\<close>

text \<open>A key derivation that keeps the password, an authenticated cipher that keeps its key, and texts for one wallet and one transaction.\<close>
definition demo_crates :: "wallet \<Rightarrow> transaction_json \<Rightarrow> wallet_crates" where
  "demo_crates w t = \<lparr>
     wc_argon2 = (\<lambda>p s. Some (take 32 (ascii p @ replicate 32 0))),
     wc_aes_encrypt = (\<lambda>k n p. if length k = 32 then Some (k @ p) else None),
     wc_aes_decrypt = (\<lambda>k n c. if length k = 32 \<and> take 32 c = k then Some (drop 32 c) else None),
     wc_wallet_to_vec = (\<lambda>w'. if w' = w then Some [0] else None),
     wc_wallet_pretty = (\<lambda>w'. if w' = w then Some [CHR 0x00] else None),
     wc_wallet_from = (\<lambda>b. if b = [0] then Some w else None),
     wc_encrypted_pretty = (\<lambda>e. if length (ew_salt e) = 32 \<and> length (ew_nonce e) = 24 \<and> ew_version e = 1
       then Some (ew_salt e @ ew_nonce e @ ew_ciphertext e) else None),
     wc_encrypted_from = (\<lambda>d. if 56 \<le> length d
       then Some \<lparr>ew_salt = take 32 d, ew_nonce = take 24 (drop 32 d), ew_ciphertext = drop 56 d, ew_version = 1\<rparr> else None),
     wc_sdk_encrypted_from = (\<lambda>d. if 56 \<le> length d
       then Some \<lparr>ew_salt = take 32 d, ew_nonce = take 24 (drop 32 d), ew_ciphertext = drop 56 d, ew_version = 1\<rparr> else None),
     wc_write = (\<lambda>fs path d. (True, fs(path \<mapsto> d))),
     wc_tx_json = (\<lambda>t'. if t' = t then Some ''t'' else None),
     wc_tx_from = (\<lambda>b. if b = ascii ''t'' then Some (tx_of_json t) else None)\<rparr>"

lemma demo_wallet_laws [simp]: "wallet_laws (demo_crates w t)" "aead_authentic (demo_crates w t)" "tx_json_law (demo_crates w t)"
  by (auto simp: wallet_laws_def aead_authentic_def tx_json_law_def demo_crates_def split: if_splits)

abbreviation demo_salt :: bytes where "demo_salt \<equiv> replicate 16 5"
abbreviation demo_nonce :: bytes where "demo_nonce \<equiv> replicate 12 6"

lemma length_demo_hex [simp]: "length (demo_hex_encode b) = 2 * length b"
  using demo_hex_digits [of b] by simp

lemma demo_save:
  "\<exists>content. save_encrypted demo_externs (demo_crates w t) demo_salt demo_nonce fs w path password = (Inr (), fs(path \<mapsto> content))"
proof -
  have "length (take 32 (ascii password @ replicate 32 0)) = 32" by simp
  then show ?thesis by (auto simp: save_encrypted_def demo_crates_def min_def)
qed

definition demo_wallet_keys :: key_pair where
  "demo_wallet_keys = keypair_generate demo_externs (replicate 32 1)"

text \<open>The transfer of the browser in the instance, from these keys to the address \<open>7\<close>.\<close>
definition demo_json :: transaction_json where
  "demo_json = (let from' = address_bytes_from_public_key demo_externs (kp_public_key demo_wallet_keys) in
     \<lparr>tj_chain_id = ''c'', tj_kind = Transfer, tj_from = from', tj_sender_public_key = kp_public_key demo_wallet_keys, tj_to = replicate 20 7,
      tj_amount = 5, tj_fee = 1, tj_max_fee_per_gas = 1, tj_max_priority_fee_per_gas = 1, tj_nonce = 0, tj_timestamp = 9,
      tj_signature = Some (demo_sign (replicate 32 1) (ascii ''curs3d-tx-v1:'' @ u64_le 0 @ from')), tj_gas_limit = 0, tj_data = []\<rparr>)"

lemma demo_wallet_keys:
  "kp_secret_key demo_wallet_keys = replicate 32 1" "length (kp_public_key demo_wallet_keys) = 2592" "take 32 (kp_public_key demo_wallet_keys) = replicate 32 1"
  by (simp_all add: demo_wallet_keys_def keypair_generate_def)

theorem wallet_opens_with_its_password_witness:
  "\<exists>W w fs. load_auto demo_externs W demo_salt demo_nonce fs ''w'' ''pw'' = Some (Inr w, fs)
     \<and> load_auto demo_externs W demo_salt demo_nonce fs ''w'' ''no'' = Some (Inl WrongPassword, fs)"
proof -
  let ?w = "\<lparr>w_keypair = demo_wallet_keys, w_address = ''a''\<rparr>"
  let ?W = "demo_crates ?w demo_json"
  obtain content where s: "save_encrypted demo_externs ?W demo_salt demo_nonce Map.empty ?w ''w'' ''pw'' = (Inr (), [''w'' \<mapsto> content])"
    using demo_save by blast
  have k: "wc_argon2 ?W ''no'' demo_salt = Some (take 32 (ascii ''no'' @ replicate 32 0))" "wc_argon2 ?W ''pw'' demo_salt \<noteq> Some (take 32 (ascii ''no'' @ replicate 32 0))"
    by (simp_all add: demo_crates_def ascii_def)
  have "length demo_nonce = 12" "length (take 32 (ascii ''no'' @ replicate 32 0)) = 32" by simp_all
  then show ?thesis using wallet_opens_with_its_password [OF demo_wallet_laws(1,2) demo_hex_crate _ s k(1) _ k(2), of demo_salt demo_nonce] by blast
qed

theorem wallet_migration_witness:
  "\<exists>W w fs'. wc_wallet_from W (ascii [CHR 0x00]) = Some w \<and> load_encrypted demo_externs W fs' ''w'' ''pw'' = Some (Inr w)"
proof -
  let ?w = "\<lparr>w_keypair = demo_wallet_keys, w_address = ''a''\<rparr>"
  let ?W = "demo_crates ?w demo_json" and ?fs = "[''w'' \<mapsto> [CHR 0x00]]"
  obtain content where s: "save_encrypted demo_externs ?W demo_salt demo_nonce ?fs ?w ''w'' ''pw'' = (Inr (), ?fs(''w'' \<mapsto> content))"
    using demo_save by blast
  have o: "wc_encrypted_from ?W [CHR 0x00] = None" "wc_wallet_from ?W (ascii [CHR 0x00]) = Some ?w" by (simp_all add: demo_crates_def ascii_def)
  have l: "load_auto demo_externs ?W demo_salt demo_nonce ?fs ''w'' ''pw'' = Some (Inr ?w, ?fs(''w'' \<mapsto> content))"
    using s o by (simp add: load_auto_def load_encrypted_def wallet_load_def)
  have "length demo_nonce = 12" "?fs ''w'' = Some [CHR 0x00]" by simp_all
  then show ?thesis using wallet_migration [OF demo_wallet_laws(1) demo_hex_crate _ o(1) _ l] by blast
qed

theorem wallet_interchange_witness:
  "\<exists>W fs' content. fs' ''w'' = Some content \<and> decrypt_wallet demo_externs W content ''pw'' = Inr demo_wallet_keys"
proof -
  let ?w = "\<lparr>w_keypair = demo_wallet_keys, w_address = ''a''\<rparr>"
  let ?W = "demo_crates ?w demo_json"
  obtain content where s: "save_encrypted demo_externs ?W demo_salt demo_nonce Map.empty ?w ''w'' ''pw'' = (Inr (), [''w'' \<mapsto> content])"
    using demo_save by blast
  then show ?thesis
    using wallet_interchange [OF demo_wallet_laws(1) demo_hex_crate _ demo_wallet_keys_def,
        where nonce = demo_nonce and salt = demo_salt and fs = Map.empty and w = ?w and path = "''w''" and password = "''pw''" and fs' = "[''w'' \<mapsto> content]"]
      demo_wallet_keys(2) by (fastforce simp: MLDSA_PK_LEN_def)
qed

lemma demo_wallet_mldsa: "mldsa_correct demo_externs demo_wallet_keys"
  by (simp add: mldsa_correct_def demo_wallet_keys MLDSA_PK_LEN_def MLDSA_SIG_LEN_def)

theorem sdk_transfer_is_node_transfer_witness:
  "\<exists>W content to' tx. build_transfer_tx_advanced demo_externs W demo_wallet_keys (''CUR'' @ demo_hex_encode (replicate 20 7)) 5 1 0 9 ''c'' = Inr content
     \<and> sdk_parse_address demo_externs (''CUR'' @ demo_hex_encode (replicate 20 7)) = Inr to'
     \<and> wc_tx_from W (ascii content) = Some tx \<and> tx_verify_signature demo_externs tx"
proof -
  let ?to = "''CUR'' @ demo_hex_encode (replicate 20 7)"
  let ?W = "demo_crates \<lparr>w_keypair = demo_wallet_keys, w_address = ''a''\<rparr> demo_json"
  have "sdk_parse_address demo_externs ?to = Inr (replicate 20 7)"
    using strip_prefix_append [of "''CUR''"] by (simp add: sdk_parse_address_def ADDRESS_LEN_def)
  then have b: "build_transfer_tx_advanced demo_externs ?W demo_wallet_keys ?to 5 1 0 9 ''c'' = Inr ''t''"
    by (simp add: build_transfer_tx_advanced_def build_transfer_tx_inner_def sdk_sign_raw_def sdk_signing_key_def demo_wallet_keys demo_crates_def demo_json_def Let_def)
  show ?thesis using sdk_transfer_is_node_transfer [OF demo_wallet_laws(3) demo_wallet_mldsa b] b by blast
qed

end
