(* ===== verification/Spec2Isabelle.thy ===== *)
theory Spec2Isabelle
  imports Chain_Run Persist_Worker Snapshot Light Node_Run Sync_Restart Rpc Wallet
begin

text \<open>
  CURS3D, a proof-of-stake layer-1 node in Rust (\<^verbatim>\<open>src/src\<close>), modelled by shallow embedding.

  \<^bold>\<open>The program.\<close> A node keeps a ledger of accounts, contracts, tokens and governance proposals, executes
  blocks of transactions on it, follows the heaviest branch of a block tree, and finalizes blocks by
  stake-weighted votes. WebAssembly contracts run under wasmer with injected gas metering, EVM
  contracts under revm. State roots and Merkle proofs let light clients check single accounts.

  \<^bold>\<open>Theories.\<close>
  \<^item> \<open>Prelude\<close>: machine integers (\<open>u64\<close> is \<open>64 word\<close>; wrapping, saturating and checked arithmetic),
    sums over finite maps, and the locales \<open>transition_system\<close> and \<open>monotone_system\<close> for components
    whose steps keep an invariant; they are interpreted on tokens, governance, the finality tracker, the
    block tree and the host functions of the VM.
  \<^item> \<open>Chain_Types\<close>: the structs and enums of the node as records and datatypes; \<open>externs\<close>, the record of
    third-party functions (SHA-3, ML-DSA-87, bincode, serde_json, alloy, wasmer, revm), an argument
    of the definitions that use it. \<open>Demo_Externs\<close> instantiates it for the witnesses.
  \<^item> \<open>Crypto_Hash\<close> (\<^verbatim>\<open>crypto/hash.rs\<close>, \<^verbatim>\<open>crypto/dilithium.rs\<close>): digests, addresses, Merkle trees. Proofs of inclusion
    are complete, and binding up to an explicit collision whatever index and path they carry.
  \<^item> \<open>Transactions\<close>, \<open>Blocks\<close> (\<^verbatim>\<open>core/transaction.rs\<close>, \<^verbatim>\<open>core/block.rs\<close>, \<^verbatim>\<open>core/checkpoints.rs\<close>): construction,
    hashing, signing, fee arithmetic. Round trips of signing and checking; bounds of the gas price.
  \<^item> \<open>Tokens\<close> (\<^verbatim>\<open>token/mod.rs\<close>), \<open>Governance\<close> (\<^verbatim>\<open>governance/mod.rs\<close>): the whole components, with supply and
    tally invariants of all reachable states and the outcome of every operation.
  \<^item> \<open>Consensus\<close>, \<open>Finality\<close> (\<^verbatim>\<open>consensus/mod.rs\<close>, parts of \<^verbatim>\<open>core/chain/consensus.rs\<close>): leader schedule, slashing,
    settlement, finality votes with quorum and accountable safety.
  \<^item> \<open>Block_Tree\<close> (\<^verbatim>\<open>core/blocktree.rs\<close>): fork choice and irreversibility of finality.
  \<^item> \<open>Wasm_Vm\<close>, \<open>Evm\<close> (\<^verbatim>\<open>vm/mod.rs\<close>, \<^verbatim>\<open>vm/evm.rs\<close>): metering, host functions, deployment and calls.
  \<^item> \<open>Apply\<close> (\<^verbatim>\<open>core/chain/apply.rs\<close>): execution of one transaction on the ledger, exact wealth accounting and
    replay protection.
  \<^item> \<open>State_Root\<close> (\<^verbatim>\<open>trie/mod.rs\<close>, \<^verbatim>\<open>core/state_root.rs\<close>, \<^verbatim>\<open>core/state_proof.rs\<close>): both state-root schemes; the sparse
    trie refines the recursive tree, every account and slot has a proof, and an accepted account proof is true up to an explicit collision.
  \<^item> \<open>Block_Store\<close> (\<^verbatim>\<open>core/block_store.rs\<close>, \<^verbatim>\<open>storage/backend.rs\<close>): the paginated block view; the locale \<open>block_backend\<close> is
    the contract of a backend, interpreted on the in-memory and the redb one. The cursor shows the abstract chain whatever its cache evicts, when every
    append is written; what happens without the write is shown as well.
  \<^item> \<open>Chain_State\<close> (\<^verbatim>\<open>core/chain/mod.rs\<close>, \<^verbatim>\<open>genesis.rs\<close>, \<^verbatim>\<open>consensus.rs\<close>, \<^verbatim>\<open>finality.rs\<close>): the chain object, genesis, base fee, epoch
    snapshots, proposer authorisation, finality votes and slashing on the chain.
  \<^item> \<open>Block_Apply\<close> (\<^verbatim>\<open>core/chain/apply.rs\<close>): validation and adoption of blocks; what an adopted block guarantees, the amount of its
    coinbase included, and the supply over a block.
  \<^item> \<open>Production\<close> (\<^verbatim>\<open>core/chain/produce.rs\<close>): block assembly; a produced block is accepted, under conditions on epoch, pool and clocks.
  \<^item> \<open>Mempool\<close> (\<^verbatim>\<open>core/chain/mempool.rs\<close>): admission, replacement, eviction; the limits of the pool.
  \<^item> \<open>Replay\<close>, \<open>Reorg\<close> (\<^verbatim>\<open>core/chain/replay.rs\<close>, \<^verbatim>\<open>reorg.rs\<close>): rebuilding the state from blocks gives the live state; fork choice and
    reorganisation.
  \<^item> \<open>Chain_Run\<close>: the chain object as one state machine over all its operations, with the invariant that ties block tree, finality
    tracker, stored blocks and pool together, and the finality of the node.
  \<^item> \<open>Storage\<close>, \<open>Finite_State\<close>, \<open>Persistence\<close> (\<^verbatim>\<open>storage/mod.rs\<close>, \<^verbatim>\<open>core/chain/persistence.rs\<close>, \<^verbatim>\<open>core/chain/mod.rs\<close>): the tables of the database, the
    full-state write as a list of transactions, opening a database. The maps of a reachable chain are finite; a restart gives the ledger that was
    written, also after a crash between two transactions, with the finalized height that was committed.
  \<^item> \<open>Persist_Worker\<close> (\<^verbatim>\<open>core/chain/mod.rs\<close>): the persistence thread, its bounded queue and its full-state slot, interleaved with the node; no full
    state is lost, but its finalized height may be overwritten by an older one.
  \<^item> \<open>Snapshot\<close> (\<^verbatim>\<open>core/chain/snapshot.rs\<close>): creating, chunking, checking and applying snapshots; the round trip, and what applying does not check.
  \<^item> \<open>Light\<close> (\<^verbatim>\<open>light/mod.rs\<close>): the light client follows the headers of a chain and is bound to one history by its last header.
  \<^item> \<open>Peers\<close> (\<^verbatim>\<open>network/mod.rs\<close>): rate limiter, peer scores, address book, pending broadcasts.
  \<^item> \<open>Node\<close> (\<^verbatim>\<open>network/mod.rs\<close>): the event loop of the node: \<open>node\<close> holds the variables of \<^verbatim>\<open>run_with_chain\<close>, \<open>node_iteration\<close> is one iteration for
    one event (a timer, a gossip message, a connection); what the swarm and the clock decide is the record \<open>node_env\<close>.
  \<^item> \<open>Node_Sync\<close>: two nodes exchanging requests and responses: block synchronisation converges to the state of the server.
  \<^item> \<open>Node_Run\<close>: runs of the event loop: it refines the chain state machine, its buffers are bounded; two ways a peer can halt a node.
  \<^item> \<open>Sync_Restart\<close>: a node with synchronous persistence can be stopped between any two blocks, transactions or votes and reopens as it was.
  \<^item> \<open>Rust_Text\<close>, \<open>Addresses\<close> (\<^verbatim>\<open>crypto/hash.rs\<close>, \<^verbatim>\<open>core/types.rs\<close> and the parsers of the interfaces): string functions of the Rust library; the checksummed
    text of addresses, its round trip, and what the checksum detects.
  \<^item> \<open>Tx_Index\<close>, \<open>Json\<close>, \<open>Eth_Rpc\<close> (\<^verbatim>\<open>api/eth_rpc.rs\<close>): the hash indexes of a chain hold exactly its blocks and transactions; JSON values; the Ethereum JSON-RPC,
    whose batches are answered request by request, whose texts read back, and which finds every adopted transaction.
  \<^item> \<open>Rpc\<close> (\<^verbatim>\<open>rpc/mod.rs\<close>, \<^verbatim>\<open>core/chain/estimate.rs\<close>): the line protocol of the command line and the dry run of a transaction: estimates are exact, a
    call returns what the node computed, a configured token is required.
  \<^item> \<open>Wallet\<close> (\<^verbatim>\<open>wallet/mod.rs\<close>, \<^verbatim>\<open>src/sdk/wasm/src/lib.rs\<close>): wallet files open with their password only, move between node and browser, and a transfer built in
    the browser is the one the node builds.

  \<^bold>\<open>Interfaces.\<close> \<open>transition_system\<close> and \<open>monotone_system\<close> (steps that keep an invariant or a preorder) are interpreted on tokens, governance, finality
  tracker, block tree, VM host, mempool, chain, peer scores, event loop and sync gate; \<open>block_backend\<close> on both block backends, \<open>serializer\<close> (what is
  encoded decodes to itself) on the big-endian keys, \<open>durable_store\<close> (full writes succeed, small jobs keep them) on the redb tables. The
  properties rest on the facts of these interpretations.

  \<^bold>\<open>Loops.\<close> The only loop run on fuel is the walk along parent links of the block tree; its fuel is the height of the
    start plus one, and every reachable tree is linked by heights, so the walk reaches the root. The lineage of a replay is a
    \<open>partial_function\<close>, shown to return on every reachable chain (\<open>fork_choice_terminates\<close>). All other loops are structural or have
    a termination proof with a measure: the worker loop by its queue, the chunking of a snapshot by the remaining bytes, the decimal
    printer by its argument.

  \<^bold>\<open>Not modelled.\<close> The libp2p swarm, WebSocket events and metrics, the routing of the HTTP API, the command line and the start of the process:
  input and output around the operations above. The chain operations are those of a chain whose block cursor shows every appended block, as it does
  without storage and with synchronous persistence; \<open>Block_Store\<close> says when a cursor on redb does not.
\<close>

end
